(* ===== verification/Prelude.thy ===== *)
theory Prelude
  imports Main "HOL-Library.Word"
begin

text \<open>
  The shared vocabulary of the development: Rust's machine integers as words,
  panics as values of a sum type, bounds-checked slices and buffer writes,
  little- and big-endian byte strings, and the generic list and word lemmas the
  component theories use. The kernel and its tools are built in Cargo's debug
  profile, where integer overflow panics; \<open>add_chk\<close> and its kin say so.
\<close>

unbundle bit_operations_syntax

section \<open>Machine integers\<close>

type_synonym u8 = "8 word"
type_synonym u16 = "16 word"
type_synonym u32 = "32 word"
type_synonym u64 = "64 word"
type_synonym usize = "64 word"
type_synonym bytes = "u8 list"

definition usize_max :: usize where
  "usize_max = - 1"

section \<open>Panics as values\<close>

datatype fault =
    IndexOutOfBounds
  | LengthMismatch
  | ArithOverflow
  | UnwrapNone
  | ExpectFailed string
  | AssertFailed string
  | Panicked string

type_synonym 'a result = "fault + 'a"

definition bindr :: "'a result \<Rightarrow> ('a \<Rightarrow> 'b result) \<Rightarrow> 'b result" where
  "bindr r f = (case r of Inl e \<Rightarrow> Inl e | Inr x \<Rightarrow> f x)"

definition assertr :: "bool \<Rightarrow> fault \<Rightarrow> unit result" where
  "assertr b e = (if b then Inr () else Inl e)"

definition expectr :: "'a option \<Rightarrow> fault \<Rightarrow> 'a result" where
  "expectr v e = (case v of None \<Rightarrow> Inl e | Some x \<Rightarrow> Inr x)"

text \<open>\<open>holds r P\<close>: the computation returns (it does not panic) and its value satisfies \<open>P\<close>.\<close>

definition holds :: "'a result \<Rightarrow> ('a \<Rightarrow> bool) \<Rightarrow> bool" where
  "holds r P = (case r of Inl e \<Rightarrow> False | Inr x \<Rightarrow> P x)"

definition returns :: "'a result \<Rightarrow> bool" where
  "returns r = holds r (\<lambda>_. True)"

named_theorems wp \<open>decomposition of \<open>holds\<close> over the panic monad\<close>

lemma bindr_Inr [simp]: "bindr (Inr x) f = f x"
  by (simp add: bindr_def)

lemma bindr_Inl [simp]: "bindr (Inl e) f = Inl e"
  by (simp add: bindr_def)

lemma bindr_assoc: "bindr (bindr r f) g = bindr r (\<lambda>x. bindr (f x) g)"
  by (cases r) simp_all

lemma bindr_eq_Inr_iff: "bindr r f = Inr y \<longleftrightarrow> (\<exists>x. r = Inr x \<and> f x = Inr y)"
  by (cases r) simp_all

lemma holds_Inr [simp, wp]: "holds (Inr x) P = P x"
  by (simp add: holds_def)

lemma holds_Inl [simp, wp]: "holds (Inl e) P = False"
  by (simp add: holds_def)

lemma holds_bindr [wp]: "holds (bindr r f) P = holds r (\<lambda>x. holds (f x) P)"
  by (cases r) simp_all

lemma holds_assertr [wp]: "holds (assertr b e) P = (b \<and> P ())"
  by (simp add: assertr_def)

lemma holds_expectr [wp]: "holds (expectr v e) P = (\<exists>x. v = Some x \<and> P x)"
  by (cases v) (simp_all add: expectr_def)

lemma holds_if [wp]: "holds (if b then r else r') P = (if b then holds r P else holds r' P)"
  by simp

lemma holds_let [wp]: "holds (let x = a in f x) P = holds (f a) P"
  by (simp add: Let_def)

lemma holds_mono: "holds r P \<Longrightarrow> (\<And>x. r = Inr x \<Longrightarrow> P x \<Longrightarrow> Q x) \<Longrightarrow> holds r Q"
  by (cases r) simp_all

lemma holds_bindI: "holds r Q \<Longrightarrow> (\<And>x. Q x \<Longrightarrow> holds (f x) P) \<Longrightarrow> holds (bindr r f) P"
  by (cases r) simp_all

lemma holds_conj: "holds r (\<lambda>x. P x \<and> Q x) \<longleftrightarrow> holds r P \<and> holds r Q"
  by (cases r) simp_all

lemma holds_iff: "holds r P \<longleftrightarrow> (\<exists>x. r = Inr x \<and> P x)"
  by (cases r) simp_all

lemma returns_iff: "returns r \<longleftrightarrow> (\<exists>x. r = Inr x)"
  by (cases r) (simp_all add: returns_def)

lemma returnsI: "holds r P \<Longrightarrow> returns r"
  by (cases r) (simp_all add: returns_def)

section \<open>Single-bit masks\<close>

lemma bit_shift1: "bit (push_bit n 1 :: 'a::len word) i \<longleftrightarrow> i = n \<and> n < LENGTH('a)"
  by (auto simp: bit_simps dest: bit_imp_le_length)

lemma and_shift1_eq_0: "w AND push_bit n 1 = 0 \<longleftrightarrow> \<not> bit w n" for w :: "'a::len word"
proof -
  have "w AND push_bit n 1 = 0 \<longleftrightarrow> (\<forall>i. \<not> (bit w i \<and> i = n \<and> n < LENGTH('a)))"
    using bit_eq_iff [of "w AND push_bit n 1" 0]
    by (simp add: bit_and_iff bit_shift1 del: push_bit_of_1) (metis bit_imp_le_length)
  then show ?thesis by (auto dest: bit_imp_le_length)
qed

lemmas bit_mask_simps = bit_shift1 and_shift1_eq_0 bit_and_iff bit_or_iff bit_not_iff

section \<open>Checked arithmetic\<close>

definition add_chk :: "'a::len word \<Rightarrow> 'a word \<Rightarrow> 'a word result" where
  "add_chk a b = (if unat a + unat b < 2 ^ LENGTH('a) then Inr (a + b) else Inl ArithOverflow)"

definition checked_add :: "'a::len word \<Rightarrow> 'a word \<Rightarrow> 'a word option" where
  "checked_add a b = (if unat a + unat b < 2 ^ LENGTH('a) then Some (a + b) else None)"

definition saturating_add :: "'a::len word \<Rightarrow> 'a word \<Rightarrow> 'a word" where
  "saturating_add a b = (if unat a + unat b < 2 ^ LENGTH('a) then a + b else - 1)"

lemma unat_add_fits:
  "unat a + unat b < 2 ^ LENGTH('a) \<Longrightarrow> unat (a + b) = unat a + unat b"
  for a b :: "'a::len word"
  by (simp add: unat_word_ariths)

lemma holds_add_chk [wp]:
  "holds (add_chk a b) P \<longleftrightarrow> unat a + unat b < 2 ^ LENGTH('a) \<and> P (a + b)"
  for a b :: "'a::len word"
  by (simp add: add_chk_def)

lemma checked_add_Some_iff:
  "checked_add a b = Some c \<longleftrightarrow> unat c = unat a + unat b"
  for a b c :: "'a::len word"
proof
  assume "checked_add a b = Some c"
  then show "unat c = unat a + unat b"
    by (auto simp: checked_add_def unat_add_fits split: if_splits)
next
  assume c: "unat c = unat a + unat b"
  then have "unat a + unat b < 2 ^ LENGTH('a)"
    using unsigned_less [of c, where ?'a = nat] by simp
  moreover from this c have "c = a + b"
    by (metis unat_add_fits word_unat_eq_iff)
  ultimately show "checked_add a b = Some c"
    by (simp add: checked_add_def)
qed

lemma saturating_add_ge: "unat a \<le> unat (saturating_add a b)"
  for a b :: "'a::len word"
proof (cases "unat a + unat b < 2 ^ LENGTH('a)")
  case True
  then show ?thesis by (simp add: saturating_add_def unat_add_fits)
next
  case False
  then show ?thesis by (simp add: saturating_add_def flip: word_le_nat_alt)
qed

section \<open>Bounds-checked buffers\<close>

text \<open>\<open>xs[i]\<close>, \<open>&xs[a..b]\<close>, \<open>xs[i] = v\<close> and \<open>xs[off..off + n].copy_from_slice(src)\<close>.\<close>

definition idx :: "'a list \<Rightarrow> nat \<Rightarrow> 'a result" where
  "idx xs i = (if i < length xs then Inr (xs ! i) else Inl IndexOutOfBounds)"

definition slice :: "'a list \<Rightarrow> nat \<Rightarrow> nat \<Rightarrow> 'a list result" where
  "slice xs a b = (if a \<le> b \<and> b \<le> length xs then Inr (take (b - a) (drop a xs)) else Inl IndexOutOfBounds)"

definition set_at :: "'a list \<Rightarrow> nat \<Rightarrow> 'a \<Rightarrow> 'a list result" where
  "set_at xs i v = (if i < length xs then Inr (xs[i := v]) else Inl IndexOutOfBounds)"

definition overlay :: "'a list \<Rightarrow> nat \<Rightarrow> 'a list \<Rightarrow> 'a list" where
  "overlay xs off src = take off xs @ src @ drop (off + length src) xs"

definition put_at :: "'a list \<Rightarrow> nat \<Rightarrow> 'a list \<Rightarrow> 'a list result" where
  "put_at xs off src = (if off + length src \<le> length xs then Inr (overlay xs off src) else Inl IndexOutOfBounds)"

text \<open>\<open>xs.get(i)\<close>.\<close>

definition get :: "'a list \<Rightarrow> nat \<Rightarrow> 'a option" where
  "get xs i = (if i < length xs then Some (xs ! i) else None)"

text \<open>\<open>xs.get(a..b)\<close>.\<close>

definition get_range :: "'a list \<Rightarrow> nat \<Rightarrow> nat \<Rightarrow> 'a list option" where
  "get_range xs a b = (if a \<le> b \<and> b \<le> length xs then Some (take (b - a) (drop a xs)) else None)"

lemma holds_idx [wp]: "holds (idx xs i) P \<longleftrightarrow> i < length xs \<and> P (xs ! i)"
  by (simp add: idx_def)

lemma holds_slice [wp]:
  "holds (slice xs a b) P \<longleftrightarrow> a \<le> b \<and> b \<le> length xs \<and> P (take (b - a) (drop a xs))"
  by (auto simp: slice_def)

lemma holds_set_at [wp]: "holds (set_at xs i v) P \<longleftrightarrow> i < length xs \<and> P (xs[i := v])"
  by (simp add: set_at_def)

lemma holds_put_at [wp]:
  "holds (put_at xs off src) P \<longleftrightarrow> off + length src \<le> length xs \<and> P (overlay xs off src)"
  by (simp add: put_at_def)

lemma length_overlay [simp]: "off + length src \<le> length xs \<Longrightarrow> length (overlay xs off src) = length xs"
  by (simp add: overlay_def)

lemma nth_overlay:
  assumes "off + length src \<le> length xs" and "i < length xs"
  shows "overlay xs off src ! i =
    (if i < off then xs ! i else if i < off + length src then src ! (i - off) else xs ! i)"
proof -
  have "i - (off + length src) + (off + length src) = i" if "off + length src \<le> i"
    using that by simp
  then show ?thesis
    using assms by (auto simp: overlay_def nth_append min_def)
qed

lemma slice_overlay_same:
  "off + length src \<le> length xs \<Longrightarrow> take (length src) (drop off (overlay xs off src)) = src"
  by (simp add: overlay_def)

lemma slice_overlay_disjoint:
  assumes "off + length src \<le> length xs" and "a + n \<le> off \<or> off + length src \<le> a"
  shows "take n (drop a (overlay xs off src)) = take n (drop a xs)"
proof (cases "a + n \<le> length xs")
  case True
  show ?thesis
    by (rule nth_equalityI) (use assms True in \<open>auto simp: nth_overlay\<close>)
next
  case False
  with assms have "off + length src \<le> a" by linarith
  then obtain k where k: "a = off + length src + k"
    using le_Suc_ex by blast
  from assms(1) have "drop a (overlay xs off src) = drop a xs"
    by (simp add: k overlay_def min_def ac_simps)
  then show ?thesis by simp
qed

text \<open>The \<open>n\<close> elements at offset \<open>off\<close>, and what a copy into the buffer does to them.\<close>

definition field :: "nat \<Rightarrow> nat \<Rightarrow> 'a list \<Rightarrow> 'a list" where
  "field off n xs = take n (drop off xs)"

lemma field_overlay [simp]:
  "n = length src \<Longrightarrow> off + length src \<le> length xs \<Longrightarrow> field off n (overlay xs off src) = src"
  by (simp add: field_def slice_overlay_same)

lemma field_overlay_other [simp]:
  "off + length src \<le> length xs \<Longrightarrow> a + n \<le> off \<or> off + length src \<le> a \<Longrightarrow>
     field a n (overlay xs off src) = field a n xs"
  by (simp add: field_def slice_overlay_disjoint)

lemma length_field [simp]: "off + n \<le> length xs \<Longrightarrow> length (field off n xs) = n"
  by (simp add: field_def)

lemma slice_field: "off + n \<le> length xs \<Longrightarrow> slice xs off (off + n) = Inr (field off n xs)"
  by (simp add: slice_def field_def)

lemma put_at_fits: "off + length src \<le> length xs \<Longrightarrow> put_at xs off src = Inr (overlay xs off src)"
  by (simp add: put_at_def)

text \<open>A run of copies into one buffer, in order; copies that follow each other without a gap write
  the concatenation of their sources.\<close>

fun put_all :: "'a list \<Rightarrow> (nat \<times> 'a list) list \<Rightarrow> 'a list result" where
  "put_all xs [] = Inr xs"
| "put_all xs ((off, src) # ws) = bindr (put_at xs off src) (\<lambda>xs. put_all xs ws)"

fun tiled :: "nat \<Rightarrow> (nat \<times> 'a list) list \<Rightarrow> bool" where
  "tiled off [] \<longleftrightarrow> True"
| "tiled off ((a, src) # ws) \<longleftrightarrow> a = off \<and> tiled (off + length src) ws"

lemma overlay_Nil [simp]: "overlay xs off [] = xs"
  by (simp add: overlay_def)

lemma overlay_overlay:
  "off + length a + length b \<le> length xs \<Longrightarrow> overlay (overlay xs off a) (off + length a) b = overlay xs off (a @ b)"
  by (simp add: overlay_def ac_simps)

lemma put_all_tiled:
  "tiled off ws \<Longrightarrow> off + length (concat (map snd ws)) \<le> length xs \<Longrightarrow>
     put_all xs ws = Inr (overlay xs off (concat (map snd ws)))"
proof (induction xs ws arbitrary: off rule: put_all.induct)
  case (2 xs a src ws)
  then have "put_all (overlay xs off src) ws = Inr (overlay (overlay xs off src) (off + length src) (concat (map snd ws)))"
    by (simp add: put_at_fits)
  then show ?case using 2(2,3) by (simp add: put_at_fits overlay_overlay)
qed simp

lemma put_all_fits:
  "list_all (\<lambda>(off, src). off + length src \<le> length xs) ws \<Longrightarrow> \<exists>ys. put_all xs ws = Inr ys \<and> length ys = length xs"
proof (induction xs ws rule: put_all.induct)
  case (2 xs off src ws)
  then show ?case using 2(1) [of "overlay xs off src"] by (simp add: put_at_fits)
qed simp

lemma field_field: "a + m \<le> n \<Longrightarrow> field a m (field off n xs) = field (off + a) m xs"
  by (simp add: field_def drop_take min_def add.commute)

lemma field_all [simp]: "n = length xs \<Longrightarrow> field 0 n xs = xs"
  by (simp add: field_def)

lemma nth_field: "i < n \<Longrightarrow> off + n \<le> length xs \<Longrightarrow> field off n xs ! i = xs ! (off + i)"
  by (simp add: field_def)

lemma get_Some_iff: "get xs i = Some x \<longleftrightarrow> i < length xs \<and> xs ! i = x"
  by (auto simp: get_def)

lemma get_None_iff: "get xs i = None \<longleftrightarrow> length xs \<le> i"
  by (auto simp: get_def)

section \<open>First index satisfying a predicate\<close>

text \<open>\<open>xs.iter().position(p)\<close>.\<close>

fun position :: "('a \<Rightarrow> bool) \<Rightarrow> 'a list \<Rightarrow> nat option" where
  "position p [] = None"
| "position p (x # xs) = (if p x then Some 0 else map_option Suc (position p xs))"

lemma position_Some_iff:
  "position p xs = Some i \<longleftrightarrow> i < length xs \<and> p (xs ! i) \<and> (\<forall>j<i. \<not> p (xs ! j))"
proof (induction xs arbitrary: i)
  case Nil
  show ?case by simp
next
  case (Cons x xs)
  show ?case
  proof (cases i)
    case 0
    then show ?thesis by (cases "p x") auto
  next
    case (Suc k)
    then show ?thesis
      using Cons.IH [of k] by (auto simp: less_Suc_eq_0_disj nth_Cons split: nat.splits)
  qed
qed

lemma position_None_iff: "position p xs = None \<longleftrightarrow> (\<forall>x\<in>set xs. \<not> p x)"
  by (induction xs) auto

lemma position_SomeD: "position p xs = Some i \<Longrightarrow> i < length xs \<and> p (xs ! i)"
  by (simp add: position_Some_iff)

lemma find_append: "find P (xs @ ys) = (case find P xs of None \<Rightarrow> find P ys | Some x \<Rightarrow> Some x)"
  by (induction xs) auto

section \<open>Endianness\<close>

fun le_bytes :: "nat \<Rightarrow> 'a::len word \<Rightarrow> bytes" where
  "le_bytes 0 w = []"
| "le_bytes (Suc n) w = ucast w # le_bytes n (drop_bit 8 w)"

fun le_word :: "bytes \<Rightarrow> 'a::len word" where
  "le_word [] = 0"
| "le_word (b # bs) = ucast b OR push_bit 8 (le_word bs)"

definition be_bytes :: "nat \<Rightarrow> 'a::len word \<Rightarrow> bytes" where
  "be_bytes n w = rev (le_bytes n w)"

definition be_word :: "bytes \<Rightarrow> 'a::len word" where
  "be_word bs = le_word (rev bs)"

lemma length_le_bytes [simp]: "length (le_bytes n w) = n"
  by (induction n arbitrary: w) simp_all

lemma length_be_bytes [simp]: "length (be_bytes n w) = n"
  by (simp add: be_bytes_def)

lemma ucast_OR_split:
  "ucast (ucast w :: u8) OR push_bit 8 (take_bit n (drop_bit 8 w)) = take_bit (8 + n) w"
  for w :: "'a::len word"
  by (rule bit_word_eqI)
    (auto simp: bit_simps)

lemma le_word_le_bytes: "le_word (le_bytes n w) = take_bit (8 * n) w"
  for w :: "'a::len word"
proof (induction n arbitrary: w)
  case 0
  show ?case by simp
next
  case (Suc n)
  then show ?case using ucast_OR_split [of w "8 * n"] by simp
qed

lemma be_word_be_bytes: "be_word (be_bytes n w) = take_bit (8 * n) w"
  for w :: "'a::len word"
  by (simp add: be_word_def be_bytes_def le_word_le_bytes)

lemma take_bit_word_full [simp]: "LENGTH('a) \<le> n \<Longrightarrow> take_bit n w = w"
  for w :: "'a::len word"
  by (rule bit_word_eqI) (auto simp: bit_simps dest: bit_imp_le_length)

lemma le_bytes_le_word:
  "8 * length bs \<le> LENGTH('a) \<Longrightarrow> le_bytes (length bs) (le_word bs :: 'a::len word) = bs"
proof (induction bs)
  case Nil
  show ?case by simp
next
  case (Cons b bs)
  let ?r = "le_word bs :: 'a word"
  have lo: "ucast (ucast b OR push_bit 8 ?r) = b"
    by (rule bit_word_eqI) (use Cons.prems in \<open>auto simp: bit_simps\<close>)
  have bound: "take_bit (8 * length bs) ?r = ?r"
  proof -
    have "le_bytes (length bs) ?r = bs" using Cons by simp
    then have "le_word (le_bytes (length bs) ?r) = ?r" by simp
    then show ?thesis by (simp add: le_word_le_bytes)
  qed
  have hi: "drop_bit 8 (ucast b OR push_bit 8 ?r) = ?r"
  proof (rule bit_word_eqI)
    fix i assume i: "i < LENGTH('a)"
    have "bit ?r i \<Longrightarrow> i < 8 * length bs"
      using bound by (metis bit_take_bit_iff)
    then show "bit (drop_bit 8 (ucast b OR push_bit 8 ?r)) i = bit ?r i"
      using Cons.prems i by (auto simp: bit_simps dest: bit_imp_le_length)
  qed
  have "le_bytes (length bs) ?r = bs" using Cons by simp
  then show ?case using lo hi by (simp del: drop_bit_or)
qed

lemmas endian_roundtrip [simp] = le_word_le_bytes be_word_be_bytes

end
