(* ===== verification/Cap.thy ===== *)
theory Cap
  imports Prelude
begin

text \<open>
  Capabilities (\<^verbatim>\<open>src/arch/riscv64/src/cap.rs\<close>): the authority tokens of a task's
  CSpace, the typed lookups every system call performs, and endpoint revocation
  on one CSpace. The interface \<open>cap_view\<close> states what all typed lookups share; it is
  interpreted on each of them.
\<close>

section \<open>Capabilities and their lookups\<close>

datatype capability =
    Endpoint nat
  | Restart nat
  | Randomness
  | Interrupt u32
  | Reply nat
  | Session

type_synonym cspace = "capability option list"

definition cap_lookup :: "cspace \<Rightarrow> nat \<Rightarrow> nat option" where
  "cap_lookup caps i = (case get caps i of Some (Some (Endpoint ep)) \<Rightarrow> Some ep | _ \<Rightarrow> None)"

definition cap_at :: "cspace \<Rightarrow> nat \<Rightarrow> capability option" where
  "cap_at caps i = (case get caps i of Some (Some cap) \<Rightarrow> Some cap | _ \<Rightarrow> None)"

fun revoke_in_caps :: "cspace \<Rightarrow> nat \<Rightarrow> cspace \<times> nat" where
  "revoke_in_caps [] ep = ([], 0)"
| "revoke_in_caps (slot # slots) ep =
     (let (rest, n) = revoke_in_caps slots ep
      in if slot = Some (Endpoint ep) then (None # rest, n + 1) else (slot # rest, n))"

definition restart_target :: "cspace \<Rightarrow> nat \<Rightarrow> nat option" where
  "restart_target caps i = (case get caps i of Some (Some (Restart slot)) \<Rightarrow> Some slot | _ \<Rightarrow> None)"

definition has_randomness :: "cspace \<Rightarrow> nat \<Rightarrow> bool" where
  "has_randomness caps i \<longleftrightarrow> get caps i = Some (Some Randomness)"

definition has_session :: "cspace \<Rightarrow> nat \<Rightarrow> bool" where
  "has_session caps i \<longleftrightarrow> get caps i = Some (Some Session)"

definition interrupt_irq :: "cspace \<Rightarrow> nat \<Rightarrow> u32 option" where
  "interrupt_irq caps i = (case get caps i of Some (Some (Interrupt irq)) \<Rightarrow> Some irq | _ \<Rightarrow> None)"

definition reply_caller :: "cspace \<Rightarrow> nat \<Rightarrow> nat option" where
  "reply_caller caps i = (case get caps i of Some (Some (Reply slot)) \<Rightarrow> Some slot | _ \<Rightarrow> None)"

text \<open>The capabilities a CSpace holds.\<close>

definition caps_of :: "cspace \<Rightarrow> capability set" where
  "caps_of caps = {c. Some c \<in> set caps}"

section \<open>Reading a CSpace\<close>

lemma cap_at_Some_iff: "cap_at caps i = Some c \<longleftrightarrow> i < length caps \<and> caps ! i = Some c"
  by (auto simp: cap_at_def get_def split: option.splits)

lemma cap_at_in_caps_of: "cap_at caps i = Some c \<Longrightarrow> c \<in> caps_of caps"
  by (auto simp: cap_at_Some_iff caps_of_def) (metis nth_mem)

lemma caps_of_iff: "c \<in> caps_of caps \<longleftrightarrow> (\<exists>i. cap_at caps i = Some c)"
  by (auto simp: caps_of_def cap_at_Some_iff in_set_conv_nth)

lemma caps_of_update: "caps_of (caps[i := Some c]) \<subseteq> insert c (caps_of caps)"
  using set_update_subset_insert [of caps i "Some c"] by (auto simp: caps_of_def)

lemma caps_of_clear: "caps_of (caps[i := None]) \<subseteq> caps_of caps"
  using set_update_subset_insert [of caps i None] by (auto simp: caps_of_def)

lemma caps_of_empty [simp]: "caps_of (replicate n None) = {}"
  by (auto simp: caps_of_def)

section \<open>The shape of a typed lookup\<close>

text \<open>
  Every lookup reads one slot and accepts one kind of capability: it is
  \<open>cap_at\<close> followed by a partial projection. The laws a system call relies on
  follow once: an empty slot, an index out of range and a capability of another
  kind are refused, and writing a slot changes the lookup of that slot only.
\<close>

locale cap_view =
  fixes view :: "cspace \<Rightarrow> nat \<Rightarrow> 'a option"
    and proj :: "capability \<Rightarrow> 'a option"
  assumes view_cap_at: "view caps i = Option.bind (cap_at caps i) proj"
begin

lemma view_out_of_range: "length caps \<le> i \<Longrightarrow> view caps i = None"
  by (auto simp: view_cap_at cap_at_def get_def)

lemma view_empty_slot: "caps ! i = None \<Longrightarrow> view caps i = None"
  by (auto simp: view_cap_at cap_at_def get_def)

lemma view_authority:
  "view caps i = Some x \<Longrightarrow> \<exists>c. c \<in> caps_of caps \<and> proj c = Some x"
  by (auto simp: view_cap_at bind_eq_Some_conv intro: cap_at_in_caps_of)

lemma view_store:
  "i < length caps \<Longrightarrow> view (caps[i := slot]) j = (if j = i then Option.bind slot proj else view caps j)"
  by (auto simp: view_cap_at cap_at_def get_def nth_list_update split: option.splits)

end

interpretation endpoint_view: cap_view cap_lookup "\<lambda>c. case c of Endpoint ep \<Rightarrow> Some ep | _ \<Rightarrow> None"
  by unfold_locales (auto simp: cap_lookup_def cap_at_def split: option.splits capability.splits)

interpretation restart_view: cap_view restart_target "\<lambda>c. case c of Restart t \<Rightarrow> Some t | _ \<Rightarrow> None"
  by unfold_locales (auto simp: restart_target_def cap_at_def split: option.splits capability.splits)

interpretation irq_view: cap_view interrupt_irq "\<lambda>c. case c of Interrupt q \<Rightarrow> Some q | _ \<Rightarrow> None"
  by unfold_locales (auto simp: interrupt_irq_def cap_at_def split: option.splits capability.splits)

interpretation reply_view: cap_view reply_caller "\<lambda>c. case c of Reply t \<Rightarrow> Some t | _ \<Rightarrow> None"
  by unfold_locales (auto simp: reply_caller_def cap_at_def split: option.splits capability.splits)

lemma cap_lookup_Some_iff: "cap_lookup caps i = Some ep \<longleftrightarrow> cap_at caps i = Some (Endpoint ep)"
  by (cases "cap_at caps i") (auto simp: endpoint_view.view_cap_at split: capability.splits)

lemma restart_target_Some_iff: "restart_target caps i = Some t \<longleftrightarrow> cap_at caps i = Some (Restart t)"
  by (cases "cap_at caps i") (auto simp: restart_view.view_cap_at split: capability.splits)

lemma reply_caller_Some_iff: "reply_caller caps i = Some t \<longleftrightarrow> cap_at caps i = Some (Reply t)"
  by (cases "cap_at caps i") (auto simp: reply_view.view_cap_at split: capability.splits)

lemma interrupt_irq_Some_iff: "interrupt_irq caps i = Some q \<longleftrightarrow> cap_at caps i = Some (Interrupt q)"
  by (cases "cap_at caps i") (auto simp: irq_view.view_cap_at split: capability.splits)

lemma has_session_iff: "has_session caps i \<longleftrightarrow> cap_at caps i = Some Session"
  by (auto simp: has_session_def cap_at_def split: option.splits)

lemma has_randomness_iff: "has_randomness caps i \<longleftrightarrow> cap_at caps i = Some Randomness"
  by (auto simp: has_randomness_def cap_at_def split: option.splits)

section \<open>Revocation on one CSpace\<close>

lemma revoke_in_caps_map:
  "revoke_in_caps caps ep =
     (map (\<lambda>slot. if slot = Some (Endpoint ep) then None else slot) caps,
      count_list caps (Some (Endpoint ep)))"
  by (induction caps) auto

lemma length_revoke_in_caps [simp]: "length (fst (revoke_in_caps caps ep)) = length caps"
  by (simp add: revoke_in_caps_map)

lemma cap_at_revoke:
  "cap_at (fst (revoke_in_caps caps ep)) i =
     (if cap_at caps i = Some (Endpoint ep) then None else cap_at caps i)"
  by (auto simp: revoke_in_caps_map cap_at_def get_def split: option.splits)

lemma caps_of_revoke: "caps_of (fst (revoke_in_caps caps ep)) = caps_of caps - {Endpoint ep}"
proof (rule set_eqI)
  fix c
  have "Some c \<in> set (fst (revoke_in_caps caps ep)) \<longleftrightarrow> Some c \<in> set caps \<and> c \<noteq> Endpoint ep"
    by (auto simp: revoke_in_caps_map image_iff split: if_splits)
  then show "c \<in> caps_of (fst (revoke_in_caps caps ep)) \<longleftrightarrow> c \<in> caps_of caps - {Endpoint ep}"
    by (auto simp: caps_of_def)
qed

end
