(* ===== verification/Trap.thy ===== *)
theory Trap
  imports Prelude
begin

text \<open>
  Trap decoding (\<^verbatim>\<open>src/arch/riscv64/src/trap.rs\<close>): the saved trap frame, the decoded
  causes and the instruction-length rule. The dispatcher that acts on a cause is in
  the theory \<open>Kernel\<close>, since it calls the scheduler.
\<close>

record trap_frame =
  regs :: "usize list"
  sepc :: usize
  sstatus :: usize
  scause :: usize
  stval :: usize

datatype cause =
    Breakpoint
  | SupervisorTimer
  | IllegalInstruction
  | InstructionPageFault
  | LoadPageFault
  | StorePageFault
  | UserEcall
  | SupervisorExternal
  | UnknownCause bool usize

definition INTERRUPT_BIT :: usize where
  "INTERRUPT_BIT = push_bit 63 1"

definition decode :: "usize \<Rightarrow> cause" where
  "decode sc =
     (let interrupt = sc AND INTERRUPT_BIT \<noteq> 0;
          code = sc AND NOT INTERRUPT_BIT
      in if \<not> interrupt \<and> code = 2 then IllegalInstruction
         else if \<not> interrupt \<and> code = 3 then Breakpoint
         else if interrupt \<and> code = 5 then SupervisorTimer
         else if interrupt \<and> code = 9 then SupervisorExternal
         else if \<not> interrupt \<and> code = 12 then InstructionPageFault
         else if \<not> interrupt \<and> code = 13 then LoadPageFault
         else if \<not> interrupt \<and> code = 15 then StorePageFault
         else if \<not> interrupt \<and> code = 8 then UserEcall
         else UnknownCause interrupt code)"

definition instruction_len :: "u16 \<Rightarrow> usize" where
  "instruction_len parcel = (if parcel AND 3 = 3 then 4 else 2)"

text \<open>\<open>sstatus.SPP\<close> is 0 when the trap came from U-mode.\<close>

definition from_user :: "trap_frame \<Rightarrow> bool" where
  "from_user f \<longleftrightarrow> sstatus f AND push_bit 8 1 = 0"

text \<open>The causes for which the handler kills a U-mode task instead of panicking.\<close>

definition contained :: "cause \<Rightarrow> bool" where
  "contained c \<longleftrightarrow> c \<in> {InstructionPageFault, LoadPageFault, StorePageFault, IllegalInstruction}"

section \<open>Decoding\<close>

text \<open>The interrupt bit and the code together determine the raw value.\<close>

definition encode_cause :: "bool \<Rightarrow> usize \<Rightarrow> usize" where
  "encode_cause i c = (if i then c OR INTERRUPT_BIT else c)"

lemma INTERRUPT_BIT_split:
  "encode_cause (sc AND INTERRUPT_BIT \<noteq> 0) (sc AND NOT INTERRUPT_BIT) = sc"
proof -
  have b: "sc AND INTERRUPT_BIT \<noteq> 0 \<longleftrightarrow> bit sc 63"
    unfolding INTERRUPT_BIT_def and_shift1_eq_0 by simp
  have "bit (if bit sc 63 then sc AND NOT INTERRUPT_BIT OR INTERRUPT_BIT
             else sc AND NOT INTERRUPT_BIT) i = bit sc i" if "i < 64" for i
    using that by (simp only: if_distrib [of "\<lambda>w. bit w i"] INTERRUPT_BIT_def bit_mask_simps) auto
  then show ?thesis
    unfolding encode_cause_def b by (intro bit_word_eqI) simp
qed

fun cause_code :: "cause \<Rightarrow> bool \<times> usize" where
  "cause_code IllegalInstruction = (False, 2)"
| "cause_code Breakpoint = (False, 3)"
| "cause_code SupervisorTimer = (True, 5)"
| "cause_code SupervisorExternal = (True, 9)"
| "cause_code InstructionPageFault = (False, 12)"
| "cause_code LoadPageFault = (False, 13)"
| "cause_code StorePageFault = (False, 15)"
| "cause_code UserEcall = (False, 8)"
| "cause_code (UnknownCause i c) = (i, c)"

lemma decode_lossless: "(case cause_code (decode sc) of (i, c) \<Rightarrow> encode_cause i c) = sc"
proof -
  have "cause_code (decode sc) = (sc AND INTERRUPT_BIT \<noteq> 0, sc AND NOT INTERRUPT_BIT)"
    by (auto simp: decode_def Let_def)
  then show ?thesis by (simp add: INTERRUPT_BIT_split)
qed

lemma instruction_len_cases: "instruction_len p \<in> {2, 4}"
  by (simp add: instruction_len_def)

end
