(* ===== verification/Task.thy ===== *)
theory Task
  imports Cap Trap
begin

text \<open>
  Tasks (\<^verbatim>\<open>src/arch/riscv64/src/task.rs\<close>): the saved register context, the scheduling
  state, the IPC message and the task record, with the pure helpers that forge a
  first-run context and bound restarts.
\<close>

record ctxt =
  ra :: usize
  sp :: usize
  sregs :: "usize list"

definition zeroed :: ctxt where
  "zeroed = \<lparr>ra = 0, sp = 0, sregs = replicate 12 0\<rparr>"

datatype ipc_role = RoleSend | RoleRecv | RoleCall

datatype task_state =
    Ready
  | Running
  | Exited
  | Blocked nat ipc_role
  | AwaitingReply
  | WaitingIrq u32

definition CAP_SLOTS :: nat where
  "CAP_SLOTS = 4"

record message =
  badge :: usize
  data :: "usize \<times> usize \<times> usize"

definition EMPTY_MSG :: message where
  "EMPTY_MSG = \<lparr>badge = 0, data = (0, 0, 0)\<rparr>"

record relaunch_info =
  entry_pc :: usize
  user_sp :: usize

definition can_restart :: "nat \<Rightarrow> nat \<Rightarrow> bool" where
  "can_restart restarts bound \<longleftrightarrow> restarts < bound"

datatype exit_reason = ExitedWith usize | Killed cause

definition user_sstatus :: "usize \<Rightarrow> usize" where
  "user_sstatus cur = (cur AND NOT (push_bit 8 1)) OR push_bit 5 1"

definition forge_user_context ::
  "usize \<Rightarrow> usize \<Rightarrow> usize \<Rightarrow> usize \<Rightarrow> usize \<Rightarrow> usize \<Rightarrow> ctxt" where
  "forge_user_context tramp entry usp kstack_top ss generation =
     zeroed\<lparr>ra := tramp,
            sp := kstack_top AND NOT 15,
            sregs := (sregs zeroed)[0 := entry, 1 := usp AND NOT 15, 2 := ss, 3 := generation]\<rparr>"

record task =
  t_context :: ctxt
  t_state :: task_state
  t_stack_top :: usize
  t_name :: string
  t_satp :: usize
  t_caps :: cspace
  t_message :: message
  t_relaunch :: "relaunch_info option"
  t_restarts :: nat
  t_crash_badge :: usize
  t_caller :: "nat option"
  t_pending_grant :: "capability option"

section \<open>First-run contexts\<close>

lemma user_sstatus_enters_user:
  "user_sstatus cur AND push_bit 8 1 = 0 \<and> bit (user_sstatus cur) 5"
proof
  show "user_sstatus cur AND push_bit 8 1 = 0"
    unfolding user_sstatus_def bit_mask_simps by simp
  show "bit (user_sstatus cur) 5"
    unfolding user_sstatus_def bit_mask_simps by simp
qed

lemma user_sstatus_other_bits:
  "i \<noteq> 5 \<Longrightarrow> i \<noteq> 8 \<Longrightarrow> bit (user_sstatus cur) i = bit cur i"
  unfolding user_sstatus_def bit_mask_simps by (auto dest: bit_imp_le_length)

lemma align16: "(w AND NOT 15) AND 15 = 0" for w :: usize
  by (simp add: and.assoc)

lemma forge_user_context_fields:
  "ra (forge_user_context tr en usp ks ss g) = tr"
  "sp (forge_user_context tr en usp ks ss g) = ks AND NOT 15"
  "sregs (forge_user_context tr en usp ks ss g) = [en, usp AND NOT 15, ss, g] @ replicate 8 0"
  by (simp_all add: forge_user_context_def zeroed_def numeral_eq_Suc)

text \<open>The capabilities a task owns or has in transit through a grant.\<close>

definition task_caps :: "task \<Rightarrow> capability set" where
  "task_caps t = caps_of (t_caps t) \<union> set_option (t_pending_grant t)"

end
