(* ===== verification/Rust_Str.thy ===== *)
theory Rust_Str
  imports Prelude
begin

text \<open>
  The part of Rust's \<^verbatim>\<open>core::str\<close> the kernel uses, on byte lists: UTF-8 validation,
  character boundaries, \<^verbatim>\<open>lines\<close>, \<^verbatim>\<open>trim\<close>, \<^verbatim>\<open>strip_prefix\<close>, \<^verbatim>\<open>split_once\<close> and
  unsigned decimal parsing. A \<^verbatim>\<open>&str\<close> is a byte list that \<open>valid_utf8\<close> accepts;
  every delimiter the sources search for is ASCII, so the byte-level definitions
  agree with the character-level ones on valid text.
\<close>

type_synonym rstr = bytes

text \<open>A string literal of the source, as bytes.\<close>

definition lit :: "string \<Rightarrow> bytes" where
  "lit s = map (\<lambda>c. word_of_nat (of_char c)) s"

abbreviation ascii :: "bytes \<Rightarrow> bool" where
  "ascii s \<equiv> \<forall>b\<in>set s. b < 0x80"

section \<open>UTF-8\<close>

definition cont_byte :: "u8 \<Rightarrow> bool" where
  "cont_byte b \<longleftrightarrow> 0x80 \<le> b \<and> b \<le> 0xBF"

text \<open>The length of a character from its first byte, or 0 when no character starts so.\<close>

definition lead_width :: "u8 \<Rightarrow> nat" where
  "lead_width b0 =
     (if b0 < 0x80 then 1
      else if 0xC2 \<le> b0 \<and> b0 \<le> 0xDF then 2
      else if 0xE0 \<le> b0 \<and> b0 \<le> 0xEF then 3
      else if 0xF0 \<le> b0 \<and> b0 \<le> 0xF4 then 4
      else 0)"

text \<open>No overlong forms, no surrogates, nothing above U+10FFFF.\<close>

definition second_ok :: "u8 \<Rightarrow> u8 \<Rightarrow> bool" where
  "second_ok b0 b1 \<longleftrightarrow>
     (b0 = 0xE0 \<longrightarrow> 0xA0 \<le> b1) \<and> (b0 = 0xED \<longrightarrow> b1 \<le> 0x9F) \<and>
     (b0 = 0xF0 \<longrightarrow> 0x90 \<le> b1) \<and> (b0 = 0xF4 \<longrightarrow> b1 \<le> 0x8F)"

definition tail_ok :: "u8 \<Rightarrow> bytes \<Rightarrow> bool" where
  "tail_ok b0 bs \<longleftrightarrow> list_all cont_byte bs \<and> (bs \<noteq> [] \<longrightarrow> second_ok b0 (hd bs))"

text \<open>The width of the first character, or 0 when the text does not start with a valid one.\<close>

fun char_width :: "bytes \<Rightarrow> nat" where
  "char_width [] = 0"
| "char_width (b0 # rest) =
     (let n = lead_width b0
      in if n \<noteq> 0 \<and> n \<le> Suc (length rest) \<and> tail_ok b0 (take (n - 1) rest) then n else 0)"

function valid_utf8 :: "bytes \<Rightarrow> bool" where
  "valid_utf8 bs =
     (if bs = [] then True
      else if char_width bs = 0 then False
      else valid_utf8 (drop (char_width bs) bs))"
  by pat_completeness auto
termination
  by (relation "measure length") auto

declare valid_utf8.simps [simp del]

definition from_utf8 :: "bytes \<Rightarrow> rstr option" where
  "from_utf8 bs = (if valid_utf8 bs then Some bs else None)"

definition is_char_boundary :: "rstr \<Rightarrow> nat \<Rightarrow> bool" where
  "is_char_boundary s k \<longleftrightarrow>
     k = 0 \<or> k = length s \<or> (k < length s \<and> \<not> cont_byte (s ! k))"

lemma valid_utf8_Nil [simp]: "valid_utf8 []"
  by (simp add: valid_utf8.simps)

lemma valid_utf8_ascii: "ascii bs \<Longrightarrow> valid_utf8 bs"
  by (induction bs) (auto simp: valid_utf8.simps lead_width_def tail_ok_def)

lemma from_utf8_ascii: "ascii bs \<Longrightarrow> from_utf8 bs = Some bs"
  by (simp add: from_utf8_def valid_utf8_ascii)

lemma char_width_le: "char_width s \<le> length s"
  by (cases s) (auto simp: Let_def)

lemma char_width_cont: "0 < i \<Longrightarrow> i < char_width s \<Longrightarrow> cont_byte (s ! i)"
  by (cases s) (auto simp: Let_def tail_ok_def list_all_length nth_Cons split: if_splits nat.splits)

lemma char_width_take:
  "char_width s \<noteq> 0 \<Longrightarrow> char_width s \<le> k \<Longrightarrow> char_width (take k s) = char_width s"
  by (cases s; cases k) (auto simp: Let_def min_def split: if_splits)

text \<open>Cutting valid text at a character boundary leaves valid text.\<close>

lemma valid_utf8_take:
  "valid_utf8 s \<Longrightarrow> is_char_boundary s k \<Longrightarrow> valid_utf8 (take k s)"
proof (induction s arbitrary: k rule: valid_utf8.induct)
  case (1 s)
  let ?w = "char_width s"
  show ?case
  proof (cases "s = [] \<or> k = 0")
    case True
    then show ?thesis by auto
  next
    case False
    with "1.prems"(1) have w: "?w \<noteq> 0" and v: "valid_utf8 (drop ?w s)"
      by (auto simp: valid_utf8.simps [of s] split: if_splits)
    have wk: "?w \<le> k"
    proof (rule ccontr)
      assume "\<not> ?w \<le> k"
      with False char_width_le [of s] have "cont_byte (s ! k)" "k < length s"
        using char_width_cont [of k s] by simp_all
      with "1.prems"(2) False show False by (simp add: is_char_boundary_def)
    qed
    have bk: "is_char_boundary (drop ?w s) (k - ?w)"
      using "1.prems"(2) wk char_width_le [of s]
      by (auto simp: is_char_boundary_def)
    have ih: "valid_utf8 (take (k - ?w) (drop ?w s))"
      using "1.IH" False w v bk by simp
    show ?thesis
      using False w wk ih char_width_take [of s k]
      by (subst valid_utf8.simps) (auto simp: drop_take)
  qed
qed
section \<open>Prefixes, suffixes, searching\<close>

definition strip_prefix :: "bytes \<Rightarrow> rstr \<Rightarrow> rstr option" where
  "strip_prefix p s =
     (if length p \<le> length s \<and> take (length p) s = p then Some (drop (length p) s) else None)"

definition strip_suffix :: "bytes \<Rightarrow> rstr \<Rightarrow> rstr option" where
  "strip_suffix p s =
     (if length p \<le> length s \<and> drop (length s - length p) s = p
      then Some (take (length s - length p) s) else None)"

definition starts_with :: "bytes \<Rightarrow> bytes \<Rightarrow> bool" where
  "starts_with p s \<longleftrightarrow> length p \<le> length s \<and> take (length p) s = p"

text \<open>\<^verbatim>\<open>s.split_once(c)\<close> for an ASCII character.\<close>

fun split_once :: "u8 \<Rightarrow> rstr \<Rightarrow> (rstr \<times> rstr) option" where
  "split_once c [] = None"
| "split_once c (b # bs) =
     (if b = c then Some ([], bs) else map_option (\<lambda>(k, v). (b # k, v)) (split_once c bs))"

text \<open>\<^verbatim>\<open>s.split(c)\<close>: the pieces between occurrences of \<open>c\<close>, never empty.\<close>

fun split_on :: "u8 \<Rightarrow> rstr \<Rightarrow> rstr list" where
  "split_on c [] = [[]]"
| "split_on c (b # bs) =
     (if b = c then [] # split_on c bs
      else (case split_on c bs of [] \<Rightarrow> [[b]] | p # ps \<Rightarrow> (b # p) # ps))"

text \<open>\<^verbatim>\<open>xs.windows(w.len()).position(|x| x == w)\<close>.\<close>

fun find_sub :: "bytes \<Rightarrow> bytes \<Rightarrow> nat option" where
  "find_sub w [] = None"
| "find_sub w (b # bs) =
     (if starts_with w (b # bs) then Some 0 else map_option Suc (find_sub w bs))"

lemma split_once_append: "c \<notin> set k \<Longrightarrow> split_once c (k @ c # v) = Some (k, v)"
  by (induction k) auto

lemma strip_prefix_append [simp]: "strip_prefix p (p @ s) = Some s"
  by (simp add: strip_prefix_def)

lemma strip_suffix_append [simp]: "strip_suffix p (s @ p) = Some s"
  by (simp add: strip_suffix_def)

lemma find_sub_Some:
  "find_sub w bs = Some i \<Longrightarrow> i + length w \<le> length bs \<and> take (length w) (drop i bs) = w"
proof (induction bs arbitrary: i)
  case Nil
  then show ?case by simp
next
  case (Cons b bs)
  then show ?case
    by (auto simp: starts_with_def split: if_splits)
qed

section \<open>Lines\<close>

text \<open>
  \<^verbatim>\<open>str::lines\<close>: pieces end at a line feed; a carriage return before the line feed is
  dropped; a final piece without a line feed is kept as it is, an empty one is not a line.
\<close>

definition LF :: u8 where
  "LF = 10"

fun take_line :: "bytes \<Rightarrow> bytes \<times> bytes option" where
  "take_line [] = ([], None)"
| "take_line (b # bs) =
     (if b = LF then ([], Some bs) else (case take_line bs of (l, r) \<Rightarrow> (b # l, r)))"

lemma take_line_rest: "take_line bs = (l, Some r) \<Longrightarrow> length r < length bs"
  by (induction bs arbitrary: l) (auto split: if_splits prod.splits)

definition strip_cr :: "rstr \<Rightarrow> rstr" where
  "strip_cr l = (case strip_suffix [13] l of Some l' \<Rightarrow> l' | None \<Rightarrow> l)"

function rlines :: "bytes \<Rightarrow> rstr list" where
  "rlines bs =
     (if bs = [] then []
      else (case take_line bs of
              (l, None) \<Rightarrow> [l]
            | (l, Some r) \<Rightarrow> strip_cr l # rlines r))"
  by pat_completeness auto
termination
  by (relation "measure length") (auto dest: take_line_rest [OF sym])

declare rlines.simps [simp del]

lemma take_line_append: "LF \<notin> set l \<Longrightarrow> take_line (l @ LF # r) = (l, Some r)"
  by (induction l) auto

lemma strip_cr_id: "13 \<notin> set l \<Longrightarrow> strip_cr l = l"
  by (auto simp: strip_cr_def strip_suffix_def split: option.splits)
    (metis append_take_drop_id in_set_conv_decomp)

lemma rlines_line:
  "LF \<notin> set l \<Longrightarrow> 13 \<notin> set l \<Longrightarrow> rlines (l @ LF # r) = l # rlines r"
  by (subst rlines.simps) (simp add: take_line_append strip_cr_id)

lemma rlines_Nil [simp]: "rlines [] = []"
  by (simp add: rlines.simps)

section \<open>Trimming\<close>

text \<open>The UTF-8 encodings of the characters with the Unicode \<open>White_Space\<close> property.\<close>

definition ws_seqs :: "bytes list" where
  "ws_seqs =
     [[9], [10], [11], [12], [13], [32], [0xC2, 0x85], [0xC2, 0xA0], [0xE1, 0x9A, 0x80]]
     @ map (\<lambda>i. [0xE2, 0x80, 0x80 + word_of_nat i]) [0..<11]
     @ [[0xE2, 0x80, 0xA8], [0xE2, 0x80, 0xA9], [0xE2, 0x80, 0xAF], [0xE2, 0x81, 0x9F],
        [0xE3, 0x80, 0x80]]"

definition ws_prefix :: "bytes \<Rightarrow> nat" where
  "ws_prefix s = (case find (\<lambda>w. starts_with w s) ws_seqs of None \<Rightarrow> 0 | Some w \<Rightarrow> length w)"

definition ws_suffix :: "bytes \<Rightarrow> nat" where
  "ws_suffix s = (case find (\<lambda>w. starts_with (rev w) (rev s)) ws_seqs of None \<Rightarrow> 0 | Some w \<Rightarrow> length w)"

function trim_start :: "rstr \<Rightarrow> rstr" where
  "trim_start s = (if s = [] \<or> ws_prefix s = 0 then s else trim_start (drop (ws_prefix s) s))"
  by pat_completeness auto
termination
  by (relation "measure length") auto

function trim_end :: "rstr \<Rightarrow> rstr" where
  "trim_end s =
     (if s = [] \<or> ws_suffix s = 0 then s else trim_end (take (length s - ws_suffix s) s))"
  by pat_completeness auto
termination
  by (relation "measure length") auto

declare trim_start.simps [simp del] trim_end.simps [simp del]

definition trim :: "rstr \<Rightarrow> rstr" where
  "trim s = trim_end (trim_start s)"

text \<open>Text with no ASCII white space at either end and ASCII bytes there is left alone.\<close>

definition plain_byte :: "u8 \<Rightarrow> bool" where
  "plain_byte b \<longleftrightarrow> 32 < b \<and> b < 0x80"

lemma ws_seqs_first:
  "w \<in> set ws_seqs \<Longrightarrow> w \<noteq> [] \<and> \<not> plain_byte (hd w) \<and> \<not> plain_byte (last w)"
proof -
  have last_low: "\<not> plain_byte (0x80 + word_of_nat i)" if "i < 11" for i
  proof -
    have "i \<in> set [0..<11]" using that by simp
    then show ?thesis
      unfolding plain_byte_def by (auto simp: upt_conv_Cons)
  qed
  show "w \<in> set ws_seqs \<Longrightarrow> w \<noteq> [] \<and> \<not> plain_byte (hd w) \<and> \<not> plain_byte (last w)"
    using last_low by (auto simp: ws_seqs_def plain_byte_def)
qed

lemma ws_prefix_plain: "s \<noteq> [] \<Longrightarrow> plain_byte (hd s) \<Longrightarrow> ws_prefix s = 0"
proof -
  assume s: "s \<noteq> []" "plain_byte (hd s)"
  have "\<not> starts_with w s" if "w \<in> set ws_seqs" for w
    using ws_seqs_first [OF that] s
    by (cases s; cases w) (auto simp: starts_with_def)
  then have "find (\<lambda>w. starts_with w s) ws_seqs = None"
    by (auto simp: find_None_iff)
  then show "ws_prefix s = 0" by (simp add: ws_prefix_def)
qed

lemma ws_suffix_plain: "s \<noteq> [] \<Longrightarrow> plain_byte (last s) \<Longrightarrow> ws_suffix s = 0"
proof -
  assume s: "s \<noteq> []" "plain_byte (last s)"
  have "\<not> starts_with (rev w) (rev s)" if "w \<in> set ws_seqs" for w
    using ws_seqs_first [OF that] s
    by (cases s rule: rev_cases; cases w rule: rev_cases) (auto simp: starts_with_def)
  then have "find (\<lambda>w. starts_with (rev w) (rev s)) ws_seqs = None"
    by (auto simp: find_None_iff)
  then show "ws_suffix s = 0" by (simp add: ws_suffix_def)
qed

lemma trim_start_plain: "s \<noteq> [] \<Longrightarrow> plain_byte (hd s) \<Longrightarrow> trim_start s = s"
  by (subst trim_start.simps) (simp add: ws_prefix_plain)

lemma trim_end_plain: "s \<noteq> [] \<Longrightarrow> plain_byte (last s) \<Longrightarrow> trim_end s = s"
  by (subst trim_end.simps) (simp add: ws_suffix_plain)

lemma trim_Nil [simp]: "trim_start [] = []" "trim_end [] = []" "trim [] = []"
  by (simp_all add: trim_def trim_start.simps trim_end.simps)

lemma trim_plain: "s \<noteq> [] \<Longrightarrow> plain_byte (hd s) \<Longrightarrow> plain_byte (last s) \<Longrightarrow> trim s = s"
  by (simp add: trim_def trim_start_plain trim_end_plain)

lemma ws_prefix_space: "ws_prefix (32 # s) = 1"
  by (simp add: ws_prefix_def ws_seqs_def starts_with_def)

lemma trim_start_space [simp]: "trim_start (32 # s) = trim_start s"
  by (subst trim_start.simps) (simp add: ws_prefix_space)

lemma trim_space [simp]: "trim (32 # s) = trim s"
  by (simp add: trim_def)

section \<open>Decimal numbers\<close>

definition is_digit :: "u8 \<Rightarrow> bool" where
  "is_digit b \<longleftrightarrow> 48 \<le> b \<and> b \<le> 57"

definition digits_value :: "bytes \<Rightarrow> nat" where
  "digits_value ds = foldl (\<lambda>n b. 10 * n + (unat b - 48)) 0 ds"

text \<open>\<^verbatim>\<open>s.parse::<u32>().ok()\<close>: an optional plus sign, then digits, refused on overflow.\<close>

definition parse_digits :: "bytes \<Rightarrow> u32 option" where
  "parse_digits ds =
     (if ds \<noteq> [] \<and> list_all is_digit ds \<and> digits_value ds < 2 ^ 32
      then Some (word_of_nat (digits_value ds)) else None)"

definition parse_u32 :: "rstr \<Rightarrow> u32 option" where
  "parse_u32 s =
     (case s of [] \<Rightarrow> None
      | b # r \<Rightarrow> if b = 43 then parse_digits r else parse_digits s)"

text \<open>A number in exactly \<open>w\<close> decimal digits, most significant first.\<close>

fun fixed_digits :: "nat \<Rightarrow> nat \<Rightarrow> bytes" where
  "fixed_digits 0 n = []"
| "fixed_digits (Suc w) n = fixed_digits w (n div 10) @ [48 + word_of_nat (n mod 10)]"

lemma length_fixed_digits [simp]: "length (fixed_digits w n) = w"
  by (induction w arbitrary: n) auto

lemma unat_digit: "d < 10 \<Longrightarrow> unat (48 + word_of_nat d :: u8) = 48 + d"
  by (simp add: unat_word_ariths unat_of_nat take_bit_eq_mod)

lemma is_digit_digit: "d < 10 \<Longrightarrow> is_digit (48 + word_of_nat d)"
  by (simp add: is_digit_def word_le_nat_alt unat_digit)

lemma fixed_digits_are_digits: "list_all is_digit (fixed_digits w n)"
  by (induction w arbitrary: n) (auto simp: is_digit_digit)

lemma digits_value_snoc: "digits_value (ds @ [b]) = 10 * digits_value ds + (unat b - 48)"
  by (simp add: digits_value_def)

lemma digits_value_fixed: "digits_value (fixed_digits w n) = n mod 10 ^ w"
proof (induction w arbitrary: n)
  case 0
  show ?case by (simp add: digits_value_def)
next
  case (Suc w)
  have "digits_value (fixed_digits (Suc w) n) = 10 * (n div 10 mod 10 ^ w) + n mod 10"
    by (simp add: digits_value_snoc Suc.IH unat_digit)
  also have "\<dots> = n mod 10 ^ Suc w"
    by (simp add: mod_mult2_eq)
  finally show ?case .
qed

lemma is_digit_plain: "is_digit b \<Longrightarrow> plain_byte b"
  by (auto simp: is_digit_def plain_byte_def word_le_nat_alt word_less_nat_alt)

lemma parse_u32_fixed:
  assumes "0 < w" and "n < 10 ^ w" and "n < 2 ^ 32"
  shows "parse_u32 (fixed_digits w n) = Some (word_of_nat n)"
proof -
  let ?ds = "fixed_digits w n"
  have ne: "?ds \<noteq> []" using assms(1) by (cases w) auto
  then obtain b r where ds: "?ds = b # r" by (cases ?ds) auto
  have "is_digit b" using fixed_digits_are_digits [of w n] ds by simp
  then have "b \<noteq> 43" by (auto simp: is_digit_def)
  with ds assms show ?thesis
    using fixed_digits_are_digits [of w n] digits_value_fixed [of w n]
    by (simp add: parse_u32_def parse_digits_def)
qed

end
