(* ===== verification/Heal.thy ===== *)
theory Heal
  imports Rust_Str Trap
begin

text \<open>
  The self-healing organism's deterministic core
  (\<^verbatim>\<open>src/arch/riscv64/src/heal.rs\<close>): fixed-capacity strings, the runtime knowledge
  table, diagnosis, the persistent recurrence counter with its escalation latch,
  the dirty-entry drain and the novel-token mailbox. The module's four statics are
  the fields of the record \<open>heal\<close>.
\<close>

section \<open>Fixed-capacity strings\<close>

record buf =
  buf_bytes :: bytes
  buf_len :: nat

text \<open>The loop that backs up to a character boundary.\<close>

fun cut_boundary :: "rstr \<Rightarrow> nat \<Rightarrow> nat" where
  "cut_boundary s 0 = 0"
| "cut_boundary s (Suc k) = (if is_char_boundary s (Suc k) then Suc k else cut_boundary s k)"

definition buf_from_str :: "nat \<Rightarrow> rstr \<Rightarrow> buf" where
  "buf_from_str N s =
     (let k = cut_boundary s (min (length s) N)
      in \<lparr>buf_bytes = take k s @ replicate (N - k) 0, buf_len = k\<rparr>)"

definition buf_as_str :: "buf \<Rightarrow> rstr" where
  "buf_as_str b = (case from_utf8 (take (buf_len b) (buf_bytes b)) of None \<Rightarrow> [] | Some s \<Rightarrow> s)"

section \<open>Knowledge records and the runtime table\<close>

definition ID_CAP :: nat where "ID_CAP = 16"
definition TITLE_CAP :: nat where "TITLE_CAP = 96"
definition PLAYBOOK_CAP :: nat where "PLAYBOOK_CAP = 256"
definition TOKEN_CAP :: nat where "TOKEN_CAP = 24"
definition MAX_ISSUES :: nat where "MAX_ISSUES = 8"
definition ESCALATE_AT :: u32 where "ESCALATE_AT = 6"

record known_issue =
  ki_id :: buf
  ki_title :: buf
  ki_playbook :: buf
  ki_match_cause :: buf
  ki_seen :: u32
  ki_escalated :: bool
  ki_start_block :: u32
  ki_dirty :: bool

definition issue_new ::
  "rstr \<Rightarrow> rstr \<Rightarrow> rstr \<Rightarrow> rstr \<Rightarrow> u32 \<Rightarrow> bool \<Rightarrow> u32 \<Rightarrow> known_issue" where
  "issue_new i t p m n e b =
     \<lparr>ki_id = buf_from_str ID_CAP i, ki_title = buf_from_str TITLE_CAP t,
      ki_playbook = buf_from_str PLAYBOOK_CAP p, ki_match_cause = buf_from_str TOKEN_CAP m,
      ki_seen = n, ki_escalated = e, ki_start_block = b, ki_dirty = False\<rparr>"

definition issue_id :: "known_issue \<Rightarrow> rstr" where
  "issue_id i = buf_as_str (ki_id i)"

definition issue_title :: "known_issue \<Rightarrow> rstr" where
  "issue_title i = buf_as_str (ki_title i)"

definition issue_playbook :: "known_issue \<Rightarrow> rstr" where
  "issue_playbook i = buf_as_str (ki_playbook i)"

definition issue_match_cause :: "known_issue \<Rightarrow> rstr" where
  "issue_match_cause i = buf_as_str (ki_match_cause i)"

record heal =
  kb_table :: "known_issue option list"
  kb_count :: nat
  last_diag :: "known_issue option"
  novel_token :: "rstr option"

definition heal_init :: heal where
  "heal_init = \<lparr>kb_table = replicate MAX_ISSUES None, kb_count = 0, last_diag = None, novel_token = None\<rparr>"

definition heal_wf :: "heal \<Rightarrow> bool" where
  "heal_wf h \<longleftrightarrow> length (kb_table h) = MAX_ISSUES \<and> kb_count h \<le> MAX_ISSUES \<and>
     (\<forall>i<MAX_ISSUES. kb_table h ! i = None \<longleftrightarrow> kb_count h \<le> i)"

definition install ::
  "heal \<Rightarrow> rstr \<Rightarrow> rstr \<Rightarrow> rstr \<Rightarrow> rstr option \<Rightarrow> u32 \<Rightarrow> bool \<Rightarrow> u32 \<Rightarrow> heal \<times> bool" where
  "install h i t p m n e b =
     (if kb_count h \<ge> MAX_ISSUES then (h, False)
      else (h\<lparr>kb_table := (kb_table h)[kb_count h :=
                 Some (issue_new i t p (case m of None \<Rightarrow> [] | Some tok \<Rightarrow> tok) n e b)],
               kb_count := kb_count h + 1\<rparr>, True))"

definition loaded_count :: "heal \<Rightarrow> nat" where
  "loaded_count h = kb_count h"

definition kb_entry :: "heal \<Rightarrow> nat \<Rightarrow> (rstr \<times> rstr \<times> u32 \<times> bool) option" where
  "kb_entry h i =
     (case get (kb_table h) i of
        Some (Some k) \<Rightarrow> Some (issue_id k, issue_title k, ki_seen k, ki_escalated k)
      | _ \<Rightarrow> None)"

definition has_id :: "rstr \<Rightarrow> known_issue option \<Rightarrow> bool" where
  "has_id i slot \<longleftrightarrow> (case slot of None \<Rightarrow> False | Some k \<Rightarrow> issue_id k = i)"

definition note_diagnosis :: "heal \<Rightarrow> known_issue \<Rightarrow> heal \<times> u32 option" where
  "note_diagnosis h issue =
     (let h1 = h\<lparr>last_diag := Some issue\<rparr>
      in case position (has_id (issue_id issue)) (kb_table h1) of
           None \<Rightarrow> (h1, None)
         | Some j \<Rightarrow>
             (case kb_table h1 ! j of
                None \<Rightarrow> (h1, None)
              | Some slot \<Rightarrow>
                  (let slot1 = slot\<lparr>ki_seen := saturating_add (ki_seen slot) 1, ki_dirty := True\<rparr>
                   in if ESCALATE_AT \<le> ki_seen slot1 \<and> \<not> ki_escalated slot1
                      then (h1\<lparr>kb_table := (kb_table h1)[j := Some (slot1\<lparr>ki_escalated := True\<rparr>)]\<rparr>,
                            Some (ki_seen slot1))
                      else (h1\<lparr>kb_table := (kb_table h1)[j := Some slot1]\<rparr>, None))))"

fun drain_dirty ::
  "known_issue option list \<Rightarrow> known_issue option list \<times> (rstr \<times> u32 \<times> u32 \<times> bool) option" where
  "drain_dirty [] = ([], None)"
| "drain_dirty (None # rest) = (case drain_dirty rest of (t, r) \<Rightarrow> (None # t, r))"
| "drain_dirty (Some slot # rest) =
     (if ki_dirty slot then
        (let slot1 = slot\<lparr>ki_dirty := False\<rparr>
         in if ki_start_block slot1 \<noteq> 0
            then (Some slot1 # rest,
                  Some (issue_id slot1, ki_start_block slot1, ki_seen slot1, ki_escalated slot1))
            else (case drain_dirty rest of (t, r) \<Rightarrow> (Some slot1 # t, r)))
      else (case drain_dirty rest of (t, r) \<Rightarrow> (Some slot # t, r)))"

definition dirty_entry :: "heal \<Rightarrow> heal \<times> (rstr \<times> u32 \<times> u32 \<times> bool) option" where
  "dirty_entry h = (case drain_dirty (kb_table h) of (t, r) \<Rightarrow> (h\<lparr>kb_table := t\<rparr>, r))"

definition last_diagnosis :: "heal \<Rightarrow> (rstr \<times> rstr) option" where
  "last_diagnosis h = map_option (\<lambda>i. (issue_id i, issue_playbook i)) (last_diag h)"

definition cause_token :: "cause \<Rightarrow> rstr option" where
  "cause_token c =
     (case c of
        LoadPageFault \<Rightarrow> Some (lit ''page-fault'')
      | StorePageFault \<Rightarrow> Some (lit ''page-fault'')
      | InstructionPageFault \<Rightarrow> Some (lit ''page-fault'')
      | IllegalInstruction \<Rightarrow> Some (lit ''illegal-instruction'')
      | _ \<Rightarrow> None)"

definition note_unmatched :: "heal \<Rightarrow> cause \<Rightarrow> heal" where
  "note_unmatched h c =
     (case cause_token c of
        None \<Rightarrow> h
      | Some tok \<Rightarrow> if novel_token h = None then h\<lparr>novel_token := Some tok\<rparr> else h)"

definition take_novel :: "heal \<Rightarrow> heal \<times> rstr option" where
  "take_novel h = (h\<lparr>novel_token := None\<rparr>, novel_token h)"

definition kb_number :: "known_issue \<Rightarrow> u32 option" where
  "kb_number k = Option.bind (strip_prefix (lit ''KB-'') (issue_id k)) parse_u32"

fun max_kb_number_from :: "u32 \<Rightarrow> known_issue option list \<Rightarrow> u32" where
  "max_kb_number_from m [] = m"
| "max_kb_number_from m (None # rest) = max_kb_number_from m rest"
| "max_kb_number_from m (Some k # rest) =
     max_kb_number_from
       (case kb_number k of None \<Rightarrow> m | Some n \<Rightarrow> if m < n then n else m) rest"

definition max_kb_number :: "heal \<Rightarrow> u32" where
  "max_kb_number h = max_kb_number_from 0 (kb_table h)"

definition matches_token :: "rstr \<Rightarrow> known_issue option \<Rightarrow> bool" where
  "matches_token tok slot \<longleftrightarrow>
     (case slot of None \<Rightarrow> False | Some k \<Rightarrow> issue_match_cause k = tok)"

text \<open>
  \<^verbatim>\<open>diagnose\<close> returns a reference into the table; the model returns the slot it
  refers to, so that a later read through the reference sees later writes.
\<close>

definition match_issue :: "known_issue option list \<Rightarrow> cause \<Rightarrow> nat option" where
  "match_issue table c = Option.bind (cause_token c) (\<lambda>tok. position (matches_token tok) table)"

definition diagnose :: "heal \<Rightarrow> cause \<Rightarrow> nat option" where
  "diagnose h c = match_issue (kb_table h) c"

text \<open>
  The diagnosis part of the crash path (\<^verbatim>\<open>sched::exit_current\<close>): the new state and,
  when the diagnosed issue is escalated, the id under which the component is quarantined.
\<close>

definition diagnose_crash :: "heal \<Rightarrow> cause \<Rightarrow> heal \<times> rstr option" where
  "diagnose_crash h c =
     (case diagnose h c of
        None \<Rightarrow> (note_unmatched h c, None)
      | Some j \<Rightarrow>
          (case kb_table h ! j of
             None \<Rightarrow> (h, None)
           | Some issue \<Rightarrow>
               (case note_diagnosis h issue of
                  (h1, just) \<Rightarrow>
                    (h1, case kb_table h1 ! j of
                           None \<Rightarrow> None
                         | Some issue1 \<Rightarrow>
                             if ki_escalated issue1 then Some (issue_id issue1) else None))))"

section \<open>Truncation keeps valid text\<close>

lemma cut_boundary_le: "cut_boundary s k \<le> k"
  by (induction k) auto

lemma cut_boundary_ok: "is_char_boundary s (cut_boundary s k)"
  by (induction k) (auto simp: is_char_boundary_def)

lemma cut_boundary_full: "cut_boundary s (length s) = length s"
  by (cases "length s") (auto simp: is_char_boundary_def)

lemma buf_roundtrip_prefix:
  assumes "valid_utf8 s"
  shows "buf_as_str (buf_from_str N s) = take (cut_boundary s (min (length s) N)) s"
proof -
  let ?k = "cut_boundary s (min (length s) N)"
  have "?k \<le> length s" using cut_boundary_le [of s "min (length s) N"] by simp
  then have "take ?k (take ?k s @ replicate (N - ?k) 0) = take ?k s" by simp
  then show ?thesis
    using valid_utf8_take [OF assms cut_boundary_ok]
    by (simp add: buf_as_str_def buf_from_str_def Let_def from_utf8_def)
qed

lemma buf_roundtrip:
  "valid_utf8 s \<Longrightarrow> length s \<le> N \<Longrightarrow> buf_as_str (buf_from_str N s) = s"
  by (simp add: buf_roundtrip_prefix min_absorb1 cut_boundary_full)

lemma length_buf_bytes: "length (buf_bytes (buf_from_str N s)) = N"
  using cut_boundary_le [of s "min (length s) N"]
  by (simp add: buf_from_str_def Let_def)

section \<open>The table's shape\<close>

lemma heal_wf_init: "heal_wf heal_init"
  by (simp add: heal_wf_def heal_init_def)

lemma heal_wf_install: "heal_wf h \<Longrightarrow> heal_wf (fst (install h i t p m n e b))"
  by (auto simp: heal_wf_def install_def nth_list_update)

lemma heal_wf_slot:
  "heal_wf h \<Longrightarrow> kb_table h ! j = Some k \<Longrightarrow> j < MAX_ISSUES \<Longrightarrow>
   heal_wf (h\<lparr>kb_table := (kb_table h)[j := Some k']\<rparr>)"
  by (auto simp: heal_wf_def nth_list_update split: if_splits)

lemma position_has_idE:
  assumes "position (has_id i) tbl = Some j"
  obtains k where "j < length tbl" "tbl ! j = Some k" "issue_id k = i"
  using position_SomeD [OF assms] by (auto simp: has_id_def split: option.splits)

lemma heal_wf_last [simp]: "heal_wf (h\<lparr>last_diag := d\<rparr>) = heal_wf h"
  by (simp add: heal_wf_def)

lemma heal_wf_novel [simp]: "heal_wf (h\<lparr>novel_token := d\<rparr>) = heal_wf h"
  by (simp add: heal_wf_def)

lemma note_diagnosis_hit:
  assumes "position (has_id (issue_id issue)) (kb_table h) = Some j"
    and "kb_table h ! j = Some slot"
  shows "note_diagnosis h issue =
    (let slot1 = slot\<lparr>ki_seen := saturating_add (ki_seen slot) 1, ki_dirty := True\<rparr>;
         cross = (ESCALATE_AT \<le> ki_seen slot1 \<and> \<not> ki_escalated slot)
     in (h\<lparr>last_diag := Some issue,
           kb_table := (kb_table h)[j := Some (slot1\<lparr>ki_escalated := ki_escalated slot \<or> cross\<rparr>)]\<rparr>,
         if cross then Some (ki_seen slot1) else None))"
  using assms by (cases slot) (auto simp: note_diagnosis_def Let_def)

lemma heal_wf_note_diagnosis: "heal_wf h \<Longrightarrow> heal_wf (fst (note_diagnosis h issue))"
proof (cases "position (has_id (issue_id issue)) (kb_table h)")
  case None
  then show "heal_wf h \<Longrightarrow> ?thesis" by (simp add: note_diagnosis_def Let_def)
next
  case (Some j)
  assume wf: "heal_wf h"
  from Some obtain slot where s: "j < length (kb_table h)" "kb_table h ! j = Some slot"
    by (rule position_has_idE)
  with wf have "j < MAX_ISSUES" by (simp add: heal_wf_def)
  moreover have "heal_wf (h\<lparr>last_diag := Some issue\<rparr>)" using wf by simp
  ultimately show ?thesis
    using s heal_wf_slot [of "h\<lparr>last_diag := Some issue\<rparr>" j slot]
    by (simp add: note_diagnosis_hit [OF Some s(2)] Let_def)
qed

lemma heal_wf_note_unmatched: "heal_wf h \<Longrightarrow> heal_wf (note_unmatched h c)"
  by (auto simp: note_unmatched_def split: option.splits)

lemma heal_wf_diagnose_crash: "heal_wf h \<Longrightarrow> heal_wf (fst (diagnose_crash h c))"
  using heal_wf_note_diagnosis [of h]
  by (auto simp: diagnose_crash_def heal_wf_note_unmatched split: option.splits prod.splits)
    (metis fst_conv)

section \<open>Diagnosis\<close>

lemma diagnose_SomeD:
  assumes "diagnose h c = Some j"
  obtains tok k where "cause_token c = Some tok" "j < length (kb_table h)" "kb_table h ! j = Some k"
    "issue_match_cause k = tok"
proof -
  from assms obtain tok where t: "cause_token c = Some tok" "position (matches_token tok) (kb_table h) = Some j"
    by (auto simp: diagnose_def match_issue_def bind_eq_Some_conv)
  from position_SomeD [OF t(2)] obtain k where "j < length (kb_table h)" "kb_table h ! j = Some k" "issue_match_cause k = tok"
    by (auto simp: matches_token_def split: option.splits)
  with t(1) that show thesis by blast
qed

lemma issue_views [simp]:
  "issue_id (k\<lparr>ki_seen := n\<rparr>) = issue_id k" "issue_id (k\<lparr>ki_dirty := b\<rparr>) = issue_id k"
  "issue_id (k\<lparr>ki_escalated := b\<rparr>) = issue_id k"
  "issue_match_cause (k\<lparr>ki_seen := n\<rparr>) = issue_match_cause k"
  "issue_match_cause (k\<lparr>ki_dirty := b\<rparr>) = issue_match_cause k"
  "issue_match_cause (k\<lparr>ki_escalated := b\<rparr>) = issue_match_cause k"
  by (simp_all add: issue_id_def issue_match_cause_def)

lemma position_update_same:
  "j < length xs \<Longrightarrow> p y = p (xs ! j) \<Longrightarrow> position p (xs[j := y]) = position p xs"
  by (induction xs arbitrary: j) (auto split: nat.splits)

lemma unat_saturating_inc: "unat (saturating_add n (1 :: u32)) = min (2 ^ 32 - 1) (unat n + 1)"
proof (cases "unat n + 1 < 2 ^ 32")
  case True
  then show ?thesis using unat_add_fits [of n "1 :: u32"] by (simp add: saturating_add_def)
next
  case False
  then show ?thesis using unsigned_less [of n, where ?'a = nat] by (simp add: saturating_add_def unsigned_minus_1_eq_mask mask_eq_exp_minus_1)
qed

text \<open>The issue after one more crash diagnosed as it.\<close>

definition seen_again :: "known_issue \<Rightarrow> known_issue" where
  "seen_again k =
     (let n = saturating_add (ki_seen k) 1
      in k\<lparr>ki_seen := n, ki_dirty := True, ki_escalated := ki_escalated k \<or> ESCALATE_AT \<le> n\<rparr>)"

lemma seen_again_views [simp]:
  "issue_id (seen_again k) = issue_id k" "issue_match_cause (seen_again k) = issue_match_cause k"
  by (simp_all add: seen_again_def Let_def)

text \<open>Slot \<open>j\<close> is where a crash with this cause is counted: it matches first, and its id is not shared.\<close>

definition counted_at :: "heal \<Rightarrow> cause \<Rightarrow> nat \<Rightarrow> known_issue \<Rightarrow> bool" where
  "counted_at h c j k \<longleftrightarrow> diagnose h c = Some j \<and> j < length (kb_table h) \<and> kb_table h ! j = Some k \<and>
     position (has_id (issue_id k)) (kb_table h) = Some j"

lemma diagnose_crash_counted:
  assumes "counted_at h c j k"
  shows "diagnose_crash h c =
    (h\<lparr>last_diag := Some k, kb_table := (kb_table h)[j := Some (seen_again k)]\<rparr>,
     if ki_escalated (seen_again k) then Some (issue_id k) else None)"
proof -
  have j: "diagnose h c = Some j" "j < length (kb_table h)" "kb_table h ! j = Some k"
    "position (has_id (issue_id k)) (kb_table h) = Some j"
    using assms by (auto simp: counted_at_def)
  have "fst (note_diagnosis h k) = h\<lparr>last_diag := Some k, kb_table := (kb_table h)[j := Some (seen_again k)]\<rparr>"
    using note_diagnosis_hit [OF j(4,3)] by (simp add: Let_def seen_again_def disj_conj_distribL)
  then show ?thesis using j by (simp add: diagnose_crash_def split_def)
qed

lemma counted_at_again:
  assumes "counted_at h c j k"
  shows "counted_at (fst (diagnose_crash h c)) c j (seen_again k)"
proof -
  have j: "diagnose h c = Some j" "j < length (kb_table h)" "kb_table h ! j = Some k"
    "position (has_id (issue_id k)) (kb_table h) = Some j"
    using assms by (auto simp: counted_at_def)
  have "position (has_id (issue_id k)) ((kb_table h)[j := Some (seen_again k)]) = Some j"
    using j by (subst position_update_same) (auto simp: has_id_def)
  moreover have "position (matches_token tok) ((kb_table h)[j := Some (seen_again k)]) = position (matches_token tok) (kb_table h)" for tok
    using j by (intro position_update_same) (auto simp: matches_token_def)
  ultimately show ?thesis
    using j by (simp add: diagnose_crash_counted [OF assms] counted_at_def diagnose_def match_issue_def)
qed

text \<open>\<open>n\<close> crashes with the same cause.\<close>

fun crashes :: "nat \<Rightarrow> heal \<Rightarrow> cause \<Rightarrow> heal" where
  "crashes 0 h c = h"
| "crashes (Suc n) h c = crashes n (fst (diagnose_crash h c)) c"

lemma seen_again_fields:
  "unat (ki_seen (seen_again k)) = min (2 ^ 32 - 1) (unat (ki_seen k) + 1)"
  "ki_escalated (seen_again k) \<longleftrightarrow> ki_escalated k \<or> 6 \<le> unat (ki_seen k) + 1"
  by (auto simp: seen_again_def Let_def ESCALATE_AT_def word_le_nat_alt unat_saturating_inc)

lemma crashes_counted:
  assumes "counted_at h c j k"
  shows "\<exists>k'. counted_at (crashes n h c) c j k' \<and> issue_id k' = issue_id k \<and>
    unat (ki_seen k') = min (2 ^ 32 - 1) (unat (ki_seen k) + n) \<and>
    (ki_escalated k' \<longleftrightarrow> ki_escalated k \<or> 0 < n \<and> 6 \<le> unat (ki_seen k) + n)"
  using assms
proof (induction n arbitrary: h k)
  case 0
  then show ?case using unsigned_less [of "ki_seen k", where ?'a = nat] by auto
next
  case (Suc n)
  from Suc.IH [OF counted_at_again [OF Suc.prems]] obtain k' where
    k': "counted_at (crashes n (fst (diagnose_crash h c)) c) c j k'" "issue_id k' = issue_id k"
    "unat (ki_seen k') = min (2 ^ 32 - 1) (unat (ki_seen (seen_again k)) + n)"
    "ki_escalated k' \<longleftrightarrow> ki_escalated (seen_again k) \<or> 0 < n \<and> 6 \<le> unat (ki_seen (seen_again k)) + n" by auto
  have "unat (ki_seen k') = min (2 ^ 32 - 1) (unat (ki_seen k) + Suc n)"
    using k'(3) seen_again_fields(1) [of k] by simp
  moreover have "ki_escalated k' \<longleftrightarrow> ki_escalated k \<or> 6 \<le> unat (ki_seen k) + Suc n"
    using k'(4) seen_again_fields [of k] by (auto simp: min_def split: if_splits)
  ultimately show ?case using k' by auto
qed

section \<open>The dirty drain\<close>

definition reportable :: "known_issue option \<Rightarrow> (rstr \<times> u32 \<times> u32 \<times> bool) list" where
  "reportable slot =
     (case slot of
        None \<Rightarrow> []
      | Some k \<Rightarrow> if ki_dirty k \<and> ki_start_block k \<noteq> 0
                  then [(issue_id k, ki_start_block k, ki_seen k, ki_escalated k)] else [])"

text \<open>The writer's loop over \<^verbatim>\<open>dirty_entry\<close>, with a bound on the number of calls.\<close>

fun drain :: "nat \<Rightarrow> heal \<Rightarrow> heal \<times> (rstr \<times> u32 \<times> u32 \<times> bool) list" where
  "drain 0 h = (h, [])"
| "drain (Suc n) h =
     (case dirty_entry h of
        (h1, None) \<Rightarrow> (h1, [])
      | (h1, Some e) \<Rightarrow> (case drain n h1 of (h2, es) \<Rightarrow> (h2, e # es)))"

definition cleaned :: "known_issue option \<Rightarrow> known_issue option" where
  "cleaned slot = map_option (ki_dirty_update (\<lambda>_. False)) slot"

lemma drain_dirty_None: "drain_dirty t = (t', None) \<Longrightarrow> t' = map cleaned t \<and> concat (map reportable t) = []"
  by (induction t arbitrary: t' rule: drain_dirty.induct)
    (auto simp: cleaned_def reportable_def Let_def split: prod.splits if_splits)

lemma drain_dirty_Some:
  "drain_dirty t = (t', Some e) \<Longrightarrow>
   concat (map reportable t) = e # concat (map reportable t') \<and> map cleaned t' = map cleaned t"
  by (induction t arbitrary: t' rule: drain_dirty.induct)
    (auto simp: cleaned_def reportable_def Let_def split: prod.splits if_splits)

lemma drain_all:
  "length (concat (map reportable (kb_table h))) < n \<Longrightarrow>
   drain n h = (h\<lparr>kb_table := map cleaned (kb_table h)\<rparr>, concat (map reportable (kb_table h)))"
proof (induction n arbitrary: h)
  case (Suc n)
  obtain t' r where d: "drain_dirty (kb_table h) = (t', r)" by fastforce
  show ?case
  proof (cases r)
    case None
    then show ?thesis using d drain_dirty_None [of "kb_table h" t'] by (simp add: dirty_entry_def)
  next
    case (Some e)
    note s = drain_dirty_Some [of "kb_table h" t' e]
    have "drain n (h\<lparr>kb_table := t'\<rparr>) = (h\<lparr>kb_table := map cleaned t'\<rparr>, concat (map reportable t'))"
      using Suc.IH [of "h\<lparr>kb_table := t'\<rparr>"] Suc.prems d Some s by simp
    then show ?thesis using d Some s by (simp add: dirty_entry_def)
  qed
qed simp

lemma reportable_le: "length (concat (map reportable t)) \<le> length t"
  by (induction t) (auto simp: reportable_def split: option.splits)

section \<open>A table with one issue\<close>

definition one_issue :: "u32 \<Rightarrow> bool \<Rightarrow> known_issue" where
  "one_issue n e = issue_new (lit ''KB-0001'') (lit ''fault'') (lit ''restart'') (lit ''page-fault'') n e 3"

definition heal_with :: "known_issue \<Rightarrow> heal" where
  "heal_with k = heal_init\<lparr>kb_table := Some k # replicate 7 None, kb_count := 1\<rparr>"

lemma heal_with_wf: "heal_wf (heal_with k)"
  by (auto simp: heal_wf_def heal_with_def heal_init_def MAX_ISSUES_def nth_Cons split: nat.splits)

lemma one_issue_token: "issue_match_cause (one_issue n e) = lit ''page-fault''"
  by (simp add: one_issue_def issue_new_def issue_match_cause_def buf_roundtrip valid_utf8_ascii lit_def TOKEN_CAP_def)

lemma one_issue_counted: "counted_at (heal_with (one_issue n e)) LoadPageFault 0 (one_issue n e)"
  by (simp add: counted_at_def diagnose_def match_issue_def cause_token_def heal_with_def has_id_def
      matches_token_def one_issue_token)

section \<open>Properties\<close>

text \<open>C31: Recurrence, escalation and quarantine. After \<open>n\<close> crashes diagnosed as the same issue its
  counter has advanced by \<open>n\<close>, saturating at \<open>u32::MAX\<close>; the issue is escalated exactly from the
  crash that brings the counter to six (or if it was before); and the next crash is quarantined
  under the issue's id exactly when it is escalated by then.\<close>
theorem recurring_crash_escalates:
  assumes "counted_at h c j k"
  shows "\<exists>k'. kb_table (crashes n h c) ! j = Some k' \<and> issue_id k' = issue_id k \<and>
    unat (ki_seen k') = min (2 ^ 32 - 1) (unat (ki_seen k) + n) \<and>
    (ki_escalated k' \<longleftrightarrow> ki_escalated k \<or> 0 < n \<and> 6 \<le> unat (ki_seen k) + n) \<and>
    snd (diagnose_crash (crashes n h c) c) =
      (if ki_escalated k \<or> 6 \<le> unat (ki_seen k) + n + 1 then Some (issue_id k) else None)"
proof -
  from crashes_counted [OF assms, of n] obtain k' where
    k': "counted_at (crashes n h c) c j k'" "issue_id k' = issue_id k"
    "unat (ki_seen k') = min (2 ^ 32 - 1) (unat (ki_seen k) + n)"
    "ki_escalated k' \<longleftrightarrow> ki_escalated k \<or> 0 < n \<and> 6 \<le> unat (ki_seen k) + n" by auto
  have "ki_escalated (seen_again k') \<longleftrightarrow> ki_escalated k \<or> 6 \<le> unat (ki_seen k) + n + 1"
    using k'(3,4) by (auto simp: seen_again_fields(2) min_def split: if_splits)
  then show ?thesis
    using k' diagnose_crash_counted [OF k'(1)] by (auto simp: counted_at_def)
qed

theorem recurring_crash_escalates_witness:
  "\<exists>k'. kb_table (crashes 4 (heal_with (one_issue 1 False)) LoadPageFault) ! 0 = Some k' \<and>
     unat (ki_seen k') = 5 \<and> \<not> ki_escalated k' \<and>
     snd (diagnose_crash (crashes 4 (heal_with (one_issue 1 False)) LoadPageFault) LoadPageFault) =
       Some (issue_id (one_issue 1 False))"
  using recurring_crash_escalates [OF one_issue_counted [of 1 False], of 4]
  by (auto simp: one_issue_def issue_new_def)

text \<open>The writer persists every changed issue once. Polling \<^verbatim>\<open>dirty_entry\<close> until it answers
  nothing takes at most nine calls, reports each dirty issue that has a disk record once, in table
  order and with its current counter, and leaves no issue dirty.\<close>
theorem dirty_drain_complete:
  assumes "heal_wf h"
  shows "drain 9 h = (h\<lparr>kb_table := map cleaned (kb_table h)\<rparr>, concat (map reportable (kb_table h))) \<and>
    length (concat (map reportable (kb_table h))) \<le> 8"
proof -
  have "length (concat (map reportable (kb_table h))) \<le> 8"
    using reportable_le [of "kb_table h"] assms by (simp add: heal_wf_def MAX_ISSUES_def)
  then show ?thesis using drain_all [of h 9] by simp
qed

theorem dirty_drain_complete_witness:
  "snd (drain 9 (heal_with ((one_issue 4 False)\<lparr>ki_dirty := True\<rparr>))) = [(issue_id (one_issue 4 False), 3, 4, False)]"
  using dirty_drain_complete [OF heal_with_wf [of "(one_issue 4 False)\<lparr>ki_dirty := True\<rparr>"]]
  by (simp add: heal_with_def reportable_def) (simp add: one_issue_def issue_new_def)

text \<open>The learning loop closes. A crash no known issue explains leaves its token for the writer;
  when the writer takes the token and an issue with it is loaded, the same cause is diagnosed as
  that new issue.\<close>
theorem unmatched_crash_is_learned:
  assumes wf: "heal_wf h" and room: "kb_count h < MAX_ISSUES" and none: "diagnose h c = None"
    and tok: "cause_token c = Some tok" and empty: "novel_token h = None"
  shows "snd (take_novel (note_unmatched h c)) = Some tok \<and>
    diagnose (fst (install (fst (take_novel (note_unmatched h c))) i t p (Some tok) n e b)) c = Some (kb_count h)"
proof -
  let ?h = "fst (take_novel (note_unmatched h c))"
  have h: "kb_table ?h = kb_table h" "kb_count ?h = kb_count h" "snd (take_novel (note_unmatched h c)) = Some tok"
    using tok empty by (simp_all add: take_novel_def note_unmatched_def)
  have asc: "valid_utf8 tok" "length tok \<le> TOKEN_CAP"
    using tok by (auto simp: cause_token_def lit_def TOKEN_CAP_def intro!: valid_utf8_ascii split: cause.splits)
  have no: "\<forall>s\<in>set (kb_table h). \<not> matches_token tok s"
    using none tok by (simp add: diagnose_def match_issue_def position_None_iff)
  have m: "issue_match_cause (issue_new i t p tok n e b) = tok"
    using asc by (simp add: issue_match_cause_def issue_new_def buf_roundtrip)
  have "position (matches_token tok) ((kb_table h)[kb_count h := Some (issue_new i t p tok n e b)]) = Some (kb_count h)"
    using wf room no m by (auto simp: position_Some_iff heal_wf_def matches_token_def nth_list_update)
  then show ?thesis using h room tok by (simp add: install_def diagnose_def match_issue_def)
qed

theorem unmatched_crash_is_learned_witness:
  "snd (take_novel (note_unmatched (heal_with (one_issue 1 False)) IllegalInstruction)) = Some (lit ''illegal-instruction'') \<and>
   diagnose (fst (install (fst (take_novel (note_unmatched (heal_with (one_issue 1 False)) IllegalInstruction)))
     (lit ''KB-0002'') [] [] (Some (lit ''illegal-instruction'')) 1 False 9)) IllegalInstruction = Some 1"
proof -
  let ?h = "heal_with (one_issue 1 False)"
  have "lit ''page-fault'' \<noteq> lit ''illegal-instruction''" by (simp add: lit_def)
  then have "diagnose ?h IllegalInstruction = None"
    by (simp add: diagnose_def match_issue_def cause_token_def heal_with_def matches_token_def one_issue_token
        position_None_iff)
  moreover have "kb_count ?h < MAX_ISSUES" "novel_token ?h = None" "kb_count ?h = 1"
    by (simp_all add: heal_with_def heal_init_def MAX_ISSUES_def)
  moreover have "cause_token IllegalInstruction = Some (lit ''illegal-instruction'')" by (simp add: cause_token_def)
  ultimately show ?thesis
    using unmatched_crash_is_learned [OF heal_with_wf, of "one_issue 1 False" IllegalInstruction "lit ''illegal-instruction''"]
    by simp
qed

text \<open>Fixed-capacity strings never split a character. Storing valid text keeps the longest
  prefix that fits and ends at a character boundary, so reading it back gives valid text, and all
  of it when it fits.\<close>
theorem buf_keeps_longest_valid_prefix:
  assumes "valid_utf8 s"
  shows "\<exists>k \<le> min (length s) N. buf_as_str (buf_from_str N s) = take k s \<and> valid_utf8 (take k s) \<and>
    is_char_boundary s k \<and> (\<forall>k'. k < k' \<and> k' \<le> min (length s) N \<longrightarrow> \<not> is_char_boundary s k') \<and>
    (length s \<le> N \<longrightarrow> k = length s)"
proof -
  let ?k = "cut_boundary s (min (length s) N)"
  have mx: "\<not> is_char_boundary s k'" if "cut_boundary s m < k'" "k' \<le> m" for k' m
    using that by (induction m) (auto split: if_splits simp: le_Suc_eq)
  show ?thesis
    using buf_roundtrip_prefix [OF assms, of N] valid_utf8_take [OF assms cut_boundary_ok] cut_boundary_le
      cut_boundary_ok mx cut_boundary_full [of s]
    by (intro exI [of _ ?k]) (auto simp: min_def)
qed

theorem buf_keeps_longest_valid_prefix_witness:
  "\<exists>k \<le> 3. buf_as_str (buf_from_str 3 (lit ''KB-0001'')) = take k (lit ''KB-0001'') \<and> is_char_boundary (lit ''KB-0001'') k"
proof -
  have "valid_utf8 (lit ''KB-0001'')" by (intro valid_utf8_ascii) (simp add: lit_def)
  from buf_keeps_longest_valid_prefix [OF this, of 3] show ?thesis by auto
qed

end
