(* ===== verification/Sched.thy ===== *)
theory Sched
  imports Task Heal
begin

text \<open>
  The run queue (first part of \<^verbatim>\<open>src/arch/riscv64/src/sched.rs\<close>): the scheduler record,
  round-robin selection, task registration, the state changes of \<^verbatim>\<open>yield_now\<close>,
  \<^verbatim>\<open>enter\<close>, \<^verbatim>\<open>park_current\<close> and \<^verbatim>\<open>exit_current\<close>, and the well-formedness invariant
  with the frame rules every system call's proof uses.
\<close>

section \<open>The run queue\<close>

definition MAX_TASKS :: nat where "MAX_TASKS = 27"
definition CRASH_EP :: nat where "CRASH_EP = 1"
definition MAX_RESTARTS :: nat where "MAX_RESTARTS = 2"

record sched =
  s_tasks :: "task option list"
  s_current :: nat

definition sched_new :: sched where
  "sched_new = \<lparr>s_tasks = replicate MAX_TASKS None, s_current = 0\<rparr>"

text \<open>\<^verbatim>\<open>s.tasks[i].as_ref().unwrap()\<close> and an assignment through \<^verbatim>\<open>s.tasks[i].as_mut().unwrap()\<close>.\<close>

definition task_at :: "sched \<Rightarrow> nat \<Rightarrow> task result" where
  "task_at s i = bindr (idx (s_tasks s) i) (\<lambda>slot. expectr slot UnwrapNone)"

definition modify_task :: "sched \<Rightarrow> nat \<Rightarrow> (task \<Rightarrow> task) \<Rightarrow> sched result" where
  "modify_task s i f =
     bindr (task_at s i) (\<lambda>t. Inr (s\<lparr>s_tasks := (s_tasks s)[i := Some (f t)]\<rparr>))"

definition is_ready :: "sched \<Rightarrow> nat \<Rightarrow> bool" where
  "is_ready s i \<longleftrightarrow> (case s_tasks s ! i of None \<Rightarrow> False | Some t \<Rightarrow> t_state t = Ready)"

definition pick_next :: "sched \<Rightarrow> nat" where
  "pick_next s =
     (case find (\<lambda>offset. is_ready s ((s_current s + offset) mod MAX_TASKS)) [1..<MAX_TASKS] of
        Some offset \<Rightarrow> (s_current s + offset) mod MAX_TASKS
      | None \<Rightarrow> s_current s)"

section \<open>Registering tasks\<close>

definition free_slot :: "sched \<Rightarrow> nat result" where
  "free_slot s = expectr (position (\<lambda>slot. slot = None) (s_tasks s)) (ExpectFailed ''scheduler full'')"

definition spawn ::
  "usize \<Rightarrow> usize \<Rightarrow> sched \<Rightarrow> string \<Rightarrow> usize \<Rightarrow> usize \<Rightarrow> (sched \<times> nat) result" where
  "spawn task_trampoline kernel_satp s name entry stack_top =
     bindr (free_slot s) (\<lambda>slot.
       Inr (s\<lparr>s_tasks := (s_tasks s)[slot := Some
              \<lparr>t_context = zeroed\<lparr>ra := task_trampoline, sp := stack_top AND NOT 15,
                                 sregs := (sregs zeroed)[0 := entry]\<rparr>,
               t_state = Ready, t_stack_top = stack_top, t_name = name, t_satp = kernel_satp,
               t_caps = replicate CAP_SLOTS None, t_message = EMPTY_MSG, t_relaunch = None,
               t_restarts = 0, t_crash_badge = 0, t_caller = None, t_pending_grant = None\<rparr>]\<rparr>,
            slot))"

definition spawn_user ::
  "usize \<Rightarrow> usize \<Rightarrow> sched \<Rightarrow> string \<Rightarrow> usize \<Rightarrow> usize \<Rightarrow> usize \<Rightarrow> usize \<Rightarrow> (sched \<times> nat) result" where
  "spawn_user user_trampoline sstatus_now s name entry usp kstack_top satp =
     bindr (free_slot s) (\<lambda>slot.
       Inr (s\<lparr>s_tasks := (s_tasks s)[slot := Some
              \<lparr>t_context = forge_user_context user_trampoline entry usp kstack_top
                             (user_sstatus sstatus_now) 0,
               t_state = Ready, t_stack_top = kstack_top, t_name = name, t_satp = satp,
               t_caps = replicate CAP_SLOTS None, t_message = EMPTY_MSG,
               t_relaunch = Some \<lparr>entry_pc = entry, user_sp = usp\<rparr>,
               t_restarts = 0, t_crash_badge = 0, t_caller = None, t_pending_grant = None\<rparr>]\<rparr>,
            slot))"

text \<open>The capability table is an array of \<open>CAP_SLOTS\<close> entries: storing past it panics.\<close>

definition grant_cap :: "sched \<Rightarrow> nat \<Rightarrow> nat \<Rightarrow> capability \<Rightarrow> sched result" where
  "grant_cap s slot cap_slot cap =
     bindr (task_at s slot) (\<lambda>t.
     bindr (set_at (t_caps t) cap_slot (Some cap)) (\<lambda>caps.
     modify_task s slot (\<lambda>t. t\<lparr>t_caps := caps\<rparr>)))"

definition set_crash_badge :: "sched \<Rightarrow> nat \<Rightarrow> usize \<Rightarrow> sched result" where
  "set_crash_badge s slot b = modify_task s slot (\<lambda>t. t\<lparr>t_crash_badge := b\<rparr>)"

definition set_launch_args :: "sched \<Rightarrow> nat \<Rightarrow> usize \<Rightarrow> usize \<Rightarrow> sched result" where
  "set_launch_args s slot a1 a2 =
     modify_task s slot (\<lambda>t. t\<lparr>t_context := (t_context t)
       \<lparr>sregs := (sregs (t_context t))[4 := a1, 5 := a2]\<rparr>\<rparr>)"

section \<open>Switching\<close>

text \<open>
  The scheduler's part of \<^verbatim>\<open>yield_now\<close>: \<open>None\<close> when nobody else is ready; otherwise the
  new run queue and the address space to load.
\<close>

definition set_state :: "sched \<Rightarrow> nat \<Rightarrow> task_state \<Rightarrow> sched result" where
  "set_state s i st = modify_task s i (\<lambda>t. t\<lparr>t_state := st\<rparr>)"

definition run_next :: "sched \<Rightarrow> nat \<Rightarrow> (sched \<times> usize) result" where
  "run_next s nxt =
     bindr (set_state s nxt Running) (\<lambda>s1.
     bindr (task_at s1 nxt) (\<lambda>t.
     Inr (s1\<lparr>s_current := nxt\<rparr>, t_satp t)))"

definition yield_step :: "sched \<Rightarrow> (sched \<times> usize) option result" where
  "yield_step s =
     (let current = s_current s; nxt = pick_next s
      in if nxt = current then Inr None
         else bindr (set_state s current Ready) (\<lambda>s1.
              bindr (run_next s1 nxt) (\<lambda>r. Inr (Some r))))"

definition enter_step :: "sched \<Rightarrow> (sched \<times> usize) result" where
  "enter_step s =
     bindr (idx (s_tasks s) 0) (\<lambda>slot.
     bindr (expectr slot (ExpectFailed ''enter() with no spawned task'')) (\<lambda>_.
     run_next (s\<lparr>s_current := 0\<rparr>) 0))"

definition park_step :: "sched \<Rightarrow> task_state \<Rightarrow> (sched \<times> usize) result" where
  "park_step s st =
     (let current = s_current s
      in bindr (set_state s current st) (\<lambda>s1.
         let nxt = pick_next s1
         in bindr (assertr (nxt \<noteq> current) (AssertFailed ''park_current: no runnable successor'')) (\<lambda>_.
            run_next s1 nxt)))"

definition find_blocked :: "sched \<Rightarrow> nat \<Rightarrow> ipc_role \<Rightarrow> nat option" where
  "find_blocked s ep role =
     position (\<lambda>slot. case slot of None \<Rightarrow> False | Some t \<Rightarrow> t_state t = Blocked ep role) (s_tasks s)"

text \<open>
  The crash path of \<^verbatim>\<open>exit_current\<close>: diagnose, then, for a restartable component that is
  not quarantined, hand the crash badge to a healer blocked on the crash endpoint, who is
  preferred as the next task.
\<close>

definition notify_healer :: "sched \<Rightarrow> nat \<Rightarrow> (sched \<times> nat option) result" where
  "notify_healer s current =
     bindr (task_at s current) (\<lambda>t.
     case find_blocked s CRASH_EP RoleRecv of
       Some h \<Rightarrow>
         bindr (modify_task s h (\<lambda>u. u\<lparr>t_message := \<lparr>badge = t_crash_badge t, data = (0, 0, 0)\<rparr>\<rparr>)) (\<lambda>s1.
         bindr (set_state s1 h Ready) (\<lambda>s2. Inr (s2, Some h)))
     | None \<Rightarrow> Inr (s, None))"

definition crash_step :: "sched \<Rightarrow> heal \<Rightarrow> cause \<Rightarrow> (sched \<times> heal \<times> nat option) result" where
  "crash_step s hl c =
     (let current = s_current s; (hl1, quarantine_id) = diagnose_crash hl c
      in bindr (task_at s current) (\<lambda>t.
         if t_relaunch t \<noteq> None \<and> quarantine_id = None
         then bindr (notify_healer s current) (\<lambda>(s1, pref). Inr (s1, hl1, pref))
         else Inr (s, hl1, None)))"

definition retire :: "sched \<Rightarrow> nat option \<Rightarrow> (sched \<times> usize) result" where
  "retire s pref =
     (let current = s_current s
      in bindr (set_state s current Exited) (\<lambda>s1.
         let nxt = (case pref of Some h \<Rightarrow> h | None \<Rightarrow> pick_next s1)
         in bindr (assertr (nxt \<noteq> current) (AssertFailed ''exit_current: no runnable successor'')) (\<lambda>_.
            run_next s1 nxt)))"

definition exit_step :: "sched \<Rightarrow> heal \<Rightarrow> exit_reason \<Rightarrow> (sched \<times> heal \<times> usize) result" where
  "exit_step s hl reason =
     bindr (case reason of ExitedWith code \<Rightarrow> Inr (s, hl, None) | Killed c \<Rightarrow> crash_step s hl c)
       (\<lambda>(s1, hl1, pref). bindr (retire s1 pref) (\<lambda>(s2, satp). Inr (s2, hl1, satp)))"

section \<open>Slots\<close>

definition slot_of :: "sched \<Rightarrow> nat \<Rightarrow> task option" where
  "slot_of s i = (if i < length (s_tasks s) then s_tasks s ! i else None)"

definition put_task :: "sched \<Rightarrow> nat \<Rightarrow> task \<Rightarrow> sched" where
  "put_task s i t = s\<lparr>s_tasks := (s_tasks s)[i := Some t]\<rparr>"

lemma holds_task_at [wp]: "holds (task_at s i) P \<longleftrightarrow> (\<exists>t. slot_of s i = Some t \<and> P t)"
  by (auto simp: task_at_def slot_of_def wp)

lemma holds_modify_task [wp]:
  "holds (modify_task s i f) P \<longleftrightarrow> (\<exists>t. slot_of s i = Some t \<and> P (put_task s i (f t)))"
  by (auto simp: modify_task_def put_task_def wp)

lemma holds_set_state [wp]:
  "holds (set_state s i st) P \<longleftrightarrow> (\<exists>t. slot_of s i = Some t \<and> P (put_task s i (t\<lparr>t_state := st\<rparr>)))"
  by (simp add: set_state_def wp)

lemma slot_of_in_range: "slot_of s i \<noteq> None \<Longrightarrow> i < length (s_tasks s)"
  by (auto simp: slot_of_def split: if_splits)

lemma task_at_Some: "slot_of s i = Some t \<Longrightarrow> task_at s i = Inr t"
  by (auto simp: task_at_def idx_def expectr_def slot_of_def split: if_splits)

lemma slot_of_put [simp]:
  "slot_of s i \<noteq> None \<Longrightarrow> slot_of (put_task s i t) j = (if j = i then Some t else slot_of s j)"
  by (auto simp: slot_of_def put_task_def)

lemma put_task_simps [simp]:
  "s_current (put_task s i t) = s_current s"
  "length (s_tasks (put_task s i t)) = length (s_tasks s)"
  by (simp_all add: put_task_def)

lemma slot_of_current [simp]: "slot_of (s\<lparr>s_current := c\<rparr>) i = slot_of s i"
  by (simp add: slot_of_def)

lemma holds_run_next [wp]:
  "holds (run_next s n) P \<longleftrightarrow>
     (\<exists>t. slot_of s n = Some t \<and> P (put_task s n (t\<lparr>t_state := Running\<rparr>)\<lparr>s_current := n\<rparr>, t_satp t))"
  by (auto simp: run_next_def wp)

lemma is_ready_slot: "i < length (s_tasks s) \<Longrightarrow> is_ready s i \<longleftrightarrow> (\<exists>t. slot_of s i = Some t \<and> t_state t = Ready)"
  by (auto simp: is_ready_def slot_of_def split: option.splits)

lemma find_blocked_Some:
  assumes "find_blocked s ep role = Some i"
  obtains t where "slot_of s i = Some t" "t_state t = Blocked ep role"
proof -
  from position_SomeD [OF assms [unfolded find_blocked_def]]
  have "i < length (s_tasks s)" "\<exists>t. s_tasks s ! i = Some t \<and> t_state t = Blocked ep role"
    by (auto split: option.splits)
  then show thesis using that by (auto simp: slot_of_def)
qed

lemma find_blocked_None:
  "find_blocked s ep role = None \<longleftrightarrow> (\<forall>i t. slot_of s i = Some t \<longrightarrow> t_state t \<noteq> Blocked ep role)"
proof -
  have "find_blocked s ep role = None \<longleftrightarrow>
      (\<forall>i<length (s_tasks s). \<forall>t. s_tasks s ! i = Some t \<longrightarrow> t_state t \<noteq> Blocked ep role)"
    by (auto simp: find_blocked_def position_None_iff all_set_conv_all_nth split: option.splits)
  then show ?thesis by (auto simp: slot_of_def split: if_splits)
qed


section \<open>Round-robin selection\<close>

lemma find_Some_sorted:
  "find P [a..<b] = Some x \<longleftrightarrow> a \<le> x \<and> x < b \<and> P x \<and> (\<forall>y. a \<le> y \<and> y < x \<longrightarrow> \<not> P y)"
proof
  assume "find P [a..<b] = Some x"
  then obtain i where i: "i < b - a" "P (a + i)" "x = a + i" "\<forall>j<i. \<not> P (a + j)"
    by (auto simp: find_Some_iff)
  have "\<not> P y" if "a \<le> y" "y < x" for y
    using i(4) [rule_format, of "y - a"] that i(3) by simp
  with i show "a \<le> x \<and> x < b \<and> P x \<and> (\<forall>y. a \<le> y \<and> y < x \<longrightarrow> \<not> P y)" by simp
next
  assume "a \<le> x \<and> x < b \<and> P x \<and> (\<forall>y. a \<le> y \<and> y < x \<longrightarrow> \<not> P y)"
  then show "find P [a..<b] = Some x"
    by (auto simp: find_Some_iff intro!: exI [of _ "x - a"])
qed

text \<open>How far ahead of the running task a slot is in scan order.\<close>

definition distance :: "sched \<Rightarrow> nat \<Rightarrow> nat" where
  "distance s i = (i + (MAX_TASKS - s_current s)) mod MAX_TASKS"

lemma distance_unfold:
  "s_current s < MAX_TASKS \<Longrightarrow> i < MAX_TASKS \<Longrightarrow>
   distance s i = (if s_current s \<le> i then i - s_current s else i + MAX_TASKS - s_current s)"
proof -
  assume c: "s_current s < MAX_TASKS" and i: "i < MAX_TASKS"
  show ?thesis
  proof (cases "s_current s \<le> i")
    case True
    then have "i + (MAX_TASKS - s_current s) = (i - s_current s) + MAX_TASKS" using c by simp
    then have "distance s i = (i - s_current s) mod MAX_TASKS" by (simp only: distance_def mod_add_self2)
    then show ?thesis using True i by simp
  next
    case False
    then show ?thesis using c by (simp add: distance_def)
  qed
qed

lemma distance_inverse:
  assumes "s_current s < MAX_TASKS" "i < MAX_TASKS"
  shows "(s_current s + distance s i) mod MAX_TASKS = i"
    and "distance s i < MAX_TASKS" and "distance s i = 0 \<longleftrightarrow> i = s_current s"
  using assms by (auto simp: distance_unfold)

lemma distance_offset:
  assumes "s_current s < MAX_TASKS" "d < MAX_TASKS"
  shows "distance s ((s_current s + d) mod MAX_TASKS) = d"
proof -
  have "(s_current s + d) mod MAX_TASKS =
      (if s_current s + d < MAX_TASKS then s_current s + d else s_current s + d - MAX_TASKS)"
    using assms by (auto simp: mod_if)
  then show ?thesis using assms by (auto simp: distance_unfold)
qed

lemma pick_next_ready:
  assumes c: "s_current s < MAX_TASKS" and n: "pick_next s \<noteq> s_current s"
  shows "pick_next s < MAX_TASKS \<and> is_ready s (pick_next s) \<and>
    (\<forall>j<MAX_TASKS. 0 < distance s j \<and> distance s j < distance s (pick_next s) \<longrightarrow> \<not> is_ready s j)"
proof -
  from n obtain d where d: "find (\<lambda>k. is_ready s ((s_current s + k) mod MAX_TASKS)) [1..<MAX_TASKS] = Some d"
    by (auto simp: pick_next_def split: option.splits)
  then have p: "pick_next s = (s_current s + d) mod MAX_TASKS" by (simp add: pick_next_def)
  from d have d': "1 \<le> d" "d < MAX_TASKS" "is_ready s ((s_current s + d) mod MAX_TASKS)"
    "\<forall>y. 1 \<le> y \<and> y < d \<longrightarrow> \<not> is_ready s ((s_current s + y) mod MAX_TASKS)"
    by (auto simp: find_Some_sorted)
  have dist: "distance s (pick_next s) = d" using c d' by (simp add: p distance_offset)
  have "\<not> is_ready s j" if "j < MAX_TASKS" "0 < distance s j" "distance s j < d" for j
    using d'(4) [rule_format, of "distance s j"] that distance_inverse(1) [OF c that(1)] by simp
  moreover have "pick_next s < MAX_TASKS" by (simp add: p MAX_TASKS_def)
  ultimately show ?thesis using d'(3) p dist by simp
qed

lemma pick_next_self:
  assumes "s_current s < MAX_TASKS" "pick_next s = s_current s" "i < MAX_TASKS" "i \<noteq> s_current s"
  shows "\<not> is_ready s i"
proof
  assume r: "is_ready s i"
  let ?P = "\<lambda>k. is_ready s ((s_current s + k) mod MAX_TASKS)"
  have d: "?P (distance s i)" "distance s i \<in> set [1..<MAX_TASKS]"
    using distance_inverse [OF assms(1,3)] assms(4) r by auto
  then obtain o' where o': "find ?P [1..<MAX_TASKS] = Some o'"
    by (cases "find ?P [1..<MAX_TASKS]") (auto simp: find_None_iff)
  then have "pick_next s = (s_current s + o') mod MAX_TASKS" by (simp add: pick_next_def)
  moreover from o' have "1 \<le> o'" "o' < MAX_TASKS" by (auto simp: find_Some_sorted)
  ultimately show False
    using distance_offset [OF assms(1), of o'] distance_inverse(3) [OF assms(1), of "s_current s"]
      assms(1,2) by simp
qed

lemma pick_next_progress:
  assumes "s_current s < MAX_TASKS" "i < MAX_TASKS" "i \<noteq> s_current s" "is_ready s i"
  shows "pick_next s \<noteq> s_current s" "distance s (pick_next s) \<le> distance s i"
proof -
  show n: "pick_next s \<noteq> s_current s" using pick_next_self [OF assms(1)] assms by blast
  have "0 < distance s i" using distance_inverse(3) [OF assms(1,2)] assms(3) by auto
  then show "distance s (pick_next s) \<le> distance s i"
    using pick_next_ready [OF assms(1) n] assms by (meson not_le)
qed


section \<open>The invariant\<close>

text \<open>
  \<open>R\<close> is the set of slots that hold restartable (U-mode) components, which boot fixes:
  \<open>Restart\<close> capabilities name those only, and \<open>Reply\<close> capabilities name slots.
\<close>

definition cap_ok :: "nat set \<Rightarrow> capability \<Rightarrow> bool" where
  "cap_ok R c \<longleftrightarrow> (case c of Restart t \<Rightarrow> t \<in> R | Reply t \<Rightarrow> t < MAX_TASKS | _ \<Rightarrow> True)"

definition task_wf :: "nat set \<Rightarrow> nat \<Rightarrow> task \<Rightarrow> bool" where
  "task_wf R i t \<longleftrightarrow>
     length (t_caps t) = CAP_SLOTS \<and> (\<forall>c\<in>task_caps t. cap_ok R c) \<and>
     (\<forall>c. t_caller t = Some c \<longrightarrow> c < MAX_TASKS) \<and> (t_relaunch t \<noteq> None \<longleftrightarrow> i \<in> R) \<and>
     t_restarts t \<le> MAX_RESTARTS"

definition sched_wf :: "nat set \<Rightarrow> sched \<Rightarrow> bool" where
  "sched_wf R s \<longleftrightarrow>
     length (s_tasks s) = MAX_TASKS \<and> slot_of s (s_current s) \<noteq> None \<and>
     (\<forall>i\<in>R. slot_of s i \<noteq> None) \<and> (\<forall>i t. slot_of s i = Some t \<longrightarrow> task_wf R i t)"

text \<open>
  Only the current slot runs, and the idle task (slot \<open>d\<close>, a kernel task) is ready whenever
  it is not the one running. A task that restarts itself is marked \<open>Ready\<close> while it runs.
\<close>

definition state_ok :: "nat \<Rightarrow> nat \<Rightarrow> nat \<Rightarrow> task_state \<Rightarrow> bool" where
  "state_ok d cur i st \<longleftrightarrow>
     (st = Running \<longrightarrow> i = cur) \<and> (i = cur \<longrightarrow> st = Running \<or> st = Ready) \<and>
     (i = d \<and> i \<noteq> cur \<longrightarrow> st = Ready)"

definition run_ok :: "nat \<Rightarrow> sched \<Rightarrow> bool" where
  "run_ok d s \<longleftrightarrow> slot_of s d \<noteq> None \<and>
     (\<forall>i t. slot_of s i = Some t \<longrightarrow> state_ok d (s_current s) i (t_state t))"

lemma task_wf_simps [simp]:
  "task_wf R i (t\<lparr>t_state := st\<rparr>) = task_wf R i t"
  "task_wf R i (t\<lparr>t_message := m\<rparr>) = task_wf R i t"
  "task_wf R i (t\<lparr>t_context := c\<rparr>) = task_wf R i t"
  "task_wf R i (t\<lparr>t_satp := w\<rparr>) = task_wf R i t"
  "task_wf R i (t\<lparr>t_crash_badge := w\<rparr>) = task_wf R i t"
  by (simp_all add: task_wf_def task_caps_def)

lemma task_wf_restarts: "task_wf R i t \<Longrightarrow> n \<le> MAX_RESTARTS \<Longrightarrow> task_wf R i (t\<lparr>t_restarts := n\<rparr>)"
  by (simp add: task_wf_def task_caps_def)

lemma task_wf_caller: "task_wf R i t \<Longrightarrow> (\<And>c. x = Some c \<Longrightarrow> c < MAX_TASKS) \<Longrightarrow> task_wf R i (t\<lparr>t_caller := x\<rparr>)"
  by (simp add: task_wf_def task_caps_def)

lemma task_wf_pending:
  "task_wf R i t \<Longrightarrow> (\<And>c. x = Some c \<Longrightarrow> cap_ok R c) \<Longrightarrow> task_wf R i (t\<lparr>t_pending_grant := x\<rparr>)"
  by (auto simp: task_wf_def task_caps_def)

lemma task_wf_caps:
  "task_wf R i t \<Longrightarrow> length caps = length (t_caps t) \<Longrightarrow> (\<And>c. c \<in> caps_of caps \<Longrightarrow> cap_ok R c) \<Longrightarrow>
   task_wf R i (t\<lparr>t_caps := caps\<rparr>)"
  by (auto simp: task_wf_def task_caps_def)

lemma task_wf_store:
  "task_wf R i t \<Longrightarrow> cap_ok R c \<Longrightarrow> task_wf R i (t\<lparr>t_caps := (t_caps t)[k := Some c]\<rparr>)"
  using caps_of_update [of "t_caps t" k c]
  by (intro task_wf_caps) (auto simp: task_wf_def task_caps_def)

lemma task_wf_clear: "task_wf R i t \<Longrightarrow> task_wf R i (t\<lparr>t_caps := (t_caps t)[k := None]\<rparr>)"
  using caps_of_clear [of "t_caps t" k]
  by (intro task_wf_caps) (auto simp: task_wf_def task_caps_def)

lemmas task_wf_intros = task_wf_caller task_wf_pending task_wf_store task_wf_clear

lemma sched_wf_put:
  "sched_wf R s \<Longrightarrow> slot_of s i \<noteq> None \<Longrightarrow> task_wf R i t \<Longrightarrow> sched_wf R (put_task s i t)"
  by (auto simp: sched_wf_def)

lemma sched_wf_slot: "sched_wf R s \<Longrightarrow> slot_of s i = Some t \<Longrightarrow> task_wf R i t"
  by (simp add: sched_wf_def)

lemma sched_wf_current: "sched_wf R s \<Longrightarrow> \<exists>t. slot_of s (s_current s) = Some t"
  by (auto simp: sched_wf_def)

lemma sched_wf_range: "sched_wf R s \<Longrightarrow> slot_of s i = Some t \<Longrightarrow> i < MAX_TASKS"
  using slot_of_in_range [of s i] by (auto simp: sched_wf_def)

lemma sched_wf_set_current: "sched_wf R s \<Longrightarrow> slot_of s n \<noteq> None \<Longrightarrow> sched_wf R (s\<lparr>s_current := n\<rparr>)"
  by (auto simp: sched_wf_def)

lemma run_ok_slot: "run_ok d s \<Longrightarrow> slot_of s i = Some t \<Longrightarrow> state_ok d (s_current s) i (t_state t)"
  by (simp add: run_ok_def)

lemma run_ok_put:
  "run_ok d s \<Longrightarrow> slot_of s i = Some t0 \<Longrightarrow> state_ok d (s_current s) i (t_state t) \<Longrightarrow>
   run_ok d (put_task s i t)"
  by (auto simp: run_ok_def)

lemma run_ok_same:
  "run_ok d s \<Longrightarrow> slot_of s i = Some t0 \<Longrightarrow> t_state t = t_state t0 \<Longrightarrow> run_ok d (put_task s i t)"
  by (rule run_ok_put) (auto simp: run_ok_slot)

lemma state_ok_Ready [simp]: "state_ok d cur i Ready"
  by (simp add: state_ok_def)

lemma run_ok_wake:
  "run_ok d s \<Longrightarrow> slot_of s i = Some t0 \<Longrightarrow> t_state t = Ready \<Longrightarrow> run_ok d (put_task s i t)"
  by (rule run_ok_put) auto

lemma run_ok_idle:
  assumes "run_ok d s" "s_current s \<noteq> d"
  obtains t where "slot_of s d = Some t" "t_state t = Ready"
proof -
  obtain t where t: "slot_of s d = Some t" using assms(1) by (auto simp: run_ok_def)
  from run_ok_slot [OF assms(1) this] assms(2) have "t_state t = Ready" by (auto simp: state_ok_def)
  with t show thesis by (rule that)
qed

lemma run_ok_blocked:
  "run_ok d s \<Longrightarrow> slot_of s i = Some t \<Longrightarrow> t_state t \<noteq> Ready \<Longrightarrow> t_state t \<noteq> Running \<Longrightarrow>
   i \<noteq> s_current s \<and> i \<noteq> d"
  using run_ok_slot [of d s i t] by (auto simp: state_ok_def)

section \<open>Switching keeps the invariant\<close>

text \<open>A switch changes scheduling states only.\<close>

definition same_core :: "sched \<Rightarrow> sched \<Rightarrow> bool" where
  "same_core s s' \<longleftrightarrow> length (s_tasks s') = length (s_tasks s) \<and>
     (\<forall>i. map_option (t_state_update (\<lambda>_. Ready)) (slot_of s' i) =
          map_option (t_state_update (\<lambda>_. Ready)) (slot_of s i))"

lemma same_core_refl [simp]: "same_core s s"
  by (simp add: same_core_def)

lemma same_core_trans: "same_core s s' \<Longrightarrow> same_core s' s'' \<Longrightarrow> same_core s s''"
  by (simp add: same_core_def)

lemma same_core_put:
  "slot_of s i = Some t \<Longrightarrow> same_core s (put_task s i (t\<lparr>t_state := st\<rparr>))"
  by (auto simp: same_core_def)

lemma same_core_current [simp]: "same_core s (s'\<lparr>s_current := n\<rparr>) = same_core s s'"
  by (simp add: same_core_def)

lemma same_coreD:
  assumes "same_core s s'" "slot_of s' i = Some t'"
  obtains t where "slot_of s i = Some t" "t' = t\<lparr>t_state := t_state t'\<rparr>"
proof -
  from assms have "map_option (t_state_update (\<lambda>_. Ready)) (slot_of s i) = Some (t'\<lparr>t_state := Ready\<rparr>)"
    unfolding same_core_def by (metis option.simps(9))
  then obtain t where t: "slot_of s i = Some t" "t\<lparr>t_state := Ready\<rparr> = t'\<lparr>t_state := Ready\<rparr>" by auto
  from t(2) have "t' = t\<lparr>t_state := t_state t'\<rparr>" by (cases t, cases t') simp
  with t(1) show thesis by (rule that)
qed

lemma same_core_None: "same_core s s' \<Longrightarrow> slot_of s' i = None \<longleftrightarrow> slot_of s i = None"
  by (simp add: same_core_def) (metis option.map_disc_iff)

lemma sched_wf_same_core:
  assumes "sched_wf R s" "same_core s s'" "slot_of s (s_current s') \<noteq> None"
  shows "sched_wf R s'"
proof -
  have "task_wf R i t'" if "slot_of s' i = Some t'" for i t'
  proof -
    from same_coreD [OF assms(2) that] obtain t where "slot_of s i = Some t" "t' = t\<lparr>t_state := t_state t'\<rparr>" .
    with assms(1) show ?thesis by (metis sched_wf_slot task_wf_simps(1))
  qed
  then show ?thesis
    using assms same_core_None [OF assms(2)] by (auto simp: sched_wf_def same_core_def)
qed

lemma run_next_ok:
  assumes "slot_of s n = Some t" "slot_of s d \<noteq> None" "n \<noteq> s_current s"
    and "\<And>i t. slot_of s i = Some t \<Longrightarrow> i \<noteq> n \<Longrightarrow> t_state t \<noteq> Running \<and> (i = d \<longrightarrow> t_state t = Ready)"
  shows "holds (run_next s n) (\<lambda>(s', _). run_ok d s' \<and> same_core s s' \<and> s_current s' = n)"
proof -
  have "same_core s (put_task s n (t\<lparr>t_state := Running\<rparr>))" using assms(1) by (rule same_core_put)
  moreover have "run_ok d (put_task s n (t\<lparr>t_state := Running\<rparr>)\<lparr>s_current := n\<rparr>)"
    using assms by (simp add: run_ok_def state_ok_def)
  ultimately show ?thesis using assms(1) by (simp add: wp)
qed

text \<open>What a task that gives up the processor can rely on.\<close>

definition switched :: "nat set \<Rightarrow> nat \<Rightarrow> sched \<Rightarrow> sched \<Rightarrow> bool" where
  "switched R d s s' \<longleftrightarrow> sched_wf R s' \<and> run_ok d s' \<and> same_core s s' \<and> s_current s' \<noteq> s_current s"

lemma switched_via:
  assumes wf: "sched_wf R s" and cur: "slot_of s (s_current s) = Some t" and st: "st \<noteq> Running"
    and run: "run_ok d s" and idle: "s_current s \<noteq> d \<or> st = Ready"
    and n: "n \<noteq> s_current s" "slot_of s n \<noteq> None"
  shows "holds (run_next (put_task s (s_current s) (t\<lparr>t_state := st\<rparr>)) n) (\<lambda>(s', _). switched R d s s' \<and> s_current s' = n)"
proof -
  let ?s1 = "put_task s (s_current s) (t\<lparr>t_state := st\<rparr>)"
  obtain u where u: "slot_of ?s1 n = Some u" using n cur by auto
  have others: "t_state v \<noteq> Running \<and> (i = d \<longrightarrow> t_state v = Ready)"
    if "slot_of ?s1 i = Some v" "i \<noteq> n" for i v
  proof (cases "i = s_current s")
    case True
    then show ?thesis using that cur st idle by auto
  next
    case False
    then have "slot_of s i = Some v" using that cur by simp
    from run_ok_slot [OF run this] False show ?thesis by (simp add: state_ok_def)
  qed
  have base: "holds (run_next ?s1 n) (\<lambda>(s', _). run_ok d s' \<and> same_core ?s1 s' \<and> s_current s' = n)"
    using run cur n by (intro run_next_ok [OF u _ _ others]) (auto simp: run_ok_def)
  have core: "same_core s ?s1" using cur by (rule same_core_put)
  show ?thesis
  proof (rule holds_mono [OF base], clarify)
    fix s' assume s': "run_ok d s'" "same_core ?s1 s'" "n = s_current s'"
    have "same_core s s'" using core s'(2) by (rule same_core_trans)
    moreover from this have "sched_wf R s'" using sched_wf_same_core [OF wf] n s'(3) by simp
    ultimately show "switched R d s s' \<and> s_current s' = s_current s'" using s' n by (simp add: switched_def)
  qed
qed

lemma successor_exists:
  assumes wf: "sched_wf R s" and run: "run_ok d s" and c: "s_current s \<noteq> d"
    and t: "slot_of s (s_current s) = Some t" and st: "st \<noteq> Ready"
  shows "pick_next (put_task s (s_current s) (t\<lparr>t_state := st\<rparr>)) \<noteq> s_current s"
    and "slot_of s (pick_next (put_task s (s_current s) (t\<lparr>t_state := st\<rparr>))) \<noteq> None"
proof -
  let ?s1 = "put_task s (s_current s) (t\<lparr>t_state := st\<rparr>)"
  from run_ok_idle [OF run c] obtain i where "slot_of s d = Some i" "t_state i = Ready" .
  then have d: "is_ready ?s1 d" "d < MAX_TASKS"
    using c t sched_wf_range [OF wf] wf by (auto simp: is_ready_slot sched_wf_def)
  have cm: "s_current ?s1 < MAX_TASKS" using sched_wf_range [OF wf t] by simp
  show pk: "pick_next ?s1 \<noteq> s_current s"
    using pick_next_progress(1) [OF cm d(2) _ d(1)] c by simp
  then have "is_ready ?s1 (pick_next ?s1)" "pick_next ?s1 < MAX_TASKS"
    using pick_next_ready [OF cm] by simp_all
  then show "slot_of s (pick_next ?s1) \<noteq> None"
    using wf t pk by (auto simp: is_ready_slot sched_wf_def)
qed

lemma park_step_ok:
  assumes wf: "sched_wf R s" and run: "run_ok d s" and c: "s_current s \<noteq> d" and st: "st \<noteq> Running" "st \<noteq> Ready"
  shows "holds (park_step s st) (\<lambda>(s', _). switched R d s s')"
proof -
  obtain t where t: "slot_of s (s_current s) = Some t" using sched_wf_current [OF wf] by auto
  note next_ok = successor_exists [OF wf run c t st(2)]
  from switched_via [OF wf t st(1) run _ next_ok] c next_ok t show ?thesis
    by (simp add: park_step_def wp Let_def split_def holds_conj)
qed

lemma yield_step_ok:
  assumes wf: "sched_wf R s" and run: "run_ok d s"
  shows "holds (yield_step s) (\<lambda>r. case r of None \<Rightarrow> pick_next s = s_current s
     | Some (s', _) \<Rightarrow> switched R d s s' \<and> s_current s' = pick_next s)"
proof (cases "pick_next s = s_current s")
  case True
  then show ?thesis by (simp add: yield_step_def wp)
next
  case False
  obtain t where t: "slot_of s (s_current s) = Some t" using sched_wf_current [OF wf] by auto
  have "is_ready s (pick_next s)" "pick_next s < MAX_TASKS"
    using pick_next_ready False sched_wf_range [OF wf t] by simp_all
  then have "slot_of s (pick_next s) \<noteq> None" using wf by (auto simp: is_ready_slot sched_wf_def)
  from switched_via [OF wf t _ run _ False this, of Ready] t False show ?thesis
    by (simp add: yield_step_def wp Let_def split_def)
qed


section \<open>Termination of a task\<close>

text \<open>
  The authority a slot holds: its CSpace, a capability in transit to or from it, and the
  reply right of a caller already bound to it.
\<close>

definition task_auth :: "task \<Rightarrow> capability set" where
  "task_auth t = task_caps t \<union> Reply ` set_option (t_caller t)"

definition auth :: "sched \<Rightarrow> nat \<Rightarrow> capability set" where
  "auth s i = (case slot_of s i of None \<Rightarrow> {} | Some t \<Rightarrow> task_auth t)"

lemma task_auth_simps [simp]:
  "task_auth (t\<lparr>t_state := st\<rparr>) = task_auth t"
  "task_auth (t\<lparr>t_message := m\<rparr>) = task_auth t"
  "task_auth (t\<lparr>t_context := c\<rparr>) = task_auth t"
  "task_auth (t\<lparr>t_satp := w\<rparr>) = task_auth t"
  "task_auth (t\<lparr>t_restarts := n\<rparr>) = task_auth t"
  by (simp_all add: task_auth_def task_caps_def)

lemma auth_put:
  "slot_of s i = Some t0 \<Longrightarrow> auth (put_task s i t) j = (if j = i then task_auth t else auth s j)"
  by (simp add: auth_def)

lemma auth_current [simp]: "auth (s\<lparr>s_current := c\<rparr>) i = auth s i"
  by (simp add: auth_def)

lemma auth_slot: "slot_of s i = Some t \<Longrightarrow> auth s i = task_auth t"
  by (simp add: auth_def)

lemma same_core_auth:
  assumes "same_core s s'"
  shows "auth s' = auth s"
proof
  fix i
  show "auth s' i = auth s i"
  proof (cases "slot_of s' i")
    case None
    then have "slot_of s i = None" using same_core_None [OF assms] by simp
    with None show ?thesis by (simp add: auth_def)
  next
    case (Some t')
    from same_coreD [OF assms Some] obtain t where "slot_of s i = Some t" "t' = t\<lparr>t_state := t_state t'\<rparr>" .
    then show ?thesis using Some by (simp add: auth_slot) (metis task_auth_simps(1))
  qed
qed

lemma notify_healer_ok:
  assumes wf: "sched_wf R s" and run: "run_ok d s"
  shows "holds (notify_healer s (s_current s)) (\<lambda>(s1, pref). sched_wf R s1 \<and> run_ok d s1 \<and>
     s_current s1 = s_current s \<and> auth s1 = auth s \<and> (\<forall>i. slot_of s1 i = None \<longleftrightarrow> slot_of s i = None) \<and>
     (\<forall>h. pref = Some h \<longrightarrow> h \<noteq> s_current s \<and> slot_of s h \<noteq> None))"
proof -
  obtain t where t: "slot_of s (s_current s) = Some t" using sched_wf_current [OF wf] by auto
  show ?thesis
  proof (cases "find_blocked s CRASH_EP RoleRecv")
    case None
    then show ?thesis using wf run t by (simp add: notify_healer_def wp)
  next
    case (Some h)
    then obtain u where u: "slot_of s h = Some u" "t_state u = Blocked CRASH_EP RoleRecv"
      by (rule find_blocked_Some)
    then have h: "h \<noteq> s_current s" using run_ok_blocked [OF run u(1)] by simp
    let ?m = "\<lparr>badge = t_crash_badge t, data = (0, 0, 0)\<rparr>"
    let ?s1 = "put_task s h (u\<lparr>t_message := ?m\<rparr>)"
    let ?s2 = "put_task ?s1 h (u\<lparr>t_message := ?m, t_state := Ready\<rparr>)"
    have "sched_wf R ?s2"
      using wf u by (intro sched_wf_put) (auto simp: sched_wf_slot)
    moreover have "run_ok d ?s2"
      by (rule run_ok_wake, rule run_ok_same) (use run u in auto)
    moreover have "auth ?s2 = auth s"
      using u by (intro ext) (simp add: auth_put auth_slot)
    ultimately show ?thesis using Some t u h by (simp add: notify_healer_def wp)
  qed
qed

lemma crash_step_ok:
  assumes wf: "sched_wf R s" and run: "run_ok d s" and hl: "heal_wf hl"
  shows "holds (crash_step s hl c) (\<lambda>(s1, hl1, pref). sched_wf R s1 \<and> run_ok d s1 \<and> heal_wf hl1 \<and>
     s_current s1 = s_current s \<and> auth s1 = auth s \<and> (\<forall>i. slot_of s1 i = None \<longleftrightarrow> slot_of s i = None) \<and>
     (\<forall>h. pref = Some h \<longrightarrow> h \<noteq> s_current s \<and> slot_of s h \<noteq> None))"
proof -
  obtain t where t: "slot_of s (s_current s) = Some t" using sched_wf_current [OF wf] by auto
  obtain hl1 q where dc: "diagnose_crash hl c = (hl1, q)" by fastforce
  then have "heal_wf hl1" using heal_wf_diagnose_crash [OF hl, of c] by simp
  then show ?thesis
    using notify_healer_ok [OF wf run] wf run t dc
    by (auto simp: crash_step_def wp split_def elim: holds_mono)
qed

lemma retire_ok:
  assumes wf: "sched_wf R s" and run: "run_ok d s" and c: "s_current s \<noteq> d"
    and pf: "\<And>h. pref = Some h \<Longrightarrow> h \<noteq> s_current s \<and> slot_of s h \<noteq> None"
  shows "holds (retire s pref) (\<lambda>(s', _). switched R d s s')"
proof -
  obtain t where t: "slot_of s (s_current s) = Some t" using sched_wf_current [OF wf] by auto
  let ?s1 = "put_task s (s_current s) (t\<lparr>t_state := Exited\<rparr>)"
  let ?n = "case pref of Some h \<Rightarrow> h | None \<Rightarrow> pick_next ?s1"
  have n: "?n \<noteq> s_current s" "slot_of s ?n \<noteq> None"
    using successor_exists [OF wf run c t, of Exited] pf by (auto split: option.splits)
  from switched_via [OF wf t _ run _ n, of Exited] c n t show ?thesis
    by (simp add: retire_def wp Let_def split_def holds_conj del: holds_run_next)
qed

lemma exit_step_ok:
  assumes wf: "sched_wf R s" and run: "run_ok d s" and c: "s_current s \<noteq> d" and hl: "heal_wf hl"
  shows "holds (exit_step s hl reason) (\<lambda>(s', hl', _). sched_wf R s' \<and> run_ok d s' \<and> heal_wf hl' \<and>
     auth s' = auth s \<and> (\<forall>i. slot_of s' i = None \<longleftrightarrow> slot_of s i = None) \<and> s_current s' \<noteq> s_current s)"
proof -
  let ?pre = "case reason of ExitedWith code \<Rightarrow> Inr (s, hl, None) | Killed c \<Rightarrow> crash_step s hl c"
  let ?Q = "\<lambda>(s1, hl1, pref). sched_wf R s1 \<and> run_ok d s1 \<and> heal_wf hl1 \<and>
     s_current s1 = s_current s \<and> auth s1 = auth s \<and> (\<forall>i. slot_of s1 i = None \<longleftrightarrow> slot_of s i = None) \<and>
     (\<forall>h. pref = Some h \<longrightarrow> h \<noteq> s_current s \<and> slot_of s h \<noteq> None)"
  have pre: "holds ?pre ?Q"
    using crash_step_ok [OF wf run hl] wf run hl by (cases reason) simp_all
  show ?thesis unfolding exit_step_def holds_bindr
  proof (rule holds_mono [OF pre])
    fix x assume "?Q x"
    then obtain s1 hl1 pref where x: "x = (s1, hl1, pref)" and q: "?Q (s1, hl1, pref)" by (cases x) auto
    from q have "holds (retire s1 pref) (\<lambda>(s', _). switched R d s1 s')"
      using c by (intro retire_ok) auto
    then show "holds (case x of (s1, hl1, pref) \<Rightarrow>
        bindr (retire s1 pref) (\<lambda>(s2, satp). Inr (s2, hl1, satp)))
       (\<lambda>(s', hl', _). sched_wf R s' \<and> run_ok d s' \<and> heal_wf hl' \<and>
     auth s' = auth s \<and> (\<forall>i. slot_of s' i = None \<longleftrightarrow> slot_of s i = None) \<and> s_current s' \<noteq> s_current s)"
      unfolding x prod.case holds_bindr
      by (rule holds_mono) (use q in \<open>auto simp: switched_def same_core_auth same_core_None\<close>)
  qed
qed

end
