(* ===== verification/Ipc.thy ===== *)
theory Ipc
  imports Sched
begin

text \<open>
  The rendezvous decisions of the IPC system calls (second part of
  \<^verbatim>\<open>src/arch/riscv64/src/sched.rs\<close>): each definition is the closure the handler runs
  under \<^verbatim>\<open>SCHED.with\<close>, returning the new run queue and what the handler does next.
  Blocking itself, and what a handler does once its task is woken, is in \<open>Kernel\<close>.
\<close>

section \<open>Capability installation and revocation\<close>

definition install_cap :: "sched \<Rightarrow> nat \<Rightarrow> usize \<Rightarrow> capability \<Rightarrow> sched result" where
  "install_cap s i slot cap =
     (if unat slot < CAP_SLOTS
      then modify_task s i (\<lambda>t. t\<lparr>t_caps := (t_caps t)[unat slot := Some cap]\<rparr>)
      else Inr s)"

definition mint_reply_cap :: "sched \<Rightarrow> nat \<Rightarrow> nat \<Rightarrow> usize \<Rightarrow> sched result" where
  "mint_reply_cap s server caller slot =
     (if unat slot < CAP_SLOTS
      then modify_task s server (\<lambda>t. t\<lparr>t_caps := (t_caps t)[unat slot := Some (Reply caller)]\<rparr>)
      else Inr s)"

fun revoke_from :: "nat \<Rightarrow> task option list \<Rightarrow> nat \<Rightarrow> nat \<Rightarrow> task option list \<times> nat" where
  "revoke_from i [] ep except = ([], 0)"
| "revoke_from i (slot # slots) ep except =
     (let (rest, n) = revoke_from (Suc i) slots ep except
      in if i = except then (slot # rest, n)
         else (case slot of
                 None \<Rightarrow> (None # rest, n)
               | Some t \<Rightarrow> (case revoke_in_caps (t_caps t) ep of
                    (caps, k) \<Rightarrow> (Some (t\<lparr>t_caps := caps\<rparr>) # rest, k + n))))"

definition revoke_endpoint :: "sched \<Rightarrow> nat \<Rightarrow> nat \<Rightarrow> sched \<times> nat" where
  "revoke_endpoint s ep except =
     (case revoke_from 0 (s_tasks s) ep except of (ts, n) \<Rightarrow> (s\<lparr>s_tasks := ts\<rparr>, n))"

definition revoke_step :: "sched \<Rightarrow> usize \<Rightarrow> (sched \<times> nat option) result" where
  "revoke_step s ep_idx =
     (let cur = s_current s
      in bindr (task_at s cur) (\<lambda>t.
         case cap_lookup (t_caps t) (unat ep_idx) of
           None \<Rightarrow> Inr (s, None)
         | Some ep \<Rightarrow> (case revoke_endpoint s ep cur of (s1, n) \<Rightarrow> Inr (s1, Some n))))"

section \<open>Receive\<close>

datatype recv_outcome = RecvBadCap | RecvGot message | RecvBlock nat

definition waiting_sender :: "sched \<Rightarrow> nat \<Rightarrow> (nat \<times> bool) option" where
  "waiting_sender s ep =
     (case find_blocked s ep RoleSend of
        Some si \<Rightarrow> Some (si, False)
      | None \<Rightarrow> map_option (\<lambda>si. (si, True)) (find_blocked s ep RoleCall))"

definition take_message :: "sched \<Rightarrow> nat \<Rightarrow> nat \<Rightarrow> bool \<Rightarrow> usize \<Rightarrow> (sched \<times> message) result" where
  "take_message s cur si is_call reply_slot =
     bindr (task_at s si) (\<lambda>u.
     bindr (modify_task s si (\<lambda>u. u\<lparr>t_pending_grant := None\<rparr>)) (\<lambda>s1.
     bindr (if is_call
            then bindr (set_state s1 si AwaitingReply) (\<lambda>s2. mint_reply_cap s2 cur si reply_slot)
            else set_state s1 si Ready) (\<lambda>s3.
     bindr (case t_pending_grant u of
              Some cap \<Rightarrow> install_cap s3 cur reply_slot cap
            | None \<Rightarrow> Inr s3) (\<lambda>s4.
     Inr (s4, t_message u)))))"

definition recv_step :: "sched \<Rightarrow> usize \<Rightarrow> usize \<Rightarrow> (sched \<times> recv_outcome) result" where
  "recv_step s cap_idx reply_slot =
     (let cur = s_current s
      in bindr (task_at s cur) (\<lambda>t.
         case cap_lookup (t_caps t) (unat cap_idx) of
           None \<Rightarrow> Inr (s, RecvBadCap)
         | Some ep \<Rightarrow>
             (case waiting_sender s ep of
                Some (si, is_call) \<Rightarrow>
                  bindr (take_message s cur si is_call reply_slot) (\<lambda>(s1, msg). Inr (s1, RecvGot msg))
              | None \<Rightarrow> Inr (s, RecvBlock ep))))"

text \<open>What \<^verbatim>\<open>ipc_recv\<close> does once a peer has woken the blocked receiver.\<close>

definition recv_wake :: "sched \<Rightarrow> usize \<Rightarrow> (sched \<times> message) result" where
  "recv_wake s reply_slot =
     (let cur = s_current s
      in bindr (task_at s cur) (\<lambda>t.
         bindr (modify_task s cur (\<lambda>t. t\<lparr>t_caller := None\<rparr>)) (\<lambda>s1.
         bindr (case t_caller t of
                  Some caller \<Rightarrow> mint_reply_cap s1 cur caller reply_slot
                | None \<Rightarrow> Inr s1) (\<lambda>s2.
         bindr (modify_task s2 cur (\<lambda>t. t\<lparr>t_pending_grant := None\<rparr>)) (\<lambda>s3.
         bindr (case t_pending_grant t of
                  Some cap \<Rightarrow> install_cap s3 cur reply_slot cap
                | None \<Rightarrow> Inr s3) (\<lambda>s4.
         bindr (task_at s4 cur) (\<lambda>t4.
         Inr (s4, t_message t4))))))))"

text \<open>\<^verbatim>\<open>recv_message\<close>, the receive of a kernel task: it looks for one-way senders only.\<close>

definition recv_message_step :: "sched \<Rightarrow> usize \<Rightarrow> (sched \<times> recv_outcome) result" where
  "recv_message_step s cap_idx =
     (let cur = s_current s
      in bindr (task_at s cur) (\<lambda>t.
         bindr (expectr (cap_lookup (t_caps t) (unat cap_idx))
                  (ExpectFailed ''recv_message: caller lacks the endpoint capability'')) (\<lambda>ep.
         case find_blocked s ep RoleSend of
           Some si \<Rightarrow>
             bindr (task_at s si) (\<lambda>u.
             bindr (set_state s si Ready) (\<lambda>s1. Inr (s1, RecvGot (t_message u))))
         | None \<Rightarrow> Inr (s, RecvBlock ep))))"

section \<open>Send, grant, call, reply\<close>

datatype send_outcome = SendBadCap | Delivered | SendBlock nat

definition send_step :: "sched \<Rightarrow> usize \<Rightarrow> message \<Rightarrow> (sched \<times> send_outcome) result" where
  "send_step s cap_idx msg =
     (let cur = s_current s
      in bindr (task_at s cur) (\<lambda>t.
         case cap_lookup (t_caps t) (unat cap_idx) of
           None \<Rightarrow> Inr (s, SendBadCap)
         | Some ep \<Rightarrow>
             (case find_blocked s ep RoleRecv of
                Some ri \<Rightarrow>
                  bindr (modify_task s ri (\<lambda>u. u\<lparr>t_message := msg\<rparr>)) (\<lambda>s1.
                  bindr (set_state s1 ri Ready) (\<lambda>s2. Inr (s2, Delivered)))
              | None \<Rightarrow>
                  bindr (modify_task s cur (\<lambda>u. u\<lparr>t_message := msg\<rparr>)) (\<lambda>s1. Inr (s1, SendBlock ep)))))"

definition grant_step :: "sched \<Rightarrow> usize \<Rightarrow> usize \<Rightarrow> usize \<Rightarrow> (sched \<times> send_outcome) result" where
  "grant_step s ep_idx src_slot b =
     (let cur = s_current s; msg = \<lparr>badge = b, data = (0, 0, 0)\<rparr>
      in bindr (task_at s cur) (\<lambda>t.
         case cap_lookup (t_caps t) (unat ep_idx) of
           None \<Rightarrow> Inr (s, SendBadCap)
         | Some ep \<Rightarrow>
             (case cap_at (t_caps t) (unat src_slot) of
                None \<Rightarrow> Inr (s, SendBadCap)
              | Some cap \<Rightarrow>
                  (case find_blocked s ep RoleRecv of
                     Some ri \<Rightarrow>
                       bindr (modify_task s ri (\<lambda>u. u\<lparr>t_message := msg\<rparr>)) (\<lambda>s1.
                       bindr (modify_task s1 ri (\<lambda>u. u\<lparr>t_pending_grant := Some cap\<rparr>)) (\<lambda>s2.
                       bindr (set_state s2 ri Ready) (\<lambda>s3. Inr (s3, Delivered))))
                   | None \<Rightarrow>
                       bindr (modify_task s cur (\<lambda>u. u\<lparr>t_message := msg\<rparr>)) (\<lambda>s1.
                       bindr (modify_task s1 cur (\<lambda>u. u\<lparr>t_pending_grant := Some cap\<rparr>)) (\<lambda>s2.
                       Inr (s2, SendBlock ep)))))))"

datatype call_outcome = CallBadCap | AwaitReply | CallQueue nat

definition call_endpoint :: "sched \<Rightarrow> nat \<Rightarrow> message \<Rightarrow> (sched \<times> call_outcome) result" where
  "call_endpoint s ep msg =
     (let cur = s_current s
      in case find_blocked s ep RoleRecv of
           Some ri \<Rightarrow>
             bindr (modify_task s ri (\<lambda>u. u\<lparr>t_message := msg\<rparr>)) (\<lambda>s1.
             bindr (modify_task s1 ri (\<lambda>u. u\<lparr>t_caller := Some cur\<rparr>)) (\<lambda>s2.
             bindr (set_state s2 ri Ready) (\<lambda>s3. Inr (s3, AwaitReply))))
         | None \<Rightarrow>
             bindr (modify_task s cur (\<lambda>u. u\<lparr>t_message := msg\<rparr>)) (\<lambda>s1. Inr (s1, CallQueue ep)))"

definition call_step :: "sched \<Rightarrow> usize \<Rightarrow> message \<Rightarrow> (sched \<times> call_outcome) result" where
  "call_step s cap_idx msg =
     bindr (task_at s (s_current s)) (\<lambda>t.
     case cap_lookup (t_caps t) (unat cap_idx) of
       None \<Rightarrow> Inr (s, CallBadCap)
     | Some ep \<Rightarrow> call_endpoint s ep msg)"

definition call_message_step :: "sched \<Rightarrow> usize \<Rightarrow> usize \<Rightarrow> (sched \<times> call_outcome) result" where
  "call_message_step s cap_idx b =
     bindr (task_at s (s_current s)) (\<lambda>t.
     bindr (expectr (cap_lookup (t_caps t) (unat cap_idx))
              (ExpectFailed ''call_message: caller lacks the endpoint capability'')) (\<lambda>ep.
     call_endpoint s ep \<lparr>badge = b, data = (0, 0, 0)\<rparr>))"

definition awaiting :: "sched \<Rightarrow> nat \<Rightarrow> bool result" where
  "awaiting s caller =
     bindr (idx (s_tasks s) caller) (\<lambda>slot.
     Inr (case slot of None \<Rightarrow> False | Some t \<Rightarrow> t_state t = AwaitingReply))"

definition reply_step :: "sched \<Rightarrow> usize \<Rightarrow> message \<Rightarrow> (sched \<times> bool) result" where
  "reply_step s reply_slot msg =
     (let cur = s_current s
      in bindr (task_at s cur) (\<lambda>t.
         case reply_caller (t_caps t) (unat reply_slot) of
           None \<Rightarrow> Inr (s, False)
         | Some caller \<Rightarrow>
             bindr (modify_task s cur (\<lambda>t. t\<lparr>t_caps := (t_caps t)[unat reply_slot := None]\<rparr>)) (\<lambda>s1.
             bindr (awaiting s1 caller) (\<lambda>aw.
             if aw then
               bindr (modify_task s1 caller (\<lambda>u. u\<lparr>t_message := msg\<rparr>)) (\<lambda>s2.
               bindr (set_state s2 caller Ready) (\<lambda>s3. Inr (s3, True)))
             else Inr (s1, False)))))"

section \<open>Restart and interrupts\<close>

text \<open>The slot whose context was re-forged, or \<open>None\<close> for a refusal.\<close>

definition restart_step :: "usize \<Rightarrow> usize \<Rightarrow> sched \<Rightarrow> usize \<Rightarrow> (sched \<times> nat option) result" where
  "restart_step user_trampoline sstatus_now s cap_idx =
     (let cur = s_current s
      in bindr (task_at s cur) (\<lambda>t.
         case restart_target (t_caps t) (unat cap_idx) of
           None \<Rightarrow> Inr (s, None)
         | Some target \<Rightarrow>
             bindr (task_at s target) (\<lambda>u.
             if \<not> can_restart (t_restarts u) MAX_RESTARTS then Inr (s, None)
             else
               bindr (expectr (t_relaunch u)
                        (ExpectFailed ''restart target must be a restartable U-mode component'')) (\<lambda>rl.
               let generation = t_restarts u + 1;
                   context = forge_user_context user_trampoline (entry_pc rl) (user_sp rl)
                               (t_stack_top u) (user_sstatus sstatus_now) (word_of_nat generation)
               in bindr (modify_task s target (\<lambda>u. u\<lparr>t_context := context,
                           t_restarts := generation, t_state := Ready\<rparr>)) (\<lambda>s1.
                  Inr (s1, Some target))))))"

definition wake_irq :: "sched \<Rightarrow> u32 \<Rightarrow> (sched \<times> nat option) result" where
  "wake_irq s irq =
     (case position (\<lambda>slot. case slot of None \<Rightarrow> False | Some t \<Rightarrow> t_state t = WaitingIrq irq) (s_tasks s) of
        None \<Rightarrow> Inr (s, None)
      | Some pos \<Rightarrow> bindr (set_state s pos Ready) (\<lambda>s1. Inr (s1, Some pos)))"

definition wait_irq_step :: "sched \<Rightarrow> usize \<Rightarrow> u32 option result" where
  "wait_irq_step s cap_idx =
     bindr (task_at s (s_current s)) (\<lambda>t. Inr (interrupt_irq (t_caps t) (unat cap_idx)))"

section \<open>What every rendezvous step keeps\<close>

text \<open>
  A step without a switch keeps the invariant and the running task, and creates no authority
  but the fresh capabilities in \<open>A\<close>.
\<close>

definition step_ok :: "nat set \<Rightarrow> nat \<Rightarrow> capability set \<Rightarrow> sched \<Rightarrow> sched \<Rightarrow> bool" where
  "step_ok R d A s s' \<longleftrightarrow>
     sched_wf R s' \<and> run_ok d s' \<and> s_current s' = s_current s \<and>
     (\<forall>i. auth s' i \<subseteq> (\<Union>j. auth s j) \<union> A)"

lemma step_ok_refl: "sched_wf R s \<Longrightarrow> run_ok d s \<Longrightarrow> step_ok R d A s s"
  by (auto simp: step_ok_def)

lemma step_ok_put:
  assumes "step_ok R d A s s1" "slot_of s1 i = Some t"
    and "task_wf R i t'" "state_ok d (s_current s1) i (t_state t')"
    and "task_auth t' \<subseteq> (\<Union>j. auth s j) \<union> A"
  shows "step_ok R d A s (put_task s1 i t')"
  using assms by (auto simp: step_ok_def sched_wf_put run_ok_put auth_put)

lemma step_ok_same:
  assumes "step_ok R d A s s1" "slot_of s1 i = Some t"
    and "task_wf R i t'" "t_state t' = t_state t \<or> t_state t' = Ready"
    and "task_auth t' \<subseteq> (\<Union>j. auth s j) \<union> A"
  shows "step_ok R d A s (put_task s1 i t')"
proof (rule step_ok_put [OF assms(1-3) _ assms(5)])
  show "state_ok d (s_current s1) i (t_state t')"
    using run_ok_slot [of d s1 i t] assms by (auto simp: step_ok_def)
qed

lemma step_ok_slot:
  assumes "step_ok R d A s s1" "slot_of s1 i = Some t"
  shows "task_wf R i t" "task_auth t \<subseteq> (\<Union>j. auth s j) \<union> A"
  using assms by (auto simp: step_ok_def sched_wf_slot simp flip: auth_slot)

text \<open>Weakest preconditions of a single task update, in terms of \<open>step_ok\<close>.\<close>

lemma holds_modify_step:
  assumes "step_ok R d A s s1" "slot_of s1 i = Some t"
    and "task_wf R i (f t)" "t_state (f t) = t_state t \<or> t_state (f t) = Ready"
    and "task_auth (f t) \<subseteq> (\<Union>j. auth s j) \<union> A"
    and "step_ok R d A s (put_task s1 i (f t)) \<Longrightarrow> P (put_task s1 i (f t))"
  shows "holds (modify_task s1 i f) P"
  using assms step_ok_same [OF assms(1-5)] by (auto simp: wp)

lemma task_auth_store: "task_auth (t\<lparr>t_caps := (t_caps t)[k := Some c]\<rparr>) \<subseteq> insert c (task_auth t)"
  using caps_of_update [of "t_caps t" k c] by (auto simp: task_auth_def task_caps_def)

lemma task_auth_clear: "task_auth (t\<lparr>t_caps := (t_caps t)[k := None]\<rparr>) \<subseteq> task_auth t"
  using caps_of_clear [of "t_caps t" k] by (auto simp: task_auth_def task_caps_def)

lemma task_auth_pending:
  "task_auth (t\<lparr>t_pending_grant := None\<rparr>) \<subseteq> task_auth t"
  "task_auth (t\<lparr>t_pending_grant := Some c\<rparr>) \<subseteq> insert c (task_auth t)"
  by (auto simp: task_auth_def task_caps_def)

lemma task_auth_caller:
  "task_auth (t\<lparr>t_caller := None\<rparr>) \<subseteq> task_auth t"
  "task_auth (t\<lparr>t_caller := Some c\<rparr>) \<subseteq> insert (Reply c) (task_auth t)"
  by (auto simp: task_auth_def task_caps_def)

lemma install_cap_ok:
  assumes ok: "step_ok R d A s s1" and i: "slot_of s1 i = Some t" and c: "cap_ok R c" "c \<in> (\<Union>j. auth s j) \<union> A"
    and P: "\<And>s2. step_ok R d A s s2 \<Longrightarrow> slot_of s2 i \<noteq> None \<Longrightarrow> P s2"
  shows "holds (install_cap s1 i slot c) P"
proof (cases "unat slot < CAP_SLOTS")
  case True
  let ?t = "t\<lparr>t_caps := (t_caps t)[unat slot := Some c]\<rparr>"
  have "task_auth ?t \<subseteq> (\<Union>j. auth s j) \<union> A"
    using task_auth_store [of t "unat slot" c] step_ok_slot(2) [OF ok i] c(2) by blast
  then have "step_ok R d A s (put_task s1 i ?t)"
    using step_ok_same [OF ok i] step_ok_slot(1) [OF ok i] c(1) by (simp add: task_wf_store)
  with True i P show ?thesis by (simp add: install_cap_def wp)
next
  case False
  then show ?thesis using ok i P by (simp add: install_cap_def)
qed

lemma mint_reply_cap_install: "mint_reply_cap s i caller slot = install_cap s i slot (Reply caller)"
  by (simp add: mint_reply_cap_def install_cap_def)

lemma cap_ok_auth: "sched_wf R s \<Longrightarrow> c \<in> auth s i \<Longrightarrow> cap_ok R c"
  by (auto simp: auth_def task_auth_def sched_wf_def task_wf_def cap_ok_def split: option.splits)

lemma auth_caps: "slot_of s i = Some t \<Longrightarrow> cap_at (t_caps t) k = Some c \<Longrightarrow> c \<in> auth s i"
  by (auto simp: auth_def task_auth_def task_caps_def intro: cap_at_in_caps_of)

lemma auth_pending: "slot_of s i = Some t \<Longrightarrow> t_pending_grant t = Some c \<Longrightarrow> c \<in> auth s i"
  by (auto simp: auth_def task_auth_def task_caps_def)

lemma auth_caller: "slot_of s i = Some t \<Longrightarrow> t_caller t = Some c \<Longrightarrow> Reply c \<in> auth s i"
  by (auto simp: auth_def task_auth_def task_caps_def)

section \<open>The rendezvous steps keep the invariant\<close>

text \<open>The tasks in a call: the running one and those queued with a request.\<close>

definition fresh :: "sched \<Rightarrow> capability set" where
  "fresh s = {Reply c | c. c = s_current s \<or> (\<exists>t ep. slot_of s c = Some t \<and> t_state t = Blocked ep RoleCall)}"

lemma step_ok_message:
  "step_ok R d A s s1 \<Longrightarrow> slot_of s1 i = Some t \<Longrightarrow> step_ok R d A s (put_task s1 i (t\<lparr>t_message := m\<rparr>))"
  by (rule step_ok_same) (auto dest: step_ok_slot)

lemma step_ok_ready:
  "step_ok R d A s s1 \<Longrightarrow> slot_of s1 i = Some t \<Longrightarrow> step_ok R d A s (put_task s1 i (t\<lparr>t_state := Ready\<rparr>))"
  by (rule step_ok_same) (auto dest: step_ok_slot)

lemma step_ok_grant:
  assumes ok: "step_ok R d A s s1" and i: "slot_of s1 i = Some t" and c: "cap_ok R c" "c \<in> (\<Union>j. auth s j) \<union> A"
  shows "step_ok R d A s (put_task s1 i (t\<lparr>t_pending_grant := Some c\<rparr>))"
proof (rule step_ok_same [OF ok i])
  show "task_auth (t\<lparr>t_pending_grant := Some c\<rparr>) \<subseteq> (\<Union>j. auth s j) \<union> A"
    using task_auth_pending(2) [where t = t and c = c] step_ok_slot(2) [OF ok i] c(2) by blast
qed (use step_ok_slot(1) [OF ok i] c in \<open>auto intro: task_wf_pending\<close>)

lemma step_ok_ungrant:
  assumes ok: "step_ok R d A s s1" and i: "slot_of s1 i = Some t"
  shows "step_ok R d A s (put_task s1 i (t\<lparr>t_pending_grant := None\<rparr>))"
proof (rule step_ok_same [OF ok i])
  show "task_auth (t\<lparr>t_pending_grant := None\<rparr>) \<subseteq> (\<Union>j. auth s j) \<union> A"
    using task_auth_pending(1) [where t = t] step_ok_slot(2) [OF ok i] by blast
qed (use step_ok_slot(1) [OF ok i] in \<open>auto intro: task_wf_pending\<close>)

lemma step_ok_caller:
  assumes ok: "step_ok R d A s s1" and i: "slot_of s1 i = Some t"
    and x: "\<And>c. x = Some c \<Longrightarrow> c < MAX_TASKS \<and> Reply c \<in> (\<Union>j. auth s j) \<union> A"
  shows "step_ok R d A s (put_task s1 i (t\<lparr>t_caller := x\<rparr>))"
proof (rule step_ok_same [OF ok i])
  show "task_auth (t\<lparr>t_caller := x\<rparr>) \<subseteq> (\<Union>j. auth s j) \<union> A"
    using step_ok_slot(2) [OF ok i] x by (auto simp: task_auth_def task_caps_def)
qed (use step_ok_slot(1) [OF ok i] x in \<open>auto intro: task_wf_caller\<close>)

lemma step_ok_await:
  assumes ok: "step_ok R d A s s1" and i: "slot_of s1 i = Some t" "i \<noteq> s_current s1" "i \<noteq> d"
  shows "step_ok R d A s (put_task s1 i (t\<lparr>t_state := AwaitingReply\<rparr>))"
  by (rule step_ok_put [OF ok i(1)]) (use step_ok_slot [OF ok i(1)] i in \<open>auto simp: state_ok_def\<close>)

lemmas step_ok_intros = step_ok_message step_ok_ready step_ok_grant step_ok_ungrant step_ok_caller step_ok_await

lemma send_step_ok:
  assumes wf: "sched_wf R s" and run: "run_ok d s"
  shows "holds (send_step s k msg) (\<lambda>(s', _). step_ok R d A s s')"
proof -
  note r = step_ok_refl [OF wf run]
  obtain t where t: "slot_of s (s_current s) = Some t" using sched_wf_current [OF wf] by auto
  show ?thesis
    using t r step_ok_message [OF r t]
    by (auto simp: send_step_def wp split: option.splits
        elim!: find_blocked_Some intro!: step_ok_ready [OF step_ok_message [OF r]])
qed

lemma grant_step_ok:
  assumes wf: "sched_wf R s" and run: "run_ok d s"
  shows "holds (grant_step s k src b) (\<lambda>(s', _). step_ok R d A s s')"
proof -
  note r = step_ok_refl [OF wf run]
  obtain t where t: "slot_of s (s_current s) = Some t" using sched_wf_current [OF wf] by auto
  have put: "step_ok R d A s (put_task (put_task s i (u\<lparr>t_message := m\<rparr>)) i (u\<lparr>t_message := m, t_pending_grant := Some c\<rparr>))"
    if "slot_of s i = Some u" "cap_at (t_caps t) (unat src) = Some c" for i u m c
  proof -
    have "cap_ok R c" "c \<in> (\<Union>j. auth s j) \<union> A"
      using auth_caps [OF t that(2)] cap_ok_auth [OF wf] by blast+
    then show ?thesis
      using step_ok_grant [OF step_ok_message [OF r that(1), where m = m], where i = i and t = "u\<lparr>t_message := m\<rparr>"] that(1)
      by simp
  qed
  have wake: "step_ok R d A s (put_task (put_task (put_task s i (u\<lparr>t_message := m\<rparr>)) i
      (u\<lparr>t_message := m, t_pending_grant := Some c\<rparr>)) i (u\<lparr>t_message := m, t_pending_grant := Some c, t_state := Ready\<rparr>))"
    if "slot_of s i = Some u" "cap_at (t_caps t) (unat src) = Some c" for i u m c
    using step_ok_ready [OF put [OF that, of m], where i = i and t = "u\<lparr>t_message := m, t_pending_grant := Some c\<rparr>"] that(1)
    by simp
  show ?thesis
    using t r
    by (auto simp: grant_step_def wp Let_def split: option.splits
        elim!: find_blocked_Some intro!: put wake)
qed

lemma call_endpoint_ok:
  assumes wf: "sched_wf R s" and run: "run_ok d s"
  shows "holds (call_endpoint s ep msg) (\<lambda>(s', o'). step_ok R d (fresh s) s s')"
proof -
  note r = step_ok_refl [OF wf run]
  obtain t where t: "slot_of s (s_current s) = Some t" using sched_wf_current [OF wf] by auto
  have c: "s_current s < MAX_TASKS" "Reply (s_current s) \<in> fresh s"
    using sched_wf_range [OF wf t] by (auto simp: fresh_def)
  show ?thesis
    using t r c
    by (auto simp: call_endpoint_def wp Let_def split: option.splits
        elim!: find_blocked_Some
        intro!: step_ok_ready [OF step_ok_caller [OF step_ok_message [OF r]]] step_ok_message [OF r])
qed

lemma call_step_ok:
  assumes wf: "sched_wf R s" and run: "run_ok d s"
  shows "holds (call_step s k msg) (\<lambda>(s', o'). step_ok R d (fresh s) s s')"
  using sched_wf_current [OF wf] call_endpoint_ok [OF wf run] step_ok_refl [OF wf run]
  by (auto simp: call_step_def wp split: option.splits)

lemma waiting_sender_Some:
  assumes run: "run_ok d s" and w: "waiting_sender s ep = Some (si, ic)"
  obtains u where "slot_of s si = Some u" "t_state u = Blocked ep (if ic then RoleCall else RoleSend)"
    "si \<noteq> s_current s" "si \<noteq> d"
proof -
  from w have "find_blocked s ep (if ic then RoleCall else RoleSend) = Some si"
    by (auto simp: waiting_sender_def split: option.splits)
  then obtain u where u: "slot_of s si = Some u" "t_state u = Blocked ep (if ic then RoleCall else RoleSend)"
    by (rule find_blocked_Some)
  with run_ok_blocked [OF run u(1)] that show thesis by simp
qed

lemma take_message_ok:
  assumes wf: "sched_wf R s" and run: "run_ok d s" and w: "waiting_sender s ep = Some (si, ic)"
  shows "holds (take_message s (s_current s) si ic rs) (\<lambda>(s', _). step_ok R d (fresh s) s s')"
proof -
  note r = step_ok_refl [OF wf run]
  obtain t where t: "slot_of s (s_current s) = Some t" using sched_wf_current [OF wf] by auto
  from waiting_sender_Some [OF run w] obtain u where
    u: "slot_of s si = Some u" "t_state u = Blocked ep (if ic then RoleCall else RoleSend)" "si \<noteq> s_current s" "si \<noteq> d" .
  have g: "cap_ok R c \<and> c \<in> (\<Union>j. auth s j) \<union> fresh s" if "t_pending_grant u = Some c" for c
    using auth_pending [OF u(1) that] cap_ok_auth [OF wf] by blast
  have fin: "holds (case t_pending_grant u of Some cap \<Rightarrow> install_cap s3 (s_current s) rs cap | None \<Rightarrow> Inr s3)
      (\<lambda>s4. step_ok R d (fresh s) s s4)"
    if "step_ok R d (fresh s) s s3" "slot_of s3 (s_current s) = Some t3" for s3 t3
    using that g by (auto intro!: install_cap_ok split: option.splits)
  let ?s1 = "put_task s si (u\<lparr>t_pending_grant := None\<rparr>)"
  have s1: "step_ok R d (fresh s) s ?s1" using r u(1) by (rule step_ok_ungrant)
  have "holds (if ic then bindr (set_state ?s1 si AwaitingReply) (\<lambda>s2. mint_reply_cap s2 (s_current s) si rs)
      else set_state ?s1 si Ready) (\<lambda>s3. step_ok R d (fresh s) s s3 \<and> slot_of s3 (s_current s) \<noteq> None)"
  proof (cases ic)
    case True
    have "cap_ok R (Reply si)" "Reply si \<in> fresh s"
      using sched_wf_range [OF wf u(1)] u True by (auto simp: cap_ok_def fresh_def)
    then show ?thesis
      using True t u s1
      by (simp add: wp mint_reply_cap_install)
        (rule install_cap_ok [OF step_ok_await [OF s1]], auto)
  next
    case False
    then show ?thesis using t u s1 by (auto simp: wp intro!: step_ok_ready [OF s1])
  qed
  then show ?thesis
    using u fin unfolding take_message_def
    by (auto simp: wp elim!: holds_mono)
qed

lemma recv_step_ok:
  assumes wf: "sched_wf R s" and run: "run_ok d s"
  shows "holds (recv_step s k rs) (\<lambda>(s', o'). step_ok R d (fresh s) s s')"
proof -
  note r = step_ok_refl [OF wf run]
  obtain t where t: "slot_of s (s_current s) = Some t" using sched_wf_current [OF wf] by auto
  show ?thesis
    using t r take_message_ok [OF wf run]
    by (fastforce simp: recv_step_def wp Let_def split_def split: option.splits elim: holds_mono)
qed

lemma recv_wake_ok:
  assumes wf: "sched_wf R s" and run: "run_ok d s"
  shows "holds (recv_wake s rs) (\<lambda>(s', _). step_ok R d A s s')"
proof -
  let ?cur = "s_current s" and ?U = "(\<Union>j. auth s j) \<union> A"
  obtain t where t: "slot_of s ?cur = Some t" using sched_wf_current [OF wf] by auto
  have caller: "cap_ok R (Reply c) \<and> Reply c \<in> ?U" if "t_caller t = Some c" for c
    using auth_caller [OF t that] cap_ok_auth [OF wf] by blast
  have pending: "cap_ok R c \<and> c \<in> ?U" if "t_pending_grant t = Some c" for c
    using auth_pending [OF t that] cap_ok_auth [OF wf] by blast
  have inst: "holds (case x of Some c \<Rightarrow> install_cap s1 ?cur rs (f c) | None \<Rightarrow> Inr s1) P"
    if "step_ok R d A s s1" "slot_of s1 ?cur \<noteq> None" "\<And>c. x = Some c \<Longrightarrow> cap_ok R (f c) \<and> f c \<in> ?U"
      "\<And>s2. step_ok R d A s s2 \<Longrightarrow> slot_of s2 ?cur \<noteq> None \<Longrightarrow> P s2" for x s1 P and f :: "'x \<Rightarrow> capability"
    using that by (auto intro!: install_cap_ok split: option.splits)
  have s1: "step_ok R d A s (put_task s ?cur (t\<lparr>t_caller := None\<rparr>))"
    using step_ok_refl [OF wf run] t by (rule step_ok_caller) simp
  show ?thesis
    using t unfolding recv_wake_def Let_def holds_bindr mint_reply_cap_install holds_task_at
  proof (intro exI conjI, assumption, unfold holds_modify_task, intro exI conjI, assumption)
    show "holds (case t_caller t of None \<Rightarrow> Inr (put_task s ?cur (t\<lparr>t_caller := None\<rparr>))
        | Some c \<Rightarrow> install_cap (put_task s ?cur (t\<lparr>t_caller := None\<rparr>)) ?cur rs (Reply c))
      (\<lambda>s2. \<exists>t2. slot_of s2 ?cur = Some t2 \<and>
        holds (case t_pending_grant t of None \<Rightarrow> Inr (put_task s2 ?cur (t2\<lparr>t_pending_grant := None\<rparr>))
          | Some c \<Rightarrow> install_cap (put_task s2 ?cur (t2\<lparr>t_pending_grant := None\<rparr>)) ?cur rs c)
        (\<lambda>s4. \<exists>t4. slot_of s4 ?cur = Some t4 \<and> holds (Inr (s4, t_message t4)) (\<lambda>(s', _). step_ok R d A s s')))"
    proof (rule inst [OF s1])
      fix s2 assume s2: "step_ok R d A s s2" "slot_of s2 ?cur \<noteq> None"
      then obtain t2 where t2: "slot_of s2 ?cur = Some t2" by auto
      show "\<exists>t2. slot_of s2 ?cur = Some t2 \<and>
        holds (case t_pending_grant t of None \<Rightarrow> Inr (put_task s2 ?cur (t2\<lparr>t_pending_grant := None\<rparr>))
          | Some c \<Rightarrow> install_cap (put_task s2 ?cur (t2\<lparr>t_pending_grant := None\<rparr>)) ?cur rs c)
        (\<lambda>s4. \<exists>t4. slot_of s4 ?cur = Some t4 \<and> holds (Inr (s4, t_message t4)) (\<lambda>(s', _). step_ok R d A s s'))"
        using t2 by (intro exI conjI, assumption)
          (rule inst [OF step_ok_ungrant [OF s2(1) t2]], auto dest: pending)
    qed (use t caller in auto)
  qed
qed

lemma recv_message_step_ok:
  assumes wf: "sched_wf R s" and run: "run_ok d s" and t: "slot_of s (s_current s) = Some t"
    and c: "cap_lookup (t_caps t) (unat k) = Some ep"
  shows "holds (recv_message_step s k) (\<lambda>(s', o'). step_ok R d A s s')"
  using step_ok_refl [OF wf run] t c
  by (auto simp: recv_message_step_def wp Let_def split: option.splits
      elim!: find_blocked_Some intro!: step_ok_ready)

lemma call_message_step_ok:
  assumes wf: "sched_wf R s" and run: "run_ok d s" and t: "slot_of s (s_current s) = Some t"
    and c: "cap_lookup (t_caps t) (unat k) = Some ep"
  shows "holds (call_message_step s k b) (\<lambda>(s', o'). step_ok R d (fresh s) s s')"
  using call_endpoint_ok [OF wf run] t c
  by (auto simp: call_message_step_def wp)

lemma holds_awaiting [wp]:
  "holds (awaiting s c) P \<longleftrightarrow> c < length (s_tasks s) \<and>
     P (case slot_of s c of None \<Rightarrow> False | Some t \<Rightarrow> t_state t = AwaitingReply)"
  by (auto simp: awaiting_def wp slot_of_def)

lemma reply_step_ok:
  assumes wf: "sched_wf R s" and run: "run_ok d s"
  shows "holds (reply_step s k msg) (\<lambda>(s', _). step_ok R d A s s')"
proof -
  note r = step_ok_refl [OF wf run]
  obtain t where t: "slot_of s (s_current s) = Some t" using sched_wf_current [OF wf] by auto
  let ?s1 = "put_task s (s_current s) (t\<lparr>t_caps := (t_caps t)[unat k := None]\<rparr>)"
  have s1: "step_ok R d A s ?s1"
  proof (rule step_ok_same [OF r t])
    show "task_auth (t\<lparr>t_caps := (t_caps t)[unat k := None]\<rparr>) \<subseteq> (\<Union>j. auth s j) \<union> A"
      using task_auth_clear [of t "unat k"] auth_slot [OF t] by blast
  qed (use sched_wf_slot [OF wf t] in \<open>auto intro: task_wf_clear\<close>)
  have wake: "step_ok R d A s (put_task (put_task ?s1 c (u\<lparr>t_message := msg\<rparr>)) c (u\<lparr>t_message := msg, t_state := Ready\<rparr>))"
    if "slot_of ?s1 c = Some u" for c u
    using step_ok_ready [OF step_ok_message [OF s1 that, where m = msg], where i = c and t = "u\<lparr>t_message := msg\<rparr>"] that
    by simp
  have "c < length (s_tasks s)" if "reply_caller (t_caps t) (unat k) = Some c" for c
    using cap_ok_auth [OF wf auth_caps [OF t, of "unat k" "Reply c"]] that wf
    by (simp add: reply_caller_Some_iff cap_ok_def sched_wf_def)
  then show ?thesis
    using t r s1 wake by (auto simp: reply_step_def wp Let_def split: option.splits)
qed

lemma restart_step_ok:
  assumes wf: "sched_wf R s" and run: "run_ok d s"
  shows "holds (restart_step tr ss s k) (\<lambda>(s', _). step_ok R d A s s')"
proof -
  note r = step_ok_refl [OF wf run]
  obtain t where t: "slot_of s (s_current s) = Some t" using sched_wf_current [OF wf] by auto
  have target: "\<exists>u. slot_of s i = Some u \<and> t_relaunch u \<noteq> None"
    if "restart_target (t_caps t) (unat k) = Some i" for i
  proof -
    have "i \<in> R"
      using cap_ok_auth [OF wf auth_caps [OF t, of "unat k" "Restart i"]] that
      by (simp add: restart_target_Some_iff cap_ok_def)
    then show ?thesis using wf by (fastforce simp: sched_wf_def task_wf_def)
  qed
  have put: "step_ok R d A s (put_task s i (u\<lparr>t_context := cx, t_restarts := g, t_state := Ready\<rparr>))"
    if "slot_of s i = Some u" "g \<le> MAX_RESTARTS" for i u cx g
    by (rule step_ok_same [OF r that(1)]) (use step_ok_slot [OF r that(1)] that(2) in \<open>auto intro: task_wf_restarts\<close>)
  show ?thesis
    using t r target put by (fastforce simp: restart_step_def can_restart_def wp Let_def split: option.splits)
qed

lemma wake_irq_ok:
  assumes wf: "sched_wf R s" and run: "run_ok d s"
  shows "holds (wake_irq s q) (\<lambda>(s', _). step_ok R d A s s')"
proof (cases "position (\<lambda>slot. case slot of None \<Rightarrow> False | Some t \<Rightarrow> t_state t = WaitingIrq q) (s_tasks s)")
  case None
  then show ?thesis using step_ok_refl [OF wf run] by (simp add: wake_irq_def)
next
  case (Some i)
  from position_SomeD [OF this] obtain t where "slot_of s i = Some t"
    by (auto simp: slot_of_def split: option.splits)
  then show ?thesis
    using Some step_ok_ready [OF step_ok_refl [OF wf run]] by (auto simp: wake_irq_def wp)
qed

section \<open>Revocation reaches every other CSpace\<close>

definition revoked :: "nat \<Rightarrow> task \<Rightarrow> task" where
  "revoked ep t = t\<lparr>t_caps := fst (revoke_in_caps (t_caps t) ep)\<rparr>"

lemma revoked_eq: "t\<lparr>t_caps := fst (revoke_in_caps (t_caps t) ep)\<rparr> = revoked ep t"
  by (simp add: revoked_def)

lemma revoke_from_nth:
  "length (fst (revoke_from i ts ep ex)) = length ts"
  "j < length ts \<Longrightarrow> fst (revoke_from i ts ep ex) ! j =
     (if i + j = ex then ts ! j else map_option (revoked ep) (ts ! j))"
proof (induction ts arbitrary: i j)
  case (Cons slot ts)
  {
    case 1
    show ?case using Cons.IH(1) [where i = "Suc i"] by (auto simp: Let_def split_def split: option.splits)
  next
    case 2
    then show ?case
      using Cons.IH(2) [where j = "j - 1" and i = "Suc i"]
      by (cases j) (auto simp: Let_def split_def revoked_eq split: option.splits)
  }
qed simp_all

lemma slot_of_revoke:
  "slot_of (fst (revoke_endpoint s ep ex)) i =
     (if i = ex then slot_of s i else map_option (revoked ep) (slot_of s i))"
  using revoke_from_nth [where i = 0 and ts = "s_tasks s" and ep = ep and ex = ex]
  by (auto simp: revoke_endpoint_def slot_of_def split_def)

lemma revoke_endpoint_simps [simp]:
  "s_current (fst (revoke_endpoint s ep ex)) = s_current s"
  "length (s_tasks (fst (revoke_endpoint s ep ex))) = length (s_tasks s)"
  using revoke_from_nth(1) [where i = 0 and ts = "s_tasks s" and ep = ep and ex = ex] by (simp_all add: revoke_endpoint_def split_def)

lemma revoked_simps [simp]:
  "t_state (revoked ep t) = t_state t" "task_auth (revoked ep t) \<subseteq> task_auth t"
  by (auto simp: revoked_def task_auth_def task_caps_def caps_of_revoke)

lemma task_wf_revoked: "task_wf R i t \<Longrightarrow> task_wf R i (revoked ep t)"
  by (auto simp: task_wf_def revoked_def task_caps_def caps_of_revoke)

lemma revoke_endpoint_ok:
  assumes wf: "sched_wf R s" and run: "run_ok d s"
  shows "step_ok R d A s (fst (revoke_endpoint s ep ex))"
  unfolding step_ok_def
proof (intro conjI allI)
  let ?s = "fst (revoke_endpoint s ep ex)"
  show "sched_wf R ?s"
    using wf by (auto simp: sched_wf_def slot_of_revoke task_wf_revoked split: if_splits)
  show "run_ok d ?s" using run by (auto simp: run_ok_def slot_of_revoke split: if_splits)
  show "auth ?s i \<subseteq> (\<Union>j. auth s j) \<union> A" for i
  proof -
    have "auth ?s i \<subseteq> auth s i"
      using revoked_simps(2) by (auto simp: auth_def slot_of_revoke split: option.splits if_splits)
    then show ?thesis by blast
  qed
qed simp

lemma revoke_step_ok:
  assumes wf: "sched_wf R s" and run: "run_ok d s"
  shows "holds (revoke_step s k) (\<lambda>(s', _). step_ok R d A s s')"
  using sched_wf_current [OF wf] step_ok_refl [OF wf run] revoke_endpoint_ok [OF wf run]
  by (auto simp: revoke_step_def wp Let_def split_def split: option.splits)

end
