(* ===== verification/Crypto.thy ===== *)
theory Crypto
  imports Prelude
begin

text \<open>
  The kernel's cryptographic services: the wrappers of
  \<^verbatim>\<open>src/libs/crypto/src/lib.rs\<close>, the entropy pool of
  \<^verbatim>\<open>src/arch/riscv64/src/entropy.rs\<close> and the encrypted channel of
  \<^verbatim>\<open>src/arch/riscv64/src/channel.rs\<close>. The ciphers themselves are third-party crates;
  they are the parameters \<open>aead_lib\<close>, \<open>rng_lib\<close> and \<open>kem_lib\<close>, and what the
  code relies on is stated by \<open>aead_correct\<close>, \<open>rng_correct\<close> and \<open>kem_correct\<close>.
\<close>

section \<open>The library interfaces\<close>

record aead_lib =
  lib_encrypt :: "bytes \<Rightarrow> bytes \<Rightarrow> bytes \<Rightarrow> bytes \<times> bytes"
  lib_decrypt :: "bytes \<Rightarrow> bytes \<Rightarrow> bytes \<Rightarrow> bytes \<Rightarrow> bytes option"

record 'r rng_lib =
  lib_from_seed :: "bytes \<Rightarrow> 'r"
  lib_fill_bytes :: "'r \<Rightarrow> nat \<Rightarrow> 'r \<times> bytes"

record ('r, 'dk, 'ek, 'ct) kem_lib =
  lib_keypair :: "'r \<Rightarrow> ('dk \<times> 'ek) \<times> 'r"
  lib_encapsulate :: "'ek \<Rightarrow> 'r \<Rightarrow> ('ct \<times> bytes) \<times> 'r"
  lib_decapsulate :: "'dk \<Rightarrow> 'ct \<Rightarrow> bytes"

text \<open>Documented behaviour: decryption inverts encryption; lengths are preserved; tags have 16 bytes.\<close>

definition aead_correct :: "aead_lib \<Rightarrow> bool" where
  "aead_correct lib \<longleftrightarrow>
     (\<forall>key nonce msg. case lib_encrypt lib key nonce msg of
        (ct, tag) \<Rightarrow> length ct = length msg \<and> length tag = 16 \<and> lib_decrypt lib key nonce ct tag = Some msg)"

definition aead_lengths :: "aead_lib \<Rightarrow> bool" where
  "aead_lengths lib \<longleftrightarrow>
     (\<forall>key nonce ct tag msg. lib_decrypt lib key nonce ct tag = Some msg \<longrightarrow> length msg = length ct)"

definition rng_correct :: "'r rng_lib \<Rightarrow> bool" where
  "rng_correct lib \<longleftrightarrow> (\<forall>g n. length (snd (lib_fill_bytes lib g n)) = n)"

definition kem_correct :: "('r, 'dk, 'ek, 'ct) kem_lib \<Rightarrow> bool" where
  "kem_correct lib \<longleftrightarrow>
     (\<forall>g g'. case lib_keypair lib g of
        ((dk, ek), _) \<Rightarrow> (case lib_encapsulate lib ek g' of
          ((ct, k), _) \<Rightarrow> length k = 32 \<and> lib_decapsulate lib dk ct = k))"

section \<open>The wrappers\<close>

definition crypto_seal :: "aead_lib \<Rightarrow> bytes \<Rightarrow> bytes \<Rightarrow> bytes \<Rightarrow> bytes \<times> bytes" where
  "crypto_seal lib key nonce buf = lib_encrypt lib key nonce buf"

definition crypto_open :: "aead_lib \<Rightarrow> bytes \<Rightarrow> bytes \<Rightarrow> bytes \<Rightarrow> bytes \<Rightarrow> bytes option" where
  "crypto_open lib key nonce buf tag = lib_decrypt lib key nonce buf tag"

definition ml_kem768_agree :: "'r rng_lib \<Rightarrow> ('r, 'dk, 'ek, 'ct) kem_lib \<Rightarrow> bytes \<Rightarrow> bytes option" where
  "ml_kem768_agree rng kem seed =
     (let g = lib_from_seed rng seed;
          ((dk, ek), g1) = lib_keypair kem g;
          ((ct, k_send), g2) = lib_encapsulate kem ek g1;
          k_recv = lib_decapsulate kem dk ct
      in if k_send = k_recv then Some k_send else None)"

section \<open>The entropy pool\<close>

definition pool_new :: "'r option" where
  "pool_new = None"

definition xor_bytes :: "bytes \<Rightarrow> bytes \<Rightarrow> bytes" where
  "xor_bytes a b = map2 (XOR) a b"

definition pool_reseed :: "'r rng_lib \<Rightarrow> 'r option \<Rightarrow> bytes \<Rightarrow> 'r option" where
  "pool_reseed rng p bs =
     (let new_seed = (case p of
            None \<Rightarrow> bs
          | Some g \<Rightarrow> xor_bytes (snd (lib_fill_bytes rng g 32)) bs)
      in Some (lib_from_seed rng new_seed))"

definition pool_fill :: "'r rng_lib \<Rightarrow> 'r option \<Rightarrow> nat \<Rightarrow> 'r option \<times> bytes" where
  "pool_fill rng p n =
     (case p of
        Some g \<Rightarrow> (case lib_fill_bytes rng g n of (g1, out) \<Rightarrow> (Some g1, out))
      | None \<Rightarrow> (None, replicate n 0))"

definition next_seed :: "'r rng_lib \<Rightarrow> 'r option \<Rightarrow> 'r option \<times> bytes" where
  "next_seed rng p = pool_fill rng p 32"

section \<open>The encrypted channel\<close>

record channel =
  session_key :: "bytes option"
  nonce_ctr :: u64

definition channel_init :: channel where
  "channel_init = \<lparr>session_key = None, nonce_ctr = 0\<rparr>"

definition nonce_bytes :: "u64 \<Rightarrow> bytes" where
  "nonce_bytes counter = overlay (replicate 12 0) 0 (le_bytes 8 counter)"

definition establish :: "'r rng_lib \<Rightarrow> ('r, 'dk, 'ek, 'ct) kem_lib \<Rightarrow> channel \<Rightarrow> bytes \<Rightarrow> channel" where
  "establish rng kem ch seed =
     ch\<lparr>session_key := Some (case ml_kem768_agree rng kem seed of Some k \<Rightarrow> k | None \<Rightarrow> replicate 32 0)\<rparr>"

definition channel_key :: "channel \<Rightarrow> bytes" where
  "channel_key ch = (case session_key ch of Some k \<Rightarrow> k | None \<Rightarrow> replicate 32 0)"

definition seal_word :: "aead_lib \<Rightarrow> channel \<Rightarrow> bytes \<Rightarrow> (channel \<times> bytes \<times> bytes \<times> u64) result" where
  "seal_word lib ch plain =
     (let key = channel_key ch; nonce = nonce_ctr ch
      in bindr (add_chk nonce 1) (\<lambda>nxt.
         let (ct, tag) = crypto_seal lib key (nonce_bytes nonce) plain
         in Inr (ch\<lparr>nonce_ctr := nxt\<rparr>, ct, tag, nonce)))"

definition open_word :: "aead_lib \<Rightarrow> channel \<Rightarrow> bytes \<Rightarrow> bytes \<Rightarrow> u64 \<Rightarrow> bytes option" where
  "open_word lib ch ct tag nonce = crypto_open lib (channel_key ch) (nonce_bytes nonce) ct tag"

section \<open>Nonces are never reused\<close>

lemma nonce_bytes_simps: "nonce_bytes n = le_bytes 8 n @ replicate 4 0"
  by (simp add: nonce_bytes_def overlay_def)

lemma nonce_bytes_inj: "nonce_bytes a = nonce_bytes b \<Longrightarrow> a = b"
proof -
  assume "nonce_bytes a = nonce_bytes b"
  then have "le_word (le_bytes 8 a) = (le_word (le_bytes 8 b) :: u64)" by (simp add: nonce_bytes_simps del: endian_roundtrip)
  then show ?thesis by simp
qed

text \<open>A run of the channel: the words sealed one after another, with the nonces used.\<close>

fun seal_all :: "aead_lib \<Rightarrow> channel \<Rightarrow> bytes list \<Rightarrow> (channel \<times> (bytes \<times> bytes \<times> u64) list) result" where
  "seal_all lib ch [] = Inr (ch, [])"
| "seal_all lib ch (p # ps) =
     bindr (seal_word lib ch p) (\<lambda>(ch1, ct, tag, n).
     bindr (seal_all lib ch1 ps) (\<lambda>(ch2, out). Inr (ch2, (ct, tag, n) # out)))"

lemma seal_word_Inr:
  "seal_word lib ch p = Inr (ch', ct, tag, n) \<longleftrightarrow>
     unat (nonce_ctr ch) + 1 < 2 ^ 64 \<and> n = nonce_ctr ch \<and> ch' = ch\<lparr>nonce_ctr := nonce_ctr ch + 1\<rparr> \<and>
     lib_encrypt lib (channel_key ch) (nonce_bytes n) p = (ct, tag)"
  by (auto simp: seal_word_def crypto_seal_def add_chk_def Let_def split_def)

lemma channel_key_nonce [simp]: "channel_key (ch\<lparr>nonce_ctr := n\<rparr>) = channel_key ch"
  by (simp add: channel_key_def)

lemma seal_all_spec:
  assumes "seal_all lib ch ps = Inr (ch', out)"
  shows "length out = length ps \<and> channel_key ch' = channel_key ch \<and>
    unat (nonce_ctr ch') = unat (nonce_ctr ch) + length ps \<and>
    (\<forall>i<length ps. case out ! i of (ct, tag, n) \<Rightarrow> unat n = unat (nonce_ctr ch) + i \<and>
        lib_encrypt lib (channel_key ch) (nonce_bytes n) (ps ! i) = (ct, tag))"
  using assms
proof (induction ps arbitrary: ch out)
  case Nil
  then show ?case by simp
next
  case (Cons p ps)
  from Cons.prems obtain ch1 ct tag n out' where
    1: "seal_word lib ch p = Inr (ch1, ct, tag, n)" "seal_all lib ch1 ps = Inr (ch', out')" "out = (ct, tag, n) # out'"
    by (auto simp: bindr_eq_Inr_iff)
  from 1(1) have ch1: "unat (nonce_ctr ch1) = unat (nonce_ctr ch) + 1" "channel_key ch1 = channel_key ch" "n = nonce_ctr ch"
      "lib_encrypt lib (channel_key ch) (nonce_bytes n) p = (ct, tag)"
    using unat_add_fits [of "nonce_ctr ch" 1] by (auto simp: seal_word_Inr)
  from Cons.IH [OF 1(2)] show ?case
    using ch1 1(3) by (auto simp: nth_Cons split: nat.splits)
qed

lemma seal_all_returns:
  "unat (nonce_ctr ch) + length ps < 2 ^ 64 \<Longrightarrow> \<exists>r. seal_all lib ch ps = Inr r"
proof (induction ps arbitrary: ch)
  case (Cons p ps)
  let ?ch = "ch\<lparr>nonce_ctr := nonce_ctr ch + 1\<rparr>"
  obtain ct tag where "lib_encrypt lib (channel_key ch) (nonce_bytes (nonce_ctr ch)) p = (ct, tag)" by fastforce
  with Cons.prems have "seal_word lib ch p = Inr (?ch, ct, tag, nonce_ctr ch)" by (simp add: seal_word_Inr)
  moreover have "\<exists>r. seal_all lib ?ch ps = Inr r"
    using Cons.prems unat_add_fits [of "nonce_ctr ch" 1] by (intro Cons.IH) simp
  ultimately show ?case by auto
qed simp

section \<open>Properties\<close>

definition seal_nonce :: "bytes \<times> bytes \<times> u64 \<Rightarrow> bytes" where
  "seal_nonce x = (case x of (ct, tag, n) \<Rightarrow> nonce_bytes n)"

text \<open>C33: Nonces are never reused, and everything sealed opens. While the counter lasts, sealing
  any sequence of words succeeds, no two of them use the same nonce, and afterwards each one opens
  to the word it was sealed from (given that the cipher decrypts what it encrypted).\<close>
theorem sealed_words_open_with_fresh_nonces:
  assumes lib: "aead_correct lib" and room: "unat (nonce_ctr ch) + length ps < 2 ^ 64"
  shows "\<exists>ch' out. seal_all lib ch ps = Inr (ch', out) \<and> length out = length ps \<and> distinct (map seal_nonce out) \<and>
    (\<forall>i<length ps. case out ! i of (ct, tag, n) \<Rightarrow> open_word lib ch' ct tag n = Some (ps ! i))"
proof -
  from seal_all_returns [OF room, of lib] obtain ch' out where r: "seal_all lib ch ps = Inr (ch', out)" by auto
  note spec = seal_all_spec [OF r]
  have "distinct (map seal_nonce out)"
  proof (simp add: distinct_conv_nth, intro allI impI)
    fix i j assume ij: "i < length out" "j < length out" "i \<noteq> j"
    obtain a b n a' b' n' where "out ! i = (a, b, n)" "out ! j = (a', b', n')" by (cases "out ! i", cases "out ! j") auto
    moreover from this spec ij have "unat n = unat (nonce_ctr ch) + i" "unat n' = unat (nonce_ctr ch) + j" by auto
    ultimately show "seal_nonce (out ! i) \<noteq> seal_nonce (out ! j)"
      using ij(3) nonce_bytes_inj by (fastforce simp: seal_nonce_def)
  qed
  moreover have "open_word lib ch' ct tag n = Some (ps ! i)" if "i < length ps" "out ! i = (ct, tag, n)" for i ct tag n
  proof -
    from spec that have "lib_encrypt lib (channel_key ch') (nonce_bytes n) (ps ! i) = (ct, tag)" by auto
    with lib show ?thesis by (fastforce simp: aead_correct_def open_word_def crypto_open_def split: prod.splits)
  qed
  ultimately show ?thesis using r spec by (auto split: prod.splits)
qed

text \<open>Key establishment. With a correct KEM the boot-time agreement succeeds, so the channel's
  key is the agreed 32-byte secret and never the all-zero fallback.\<close>
theorem establish_uses_agreed_secret:
  assumes "kem_correct kem"
  shows "\<exists>k. ml_kem768_agree rng kem seed = Some k \<and> length k = 32 \<and> channel_key (establish rng kem ch seed) = k"
proof -
  obtain dk ek g1 where kp: "lib_keypair kem (lib_from_seed rng seed) = ((dk, ek), g1)" by (metis prod.exhaust)
  obtain ct ks g2 where en: "lib_encapsulate kem ek g1 = ((ct, ks), g2)" by (metis prod.exhaust)
  have "length ks = 32" "lib_decapsulate kem dk ct = ks"
    using assms kp en unfolding kem_correct_def by (metis (mono_tags, lifting) case_prod_conv)+
  then show ?thesis using kp en by (simp add: ml_kem768_agree_def establish_def channel_key_def)
qed

text \<open>Fresh entropy is mixed in, never substituted. Reseeding a seeded pool keys it with the
  XOR of its own next output and the new bytes, so a stuck device cannot set the pool's state; an
  unseeded pool hands out zeros.\<close>
theorem reseed_mixes_into_pool:
  assumes "rng_correct rng" "length bs = 32"
  shows "pool_reseed rng None bs = Some (lib_from_seed rng bs) \<and>
    (\<exists>out. length out = 32 \<and> next_seed rng (Some g) = (Some (fst (lib_fill_bytes rng g 32)), out) \<and>
       pool_reseed rng (Some g) bs = Some (lib_from_seed rng (xor_bytes out bs)) \<and>
       xor_bytes (xor_bytes out bs) bs = out) \<and>
    next_seed rng None = (None, replicate 32 0)"
proof -
  let ?out = "snd (lib_fill_bytes rng g 32)"
  have l: "length ?out = 32" using assms(1) by (simp add: rng_correct_def)
  have "xor_bytes (xor_bytes ?out bs) bs = ?out"
    using l assms(2) by (intro nth_equalityI) (auto simp: xor_bytes_def xor.assoc)
  then show ?thesis using l by (auto simp: pool_reseed_def next_seed_def pool_fill_def split_def)
qed

section \<open>Concrete libraries\<close>

text \<open>A cipher, a generator and a key agreement that satisfy the hypotheses, for the examples.\<close>

definition toy_aead :: aead_lib where
  "toy_aead = \<lparr>lib_encrypt = (\<lambda>key nonce msg. (map NOT msg, replicate 16 0)),
               lib_decrypt = (\<lambda>key nonce ct tag. if tag = replicate 16 0 then Some (map NOT ct) else None)\<rparr>"

definition toy_rng :: "unit rng_lib" where
  "toy_rng = \<lparr>lib_from_seed = (\<lambda>_. ()), lib_fill_bytes = (\<lambda>g n. (g, replicate n 42))\<rparr>"

lemma toy_aead_correct: "aead_correct toy_aead"
  by (simp add: aead_correct_def toy_aead_def comp_def)

definition toy_kem :: "(unit, bytes, bytes, bytes) kem_lib" where
  "toy_kem = \<lparr>lib_keypair = (\<lambda>g. ((replicate 32 1, replicate 32 1), g)),
              lib_encapsulate = (\<lambda>ek g. ((ek, ek), g)), lib_decapsulate = (\<lambda>dk ct. ct)\<rparr>"

lemma toy_kem_correct: "kem_correct toy_kem"
  by (simp add: kem_correct_def toy_kem_def)

lemma toy_rng_correct: "rng_correct toy_rng"
  by (simp add: rng_correct_def toy_rng_def)

end
