(* ===== verification/Frame.thy ===== *)
theory Frame
  imports Prelude
begin

text \<open>
  The physical frame allocator (\<^verbatim>\<open>src/arch/riscv64/src/mem/frame.rs\<close>): a bitmap with one
  bit per 4 KiB frame. Frame numbers and counters are natural numbers, since they stay far below
  the machine's bounds; addresses are machine words. The interface \<open>frame_source\<close> states what
  clients rely on and is interpreted on the bitmap allocator.
\<close>

section \<open>The allocator\<close>

definition FRAME_SIZE :: nat where "FRAME_SIZE = 4096"
definition MAX_FRAMES :: nat where "MAX_FRAMES = 1048576"

record bitmap_allocator =
  bitmap :: "u64 list"
  a_base :: nat
  a_count :: nat
  a_free :: nat

definition allocator_new :: bitmap_allocator where
  "allocator_new = \<lparr>bitmap = replicate (MAX_FRAMES div 64) 0, a_base = 0, a_count = 0, a_free = 0\<rparr>"

definition allocator_init :: "bitmap_allocator \<Rightarrow> usize \<Rightarrow> usize \<Rightarrow> bitmap_allocator result" where
  "allocator_init a start_addr end_addr =
     bindr (assertr (unat start_addr mod FRAME_SIZE = 0) (AssertFailed ''unaligned start'')) (\<lambda>_.
     bindr (assertr (unat end_addr mod FRAME_SIZE = 0) (AssertFailed ''unaligned end'')) (\<lambda>_.
     bindr (assertr (start_addr < end_addr) (AssertFailed ''empty range'')) (\<lambda>_.
     let count = (unat end_addr - unat start_addr) div FRAME_SIZE
     in bindr (assertr (count \<le> MAX_FRAMES) (AssertFailed ''range exceeds bitmap capacity'')) (\<lambda>_.
        Inr (a\<lparr>a_base := unat start_addr div FRAME_SIZE, a_count := count, a_free := count\<rparr>)))))"

definition frame_addr :: "bitmap_allocator \<Rightarrow> nat \<Rightarrow> usize" where
  "frame_addr a i = word_of_nat ((a_base a + i) * FRAME_SIZE)"

text \<open>The scan over the frame indices; a word outside the bitmap would panic.\<close>

fun alloc_scan :: "bitmap_allocator \<Rightarrow> nat list \<Rightarrow> (bitmap_allocator \<times> usize option) result" where
  "alloc_scan a [] = Inr (a, None)"
| "alloc_scan a (i # is) =
     bindr (idx (bitmap a) (i div 64)) (\<lambda>w.
     if w AND push_bit (i mod 64) 1 = 0 then
       bindr (set_at (bitmap a) (i div 64) (w OR push_bit (i mod 64) 1)) (\<lambda>bm.
       bindr (assertr (0 < a_free a) ArithOverflow) (\<lambda>_.
       Inr (a\<lparr>bitmap := bm, a_free := a_free a - 1\<rparr>, Some (frame_addr a i))))
     else alloc_scan a is)"

definition alloc :: "bitmap_allocator \<Rightarrow> (bitmap_allocator \<times> usize option) result" where
  "alloc a = alloc_scan a [0..<a_count a]"

definition free_frame :: "bitmap_allocator \<Rightarrow> usize \<Rightarrow> bitmap_allocator result" where
  "free_frame a addr =
     bindr (assertr (unat addr mod FRAME_SIZE = 0) (AssertFailed ''free of unaligned address'')) (\<lambda>_.
     let n = unat addr div FRAME_SIZE
     in bindr (assertr (a_base a \<le> n \<and> n < a_base a + a_count a) (AssertFailed ''free of unmanaged frame'')) (\<lambda>_.
        let i = n - a_base a
        in bindr (idx (bitmap a) (i div 64)) (\<lambda>w.
           bindr (assertr (w AND push_bit (i mod 64) 1 \<noteq> 0) (AssertFailed ''double free of frame'')) (\<lambda>_.
           bindr (set_at (bitmap a) (i div 64) (w AND NOT (push_bit (i mod 64) 1))) (\<lambda>bm.
           Inr (a\<lparr>bitmap := bm, a_free := a_free a + 1\<rparr>))))))"

definition free_frames :: "bitmap_allocator \<Rightarrow> nat" where
  "free_frames a = a_free a"

definition total_frames :: "bitmap_allocator \<Rightarrow> nat" where
  "total_frames a = a_count a"

section \<open>The bitmap as a set\<close>

definition taken :: "bitmap_allocator \<Rightarrow> nat \<Rightarrow> bool" where
  "taken a i \<longleftrightarrow> bit (bitmap a ! (i div 64)) (i mod 64)"

definition alloc_inv :: "bitmap_allocator \<Rightarrow> bool" where
  "alloc_inv a \<longleftrightarrow>
     length (bitmap a) = MAX_FRAMES div 64 \<and> a_count a \<le> MAX_FRAMES \<and>
     (a_base a + a_count a) * FRAME_SIZE < 2 ^ 64 \<and>
     a_free a = card {i. i < a_count a \<and> \<not> taken a i}"

definition used :: "bitmap_allocator \<Rightarrow> usize set" where
  "used a = frame_addr a ` {i. i < a_count a \<and> taken a i}"

definition managed :: "bitmap_allocator \<Rightarrow> usize set" where
  "managed a = frame_addr a ` {i. i < a_count a}"

lemma in_bitmap: "alloc_inv a \<Longrightarrow> i < a_count a \<Longrightarrow> i div 64 < length (bitmap a)"
  by (auto simp: alloc_inv_def MAX_FRAMES_def)

lemma div_mod_64: "i div 64 = j div 64 \<Longrightarrow> i mod 64 = j mod 64 \<Longrightarrow> i = j" for i j :: nat
  by (metis div_mult_mod_eq)

lemma taken_set:
  assumes "i div 64 < length (bitmap a)"
  shows "taken (a\<lparr>bitmap := (bitmap a)[i div 64 := bitmap a ! (i div 64) OR push_bit (i mod 64) 1], a_free := n\<rparr>) j
    \<longleftrightarrow> j = i \<or> taken a j"
proof (cases "j div 64 = i div 64")
  case True
  have "i mod 64 < 64" by simp
  with True assms show ?thesis
    unfolding taken_def by (auto simp: bit_or_iff bit_shift1 simp del: push_bit_of_1 intro: div_mod_64)
next
  case False
  then show ?thesis using assms by (auto simp: taken_def)
qed

lemma taken_clear:
  assumes "i div 64 < length (bitmap a)"
  shows "taken (a\<lparr>bitmap := (bitmap a)[i div 64 := bitmap a ! (i div 64) AND NOT (push_bit (i mod 64) 1)], a_free := n\<rparr>) j
    \<longleftrightarrow> j \<noteq> i \<and> taken a j"
proof (cases "j div 64 = i div 64")
  case True
  have "i mod 64 < 64" "j mod 64 < 64" by simp_all
  with True assms show ?thesis
    unfolding taken_def
    by (auto simp: bit_and_iff bit_not_iff bit_shift1 simp del: push_bit_of_1 intro: div_mod_64)
next
  case False
  then show ?thesis using assms by (auto simp: taken_def)
qed

lemma unat_frame_addr:
  "alloc_inv a \<Longrightarrow> i \<le> a_count a \<Longrightarrow> unat (frame_addr a i) = (a_base a + i) * FRAME_SIZE"
proof -
  assume a: "alloc_inv a" "i \<le> a_count a"
  then have "(a_base a + i) * FRAME_SIZE < 2 ^ 64"
    unfolding alloc_inv_def by (meson add_le_cancel_left le_less_trans mult_le_mono1)
  then show ?thesis unfolding frame_addr_def by (simp only: unat_of_nat len_num1 len_bit0 mod_less) simp
qed

lemma frame_addr_inj:
  "alloc_inv a \<Longrightarrow> i < a_count a \<Longrightarrow> j < a_count a \<Longrightarrow> frame_addr a i = frame_addr a j \<longleftrightarrow> i = j"
proof -
  assume a: "alloc_inv a" "i < a_count a" "j < a_count a"
  have "unat (frame_addr a i) = (a_base a + i) * FRAME_SIZE" "unat (frame_addr a j) = (a_base a + j) * FRAME_SIZE"
    using a by (simp_all add: unat_frame_addr)
  then have "frame_addr a i = frame_addr a j \<Longrightarrow> (a_base a + i) * FRAME_SIZE = (a_base a + j) * FRAME_SIZE" by metis
  then show ?thesis by (auto simp: FRAME_SIZE_def)
qed

lemma used_iff: "alloc_inv a \<Longrightarrow> i < a_count a \<Longrightarrow> frame_addr a i \<in> used a \<longleftrightarrow> taken a i"
  by (auto simp: used_def frame_addr_inj)

lemma frame_addr_update [simp]: "frame_addr (a\<lparr>bitmap := b, a_free := n\<rparr>) i = frame_addr a i"
  by (simp add: frame_addr_def)

text \<open>The scan finds the first free index.\<close>

lemma alloc_scan_find:
  assumes "\<forall>i\<in>set is. i div 64 < length (bitmap a)" "\<And>i. i \<in> set is \<Longrightarrow> \<not> taken a i \<Longrightarrow> 0 < a_free a"
  shows "alloc_scan a is =
    (case find (\<lambda>i. \<not> taken a i) is of
       None \<Rightarrow> Inr (a, None)
     | Some i \<Rightarrow> Inr (a\<lparr>bitmap := (bitmap a)[i div 64 := bitmap a ! (i div 64) OR push_bit (i mod 64) 1],
                       a_free := a_free a - 1\<rparr>, Some (frame_addr a i)))"
  using assms
proof (induction "is")
  case (Cons i "is")
  have "bitmap a ! (i div 64) AND push_bit (i mod 64) 1 = 0 \<longleftrightarrow> \<not> taken a i"
    unfolding taken_def and_shift1_eq_0 ..
  moreover have "alloc_scan a is =
      (case find (\<lambda>i. \<not> taken a i) is of
         None \<Rightarrow> Inr (a, None)
       | Some i \<Rightarrow> Inr (a\<lparr>bitmap := (bitmap a)[i div 64 := bitmap a ! (i div 64) OR push_bit (i mod 64) 1],
                         a_free := a_free a - 1\<rparr>, Some (frame_addr a i)))"
    by (rule Cons.IH) (use Cons.prems in auto)
  ultimately show ?case
    using Cons.prems(1) Cons.prems(2) [of i]
    by (cases "taken a i") (simp_all add: idx_def set_at_def assertr_def del: push_bit_of_1)
qed simp

lemma find_upt: "find P [0..<n] = Some i \<longleftrightarrow> i < n \<and> P i \<and> (\<forall>j<i. \<not> P j)"
  by (auto simp: find_Some_iff)

lemma free_card_pos: "alloc_inv a \<Longrightarrow> i < a_count a \<Longrightarrow> \<not> taken a i \<Longrightarrow> 0 < a_free a"
  by (auto simp: alloc_inv_def card_gt_0_iff)

lemma alloc_cases:
  assumes inv: "alloc_inv a"
  shows "(alloc a = Inr (a, None) \<and> (\<forall>i<a_count a. taken a i)) \<or>
    (\<exists>i a'. alloc a = Inr (a', Some (frame_addr a i)) \<and> i < a_count a \<and> \<not> taken a i \<and> (\<forall>j<i. taken a j) \<and>
       (\<forall>j. taken a' j \<longleftrightarrow> j = i \<or> taken a j) \<and> alloc_inv a' \<and> a_base a' = a_base a \<and> a_count a' = a_count a \<and>
       a_free a' = a_free a - 1 \<and> 0 < a_free a)"
proof -
  have e: "alloc a = (case find (\<lambda>i. \<not> taken a i) [0..<a_count a] of
       None \<Rightarrow> Inr (a, None)
     | Some i \<Rightarrow> Inr (a\<lparr>bitmap := (bitmap a)[i div 64 := bitmap a ! (i div 64) OR push_bit (i mod 64) 1],
                       a_free := a_free a - 1\<rparr>, Some (frame_addr a i)))"
    unfolding alloc_def
    by (rule alloc_scan_find) (use in_bitmap [OF inv] free_card_pos [OF inv] in auto)
  show ?thesis
  proof (cases "find (\<lambda>i. \<not> taken a i) [0..<a_count a]")
    case None
    then have "alloc a = Inr (a, None)" using e by simp
    moreover have "\<forall>i<a_count a. taken a i" using None by (auto simp: find_None_iff)
    ultimately show ?thesis by blast
  next
    case (Some i)
    then have i: "i < a_count a" "\<not> taken a i" "\<forall>j<i. taken a j" by (auto simp: find_upt)
    let ?a = "a\<lparr>bitmap := (bitmap a)[i div 64 := bitmap a ! (i div 64) OR push_bit (i mod 64) 1], a_free := a_free a - 1\<rparr>"
    have tk: "taken ?a j \<longleftrightarrow> j = i \<or> taken a j" for j using taken_set [OF in_bitmap [OF inv i(1)]] .
    have "{j. j < a_count a \<and> \<not> taken ?a j} = {j. j < a_count a \<and> \<not> taken a j} - {i}" using tk by auto
    then have "alloc_inv ?a"
      using inv i by (simp add: alloc_inv_def del: push_bit_of_1)
    then show ?thesis
      using e Some i tk free_card_pos [OF inv i(1,2)] by (intro disjI2 exI [of _ i] exI [of _ ?a]) (simp del: push_bit_of_1)
  qed
qed

lemma used_eqI:
  assumes "a_base a' = a_base a" "a_count a' = a_count a" "\<forall>j. taken a' j \<longleftrightarrow> j = i \<or> taken a j" "i < a_count a"
  shows "used a' = insert (frame_addr a i) (used a)"
  using assms by (auto simp: used_def frame_addr_def)

section \<open>What clients rely on\<close>

fun alloc_n :: "('a \<Rightarrow> ('a \<times> usize option) result) \<Rightarrow> nat \<Rightarrow> 'a \<Rightarrow> ('a \<times> usize list) result" where
  "alloc_n al 0 a = Inr (a, [])"
| "alloc_n al (Suc n) a =
     bindr (al a) (\<lambda>(a1, f). case f of
       None \<Rightarrow> Inr (a1, [])
     | Some x \<Rightarrow> bindr (alloc_n al n a1) (\<lambda>(a2, fs). Inr (a2, x # fs)))"

locale frame_source =
  fixes inv :: "'a \<Rightarrow> bool"
    and in_use :: "'a \<Rightarrow> usize set"
    and get_frame :: "'a \<Rightarrow> ('a \<times> usize option) result"
    and put_frame :: "'a \<Rightarrow> usize \<Rightarrow> 'a result"
  assumes get_frame_ok: "inv a \<Longrightarrow>
      holds (get_frame a) (\<lambda>(a', f). inv a' \<and>
        (case f of None \<Rightarrow> in_use a' = in_use a
         | Some x \<Rightarrow> x \<notin> in_use a \<and> in_use a' = insert x (in_use a)))"
    and put_frame_ok: "inv a \<Longrightarrow> x \<in> in_use a \<Longrightarrow>
      holds (put_frame a x) (\<lambda>a'. inv a' \<and> in_use a' = in_use a - {x})"
    and put_frame_bad: "inv a \<Longrightarrow> x \<notin> in_use a \<Longrightarrow> \<not> returns (put_frame a x)"
begin

lemma many_frames:
  "inv a \<Longrightarrow> holds (alloc_n get_frame n a) (\<lambda>(a', fs). inv a' \<and> distinct fs \<and> length fs \<le> n \<and>
     set fs \<inter> in_use a = {} \<and> in_use a' = in_use a \<union> set fs)"
proof (induction n arbitrary: a)
  case (Suc n)
  show ?case
    unfolding alloc_n.simps holds_bindr
  proof (rule holds_mono [OF get_frame_ok [OF Suc.prems]], clarify)
    fix a1 f
    assume a1: "inv a1" "case f of None \<Rightarrow> in_use a1 = in_use a | Some x \<Rightarrow> x \<notin> in_use a \<and> in_use a1 = insert x (in_use a)"
    show "holds (case f of None \<Rightarrow> Inr (a1, []) | Some x \<Rightarrow> bindr (alloc_n get_frame n a1) (\<lambda>(a2, fs). Inr (a2, x # fs)))
      (\<lambda>(a', fs). inv a' \<and> distinct fs \<and> length fs \<le> Suc n \<and> set fs \<inter> in_use a = {} \<and> in_use a' = in_use a \<union> set fs)"
    proof (cases f)
      case None
      then show ?thesis using a1 by simp
    next
      case (Some x)
      then have x: "x \<notin> in_use a" "in_use a1 = insert x (in_use a)" using a1(2) by simp_all
      have "holds (alloc_n get_frame n a1) (\<lambda>(a', fs). holds (Inr (a', x # fs))
          (\<lambda>(a', fs). inv a' \<and> distinct fs \<and> length fs \<le> Suc n \<and> set fs \<inter> in_use a = {} \<and> in_use a' = in_use a \<union> set fs))"
        by (rule holds_mono [OF Suc.IH [OF a1(1)]]) (clarsimp simp: x)
      then show ?thesis by (simp add: Some holds_bindr case_prod_unfold)
    qed
  qed
qed simp

lemma give_back:
  assumes "inv a" "x \<in> in_use a"
  shows "holds (put_frame a x) (\<lambda>a'. inv a' \<and> in_use a' = in_use a - {x} \<and> \<not> returns (put_frame a' x))"
proof (rule holds_mono [OF put_frame_ok [OF assms]])
  fix a' assume a': "inv a' \<and> in_use a' = in_use a - {x}"
  then have "\<not> returns (put_frame a' x)" by (intro put_frame_bad) simp_all
  with a' show "inv a' \<and> in_use a' = in_use a - {x} \<and> \<not> returns (put_frame a' x)" by simp
qed

end

lemma free_frame_exec:
  assumes inv: "alloc_inv a" and i: "i < a_count a"
  shows "free_frame a (frame_addr a i) =
    (if taken a i then Inr (a\<lparr>bitmap := (bitmap a)[i div 64 := bitmap a ! (i div 64) AND NOT (push_bit (i mod 64) 1)],
                              a_free := a_free a + 1\<rparr>)
     else Inl (AssertFailed ''double free of frame''))"
proof -
  have u: "unat (frame_addr a i) = (a_base a + i) * FRAME_SIZE" using unat_frame_addr inv i by simp
  have "bitmap a ! (i div 64) AND push_bit (i mod 64) 1 \<noteq> 0 \<longleftrightarrow> taken a i"
    unfolding taken_def and_shift1_eq_0 by simp
  moreover have "unat (frame_addr a i) mod FRAME_SIZE = 0" "unat (frame_addr a i) div FRAME_SIZE = a_base a + i"
    using u by (simp_all add: FRAME_SIZE_def)
  ultimately show ?thesis
    using in_bitmap [OF inv i] i
    by (simp add: free_frame_def idx_def set_at_def assertr_def Let_def del: push_bit_of_1)
qed

lemma free_frame_unmanaged:
  assumes inv: "alloc_inv a" and x: "x \<notin> managed a"
  shows "\<not> returns (free_frame a x)"
proof
  assume "returns (free_frame a x)"
  then have m: "unat x mod FRAME_SIZE = 0" "a_base a \<le> unat x div FRAME_SIZE" "unat x div FRAME_SIZE < a_base a + a_count a"
    by (auto simp: returns_def free_frame_def wp)
  let ?i = "unat x div FRAME_SIZE - a_base a"
  have i: "?i < a_count a" using m by simp
  have "unat (frame_addr a ?i) = unat x"
    using unat_frame_addr [OF inv, of ?i] i m by (simp add: mod_0_imp_dvd)
  then have "x = frame_addr a ?i" by (metis word_unat_eq_iff)
  with i x show False by (auto simp: managed_def)
qed

lemma free_frame_ok:
  assumes inv: "alloc_inv a" and i: "i < a_count a" "taken a i"
  shows "\<exists>a'. free_frame a (frame_addr a i) = Inr a' \<and> alloc_inv a' \<and> (\<forall>j. taken a' j \<longleftrightarrow> j \<noteq> i \<and> taken a j) \<and>
    a_base a' = a_base a \<and> a_count a' = a_count a \<and> used a' = used a - {frame_addr a i}"
proof -
  let ?a = "a\<lparr>bitmap := (bitmap a)[i div 64 := bitmap a ! (i div 64) AND NOT (push_bit (i mod 64) 1)], a_free := a_free a + 1\<rparr>"
  have tk: "taken ?a j \<longleftrightarrow> j \<noteq> i \<and> taken a j" for j using taken_clear [OF in_bitmap [OF inv i(1)]] .
  have "{j. j < a_count a \<and> \<not> taken ?a j} = insert i {j. j < a_count a \<and> \<not> taken a j}" using tk i by auto
  then have inv': "alloc_inv ?a" using inv i by (simp add: alloc_inv_def del: push_bit_of_1)
  have "used ?a = used a - {frame_addr a i}"
    using tk i frame_addr_inj [OF inv] by (auto simp: used_def simp del: push_bit_of_1)
  then show ?thesis using free_frame_exec [OF inv i(1)] i inv' tk by (intro exI [of _ ?a]) (simp del: push_bit_of_1)
qed

interpretation bitmap_frames: frame_source alloc_inv used alloc free_frame
proof
  fix a assume inv: "alloc_inv a"
  show "holds (alloc a) (\<lambda>(a', f). alloc_inv a' \<and>
      (case f of None \<Rightarrow> used a' = used a | Some x \<Rightarrow> x \<notin> used a \<and> used a' = insert x (used a)))"
    using alloc_cases [OF inv]
  proof (elim disjE exE conjE)
    assume "alloc a = Inr (a, None)"
    then show ?thesis using inv by simp
  next
    fix i a'
    assume i: "alloc a = Inr (a', Some (frame_addr a i))" "i < a_count a" "\<not> taken a i"
      and a': "\<forall>j. taken a' j \<longleftrightarrow> j = i \<or> taken a j" "alloc_inv a'" "a_base a' = a_base a" "a_count a' = a_count a"
    then show ?thesis using used_eqI [OF a'(3,4,1) i(2)] used_iff [OF inv i(2)] by simp
  qed
next
  fix a x assume inv: "alloc_inv a" and x: "x \<in> used a"
  then obtain i where "i < a_count a" "taken a i" "x = frame_addr a i" by (auto simp: used_def)
  then show "holds (free_frame a x) (\<lambda>a'. alloc_inv a' \<and> used a' = used a - {x})"
    using free_frame_ok [OF inv] unfolding holds_iff by metis
next
  fix a x assume inv: "alloc_inv a" and x: "x \<notin> used a"
  show "\<not> returns (free_frame a x)"
  proof (cases "x \<in> managed a")
    case True
    then obtain i where "i < a_count a" "x = frame_addr a i" by (auto simp: managed_def)
    then show ?thesis using x free_frame_exec [OF inv] by (simp add: used_iff [OF inv] returns_def)
  next
    case False
    then show ?thesis using free_frame_unmanaged [OF inv] by simp
  qed
qed

lemma no_bit_taken: "i div 64 < length (bitmap a) \<Longrightarrow> bitmap a = replicate n 0 \<Longrightarrow> \<not> taken a i"
  by (simp add: taken_def)

text \<open>Arming a new allocator.\<close>

lemma allocator_init_ok:
  assumes "unat s mod FRAME_SIZE = 0" "unat e mod FRAME_SIZE = 0" "s < e" "unat e - unat s \<le> MAX_FRAMES * FRAME_SIZE"
  obtains a where "allocator_init allocator_new s e = Inr a" "alloc_inv a" "used a = {}"
    "a_base a * FRAME_SIZE = unat s" "(a_base a + a_count a) * FRAME_SIZE = unat e" "a_free a = a_count a"
proof -
  let ?n = "(unat e - unat s) div FRAME_SIZE"
  let ?a = "allocator_new\<lparr>a_base := unat s div FRAME_SIZE, a_count := ?n, a_free := ?n\<rparr>"
  have n: "?n \<le> MAX_FRAMES" using assms(4) by (simp add: FRAME_SIZE_def)
  have se: "unat s < unat e" using assms(3) by (simp add: word_less_nat_alt)
  have d: "FRAME_SIZE dvd unat s" "FRAME_SIZE dvd unat e" using assms(1,2) by auto
  have lo: "a_base ?a * FRAME_SIZE = unat s" using d by simp
  have "a_count ?a * FRAME_SIZE = unat e - unat s" using d by (simp add: dvd_diff_nat)
  then have hi: "(a_base ?a + a_count ?a) * FRAME_SIZE = unat e" using lo se by (simp add: add_mult_distrib)
  have "\<not> taken ?a i" if "i < ?n" for i
    by (rule no_bit_taken) (use that n in \<open>simp_all add: allocator_new_def MAX_FRAMES_def\<close>)
  then have c: "{i. i < ?n \<and> \<not> taken ?a i} = {..<?n}" "{i. i < ?n \<and> taken ?a i} = {}" by auto
  have "unat e < 2 ^ 64" using unsigned_less [of e, where ?'a = nat] by simp
  then have "alloc_inv ?a" unfolding alloc_inv_def using n hi c by (simp add: allocator_new_def)
  moreover have "used ?a = {}" unfolding used_def using c by simp
  moreover have "allocator_init allocator_new s e = Inr ?a"
    using assms n by (simp add: allocator_init_def assertr_def Let_def)
  ultimately show thesis using that lo hi by simp
qed

section \<open>Properties\<close>

text \<open>First fit. The allocator hands out the lowest free frame, page-aligned and inside the
  managed range, marks exactly that frame and counts it, and answers nothing exactly when every
  managed frame is in use.\<close>
theorem alloc_is_first_fit:
  assumes "alloc_inv a"
  shows "if a_free a = 0 then alloc a = Inr (a, None) \<and> used a = managed a
    else \<exists>i a'. alloc a = Inr (a', Some (frame_addr a i)) \<and> i < a_count a \<and> frame_addr a i \<notin> used a \<and>
      unat (frame_addr a i) mod FRAME_SIZE = 0 \<and> (\<forall>j<i. frame_addr a j \<in> used a) \<and>
      used a' = insert (frame_addr a i) (used a) \<and> a_free a' = a_free a - 1 \<and> alloc_inv a'"
proof -
  have full: "a_free a = 0 \<longleftrightarrow> (\<forall>i<a_count a. taken a i)"
    using assms by (auto simp: alloc_inv_def)
  show ?thesis
    using alloc_cases [OF assms]
  proof (elim disjE exE conjE)
    assume "alloc a = Inr (a, None)" "\<forall>i<a_count a. taken a i"
    then show ?thesis using full by (auto simp: used_def managed_def)
  next
    fix i a'
    assume i: "alloc a = Inr (a', Some (frame_addr a i))" "i < a_count a" "\<not> taken a i" "\<forall>j<i. taken a j"
      and a': "\<forall>j. taken a' j \<longleftrightarrow> j = i \<or> taken a j" "alloc_inv a'" "a_base a' = a_base a" "a_count a' = a_count a"
        "a_free a' = a_free a - 1" "0 < a_free a"
    have "unat (frame_addr a i) mod FRAME_SIZE = 0" using unat_frame_addr [OF assms, of i] i by simp
    moreover have "\<forall>j<i. frame_addr a j \<in> used a" using i used_iff [OF assms] by auto
    moreover have "used a' = insert (frame_addr a i) (used a)" by (rule used_eqI) (use a' i in auto)
    ultimately show ?thesis using i a' used_iff [OF assms i(2)] by auto
  qed
qed

theorem alloc_is_first_fit_witness:
  "\<exists>a a'. allocator_init allocator_new 0x80300000 0x80400000 = Inr a \<and> alloc_inv a \<and>
     alloc a = Inr (a', Some 0x80300000) \<and> used a' = {0x80300000}"
proof -
  obtain a where a: "allocator_init allocator_new 0x80300000 0x80400000 = Inr a" "alloc_inv a" "used a = {}"
    "a_base a * FRAME_SIZE = 0x80300000" "(a_base a + a_count a) * FRAME_SIZE = 0x80400000" "a_free a = a_count a"
    by (rule allocator_init_ok [where s = "0x80300000" and e = "0x80400000"]) (simp_all add: FRAME_SIZE_def MAX_FRAMES_def)
  have "a_base a = 0x80300" "a_free a = 256" using a by (simp_all add: FRAME_SIZE_def)
  then obtain i a' where i: "alloc a = Inr (a', Some (frame_addr a i))" "\<forall>j<i. frame_addr a j \<in> used a"
    "used a' = insert (frame_addr a i) (used a)"
    using alloc_is_first_fit [OF a(2)] by auto
  then have "i = 0" using a(3) by auto
  then have "frame_addr a i = 0x80300000" using \<open>a_base a = 0x80300\<close> by (simp add: frame_addr_def FRAME_SIZE_def)
  then show ?thesis using a i by auto
qed

text \<open>C15: Frames are never handed out twice. Any number of allocations gives pairwise different
  frames, none of them in use before; a frame in use can be given back once, and giving it back a
  second time, or giving back a frame that is not in use, panics.\<close>
theorem frames_never_shared:
  assumes "alloc_inv a"
  shows "(\<exists>a' fs. alloc_n alloc n a = Inr (a', fs) \<and> distinct fs \<and> set fs \<inter> used a = {} \<and> used a' = used a \<union> set fs) \<and>
    (x \<in> used a \<longrightarrow> (\<exists>a'. free_frame a x = Inr a' \<and> used a' = used a - {x} \<and> \<not> returns (free_frame a' x))) \<and>
    (x \<notin> used a \<longrightarrow> \<not> returns (free_frame a x))"
proof (intro conjI impI)
  show "\<exists>a' fs. alloc_n alloc n a = Inr (a', fs) \<and> distinct fs \<and> set fs \<inter> used a = {} \<and> used a' = used a \<union> set fs"
    using bitmap_frames.many_frames [OF assms, of n] by (auto simp: holds_iff)
  show "\<exists>a'. free_frame a x = Inr a' \<and> used a' = used a - {x} \<and> \<not> returns (free_frame a' x)" if "x \<in> used a"
    using bitmap_frames.give_back [OF assms that] unfolding holds_iff by blast
  show "\<not> returns (free_frame a x)" if "x \<notin> used a"
    by (rule bitmap_frames.put_frame_bad [OF assms that])
qed

theorem frames_never_shared_witness:
  "\<exists>a a' fs. allocator_init allocator_new 0x80300000 0x80400000 = Inr a \<and> alloc_inv a \<and>
     alloc_n alloc 2 a = Inr (a', fs) \<and> distinct fs \<and> used a' = set fs \<and> \<not> returns (free_frame a 0x80300000)"
proof -
  obtain a where a: "allocator_init allocator_new 0x80300000 0x80400000 = Inr a" "alloc_inv a" "used a = {}"
    by (rule allocator_init_ok [where s = "0x80300000" and e = "0x80400000"]) (simp_all add: FRAME_SIZE_def MAX_FRAMES_def)
  show ?thesis using a frames_never_shared [OF a(2), of 2 "0x80300000"] by auto
qed

end
