(* ===== verification/Cell.thy ===== *)
theory Cell
  imports Frame
begin

text \<open>
  The cell around the kernel's statics (\<open>SingleHartCell\<close> in \<^verbatim>\<open>src/arch/riscv64/src/mem/mod.rs\<close>). The closure given to
  \<open>with\<close> runs while the cell is marked in use and may itself reach the cell again, so it is modelled as acting on the cell. Shown here: a
  second entry always stops the kernel, and operations on the content alone, run one after the other, act as if the
  cell were not there. The other theories therefore pass the content of each static as plain
  state; the theory \<open>Kernel\<close> adds the flags of the run queue and the entropy pool, whose closures interrupts can stop.
\<close>

record 'a hart_cell =
  inner :: 'a
  in_use :: bool

definition cell_new :: "'a \<Rightarrow> 'a hart_cell" where
  "cell_new v = \<lparr>inner = v, in_use = False\<rparr>"

definition cell_with :: "'a hart_cell \<Rightarrow> ('a hart_cell \<Rightarrow> ('a hart_cell \<times> 'b) result) \<Rightarrow> ('a hart_cell \<times> 'b) result" where
  "cell_with c f =
     bindr (assertr (\<not> in_use c) (AssertFailed ''re-entrant access to single-hart cell'')) (\<lambda>_.
     bindr (f (c\<lparr>in_use := True\<rparr>)) (\<lambda>(c, r). Inr (c\<lparr>in_use := False\<rparr>, r)))"

text \<open>A closure that only touches the content.\<close>

definition on_inner :: "('a \<Rightarrow> ('a \<times> 'b) result) \<Rightarrow> 'a hart_cell \<Rightarrow> ('a hart_cell \<times> 'b) result" where
  "on_inner f c = bindr (f (inner c)) (\<lambda>(v, r). Inr (c\<lparr>inner := v\<rparr>, r))"

text \<open>The allocator behind its cell.\<close>

definition static_alloc :: "bitmap_allocator hart_cell \<Rightarrow> (bitmap_allocator hart_cell \<times> usize option) result" where
  "static_alloc c = cell_with c (on_inner alloc)"

definition static_free :: "bitmap_allocator hart_cell \<Rightarrow> usize \<Rightarrow> (bitmap_allocator hart_cell \<times> unit) result" where
  "static_free c f = cell_with c (on_inner (\<lambda>a. bindr (free_frame a f) (\<lambda>a. Inr (a, ()))))"

definition static_free_frames :: "bitmap_allocator hart_cell \<Rightarrow> (bitmap_allocator hart_cell \<times> nat) result" where
  "static_free_frames c = cell_with c (on_inner (\<lambda>a. Inr (a, free_frames a)))"

lemma cell_with_inner:
  "\<not> in_use c \<Longrightarrow> cell_with c (on_inner f) = bindr (f (inner c)) (\<lambda>(v, r). Inr (c\<lparr>inner := v\<rparr>, r))"
  by (cases c) (auto simp: cell_with_def on_inner_def assertr_def bindr_def split: sum.split)

lemma cell_new_unused [simp]: "\<not> in_use (cell_new v)" "inner (cell_new v) = v"
  by (simp_all add: cell_new_def)

lemma cell_reentry:
  "cell_with c (\<lambda>c. bindr (cell_with c g) h) = Inl (AssertFailed ''re-entrant access to single-hart cell'')"
  by (simp add: cell_with_def assertr_def)

text \<open>A sequence of operations on the content.\<close>

fun run_ops :: "('a \<Rightarrow> ('a \<times> 'b) result) list \<Rightarrow> 'a \<Rightarrow> ('a \<times> 'b list) result" where
  "run_ops [] v = Inr (v, [])"
| "run_ops (f # fs) v = bindr (f v) (\<lambda>(v, r). bindr (run_ops fs v) (\<lambda>(v, rs). Inr (v, r # rs)))"

fun run_cell :: "('a \<Rightarrow> ('a \<times> 'b) result) list \<Rightarrow> 'a hart_cell \<Rightarrow> ('a hart_cell \<times> 'b list) result" where
  "run_cell [] c = Inr (c, [])"
| "run_cell (f # fs) c = bindr (cell_with c (on_inner f)) (\<lambda>(c, r). bindr (run_cell fs c) (\<lambda>(c, rs). Inr (c, r # rs)))"

lemma cell_transparent:
  "run_cell fs (cell_new v) = bindr (run_ops fs v) (\<lambda>(v, rs). Inr (cell_new v, rs))"
proof (induction fs arbitrary: v)
  case (Cons f fs)
  have "cell_with (cell_new v) (on_inner f) = bindr (f v) (\<lambda>(v, r). Inr (cell_new v, r))"
    by (simp add: cell_with_inner) (simp add: cell_new_def)
  then show ?case
    using Cons.IH by (cases "f v") (auto simp: bindr_assoc split: prod.split intro!: arg_cong [of _ _ "bindr _"])
qed simp

end
