(* ===== verification/Kernel.thy ===== *)
theory Kernel
  imports Ipc Crypto Cell
begin

text \<open>
  The kernel as the trap handler drives it: system-call decoding and dispatch
  (\<^verbatim>\<open>src/arch/riscv64/src/syscall.rs\<close>), the IPC and service handlers of
  \<^verbatim>\<open>src/arch/riscv64/src/sched.rs\<close>, and \<^verbatim>\<open>trap_handler\<close>
  (\<^verbatim>\<open>src/arch/riscv64/src/trap.rs\<close>).

  A task that blocks inside the kernel leaves its kernel stack behind: the rest of its
  handler runs when it is switched to again. \<open>cont\<close> names that rest, one constructor per
  place where the code calls a blocking switch (\<open>NoCont\<close> for the running task); \<open>resume\<close>
  runs it and consumes it. Each slot has the trap
  frame on its kernel stack. A handler that switches away returns \<open>Switched\<close> after the next
  task's continuation has run, so a call of \<open>trap_handler\<close> covers everything from one
  trap to the return to some task.

  The run queue and the entropy pool are statics behind a \<open>SingleHartCell\<close>. Trap handlers run with
  interrupts off, but a kernel task can be interrupted while it is inside a closure on one of
  them; \<open>k_sched_in_use\<close> and \<open>k_pool_in_use\<close> are the flags of the two cells, and every
  handler that enters one asserts, as the code does, that it is not in use.
\<close>

section \<open>State\<close>

datatype cont =
    NoCont
  | Fresh
  | InTrap
  | InRecv usize
  | InSend
  | InCall
  | InKYield
  | InKRecv
  | InKCall

record 'r kernel =
  k_sched :: sched
  k_sched_in_use :: bool
  k_heal :: heal
  k_frames :: "nat \<Rightarrow> trap_frame"
  k_cont :: "nat \<Rightarrow> cont"
  k_chan :: channel
  k_pool :: "'r option"
  k_pool_in_use :: bool
  k_ret :: "nat \<Rightarrow> message"
  k_expecting_wx :: bool
  k_in_service :: "u32 list"
  k_satp :: usize
  k_output :: bytes
  k_exits :: "(nat \<times> exit_reason) list"

text \<open>
  The machine around the kernel: the trampoline's address, the \<open>sstatus\<close> a restart reads,
  the bounds of the user data region, what an S-mode load of a user byte with \<open>SUM\<close> set gives
  in the active address space and what an S-mode load of an instruction parcel gives
  (\<open>None\<close>: a page fault), and the cryptographic libraries.
\<close>

record 'r kenv =
  e_user_trampoline :: usize
  e_sstatus :: usize
  e_user_lo :: usize
  e_user_hi :: usize
  e_mem :: "usize \<Rightarrow> u8 option"
  e_parcel :: "usize \<Rightarrow> u16 option"
  e_rng :: "'r rng_lib"
  e_aead :: aead_lib

datatype outcome = Resume | Exit usize | Yield | Switched

abbreviation cur :: "'r kernel \<Rightarrow> nat" where
  "cur k \<equiv> s_current (k_sched k)"

definition frame :: "'r kernel \<Rightarrow> trap_frame" where
  "frame k = k_frames k (cur k)"

definition put_frame :: "'r kernel \<Rightarrow> trap_frame \<Rightarrow> 'r kernel" where
  "put_frame k f = k\<lparr>k_frames := (k_frames k)(cur k := f)\<rparr>"

definition reg :: "'r kernel \<Rightarrow> nat \<Rightarrow> usize" where
  "reg k i = regs (frame k) ! i"

definition set_reg :: "'r kernel \<Rightarrow> nat \<Rightarrow> usize \<Rightarrow> 'r kernel" where
  "set_reg k i v = put_frame k ((frame k)\<lparr>regs := (regs (frame k))[i := v]\<rparr>)"

definition advance :: "'r kernel \<Rightarrow> usize \<Rightarrow> 'r kernel result" where
  "advance k n = bindr (add_chk (sepc (frame k)) n) (\<lambda>pc. Inr (put_frame k ((frame k)\<lparr>sepc := pc\<rparr>)))"

definition write_message :: "'r kernel \<Rightarrow> message \<Rightarrow> 'r kernel" where
  "write_message k msg =
     (case data msg of (d0, d1, d2) \<Rightarrow>
        set_reg (set_reg (set_reg (set_reg k 9 (badge msg)) 10 d0) 11 d1) 12 d2)"

section \<open>System-call decoding\<close>

datatype syscall =
    SysPrint | SysExit | SysYield | SysSend | SysRecv | SysRestart | SysCall | SysReply
  | SysGetrandom | SysWaitIrq | SysGrant | SysRevoke | SysSeal | SysOpen | SysUnknown usize

definition decode_syscall :: "usize \<Rightarrow> syscall" where
  "decode_syscall a7 =
     (if a7 = 1 then SysPrint else if a7 = 2 then SysExit else if a7 = 3 then SysYield
      else if a7 = 4 then SysSend else if a7 = 5 then SysRecv else if a7 = 6 then SysRestart
      else if a7 = 7 then SysCall else if a7 = 8 then SysReply else if a7 = 9 then SysGetrandom
      else if a7 = 10 then SysWaitIrq else if a7 = 11 then SysGrant else if a7 = 12 then SysRevoke
      else if a7 = 13 then SysSeal else if a7 = 14 then SysOpen else SysUnknown a7)"

definition validate_user_buffer :: "usize \<Rightarrow> usize \<Rightarrow> usize \<Rightarrow> usize \<Rightarrow> bool" where
  "validate_user_buffer lo hi ptr len =
     (case checked_add ptr len of Some stop \<Rightarrow> lo \<le> ptr \<and> stop \<le> hi | None \<Rightarrow> False)"

definition PRINT_MAX :: usize where
  "PRINT_MAX = 256"

text \<open>The addresses \<^verbatim>\<open>sys_print\<close> reads, in order.\<close>

definition print_reads :: "usize \<Rightarrow> usize \<Rightarrow> usize list" where
  "print_reads ptr len = map (\<lambda>i. ptr + word_of_nat i) [0..<unat (min len PRINT_MAX)]"

definition utf8_or :: "bytes \<Rightarrow> bytes \<Rightarrow> bytes" where
  "utf8_or bs alt = (case from_utf8 bs of Some s \<Rightarrow> s | None \<Rightarrow> alt)"

text \<open>The volatile copy out of user memory: a load that faults is an S-mode load page fault, which
  the trap handler treats as fatal.\<close>

fun read_user :: "(usize \<Rightarrow> u8 option) \<Rightarrow> usize list \<Rightarrow> bytes result" where
  "read_user mem [] = Inr []"
| "read_user mem (a # as) =
     bindr (expectr (mem a) (Panicked ''load page fault'')) (\<lambda>b.
     bindr (read_user mem as) (\<lambda>bs. Inr (b # bs)))"

definition sys_print :: "'r kenv \<Rightarrow> 'r kernel \<Rightarrow> usize \<Rightarrow> usize \<Rightarrow> ('r kernel \<times> usize) result" where
  "sys_print e k ptr len =
     (if \<not> validate_user_buffer (e_user_lo e) (e_user_hi e) ptr len then Inr (k, usize_max)
      else bindr (read_user (e_mem e) (print_reads ptr len)) (\<lambda>buf.
           Inr (k\<lparr>k_output := k_output k @ utf8_or buf (lit ''<non-utf8>'')\<rparr>, min len PRINT_MAX)))"

section \<open>Entering the cells\<close>

text \<open>Entering \<^verbatim>\<open>SCHED.with\<close> and \<^verbatim>\<open>POOL.with\<close>. The flag is clear again
  when the closure has run, so the operations below only ever read it; it is set where a kernel task
  is stopped inside a closure (the theory \<open>Programs\<close>).\<close>

definition reentrant :: fault where
  "reentrant = AssertFailed ''re-entrant access to single-hart cell''"

definition sched_with :: "'r kernel \<Rightarrow> (sched \<Rightarrow> 'a result) \<Rightarrow> 'a result" where
  "sched_with k f = bindr (assertr (\<not> k_sched_in_use k) reentrant) (\<lambda>_. f (k_sched k))"

definition pool_with :: "'r kernel \<Rightarrow> ('r option \<Rightarrow> 'a) \<Rightarrow> 'a result" where
  "pool_with k f = bindr (assertr (\<not> k_pool_in_use k) reentrant) (\<lambda>_. Inr (f (k_pool k)))"

lemma sched_with_cell:
  "cell_with \<lparr>inner = k_sched k, in_use = k_sched_in_use k\<rparr> (on_inner f) =
   bindr (sched_with k f) (\<lambda>(s, r). Inr (\<lparr>inner = s, in_use = False\<rparr>, r))"
  by (cases "f (k_sched k)") (auto simp: cell_with_def on_inner_def sched_with_def reentrant_def assertr_def)

lemma sched_with_free [simp]: "\<not> k_sched_in_use k \<Longrightarrow> sched_with k f = f (k_sched k)"
  by (simp add: sched_with_def assertr_def)

lemma sched_with_held [simp]: "k_sched_in_use k \<Longrightarrow> sched_with k f = Inl reentrant"
  by (simp add: sched_with_def assertr_def)

lemma sched_with_Inr: "sched_with k f = Inr x \<longleftrightarrow> \<not> k_sched_in_use k \<and> f (k_sched k) = Inr x"
  by (cases "k_sched_in_use k") simp_all

lemma pool_with_Inr: "pool_with k f = Inr x \<longleftrightarrow> \<not> k_pool_in_use k \<and> f (k_pool k) = x"
  by (simp add: pool_with_def assertr_def)

section \<open>Switching tasks\<close>

text \<open>What remains of the handler of the task that has just been switched to.\<close>

definition resume :: "'r kernel \<Rightarrow> 'r kernel result" where
  "resume k0 =
     (let k = k0\<lparr>k_cont := (k_cont k0)(cur k0 := NoCont)\<rparr>
      in case k_cont k0 (cur k0) of
        NoCont \<Rightarrow> Inr k
      | Fresh \<Rightarrow> Inr k
      | InTrap \<Rightarrow> Inr k
      | InRecv reply_slot \<Rightarrow>
          bindr (recv_wake (k_sched k) reply_slot) (\<lambda>(s, msg).
          advance (write_message (k\<lparr>k_sched := s\<rparr>) msg) 4)
      | InSend \<Rightarrow> advance (set_reg k 9 0) 4
      | InCall \<Rightarrow>
          bindr (task_at (k_sched k) (cur k)) (\<lambda>t. advance (write_message k (t_message t)) 4)
      | InKYield \<Rightarrow> Inr k
      | InKRecv \<Rightarrow>
          bindr (task_at (k_sched k) (cur k)) (\<lambda>t. Inr (k\<lparr>k_ret := (k_ret k)(cur k := t_message t)\<rparr>))
      | InKCall \<Rightarrow>
          bindr (task_at (k_sched k) (cur k)) (\<lambda>t. Inr (k\<lparr>k_ret := (k_ret k)(cur k := t_message t)\<rparr>)))"

definition switch_to :: "'r kernel \<Rightarrow> cont \<Rightarrow> sched \<Rightarrow> usize \<Rightarrow> 'r kernel result" where
  "switch_to k c s satp =
     resume (k\<lparr>k_sched := s, k_cont := (k_cont k)(cur k := c), k_satp := satp\<rparr>)"

definition yield_now :: "'r kernel \<Rightarrow> cont \<Rightarrow> 'r kernel result" where
  "yield_now k c =
     bindr (sched_with k yield_step) (\<lambda>r. case r of
       None \<Rightarrow> Inr k
     | Some (s, satp) \<Rightarrow> switch_to k c s satp)"

definition park_current :: "'r kernel \<Rightarrow> task_state \<Rightarrow> cont \<Rightarrow> 'r kernel result" where
  "park_current k st c = bindr (sched_with k (\<lambda>s. park_step s st)) (\<lambda>(s, satp). switch_to k c s satp)"

text \<open>A kernel task calls \<open>park_current\<close> with interrupts on. After the closure the successor is already
  current, but its address space is not loaded and the processor is still on the parking task's
  stack: this is the state in which an interrupt before the switch finds the kernel.\<close>

definition park_window :: "'r kernel \<Rightarrow> task_state \<Rightarrow> 'r kernel result" where
  "park_window k st = bindr (sched_with k (\<lambda>s. park_step s st)) (\<lambda>(s, satp). Inr (k\<lparr>k_sched := s\<rparr>))"

text \<open>The end of a task is also reported on the console; \<open>k_exits\<close> is the list of those reports.\<close>

definition exit_current :: "'r kernel \<Rightarrow> exit_reason \<Rightarrow> 'r kernel result" where
  "exit_current k reason =
     bindr (sched_with k (\<lambda>s. exit_step s (k_heal k) reason)) (\<lambda>(s, h, satp).
     resume (k\<lparr>k_sched := s, k_heal := h, k_satp := satp, k_exits := k_exits k @ [(cur k, reason)]\<rparr>))"

section \<open>IPC handlers\<close>

definition block_current :: "'r kernel \<Rightarrow> nat \<Rightarrow> ipc_role \<Rightarrow> cont \<Rightarrow> ('r kernel \<times> outcome) result" where
  "block_current k ep role c = bindr (park_current k (Blocked ep role) c) (\<lambda>k1. Inr (k1, Switched))"

definition request :: "'r kernel \<Rightarrow> message" where
  "request k = \<lparr>badge = reg k 10, data = (reg k 11, reg k 12, reg k 13)\<rparr>"

definition ipc_recv :: "'r kernel \<Rightarrow> ('r kernel \<times> outcome) result" where
  "ipc_recv k =
     (let reply_slot = reg k 10
      in bindr (sched_with k (\<lambda>s. recv_step s (reg k 9) reply_slot)) (\<lambda>(s, step).
         let k1 = k\<lparr>k_sched := s\<rparr>
         in case step of
              RecvBadCap \<Rightarrow> Inr (set_reg k1 9 usize_max, Resume)
            | RecvGot msg \<Rightarrow> Inr (write_message k1 msg, Resume)
            | RecvBlock ep \<Rightarrow> block_current k1 ep RoleRecv (InRecv reply_slot)))"

definition finish_send :: "'r kernel \<Rightarrow> send_outcome \<Rightarrow> ('r kernel \<times> outcome) result" where
  "finish_send k step =
     (case step of
        SendBadCap \<Rightarrow> Inr (set_reg k 9 usize_max, Resume)
      | Delivered \<Rightarrow> Inr (set_reg k 9 0, Resume)
      | SendBlock ep \<Rightarrow> block_current k ep RoleSend InSend)"

definition ipc_send :: "'r kernel \<Rightarrow> ('r kernel \<times> outcome) result" where
  "ipc_send k =
     bindr (sched_with k (\<lambda>s. send_step s (reg k 9) (request k))) (\<lambda>(s, step).
     finish_send (k\<lparr>k_sched := s\<rparr>) step)"

definition ipc_grant :: "'r kernel \<Rightarrow> ('r kernel \<times> outcome) result" where
  "ipc_grant k =
     bindr (sched_with k (\<lambda>s. grant_step s (reg k 9) (reg k 10) (reg k 11))) (\<lambda>(s, step).
     finish_send (k\<lparr>k_sched := s\<rparr>) step)"

definition ipc_call :: "'r kernel \<Rightarrow> ('r kernel \<times> outcome) result" where
  "ipc_call k =
     bindr (sched_with k (\<lambda>s. call_step s (reg k 9) (request k))) (\<lambda>(s, step).
     let k1 = k\<lparr>k_sched := s\<rparr>
     in case step of
          CallBadCap \<Rightarrow> Inr (set_reg k1 9 usize_max, Resume)
        | AwaitReply \<Rightarrow> bindr (park_current k1 AwaitingReply InCall) (\<lambda>k2. Inr (k2, Switched))
        | CallQueue ep \<Rightarrow> block_current k1 ep RoleCall InCall)"

definition ipc_reply :: "'r kernel \<Rightarrow> ('r kernel \<times> outcome) result" where
  "ipc_reply k =
     bindr (sched_with k (\<lambda>s. reply_step s (reg k 9) (request k))) (\<lambda>(s, ok).
     Inr (set_reg (k\<lparr>k_sched := s\<rparr>) 9 (if ok then 0 else usize_max), Resume))"

definition ipc_revoke :: "'r kernel \<Rightarrow> ('r kernel \<times> outcome) result" where
  "ipc_revoke k =
     bindr (sched_with k (\<lambda>s. revoke_step s (reg k 9))) (\<lambda>(s, n).
     Inr (set_reg (k\<lparr>k_sched := s\<rparr>) 9 (case n of None \<Rightarrow> usize_max | Some m \<Rightarrow> word_of_nat m), Resume))"

section \<open>Service handlers\<close>

text \<open>A restart replaces the target's saved context, so the target starts afresh.\<close>

definition restart :: "'r kenv \<Rightarrow> 'r kernel \<Rightarrow> ('r kernel \<times> outcome) result" where
  "restart e k =
     bindr (sched_with k (\<lambda>s. restart_step (e_user_trampoline e) (e_sstatus e) s (reg k 9))) (\<lambda>(s, r).
     case r of
       None \<Rightarrow> Inr (set_reg (k\<lparr>k_sched := s\<rparr>) 9 usize_max, Resume)
     | Some target \<Rightarrow>
         Inr (set_reg (k\<lparr>k_sched := s, k_cont := (k_cont k)(target := Fresh)\<rparr>) 9 0, Resume))"

definition SESSION_CAP :: nat where
  "SESSION_CAP = 0"

definition seal :: "'r kenv \<Rightarrow> 'r kernel \<Rightarrow> ('r kernel \<times> outcome) result" where
  "seal e k =
     bindr (sched_with k (\<lambda>s. task_at s (s_current s))) (\<lambda>t.
     if \<not> has_session (t_caps t) SESSION_CAP then Inr (set_reg k 9 usize_max, Resume)
     else
       bindr (seal_word (e_aead e) (k_chan k) (le_bytes 8 (reg k 9))) (\<lambda>(ch, ct, tag, nonce).
       let k0 = k\<lparr>k_chan := ch\<rparr>;
           k1 = set_reg k0 9 0;
           k2 = set_reg k1 10 (le_word ct);
           k3 = set_reg k2 11 (le_word (take 8 tag));
           k4 = set_reg k3 12 (le_word (drop 8 tag))
       in Inr (set_reg k4 13 nonce, Resume)))"

definition open_sealed :: "'r kenv \<Rightarrow> 'r kernel \<Rightarrow> ('r kernel \<times> outcome) result" where
  "open_sealed e k =
     bindr (sched_with k (\<lambda>s. task_at s (s_current s))) (\<lambda>t.
     if \<not> has_session (t_caps t) SESSION_CAP then Inr (set_reg k 9 usize_max, Resume)
     else
       let ct = le_bytes 8 (reg k 9);
           tag = le_bytes 8 (reg k 10) @ le_bytes 8 (reg k 11);
           nonce = reg k 12
       in case open_word (e_aead e) (k_chan k) ct tag nonce of
            Some plain \<Rightarrow> Inr (set_reg (set_reg k 9 0) 10 (le_word plain), Resume)
          | None \<Rightarrow> Inr (set_reg k 9 usize_max, Resume))"

definition word_at :: "bytes \<Rightarrow> nat \<Rightarrow> usize" where
  "word_at bs i = le_word (take 8 (drop i bs))"

definition getrandom :: "'r kenv \<Rightarrow> 'r kernel \<Rightarrow> ('r kernel \<times> outcome) result" where
  "getrandom e k =
     bindr (sched_with k (\<lambda>s. task_at s (s_current s))) (\<lambda>t.
     if \<not> has_randomness (t_caps t) (unat (reg k 9)) then Inr (set_reg k 9 usize_max, Resume)
     else
       bindr (pool_with k (next_seed (e_rng e))) (\<lambda>(pool, bs).
       let k1 = set_reg (k\<lparr>k_pool := pool\<rparr>) 9 0;
           k2 = set_reg k1 10 (word_at bs 0);
           k3 = set_reg k2 11 (word_at bs 8);
           k4 = set_reg k3 12 (word_at bs 16)
       in Inr (set_reg k4 13 (word_at bs 24), Resume)))"

definition wait_irq :: "'r kernel \<Rightarrow> ('r kernel \<times> outcome) result" where
  "wait_irq k =
     bindr (sched_with k (\<lambda>s. wait_irq_step s (reg k 9))) (\<lambda>irq.
     case irq of
       None \<Rightarrow> Inr (set_reg k 9 usize_max, Resume)
     | Some q \<Rightarrow>
         bindr (park_current (k\<lparr>k_in_service := removeAll q (k_in_service k)\<rparr>) (WaitingIrq q) InSend)
           (\<lambda>k1. Inr (k1, Switched)))"

section \<open>Dispatch and traps\<close>

definition dispatch :: "'r kenv \<Rightarrow> 'r kernel \<Rightarrow> ('r kernel \<times> outcome) result" where
  "dispatch e k =
     (case decode_syscall (reg k 16) of
        SysPrint \<Rightarrow>
          bindr (sys_print e k (reg k 9) (reg k 10)) (\<lambda>(k1, written). Inr (set_reg k1 9 written, Resume))
      | SysExit \<Rightarrow> Inr (k, Exit (reg k 9))
      | SysYield \<Rightarrow> Inr (k, Yield)
      | SysSend \<Rightarrow> ipc_send k
      | SysRecv \<Rightarrow> ipc_recv k
      | SysRestart \<Rightarrow> restart e k
      | SysCall \<Rightarrow> ipc_call k
      | SysReply \<Rightarrow> ipc_reply k
      | SysGetrandom \<Rightarrow> getrandom e k
      | SysWaitIrq \<Rightarrow> wait_irq k
      | SysGrant \<Rightarrow> ipc_grant k
      | SysRevoke \<Rightarrow> ipc_revoke k
      | SysSeal \<Rightarrow> seal e k
      | SysOpen \<Rightarrow> open_sealed e k
      | SysUnknown n \<Rightarrow> Inr (set_reg k 9 usize_max, Resume))"

definition user_ecall :: "'r kenv \<Rightarrow> 'r kernel \<Rightarrow> 'r kernel result" where
  "user_ecall e k =
     bindr (dispatch e k) (\<lambda>(k1, outcome).
     case outcome of
       Resume \<Rightarrow> advance k1 4
     | Yield \<Rightarrow> bindr (advance k1 4) (\<lambda>k2. yield_now k2 InTrap)
     | Exit code \<Rightarrow> exit_current k1 (ExitedWith code)
     | Switched \<Rightarrow> Inr k1)"

text \<open>
  Skipping an instruction reads its first parcel with an S-mode load; when that load faults,
  the nested trap is an S-mode load page fault, which is fatal.
\<close>

definition skip_instruction :: "'r kenv \<Rightarrow> 'r kernel \<Rightarrow> 'r kernel result" where
  "skip_instruction e k =
     (case e_parcel e (sepc (frame k)) of
        None \<Rightarrow> Inl (Panicked ''load page fault'')
      | Some parcel \<Rightarrow> advance k (instruction_len parcel))"

definition external_irq :: "'r kernel \<Rightarrow> u32 \<Rightarrow> 'r kernel result" where
  "external_irq k irq =
     (if irq \<noteq> 0 then
        bindr (sched_with k (\<lambda>s. wake_irq s irq)) (\<lambda>(s, _).
        Inr (k\<lparr>k_sched := s, k_in_service := irq # k_in_service k\<rparr>))
      else Inr k)"

text \<open>
  \<open>f\<close> is the frame the entry assembly saved for the interrupted task; \<open>irq\<close> is what the
  interrupt controller's claim register answers.
\<close>

definition trap_handler :: "'r kenv \<Rightarrow> u32 \<Rightarrow> 'r kernel \<Rightarrow> trap_frame \<Rightarrow> 'r kernel result" where
  "trap_handler e irq k0 f =
     (let k = put_frame k0 f; c = decode (scause f)
      in case c of
           Breakpoint \<Rightarrow> skip_instruction e k
         | SupervisorTimer \<Rightarrow> yield_now k InTrap
         | SupervisorExternal \<Rightarrow> external_irq k irq
         | UserEcall \<Rightarrow> user_ecall e k
         | InstructionPageFault \<Rightarrow>
             if from_user f then exit_current k (Killed c) else Inl (Panicked ''instruction page fault'')
         | LoadPageFault \<Rightarrow>
             if from_user f then exit_current k (Killed c) else Inl (Panicked ''load page fault'')
         | IllegalInstruction \<Rightarrow>
             if from_user f then exit_current k (Killed c) else Inl (Panicked ''illegal instruction'')
         | StorePageFault \<Rightarrow>
             if from_user f then exit_current k (Killed StorePageFault)
             else if k_expecting_wx k then skip_instruction e (k\<lparr>k_expecting_wx := False\<rparr>)
             else Inl (Panicked ''store page fault'')
         | UnknownCause interrupt code \<Rightarrow> Inl (Panicked ''unknown''))"

section \<open>Calls of kernel tasks\<close>

definition kernel_yield :: "'r kernel \<Rightarrow> 'r kernel result" where
  "kernel_yield k = yield_now k InKYield"

text \<open>A blocking call of a kernel task is two entries of the run queue, with interrupts on before, between and
  inside them: a closure that attempts the rendezvous, and \<open>park_current\<close>. The calls are the
  composition of the two; that the parts can be separated by interrupts is in the step relations that use
  them (\<open>reachable\<close> in the theory \<open>Kernel_Safety\<close>, \<open>machine_step\<close> in \<open>Programs\<close>).\<close>

definition recv_attempt :: "'r kernel \<Rightarrow> usize \<Rightarrow> ('r kernel \<times> recv_outcome) result" where
  "recv_attempt k cap_idx =
     bindr (sched_with k (\<lambda>s. recv_message_step s cap_idx)) (\<lambda>(s, step). Inr (k\<lparr>k_sched := s\<rparr>, step))"

definition recv_finish :: "'r kernel \<Rightarrow> recv_outcome \<Rightarrow> 'r kernel result" where
  "recv_finish k step =
     (case step of
        RecvGot msg \<Rightarrow> Inr (k\<lparr>k_ret := (k_ret k)(cur k := msg)\<rparr>)
      | RecvBlock ep \<Rightarrow> park_current k (Blocked ep RoleRecv) InKRecv
      | RecvBadCap \<Rightarrow> Inr k)"

definition recv_message :: "'r kernel \<Rightarrow> usize \<Rightarrow> 'r kernel result" where
  "recv_message k cap_idx = bindr (recv_attempt k cap_idx) (\<lambda>(k1, step). recv_finish k1 step)"

definition call_attempt :: "'r kernel \<Rightarrow> usize \<Rightarrow> usize \<Rightarrow> ('r kernel \<times> call_outcome) result" where
  "call_attempt k cap_idx b =
     bindr (sched_with k (\<lambda>s. call_message_step s cap_idx b)) (\<lambda>(s, step). Inr (k\<lparr>k_sched := s\<rparr>, step))"

definition call_finish :: "'r kernel \<Rightarrow> call_outcome \<Rightarrow> 'r kernel result" where
  "call_finish k step =
     (case step of
        AwaitReply \<Rightarrow> park_current k AwaitingReply InKCall
      | CallQueue ep \<Rightarrow> park_current k (Blocked ep RoleCall) InKCall
      | CallBadCap \<Rightarrow> Inr k)"

definition call_message :: "'r kernel \<Rightarrow> usize \<Rightarrow> usize \<Rightarrow> 'r kernel result" where
  "call_message k cap_idx b = bindr (call_attempt k cap_idx b) (\<lambda>(k1, step). call_finish k1 step)"

text \<open>Start scheduling: \<^verbatim>\<open>enter\<close> switches to slot 0.\<close>

definition enter :: "'r kernel \<Rightarrow> 'r kernel result" where
  "enter k = bindr (sched_with k enter_step) (\<lambda>(s, satp). resume (k\<lparr>k_sched := s, k_satp := satp\<rparr>))"

text \<open>The registers \<^verbatim>\<open>user_trampoline\<close> loads when a fresh U-mode task is switched to.\<close>

record launch =
  l_sscratch :: usize
  l_sepc :: usize
  l_sstatus :: usize
  l_sp :: usize
  l_args :: "usize \<times> usize \<times> usize"

definition user_trampoline :: "ctxt \<Rightarrow> launch" where
  "user_trampoline c =
     \<lparr>l_sscratch = sp c, l_sepc = sregs c ! 0, l_sstatus = sregs c ! 2, l_sp = sregs c ! 1,
      l_args = (sregs c ! 3, sregs c ! 4, sregs c ! 5)\<rparr>"

end
