(* ===== verification/Kernel_Safety.thy ===== *)
theory Kernel_Safety
  imports Kernel
begin

text \<open>
  The kernel invariant and its preservation: under \<open>kernel_wf\<close> a trap panics exactly when it
  is \<open>fatal\<close>, a call of a kernel task that holds its endpoint does not panic, the run queue stays well formed, and the authority in the
  system does not grow except for reply rights of tasks that are in a call.
\<close>

section \<open>The invariant\<close>

definition fits :: "trap_frame \<Rightarrow> bool" where
  "fits f \<longleftrightarrow> unat (sepc f) + 4 < 2 ^ 64"

fun advances :: "cont \<Rightarrow> bool" where
  "advances (InRecv _) = True"
| "advances InSend = True"
| "advances InCall = True"
| "advances _ = False"

definition frames_ok :: "'r kernel \<Rightarrow> bool" where
  "frames_ok k \<longleftrightarrow>
     (\<forall>i. length (regs (k_frames k i)) = 31 \<and> (advances (k_cont k i) \<longrightarrow> fits (k_frames k i)))"

definition kernel_wf :: "nat set \<Rightarrow> nat \<Rightarrow> 'r kernel \<Rightarrow> bool" where
  "kernel_wf R d k \<longleftrightarrow>
     sched_wf R (k_sched k) \<and> run_ok d (k_sched k) \<and> heal_wf (k_heal k) \<and> frames_ok k \<and>
     d \<notin> R \<and> \<not> advances (k_cont k (cur k)) \<and> \<not> k_sched_in_use k"

text \<open>Between a switch and the end of \<open>resume\<close> the current task's continuation is still pending.\<close>

definition kernel_pre :: "nat set \<Rightarrow> nat \<Rightarrow> 'r kernel \<Rightarrow> bool" where
  "kernel_pre R d k \<longleftrightarrow>
     sched_wf R (k_sched k) \<and> run_ok d (k_sched k) \<and> heal_wf (k_heal k) \<and> frames_ok k \<and> d \<notin> R \<and>
     \<not> k_sched_in_use k"

definition confined :: "capability set \<Rightarrow> 'r kernel \<Rightarrow> 'r kernel \<Rightarrow> bool" where
  "confined A k k' \<longleftrightarrow> (\<forall>i. auth (k_sched k') i \<subseteq> (\<Union>j. auth (k_sched k) j) \<union> A)"

lemma confined_refl [simp]: "k_sched k' = k_sched k \<Longrightarrow> confined A k k'"
  by (auto simp: confined_def)

lemma confined_auth: "auth (k_sched k1) = auth (k_sched k) \<Longrightarrow> confined A k1 k' = confined A k k'"
  by (simp add: confined_def)

lemma confined_trans: "confined A k k' \<Longrightarrow> confined {} k' k'' \<Longrightarrow> confined A k k''"
  by (auto simp: confined_def) blast

lemma confined_step: "step_ok R d A (k_sched k) (k_sched k') \<Longrightarrow> confined A k k'"
  by (simp add: confined_def step_ok_def)

section \<open>Frames\<close>

lemma put_frame_simps [simp]:
  "k_sched (put_frame k f) = k_sched k" "k_heal (put_frame k f) = k_heal k"
  "k_cont (put_frame k f) = k_cont k" "k_chan (put_frame k f) = k_chan k"
  "k_pool (put_frame k f) = k_pool k" "k_ret (put_frame k f) = k_ret k"
  "k_in_service (put_frame k f) = k_in_service k" "k_output (put_frame k f) = k_output k"
  "k_expecting_wx (put_frame k f) = k_expecting_wx k" "k_sched_in_use (put_frame k f) = k_sched_in_use k"
  "k_pool_in_use (put_frame k f) = k_pool_in_use k" "k_exits (put_frame k f) = k_exits k"
  "frame (put_frame k f) = f" "put_frame (put_frame k f) g = put_frame k g"
  by (simp_all add: put_frame_def frame_def)

lemma set_reg_simps [simp]:
  "k_sched (set_reg k i v) = k_sched k" "k_heal (set_reg k i v) = k_heal k"
  "k_cont (set_reg k i v) = k_cont k" "k_chan (set_reg k i v) = k_chan k"
  "k_pool (set_reg k i v) = k_pool k" "k_ret (set_reg k i v) = k_ret k"
  "k_in_service (set_reg k i v) = k_in_service k" "k_output (set_reg k i v) = k_output k"
  "k_sched_in_use (set_reg k i v) = k_sched_in_use k" "k_pool_in_use (set_reg k i v) = k_pool_in_use k"
  "k_exits (set_reg k i v) = k_exits k"
  "frame (set_reg k i v) = (frame k)\<lparr>regs := (regs (frame k))[i := v]\<rparr>"
  by (simp_all add: set_reg_def)

lemma k_frames_put: "k_frames (put_frame k f) i = (if i = cur k then f else k_frames k i)"
  by (simp add: put_frame_def)

lemma frames_ok_put:
  "frames_ok k \<Longrightarrow> length (regs f) = 31 \<Longrightarrow> (advances (k_cont k (cur k)) \<Longrightarrow> fits f) \<Longrightarrow> frames_ok (put_frame k f)"
  by (auto simp: frames_ok_def k_frames_put)

lemma frames_ok_frame: "frames_ok k \<Longrightarrow> length (regs (frame k)) = 31"
  by (simp add: frames_ok_def frame_def)

lemma frames_ok_set_reg: "frames_ok k \<Longrightarrow> frames_ok (set_reg k i v)"
  unfolding set_reg_def
  by (rule frames_ok_put) (auto simp: frames_ok_def frame_def fits_def)

lemma kernel_wf_set_reg: "kernel_wf R d k \<Longrightarrow> kernel_wf R d (set_reg k i v)"
  by (simp add: kernel_wf_def frames_ok_set_reg)

lemma write_message_sets:
  "write_message k msg = set_reg (set_reg (set_reg (set_reg k 9 (badge msg)) 10 (fst (data msg)))
     11 (fst (snd (data msg)))) 12 (snd (snd (data msg)))"
  by (simp add: write_message_def split_def)

lemma write_message_simps [simp]:
  "k_sched (write_message k m) = k_sched k" "k_cont (write_message k m) = k_cont k"
  "sepc (frame (write_message k m)) = sepc (frame k)" "k_sched_in_use (write_message k m) = k_sched_in_use k"
  by (simp_all add: write_message_sets)

lemma kernel_wf_write_message: "kernel_wf R d k \<Longrightarrow> kernel_wf R d (write_message k m)"
  by (simp add: write_message_sets kernel_wf_set_reg)

lemma advance_ok:
  assumes "kernel_wf R d k" "unat (sepc (frame k)) + unat n < 2 ^ 64"
  shows "holds (advance k n) (\<lambda>k'. kernel_wf R d k' \<and> k_sched k' = k_sched k)"
proof -
  have "frames_ok (put_frame k f)" if "length (regs f) = 31" for f
    using assms(1) that by (intro frames_ok_put) (auto simp: kernel_wf_def)
  then show ?thesis
    using assms by (auto simp: advance_def wp kernel_wf_def frames_ok_frame)
qed

lemma kernel_wf_sched:
  assumes "kernel_wf R d k" "step_ok R d A (k_sched k) s"
  shows "kernel_wf R d (k\<lparr>k_sched := s\<rparr>)"
  using assms by (auto simp: kernel_wf_def step_ok_def frames_ok_def)

lemma frame_sched [simp]: "s_current s = cur k \<Longrightarrow> frame (k\<lparr>k_sched := s\<rparr>) = frame k"
  by (simp add: frame_def)

lemma kernel_wf_cell [dest]: "kernel_wf R d k \<Longrightarrow> \<not> k_sched_in_use k" "kernel_pre R d k \<Longrightarrow> \<not> k_sched_in_use k"
  by (simp_all add: kernel_wf_def kernel_pre_def)

section \<open>Switching\<close>

lemma kernel_wf_consume:
  "kernel_pre R d k \<Longrightarrow> kernel_wf R d (k\<lparr>k_cont := (k_cont k)(cur k := NoCont)\<rparr>)"
  by (auto simp: kernel_pre_def kernel_wf_def frames_ok_def)

lemma resume_ok:
  assumes pre: "kernel_pre R d k"
  shows "holds (resume k) (\<lambda>k'. kernel_wf R d k' \<and> confined {} k k')"
proof -
  let ?k = "k\<lparr>k_cont := (k_cont k)(cur k := NoCont)\<rparr>"
  have wf: "kernel_wf R d ?k" using pre by (rule kernel_wf_consume)
  have s: "sched_wf R (k_sched k)" "run_ok d (k_sched k)" using pre by (auto simp: kernel_pre_def)
  obtain t where t: "slot_of (k_sched k) (cur k) = Some t" using sched_wf_current [OF s(1)] by auto
  have fr [simp]: "frame ?k = frame k" by (simp add: frame_def)
  have adv: "holds (advance k1 4) (\<lambda>k'. kernel_wf R d k' \<and> confined {} k k')"
    if "kernel_wf R d k1" "advances (k_cont k (cur k))" "sepc (frame k1) = sepc (frame k)"
      "step_ok R d {} (k_sched k) (k_sched k1)" for k1
  proof -
    have "unat (sepc (frame k1)) + unat (4 :: usize) < 2 ^ 64"
      using pre that(2,3) by (auto simp: kernel_pre_def frames_ok_def fits_def frame_def)
    from advance_ok [OF that(1) this] show ?thesis
      by (rule holds_mono) (use that(4) in \<open>auto simp: confined_def step_ok_def\<close>)
  qed
  note refl = step_ok_refl [OF s]
  show ?thesis
  proof (cases "k_cont k (cur k)")
    case (InRecv rs)
    have "holds (recv_wake (k_sched ?k) rs) (\<lambda>(s', _). step_ok R d {} (k_sched k) s')"
      using recv_wake_ok [OF s] by simp
    then show ?thesis
      unfolding resume_def InRecv Let_def cont.case holds_bindr
    proof (rule holds_mono, clarify)
      fix s' msg assume s': "step_ok R d {} (k_sched k) s'"
      have "kernel_wf R d (?k\<lparr>k_sched := s'\<rparr>)" using kernel_wf_sched [OF wf] s' by simp
      moreover have "frame (?k\<lparr>k_sched := s'\<rparr>) = frame k" using s' by (simp add: frame_def step_ok_def)
      ultimately show "holds (advance (write_message (?k\<lparr>k_sched := s'\<rparr>) msg) 4)
          (\<lambda>k'. kernel_wf R d k' \<and> confined {} k k')"
        using s' InRecv by (intro adv kernel_wf_write_message) simp_all
    qed
  next
    case InSend
    then show ?thesis
      using adv [OF kernel_wf_set_reg [OF wf, of 9 0]] refl by (simp add: resume_def)
  next
    case InCall
    then show ?thesis
      using adv [OF kernel_wf_write_message [OF wf, of "t_message t"]] refl t by (simp add: resume_def wp)
  qed (use wf t in \<open>auto simp: resume_def wp kernel_wf_def frames_ok_def\<close>)
qed

lemma switch_to_ok:
  assumes wf: "kernel_wf R d k" and sw: "switched R d (k_sched k) s" and c: "advances c \<Longrightarrow> fits (frame k)"
  shows "holds (switch_to k c s satp) (\<lambda>k'. kernel_wf R d k' \<and> confined {} k k')"
proof -
  let ?k = "k\<lparr>k_sched := s, k_cont := (k_cont k)(cur k := c), k_satp := satp\<rparr>"
  have "kernel_pre R d ?k"
    using wf sw c by (auto simp: kernel_wf_def kernel_pre_def switched_def frames_ok_def frame_def)
  then have "holds (resume ?k) (\<lambda>k'. kernel_wf R d k' \<and> confined {} ?k k')" by (rule resume_ok)
  then show ?thesis
    unfolding switch_to_def
    using sw by (simp add: confined_auth [of ?k k] switched_def same_core_auth)
qed

lemma yield_now_ok:
  assumes wf: "kernel_wf R d k" and c: "\<not> advances c"
  shows "holds (yield_now k c) (\<lambda>k'. kernel_wf R d k' \<and> confined {} k k')"
proof -
  have "holds (yield_step (k_sched k)) (\<lambda>r. case r of None \<Rightarrow> pick_next (k_sched k) = cur k
     | Some (s', _) \<Rightarrow> switched R d (k_sched k) s' \<and> s_current s' = pick_next (k_sched k))"
    using wf by (intro yield_step_ok) (auto simp: kernel_wf_def)
  then show ?thesis
    unfolding yield_now_def sched_with_free [OF kernel_wf_cell(1) [OF wf]] holds_bindr
    by (rule holds_mono) (use wf c switch_to_ok [OF wf] in \<open>auto split: option.splits\<close>)
qed

lemma park_current_ok:
  assumes wf: "kernel_wf R d k" and cd: "cur k \<noteq> d" and st: "st \<noteq> Running" "st \<noteq> Ready"
    and c: "advances c \<Longrightarrow> fits (frame k)"
  shows "holds (park_current k st c) (\<lambda>k'. kernel_wf R d k' \<and> confined {} k k')"
proof -
  have "holds (park_step (k_sched k) st) (\<lambda>(s', _). switched R d (k_sched k) s')"
    using wf cd st by (intro park_step_ok) (auto simp: kernel_wf_def)
  then show ?thesis
    unfolding park_current_def sched_with_free [OF kernel_wf_cell(1) [OF wf]] holds_bindr
    by (rule holds_mono) (use switch_to_ok [OF wf _ c] in auto)
qed

lemma exit_current_ok:
  assumes wf: "kernel_wf R d k" and cd: "cur k \<noteq> d"
  shows "holds (exit_current k reason) (\<lambda>k'. kernel_wf R d k' \<and> confined {} k k')"
proof -
  have "holds (exit_step (k_sched k) (k_heal k) reason) (\<lambda>(s', hl', _). sched_wf R s' \<and> run_ok d s' \<and>
      heal_wf hl' \<and> auth s' = auth (k_sched k) \<and>
      (\<forall>i. slot_of s' i = None \<longleftrightarrow> slot_of (k_sched k) i = None) \<and> s_current s' \<noteq> cur k)"
    using wf cd by (intro exit_step_ok) (auto simp: kernel_wf_def)
  then show ?thesis
    unfolding exit_current_def sched_with_free [OF kernel_wf_cell(1) [OF wf]] holds_bindr
  proof (rule holds_mono, clarify)
    fix s h satp
    assume s: "sched_wf R s" "run_ok d s" "heal_wf h" "auth s = auth (k_sched k)"
    let ?k = "k\<lparr>k_sched := s, k_heal := h, k_satp := satp, k_exits := k_exits k @ [(cur k, reason)]\<rparr>"
    have "kernel_pre R d ?k" using wf s by (simp add: kernel_wf_def kernel_pre_def frames_ok_def)
    then have "holds (resume ?k) (\<lambda>k'. kernel_wf R d k' \<and> confined {} ?k k')" by (rule resume_ok)
    then show "holds (resume ?k) (\<lambda>k'. kernel_wf R d k' \<and> confined {} k k')"
      using s by (simp add: confined_auth [of ?k k])
  qed
qed

section \<open>System-call handlers\<close>

text \<open>What every handler guarantees: no panic, the invariant, confined authority, and, when it
  returns to its own task, that task still current and its program counter untouched.\<close>

definition handler_ok :: "nat set \<Rightarrow> nat \<Rightarrow> 'r kernel \<Rightarrow> ('r kernel \<times> outcome) result \<Rightarrow> bool" where
  "handler_ok R d k r \<longleftrightarrow> holds r (\<lambda>(k', out). kernel_wf R d k' \<and> confined (fresh (k_sched k)) k k' \<and>
     (out \<noteq> Switched \<longrightarrow> cur k' = cur k \<and> sepc (frame k') = sepc (frame k)))"

definition able :: "nat set \<Rightarrow> nat \<Rightarrow> 'r kernel \<Rightarrow> bool" where
  "able R d k \<longleftrightarrow> kernel_wf R d k \<and> cur k \<noteq> d \<and> fits (frame k)"

lemma handler_ok_resume:
  "kernel_wf R d k1 \<Longrightarrow> confined (fresh (k_sched k)) k k1 \<Longrightarrow> cur k1 = cur k \<Longrightarrow>
   sepc (frame k1) = sepc (frame k) \<Longrightarrow> handler_ok R d k (Inr (k1, out))"
  by (simp add: handler_ok_def)

lemma handler_ok_park:
  assumes "kernel_wf R d k1" "confined (fresh (k_sched k)) k k1" "cur k1 \<noteq> d" "fits (frame k1)"
    "st \<noteq> Running" "st \<noteq> Ready"
  shows "handler_ok R d k (bindr (park_current k1 st c) (\<lambda>k2. Inr (k2, Switched)))"
  unfolding handler_ok_def holds_bindr
  by (rule holds_mono [OF park_current_ok [OF assms(1,3,5,6)]])
    (use assms confined_trans [OF assms(2)] in auto)

lemma handler_ok_block:
  assumes "kernel_wf R d k1" "confined (fresh (k_sched k)) k k1" "cur k1 \<noteq> d" "fits (frame k1)"
  shows "handler_ok R d k (block_current k1 ep role c)"
  unfolding block_current_def using assms by (intro handler_ok_park) auto

text \<open>The state after a rendezvous step, ready for the rest of its handler.\<close>

lemma after_step:
  assumes "able R d k" "step_ok R d (fresh (k_sched k)) (k_sched k) s"
  shows "kernel_wf R d (k\<lparr>k_sched := s\<rparr>)" "confined (fresh (k_sched k)) k (k\<lparr>k_sched := s\<rparr>)"
    "s_current s = cur k" "s_current s \<noteq> d" "frame (k\<lparr>k_sched := s\<rparr>) = frame k" "fits (frame k)"
  using assms kernel_wf_sched [of R d k "fresh (k_sched k)" s]
  by (auto simp: able_def step_ok_def confined_def frame_def)

lemma confined_set_reg [simp]: "confined A k (set_reg k1 i v) = confined A k k1"
  by (simp add: confined_def)

lemma confined_write_message [simp]: "confined A k (write_message k1 m) = confined A k k1"
  by (simp add: confined_def)

lemmas handler_intros = handler_ok_resume handler_ok_block handler_ok_park
  kernel_wf_set_reg kernel_wf_write_message

lemma after_step_handlers:
  assumes "able R d k" "step_ok R d (fresh (k_sched k)) (k_sched k) s"
  shows "handler_ok R d k (Inr (set_reg (k\<lparr>k_sched := s\<rparr>) i v, Resume))"
    and "handler_ok R d k (Inr (write_message (k\<lparr>k_sched := s\<rparr>) m, Resume))"
    and "handler_ok R d k (block_current (k\<lparr>k_sched := s\<rparr>) ep role c)"
    and "st \<noteq> Running \<Longrightarrow> st \<noteq> Ready \<Longrightarrow>
      handler_ok R d k (bindr (park_current (k\<lparr>k_sched := s\<rparr>) st c) (\<lambda>k2. Inr (k2, Switched)))"
proof -
  note a = after_step [OF assms]
  show "handler_ok R d k (Inr (set_reg (k\<lparr>k_sched := s\<rparr>) i v, Resume))"
    and "handler_ok R d k (Inr (write_message (k\<lparr>k_sched := s\<rparr>) m, Resume))"
    using a by (auto intro!: handler_intros)
  show "handler_ok R d k (block_current (k\<lparr>k_sched := s\<rparr>) ep role c)"
    using a by (intro handler_ok_block) auto
  show "st \<noteq> Running \<Longrightarrow> st \<noteq> Ready \<Longrightarrow>
      handler_ok R d k (bindr (park_current (k\<lparr>k_sched := s\<rparr>) st c) (\<lambda>k2. Inr (k2, Switched)))"
    using a by (intro handler_ok_park) auto
qed

lemma able_sched: "able R d k \<Longrightarrow> sched_wf R (k_sched k)" "able R d k \<Longrightarrow> run_ok d (k_sched k)"
    "able R d k \<Longrightarrow> \<not> k_sched_in_use k"
  by (auto simp: able_def kernel_wf_def)

lemma handler_ok_bind:
  assumes "able R d k" "holds (g (k_sched k)) (\<lambda>(s, x). step_ok R d (fresh (k_sched k)) (k_sched k) s)"
    and "\<And>s x. step_ok R d (fresh (k_sched k)) (k_sched k) s \<Longrightarrow> handler_ok R d k (f (s, x))"
  shows "handler_ok R d k (bindr (sched_with k g) f)"
  unfolding handler_ok_def sched_with_free [OF able_sched(3) [OF assms(1)]] holds_bindr
  by (rule holds_mono [OF assms(2)]) (use assms(3) in \<open>auto simp: handler_ok_def\<close>)

lemma ipc_recv_ok: "able R d k \<Longrightarrow> handler_ok R d k (ipc_recv k)"
  unfolding ipc_recv_def Let_def
  by (rule handler_ok_bind, assumption, rule recv_step_ok)
    (auto simp: able_sched split: recv_outcome.splits intro!: after_step_handlers)

lemma finish_send_ok:
  "able R d k \<Longrightarrow> step_ok R d (fresh (k_sched k)) (k_sched k) s \<Longrightarrow>
   handler_ok R d k (finish_send (k\<lparr>k_sched := s\<rparr>) step)"
  by (auto simp: finish_send_def split: send_outcome.splits intro!: after_step_handlers)

lemma ipc_send_ok: "able R d k \<Longrightarrow> handler_ok R d k (ipc_send k)"
  unfolding ipc_send_def
  by (rule handler_ok_bind, assumption, rule send_step_ok) (auto simp: able_sched finish_send_ok)

lemma ipc_grant_ok: "able R d k \<Longrightarrow> handler_ok R d k (ipc_grant k)"
  unfolding ipc_grant_def
  by (rule handler_ok_bind, assumption, rule grant_step_ok) (auto simp: able_sched finish_send_ok)

lemma ipc_call_ok: "able R d k \<Longrightarrow> handler_ok R d k (ipc_call k)"
  unfolding ipc_call_def Let_def
  by (rule handler_ok_bind, assumption, rule call_step_ok)
    (auto simp: able_sched split: call_outcome.splits intro!: after_step_handlers)

lemma ipc_reply_ok: "able R d k \<Longrightarrow> handler_ok R d k (ipc_reply k)"
  unfolding ipc_reply_def
  by (rule handler_ok_bind, assumption, rule reply_step_ok)
    (auto simp: able_sched intro!: after_step_handlers)

lemma ipc_revoke_ok: "able R d k \<Longrightarrow> handler_ok R d k (ipc_revoke k)"
  unfolding ipc_revoke_def
  by (rule handler_ok_bind, assumption, rule revoke_step_ok)
    (auto simp: able_sched intro!: after_step_handlers)

lemma restart_fresh_ok:
  assumes "able R d k" "step_ok R d (fresh (k_sched k)) (k_sched k) s"
  shows "handler_ok R d k (Inr (set_reg (k\<lparr>k_sched := s, k_cont := (k_cont k)(i := Fresh)\<rparr>) 9 0, Resume))"
proof -
  let ?k = "k\<lparr>k_sched := s, k_cont := (k_cont k)(i := Fresh)\<rparr>"
  have "kernel_wf R d ?k"
    using after_step(1) [OF assms] by (auto simp: kernel_wf_def frames_ok_def)
  moreover have "confined (fresh (k_sched k)) k ?k" "frame ?k = frame k"
    using after_step(2,3) [OF assms] by (auto simp: confined_def frame_def)
  ultimately show ?thesis using after_step(3) [OF assms] by (auto intro!: handler_intros)
qed

lemma restart_ok: "able R d k \<Longrightarrow> handler_ok R d k (restart e k)"
  unfolding restart_def
  by (rule handler_ok_bind, assumption, rule restart_step_ok)
    (auto simp: able_sched split: option.splits intro!: restart_fresh_ok after_step_handlers)

text \<open>The handlers that touch only the registers and the kernel's services.\<close>

lemma able_current:
  assumes "able R d k"
  obtains t where "slot_of (k_sched k) (cur k) = Some t"
  using sched_wf_current [OF able_sched(1) [OF assms]] by auto

lemma kernel_wf_services [simp]:
  "kernel_wf R d (k\<lparr>k_chan := ch\<rparr>) = kernel_wf R d k" "kernel_wf R d (k\<lparr>k_pool := p\<rparr>) = kernel_wf R d k"
  "kernel_wf R d (k\<lparr>k_output := ou\<rparr>) = kernel_wf R d k" "kernel_wf R d (k\<lparr>k_in_service := q\<rparr>) = kernel_wf R d k"
  "kernel_wf R d (k\<lparr>k_pool_in_use := u\<rparr>) = kernel_wf R d k"
  by (simp_all add: kernel_wf_def frames_ok_def)

lemma frame_services [simp]:
  "frame (k\<lparr>k_chan := ch\<rparr>) = frame k" "frame (k\<lparr>k_pool := p\<rparr>) = frame k"
  "frame (k\<lparr>k_output := ou\<rparr>) = frame k" "frame (k\<lparr>k_in_service := q\<rparr>) = frame k"
  by (simp_all add: frame_def)

text \<open>What the running task's CSpace permits.\<close>

definition held :: "'r kernel \<Rightarrow> (cspace \<Rightarrow> bool) \<Rightarrow> bool" where
  "held k P = (case slot_of (k_sched k) (cur k) of None \<Rightarrow> False | Some t \<Rightarrow> P (t_caps t))"

lemma seal_ok:
  assumes "able R d k" "held k (\<lambda>cs. has_session cs SESSION_CAP) \<Longrightarrow> unat (nonce_ctr (k_chan k)) + 1 < 2 ^ 64"
  shows "handler_ok R d k (seal e k)"
proof -
  obtain t where t: "slot_of (k_sched k) (cur k) = Some t" using assms(1) by (rule able_current)
  have wf: "kernel_wf R d k" using assms(1) by (simp add: able_def)
  show ?thesis
    using t wf assms(2)
    by (auto simp: held_def seal_def seal_word_def handler_ok_def able_sched(3) [OF assms(1)] wp Let_def split_def kernel_wf_set_reg)
qed

lemma open_sealed_ok:
  assumes "able R d k"
  shows "handler_ok R d k (open_sealed e k)"
proof -
  obtain t where t: "slot_of (k_sched k) (cur k) = Some t" using assms(1) by (rule able_current)
  have wf: "kernel_wf R d k" using assms(1) by (simp add: able_def)
  show ?thesis
    using t wf
    by (auto simp: open_sealed_def handler_ok_def able_sched(3) [OF assms] wp Let_def kernel_wf_set_reg split: option.splits)
qed

lemma getrandom_ok:
  assumes "able R d k" "held k (\<lambda>cs. has_randomness cs (unat (reg k 9))) \<Longrightarrow> \<not> k_pool_in_use k"
  shows "handler_ok R d k (getrandom e k)"
proof -
  obtain t where t: "slot_of (k_sched k) (cur k) = Some t" using assms(1) by (rule able_current)
  have wf: "kernel_wf R d k" using assms(1) by (simp add: able_def)
  show ?thesis
    using t wf assms(2)
    by (auto simp: held_def getrandom_def handler_ok_def able_sched(3) [OF assms(1)] pool_with_def wp Let_def split_def kernel_wf_set_reg)
qed

lemma wait_irq_ok:
  assumes "able R d k"
  shows "handler_ok R d k (wait_irq k)"
proof -
  obtain t where t: "slot_of (k_sched k) (cur k) = Some t" using assms(1) by (rule able_current)
  have wf: "kernel_wf R d k" "cur k \<noteq> d" "fits (frame k)" using assms(1) by (auto simp: able_def)
  have "handler_ok R d k (bindr (park_current (k\<lparr>k_in_service := q\<rparr>) (WaitingIrq w) InSend) (\<lambda>k1. Inr (k1, Switched)))" for q w
    using wf by (intro handler_ok_park) auto
  then show ?thesis
    using t wf by (auto simp: wait_irq_def wait_irq_step_def handler_ok_def able_sched(3) [OF assms] wp kernel_wf_set_reg split: option.splits)
qed

text \<open>A \<^verbatim>\<open>print\<close> that passes the guard but reads a byte that is not mapped in the caller's address
  space.\<close>

definition print_faults :: "'r kenv \<Rightarrow> usize \<Rightarrow> usize \<Rightarrow> bool" where
  "print_faults e ptr len \<longleftrightarrow>
     validate_user_buffer (e_user_lo e) (e_user_hi e) ptr len \<and> list_ex (\<lambda>a. e_mem e a = None) (print_reads ptr len)"

lemma read_user_mapped: "\<forall>a\<in>set as. mem a \<noteq> None \<Longrightarrow> read_user mem as = Inr (map (\<lambda>a. the (mem a)) as)"
  by (induction as) (auto simp: expectr_def)

lemma read_user_unmapped: "a \<in> set as \<Longrightarrow> mem a = None \<Longrightarrow> read_user mem as = Inl (Panicked ''load page fault'')"
  by (induction as) (auto simp: expectr_def split: option.splits)

lemma sys_print_cases:
  "print_faults e p n \<Longrightarrow> sys_print e k p n = Inl (Panicked ''load page fault'')"
  "\<not> print_faults e p n \<Longrightarrow> \<exists>out w. sys_print e k p n = Inr (k\<lparr>k_output := out\<rparr>, w)"
proof -
  show "print_faults e p n \<Longrightarrow> sys_print e k p n = Inl (Panicked ''load page fault'')"
    using read_user_unmapped by (fastforce simp: print_faults_def sys_print_def list_ex_iff)
  assume "\<not> print_faults e p n"
  then have "sys_print e k p n = Inr (k\<lparr>k_output := k_output k\<rparr>, usize_max) \<or>
      (\<exists>out. sys_print e k p n = Inr (k\<lparr>k_output := out\<rparr>, min n PRINT_MAX))"
    by (auto simp: print_faults_def sys_print_def list_ex_iff read_user_mapped)
  then show "\<exists>out w. sys_print e k p n = Inr (k\<lparr>k_output := out\<rparr>, w)" by blast
qed

text \<open>The system calls that stop the kernel: a print that faults, a seal by a task with the session capability when
  the nonce counter is at its end, and a draw by a task with the randomness capability while a kernel task is inside
  the pool.\<close>

definition fatal_call :: "'r kenv \<Rightarrow> 'r kernel \<Rightarrow> usize list \<Rightarrow> bool" where
  "fatal_call e k rs =
     (case decode_syscall (rs ! 16) of
        SysPrint \<Rightarrow> print_faults e (rs ! 9) (rs ! 10)
      | SysSeal \<Rightarrow> held k (\<lambda>cs. has_session cs SESSION_CAP) \<and> \<not> unat (nonce_ctr (k_chan k)) + 1 < 2 ^ 64
      | SysGetrandom \<Rightarrow> held k (\<lambda>cs. has_randomness cs (unat (rs ! 9))) \<and> k_pool_in_use k
      | _ \<Rightarrow> False)"

lemma dispatch_ok:
  assumes "able R d k" "\<not> fatal_call e k (regs (frame k))"
  shows "handler_ok R d k (dispatch e k)"
proof -
  have wf: "kernel_wf R d k" using assms(1) by (simp add: able_def)
  have pr: "handler_ok R d k (bindr (sys_print e k p n) (\<lambda>(k1, written). Inr (set_reg k1 9 written, Resume)))"
    if "\<not> print_faults e p n" for p n
    using sys_print_cases(2) [OF that, of k] wf by (auto intro!: handler_intros)
  show ?thesis
    using assms pr wf
    by (cases "decode_syscall (reg k 16)")
      (simp_all add: dispatch_def fatal_call_def reg_def ipc_send_ok ipc_recv_ok restart_ok ipc_call_ok ipc_reply_ok getrandom_ok [unfolded reg_def]
        wait_irq_ok ipc_grant_ok ipc_revoke_ok seal_ok open_sealed_ok handler_ok_resume kernel_wf_set_reg)
qed

lemma dispatch_fatal:
  assumes "able R d k" "fatal_call e k (regs (frame k))"
  shows "\<exists>c. dispatch e k = Inl c"
proof -
  note free = able_sched(3) [OF assms(1)]
  obtain t where t: "slot_of (k_sched k) (cur k) = Some t" using assms(1) by (rule able_current)
  show ?thesis
    using assms(2) t free
    by (cases "decode_syscall (reg k 16)")
      (auto simp: fatal_call_def dispatch_def reg_def held_def sys_print_cases(1) seal_def seal_word_def add_chk_def
        getrandom_def pool_with_def assertr_def task_at_Some)
qed

section \<open>Traps\<close>

text \<open>
  What the hardware guarantees of a trap: 31 registers are saved; a system call, and any exception from user
  mode, comes from the component that runs, and its \<open>ecall\<close> was fetched, so that the next instruction has an
  address. Interrupts can arrive at any time.
\<close>

definition admissible :: "nat set \<Rightarrow> 'r kernel \<Rightarrow> trap_frame \<Rightarrow> bool" where
  "admissible R k f \<longleftrightarrow> length (regs f) = 31 \<and>
     (case decode (scause f) of
        UserEcall \<Rightarrow> cur k \<in> R \<and> fits f
      | SupervisorTimer \<Rightarrow> True
      | SupervisorExternal \<Rightarrow> True
      | _ \<Rightarrow> from_user f \<longrightarrow> cur k \<in> R)"

text \<open>The instruction a breakpoint or the W^X probe stopped at can be skipped: an S-mode load can read it.\<close>

definition skippable :: "'r kenv \<Rightarrow> trap_frame \<Rightarrow> bool" where
  "skippable e f =
     (case e_parcel e (sepc f) of
        None \<Rightarrow> False
      | Some p \<Rightarrow> unat (sepc f) + unat (instruction_len p) < 2 ^ 64)"

text \<open>The traps that stop a kernel none of whose tasks is inside the run queue.\<close>

definition fatal :: "'r kenv \<Rightarrow> 'r kernel \<Rightarrow> trap_frame \<Rightarrow> bool" where
  "fatal e k f =
     (case decode (scause f) of
        UserEcall \<Rightarrow> fatal_call e k (regs f)
      | SupervisorTimer \<Rightarrow> False
      | SupervisorExternal \<Rightarrow> False
      | Breakpoint \<Rightarrow> \<not> skippable e f
      | StorePageFault \<Rightarrow> \<not> from_user f \<and> \<not> (k_expecting_wx k \<and> skippable e f)
      | UnknownCause _ _ \<Rightarrow> True
      | _ \<Rightarrow> \<not> from_user f)"

definition safe_to :: "nat set \<Rightarrow> nat \<Rightarrow> 'r kernel \<Rightarrow> 'r kernel \<Rightarrow> bool" where
  "safe_to R d k k' \<longleftrightarrow> kernel_wf R d k' \<and> confined (fresh (k_sched k)) k k'"

lemma confined_mono: "confined {} k k' \<Longrightarrow> confined A k k'"
  by (auto simp: confined_def)

lemma advance_safe:
  "kernel_wf R d k \<Longrightarrow> unat (sepc (frame k)) + unat n < 2 ^ 64 \<Longrightarrow> holds (advance k n) (safe_to R d k)"
  by (rule holds_mono [OF advance_ok]) (auto simp: safe_to_def)

lemma skip_instruction_safe:
  assumes "kernel_wf R d k" "skippable e (frame k)"
  shows "holds (skip_instruction e k) (safe_to R d k)"
  using assms advance_safe [OF assms(1)]
  by (auto simp: skip_instruction_def skippable_def split: option.splits)

lemma skip_instruction_fatal: "\<not> skippable e (frame k) \<Longrightarrow> \<exists>c. skip_instruction e k = Inl c"
  by (auto simp: skip_instruction_def skippable_def advance_def add_chk_def split: option.splits)

lemma user_ecall_safe:
  assumes a: "able R d k" and n: "\<not> fatal_call e k (regs (frame k))"
  shows "holds (user_ecall e k) (safe_to R d k)"
  unfolding user_ecall_def holds_bindr
proof (rule holds_mono [OF dispatch_ok [OF a n, unfolded handler_ok_def]], clarify)
  fix k1 out
  assume wf: "kernel_wf R d k1" and cf: "confined (fresh (k_sched k)) k k1"
    and same: "out \<noteq> Switched \<longrightarrow> cur k1 = cur k \<and> sepc (frame k1) = sepc (frame k)"
  have adv: "holds (advance k1 4) (\<lambda>k2. kernel_wf R d k2 \<and> k_sched k2 = k_sched k1)" if "out \<noteq> Switched"
    using advance_ok [OF wf] a same that by (simp add: able_def fits_def)
  have later: "safe_to R d k k3" if "kernel_wf R d k3" "confined {} k2 k3" "k_sched k2 = k_sched k1" for k2 k3
    using confined_trans [OF cf, of k3] that confined_auth [of k2 k1 "{}" k3] by (auto simp: safe_to_def)
  show "holds (case out of Resume \<Rightarrow> advance k1 4 | Exit code \<Rightarrow> exit_current k1 (ExitedWith code)
      | Yield \<Rightarrow> bindr (advance k1 4) (\<lambda>k2. yield_now k2 InTrap) | Switched \<Rightarrow> Inr k1) (safe_to R d k)"
  proof (cases out)
    case Resume
    then show ?thesis using adv later [of _ k1] by (auto elim!: holds_mono)
  next
    case (Exit code)
    then show ?thesis
      using exit_current_ok [OF wf, of "ExitedWith code"] a same
      by (auto simp: able_def elim!: holds_mono intro: later)
  next
    case Yield
    with adv show ?thesis
      by (auto simp: wp elim!: holds_mono intro: holds_mono [OF yield_now_ok] later)
  next
    case Switched
    then show ?thesis using wf cf by (simp add: safe_to_def)
  qed
qed

lemma external_irq_safe:
  assumes wf: "kernel_wf R d k"
  shows "holds (external_irq k irq) (safe_to R d k)"
proof -
  have "holds (wake_irq (k_sched k) irq) (\<lambda>(s, _). step_ok R d (fresh (k_sched k)) (k_sched k) s)"
    using wf by (intro wake_irq_ok) (auto simp: kernel_wf_def)
  then show ?thesis
    using wf unfolding external_irq_def sched_with_free [OF kernel_wf_cell(1) [OF wf]]
    by (auto simp: wp safe_to_def elim!: holds_mono)
      (auto simp: kernel_wf_def frames_ok_def step_ok_def confined_def)
qed

lemma trap_handler_safe:
  assumes wf: "kernel_wf R d k0" and adm: "admissible R k0 f" and nf: "\<not> fatal e k0 f"
  shows "holds (trap_handler e irq k0 f) (safe_to R d k0)"
proof -
  let ?k = "put_frame k0 f"
  have len: "length (regs f) = 31" using adm by (simp add: admissible_def)
  have k: "kernel_wf R d ?k"
    using wf len by (auto simp: kernel_wf_def intro!: frames_ok_put)
  have safe: "safe_to R d k0 = safe_to R d ?k"
    by (intro ext) (simp add: safe_to_def confined_def)
  have ex: "holds (exit_current ?k c) (safe_to R d ?k)" if "cur k0 \<in> R" for c
  proof -
    have "cur ?k \<noteq> d" using wf that by (auto simp: kernel_wf_def)
    from exit_current_ok [OF k this, of c] show ?thesis
      by (rule holds_mono) (auto simp: safe_to_def intro: confined_mono)
  qed
  have yi: "holds (yield_now ?k InTrap) (safe_to R d ?k)"
    using yield_now_ok [OF k, of InTrap] by (auto simp: safe_to_def elim!: holds_mono intro: confined_mono)
  have sk: "skippable e f \<Longrightarrow> holds (skip_instruction e ?k) (safe_to R d ?k)"
    using skip_instruction_safe [OF k] by simp
  have wx: "holds (skip_instruction e (?k\<lparr>k_expecting_wx := False\<rparr>)) (safe_to R d ?k)" if "skippable e f"
  proof -
    have "kernel_wf R d (?k\<lparr>k_expecting_wx := False\<rparr>)" using k by (simp add: kernel_wf_def frames_ok_def)
    moreover have "frame (?k\<lparr>k_expecting_wx := False\<rparr>) = f" by (simp add: frame_def put_frame_def)
    moreover have "safe_to R d (?k\<lparr>k_expecting_wx := False\<rparr>) = safe_to R d ?k"
      by (intro ext) (simp add: safe_to_def confined_def)
    ultimately show ?thesis using skip_instruction_safe [of R d "?k\<lparr>k_expecting_wx := False\<rparr>" e] that by simp
  qed
  have ec: "holds (user_ecall e ?k) (safe_to R d ?k)" if "decode (scause f) = UserEcall"
  proof (rule user_ecall_safe)
    show "able R d ?k" using adm that k wf by (auto simp: able_def admissible_def kernel_wf_def)
    show "\<not> fatal_call e ?k (regs (frame ?k))"
      using nf that by (simp add: fatal_def fatal_call_def held_def split: syscall.splits)
  qed
  show ?thesis
    using adm nf ex yi sk wx ec external_irq_safe [OF k, of irq]
    by (cases "decode (scause f)") (auto simp: trap_handler_def Let_def safe admissible_def fatal_def)
qed

lemma trap_handler_fatal:
  assumes wf: "kernel_wf R d k0" and adm: "admissible R k0 f" and fa: "fatal e k0 f"
  shows "\<exists>c. trap_handler e irq k0 f = Inl c"
proof -
  let ?k = "put_frame k0 f"
  have k: "kernel_wf R d ?k" using wf adm by (auto simp: kernel_wf_def admissible_def intro!: frames_ok_put)
  have ec: "\<exists>c. user_ecall e ?k = Inl c" if "decode (scause f) = UserEcall"
  proof -
    have "able R d ?k" using adm that k wf by (auto simp: able_def admissible_def kernel_wf_def)
    moreover have "fatal_call e ?k (regs (frame ?k))"
      using fa that by (simp add: fatal_def fatal_call_def held_def split: syscall.splits)
    ultimately obtain c where "dispatch e ?k = Inl c" using dispatch_fatal by blast
    then show ?thesis by (simp add: user_ecall_def)
  qed
  have fr: "frame (?k\<lparr>k_expecting_wx := False\<rparr>) = f" by (simp add: frame_def put_frame_def)
  show ?thesis
    using fa ec skip_instruction_fatal [of e ?k] skip_instruction_fatal [of e "?k\<lparr>k_expecting_wx := False\<rparr>"] fr
    by (cases "decode (scause f)") (auto simp: trap_handler_def Let_def fatal_def)
qed

text \<open>An interrupt that arrives while a kernel task is inside the run queue.\<close>

lemma interrupt_in_closure:
  assumes "k_sched_in_use k" "decode (scause f) = SupervisorTimer \<or> decode (scause f) = SupervisorExternal \<and> irq \<noteq> 0"
  shows "trap_handler e irq k f = Inl reentrant"
  using assms by (auto simp: trap_handler_def Let_def yield_now_def external_irq_def)

lemma trap_handler_Inr_safe:
  assumes "kernel_wf R d k" "admissible R k f" "trap_handler e irq k f = Inr k'"
  shows "safe_to R d k k'"
proof -
  have "\<not> fatal e k f" using trap_handler_fatal [OF assms(1,2), of e irq] assms(3) by auto
  from trap_handler_safe [OF assms(1,2) this, of irq] assms(3) show ?thesis by simp
qed

section \<open>Kernel tasks\<close>

definition holds_endpoint :: "'r kernel \<Rightarrow> usize \<Rightarrow> bool" where
  "holds_endpoint k i \<longleftrightarrow>
     (case slot_of (k_sched k) (cur k) of
        None \<Rightarrow> False
      | Some t \<Rightarrow> cap_lookup (t_caps t) (unat i) \<noteq> None)"

lemma kernel_yield_safe: "kernel_wf R d k \<Longrightarrow> holds (kernel_yield k) (safe_to R d k)"
  unfolding kernel_yield_def
  by (rule holds_mono [OF yield_now_ok]) (auto simp: safe_to_def intro: confined_mono)

lemma attempt_holds_endpoint:
  "kernel_wf R d k \<Longrightarrow> recv_attempt k i = Inr x \<Longrightarrow> holds_endpoint k i"
  "kernel_wf R d k \<Longrightarrow> call_attempt k i b = Inr y \<Longrightarrow> holds_endpoint k i"
proof -
  assume wf: "kernel_wf R d k"
  obtain t where t: "slot_of (k_sched k) (cur k) = Some t" using wf sched_wf_current by (auto simp: kernel_wf_def)
  show "recv_attempt k i = Inr x \<Longrightarrow> holds_endpoint k i" and "call_attempt k i b = Inr y \<Longrightarrow> holds_endpoint k i"
    using t by (auto simp: recv_attempt_def call_attempt_def recv_message_step_def call_message_step_def bindr_eq_Inr_iff
        sched_with_Inr task_at_Some holds_endpoint_def expectr_def split: option.splits)
qed

lemma attempt_safe:
  assumes wf: "kernel_wf R d k" and he: "holds_endpoint k i"
  shows "holds (recv_attempt k i) (\<lambda>(k', _). safe_to R d k k' \<and> cur k' = cur k)"
    and "holds (call_attempt k i b) (\<lambda>(k', _). safe_to R d k k' \<and> cur k' = cur k)"
proof -
  from he obtain t ep where t: "slot_of (k_sched k) (cur k) = Some t" "cap_lookup (t_caps t) (unat i) = Some ep"
    by (auto simp: holds_endpoint_def split: option.splits)
  have after: "safe_to R d k (k\<lparr>k_sched := s\<rparr>) \<and> cur (k\<lparr>k_sched := s\<rparr>) = cur k" if "step_ok R d (fresh (k_sched k)) (k_sched k) s" for s
    using kernel_wf_sched [OF wf that] that by (simp add: safe_to_def confined_def step_ok_def)
  have "holds (recv_message_step (k_sched k) i) (\<lambda>(s, x). step_ok R d (fresh (k_sched k)) (k_sched k) s)"
    using wf t by (intro recv_message_step_ok) (auto simp: kernel_wf_def)
  then show "holds (recv_attempt k i) (\<lambda>(k', _). safe_to R d k k' \<and> cur k' = cur k)"
    unfolding recv_attempt_def sched_with_free [OF kernel_wf_cell(1) [OF wf]] holds_bindr by (rule holds_mono) (use after in auto)
  have "holds (call_message_step (k_sched k) i b) (\<lambda>(s, x). step_ok R d (fresh (k_sched k)) (k_sched k) s)"
    using wf t by (intro call_message_step_ok) (auto simp: kernel_wf_def)
  then show "holds (call_attempt k i b) (\<lambda>(k', _). safe_to R d k k' \<and> cur k' = cur k)"
    unfolding call_attempt_def sched_with_free [OF kernel_wf_cell(1) [OF wf]] holds_bindr by (rule holds_mono) (use after in auto)
qed

lemma park_safe:
  assumes "kernel_wf R d k" "cur k \<noteq> d" "st \<noteq> Running" "st \<noteq> Ready" "\<not> advances c"
  shows "holds (park_current k st c) (safe_to R d k)"
  using holds_mono [OF park_current_ok [OF assms(1-4), of c]] assms(5) confined_mono [of k]
  by (auto simp: safe_to_def)

lemma finish_safe:
  assumes wf: "kernel_wf R d k" and cd: "cur k \<noteq> d"
  shows "holds (recv_finish k x) (safe_to R d k)" and "holds (call_finish k y) (safe_to R d k)"
proof -
  show "holds (recv_finish k x) (safe_to R d k)"
    using wf park_safe [OF wf cd]
    by (auto simp: recv_finish_def safe_to_def kernel_wf_def frames_ok_def split: recv_outcome.splits)
  show "holds (call_finish k y) (safe_to R d k)"
    using wf park_safe [OF wf cd] by (auto simp: call_finish_def safe_to_def split: call_outcome.splits)
qed

section \<open>Executions\<close>

text \<open>
  What can happen after boot, in any order: traps; the yields of kernel tasks, which mask interrupts;
  the two halves of their receives and calls, between which other tasks may run; and whatever a
  kernel task does to the entropy pool, in which it may be stopped. The machine around the kernel may differ from
  step to step. A step exists only where the code does not panic.
\<close>

inductive reachable :: "nat set \<Rightarrow> nat \<Rightarrow> 'r kernel \<Rightarrow> 'r kernel \<Rightarrow> bool" for R d k0 where
  start: "reachable R d k0 k0"
| trap: "reachable R d k0 k \<Longrightarrow> admissible R k f \<Longrightarrow> trap_handler e irq k f = Inr k' \<Longrightarrow> reachable R d k0 k'"
| kyield: "reachable R d k0 k \<Longrightarrow> kernel_yield k = Inr k' \<Longrightarrow> reachable R d k0 k'"
| krecv: "reachable R d k0 k \<Longrightarrow> recv_attempt k i = Inr (k', step) \<Longrightarrow> reachable R d k0 k'"
| krecv_rest: "reachable R d k0 k \<Longrightarrow> cur k \<noteq> d \<Longrightarrow> recv_finish k step = Inr k' \<Longrightarrow> reachable R d k0 k'"
| kcall: "reachable R d k0 k \<Longrightarrow> call_attempt k i b = Inr (k', cstep) \<Longrightarrow> reachable R d k0 k'"
| kcall_rest: "reachable R d k0 k \<Longrightarrow> cur k \<noteq> d \<Longrightarrow> call_finish k cstep = Inr k' \<Longrightarrow> reachable R d k0 k'"
| kpool: "reachable R d k0 k \<Longrightarrow> reachable R d k0 (k\<lparr>k_pool := pool, k_pool_in_use := u\<rparr>)"

lemma reachable_call:
  assumes "reachable R d k0 k" "cur k \<noteq> d" "kernel_wf R d k" "call_message k i b = Inr k'"
  shows "reachable R d k0 k'"
proof -
  from assms(4) obtain k1 step where k1: "call_attempt k i b = Inr (k1, step)" "call_finish k1 step = Inr k'"
    by (auto simp: call_message_def bindr_eq_Inr_iff)
  have "cur k1 = cur k" using attempt_safe(2) [OF assms(3) attempt_holds_endpoint(2) [OF assms(3) k1(1)], of b] k1(1) by simp
  with assms(2) show ?thesis using reachable.kcall_rest [OF reachable.kcall [OF assms(1) k1(1)] _ k1(2)] by simp
qed

lemma holds_InrD: "holds r P \<Longrightarrow> r = Inr x \<Longrightarrow> P x"
  by simp

lemma attempt_safeD:
  assumes "kernel_wf R d k"
  shows "recv_attempt k i = Inr (k', x) \<Longrightarrow> safe_to R d k k'" and "call_attempt k i b = Inr (k', y) \<Longrightarrow> safe_to R d k k'"
proof -
  show "safe_to R d k k'" if "recv_attempt k i = Inr (k', x)"
    using attempt_safe(1) [OF assms attempt_holds_endpoint(1) [OF assms that]] that by simp
  show "safe_to R d k k'" if "call_attempt k i b = Inr (k', y)"
    using attempt_safe(2) [OF assms attempt_holds_endpoint(2) [OF assms that], of b] that by simp
qed

definition conserved :: "'r kernel \<Rightarrow> 'r kernel \<Rightarrow> bool" where
  "conserved k0 k \<longleftrightarrow> (\<forall>i c. c \<in> auth (k_sched k) i \<longrightarrow> (\<exists>j. c \<in> auth (k_sched k0) j) \<or> (\<exists>t. c = Reply t))"

lemma conserved_step: "conserved k0 k \<Longrightarrow> safe_to R d k k' \<Longrightarrow> kernel_wf R d k' \<and> conserved k0 k'"
  by (fastforce simp: safe_to_def confined_def conserved_def fresh_def)

lemma reachable_invariant:
  assumes "reachable R d k0 k" "kernel_wf R d k0"
  shows "kernel_wf R d k \<and> (\<forall>i c. c \<in> auth (k_sched k) i \<longrightarrow> (\<exists>j. c \<in> auth (k_sched k0) j) \<or> (\<exists>t. c = Reply t))"
proof -
  from assms have "kernel_wf R d k \<and> conserved k0 k"
  proof induction
    case start
    then show ?case by (auto simp: conserved_def)
  next
    case (trap k f e irq k')
    then show ?case using conserved_step trap_handler_Inr_safe by blast
  next
    case (kyield k k')
    then show ?case using conserved_step holds_InrD [OF kernel_yield_safe] by blast
  next
    case (krecv k i k' step)
    then show ?case using conserved_step attempt_safeD(1) by blast
  next
    case (krecv_rest k step k')
    then show ?case using conserved_step holds_InrD [OF finish_safe(1)] by blast
  next
    case (kcall k i b k' cstep)
    then show ?case using conserved_step attempt_safeD(2) by blast
  next
    case (kcall_rest k cstep k')
    then show ?case using conserved_step holds_InrD [OF finish_safe(2)] by blast
  next
    case (kpool k pool u)
    then show ?case by (auto simp: kernel_wf_def frames_ok_def conserved_def)
  qed
  then show ?thesis by (simp add: conserved_def)
qed

end
