(* ===== verification/Boot.thy ===== *)
theory Boot
  imports Kernel_Safety
begin

text \<open>
  The task table \<^verbatim>\<open>kmain\<close> builds before it calls \<^verbatim>\<open>sched::enter\<close>
  (\<^verbatim>\<open>src/kernel/src/main.rs\<close>): which components exist, in which order, and the initial
  authority of each. Link-time addresses and device-tree facts are the record
  \<open>boot_cfg\<close>; a device is its register base, the DMA frame allocated for it and its
  interrupt. The table is shown to satisfy the kernel invariant for every combination of
  devices.
\<close>

section \<open>Endpoints and capability slots\<close>

definition EP0 :: nat where "EP0 = 0"
definition EP_CAP :: nat where "EP_CAP = 0"
definition GRANT_EP :: nat where "GRANT_EP = 6"
definition GRANT_CHAN_CAP :: nat where "GRANT_CHAN_CAP = 0"
definition BROKER_RTC_SLOT :: nat where "BROKER_RTC_SLOT = 1"
definition LEASE_EP :: nat where "LEASE_EP = 7"
definition LEASE_CAP :: nat where "LEASE_CAP = 0"
definition CHAN_EP :: nat where "CHAN_EP = 8"
definition CHAN_CAP :: nat where "CHAN_CAP = 1"
definition CRASH_CAP :: nat where "CRASH_CAP = 0"
definition ENTROPY_EP :: nat where "ENTROPY_EP = 2"
definition ENTROPY_CAP :: nat where "ENTROPY_CAP = 0"
definition RNG_CAP :: nat where "RNG_CAP = 0"
definition IRQ_CAP :: nat where "IRQ_CAP = 1"
definition DEFER_EP :: nat where "DEFER_EP = 3"
definition DEFER_CAP :: nat where "DEFER_CAP = 0"
definition BLK_EP :: nat where "BLK_EP = 4"
definition BLK_EP_CAP :: nat where "BLK_EP_CAP = 0"
definition BLK_IRQ_CAP :: nat where "BLK_IRQ_CAP = 1"
definition NET_EP :: nat where "NET_EP = 9"
definition NET_EP_CAP :: nat where "NET_EP_CAP = 0"
definition NET_IRQ_CAP :: nat where "NET_IRQ_CAP = 1"
definition GATE_EP :: nat where "GATE_EP = 5"
definition GATE_CAP :: nat where "GATE_CAP = 0"
definition GATE_LOADER_CAP :: nat where "GATE_LOADER_CAP = 1"

lemmas boot_slots = EP_CAP_def GRANT_CHAN_CAP_def BROKER_RTC_SLOT_def LEASE_CAP_def CHAN_CAP_def
  CRASH_CAP_def ENTROPY_CAP_def RNG_CAP_def IRQ_CAP_def DEFER_CAP_def BLK_EP_CAP_def BLK_IRQ_CAP_def
  NET_EP_CAP_def NET_IRQ_CAP_def GATE_CAP_def GATE_LOADER_CAP_def

section \<open>The table\<close>

type_synonym device = "usize \<times> usize \<times> u32"

record boot_cfg =
  b_task_trampoline :: usize
  b_user_trampoline :: usize
  b_kernel_satp :: usize
  b_sstatus :: usize
  b_entry :: "string \<Rightarrow> usize"
  b_ustack :: "string \<Rightarrow> usize"
  b_kstack :: "string \<Rightarrow> usize"
  b_satp :: "string \<Rightarrow> usize"
  b_rng :: "device option"
  b_blk :: "device option"
  b_net :: "device option"

definition add_user :: "boot_cfg \<Rightarrow> sched \<Rightarrow> string \<Rightarrow> (sched \<times> nat) result" where
  "add_user b s name =
     spawn_user (b_user_trampoline b) (b_sstatus b) s name (b_entry b name) (b_ustack b name)
       (b_kstack b name) (b_satp b name)"

definition add_kernel :: "boot_cfg \<Rightarrow> sched \<Rightarrow> string \<Rightarrow> (sched \<times> nat) result" where
  "add_kernel b s name =
     spawn (b_task_trampoline b) (b_kernel_satp b) s name (b_entry b name) (b_kstack b name)"

text \<open>The time server, delegation, revocation and encrypted-channel components.\<close>

definition boot_services :: "boot_cfg \<Rightarrow> sched \<Rightarrow> sched result" where
  "boot_services b s =
     bindr (add_user b s ''rtc'') (\<lambda>(s, rtc_srv).
     bindr (grant_cap s rtc_srv EP_CAP (Endpoint EP0)) (\<lambda>s.
     bindr (add_user b s ''needy'') (\<lambda>(s, needy).
     bindr (grant_cap s needy GRANT_CHAN_CAP (Endpoint GRANT_EP)) (\<lambda>s.
     bindr (add_user b s ''broker'') (\<lambda>(s, broker).
     bindr (grant_cap s broker GRANT_CHAN_CAP (Endpoint GRANT_EP)) (\<lambda>s.
     bindr (grant_cap s broker BROKER_RTC_SLOT (Endpoint EP0)) (\<lambda>s.
     bindr (add_user b s ''lease'') (\<lambda>(s, lease).
     bindr (grant_cap s lease LEASE_CAP (Endpoint LEASE_EP)) (\<lambda>s.
     bindr (add_user b s ''tenant'') (\<lambda>(s, tenant).
     bindr (grant_cap s tenant LEASE_CAP (Endpoint LEASE_EP)) (\<lambda>s.
     bindr (add_user b s ''opener'') (\<lambda>(s, opener).
     bindr (grant_cap s opener 0 Session) (\<lambda>s.
     bindr (grant_cap s opener CHAN_CAP (Endpoint CHAN_EP)) (\<lambda>s.
     bindr (add_user b s ''sealer'') (\<lambda>(s, sealer).
     bindr (grant_cap s sealer 0 Session) (\<lambda>s.
     bindr (grant_cap s sealer CHAN_CAP (Endpoint CHAN_EP)) (\<lambda>s.
     bindr (add_user b s ''nocap'') (\<lambda>(s, nocap).
     bindr (add_user b s ''rogue'') (\<lambda>(s, rogue).
     Inr s)))))))))))))))))))"

text \<open>The healer and its patients: only the healer holds \<open>Restart\<close> capabilities.\<close>

definition boot_healing :: "boot_cfg \<Rightarrow> sched \<Rightarrow> sched result" where
  "boot_healing b s =
     bindr (add_user b s ''healer'') (\<lambda>(s, healer).
     bindr (grant_cap s healer CRASH_CAP (Endpoint CRASH_EP)) (\<lambda>s.
     bindr (add_user b s ''transient'') (\<lambda>(s, transient).
     bindr (grant_cap s healer 1 (Restart transient)) (\<lambda>s.
     bindr (set_crash_badge s transient 1) (\<lambda>s.
     bindr (grant_cap s transient GATE_CAP (Endpoint GATE_EP)) (\<lambda>s.
     bindr (add_user b s ''flaky'') (\<lambda>(s, flaky).
     bindr (grant_cap s healer 2 (Restart flaky)) (\<lambda>s.
     bindr (set_crash_badge s flaky 2) (\<lambda>s.
     bindr (grant_cap s flaky GATE_CAP (Endpoint GATE_EP)) (\<lambda>s.
     bindr (add_user b s ''novel'') (\<lambda>(s, novel).
     grant_cap s novel GATE_CAP (Endpoint GATE_EP))))))))))))"

definition boot_rng :: "boot_cfg \<Rightarrow> sched \<Rightarrow> sched result" where
  "boot_rng b s =
     (case b_rng b of
        None \<Rightarrow> Inr s
      | Some (rng, dma_pa, rng_irq) \<Rightarrow>
          bindr (add_kernel b s ''pqc'') (\<lambda>(s, consumer).
          bindr (grant_cap s consumer ENTROPY_CAP (Endpoint ENTROPY_EP)) (\<lambda>s.
          bindr (add_user b s ''entropy'') (\<lambda>(s, entropy).
          bindr (grant_cap s entropy ENTROPY_CAP (Endpoint ENTROPY_EP)) (\<lambda>s.
          bindr (set_launch_args s entropy rng dma_pa) (\<lambda>s.
          grant_cap s entropy IRQ_CAP (Interrupt rng_irq)))))))"

definition boot_clients :: "boot_cfg \<Rightarrow> sched \<Rightarrow> (sched \<times> nat) result" where
  "boot_clients b s =
     bindr (add_user b s ''rnguser'') (\<lambda>(s, rnguser).
     bindr (grant_cap s rnguser RNG_CAP Randomness) (\<lambda>s.
     bindr (add_user b s ''deferrer'') (\<lambda>(s, deferrer).
     bindr (grant_cap s deferrer DEFER_CAP (Endpoint DEFER_EP)) (\<lambda>s.
     bindr (add_user b s ''dclientA'') (\<lambda>(s, dclient_a).
     bindr (grant_cap s dclient_a DEFER_CAP (Endpoint DEFER_EP)) (\<lambda>s.
     bindr (add_user b s ''dclientB'') (\<lambda>(s, dclient_b).
     bindr (grant_cap s dclient_b DEFER_CAP (Endpoint DEFER_EP)) (\<lambda>s.
     bindr (add_kernel b s ''kb'') (\<lambda>(s, kb_loader).
     bindr (grant_cap s kb_loader GATE_LOADER_CAP (Endpoint GATE_EP)) (\<lambda>s.
     Inr (s, kb_loader)))))))))))"

definition boot_blk :: "boot_cfg \<Rightarrow> sched \<Rightarrow> nat \<Rightarrow> sched result" where
  "boot_blk b s kb_loader =
     (case b_blk b of
        None \<Rightarrow> Inr s
      | Some (blk, dma_pa, blk_irq) \<Rightarrow>
          bindr (add_user b s ''blk'') (\<lambda>(s, blkdev).
          bindr (grant_cap s blkdev BLK_EP_CAP (Endpoint BLK_EP)) (\<lambda>s.
          bindr (grant_cap s blkdev BLK_IRQ_CAP (Interrupt blk_irq)) (\<lambda>s.
          bindr (set_launch_args s blkdev blk dma_pa) (\<lambda>s.
          bindr (grant_cap s kb_loader BLK_EP_CAP (Endpoint BLK_EP)) (\<lambda>s.
          bindr (add_kernel b s ''kbw'') (\<lambda>(s, kb_writer).
          grant_cap s kb_writer BLK_EP_CAP (Endpoint BLK_EP))))))))"

definition boot_net :: "boot_cfg \<Rightarrow> sched \<Rightarrow> sched result" where
  "boot_net b s =
     (case b_net b of
        None \<Rightarrow> Inr s
      | Some (net, dma_pa, net_irq) \<Rightarrow>
          bindr (add_user b s ''net'') (\<lambda>(s, netdev).
          bindr (grant_cap s netdev NET_EP_CAP (Endpoint NET_EP)) (\<lambda>s.
          bindr (grant_cap s netdev NET_IRQ_CAP (Interrupt net_irq)) (\<lambda>s.
          bindr (set_launch_args s netdev net dma_pa) (\<lambda>s.
          bindr (add_kernel b s ''netcli'') (\<lambda>(s, netcli).
          grant_cap s netcli NET_EP_CAP (Endpoint NET_EP)))))))"

text \<open>The whole table and the slot of the idle task.\<close>

definition boot_tasks :: "boot_cfg \<Rightarrow> (sched \<times> nat) result" where
  "boot_tasks b =
     bindr (boot_services b sched_new) (\<lambda>s.
     bindr (boot_healing b s) (\<lambda>s.
     bindr (boot_rng b s) (\<lambda>s.
     bindr (boot_clients b s) (\<lambda>(s, kb_loader).
     bindr (boot_blk b s kb_loader) (\<lambda>s.
     bindr (boot_net b s) (\<lambda>s.
     bindr (add_kernel b s ''shell'') (\<lambda>(s, shell).
     add_kernel b s ''idle'')))))))"

text \<open>The kernel just before \<^verbatim>\<open>enter\<close>: no task has run, the channel is established.\<close>

definition blank_frame :: trap_frame where
  "blank_frame = \<lparr>regs = replicate 31 0, sepc = 0, sstatus = 0, scause = 0, stval = 0\<rparr>"

definition boot_kernel :: "channel \<Rightarrow> sched \<Rightarrow> 'r kernel" where
  "boot_kernel ch s =
     \<lparr>k_sched = s, k_sched_in_use = False, k_heal = heal_init, k_frames = (\<lambda>_. blank_frame), k_cont = (\<lambda>_. Fresh),
      k_chan = ch, k_pool = pool_new, k_pool_in_use = False, k_ret = (\<lambda>_. EMPTY_MSG), k_expecting_wx = False,
      k_in_service = [], k_satp = 0, k_output = [], k_exits = []\<rparr>"

section \<open>Building a table keeps it well formed\<close>

text \<open>The first \<open>n\<close> slots are filled, all tasks are ready, and those in \<open>R\<close> are components.\<close>

definition boot_inv :: "nat \<Rightarrow> nat set \<Rightarrow> sched \<Rightarrow> bool" where
  "boot_inv n R s \<longleftrightarrow>
     length (s_tasks s) = MAX_TASKS \<and> n \<le> MAX_TASKS \<and> s_current s = 0 \<and> R \<subseteq> {..<n} \<and>
     (\<forall>i. slot_of s i = None \<longleftrightarrow> n \<le> i) \<and>
     (\<forall>i t. slot_of s i = Some t \<longrightarrow> task_wf R i t \<and> t_state t = Ready)"

lemma boot_inv_new: "boot_inv 0 {} sched_new"
  by (simp add: boot_inv_def sched_new_def slot_of_def)

lemma free_slot_boot:
  assumes "boot_inv n R s" "n < MAX_TASKS"
  shows "free_slot s = Inr n"
proof -
  have "s_tasks s ! i = None \<longleftrightarrow> n \<le> i" if "i < MAX_TASKS" for i
    using assms(1) that unfolding boot_inv_def slot_of_def by metis
  then have "position (\<lambda>slot. slot = None) (s_tasks s) = Some n"
    using assms by (auto simp: position_Some_iff boot_inv_def)
  then show ?thesis by (simp add: free_slot_def expectr_def)
qed

lemma boot_inv_add:
  assumes inv: "boot_inv n R s" and n: "n < MAX_TASKS"
    and t: "t_state t = Ready" "length (t_caps t) = CAP_SLOTS" "task_caps t = {}" "t_caller t = None" "t_restarts t = 0"
    and R': "R' = (if t_relaunch t = None then R else insert n R)"
  shows "boot_inv (Suc n) R' (s\<lparr>s_tasks := (s_tasks s)[n := Some t]\<rparr>)"
proof -
  let ?s = "s\<lparr>s_tasks := (s_tasks s)[n := Some t]\<rparr>"
  have len: "length (s_tasks s) = MAX_TASKS" using inv by (simp add: boot_inv_def)
  have slots: "slot_of ?s i = (if i = n then Some t else slot_of s i)" for i
    using n len by (simp add: slot_of_def)
  have nR: "n \<notin> R" using inv by (auto simp: boot_inv_def)
  have mono: "cap_ok R c \<Longrightarrow> cap_ok R' c" for c by (auto simp: cap_ok_def R' split: capability.splits)
  have "task_wf R' i u" if "slot_of s i = Some u" for i u
  proof -
    have "slot_of s n = None" using inv by (simp add: boot_inv_def)
    with that have "i \<noteq> n" by auto
    moreover have "task_wf R i u" using inv that by (simp add: boot_inv_def)
    ultimately show ?thesis using mono by (auto simp: task_wf_def R')
  qed
  moreover have "task_wf R' n t" using t nR by (auto simp: task_wf_def R')
  ultimately show ?thesis
    using inv n len slots t(1) by (auto simp: boot_inv_def R' less_Suc_eq_le split: if_splits)
qed

lemma add_user_boot:
  assumes "boot_inv n R s" "n < MAX_TASKS" and P: "\<And>s'. boot_inv (Suc n) (insert n R) s' \<Longrightarrow> P (s', n)"
  shows "holds (add_user b s name) P"
  using assms(1,2) unfolding add_user_def spawn_user_def
  by (simp add: free_slot_boot) (rule P, rule boot_inv_add, auto simp: task_caps_def)

lemma add_kernel_boot:
  assumes "boot_inv n R s" "n < MAX_TASKS" and P: "\<And>s'. boot_inv (Suc n) R s' \<Longrightarrow> P (s', n)"
  shows "holds (add_kernel b s name) P"
  using assms(1,2) unfolding add_kernel_def spawn_def
  by (simp add: free_slot_boot) (rule P, rule boot_inv_add, auto simp: task_caps_def)

lemma boot_inv_put:
  assumes "boot_inv n R s" "slot_of s i \<noteq> None" "task_wf R i t" "t_state t = Ready"
  shows "boot_inv n R (put_task s i t)"
  using assms by (auto simp: boot_inv_def)

lemma boot_inv_slot:
  assumes "boot_inv n R s" "i < n"
  obtains t where "slot_of s i = Some t" "task_wf R i t" "t_state t = Ready"
proof -
  have "slot_of s i \<noteq> None" using assms by (auto simp: boot_inv_def)
  then show thesis using assms(1) that by (auto simp: boot_inv_def)
qed

lemma grant_cap_boot:
  assumes inv: "boot_inv n R s" and i: "i < n" and k: "k < CAP_SLOTS" and c: "cap_ok R c"
    and P: "\<And>s'. boot_inv n R s' \<Longrightarrow> P s'"
  shows "holds (grant_cap s i k c) P"
proof -
  obtain t where t: "slot_of s i = Some t" "task_wf R i t" "t_state t = Ready"
    using boot_inv_slot [OF inv i] .
  have "k < length (t_caps t)" using t k by (simp add: task_wf_def)
  moreover have "boot_inv n R (put_task s i (t\<lparr>t_caps := (t_caps t)[k := Some c]\<rparr>))"
    using t c by (intro boot_inv_put [OF inv]) (auto intro: task_wf_store)
  ultimately show ?thesis using t P by (auto simp: grant_cap_def wp)
qed

lemma set_crash_badge_boot:
  assumes inv: "boot_inv n R s" and i: "i < n" and P: "\<And>s'. boot_inv n R s' \<Longrightarrow> P s'"
  shows "holds (set_crash_badge s i b) P"
proof -
  obtain t where t: "slot_of s i = Some t" "task_wf R i t" "t_state t = Ready"
    using boot_inv_slot [OF inv i] .
  then show ?thesis using P boot_inv_put [OF inv, of i] by (auto simp: set_crash_badge_def wp)
qed

lemma set_launch_args_boot:
  assumes inv: "boot_inv n R s" and i: "i < n" and P: "\<And>s'. boot_inv n R s' \<Longrightarrow> P s'"
  shows "holds (set_launch_args s i x y) P"
proof -
  obtain t where t: "slot_of s i = Some t" "task_wf R i t" "t_state t = Ready"
    using boot_inv_slot [OF inv i] .
  then show ?thesis using P boot_inv_put [OF inv, of i] by (auto simp: set_launch_args_def wp)
qed

lemmas boot_rules = add_user_boot add_kernel_boot grant_cap_boot set_crash_badge_boot set_launch_args_boot

lemmas boot_conds = boot_slots MAX_TASKS_def CAP_SLOTS_def cap_ok_def

lemma boot_services_ok:
  "boot_inv n R s \<Longrightarrow> n + 9 \<le> MAX_TASKS \<Longrightarrow> holds (boot_services b s) (\<lambda>s'. \<exists>R'. boot_inv (n + 9) R' s')"
  unfolding boot_services_def
  by (simp only: holds_bindr,
      (erule boot_rules, (simp add: boot_conds; fail)+, (simp only: prod.case holds_bindr)?)+,
      auto simp: eval_nat_numeral)

lemma boot_healing_ok:
  "boot_inv n R s \<Longrightarrow> n + 4 \<le> MAX_TASKS \<Longrightarrow> holds (boot_healing b s) (\<lambda>s'. \<exists>R'. boot_inv (n + 4) R' s')"
  unfolding boot_healing_def
  by (simp only: holds_bindr,
      (erule boot_rules, (simp add: boot_conds; fail)+, (simp only: prod.case holds_bindr)?)+,
      auto simp: eval_nat_numeral)

lemma boot_rng_ok:
  "boot_inv n R s \<Longrightarrow> n + 2 \<le> MAX_TASKS \<Longrightarrow>
   holds (boot_rng b s) (\<lambda>s'. \<exists>n' R'. n \<le> n' \<and> n' \<le> n + 2 \<and> boot_inv n' R' s')"
  unfolding boot_rng_def
  by (cases "b_rng b", fastforce, clarsimp, simp only: holds_bindr,
      (erule boot_rules, (simp add: boot_conds; fail)+, (simp only: prod.case holds_bindr)?)+,
      auto simp: eval_nat_numeral intro!: exI [of _ "Suc (Suc n)"])

lemma boot_clients_ok:
  "boot_inv n R s \<Longrightarrow> n + 5 \<le> MAX_TASKS \<Longrightarrow>
   holds (boot_clients b s) (\<lambda>(s', l). l < n + 5 \<and> (\<exists>R'. boot_inv (n + 5) R' s'))"
  unfolding boot_clients_def
  by (simp only: holds_bindr,
      (erule boot_rules, (simp add: boot_conds; fail)+, (simp only: prod.case holds_bindr)?)+,
      auto simp: eval_nat_numeral)

lemma boot_blk_ok:
  "boot_inv n R s \<Longrightarrow> n + 2 \<le> MAX_TASKS \<Longrightarrow> l < n \<Longrightarrow>
   holds (boot_blk b s l) (\<lambda>s'. \<exists>n' R'. n \<le> n' \<and> n' \<le> n + 2 \<and> boot_inv n' R' s')"
  unfolding boot_blk_def
  by (cases "b_blk b", fastforce, clarsimp, simp only: holds_bindr,
      (erule boot_rules, (simp add: boot_conds; fail)+, (simp only: prod.case holds_bindr)?)+,
      auto simp: eval_nat_numeral intro!: exI [of _ "Suc (Suc n)"])

lemma boot_net_ok:
  "boot_inv n R s \<Longrightarrow> n + 2 \<le> MAX_TASKS \<Longrightarrow>
   holds (boot_net b s) (\<lambda>s'. \<exists>n' R'. n \<le> n' \<and> n' \<le> n + 2 \<and> boot_inv n' R' s')"
  unfolding boot_net_def
  by (cases "b_net b", fastforce, clarsimp, simp only: holds_bindr,
      (erule boot_rules, (simp add: boot_conds; fail)+, (simp only: prod.case holds_bindr)?)+,
      auto simp: eval_nat_numeral intro!: exI [of _ "Suc (Suc n)"])

section \<open>The booted kernel satisfies the invariant\<close>

definition user_slots :: "sched \<Rightarrow> nat set" where
  "user_slots s = {i. \<exists>t. slot_of s i = Some t \<and> t_relaunch t \<noteq> None}"

lemma user_slots_wf:
  assumes "sched_wf R s"
  shows "user_slots s = R"
proof
  show "user_slots s \<subseteq> R"
    using assms by (auto simp: user_slots_def sched_wf_def task_wf_def)
  show "R \<subseteq> user_slots s"
  proof
    fix i assume i: "i \<in> R"
    then obtain t where "slot_of s i = Some t" using assms by (auto simp: sched_wf_def)
    with i sched_wf_slot [OF assms this] show "i \<in> user_slots s" by (auto simp: user_slots_def task_wf_def)
  qed
qed

lemma boot_inv_user_slots:
  assumes "boot_inv n R s"
  shows "user_slots s = R"
proof
  have wf: "task_wf R i t" if "slot_of s i = Some t" for i t using assms that by (simp add: boot_inv_def)
  then show "user_slots s \<subseteq> R" by (auto simp: user_slots_def task_wf_def)
  show "R \<subseteq> user_slots s"
  proof
    fix i assume i: "i \<in> R"
    then have "i < n" using assms by (auto simp: boot_inv_def)
    then obtain t where "slot_of s i = Some t" "task_wf R i t" using boot_inv_slot [OF assms] by blast
    with i show "i \<in> user_slots s" by (auto simp: user_slots_def task_wf_def)
  qed
qed

definition booted :: "sched \<times> nat \<Rightarrow> bool" where
  "booted = (\<lambda>(s, d). \<exists>R. boot_inv (Suc d) R s \<and> d \<notin> R \<and> 0 < d)"

lemma boot_last:
  assumes "boot_inv n R s" "n < MAX_TASKS" "0 < n"
  shows "holds (add_kernel b s name) booted"
proof (rule add_kernel_boot [OF assms(1,2)])
  have "R \<subseteq> {..<n}" using assms(1) by (simp add: boot_inv_def)
  then show "booted (s', n)" if "boot_inv (Suc n) R s'" for s'
    using that assms(3) by (auto simp: booted_def)
qed

lemma boot_tasks_ok: "holds (boot_tasks b) booted"
  unfolding boot_tasks_def
  by (rule holds_bindI [OF boot_services_ok [OF boot_inv_new]], simp add: MAX_TASKS_def, elim exE,
      rule holds_bindI, erule boot_healing_ok, simp add: MAX_TASKS_def, elim exE,
      rule holds_bindI, erule boot_rng_ok, simp add: MAX_TASKS_def, elim exE conjE,
      rule holds_bindI, erule boot_clients_ok, simp add: MAX_TASKS_def, clarify,
      rule holds_bindI, erule boot_blk_ok, simp add: MAX_TASKS_def, assumption, elim exE conjE,
      rule holds_bindI, erule boot_net_ok, simp add: MAX_TASKS_def, elim exE conjE,
      simp only: holds_bindr, erule add_kernel_boot, simp add: MAX_TASKS_def, simp only: prod.case,
      erule boot_last)
    (simp_all add: MAX_TASKS_def)

lemma enter_boot:
  assumes inv: "boot_inv (Suc n) R s" and d: "n \<notin> R" and n: "0 < n"
  shows "holds (enter (boot_kernel ch s)) (kernel_wf R n)"
proof -
  obtain t where t: "slot_of s 0 = Some t" "task_wf R 0 t" using boot_inv_slot [OF inv, of 0] by auto
  let ?s = "put_task s 0 (t\<lparr>t_state := Running\<rparr>)\<lparr>s_current := 0\<rparr>"
  have cur: "s_current s = 0" using inv by (simp add: boot_inv_def)
  have wf: "sched_wf R ?s"
  proof -
    have "slot_of s i \<noteq> None" if "i \<in> R" for i using inv that by (auto simp: boot_inv_def)
    moreover have "task_wf R i u" if "slot_of s i = Some u" for i u using inv that by (simp add: boot_inv_def)
    ultimately show ?thesis using inv t by (simp add: boot_inv_def sched_wf_def)
  qed
  have run: "run_ok n ?s"
    using inv t n by (auto simp: boot_inv_def run_ok_def state_ok_def split: if_splits)
  have step: "enter_step s = Inr (?s, t_satp t)"
    using t cur slot_of_in_range [of s 0]
    by (simp add: enter_step_def run_next_def set_state_def modify_task_def task_at_def idx_def expectr_def
        slot_of_def put_task_def split: if_splits)
  have "kernel_pre R n (boot_kernel ch s\<lparr>k_sched := ?s, k_satp := t_satp t\<rparr>)"
    using wf run d by (simp add: kernel_pre_def boot_kernel_def frames_ok_def blank_frame_def heal_wf_init)
  from resume_ok [OF this] show ?thesis
    using step by (auto simp: enter_def boot_kernel_def elim!: holds_mono)
qed

end
