(* ===== verification/Demo.thy ===== *)
theory Demo
  imports Boot
begin

text \<open>
  A concrete system for the witnesses: a client that runs, a server waiting for a message, the
  idle task, a caller waiting for a reply and a healer waiting on the crash endpoint, with a
  machine around them.
\<close>

definition demo_task :: "task_state \<Rightarrow> cspace \<Rightarrow> bool \<Rightarrow> task" where
  "demo_task st caps user =
     \<lparr>t_context = zeroed, t_state = st, t_stack_top = 0x80010000, t_name = ''demo'', t_satp = 7,
      t_caps = caps, t_message = EMPTY_MSG,
      t_relaunch = (if user then Some \<lparr>entry_pc = 0x80200000, user_sp = 0x80300000\<rparr> else None),
      t_restarts = 0, t_crash_badge = 2, t_caller = None, t_pending_grant = None\<rparr>"

definition demo_client :: task where
  "demo_client = demo_task Running [Some (Endpoint 0), Some (Reply 3), Some (Restart 1), None] True"

definition demo_server :: task where
  "demo_server = demo_task (Blocked 0 RoleRecv) [Some (Endpoint 0), None, None, None] True"

definition demo_idle :: task where
  "demo_idle = demo_task Ready [None, None, None, None] False"

definition demo_caller :: task where
  "demo_caller = demo_task AwaitingReply [Some (Endpoint 5), None, None, None] True"

definition demo_healer :: task where
  "demo_healer = demo_task (Blocked CRASH_EP RoleRecv) [Some (Endpoint CRASH_EP), None, None, None] True"

definition demo_sched :: sched where
  "demo_sched =
     \<lparr>s_tasks = [Some demo_client, Some demo_server, Some demo_idle, Some demo_caller, Some demo_healer] @ replicate 22 None,
      s_current = 0\<rparr>"

definition demo_kernel :: "unit kernel" where
  "demo_kernel = (boot_kernel channel_init demo_sched)\<lparr>k_cont := (\<lambda>_. InTrap)\<rparr>"

definition demo_env :: "unit kenv" where
  "demo_env = \<lparr>e_user_trampoline = 0x80000100, e_sstatus = 0, e_user_lo = 0x1000, e_user_hi = 0x2000,
     e_mem = (\<lambda>a. if a < 0x1800 then Some 65 else None), e_parcel = (\<lambda>a. if a < 0x80000000 then Some 0x9002 else None),
     e_rng = toy_rng, e_aead = toy_aead\<rparr>"

definition demo_cfg :: boot_cfg where
  "demo_cfg = \<lparr>b_task_trampoline = 0x80000200, b_user_trampoline = 0x80000100, b_kernel_satp = 7, b_sstatus = 0,
     b_entry = (\<lambda>_. 0x80200000), b_ustack = (\<lambda>_. 0x80300000), b_kstack = (\<lambda>_. 0x80010000), b_satp = (\<lambda>_. 9),
     b_rng = Some (0x10001000, 0x80400000, 1), b_blk = Some (0x10002000, 0x80401000, 2),
     b_net = Some (0x10003000, 0x80402000, 3)\<rparr>"

definition timer_frame :: trap_frame where
  "timer_frame = blank_frame\<lparr>sepc := 0x80200010, scause := 0x8000000000000005\<rparr>"

definition demo_msg :: message where
  "demo_msg = \<lparr>badge = 11, data = (22, 33, 44)\<rparr>"

lemma slot_of_demo:
  "slot_of demo_sched i =
     (if i = 0 then Some demo_client else if i = 1 then Some demo_server else if i = 2 then Some demo_idle
      else if i = 3 then Some demo_caller else if i = 4 then Some demo_healer else None)"
  by (auto simp: slot_of_def demo_sched_def nth_append nth_Cons split: nat.splits)

lemma demo_sched_simps [simp]: "s_current demo_sched = 0" "length (s_tasks demo_sched) = 27"
  by (simp_all add: demo_sched_def)

lemmas demo_tasks = demo_client_def demo_server_def demo_idle_def demo_caller_def demo_healer_def demo_task_def

lemma caps_of_Cons [simp]: "caps_of (x # xs) = set_option x \<union> caps_of xs" "caps_of [] = {}"
  by (cases x) (auto simp: caps_of_def)

lemma demo_wf: "sched_wf {0, 1, 3, 4} demo_sched"
  unfolding sched_wf_def slot_of_demo
  by (auto simp: MAX_TASKS_def split: if_splits)
    (simp_all add: demo_tasks task_wf_def task_caps_def cap_ok_def CAP_SLOTS_def MAX_TASKS_def)

lemma demo_run: "run_ok 2 demo_sched"
  unfolding run_ok_def slot_of_demo by (auto simp: demo_tasks state_ok_def split: if_splits)

lemma demo_kernel_simps [simp]: "k_sched demo_kernel = demo_sched" "frame demo_kernel = blank_frame"
  by (simp_all add: demo_kernel_def boot_kernel_def frame_def)

lemma demo_kernel_wf: "kernel_wf {0, 1, 3, 4} 2 demo_kernel"
  using demo_wf demo_run
  by (simp add: kernel_wf_def demo_kernel_def boot_kernel_def frames_ok_def blank_frame_def heal_wf_init)

lemma decode_timer: "decode (scause timer_frame) = SupervisorTimer"
  by (simp add: timer_frame_def decode_def INTERRUPT_BIT_def Let_def)

lemma timer_admissible: "admissible R k timer_frame"
  using decode_timer by (simp add: admissible_def timer_frame_def blank_frame_def)

lemma find_blocked_demo:
  "find_blocked demo_sched 0 RoleRecv = Some 1" "find_blocked demo_sched CRASH_EP RoleRecv = Some 4"
  by (simp_all add: find_blocked_def demo_sched_def demo_tasks CRASH_EP_def)

lemma demo_client_caps:
  "cap_lookup (t_caps demo_client) 0 = Some 0" "cap_lookup (t_caps demo_client) 3 = None"
  "cap_lookup (t_caps demo_client) 99 = None" "cap_at (t_caps demo_client) 2 = Some (Restart 1)"
  "reply_caller (t_caps demo_client) (Suc 0) = Some 3" "restart_target (t_caps demo_client) 2 = Some 1"
  by (simp_all add: demo_tasks cap_lookup_def cap_at_def reply_caller_def restart_target_def get_def)

lemma demo_slots:
  "slot_of demo_sched 0 = Some demo_client" "slot_of demo_sched (Suc 0) = Some demo_server"
  "slot_of demo_sched 2 = Some demo_idle" "slot_of demo_sched 3 = Some demo_caller"
  "slot_of demo_sched 4 = Some demo_healer"
  by (simp_all add: slot_of_demo)

end
