(* ===== verification/Homes.thy ===== *)
theory Homes
  imports Kernel_Safety
begin

text \<open>
  Which address space is active. Every task keeps the space it was spawned with, and whenever the kernel has switched, the
  \<^verbatim>\<open>satp\<close> it loaded is the one of the task that runs: an invariant of all reachable states, by weakest
  liberal preconditions over the steps of \<open>Sched\<close>, \<open>Ipc\<close> and \<open>Kernel\<close>.
\<close>

section \<open>Weakest liberal preconditions\<close>

definition leads :: "'a result \<Rightarrow> ('a \<Rightarrow> bool) \<Rightarrow> bool" where
  "leads r P \<longleftrightarrow> (\<forall>x. r = Inr x \<longrightarrow> P x)"

named_theorems wlp \<open>weakest liberal preconditions of single operations\<close>

lemma leads_Inr [simp, wlp]: "leads (Inr x) P = P x"
  by (simp add: leads_def)

lemma leads_Inl [simp, wlp]: "leads (Inl e) P"
  by (simp add: leads_def)

lemma leads_bindr [wlp]: "leads (bindr r f) P = leads r (\<lambda>x. leads (f x) P)"
  by (cases r) simp_all

lemma leads_if [wlp]: "leads (if b then r else r') P = (if b then leads r P else leads r' P)"
  by simp

lemma leads_let [wlp]: "leads (let x = a in f x) P = leads (f a) P"
  by simp

lemma leads_assertr [wlp]: "leads (assertr b e) P = (b \<longrightarrow> P ())"
  by (simp add: assertr_def)

lemma leads_expectr [wlp]: "leads (expectr v e) P = (\<forall>x. v = Some x \<longrightarrow> P x)"
  by (cases v) (simp_all add: expectr_def)

lemma leads_idx [wlp]: "leads (idx xs i) P = (i < length xs \<longrightarrow> P (xs ! i))"
  by (simp add: idx_def leads_def)

lemma leads_task_at [wlp]: "leads (task_at s i) P = (\<forall>t. slot_of s i = Some t \<longrightarrow> P t)"
  by (auto simp: task_at_def slot_of_def wlp)

lemma leads_modify_task [wlp]: "leads (modify_task s i f) P = (\<forall>t. slot_of s i = Some t \<longrightarrow> P (put_task s i (f t)))"
  by (auto simp: modify_task_def put_task_def wlp)

lemma leads_set_state [wlp]: "leads (set_state s i st) P = (\<forall>t. slot_of s i = Some t \<longrightarrow> P (put_task s i (t\<lparr>t_state := st\<rparr>)))"
  by (simp add: set_state_def wlp)

lemma leads_sched_with [wlp]: "leads (sched_with k f) P = (\<not> k_sched_in_use k \<longrightarrow> leads (f (k_sched k)) P)"
  by (cases "k_sched_in_use k") simp_all

lemma leads_sched_withI: "leads (f (k_sched k)) P \<Longrightarrow> leads (sched_with k f) P"
  by (simp add: leads_sched_with)

lemma leads_pool_with [wlp]: "leads (pool_with k f) P = (\<not> k_pool_in_use k \<longrightarrow> P (f (k_pool k)))"
  by (simp add: pool_with_def assertr_def)

lemma leads_mono: "leads r P \<Longrightarrow> (\<And>x. P x \<Longrightarrow> Q x) \<Longrightarrow> leads r Q"
  by (simp add: leads_def)

lemma leads_any: "(\<And>x. P x) \<Longrightarrow> leads r P"
  by (simp add: leads_def)

section \<open>Steps of the run queue\<close>

definition home :: "task \<Rightarrow> string \<times> usize \<times> relaunch_info option" where
  "home t = (t_name t, t_satp t, t_relaunch t)"

definition same_homes :: "sched \<Rightarrow> sched \<Rightarrow> bool" where
  "same_homes s s' \<longleftrightarrow> (\<forall>i. map_option home (slot_of s' i) = map_option home (slot_of s i))"

text \<open>A step that stays with the running task, and one that switches and reports the space to load.\<close>

definition stays :: "sched \<Rightarrow> sched \<Rightarrow> bool" where
  "stays s s' \<longleftrightarrow> same_homes s s' \<and> s_current s' = s_current s"

definition switches :: "sched \<Rightarrow> sched \<times> usize \<Rightarrow> bool" where
  "switches s = (\<lambda>(s', satp). same_homes s s' \<and> (\<exists>t. slot_of s' (s_current s') = Some t \<and> satp = t_satp t))"

lemma same_homes_refl [simp]: "same_homes s s"
  by (simp add: same_homes_def)

lemma same_homes_trans: "same_homes s s1 \<Longrightarrow> same_homes s1 s2 \<Longrightarrow> same_homes s s2"
  by (simp add: same_homes_def)

lemma same_homes_put [simp]:
  "slot_of s1 i \<noteq> None \<Longrightarrow> home t' = home (the (slot_of s1 i)) \<Longrightarrow> same_homes s (put_task s1 i t') = same_homes s s1"
proof -
  assume a: "slot_of s1 i \<noteq> None" "home t' = home (the (slot_of s1 i))"
  then have "map_option home (slot_of (put_task s1 i t') j) = map_option home (slot_of s1 j)" for j by auto
  then show ?thesis by (simp only: same_homes_def)
qed

lemma same_homes_current [simp]: "same_homes s (s1\<lparr>s_current := c\<rparr>) = same_homes s s1"
  by (simp add: same_homes_def)

lemma stays_refl [simp]: "stays s s"
  by (simp add: stays_def)

lemma stays_put [simp]:
  "slot_of s1 i \<noteq> None \<Longrightarrow> home t' = home (the (slot_of s1 i)) \<Longrightarrow> stays s (put_task s1 i t') = stays s s1"
  by (simp add: stays_def)

lemma home_update [simp]:
  "home (t\<lparr>t_state := st\<rparr>) = home t" "home (t\<lparr>t_message := m\<rparr>) = home t" "home (t\<lparr>t_caps := c\<rparr>) = home t"
  "home (t\<lparr>t_caller := cl\<rparr>) = home t" "home (t\<lparr>t_pending_grant := g\<rparr>) = home t"
  "home (t\<lparr>t_context := x, t_restarts := n, t_state := st\<rparr>) = home t" "home (t\<lparr>t_crash_badge := b\<rparr>) = home t"
  "home (t\<lparr>t_context := x\<rparr>) = home t"
  by (simp_all add: home_def)

lemma run_next_switches: "same_homes s s1 \<Longrightarrow> leads (run_next s1 n) (switches s)"
  by (auto simp: run_next_def wlp switches_def)

lemma yield_step_switches: "leads (yield_step s) (\<lambda>r. case r of None \<Rightarrow> True | Some x \<Rightarrow> switches s x)"
  by (auto simp: yield_step_def wlp intro!: run_next_switches)

lemma park_step_switches: "leads (park_step s st) (switches s)"
  by (auto simp: park_step_def wlp intro!: run_next_switches)

lemma enter_step_switches: "leads (enter_step s) (switches s)"
  by (auto simp: enter_step_def wlp intro!: run_next_switches)

lemma notify_healer_stays: "leads (notify_healer s c) (\<lambda>(s', _). stays s s')"
  by (auto simp: notify_healer_def wlp split: option.splits)

lemma crash_step_stays: "leads (crash_step s hl c) (\<lambda>(s', _, _). stays s s')"
  unfolding crash_step_def
  by (auto simp: wlp split: prod.splits intro: leads_mono [OF notify_healer_stays])

lemma retire_switches: "same_homes s s1 \<Longrightarrow> leads (retire s1 pref) (switches s)"
  by (auto simp: retire_def wlp intro!: run_next_switches)

lemma exit_step_switches: "leads (exit_step s hl reason) (\<lambda>(s', _, satp). switches s (s', satp))"
proof -
  have "leads (case reason of ExitedWith code \<Rightarrow> Inr (s, hl, None) | Killed c \<Rightarrow> crash_step s hl c) (\<lambda>(s', _, _). same_homes s s')"
    by (cases reason) (auto simp: stays_def intro: leads_mono [OF crash_step_stays])
  then show ?thesis
    unfolding exit_step_def leads_bindr
    by (rule leads_mono) (auto simp: wlp split: prod.splits intro: leads_mono [OF retire_switches])
qed

section \<open>Rendezvous steps\<close>

lemma install_cap_stays: "stays s s1 \<Longrightarrow> leads (install_cap s1 i slot c) (\<lambda>s'. stays s s')"
  by (auto simp: install_cap_def wlp)

lemma take_message_stays: "leads (take_message s c si is_call slot) (\<lambda>(s', _). stays s s')"
  by (auto simp: take_message_def mint_reply_cap_install wlp split: option.splits
      intro!: leads_mono [OF install_cap_stays] install_cap_stays)

lemma recv_step_stays: "leads (recv_step s c slot) (\<lambda>(s', _). stays s s')"
  by (auto simp: recv_step_def wlp split: option.splits intro!: leads_mono [OF take_message_stays])

lemma recv_wake_stays: "leads (recv_wake s slot) (\<lambda>(s', _). stays s s')"
  by (auto simp: recv_wake_def mint_reply_cap_install wlp split: option.splits intro!: leads_mono [OF install_cap_stays])

lemma recv_message_step_stays: "leads (recv_message_step s c) (\<lambda>(s', _). stays s s')"
  by (auto simp: recv_message_step_def wlp split: option.splits)

lemma send_step_stays: "leads (send_step s c m) (\<lambda>(s', _). stays s s')"
  by (auto simp: send_step_def wlp split: option.splits)

lemma grant_step_stays: "leads (grant_step s c src b) (\<lambda>(s', _). stays s s')"
  by (auto simp: grant_step_def wlp split: option.splits)

lemma call_endpoint_stays: "leads (call_endpoint s ep m) (\<lambda>(s', _). stays s s')"
  by (auto simp: call_endpoint_def wlp split: option.splits)

lemma call_step_stays: "leads (call_step s c m) (\<lambda>(s', _). stays s s')"
  by (auto simp: call_step_def wlp split: option.splits intro: call_endpoint_stays)

lemma call_message_step_stays: "leads (call_message_step s c b) (\<lambda>(s', _). stays s s')"
  by (auto simp: call_message_step_def wlp intro: call_endpoint_stays)

lemma reply_step_stays: "leads (reply_step s slot m) (\<lambda>(s', _). stays s s')"
  by (auto simp: reply_step_def awaiting_def wlp split: option.splits)

lemma restart_step_stays: "leads (restart_step ut ss s c) (\<lambda>(s', _). stays s s')"
  by (auto simp: restart_step_def wlp home_def split: option.splits)

lemma wake_irq_stays: "leads (wake_irq s irq) (\<lambda>(s', _). stays s s')"
  by (auto simp: wake_irq_def wlp split: option.splits)

lemma revoke_from_homes: "map (map_option home) (fst (revoke_from i ts ep ex)) = map (map_option home) ts"
  by (induction i ts ep ex rule: revoke_from.induct) (auto simp: Let_def split: prod.splits option.splits)

lemma revoke_step_stays: "leads (revoke_step s c) (\<lambda>(s', _). stays s s')"
proof -
  have "stays s (s\<lparr>s_tasks := ts\<rparr>)" if "revoke_from 0 (s_tasks s) ep ex = (ts, n)" for ts n ep ex
  proof -
    have e: "map (map_option home) ts = map (map_option home) (s_tasks s)" using revoke_from_homes [of 0 "s_tasks s" ep ex] that by simp
    then have "length ts = length (s_tasks s)" by (metis length_map)
    with e show ?thesis by (auto simp: stays_def same_homes_def slot_of_def) (metis nth_map)
  qed
  then show ?thesis by (auto simp: revoke_step_def revoke_endpoint_def wlp split: option.splits prod.splits)
qed

section \<open>Kernel steps\<close>

text \<open>What a step of the whole kernel keeps, when the active space was the running task's before.\<close>

definition own_space :: "'r kernel \<Rightarrow> bool" where
  "own_space k \<longleftrightarrow> (\<exists>t. slot_of (k_sched k) (cur k) = Some t \<and> k_satp k = t_satp t)"

definition kept :: "'r kernel \<Rightarrow> 'r kernel \<Rightarrow> bool" where
  "kept k k' \<longleftrightarrow> same_homes (k_sched k) (k_sched k') \<and> own_space k'"

lemma own_space_stays:
  assumes "own_space k" "stays (k_sched k) (k_sched k')" "k_satp k' = k_satp k"
  shows "kept k k'"
proof -
  obtain t where t: "slot_of (k_sched k) (cur k) = Some t" "k_satp k = t_satp t" using assms(1) by (auto simp: own_space_def)
  have "map_option home (slot_of (k_sched k') (cur k)) = Some (home t)" using assms(2) t(1) by (simp add: stays_def same_homes_def)
  then show ?thesis using assms t by (auto simp: kept_def own_space_def stays_def home_def)
qed

lemma k_satp_simps [simp]:
  "k_satp (put_frame k f) = k_satp k" "k_satp (set_reg k i v) = k_satp k" "k_satp (write_message k m) = k_satp k"
  by (simp_all add: put_frame_def set_reg_def write_message_def split: prod.split)

lemma advance_simps: "leads (advance k n) (\<lambda>k'. k_sched k' = k_sched k \<and> k_satp k' = k_satp k)"
  by (auto simp: advance_def wlp intro!: leads_any)

lemma resume_stays: "leads (resume k) (\<lambda>k'. stays (k_sched k) (k_sched k') \<and> k_satp k' = k_satp k)"
proof (cases "k_cont k (cur k)")
  case (InRecv slot)
  then show ?thesis
    by (simp add: resume_def wlp, intro leads_mono [OF recv_wake_stays])
      (auto intro!: leads_mono [OF advance_simps])
qed (auto simp: resume_def wlp intro!: leads_mono [OF advance_simps])

text \<open>A resumed task finishes its own handler: no other task changes.\<close>

lemma install_cap_others:
  "leads (install_cap s1 i rs c) (\<lambda>s'. s_current s' = s_current s1 \<and> (\<forall>j. j \<noteq> i \<longrightarrow> slot_of s' j = slot_of s1 j))"
  by (auto simp: install_cap_def wlp)

lemma recv_wake_others:
  "leads (recv_wake s rs) (\<lambda>(s', _). s_current s' = s_current s \<and> (\<forall>j. j \<noteq> s_current s \<longrightarrow> slot_of s' j = slot_of s j))"
  by (auto simp: recv_wake_def mint_reply_cap_install wlp split: option.splits intro!: leads_mono [OF install_cap_others])

lemma advance_others: "leads (advance k n) (\<lambda>k'. k_sched k' = k_sched k \<and> k_exits k' = k_exits k)"
  by (auto simp: advance_def wlp intro!: leads_any)

lemma exits_message [simp]: "k_exits (write_message k m) = k_exits k"
  by (simp add: write_message_sets)

lemma resume_others:
  "leads (resume k) (\<lambda>k'. cur k' = cur k \<and> k_exits k' = k_exits k \<and>
     (\<forall>j. j \<noteq> cur k \<longrightarrow> slot_of (k_sched k') j = slot_of (k_sched k) j))"
proof (cases "k_cont k (cur k)")
  case (InRecv rs)
  then show ?thesis
    by (simp add: resume_def wlp, intro leads_mono [OF recv_wake_others]) (auto intro!: leads_mono [OF advance_others])
qed (auto simp: resume_def wlp intro!: leads_mono [OF advance_others])

lemma switched_kept:
  fixes k k1 :: "'r kernel"
  assumes "same_homes (k_sched k) s" "switches s (k_sched k1, k_satp k1)"
  shows "leads (resume k1) (kept k)"
proof (rule leads_mono [OF resume_stays])
  fix k' :: "'r kernel" assume "stays (k_sched k1) (k_sched k') \<and> k_satp k' = k_satp k1"
  moreover have "own_space k1" using assms by (auto simp: switches_def own_space_def)
  moreover have "same_homes (k_sched k) (k_sched k1)" using assms by (auto simp: switches_def dest: same_homes_trans)
  ultimately show "kept k k'"
    using own_space_stays [of k1 k'] same_homes_trans [of "k_sched k" "k_sched k1" "k_sched k'"] by (auto simp: kept_def)
qed

lemma yield_now_kept: "own_space k \<Longrightarrow> leads (yield_now k c) (kept k)"
  unfolding yield_now_def leads_bindr
  by (rule leads_sched_withI, rule leads_mono [OF yield_step_switches]) (auto simp: switch_to_def own_space_stays split: option.splits intro: switched_kept [OF same_homes_refl])

lemma park_current_kept: "same_homes (k_sched k) (k_sched k1) \<Longrightarrow> leads (park_current k1 st c) (kept k)"
  unfolding park_current_def leads_bindr
  by (rule leads_sched_withI, rule leads_mono [OF park_step_switches]) (clarsimp simp: switch_to_def, rule switched_kept, assumption, simp)

lemma exit_current_kept: "same_homes (k_sched k) (k_sched k1) \<Longrightarrow> leads (exit_current k1 reason) (kept k)"
  unfolding exit_current_def leads_bindr
  by (rule leads_sched_withI, rule leads_mono [OF exit_step_switches]) (clarsimp, rule switched_kept, assumption, simp)

text \<open>Handlers: they stay with the running task, or report that they switched.\<close>

definition handled :: "'r kernel \<Rightarrow> 'r kernel \<times> outcome \<Rightarrow> bool" where
  "handled k = (\<lambda>(k', out). if out = Switched then kept k k' else stays (k_sched k) (k_sched k') \<and> k_satp k' = k_satp k)"

lemma handled_simps [simp]:
  "handled k (set_reg k1 i v, out) = handled k (k1, out)" "handled k (write_message k1 m, out) = handled k (k1, out)"
  by (auto simp: handled_def kept_def own_space_def)

lemma block_current_handled: "same_homes (k_sched k) (k_sched k1) \<Longrightarrow> leads (block_current k1 ep r c) (handled k)"
  unfolding block_current_def leads_bindr by (rule leads_mono [OF park_current_kept]) (auto simp: handled_def)

lemma park_handled: "same_homes (k_sched k) (k_sched k1) \<Longrightarrow> leads (bindr (park_current k1 st c) (\<lambda>k2. Inr (k2, Switched))) (handled k)"
  unfolding leads_bindr by (rule leads_mono [OF park_current_kept]) (auto simp: handled_def)

lemma stays_homes: "stays s s' \<Longrightarrow> same_homes s s'"
  by (simp add: stays_def)

lemma handledI: "out \<noteq> Switched \<Longrightarrow> stays (k_sched k) (k_sched k1) \<Longrightarrow> k_satp k1 = k_satp k \<Longrightarrow> handled k (k1, out)"
  by (simp add: handled_def)

lemmas handled_intros = handledI block_current_handled park_handled stays_homes

lemma ipc_recv_handled: "leads (ipc_recv k) (handled k)"
  unfolding ipc_recv_def leads_let leads_bindr
  by (rule leads_sched_withI, rule leads_mono [OF recv_step_stays]) (auto simp: Let_def split: recv_outcome.splits intro!: handled_intros)

lemma finish_send_handled: "stays (k_sched k) (k_sched k1) \<Longrightarrow> k_satp k1 = k_satp k \<Longrightarrow> leads (finish_send k1 step) (handled k)"
  by (auto simp: finish_send_def split: send_outcome.splits intro!: handled_intros)

lemma ipc_send_handled: "leads (ipc_send k) (handled k)"
  unfolding ipc_send_def leads_bindr by (rule leads_sched_withI, rule leads_mono [OF send_step_stays]) (auto intro!: finish_send_handled)

lemma ipc_grant_handled: "leads (ipc_grant k) (handled k)"
  unfolding ipc_grant_def leads_bindr by (rule leads_sched_withI, rule leads_mono [OF grant_step_stays]) (auto intro!: finish_send_handled)

lemma ipc_call_handled: "leads (ipc_call k) (handled k)"
  unfolding ipc_call_def leads_bindr
  by (rule leads_sched_withI, rule leads_mono [OF call_step_stays]) (auto simp: Let_def split: call_outcome.splits intro!: handled_intros)

lemma ipc_reply_handled: "leads (ipc_reply k) (handled k)"
  unfolding ipc_reply_def leads_bindr by (rule leads_sched_withI, rule leads_mono [OF reply_step_stays]) (auto simp: handled_def)

lemma ipc_revoke_handled: "leads (ipc_revoke k) (handled k)"
  unfolding ipc_revoke_def leads_bindr by (rule leads_sched_withI, rule leads_mono [OF revoke_step_stays]) (auto simp: handled_def)

lemma restart_handled: "leads (restart e k) (handled k)"
  unfolding restart_def leads_bindr by (rule leads_sched_withI, rule leads_mono [OF restart_step_stays]) (auto simp: handled_def split: option.splits)

lemma wait_irq_handled: "leads (wait_irq k) (handled k)"
  by (auto simp: wait_irq_def wait_irq_step_def leads_bindr leads_task_at leads_sched_with handled_def split: option.splits
      intro!: leads_mono [OF park_current_kept])

lemma seal_handled: "leads (seal e k) (handled k)"
  by (clarsimp simp: seal_def wlp Let_def, intro conjI impI handledI, simp_all, rule leads_any)
    (auto split: prod.split intro!: handledI)

lemma open_sealed_handled: "leads (open_sealed e k) (handled k)"
  by (auto simp: open_sealed_def wlp Let_def split: option.splits intro!: handledI)

lemma getrandom_handled: "leads (getrandom e k) (handled k)"
  by (auto simp: getrandom_def wlp Let_def split: prod.splits intro!: handledI)

lemma print_handled: "leads (bindr (sys_print e k p n) (\<lambda>(k1, w). Inr (set_reg k1 9 w, Resume))) (handled k)"
  by (auto simp: sys_print_def wlp intro!: leads_any handledI)

lemmas handlers_handled = ipc_recv_handled ipc_send_handled ipc_grant_handled ipc_call_handled ipc_reply_handled ipc_revoke_handled
  restart_handled wait_irq_handled seal_handled open_sealed_handled getrandom_handled print_handled

text \<open>What \<^verbatim>\<open>dispatch\<close> leaves for the trap handler to do.\<close>

lemma dispatch_handled: "leads (dispatch e k) (handled k)"
  unfolding dispatch_def
  by (cases "decode_syscall (reg k 16)") (simp_all add: handlers_handled handledI)

lemma kept_stays: "own_space (k :: 'r kernel) \<Longrightarrow> stays (k_sched k) (k_sched k1) \<Longrightarrow> k_satp k1 = k_satp k \<Longrightarrow> own_space (k1 :: 'r kernel)"
  using own_space_stays [of k k1] by (simp add: kept_def)

lemma kept_trans: "same_homes (k_sched k) (k_sched k1) \<Longrightarrow> kept k1 k2 \<Longrightarrow> kept k k2"
  by (auto simp: kept_def dest: same_homes_trans)

lemma user_ecall_kept:
  assumes "own_space k"
  shows "leads (user_ecall e k) (kept k)"
  unfolding user_ecall_def leads_bindr
proof (rule leads_mono [OF dispatch_handled], clarsimp)
  fix k1 out assume h: "handled k (k1, out)"
  show "leads (case out of Resume \<Rightarrow> advance k1 4 | Exit code \<Rightarrow> exit_current k1 (ExitedWith code)
      | Yield \<Rightarrow> bindr (advance k1 4) (\<lambda>k2. yield_now k2 InTrap) | Switched \<Rightarrow> Inr k1) (kept k)"
  proof (cases out)
    case Resume
    then show ?thesis using h assms own_space_stays [OF assms] by (auto simp: handled_def intro!: leads_mono [OF advance_simps])
  next
    case (Exit code)
    then show ?thesis using h by (auto simp: handled_def stays_def intro!: exit_current_kept)
  next
    case Yield
    have "leads (yield_now k2 InTrap) (kept k)" if "k_sched k2 = k_sched k1 \<and> k_satp k2 = k_satp k1" for k2
      using h Yield that kept_stays [of k k2] assms
      by (auto simp: handled_def stays_def intro!: leads_mono [OF yield_now_kept] kept_trans [of k k2])
    then show ?thesis using Yield by (auto simp: leads_bindr intro!: leads_mono [OF advance_simps])
  next
    case Switched
    then show ?thesis using h by (simp add: handled_def)
  qed
qed

lemma skip_instruction_kept: "own_space k \<Longrightarrow> leads (skip_instruction e k) (kept k)"
  by (auto simp: skip_instruction_def split: option.splits intro!: leads_mono [OF advance_simps] own_space_stays)

lemma external_irq_kept: "own_space k \<Longrightarrow> leads (external_irq k irq) (kept k)"
  by (auto simp: external_irq_def leads_bindr own_space_stays intro!: leads_sched_withI leads_mono [OF wake_irq_stays] own_space_stays)

lemma trap_handler_kept:
  assumes "own_space k"
  shows "leads (trap_handler e irq k f) (kept k)"
proof -
  have own: "own_space (put_frame k f)" "own_space (put_frame k f\<lparr>k_expecting_wx := False\<rparr>)" using assms by (simp_all add: own_space_def)
  have kp: "kept k = kept (put_frame k f)" "kept k = kept (put_frame k f\<lparr>k_expecting_wx := False\<rparr>)" by (intro ext, simp add: kept_def)+
  have "leads (trap_handler e irq k f) (kept (put_frame k f))"
    using yield_now_kept [OF own(1)] exit_current_kept [of "put_frame k f" "put_frame k f"] user_ecall_kept [OF own(1)]
      external_irq_kept [OF own(1)] skip_instruction_kept [OF own(1)] skip_instruction_kept [OF own(2)]
    unfolding trap_handler_def Let_def by (auto split: cause.splits simp flip: kp)
  then show ?thesis by (simp add: kp(1))
qed

lemma attempt_kept:
  assumes "own_space k"
  shows "leads (recv_attempt k i) (\<lambda>(k', _). kept k k')" and "leads (call_attempt k i b) (\<lambda>(k', _). kept k k')"
  unfolding recv_attempt_def call_attempt_def leads_bindr
  by (rule leads_sched_withI, rule leads_mono [OF recv_message_step_stays], use assms in \<open>auto intro!: own_space_stays\<close>)
    (rule leads_sched_withI, rule leads_mono [OF call_message_step_stays], use assms in \<open>auto intro!: own_space_stays\<close>)

lemma finish_kept:
  assumes "own_space k"
  shows "leads (recv_finish k x) (kept k)" and "leads (call_finish k y) (kept k)"
  using assms
  by (auto simp: recv_finish_def call_finish_def split: recv_outcome.splits call_outcome.splits
      intro!: own_space_stays park_current_kept)

lemma enter_kept: "leads (enter k) (kept k)"
  unfolding enter_def leads_bindr
  by (rule leads_sched_withI, rule leads_mono [OF enter_step_switches]) (auto intro!: switched_kept [OF same_homes_refl])

lemma leadsD: "leads r P \<Longrightarrow> r = Inr x \<Longrightarrow> P x"
  by (simp add: leads_def)

lemma kept_step:
  assumes "kept k0 k" "own_space k \<Longrightarrow> leads r (kept k)" "r = Inr k'"
  shows "kept k0 k'"
  using assms leadsD [of r "kept k" k'] kept_trans [of k0 k k'] by (simp add: kept_def)

lemma reachable_kept:
  assumes "reachable R d k0 k" "own_space k0"
  shows "kept k0 k"
  using assms
proof (induction rule: reachable.induct)
  case (trap k e f irq k')
  then show ?case using kept_step [OF _ trap_handler_kept] by blast
next
  case (kyield k k')
  then show ?case using kept_step [OF _ yield_now_kept] unfolding kernel_yield_def by blast
next
  case (krecv k i k' step)
  then show ?case using attempt_kept(1) [of k i] kept_trans [of k0 k k'] by (auto simp: kept_def leads_def)
next
  case (krecv_rest k step k')
  then show ?case using kept_step [OF _ finish_kept(1)] by blast
next
  case (kcall k i b k' cstep)
  then show ?case using attempt_kept(2) [of k i b] kept_trans [of k0 k k'] by (auto simp: kept_def leads_def)
next
  case (kcall_rest k cstep k')
  then show ?case using kept_step [OF _ finish_kept(2)] by blast
next
  case (kpool k pool u)
  then show ?case by (simp add: kept_def own_space_def)
qed (simp add: kept_def)

end
