(* ===== verification/Kernel_Props.thy ===== *)
theory Kernel_Props
  imports Demo Homes
begin

text \<open>
  The properties of the kernel proper: which traps stop a booted system and which it handles, what
  interrupts do to the calls of kernel tasks, authority confinement, scheduling, IPC delivery, one-shot replies, delegation,
  revocation, the crash path, the print guard and the encrypted channel.
\<close>

section \<open>Scheduling\<close>

fun yields :: "nat \<Rightarrow> sched \<Rightarrow> sched result" where
  "yields 0 s = Inr s"
| "yields (Suc n) s =
     bindr (yield_step s) (\<lambda>r. case r of None \<Rightarrow> Inr s | Some (s1, _) \<Rightarrow> yields n s1)"

lemma yield_step_slots:
  assumes wf: "sched_wf R s" and run: "run_ok d s" and n: "pick_next s \<noteq> s_current s"
  shows "\<exists>s' satp. yield_step s = Inr (Some (s', satp)) \<and> switched R d s s' \<and> s_current s' = pick_next s \<and>
    (\<forall>j. j \<noteq> s_current s \<and> j \<noteq> pick_next s \<longrightarrow> slot_of s' j = slot_of s j)"
proof -
  from yield_step_ok [OF wf run] n obtain s' satp where
    r: "yield_step s = Inr (Some (s', satp))" "switched R d s s'" "s_current s' = pick_next s"
    by (auto simp: holds_iff split: option.splits)
  obtain t where t: "slot_of s (s_current s) = Some t" using sched_wf_current [OF wf] by auto
  have "holds (yield_step s) (\<lambda>r. case r of None \<Rightarrow> True
      | Some (s', _) \<Rightarrow> \<forall>j. j \<noteq> s_current s \<and> j \<noteq> pick_next s \<longrightarrow> slot_of s' j = slot_of s j)"
    using yield_step_ok [OF wf run] n t unfolding yield_step_def Let_def
    by (auto simp: wp)
  with r show ?thesis by auto
qed

lemma distance_step:
  assumes "s_current s < MAX_TASKS" "i < MAX_TASKS" "n < MAX_TASKS" "s_current s' = n"
    "distance s n \<le> distance s i"
  shows "distance s' i = distance s i - distance s n"
  using assms by (auto simp: distance_unfold split: if_splits)

lemma yields_reach:
  assumes "sched_wf R s" "run_ok d s" "i < MAX_TASKS" "is_ready s i \<or> i = s_current s"
  shows "\<exists>n \<le> distance s i. holds (yields n s) (\<lambda>s'. s_current s' = i)"
  using assms
proof (induction "distance s i" arbitrary: s rule: less_induct)
  case less
  have c: "s_current s < MAX_TASKS"
    using less.prems(1) sched_wf_current [OF less.prems(1)] sched_wf_range by blast
  show ?case
  proof (cases "i = s_current s")
    case True
    then show ?thesis by (intro exI [of _ 0]) simp
  next
    case False
    with less.prems have r: "is_ready s i" by simp
    note p = pick_next_progress [OF c less.prems(3) False r]
    have pn: "pick_next s < MAX_TASKS" using pick_next_ready [OF c p(1)] by simp
    obtain s' satp where s': "yield_step s = Inr (Some (s', satp))" "switched R d s s'" "s_current s' = pick_next s"
        "\<forall>j. j \<noteq> s_current s \<and> j \<noteq> pick_next s \<longrightarrow> slot_of s' j = slot_of s j"
      using yield_step_slots [OF less.prems(1,2) p(1)] by blast
    have wf': "sched_wf R s'" "run_ok d s'" using s'(2) by (auto simp: switched_def)
    have dd: "distance s' i = distance s i - distance s (pick_next s)"
      using distance_step [OF c less.prems(3) pn s'(3) p(2)] .
    have pos: "0 < distance s (pick_next s)"
      using distance_inverse(3) [OF c pn] p(1) by auto
    have lt: "distance s' i < distance s i" using dd pos p(2) by linarith
    have "is_ready s' i \<or> i = s_current s'"
    proof (cases "i = pick_next s")
      case True
      then show ?thesis using s'(3) by simp
    next
      case f: False
      then have "slot_of s' i = slot_of s i" using s'(4) False by simp
      then show ?thesis using r wf' less.prems by (auto simp: is_ready_slot sched_wf_def)
    qed
    from less.hyps [OF lt wf' less.prems(3) this] obtain n where
      n: "n \<le> distance s' i" "holds (yields n s') (\<lambda>s''. s_current s'' = i)" by auto
    then show ?thesis using s'(1) lt by (intro exI [of _ "Suc n"]) simp
  qed
qed

text \<open>Round-robin selection. When \<open>pick_next\<close> moves on, it chooses a ready slot and every
  slot it passed over in scan order is not ready; it stays with the current slot only when no
  other slot is ready.\<close>
theorem pick_next_round_robin:
  assumes "s_current s < MAX_TASKS"
  shows "if pick_next s = s_current s
    then \<forall>i<MAX_TASKS. i \<noteq> s_current s \<longrightarrow> \<not> is_ready s i
    else pick_next s < MAX_TASKS \<and> is_ready s (pick_next s) \<and>
      (\<forall>j<MAX_TASKS. 0 < distance s j \<and> distance s j < distance s (pick_next s) \<longrightarrow> \<not> is_ready s j)"
  using pick_next_self [OF assms] pick_next_ready [OF assms] by auto

theorem pick_next_round_robin_witness:
  "s_current demo_sched < MAX_TASKS \<and> pick_next demo_sched = 2 \<and> pick_next demo_sched < MAX_TASKS \<and>
   is_ready demo_sched (pick_next demo_sched)"
proof -
  have c: "s_current demo_sched < MAX_TASKS" by (simp add: MAX_TASKS_def)
  have p: "pick_next demo_sched = 2"
    by (simp add: pick_next_def is_ready_def demo_sched_def MAX_TASKS_def demo_tasks upt_rec)
  with c pick_next_round_robin [OF c] show ?thesis by simp
qed

text \<open>C16: Fairness. A ready task runs after at most as many consecutive yields as it is slots
  ahead of the running one in scan order, that is at most 26, whatever the other tasks are.\<close>
theorem ready_task_runs:
  assumes "sched_wf R s" "run_ok d s" "i < MAX_TASKS" "is_ready s i"
  shows "\<exists>n \<le> distance s i. distance s i < MAX_TASKS \<and> (\<exists>s'. yields n s = Inr s' \<and> s_current s' = i)"
proof -
  have "s_current s < MAX_TASKS"
    using assms(1) sched_wf_current [OF assms(1)] sched_wf_range by blast
  then have "distance s i < MAX_TASKS" using distance_inverse(2) assms(3) by blast
  then show ?thesis using yields_reach [OF assms(1-3)] assms(4) by (auto simp: holds_iff)
qed

theorem ready_task_runs_witness:
  "\<exists>n \<le> distance demo_sched 2. \<exists>s'. yields n demo_sched = Inr s' \<and> s_current s' = 2"
proof -
  have "is_ready demo_sched 2" by (simp add: is_ready_def demo_sched_def demo_tasks)
  moreover have "2 < MAX_TASKS" by (simp add: MAX_TASKS_def)
  ultimately show ?thesis using ready_task_runs [OF demo_wf demo_run, of 2] by blast
qed

section \<open>Executions of a booted system\<close>

text \<open>C1: When a booted kernel panics. From the task table \<^verbatim>\<open>kmain\<close> builds, for every
  combination of devices, after any sequence of traps, yields, and halves of receives and calls of kernel
  tasks, a trap stops the kernel exactly when it is \<open>fatal\<close>: an unknown cause, a fault of the kernel's own code, an \<open>ebreak\<close>
  whose instruction the kernel cannot read, a \<^verbatim>\<open>print\<close> of memory that passes the guard but is not mapped
  for the caller, a \<^verbatim>\<open>seal\<close> at the end of the nonce counter, or a \<^verbatim>\<open>getrandom\<close> while a kernel task is
  inside the entropy pool. Every other system call, contained fault and interrupt is handled, and the kernel invariant holds
  again. When a kernel task is inside the run queue, however, a tick, or the interrupt of a device, stops the kernel.\<close>
theorem kernel_panics_exactly_when_fatal:
  assumes "boot_tasks b = Inr (s, d)" "enter (boot_kernel ch s) = Inr k0"
    and "reachable (user_slots s) d k0 k" "admissible (user_slots s) k f"
  shows "(if fatal e k f then \<exists>c. trap_handler e irq k f = Inl c
      else \<exists>k'. trap_handler e irq k f = Inr k' \<and> kernel_wf (user_slots s) d k') \<and>
    (decode (scause f) = SupervisorTimer \<or> decode (scause f) = SupervisorExternal \<and> irq \<noteq> 0 \<longrightarrow>
      \<not> fatal e k f \<and> trap_handler e irq (k\<lparr>k_sched_in_use := True\<rparr>) f = Inl reentrant)"
proof -
  from assms(1) boot_tasks_ok [of b] obtain R where R: "boot_inv (Suc d) R s" "d \<notin> R" "0 < d"
    by (auto simp: booted_def)
  have us: "user_slots s = R" using boot_inv_user_slots [OF R(1)] .
  have "kernel_wf R d k0" by (rule holds_InrD [OF enter_boot [OF R] assms(2)])
  then have wf: "kernel_wf R d k" using reachable_invariant assms(3) us by blast
  have "if fatal e k f then \<exists>c. trap_handler e irq k f = Inl c else \<exists>k'. trap_handler e irq k f = Inr k' \<and> kernel_wf R d k'"
    using trap_handler_safe [OF wf, of f e irq] trap_handler_fatal [OF wf, of f e irq] assms(4) us
    by (auto simp: holds_iff safe_to_def)
  moreover have "\<not> fatal e k f \<and> trap_handler e irq (k\<lparr>k_sched_in_use := True\<rparr>) f = Inl reentrant"
    if "decode (scause f) = SupervisorTimer \<or> decode (scause f) = SupervisorExternal \<and> irq \<noteq> 0"
    using that interrupt_in_closure [of "k\<lparr>k_sched_in_use := True\<rparr>" f irq e] by (auto simp: fatal_def)
  ultimately show ?thesis unfolding us by blast
qed

theorem kernel_panics_exactly_when_fatal_witness:
  "\<exists>s d. \<exists>k0 :: unit kernel. \<exists>k'. boot_tasks demo_cfg = Inr (s, d) \<and> enter (boot_kernel channel_init s) = Inr k0 \<and>
     trap_handler demo_env 0 k0 timer_frame = Inr k' \<and> kernel_wf (user_slots s) d k' \<and>
     trap_handler demo_env 0 (k0\<lparr>k_sched_in_use := True\<rparr>) timer_frame = Inl reentrant"
proof -
  from boot_tasks_ok [of demo_cfg] obtain s d R where s: "boot_tasks demo_cfg = Inr (s, d)"
      and R: "boot_inv (Suc d) R s" "d \<notin> R" "0 < d"
    by (auto simp: booted_def holds_iff)
  have "holds (enter (boot_kernel channel_init s :: unit kernel)) (kernel_wf R d)" using R by (rule enter_boot)
  then obtain k0 :: "unit kernel" where k0: "enter (boot_kernel channel_init s) = Inr k0" by (auto simp: holds_iff)
  from kernel_panics_exactly_when_fatal [OF s k0 reachable.start timer_admissible, of demo_env 0] s k0 decode_timer
  show ?thesis by auto
qed






text \<open>Booting succeeds: with any devices the task table fits, every grant names an existing
  slot, and entering the scheduler gives a kernel that satisfies the invariant.\<close>
theorem boot_succeeds:
  "\<exists>s d. \<exists>k :: 'r kernel. boot_tasks b = Inr (s, d) \<and> enter (boot_kernel ch s) = Inr k \<and>
     kernel_wf (user_slots s) d k \<and> d \<notin> user_slots s"
proof -
  from boot_tasks_ok [of b] obtain s d R where s: "boot_tasks b = Inr (s, d)"
      and R: "boot_inv (Suc d) R s" "d \<notin> R" "0 < d"
    by (auto simp: booted_def holds_iff)
  have us: "user_slots s = R" using boot_inv_user_slots [OF R(1)] .
  have "holds (enter (boot_kernel ch s :: 'r kernel)) (kernel_wf R d)" using R by (rule enter_boot)
  then obtain k :: "'r kernel" where "enter (boot_kernel ch s) = Inr k" "kernel_wf R d k"
    by (auto simp: holds_iff)
  with s us R(2) show ?thesis by auto
qed

text \<open>C3: Capabilities cannot be forged. Whatever the components do, an endpoint, restart,
  randomness, interrupt or session capability held or in transit anywhere was already in the
  system at the start; only reply rights are created.\<close>
theorem authority_never_grows:
  assumes "kernel_wf R d k0" "reachable R d k0 k" "c \<in> auth (k_sched k) i" "\<And>t. c \<noteq> Reply t"
  shows "\<exists>j. c \<in> auth (k_sched k0) j"
  using reachable_invariant [OF assms(2,1)] assms(3,4) by blast

theorem authority_never_grows_witness:
  "\<exists>k. reachable {0, 1, 3, 4} 2 demo_kernel k \<and> (\<exists>i. Restart 1 \<in> auth (k_sched k) i) \<and>
     (\<exists>j. Restart 1 \<in> auth (k_sched demo_kernel) j)"
proof -
  have "Restart 1 \<in> auth (k_sched demo_kernel) 0"
    by (simp add: auth_def slot_of_demo task_auth_def task_caps_def demo_tasks)
  then show ?thesis using authority_never_grows [OF demo_kernel_wf reachable.start, of "Restart 1" 0]
    by (intro exI [of _ demo_kernel]) (auto intro: reachable.start)
qed

text \<open>C12: One task runs at a time and the processor is never without work. In every reachable
  state only the current slot is running, the idle task is ready unless it is current, and no
  component has been restarted more than twice.\<close>
theorem scheduling_invariant:
  assumes "kernel_wf R d k0" "reachable R d k0 k" "slot_of (k_sched k) i = Some t"
  shows "(t_state t = Running \<longrightarrow> i = cur k) \<and> (i = d \<and> i \<noteq> cur k \<longrightarrow> t_state t = Ready) \<and>
    t_restarts t \<le> MAX_RESTARTS"
proof -
  have "kernel_wf R d k" using reachable_invariant [OF assms(2,1)] by (rule conjunct1)
  then have wf: "sched_wf R (k_sched k)" "run_ok d (k_sched k)" by (simp_all add: kernel_wf_def)
  have "state_ok d (cur k) i (t_state t)" using run_ok_slot [OF wf(2) assms(3)] .
  moreover have "t_restarts t \<le> MAX_RESTARTS" using sched_wf_slot [OF wf(1) assms(3)] by (simp add: task_wf_def)
  ultimately show ?thesis unfolding state_ok_def by blast
qed

theorem scheduling_invariant_witness:
  "t_state demo_idle = Ready \<and> t_restarts demo_idle \<le> MAX_RESTARTS"
  using scheduling_invariant [OF demo_kernel_wf reachable.start, of 2 demo_idle]
  by (simp add: slot_of_demo)

section \<open>Message passing\<close>

lemma modify_task_Some: "slot_of s i = Some t \<Longrightarrow> modify_task s i f = Inr (put_task s i (f t))"
  by (simp add: modify_task_def task_at_Some put_task_def)

lemma set_state_Some: "slot_of s i = Some t \<Longrightarrow> set_state s i st = Inr (put_task s i (t\<lparr>t_state := st\<rparr>))"
  by (simp add: set_state_def modify_task_Some)

lemmas exec_simps = task_at_Some modify_task_Some set_state_Some

text \<open>A send finds its receiver. When a task waits on the endpoint, the first one in slot
  order gets exactly the message sent and becomes ready, and no other slot changes.\<close>
theorem send_delivers:
  assumes "slot_of s (s_current s) = Some t" "cap_lookup (t_caps t) (unat i) = Some ep"
    and "find_blocked s ep RoleRecv = Some r"
  shows "\<exists>s' u. send_step s i m = Inr (s', Delivered) \<and> slot_of s r = Some u \<and> t_state u = Blocked ep RoleRecv \<and>
    s_current s' = s_current s \<and>
    (\<forall>j. slot_of s' j = (if j = r then Some (u\<lparr>t_message := m, t_state := Ready\<rparr>) else slot_of s j))"
proof -
  from find_blocked_Some [OF assms(3)] obtain u where "slot_of s r = Some u" "t_state u = Blocked ep RoleRecv" .
  then show ?thesis using assms by (simp add: send_step_def exec_simps)
qed

theorem send_delivers_witness:
  "\<exists>s'. send_step demo_sched 0 demo_msg = Inr (s', Delivered) \<and>
     slot_of s' 1 = Some (demo_server\<lparr>t_message := demo_msg, t_state := Ready\<rparr>) \<and> slot_of s' 3 = Some demo_caller"
  using send_delivers [of demo_sched demo_client 0 0 1 demo_msg]
  by (auto simp: demo_slots find_blocked_demo demo_client_caps)

text \<open>No message without the capability. A task that holds no endpoint at the slot it names
  changes nothing: send, receive, call and grant are refused and the run queue is untouched.\<close>
theorem ipc_needs_capability:
  assumes "slot_of s (s_current s) = Some t" "cap_lookup (t_caps t) (unat i) = None"
  shows "send_step s i m = Inr (s, SendBadCap) \<and> recv_step s i rs = Inr (s, RecvBadCap) \<and>
    call_step s i m = Inr (s, CallBadCap) \<and> grant_step s i src b = Inr (s, SendBadCap) \<and>
    revoke_step s i = Inr (s, None)"
  using assms
  by (simp add: send_step_def recv_step_def call_step_def grant_step_def revoke_step_def exec_simps)

theorem ipc_needs_capability_witness:
  "send_step demo_sched 3 demo_msg = Inr (demo_sched, SendBadCap) \<and> grant_step demo_sched 99 0 1 = Inr (demo_sched, SendBadCap)"
  using ipc_needs_capability [of demo_sched demo_client 3] ipc_needs_capability [of demo_sched demo_client 99]
  by (simp add: demo_slots demo_client_caps)

text \<open>The CSpace of a receiver after it has been woken: a reply right for a caller, then a
  delegated capability, both at the slot the receiver named.\<close>

definition store_cap :: "usize \<Rightarrow> capability option \<Rightarrow> cspace \<Rightarrow> cspace" where
  "store_cap rs c caps =
     (case c of None \<Rightarrow> caps
      | Some cap \<Rightarrow> if unat rs < CAP_SLOTS then caps[unat rs := Some cap] else caps)"

lemma install_cap_exec:
  "slot_of s i = Some t \<Longrightarrow>
   (case c of Some cap \<Rightarrow> install_cap s i rs cap | None \<Rightarrow> Inr s) =
     Inr (if c \<noteq> None \<and> unat rs < CAP_SLOTS then put_task s i (t\<lparr>t_caps := store_cap rs c (t_caps t)\<rparr>) else s)"
  by (auto simp: install_cap_def exec_simps store_cap_def split: option.splits)

lemma store_cap_id: "\<not> (c \<noteq> None \<and> unat rs < CAP_SLOTS) \<Longrightarrow> store_cap rs c caps = caps"
  by (auto simp: store_cap_def split: option.splits)

lemma recv_wake_exec:
  assumes t: "slot_of s (s_current s) = Some t"
  shows "\<exists>s'. recv_wake s rs = Inr (s', t_message t) \<and> s_current s' = s_current s \<and>
    (\<forall>j. slot_of s' j = (if j = s_current s then
        Some (t\<lparr>t_caller := None, t_pending_grant := None,
          t_caps := store_cap rs (t_pending_grant t) (store_cap rs (map_option Reply (t_caller t)) (t_caps t))\<rparr>)
      else slot_of s j))"
proof -
  let ?c = "s_current s"
  let ?t1 = "t\<lparr>t_caller := None\<rparr>" and ?s1 = "put_task s ?c (t\<lparr>t_caller := None\<rparr>)"
  let ?caps2 = "store_cap rs (map_option Reply (t_caller t)) (t_caps t)"
  let ?t3 = "t\<lparr>t_caller := None, t_caps := ?caps2, t_pending_grant := None\<rparr>"
  have e1: "modify_task s ?c (\<lambda>t. t\<lparr>t_caller := None\<rparr>) = Inr ?s1" using t by (simp add: exec_simps)
  have sl1: "slot_of ?s1 ?c = Some ?t1" using t by simp
  have e2: "\<exists>s2. (case t_caller t of Some caller \<Rightarrow> mint_reply_cap ?s1 ?c caller rs | None \<Rightarrow> Inr ?s1) = Inr s2 \<and>
      s_current s2 = ?c \<and> (\<forall>j. slot_of s2 j = (if j = ?c then Some (?t1\<lparr>t_caps := ?caps2\<rparr>) else slot_of s j))"
    using install_cap_exec [OF sl1, where c = "map_option Reply (t_caller t)" and rs = rs] t
      store_cap_id [where c = "map_option Reply (t_caller t)" and rs = rs and caps = "t_caps t"]
    by (auto simp: mint_reply_cap_install split: option.splits if_splits)
  then obtain s2 where s2: "(case t_caller t of Some caller \<Rightarrow> mint_reply_cap ?s1 ?c caller rs | None \<Rightarrow> Inr ?s1) = Inr s2"
      "s_current s2 = ?c" "\<And>j. slot_of s2 j = (if j = ?c then Some (?t1\<lparr>t_caps := ?caps2\<rparr>) else slot_of s j)" by blast
  let ?s3 = "put_task s2 ?c (?t1\<lparr>t_caps := ?caps2, t_pending_grant := None\<rparr>)"
  have e3: "modify_task s2 ?c (\<lambda>t. t\<lparr>t_pending_grant := None\<rparr>) = Inr ?s3"
    using s2(3) by (simp add: exec_simps)
  have sl3: "slot_of ?s3 ?c = Some ?t3" using s2(3) by simp
  let ?t4 = "?t3\<lparr>t_caps := store_cap rs (t_pending_grant t) ?caps2\<rparr>"
  have "\<exists>s4. (case t_pending_grant t of Some cap \<Rightarrow> install_cap ?s3 ?c rs cap | None \<Rightarrow> Inr ?s3) = Inr s4 \<and>
      s_current s4 = ?c \<and> (\<forall>j. slot_of s4 j = (if j = ?c then Some ?t4 else slot_of s j))"
    using install_cap_exec [OF sl3, where c = "t_pending_grant t" and rs = rs] s2
      store_cap_id [where c = "t_pending_grant t" and rs = rs and caps = ?caps2]
    by (auto split: option.splits if_splits)
  then obtain s4 where s4: "(case t_pending_grant t of Some cap \<Rightarrow> install_cap ?s3 ?c rs cap | None \<Rightarrow> Inr ?s3) = Inr s4"
      "s_current s4 = ?c" "\<And>j. slot_of s4 j = (if j = ?c then Some ?t4 else slot_of s j)" by blast
  have "recv_wake s rs = Inr (s4, t_message t)"
    using t e1 s2(1) e3 s4 by (simp add: recv_wake_def exec_simps)
  then show ?thesis using s4 by auto
qed

lemma regs_set_reg:
  "i < 31 \<Longrightarrow> length (regs (frame k)) = 31 \<Longrightarrow> reg (set_reg k i v) j = (if j = i then v else reg k j)"
  by (simp add: reg_def)

lemma length_set_reg [simp]: "length (regs (frame (set_reg k i v))) = length (regs (frame k))"
  by simp

definition message_in_regs :: "'r kernel \<Rightarrow> message \<Rightarrow> bool" where
  "message_in_regs k m \<longleftrightarrow> reg k 9 = badge m \<and> (reg k 10, reg k 11, reg k 12) = data m"

lemma write_message_regs:
  "length (regs (frame k)) = 31 \<Longrightarrow> message_in_regs (write_message k m) m"
  by (cases m, cases "data m") (simp add: message_in_regs_def write_message_def regs_set_reg del: set_reg_simps)

lemma advance_exec:
  "unat (sepc (frame k)) + unat n < 2 ^ 64 \<Longrightarrow>
   advance k n = Inr (put_frame k ((frame k)\<lparr>sepc := sepc (frame k) + n\<rparr>))"
  by (simp add: advance_def add_chk_def)

text \<open>C17: A woken receiver gets what was sent. When a task that blocked in \<^verbatim>\<open>recv\<close> runs again,
  the message stored for it is in \<open>a0..a3\<close>, its program counter is past the \<open>ecall\<close>, a reply
  right for a bound caller and a delegated capability are in the slot it named (the delegated one
  last), and no other task has changed.\<close>
theorem woken_receiver_gets_message:
  assumes "k_cont k (cur k) = InRecv rs" "slot_of (k_sched k) (cur k) = Some t"
    and "length (regs (frame k)) = 31" "fits (frame k)"
  shows "\<exists>k'. resume k = Inr k' \<and> cur k' = cur k \<and> message_in_regs k' (t_message t) \<and>
    sepc (frame k') = sepc (frame k) + 4 \<and>
    (\<forall>j. slot_of (k_sched k') j = (if j = cur k then
        Some (t\<lparr>t_caller := None, t_pending_grant := None,
          t_caps := store_cap rs (t_pending_grant t) (store_cap rs (map_option Reply (t_caller t)) (t_caps t))\<rparr>)
      else slot_of (k_sched k) j))"
proof -
  from recv_wake_exec [OF assms(2), of rs] obtain s' where
    s': "recv_wake (k_sched k) rs = Inr (s', t_message t)" "s_current s' = cur k"
    and sl: "\<forall>j. slot_of s' j = (if j = cur k then
        Some (t\<lparr>t_caller := None, t_pending_grant := None,
          t_caps := store_cap rs (t_pending_grant t) (store_cap rs (map_option Reply (t_caller t)) (t_caps t))\<rparr>)
      else slot_of (k_sched k) j)" by blast
  let ?k1 = "k\<lparr>k_cont := (k_cont k)(cur k := NoCont), k_sched := s'\<rparr>"
  have fr: "frame ?k1 = frame k" using s'(2) by (simp add: frame_def)
  let ?k2 = "write_message ?k1 (t_message t)"
  have "unat (sepc (frame ?k2)) + unat (4 :: usize) < 2 ^ 64" using assms(4) fr by (simp add: fits_def)
  then have adv: "advance ?k2 4 = Inr (put_frame ?k2 ((frame ?k2)\<lparr>sepc := sepc (frame k) + 4\<rparr>))"
    using advance_exec [of ?k2 4] fr by simp
  have "message_in_regs ?k2 (t_message t)" using assms(3) fr by (intro write_message_regs) simp
  moreover have "resume k = Inr (put_frame ?k2 ((frame ?k2)\<lparr>sepc := sepc (frame k) + 4\<rparr>))"
    using s' adv assms(1) by (simp add: resume_def Let_def)
  ultimately show ?thesis
    using s' sl by (simp add: message_in_regs_def reg_def)
qed

theorem woken_receiver_gets_message_witness:
  "\<exists>k'. resume (demo_kernel\<lparr>k_cont := (\<lambda>_. InRecv 3)\<rparr>) = Inr k' \<and> message_in_regs k' (t_message demo_client) \<and>
     sepc (frame k') = 4"
  using woken_receiver_gets_message [of "demo_kernel\<lparr>k_cont := (\<lambda>_. InRecv 3)\<rparr>" 3 demo_client]
  by (auto simp: slot_of_demo frame_def demo_kernel_def boot_kernel_def blank_frame_def fits_def)

text \<open>C24: Replies are one-shot. A reply consumes the capability whatever the caller's state; it
  hands the message to the caller named by it and makes that caller ready exactly when the
  caller awaits a reply, changes no other task, and replying through the same slot again is
  refused.\<close>
theorem reply_is_one_shot:
  assumes t: "slot_of s (s_current s) = Some t" "t_state t \<noteq> AwaitingReply"
    and c: "reply_caller (t_caps t) (unat i) = Some c" "c < length (s_tasks s)"
  shows "\<exists>s' ok. reply_step s i m = Inr (s', ok) \<and> s_current s' = s_current s \<and>
    ok = (case slot_of s c of None \<Rightarrow> False | Some u \<Rightarrow> t_state u = AwaitingReply) \<and>
    (\<forall>j. slot_of s' j =
       (if j = s_current s then Some (t\<lparr>t_caps := (t_caps t)[unat i := None]\<rparr>)
        else if ok \<and> j = c then map_option (\<lambda>u. u\<lparr>t_message := m, t_state := Ready\<rparr>) (slot_of s j)
        else slot_of s j)) \<and>
    reply_step s' i m' = Inr (s', False)"
proof -
  let ?t' = "t\<lparr>t_caps := (t_caps t)[unat i := None]\<rparr>"
  let ?s1 = "put_task s (s_current s) ?t'"
  have i: "unat i < length (t_caps t)" using c(1) by (simp add: reply_caller_Some_iff cap_at_Some_iff)
  have gone: "reply_caller (t_caps ?t') (unat i) = None"
    using i by (simp add: reply_view.view_store)
  have aw: "awaiting ?s1 c = Inr (case slot_of s c of None \<Rightarrow> False | Some u \<Rightarrow> t_state u = AwaitingReply)"
  proof (cases "c = s_current s")
    case True
    then show ?thesis using t c by (auto simp: awaiting_def idx_def slot_of_def put_task_def)
  next
    case False
    then show ?thesis using t c by (simp add: awaiting_def idx_def slot_of_def put_task_def)
  qed
  show ?thesis
  proof (cases "case slot_of s c of None \<Rightarrow> False | Some u \<Rightarrow> t_state u = AwaitingReply")
    case True
    then obtain u where u: "slot_of s c = Some u" "t_state u = AwaitingReply" by (auto split: option.splits)
    then have ne: "c \<noteq> s_current s" using t by auto
    with t c u aw gone show ?thesis by (simp add: reply_step_def exec_simps) (rule exI [of _ True], simp)
  next
    case False
    with t c aw gone show ?thesis by (simp add: reply_step_def exec_simps) (rule exI [of _ False], simp)
  qed
qed

theorem reply_is_one_shot_witness:
  "\<exists>s'. reply_step demo_sched 1 demo_msg = Inr (s', True) \<and>
     slot_of s' 3 = Some (demo_caller\<lparr>t_message := demo_msg, t_state := Ready\<rparr>) \<and>
     reply_step s' 1 demo_msg = Inr (s', False)"
proof -
  have "reply_caller (t_caps demo_client) (unat (1 :: usize)) = Some 3" "t_state demo_client \<noteq> AwaitingReply"
      "t_state demo_caller = AwaitingReply"
    by (simp_all add: demo_tasks reply_caller_def get_def)
  then show ?thesis
    using reply_is_one_shot [of demo_sched demo_client 1 3 demo_msg demo_msg] by (auto simp: slot_of_demo)
qed

text \<open>Delegation copies exactly what the sender holds. The receiver waiting on the endpoint
  gets the capability in the sender's source slot, in transit, with the badge; the sender and all
  other tasks keep what they have. An empty source slot is refused and changes nothing.\<close>
theorem grant_copies_held_capability:
  assumes "slot_of s (s_current s) = Some t" "cap_lookup (t_caps t) (unat i) = Some ep"
    and "find_blocked s ep RoleRecv = Some r"
  shows "case cap_at (t_caps t) (unat src) of
      None \<Rightarrow> grant_step s i src b = Inr (s, SendBadCap)
    | Some c \<Rightarrow> \<exists>s' u. grant_step s i src b = Inr (s', Delivered) \<and> slot_of s r = Some u \<and>
        (\<forall>j. slot_of s' j = (if j = r then
            Some (u\<lparr>t_message := \<lparr>badge = b, data = (0, 0, 0)\<rparr>, t_pending_grant := Some c, t_state := Ready\<rparr>)
          else slot_of s j))"
proof -
  from find_blocked_Some [OF assms(3)] obtain u where "slot_of s r = Some u" "t_state u = Blocked ep RoleRecv" .
  then show ?thesis using assms by (auto simp: grant_step_def exec_simps Let_def split: option.splits)
qed

theorem grant_copies_held_capability_witness:
  "\<exists>s'. grant_step demo_sched 0 2 5 = Inr (s', Delivered) \<and>
     map_option t_pending_grant (slot_of s' 1) = Some (Some (Restart 1)) \<and> slot_of s' 0 = Some demo_client"
proof -
  have "cap_lookup (t_caps demo_client) (unat (0 :: usize)) = Some 0" "cap_at (t_caps demo_client) (unat (2 :: usize)) = Some (Restart 1)"
    by (simp_all add: demo_tasks cap_lookup_def cap_at_def get_def)
  then show ?thesis
    using grant_copies_held_capability [of demo_sched demo_client 0 0 1 2 5]
    by (auto simp: slot_of_demo find_blocked_demo)
qed

section \<open>Revocation\<close>

lemma sum_upt_shift: "(\<Sum>j<Suc n. f j) = f 0 + (\<Sum>j<n. f (Suc j))" for f :: "nat \<Rightarrow> nat"
  by (induction n) auto

text \<open>How many copies of the endpoint a slot's CSpace holds.\<close>

definition copies :: "nat \<Rightarrow> task option \<Rightarrow> nat" where
  "copies ep slot = (case slot of None \<Rightarrow> 0 | Some t \<Rightarrow> count_list (t_caps t) (Some (Endpoint ep)))"

lemma revoke_from_count:
  "snd (revoke_from i ts ep ex) = (\<Sum>j<length ts. if i + j = ex then 0 else copies ep (ts ! j))"
proof (induction ts arbitrary: i)
  case (Cons slot ts)
  have "(\<Sum>j<Suc (length ts). if i + j = ex then 0 else copies ep ((slot # ts) ! j)) =
      (if i = ex then 0 else copies ep slot) + (\<Sum>j<length ts. if Suc i + j = ex then 0 else copies ep (ts ! j))"
    by (simp only: sum_upt_shift nth_Cons_0 nth_Cons_Suc add_0_right add_Suc_right add_Suc)
  then show ?case
    using Cons.IH [of "Suc i"]
    by (auto simp: Let_def split_def copies_def revoke_in_caps_map split: option.splits)
qed simp

lemma revoke_step_exec:
  assumes "slot_of s (s_current s) = Some t" "cap_lookup (t_caps t) (unat i) = Some ep"
  shows "revoke_step s i =
    Inr (fst (revoke_endpoint s ep (s_current s)), Some (snd (revoke_endpoint s ep (s_current s))))"
  using assms by (simp add: revoke_step_def exec_simps Let_def split_def)

text \<open>C25: Revocation reaches every CSpace but the caller's. After a revoke by a holder of the
  endpoint, no other task's CSpace has it, every other capability of every task is where it was,
  the caller is unchanged, and the count returned is the number of copies cleared.\<close>
theorem revoke_clears_all_other_cspaces:
  assumes "slot_of s (s_current s) = Some t" "cap_lookup (t_caps t) (unat i) = Some ep"
  shows "\<exists>s' n. revoke_step s i = Inr (s', Some n) \<and>
    n = (\<Sum>j<length (s_tasks s). if j = s_current s then 0 else copies ep (s_tasks s ! j)) \<and>
    slot_of s' (s_current s) = slot_of s (s_current s) \<and>
    (\<forall>j u. j \<noteq> s_current s \<and> slot_of s j = Some u \<longrightarrow>
      (\<exists>u'. slot_of s' j = Some u' \<and> Endpoint ep \<notin> caps_of (t_caps u') \<and>
        (\<forall>x. cap_at (t_caps u') x = (if cap_at (t_caps u) x = Some (Endpoint ep) then None else cap_at (t_caps u) x))))"
proof -
  have "snd (revoke_endpoint s ep (s_current s)) =
      (\<Sum>j<length (s_tasks s). if j = s_current s then 0 else copies ep (s_tasks s ! j))"
    using revoke_from_count [of 0 "s_tasks s" ep "s_current s"] by (simp add: revoke_endpoint_def split_def)
  then show ?thesis
    using revoke_step_exec [OF assms]
    by (auto simp: slot_of_revoke revoked_def cap_at_revoke caps_of_revoke)
qed

theorem revoke_clears_all_other_cspaces_witness:
  "\<exists>s'. revoke_step demo_sched 0 = Inr (s', Some 1) \<and> (\<exists>u'. slot_of s' 1 = Some u' \<and> Endpoint 0 \<notin> caps_of (t_caps u'))"
proof -
  have c: "slot_of demo_sched (s_current demo_sched) = Some demo_client" by (simp add: slot_of_demo)
  have l: "cap_lookup (t_caps demo_client) (unat (0 :: usize)) = Some 0"
    by (simp add: demo_tasks cap_lookup_def get_def)
  have n: "(\<Sum>j<length (s_tasks demo_sched). if j = s_current demo_sched then 0 else copies 0 (s_tasks demo_sched ! j)) = 1"
    by (simp add: demo_sched_def copies_def demo_tasks CRASH_EP_def lessThan_nat_numeral)
  have o: "(1 :: nat) \<noteq> s_current demo_sched \<and> slot_of demo_sched 1 = Some demo_server" by (simp add: slot_of_demo)
  from revoke_clears_all_other_cspaces [OF c l] n o show ?thesis by metis
qed

text \<open>C34: Revocation does not reach a capability in transit. A task to which the endpoint has been
  delegated, but which has not run since, ends up holding it although a revoke came in between.\<close>
theorem revoke_misses_grant_in_transit:
  assumes t: "slot_of s (s_current s) = Some t" "cap_lookup (t_caps t) (unat i) = Some ep"
    and u: "slot_of s j = Some u" "j \<noteq> s_current s" "t_pending_grant u = Some (Endpoint ep)"
    and rs: "unat rs < CAP_SLOTS" "length (t_caps u) = CAP_SLOTS"
  shows "\<exists>s' n s'' m u''. revoke_step s i = Inr (s', Some n) \<and> recv_wake (s'\<lparr>s_current := j\<rparr>) rs = Inr (s'', m) \<and>
    slot_of s'' j = Some u'' \<and> cap_lookup (t_caps u'') (unat rs) = Some ep"
proof -
  let ?s' = "fst (revoke_endpoint s ep (s_current s))"
  have "slot_of (?s'\<lparr>s_current := j\<rparr>) (s_current (?s'\<lparr>s_current := j\<rparr>)) = Some (revoked ep u)"
    using u by (simp add: slot_of_revoke)
  from recv_wake_exec [OF this, of rs] obtain s'' where
    r: "recv_wake (?s'\<lparr>s_current := j\<rparr>) rs = Inr (s'', t_message (revoked ep u))"
    and sl: "slot_of s'' j = Some ((revoked ep u)\<lparr>t_caller := None, t_pending_grant := None,
          t_caps := store_cap rs (t_pending_grant (revoked ep u)) (store_cap rs (map_option Reply (t_caller (revoked ep u))) (t_caps (revoked ep u)))\<rparr>)"
    by auto
  have "length (store_cap rs x caps) = length caps" for x caps
    by (simp add: store_cap_def split: option.splits)
  then have "cap_lookup (store_cap rs (t_pending_grant (revoked ep u)) (store_cap rs (map_option Reply (t_caller (revoked ep u))) (t_caps (revoked ep u)))) (unat rs) = Some ep"
    using u rs by (simp add: revoked_def cap_lookup_Some_iff cap_at_Some_iff store_cap_def [of rs "Some (Endpoint ep)"])
  then show ?thesis using revoke_step_exec [OF t] r sl by (intro exI conjI) (auto simp: revoked_def)
qed

theorem revoke_misses_grant_in_transit_witness:
  "\<exists>s s' n s'' m u''. s = put_task demo_sched 1 (demo_server\<lparr>t_state := Ready, t_pending_grant := Some (Endpoint 0)\<rparr>) \<and>
     revoke_step s 0 = Inr (s', Some n) \<and> recv_wake (s'\<lparr>s_current := 1\<rparr>) 3 = Inr (s'', m) \<and>
     slot_of s'' 1 = Some u'' \<and> cap_lookup (t_caps u'') 3 = Some 0"
proof -
  let ?u = "demo_server\<lparr>t_state := Ready, t_pending_grant := Some (Endpoint 0)\<rparr>"
  let ?s = "put_task demo_sched 1 ?u"
  have "length (t_caps ?u) = CAP_SLOTS" "unat (3 :: usize) < CAP_SLOTS" by (simp_all add: demo_tasks CAP_SLOTS_def)
  then show ?thesis
    using revoke_misses_grant_in_transit [of ?s demo_client 0 0 1 ?u 3] by (simp add: demo_slots demo_client_caps)
qed

text \<open>C40: A component can disarm a kernel task. When a component revokes an endpoint that a kernel task holds too, that
  task's next call or receive on it finds no capability, and the kernel panics where it expects one.\<close>
theorem revoke_disarms_kernel_client:
  assumes t: "slot_of s (s_current s) = Some t" "cap_lookup (t_caps t) (unat i) = Some ep"
    and u: "slot_of s j = Some u" "j \<noteq> s_current s" "cap_lookup (t_caps u) (unat c) = Some ep"
  shows "\<exists>s' n. revoke_step s i = Inr (s', Some n) \<and>
    call_message_step (s'\<lparr>s_current := j\<rparr>) c b = Inl (ExpectFailed ''call_message: caller lacks the endpoint capability'') \<and>
    recv_message_step (s'\<lparr>s_current := j\<rparr>) c = Inl (ExpectFailed ''recv_message: caller lacks the endpoint capability'')"
proof -
  let ?s = "fst (revoke_endpoint s ep (s_current s))\<lparr>s_current := j\<rparr>"
  have "slot_of ?s j = Some (revoked ep u)" using u by (simp add: slot_of_revoke)
  then have "task_at ?s (s_current ?s) = Inr (revoked ep u)" by (simp add: task_at_Some)
  moreover have "cap_lookup (t_caps (revoked ep u)) (unat c) = None"
    using cap_lookup_Some_iff [of "t_caps (revoked ep u)" "unat c"] u(3)
    by (cases "cap_lookup (t_caps (revoked ep u)) (unat c)") (auto simp: revoked_def cap_at_revoke cap_lookup_Some_iff split: if_splits)
  ultimately show ?thesis
    using revoke_step_exec [OF t] by (simp add: call_message_step_def recv_message_step_def expectr_def)
qed

theorem revoke_disarms_kernel_client_witness:
  "\<exists>s' n. revoke_step demo_sched 0 = Inr (s', Some n) \<and>
     call_message_step (s'\<lparr>s_current := 1\<rparr>) 0 9 = Inl (ExpectFailed ''call_message: caller lacks the endpoint capability'')"
  using revoke_disarms_kernel_client [of demo_sched demo_client 0 0 1 demo_server 0 9]
  by (auto simp: demo_slots demo_client_caps demo_tasks cap_lookup_def get_def)

text \<open>A reply right can be duplicated. Delegating a \<open>Reply\<close> capability leaves it with the
  sender as well, so two tasks hold the right to answer the same call.\<close>
theorem grant_duplicates_reply_right:
  assumes "slot_of s (s_current s) = Some t" "cap_lookup (t_caps t) (unat i) = Some ep"
    and "find_blocked s ep RoleRecv = Some r" "r \<noteq> s_current s" "reply_caller (t_caps t) (unat src) = Some c"
  shows "\<exists>s' u'. grant_step s i src b = Inr (s', Delivered) \<and>
    reply_caller (t_caps (the (slot_of s' (s_current s)))) (unat src) = Some c \<and>
    slot_of s' r = Some u' \<and> t_pending_grant u' = Some (Reply c)"
proof -
  from find_blocked_Some [OF assms(3)] obtain u where "slot_of s r = Some u" "t_state u = Blocked ep RoleRecv" .
  then show ?thesis
    using assms by (simp add: grant_step_def exec_simps Let_def reply_caller_Some_iff)
qed

theorem grant_duplicates_reply_right_witness:
  "\<exists>s' u'. grant_step demo_sched 0 1 9 = Inr (s', Delivered) \<and>
    reply_caller (t_caps (the (slot_of s' 0))) 1 = Some 3 \<and> slot_of s' 1 = Some u' \<and> t_pending_grant u' = Some (Reply 3)"
  using grant_duplicates_reply_right [of demo_sched demo_client 0 0 1 1 3 9]
  by (simp add: demo_slots demo_client_caps find_blocked_demo)

section \<open>Restarts and crashes\<close>

text \<open>A relaunched component enters user mode at its entry point, on its own stack, with
  interrupts enabled, and finds its generation number in \<open>a0\<close>.\<close>
theorem relaunch_enters_user_mode:
  "let l = user_trampoline (forge_user_context tr en usp ks (user_sstatus ss) g)
   in l_sepc l = en \<and> l_sp l = usp AND NOT 15 \<and> l_sscratch l = ks AND NOT 15 \<and> fst (l_args l) = g \<and>
      l_sstatus l AND push_bit 8 1 = 0 \<and> bit (l_sstatus l) 5"
  using user_sstatus_enters_user [of ss]
  by (simp add: user_trampoline_def forge_user_context_fields Let_def del: push_bit_of_1)

lemma retire_exec:
  assumes "slot_of s (s_current s) = Some t" "slot_of s h = Some u" "h \<noteq> s_current s"
  shows "\<exists>s'. retire s (Some h) = Inr (s', t_satp u) \<and> s_current s' = h \<and>
    (\<forall>j. slot_of s' j = (if j = h then Some (u\<lparr>t_state := Running\<rparr>)
       else if j = s_current s then Some (t\<lparr>t_state := Exited\<rparr>) else slot_of s j))"
  using assms by (simp add: retire_def exec_simps Let_def assertr_def run_next_def)

text \<open>C30: A contained crash wakes the healer. When a restartable component is killed, its issue is
  not chronic and a healer waits on the crash endpoint, the healer runs next with the component's
  crash badge as its message, the component is down, and no other task changes.\<close>
theorem crash_wakes_healer:
  assumes t: "slot_of s (s_current s) = Some t" "t_relaunch t \<noteq> None" "t_state t \<noteq> Blocked CRASH_EP RoleRecv"
    and q: "diagnose_crash hl c = (hl1, None)" and h: "find_blocked s CRASH_EP RoleRecv = Some h"
  shows "\<exists>s' u satp. exit_step s hl (Killed c) = Inr (s', hl1, satp) \<and> s_current s' = h \<and> slot_of s h = Some u \<and>
    (\<forall>j. slot_of s' j = (if j = h then
        Some (u\<lparr>t_message := \<lparr>badge = t_crash_badge t, data = (0, 0, 0)\<rparr>, t_state := Running\<rparr>)
      else if j = s_current s then Some (t\<lparr>t_state := Exited\<rparr>) else slot_of s j))"
proof -
  from find_blocked_Some [OF h] obtain u where u: "slot_of s h = Some u" "t_state u = Blocked CRASH_EP RoleRecv" .
  then have ne: "h \<noteq> s_current s" using t by auto
  let ?m = "\<lparr>badge = t_crash_badge t, data = (0, 0, 0)\<rparr>"
  let ?s1 = "put_task (put_task s h (u\<lparr>t_message := ?m\<rparr>)) h (u\<lparr>t_message := ?m, t_state := Ready\<rparr>)"
  have "crash_step s hl c = Inr (?s1, hl1, Some h)"
    using t q h u ne by (simp add: crash_step_def notify_healer_def exec_simps Let_def)
  moreover from retire_exec [of ?s1 t h "u\<lparr>t_message := ?m, t_state := Ready\<rparr>"] t u ne obtain s' where
    "retire ?s1 (Some h) = Inr (s', t_satp u)" "s_current s' = h"
    "\<forall>j. slot_of s' j = (if j = h then Some (u\<lparr>t_message := ?m, t_state := Running\<rparr>)
       else if j = s_current s then Some (t\<lparr>t_state := Exited\<rparr>) else slot_of ?s1 j)" by auto
  ultimately show ?thesis using u by (auto simp: exit_step_def)
qed

theorem crash_wakes_healer_witness:
  "\<exists>s' satp. exit_step demo_sched heal_init (Killed LoadPageFault) =
       Inr (s', note_unmatched heal_init LoadPageFault, satp) \<and> s_current s' = 4 \<and>
     map_option t_message (slot_of s' 4) = Some \<lparr>badge = 2, data = (0, 0, 0)\<rparr>"
proof -
  have t: "t_relaunch demo_client \<noteq> None" "t_state demo_client \<noteq> Blocked CRASH_EP RoleRecv" "t_crash_badge demo_client = 2"
    by (simp_all add: demo_tasks)
  have "position (matches_token tok) (replicate n None) = None" for tok n
    by (simp add: position_None_iff matches_token_def)
  then have "diagnose_crash heal_init LoadPageFault = (note_unmatched heal_init LoadPageFault, None)"
    by (simp add: diagnose_crash_def diagnose_def match_issue_def heal_init_def cause_token_def)
  from crash_wakes_healer [of demo_sched demo_client, OF _ t(1,2) this find_blocked_demo(2)] t(3) show ?thesis
    by (auto simp: demo_slots)
qed

text \<open>A chronic fault is quarantined. When the diagnosed issue is escalated, the crash wakes
  nobody: the component is down, the next task in round-robin order runs, and no message, capability
  or other task state changes.\<close>
theorem chronic_crash_is_quarantined:
  assumes wf: "sched_wf R s" and run: "run_ok d s" and cd: "s_current s \<noteq> d" and hl: "heal_wf hl"
    and q: "diagnose_crash hl c = (hl1, Some i)"
  shows "\<exists>s' satp. exit_step s hl (Killed c) = Inr (s', hl1, satp) \<and> same_core s s' \<and> s_current s' \<noteq> s_current s \<and>
    (\<forall>j. j \<noteq> s_current s \<and> j \<noteq> s_current s' \<longrightarrow> slot_of s' j = slot_of s j)"
proof -
  obtain t where t: "slot_of s (s_current s) = Some t" using sched_wf_current [OF wf] by auto
  have cs: "crash_step s hl c = Inr (s, hl1, None)"
    using q t by (simp add: crash_step_def exec_simps Let_def)
  from retire_ok [OF wf run cd, of None] obtain s' satp where r: "retire s None = Inr (s', satp)" "switched R d s s'"
    by (auto simp: holds_iff)
  have "holds (retire s None) (\<lambda>(s', _). \<forall>j. j \<noteq> s_current s \<and> j \<noteq> s_current s' \<longrightarrow> slot_of s' j = slot_of s j)"
    using retire_ok [OF wf run cd, of None] t by (auto simp: retire_def Let_def wp)
  with r cs show ?thesis by (auto simp: exit_step_def switched_def)
qed

theorem chronic_crash_is_quarantined_witness:
  "\<exists>hl1 s' satp. diagnose_crash (heal_with (one_issue 7 True)) LoadPageFault = (hl1, Some (issue_id (one_issue 7 True))) \<and>
     exit_step demo_sched (heal_with (one_issue 7 True)) (Killed LoadPageFault) = Inr (s', hl1, satp) \<and> same_core demo_sched s'"
proof -
  have "ki_escalated (seen_again (one_issue 7 True))" by (simp add: seen_again_fields(2) one_issue_def issue_new_def)
  then obtain hl1 where q: "diagnose_crash (heal_with (one_issue 7 True)) LoadPageFault = (hl1, Some (issue_id (one_issue 7 True)))"
    using diagnose_crash_counted [OF one_issue_counted [of 7 True]] by simp
  have "s_current demo_sched \<noteq> 2" by simp
  from chronic_crash_is_quarantined [OF demo_wf demo_run this heal_with_wf q] q show ?thesis by blast
qed

section \<open>The print guard\<close>

lemma validate_iff:
  "validate_user_buffer lo hi ptr len \<longleftrightarrow>
     unat lo \<le> unat ptr \<and> unat ptr + unat len \<le> unat hi"
proof (cases "unat ptr + unat len < 2 ^ 64")
  case True
  then show ?thesis
    by (simp add: validate_user_buffer_def checked_add_def word_le_nat_alt unat_add_fits)
next
  case False
  then show ?thesis
    using unsigned_less [of hi, where ?'a = nat] by (simp add: validate_user_buffer_def checked_add_def)
qed

lemma print_reads_bounds:
  assumes v: "validate_user_buffer lo hi ptr len" and a: "a \<in> set (print_reads ptr len)"
  shows "lo \<le> a \<and> a < hi"
proof -
  obtain i where i: "i < unat (min len PRINT_MAX)" "a = ptr + word_of_nat i" using a by (auto simp: print_reads_def)
  have il: "i < unat len" using i by (auto simp: min_def word_le_nat_alt split: if_splits)
  have b: "unat lo \<le> unat ptr" "unat ptr + unat len \<le> unat hi" using v by (auto simp: validate_iff)
  have "unat (word_of_nat i :: usize) = i"
    using il unsigned_less [of len, where ?'a = nat] by (simp add: unat_of_nat)
  moreover have "unat ptr + i < 2 ^ 64" using il b unsigned_less [of hi, where ?'a = nat] by simp
  ultimately have "unat a = unat ptr + i" using unat_add_fits [of ptr "word_of_nat i"] i by simp
  with b il show ?thesis by (simp add: word_le_nat_alt word_less_nat_alt)
qed

lemma length_print_reads: "length (print_reads ptr len) \<le> 256"
  by (auto simp: print_reads_def min_def PRINT_MAX_def word_le_nat_alt)

text \<open>C32: The confused-deputy guard. The kernel reads user memory for \<^verbatim>\<open>print\<close> only inside the
  user data region, however pointer and length are chosen, wrap-around included, and at most 256
  bytes of it; a request outside the region is refused and prints nothing.\<close>
theorem print_reads_only_user_data:
  "(\<not> validate_user_buffer (e_user_lo e) (e_user_hi e) ptr len \<longrightarrow> sys_print e k ptr len = Inr (k, usize_max)) \<and>
   (validate_user_buffer (e_user_lo e) (e_user_hi e) ptr len \<longrightarrow>
      length (print_reads ptr len) \<le> 256 \<and>
      (\<forall>a\<in>set (print_reads ptr len). e_user_lo e \<le> a \<and> a < e_user_hi e) \<and>
      (\<forall>mem. (\<forall>a. e_user_lo e \<le> a \<and> a < e_user_hi e \<longrightarrow> mem a = e_mem e a) \<longrightarrow>
         sys_print (e\<lparr>e_mem := mem\<rparr>) k ptr len = sys_print e k ptr len))"
proof -
  let ?v = "validate_user_buffer (e_user_lo e) (e_user_hi e) ptr len"
  have same: "read_user mem as = read_user (e_mem e) as" if "\<forall>a\<in>set as. mem a = e_mem e a" for mem as
    using that by (induction as) auto
  have inside: "\<forall>a\<in>set (print_reads ptr len). e_user_lo e \<le> a \<and> a < e_user_hi e" if ?v
    using print_reads_bounds [OF that] by blast
  have eq: "sys_print (e\<lparr>e_mem := mem\<rparr>) k ptr len = sys_print e k ptr len"
    if v: ?v and mem: "\<forall>a. e_user_lo e \<le> a \<and> a < e_user_hi e \<longrightarrow> mem a = e_mem e a" for mem
  proof -
    have "read_user mem (print_reads ptr len) = read_user (e_mem e) (print_reads ptr len)"
      using inside [OF v] mem by (intro same) blast
    then show ?thesis by (simp add: sys_print_def)
  qed
  have "\<not> ?v \<longrightarrow> sys_print e k ptr len = Inr (k, usize_max)" by (simp add: sys_print_def)
  with eq inside length_print_reads show ?thesis by blast
qed

theorem print_reads_only_user_data_witness:
  "sys_print demo_env demo_kernel 0x0fff 3 = Inr (demo_kernel, usize_max) \<and>
   list_all (\<lambda>a. 0x1000 \<le> a \<and> a < 0x2000) (print_reads 0x1100 3)"
  using print_reads_only_user_data [where e = demo_env and k = demo_kernel and ptr = "0x1100" and len = 3]
    print_reads_only_user_data [where e = demo_env and k = demo_kernel and ptr = "0x0fff" and len = 3]
  by (simp add: demo_env_def validate_iff list_all_iff)

text \<open>Printing another component's memory takes the kernel down. The guard accepts the whole user
  data region, which holds the stacks of all components; when a byte of the buffer is not mapped in
  the caller's own address space the kernel's load faults, and the fault is fatal.\<close>
theorem print_of_unmapped_user_data_is_fatal:
  assumes "decode (scause f) = UserEcall" "decode_syscall (regs f ! 16) = SysPrint"
    and "validate_user_buffer (e_user_lo e) (e_user_hi e) (regs f ! 9) (regs f ! 10)"
    and "a \<in> set (print_reads (regs f ! 9) (regs f ! 10))" "e_mem e a = None"
  shows "trap_handler e irq k f = Inl (Panicked ''load page fault'')"
proof -
  have "read_user (e_mem e) (print_reads (regs f ! 9) (regs f ! 10)) = Inl (Panicked ''load page fault'')"
    using assms(4,5) by (rule read_user_unmapped)
  then show ?thesis using assms(1-3) by (simp add: trap_handler_def user_ecall_def dispatch_def reg_def sys_print_def)
qed

theorem print_of_unmapped_user_data_is_fatal_witness:
  "trap_handler demo_env 0 demo_kernel
     (blank_frame\<lparr>scause := 8, regs := (replicate 31 0)[16 := 1, 9 := 0x1ff0, 10 := 4]\<rparr>) = Inl (Panicked ''load page fault'')"
proof -
  let ?f = "blank_frame\<lparr>scause := 8, regs := (replicate 31 0)[16 := 1, 9 := 0x1ff0, 10 := 4]\<rparr>"
  have "0x1ff0 \<in> set (print_reads 0x1ff0 4)" by (simp add: print_reads_def PRINT_MAX_def min_def upt_rec)
  then show ?thesis
    using print_of_unmapped_user_data_is_fatal [where f = ?f and e = demo_env and a = "0x1ff0" and k = demo_kernel and irq = 0]
    by (simp add: demo_env_def decode_def INTERRUPT_BIT_def decode_syscall_def validate_iff)
qed

text \<open>A user breakpoint takes the kernel down. The handler of \<open>ebreak\<close> loads the instruction
  with the kernel's own privilege; where that load faults, as it does on user pages, the nested
  fault is fatal.\<close>
theorem user_breakpoint_is_fatal:
  assumes "decode (scause f) = Breakpoint" "e_parcel e (sepc f) = None"
  shows "trap_handler e irq k f = Inl (Panicked ''load page fault'')"
  using assms by (simp add: trap_handler_def skip_instruction_def)

theorem user_breakpoint_is_fatal_witness:
  "trap_handler demo_env 0 demo_kernel (blank_frame\<lparr>sepc := 0x80200010, scause := 3\<rparr>) = Inl (Panicked ''load page fault'')"
  using user_breakpoint_is_fatal [where f = "blank_frame\<lparr>sepc := 0x80200010, scause := 3\<rparr>" and e = demo_env]
  by (simp add: demo_env_def decode_def INTERRUPT_BIT_def)

section \<open>The encrypted channel\<close>

theorem sealed_words_open_with_fresh_nonces_witness:
  "\<exists>ch' out. seal_all toy_aead channel_init [le_bytes 8 (7 :: usize), le_bytes 8 (8 :: usize)] = Inr (ch', out) \<and>
     distinct (map seal_nonce out)"
  using sealed_words_open_with_fresh_nonces [OF toy_aead_correct, of channel_init "[le_bytes 8 (7 :: usize), le_bytes 8 (8 :: usize)]"]
  by (auto simp: channel_init_def)

theorem establish_uses_agreed_secret_witness:
  "\<exists>k. ml_kem768_agree toy_rng toy_kem (replicate 32 0x14) = Some k \<and> length k = 32 \<and>
     channel_key (establish toy_rng toy_kem channel_init (replicate 32 0x14)) = k"
  using establish_uses_agreed_secret [OF toy_kem_correct] by blast

theorem reseed_mixes_into_pool_witness:
  "\<exists>out. length out = 32 \<and> pool_reseed toy_rng (Some ()) (replicate 32 9) = Some (lib_from_seed toy_rng (xor_bytes out (replicate 32 9)))"
  using reseed_mixes_into_pool [OF toy_rng_correct, of "replicate 32 9" "()"] by auto

definition has_session_now :: "'r kernel \<Rightarrow> bool" where
  "has_session_now k \<longleftrightarrow> \<not> k_sched_in_use k \<and>
     (case slot_of (k_sched k) (cur k) of None \<Rightarrow> False | Some t \<Rightarrow> has_session (t_caps t) SESSION_CAP)"

lemma word_of_8: "le_word (le_bytes 8 w) = w" for w :: usize
  by simp

lemma bytes_of_8: "length bs = 8 \<Longrightarrow> le_bytes 8 (le_word bs :: usize) = bs"
  using le_bytes_le_word [of bs, where ?'a = 64] by simp

text \<open>What one component seals another opens. A task with the session capability that passes
  the ciphertext, tag and nonce registers of a \<^verbatim>\<open>seal\<close> to \<^verbatim>\<open>open\<close>, under the same
  session key, gets the sealed word back.\<close>
theorem seal_open_between_components:
  assumes lib: "aead_correct (e_aead e)" and k: "has_session_now k" "length (regs (frame k)) = 31"
      "unat (nonce_ctr (k_chan k)) + 1 < 2 ^ 64"
    and k2: "has_session_now k2" "length (regs (frame k2)) = 31" "channel_key (k_chan k2) = channel_key (k_chan k)"
  shows "\<exists>k1. seal e k = Inr (k1, Resume) \<and> reg k1 9 = 0 \<and> nonce_ctr (k_chan k1) = nonce_ctr (k_chan k) + 1 \<and>
    (reg k2 9 = reg k1 10 \<and> reg k2 10 = reg k1 11 \<and> reg k2 11 = reg k1 12 \<and> reg k2 12 = reg k1 13 \<longrightarrow>
     (\<exists>k3. open_sealed e k2 = Inr (k3, Resume) \<and> reg k3 9 = 0 \<and> reg k3 10 = reg k 9))"
proof -
  let ?n = "nonce_ctr (k_chan k)" and ?key = "channel_key (k_chan k)"
  obtain ct tag where enc: "lib_encrypt (e_aead e) ?key (nonce_bytes ?n) (le_bytes 8 (reg k 9)) = (ct, tag)" by fastforce
  with lib have facts: "length ct = 8" "length tag = 16"
      "lib_decrypt (e_aead e) ?key (nonce_bytes ?n) ct tag = Some (le_bytes 8 (reg k 9))"
    unfolding aead_correct_def by (metis (mono_tags, lifting) case_prod_conv length_le_bytes)+
  obtain t where t: "slot_of (k_sched k) (cur k) = Some t" "has_session (t_caps t) SESSION_CAP"
    using k(1) by (auto simp: has_session_now_def split: option.splits)
  have free: "\<not> k_sched_in_use k" "\<not> k_sched_in_use k2" using k(1) k2(1) by (simp_all add: has_session_now_def)
  obtain t2 where t2: "slot_of (k_sched k2) (cur k2) = Some t2" "has_session (t_caps t2) SESSION_CAP"
    using k2(1) by (auto simp: has_session_now_def split: option.splits)
  let ?k0 = "k\<lparr>k_chan := (k_chan k)\<lparr>nonce_ctr := ?n + 1\<rparr>\<rparr>"
  let ?k1 = "set_reg (set_reg (set_reg (set_reg (set_reg ?k0 9 0) 10 (le_word ct)) 11 (le_word (take 8 tag))) 12 (le_word (drop 8 tag))) 13 ?n"
  have sw: "seal_word (e_aead e) (k_chan k) (le_bytes 8 (reg k 9)) = Inr ((k_chan k)\<lparr>nonce_ctr := ?n + 1\<rparr>, ct, tag, ?n)"
    using k(3) enc by (simp add: seal_word_Inr)
  have s: "seal e k = Inr (?k1, Resume)" using t sw free by (simp add: seal_def exec_simps Let_def)
  have r: "reg ?k1 9 = 0" "reg ?k1 10 = le_word ct" "reg ?k1 11 = le_word (take 8 tag)"
      "reg ?k1 12 = le_word (drop 8 tag)" "reg ?k1 13 = ?n"
    using k(2) by (simp_all add: regs_set_reg del: set_reg_simps(9))
  have op: "\<exists>k3. open_sealed e k2 = Inr (k3, Resume) \<and> reg k3 9 = 0 \<and> reg k3 10 = reg k 9"
    if eq: "reg k2 9 = reg ?k1 10" "reg k2 10 = reg ?k1 11" "reg k2 11 = reg ?k1 12" "reg k2 12 = reg ?k1 13"
  proof -
    have "le_bytes 8 (reg k2 9) = ct" using facts(1) r(2) eq(1) by (simp only: bytes_of_8)
    moreover have "le_bytes 8 (reg k2 10) @ le_bytes 8 (reg k2 11) = tag"
      using facts(2) r(3,4) eq(2,3) by (simp add: bytes_of_8)
    ultimately have "open_word (e_aead e) (k_chan k2) (le_bytes 8 (reg k2 9)) (le_bytes 8 (reg k2 10) @ le_bytes 8 (reg k2 11)) (reg k2 12)
        = Some (le_bytes 8 (reg k 9))"
      using facts(3) r(5) eq(4) k2(3) by (simp add: open_word_def crypto_open_def)
    then have "open_sealed e k2 = Inr (set_reg (set_reg k2 9 0) 10 (reg k 9), Resume)"
      using t2 free by (simp add: open_sealed_def exec_simps Let_def)
    then show ?thesis using k2(2) by (simp add: regs_set_reg del: set_reg_simps(9))
  qed
  show ?thesis using s r(1) op by (intro exI [of _ ?k1]) simp
qed

definition session_kernel :: "unit kernel" where
  "session_kernel = demo_kernel\<lparr>k_sched := put_task demo_sched 0 (demo_client\<lparr>t_caps := [Some Session, None, None, None]\<rparr>)\<rparr>"

theorem seal_open_between_components_witness:
  "\<exists>k1. seal demo_env session_kernel = Inr (k1, Resume) \<and> reg k1 9 = 0 \<and>
    (reg (set_reg session_kernel 9 (- 1)) 9 = reg k1 10 \<and> reg (set_reg session_kernel 9 (- 1)) 10 = reg k1 11 \<and>
     reg (set_reg session_kernel 9 (- 1)) 11 = reg k1 12 \<and> reg (set_reg session_kernel 9 (- 1)) 12 = reg k1 13 \<longrightarrow>
     (\<exists>k3. open_sealed demo_env (set_reg session_kernel 9 (- 1)) = Inr (k3, Resume) \<and> reg k3 9 = 0 \<and> reg k3 10 = reg session_kernel 9))"
proof -
  have h: "has_session_now session_kernel" "has_session_now (set_reg session_kernel 9 (- 1))"
    by (simp_all add: has_session_now_def session_kernel_def demo_slots has_session_def get_def SESSION_CAP_def demo_kernel_def boot_kernel_def)
  have l1: "length (regs (frame session_kernel)) = 31"
    by (simp add: session_kernel_def frame_def demo_kernel_def boot_kernel_def blank_frame_def)
  have l: "length (regs (frame session_kernel)) = 31" "length (regs (frame (set_reg session_kernel 9 (- 1)))) = 31"
    using l1 by simp_all
  have n: "unat (nonce_ctr (k_chan session_kernel)) + 1 < 2 ^ 64"
    by (simp add: session_kernel_def demo_kernel_def boot_kernel_def channel_init_def)
  have e: "aead_correct (e_aead demo_env)" by (simp add: demo_env_def toy_aead_correct)
  from seal_open_between_components [OF e h(1) l(1) n h(2) l(2)] show ?thesis by auto
qed

end
