(* ===== verification/Paging.thy ===== *)
theory Paging
  imports Frame
begin

text \<open>
  Sv39 paging (\<^verbatim>\<open>src/arch/riscv64/src/mem/paging.rs\<close>) and the address spaces built from it
  (\<^verbatim>\<open>src/arch/riscv64/src/mem/mod.rs\<close>). Page tables live in the frames of the bitmap allocator: the
  memory a walk reads is a function from a table's physical address and an entry index to the
  entry. The hardware's three-level walk is \<open>walk\<close>; \<open>tree\<close> is the shape of a page-table tree under
  construction, with a label per table frame that records the path from the root. The theorems:
  a mapping changes the translation of its own page only, and an address space maps exactly the
  regions it was built from, with no page both writable and executable and no kernel page open
  to user mode.
\<close>

section \<open>Entries and indices\<close>

definition PAGE_SIZE :: nat where "PAGE_SIZE = 4096"
definition PTE_V :: u64 where "PTE_V = push_bit 0 1"
definition PTE_R :: u64 where "PTE_R = push_bit 1 1"
definition PTE_W :: u64 where "PTE_W = push_bit 2 1"
definition PTE_X :: u64 where "PTE_X = push_bit 3 1"
definition PTE_U :: u64 where "PTE_U = push_bit 4 1"
definition PTE_G :: u64 where "PTE_G = push_bit 5 1"
definition PTE_A :: u64 where "PTE_A = push_bit 6 1"
definition PTE_D :: u64 where "PTE_D = push_bit 7 1"

lemmas pte_bits = PTE_V_def PTE_R_def PTE_W_def PTE_X_def PTE_U_def PTE_G_def PTE_A_def PTE_D_def

definition SATP_SV39 :: usize where "SATP_SV39 = push_bit 60 8"

definition make_satp :: "usize \<Rightarrow> usize" where
  "make_satp root_pa = SATP_SV39 OR drop_bit 12 root_pa"

definition vpn :: "usize \<Rightarrow> nat \<Rightarrow> usize" where
  "vpn va level = drop_bit (12 + 9 * level) va AND 0x1ff"

definition pte_for :: "usize \<Rightarrow> u64 \<Rightarrow> u64" where
  "pte_for pa flags = push_bit 10 (drop_bit 12 pa) OR flags OR PTE_V"

definition pte_to_pa :: "u64 \<Rightarrow> usize" where
  "pte_to_pa pte = push_bit 12 (drop_bit 10 pte AND 0xFFFFFFFFFFF)"

definition pte_is_valid :: "u64 \<Rightarrow> bool" where
  "pte_is_valid pte \<longleftrightarrow> pte AND PTE_V \<noteq> 0"

section \<open>The mapper\<close>

record vm =
  frames :: bitmap_allocator
  tables :: "usize \<Rightarrow> usize \<Rightarrow> u64"
  uart_mmio_base :: usize
  plic_mmio_base :: usize
  kernel_satp :: usize

definition alloc_zeroed :: "vm \<Rightarrow> (vm \<times> usize option) result" where
  "alloc_zeroed s =
     bindr (alloc (frames s)) (\<lambda>(a, f).
     case f of
       None \<Rightarrow> Inr (s\<lparr>frames := a\<rparr>, None)
     | Some x \<Rightarrow> Inr (s\<lparr>frames := a, tables := (tables s)(x := (\<lambda>_. 0))\<rparr>, Some x))"

text \<open>One turn of the loop over the levels 2 and 1.\<close>

definition next_table :: "vm \<Rightarrow> usize \<Rightarrow> usize \<Rightarrow> nat \<Rightarrow> (vm \<times> usize) result" where
  "next_table s table va level =
     (let i = vpn va level; pte = tables s table i
      in if pte_is_valid pte then Inr (s, pte_to_pa pte)
         else bindr (alloc_zeroed s) (\<lambda>(s1, f).
              bindr (expectr f (ExpectFailed ''out of frames for page table'')) (\<lambda>x.
              Inr (s1\<lparr>tables := (tables s1)(table := (tables s1 table)(i := pte_for x 0))\<rparr>, x))))"

definition leaf_flags :: "u64 \<Rightarrow> u64" where
  "leaf_flags flags = flags OR PTE_A OR (if flags AND PTE_W \<noteq> 0 then PTE_D else 0)"

definition map_page :: "vm \<Rightarrow> usize \<Rightarrow> usize \<Rightarrow> usize \<Rightarrow> u64 \<Rightarrow> vm result" where
  "map_page s root va pa flags =
     bindr (assertr (unat va mod PAGE_SIZE = 0 \<and> unat pa mod PAGE_SIZE = 0) (AssertFailed ''map_page: unaligned'')) (\<lambda>_.
     bindr (next_table s root va 2) (\<lambda>(s1, t1).
     bindr (next_table s1 t1 va 1) (\<lambda>(s2, t0).
     let i = vpn va 0
     in bindr (assertr (\<not> pte_is_valid (tables s2 t0 i)) (AssertFailed ''remap of va'')) (\<lambda>_.
        Inr (s2\<lparr>tables := (tables s2)(t0 := (tables s2 t0)(i := pte_for pa (leaf_flags flags)))\<rparr>)))))"

lemma bindr_cong [fundef_cong]:
  "r = r' \<Longrightarrow> (\<And>x. r' = Inr x \<Longrightarrow> f x = f' x) \<Longrightarrow> bindr r f = bindr r' f'"
  by (cases r') simp_all

function map_range :: "vm \<Rightarrow> usize \<Rightarrow> usize \<Rightarrow> usize \<Rightarrow> u64 \<Rightarrow> vm result" where
  "map_range s root addr end_addr flags =
     (if addr < end_addr then
        bindr (map_page s root addr addr flags) (\<lambda>s1.
        bindr (add_chk addr (word_of_nat PAGE_SIZE)) (\<lambda>addr1.
        map_range s1 root addr1 end_addr flags))
      else Inr s)"
  by pat_completeness auto

termination map_range
proof (relation "measure (\<lambda>(s, root, addr, end_addr, flags). unat end_addr - unat addr)")
  fix s :: vm and root addr end_addr addr1 :: usize and flags :: u64 and s1 :: vm
  assume "addr < end_addr" "add_chk addr (word_of_nat PAGE_SIZE) = Inr addr1"
  then have "unat addr1 = unat addr + 4096" "unat addr < unat end_addr"
    by (auto simp: add_chk_def PAGE_SIZE_def unat_add_fits word_less_nat_alt split: if_splits)
  then show "((s1, root, addr1, end_addr, flags), (s, root, addr, end_addr, flags))
      \<in> measure (\<lambda>(s, root, addr, end_addr, flags). unat end_addr - unat addr)"
    by simp
qed simp

declare map_range.simps [simp del]

section \<open>The address spaces\<close>

text \<open>The linker script's symbols.\<close>

record layout =
  text_start :: usize
  text_end :: usize
  rodata_start :: usize
  rodata_end :: usize
  data_start :: usize
  data_end :: usize
  stack_start :: usize
  stack_top :: usize
  kernel_end :: usize
  user_text_start :: usize
  user_text_end :: usize

definition map_kernel_sections :: "layout \<Rightarrow> vm \<Rightarrow> usize \<Rightarrow> vm result" where
  "map_kernel_sections ld s root =
     bindr (map_range s root (text_start ld) (text_end ld) (PTE_R OR PTE_X OR PTE_G)) (\<lambda>s.
     bindr (map_range s root (rodata_start ld) (rodata_end ld) (PTE_R OR PTE_G)) (\<lambda>s.
     bindr (map_range s root (data_start ld) (data_end ld) (PTE_R OR PTE_W OR PTE_G)) (\<lambda>s.
     bindr (map_range s root (stack_start ld) (stack_top ld) (PTE_R OR PTE_W OR PTE_G)) (\<lambda>s.
     bindr (let uart = uart_mmio_base s
            in if uart \<noteq> 0 then
                 bindr (add_chk uart (word_of_nat PAGE_SIZE)) (\<lambda>e.
                 map_range s root uart e (PTE_R OR PTE_W OR PTE_G))
               else Inr s) (\<lambda>s.
     let plic = plic_mmio_base s
     in if plic \<noteq> 0 then
          bindr (add_chk plic 0x3000) (\<lambda>e.
          bindr (map_range s root plic e (PTE_R OR PTE_W OR PTE_G)) (\<lambda>s.
          bindr (add_chk plic 0x201000) (\<lambda>b.
          bindr (add_chk plic 0x202000) (\<lambda>e.
          map_range s root b e (PTE_R OR PTE_W OR PTE_G)))))
        else Inr s)))))"

definition mem_init :: "layout \<Rightarrow> vm \<Rightarrow> usize \<Rightarrow> usize \<Rightarrow> usize \<Rightarrow> vm result" where
  "mem_init ld s ram_end uart_base plic_base =
     (let s = s\<lparr>uart_mmio_base := uart_base, plic_mmio_base := plic_base\<rparr>
      in bindr (allocator_init (frames s) (kernel_end ld) ram_end) (\<lambda>a.
         bindr (alloc_zeroed (s\<lparr>frames := a\<rparr>)) (\<lambda>(s, f).
         bindr (expectr f (ExpectFailed ''no frame for root page table'')) (\<lambda>root.
         bindr (map_kernel_sections ld s root) (\<lambda>s.
         bindr (map_range s root (kernel_end ld) ram_end (PTE_R OR PTE_W OR PTE_G)) (\<lambda>s.
         Inr (s\<lparr>kernel_satp := make_satp root\<rparr>)))))))"

definition build_user_space :: "layout \<Rightarrow> vm \<Rightarrow> usize \<times> usize \<Rightarrow> usize \<times> usize \<Rightarrow> (vm \<times> usize) result" where
  "build_user_space ld s stack device =
     bindr (alloc_zeroed s) (\<lambda>(s, f).
     bindr (expectr f (ExpectFailed ''no frame for user root page table'')) (\<lambda>root.
     bindr (map_kernel_sections ld s root) (\<lambda>s.
     bindr (map_range s root (user_text_start ld) (user_text_end ld) (PTE_R OR PTE_X OR PTE_U)) (\<lambda>s.
     bindr (map_range s root (fst stack) (snd stack) (PTE_R OR PTE_W OR PTE_U)) (\<lambda>s.
     bindr (map_range s root (fst device) (snd device) (PTE_R OR PTE_U)) (\<lambda>s.
     Inr (s, make_satp root)))))))"

definition build_virtio_space ::
  "layout \<Rightarrow> vm \<Rightarrow> usize \<times> usize \<Rightarrow> usize \<times> usize \<Rightarrow> usize \<times> usize \<Rightarrow> (vm \<times> usize) result" where
  "build_virtio_space ld s stack mmio dma =
     bindr (alloc_zeroed s) (\<lambda>(s, f).
     bindr (expectr f (ExpectFailed ''no frame for virtio component root page table'')) (\<lambda>root.
     bindr (map_kernel_sections ld s root) (\<lambda>s.
     bindr (map_range s root (user_text_start ld) (user_text_end ld) (PTE_R OR PTE_X OR PTE_U)) (\<lambda>s.
     bindr (map_range s root (fst stack) (snd stack) (PTE_R OR PTE_W OR PTE_U)) (\<lambda>s.
     bindr (map_range s root (fst mmio) (snd mmio) (PTE_R OR PTE_W OR PTE_U)) (\<lambda>s.
     bindr (map_range s root (fst dma) (snd dma) (PTE_R OR PTE_W OR PTE_U)) (\<lambda>s.
     Inr (s, make_satp root))))))))"


section \<open>Entry encoding\<close>

lemma mask9: "(w :: usize) AND 0x1ff = take_bit 9 w"
  by (simp add: take_bit_eq_mask mask_eq_exp_minus_1)

lemma mask44: "(w :: usize) AND 0xFFFFFFFFFFF = take_bit 44 w"
  by (simp add: take_bit_eq_mask mask_eq_exp_minus_1)

lemma vpn_less: "vpn va level < 512"
proof -
  have "unat (vpn va level) < 2 ^ 9"
    by (simp add: vpn_def mask9 unsigned_take_bit_eq del: power_numeral)
  then show ?thesis by (simp add: word_less_nat_alt)
qed

lemma bit_vpn: "bit (vpn va level) i \<longleftrightarrow> i < 9 \<and> bit va (12 + 9 * level + i)"
  unfolding vpn_def mask9 by (auto simp: bit_simps)

definition page_aligned :: "usize \<Rightarrow> bool" where
  "page_aligned pa \<longleftrightarrow> unat pa mod PAGE_SIZE = 0"

definition phys_ok :: "usize \<Rightarrow> bool" where
  "phys_ok pa \<longleftrightarrow> page_aligned pa \<and> unat pa < 2 ^ 56"

lemma bit_unat: "bit (unat (w :: usize)) i = bit w i"
  by (auto simp: bit_unsigned_iff)

lemma page_aligned_bit: "page_aligned pa \<Longrightarrow> bit pa i \<Longrightarrow> 12 \<le> i"
proof (rule ccontr)
  assume a: "page_aligned pa" "bit pa i" "\<not> 12 \<le> i"
  then have "bit (take_bit 12 (unat pa)) i" by (simp add: bit_take_bit_iff bit_unat)
  then show False using a(1) by (simp add: page_aligned_def PAGE_SIZE_def take_bit_eq_mod)
qed

lemma bit_bounded: "unat (w :: usize) < 2 ^ n \<Longrightarrow> bit w i \<Longrightarrow> i < n"
proof -
  assume a: "unat w < 2 ^ n" "bit w i"
  then have "bit (take_bit n (unat w)) i" by (simp add: take_bit_nat_eq_self bit_unat)
  then show ?thesis by (simp add: bit_take_bit_iff)
qed

lemma phys_ok_bit: "phys_ok pa \<Longrightarrow> bit pa i \<Longrightarrow> 12 \<le> i \<and> i < 56"
  using page_aligned_bit bit_bounded unfolding phys_ok_def by blast

lemma flag_bits: "bit PTE_V i \<longleftrightarrow> i = 0" "bit PTE_R i \<longleftrightarrow> i = 1" "bit PTE_W i \<longleftrightarrow> i = 2" "bit PTE_X i \<longleftrightarrow> i = 3"
  "bit PTE_U i \<longleftrightarrow> i = 4" "bit PTE_G i \<longleftrightarrow> i = 5" "bit PTE_A i \<longleftrightarrow> i = 6" "bit PTE_D i \<longleftrightarrow> i = 7"
  unfolding pte_bits bit_shift1 by auto

lemma pte_is_valid_bit: "pte_is_valid pte \<longleftrightarrow> bit pte 0"
  unfolding pte_is_valid_def PTE_V_def and_shift1_eq_0 by simp

lemma bit_pte_for:
  "bit (pte_for pa flags) i \<longleftrightarrow> i < 64 \<and> (10 \<le> i \<and> bit pa (i + 2) \<or> bit flags i \<or> i = 0)"
proof -
  have "i - 10 + 12 = i + 2" if "10 \<le> i" using that by simp
  then show ?thesis
    unfolding pte_for_def by (auto simp: bit_simps flag_bits dest: bit_imp_le_length)
qed

lemma bit_pte_to_pa: "bit (pte_to_pa pte) i \<longleftrightarrow> 12 \<le> i \<and> i < 56 \<and> bit pte (i - 2)"
proof -
  have "10 + (i - 12) = i - 2" if "12 \<le> i" using that by simp
  then show ?thesis
    unfolding pte_to_pa_def mask44 by (auto simp: bit_simps dest: bit_imp_le_length)
qed

definition flags_ok :: "u64 \<Rightarrow> bool" where
  "flags_ok flags \<longleftrightarrow> take_bit 10 flags = flags"

lemma flags_ok_bit: "flags_ok flags \<Longrightarrow> bit flags i \<Longrightarrow> i < 10"
  unfolding flags_ok_def by (metis bit_take_bit_iff)

lemma pte_to_pa_pte_for:
  assumes "phys_ok pa" "flags_ok flags"
  shows "pte_to_pa (pte_for pa flags) = pa"
proof (rule bit_word_eqI)
  fix i assume "i < LENGTH(64)"
  have "Suc (Suc (i - 2)) = i" if "12 \<le> i" using that by simp
  then show "bit (pte_to_pa (pte_for pa flags)) i = bit pa i"
    using phys_ok_bit [OF assms(1), of i] flags_ok_bit [OF assms(2), of "i - 2"]
    by (auto simp: bit_pte_to_pa bit_pte_for)
qed

lemma pte_flags_pte_for: "phys_ok pa \<Longrightarrow> flags_ok flags \<Longrightarrow> take_bit 10 (pte_for pa flags) = flags OR PTE_V"
  by (rule bit_word_eqI) (auto simp: bit_simps bit_pte_for flag_bits dest: flags_ok_bit phys_ok_bit)

lemma pte_for_valid [simp]: "pte_is_valid (pte_for pa flags)"
  by (simp add: pte_is_valid_bit bit_pte_for)

section \<open>The hardware walk\<close>

definition pte_leaf :: "u64 \<Rightarrow> bool" where
  "pte_leaf pte \<longleftrightarrow> pte AND (PTE_R OR PTE_W OR PTE_X) \<noteq> 0"

fun walk :: "(usize \<Rightarrow> usize \<Rightarrow> u64) \<Rightarrow> usize \<Rightarrow> usize \<Rightarrow> nat \<Rightarrow> (nat \<times> u64) option" where
  "walk m t va level =
     (let pte = m t (vpn va level)
      in if \<not> pte_is_valid pte then None
         else if pte_leaf pte then Some (level, pte)
         else case level of 0 \<Rightarrow> None | Suc l \<Rightarrow> walk m (pte_to_pa pte) va l)"

declare walk.simps [simp del]

definition leaf_at :: "vm \<Rightarrow> usize \<Rightarrow> usize \<Rightarrow> (nat \<times> u64) option" where
  "leaf_at s root va = walk (tables s) root va 2"

lemma pte_leaf_bit: "pte_leaf pte \<longleftrightarrow> bit pte 1 \<or> bit pte 2 \<or> bit pte 3"
proof -
  have "pte_leaf pte \<longleftrightarrow> (\<exists>i. bit (pte AND (PTE_R OR PTE_W OR PTE_X)) i)"
    unfolding pte_leaf_def by (metis bit_0_eq bit_eqI bot_apply bot_bool_def)
  then show ?thesis by (auto simp: bit_simps flag_bits)
qed

lemma pte_leaf_pte_for: "pte_leaf (pte_for pa flags) \<longleftrightarrow> pte_leaf flags"
  by (auto simp: pte_leaf_bit bit_pte_for)

lemma pte_leaf_0 [simp]: "\<not> pte_leaf 0"
  by (simp add: pte_leaf_def)

lemma pte_leaf_leaf_flags: "pte_leaf flags \<Longrightarrow> pte_leaf (leaf_flags flags)"
  by (auto simp: pte_leaf_bit leaf_flags_def bit_simps)

text \<open>The tables of a tree, each labelled with the indices that lead to it from the root.\<close>

definition tree :: "(usize \<Rightarrow> usize \<Rightarrow> u64) \<Rightarrow> usize \<Rightarrow> (usize \<rightharpoonup> usize list) \<Rightarrow> bool" where
  "tree m root lab \<longleftrightarrow> lab root = Some [] \<and>
     (\<forall>t p i. lab t = Some p \<longrightarrow> pte_is_valid (m t i) \<longrightarrow>
        (if length p < 2 then \<not> pte_leaf (m t i) \<and> lab (pte_to_pa (m t i)) = Some (p @ [i])
         else pte_leaf (m t i)))"

definition vm_ok :: "vm \<Rightarrow> bool" where
  "vm_ok s \<longleftrightarrow> alloc_inv (frames s) \<and> (a_base (frames s) + a_count (frames s)) * FRAME_SIZE \<le> 2 ^ 56"

definition space_ok :: "vm \<Rightarrow> usize \<Rightarrow> (usize \<rightharpoonup> usize list) \<Rightarrow> bool" where
  "space_ok s root lab \<longleftrightarrow> vm_ok s \<and> tree (tables s) root lab \<and> dom lab \<subseteq> used (frames s)"

text \<open>What every step of building a space keeps: frames already in use that are not tables of this
  space are untouched, tables stay where they are, and at most \<open>n\<close> frames are taken.\<close>

definition grown :: "nat \<Rightarrow> vm \<Rightarrow> (usize \<rightharpoonup> usize list) \<Rightarrow> vm \<Rightarrow> (usize \<rightharpoonup> usize list) \<Rightarrow> bool" where
  "grown n s lab s' lab' \<longleftrightarrow>
     used (frames s) \<subseteq> used (frames s') \<and> lab \<subseteq>\<^sub>m lab' \<and> dom lab' \<inter> used (frames s) = dom lab \<inter> used (frames s) \<and>
     (\<forall>x\<in>used (frames s) - dom lab. tables s' x = tables s x) \<and>
     free_frames (frames s) \<le> free_frames (frames s') + n \<and>
     uart_mmio_base s' = uart_mmio_base s \<and> plic_mmio_base s' = plic_mmio_base s \<and> kernel_satp s' = kernel_satp s"

lemma grown_refl: "grown 0 s lab s lab"
  by (simp add: grown_def)

lemma grown_trans:
  assumes "grown n s lab s1 lab1" "grown n' s1 lab1 s2 lab2"
  shows "grown (n + n') s lab s2 lab2"
proof -
  have "lab \<subseteq>\<^sub>m lab2" using assms unfolding grown_def by (blast intro: map_le_trans)
  moreover have u: "used (frames s) \<subseteq> used (frames s1)" using assms(1) unfolding grown_def by blast
  moreover have d: "dom lab2 \<inter> used (frames s) = dom lab \<inter> used (frames s)"
    using assms u unfolding grown_def by blast
  moreover have "tables s2 x = tables s x" if x: "x \<in> used (frames s) - dom lab" for x
  proof -
    have "x \<in> used (frames s1) - dom lab1" using x u assms(1) unfolding grown_def by blast
    then show ?thesis using assms x unfolding grown_def by simp
  qed
  ultimately show ?thesis using assms unfolding grown_def by (intro conjI) auto
qed

lemma alloc_zeroed_ok:
  assumes ok: "vm_ok s" and free: "0 < free_frames (frames s)"
  obtains s' x where "alloc_zeroed s = Inr (s', Some x)" "x \<notin> used (frames s)" "vm_ok s'" "phys_ok x"
    "used (frames s') = insert x (used (frames s))" "tables s' = (tables s)(x := (\<lambda>_. 0))"
    "free_frames (frames s) = free_frames (frames s') + 1"
    "uart_mmio_base s' = uart_mmio_base s" "plic_mmio_base s' = plic_mmio_base s" "kernel_satp s' = kernel_satp s"
proof -
  let ?a = "frames s"
  have inv: "alloc_inv ?a" using ok by (simp add: vm_ok_def)
  have "\<not> (\<forall>i<a_count ?a. taken ?a i)"
    using inv free by (auto simp: alloc_inv_def free_frames_def card_gt_0_iff)
  with alloc_cases [OF inv] obtain i a' where i: "alloc ?a = Inr (a', Some (frame_addr ?a i))" "i < a_count ?a"
      "\<not> taken ?a i" "\<forall>j. taken a' j \<longleftrightarrow> j = i \<or> taken ?a j" "alloc_inv a'" "a_base a' = a_base ?a"
      "a_count a' = a_count ?a" "a_free a' = a_free ?a - 1" "0 < a_free ?a"
    by blast
  have u: "unat (frame_addr ?a i) = (a_base ?a + i) * FRAME_SIZE" using unat_frame_addr [OF inv] i by simp
  also have "... < (a_base ?a + a_count ?a) * FRAME_SIZE" using i by (simp add: FRAME_SIZE_def)
  finally have "phys_ok (frame_addr ?a i)"
    using u ok by (simp add: phys_ok_def page_aligned_def vm_ok_def FRAME_SIZE_def PAGE_SIZE_def)
  moreover have "used a' = insert (frame_addr ?a i) (used ?a)" by (rule used_eqI) (use i in auto)
  moreover have "frame_addr ?a i \<notin> used ?a" using i used_iff [OF inv] by simp
  ultimately show thesis
    using that [of "s\<lparr>frames := a', tables := (tables s)(frame_addr ?a i := (\<lambda>_. 0))\<rparr>" "frame_addr ?a i"] i ok
    by (simp add: alloc_zeroed_def vm_ok_def free_frames_def)
qed

lemma walk_empty: "m t = (\<lambda>_. 0) \<Longrightarrow> walk m t va level = None"
  by (subst walk.simps) (simp add: pte_is_valid_bit)

text \<open>Linking an empty table into an unused slot changes no translation.\<close>

lemma walk_link:
  assumes tr: "tree m root lab" and t: "lab t = Some p" "length p = 2 - level'" and inv: "\<not> pte_is_valid (m t i)"
    and x: "lab x = None" "\<not> pte_leaf e" "pte_to_pa e = x"
    and m': "m' = m(x := (\<lambda>_. 0), t := (m t)(i := e))"
    and u: "lab u = Some q" "length q = 2 - level" "level \<le> 2"
  shows "walk m' u va level = walk m u va level"
  using u
proof (induction level arbitrary: u q)
  case (0 u q)
  have "u \<noteq> x" using 0 x by auto
  then show ?case using 0 t inv x m' tr
    by (subst (1 2) walk.simps) (auto simp: Let_def tree_def)
next
  case (Suc l u q)
  have "u \<noteq> x" "x \<noteq> t" using Suc x t by auto
  show ?case
  proof (cases "u = t \<and> vpn va (Suc l) = i")
    case True
    then have e: "m' u (vpn va (Suc l)) = e" using m' by simp
    have "m' x = (\<lambda>_. 0)" using m' \<open>x \<noteq> t\<close> by simp
    then have "walk m' x va l = None" by (rule walk_empty)
    then show ?thesis using True inv e x by (subst (1 2) walk.simps) (simp add: Let_def)
  next
    case False
    then have same: "m' u (vpn va (Suc l)) = m u (vpn va (Suc l))" using m' \<open>u \<noteq> x\<close> by auto
    let ?e = "m u (vpn va (Suc l))"
    have "lab (pte_to_pa ?e) = Some (q @ [vpn va (Suc l)])" if "pte_is_valid ?e"
      using tr that Suc.prems by (auto simp: tree_def split: if_splits)
    then have "walk m' (pte_to_pa ?e) va l = walk m (pte_to_pa ?e) va l" if "pte_is_valid ?e"
      using Suc.IH [OF _ _ _, of "pte_to_pa ?e" "q @ [vpn va (Suc l)]"] that Suc.prems by simp
    then show ?thesis using same by (subst (1 2) walk.simps) (simp add: Let_def)
  qed
qed

lemma flags_ok_0 [simp]: "flags_ok 0"
  by (simp add: flags_ok_def)

lemma tree_link:
  assumes tr: "tree m root lab" and t: "lab t = Some p" "length p < 2"
    and x: "lab x = None" "\<not> pte_leaf e" "pte_to_pa e = x"
  shows "tree (m(x := (\<lambda>_. 0), t := (m t)(i := e))) root (lab(x \<mapsto> p @ [i]))"
proof -
  have "root \<noteq> x" "t \<noteq> x" using tr t x by (auto simp: tree_def)
  have "if length q < 2 then \<not> pte_leaf d \<and> (lab(x \<mapsto> p @ [i])) (pte_to_pa d) = Some (q @ [j]) else pte_leaf d"
    if d: "d = (m(x := (\<lambda>_. 0), t := (m t)(i := e))) u j" "pte_is_valid d" and q: "(lab(x \<mapsto> p @ [i])) u = Some q"
    for u q j d
  proof -
    have ux: "u \<noteq> x" using d \<open>t \<noteq> x\<close> by (auto simp: pte_is_valid_bit)
    then have lq: "lab u = Some q" using q by simp
    show ?thesis
    proof (cases "u = t \<and> j = i")
      case True
      then show ?thesis using d lq t x by simp
    next
      case False
      then have "d = m u j" using d ux by auto
      then show ?thesis using tr lq d(2) x(1) unfolding tree_def by (auto split: if_splits)
    qed
  qed
  moreover have "(lab(x \<mapsto> p @ [i])) root = Some []" using tr \<open>root \<noteq> x\<close> by (simp add: tree_def)
  ultimately show ?thesis unfolding tree_def by blast
qed

lemma next_table_ok:
  assumes ok: "space_ok s root lab" and t: "lab t = Some p" "length p < 2" and l: "level = 2 - length p"
    and free: "0 < free_frames (frames s)"
  obtains s' t' lab' where "next_table s t va level = Inr (s', t')" "space_ok s' root lab'" "grown 1 s lab s' lab'"
    "lab' t' = Some (p @ [vpn va level])" "pte_is_valid (tables s' t (vpn va level))"
    "pte_to_pa (tables s' t (vpn va level)) = t'" "\<forall>v. leaf_at s' root v = leaf_at s root v"
    "\<forall>u. u \<in> dom lab \<longrightarrow> u \<noteq> t \<longrightarrow> tables s' u = tables s u"
proof (cases "pte_is_valid (tables s t (vpn va level))")
  case True
  then have "lab (pte_to_pa (tables s t (vpn va level))) = Some (p @ [vpn va level])"
    using ok t by (auto simp: space_ok_def tree_def)
  then show thesis
    using that [of s "pte_to_pa (tables s t (vpn va level))" lab] ok True
    by (simp add: next_table_def grown_def Let_def)
next
  case False
  let ?i = "vpn va level"
  have vm: "vm_ok s" and tr: "tree (tables s) root lab" and dom: "dom lab \<subseteq> used (frames s)"
    using ok by (auto simp: space_ok_def)
  obtain s1 x where x: "alloc_zeroed s = Inr (s1, Some x)" "x \<notin> used (frames s)" "vm_ok s1" "phys_ok x"
    "used (frames s1) = insert x (used (frames s))" "tables s1 = (tables s)(x := (\<lambda>_. 0))"
    "free_frames (frames s) = free_frames (frames s1) + 1"
    "uart_mmio_base s1 = uart_mmio_base s" "plic_mmio_base s1 = plic_mmio_base s" "kernel_satp s1 = kernel_satp s"
    by (rule alloc_zeroed_ok [OF vm free])
  have lx: "lab x = None" and tx: "t \<noteq> x" using x dom t by (auto simp: domIff)
  let ?e = "pte_for x 0"
  let ?m = "(tables s)(x := (\<lambda>_. 0), t := (tables s t)(?i := ?e))"
  let ?s = "s1\<lparr>tables := ?m\<rparr>"
  let ?lab = "lab(x \<mapsto> p @ [?i])"
  have e: "\<not> pte_leaf ?e" "pte_to_pa ?e = x" using x(4) by (simp_all add: pte_leaf_pte_for pte_to_pa_pte_for)
  have run: "next_table s t va level = Inr (?s, x)"
    using False x(1,6) tx by (simp add: next_table_def Let_def expectr_def fun_upd_twist)
  have lk: "leaf_at ?s root v = leaf_at s root v" for v
    unfolding leaf_at_def
    using walk_link [OF tr t(1) _ False lx e refl, of level root "[]" 2 v] tr t(2) l by (simp add: tree_def)
  have sp: "space_ok ?s root ?lab"
    using tree_link [OF tr t lx e, of ?i] x(3,5) dom by (auto simp: space_ok_def vm_ok_def)
  have gr: "grown 1 s lab ?s ?lab"
    using x dom t lx by (auto simp: grown_def map_le_def domIff)
  show thesis
    using that [OF run sp gr] lk lx tx e by (auto simp: domIff)
qed

definition same_page :: "usize \<Rightarrow> usize \<Rightarrow> bool" where
  "same_page v va \<longleftrightarrow> vpn v 2 = vpn va 2 \<and> vpn v 1 = vpn va 1 \<and> vpn v 0 = vpn va 0"

lemma walk_Suc: "walk m t va (Suc l) = (let pte = m t (vpn va (Suc l)) in
    if \<not> pte_is_valid pte then None else if pte_leaf pte then Some (Suc l, pte) else walk m (pte_to_pa pte) va l)"
  by (subst walk.simps) (simp add: Let_def)

lemma walk_2: "walk m t va 2 = (let pte = m t (vpn va 2) in
    if \<not> pte_is_valid pte then None else if pte_leaf pte then Some (2, pte) else walk m (pte_to_pa pte) va 1)"
  using walk_Suc [of m t va 1] by (simp only: Suc_1)

lemma walk_1: "walk m t va 1 = (let pte = m t (vpn va 1) in
    if \<not> pte_is_valid pte then None else if pte_leaf pte then Some (1, pte) else walk m (pte_to_pa pte) va 0)"
  using walk_Suc [of m t va 0] by (simp only: One_nat_def)

lemma walk_0: "walk m t va 0 = (let pte = m t (vpn va 0) in
    if pte_is_valid pte \<and> pte_leaf pte then Some (0, pte) else None)"
  by (subst walk.simps) (simp add: Let_def)

lemma tree_child:
  "tree m root lab \<Longrightarrow> lab t = Some p \<Longrightarrow> length p < 2 \<Longrightarrow> pte_is_valid (m t i) \<Longrightarrow>
     \<not> pte_leaf (m t i) \<and> lab (pte_to_pa (m t i)) = Some (p @ [i])"
  by (auto simp: tree_def split: if_splits)

lemma tree_leaf: "tree m root lab \<Longrightarrow> lab t = Some p \<Longrightarrow> length p = 2 \<Longrightarrow> pte_is_valid (m t i) \<Longrightarrow> pte_leaf (m t i)"
  by (auto simp: tree_def split: if_splits)

text \<open>The walk to the leaf table \<open>t0\<close> of \<open>va\<close>.\<close>

definition reaches :: "(usize \<Rightarrow> usize \<Rightarrow> u64) \<Rightarrow> usize \<Rightarrow> usize \<Rightarrow> usize \<Rightarrow> usize \<Rightarrow> bool" where
  "reaches m root va t1 t0 \<longleftrightarrow>
     pte_is_valid (m root (vpn va 2)) \<and> pte_to_pa (m root (vpn va 2)) = t1 \<and>
     pte_is_valid (m t1 (vpn va 1)) \<and> pte_to_pa (m t1 (vpn va 1)) = t0"

lemma reaches_labels:
  assumes "tree m root lab" "reaches m root va t1 t0"
  shows "lab t1 = Some [vpn va 2]" "lab t0 = Some [vpn va 2, vpn va 1]"
    "\<not> pte_leaf (m root (vpn va 2))" "\<not> pte_leaf (m t1 (vpn va 1))"
  using tree_child [OF assms(1), of root "[]" "vpn va 2"] tree_child [OF assms(1), of t1 "[vpn va 2]" "vpn va 1"] assms
  by (auto simp: reaches_def tree_def)

lemma walk_reaches:
  assumes tr: "tree m root lab" and re: "reaches m root va t1 t0"
  shows "walk m root va 2 = (let pte = m t0 (vpn va 0) in if pte_is_valid pte then Some (0, pte) else None)"
  using re reaches_labels [OF tr re] tree_leaf [OF tr, of t0 _ "vpn va 0"]
  by (simp add: walk_2 walk_1 walk_0 reaches_def Let_def del: One_nat_def)

lemma walk_set_leaf:
  assumes tr: "tree m root lab" and re: "reaches m root va t1 t0" and e: "pte_is_valid e" "pte_leaf e"
  shows "walk (m(t0 := (m t0)(vpn va 0 := e))) root v 2 = (if same_page v va then Some (0, e) else walk m root v 2)"
proof -
  let ?m = "m(t0 := (m t0)(vpn va 0 := e))"
  note lab = reaches_labels [OF tr re]
  have root: "lab root = Some []" using tr by (simp add: tree_def)
  have c1: "lab (pte_to_pa (m root (vpn v 2))) = Some [vpn v 2]" if "pte_is_valid (m root (vpn v 2))"
    using tree_child [OF tr root _ that] by simp
  have c2: "lab (pte_to_pa (m t (vpn v 1))) = Some [vpn v 2, vpn v 1]"
    if "pte_is_valid (m t (vpn v 1))" "lab t = Some [vpn v 2]" for t
    using tree_child [OF tr that(2) _ that(1)] by simp
  have l0: "walk ?m t v 0 = (if t = t0 \<and> vpn v 0 = vpn va 0 then Some (0, e) else walk m t v 0)" for t
    using e by (simp add: walk_0 Let_def)
  let ?t = "pte_to_pa (m root (vpn v 2))"
  have l1: "walk ?m ?t v 1 = (if same_page v va then Some (0, e) else walk m ?t v 1)"
    if ok: "pte_is_valid (m root (vpn v 2))"
  proof -
    have "?t \<noteq> t0" using c1 [OF ok] lab by auto
    then have mt: "?m ?t = m ?t" by simp
    show ?thesis
    proof (cases "vpn v 2 = vpn va 2 \<and> vpn v 1 = vpn va 1")
      case True
      then have "?t = t1" "pte_to_pa (m ?t (vpn v 1)) = t0" "pte_is_valid (m ?t (vpn v 1))"
        using re by (simp_all add: reaches_def del: One_nat_def)
      then show ?thesis
        using True lab(4) unfolding walk_1 mt Let_def by (simp add: l0 same_page_def del: One_nat_def)
    next
      case False
      then have "pte_to_pa (m ?t (vpn v 1)) \<noteq> t0" if "pte_is_valid (m ?t (vpn v 1))"
        using c2 [OF that c1 [OF ok]] lab(2) by auto
      moreover have "\<not> same_page v va" using False by (auto simp: same_page_def)
      ultimately show ?thesis unfolding walk_1 mt Let_def l0 by simp
    qed
  qed
  have "root \<noteq> t0" using root lab by auto
  moreover have "\<not> pte_leaf (m root (vpn v 2))" if "pte_is_valid (m root (vpn v 2))"
    using tree_child [OF tr root _ that] by simp
  ultimately show ?thesis
    using re l1 by (auto simp: walk_2 Let_def reaches_def same_page_def simp del: One_nat_def)
qed

lemma tree_set_leaf:
  assumes tr: "tree m root lab" and t: "lab t0 = Some q" "length q = 2" and e: "pte_leaf e"
  shows "tree (m(t0 := (m t0)(i := e))) root lab"
  using tr t e unfolding tree_def by auto

section \<open>Mapping a page\<close>

lemma flags_ok_leaf_flags: "flags_ok flags \<Longrightarrow> flags_ok (leaf_flags flags)"
  unfolding flags_ok_def by (rule bit_word_eqI) (auto simp: leaf_flags_def bit_simps flag_bits dest: flags_ok_bit [unfolded flags_ok_def])

definition has_leaf :: "vm \<Rightarrow> usize \<Rightarrow> usize \<Rightarrow> bool" where
  "has_leaf s root va \<longleftrightarrow> (\<exists>t1 t0. reaches (tables s) root va t1 t0)"

definition page_cost :: "vm \<Rightarrow> usize \<Rightarrow> usize \<Rightarrow> nat" where
  "page_cost s root va = (if has_leaf s root va then 0 else 2)"

text \<open>The walk down to the leaf table, which creates the tables that are missing.\<close>

lemma leaf_table_ok:
  assumes ok: "space_ok s root lab" and free: "page_cost s root va \<le> free_frames (frames s)"
  obtains s1 t1 s2 t0 lab2 where "next_table s root va 2 = Inr (s1, t1)" "next_table s1 t1 va 1 = Inr (s2, t0)"
    "space_ok s2 root lab2" "grown (page_cost s root va) s lab s2 lab2" "reaches (tables s2) root va t1 t0"
    "\<forall>v. leaf_at s2 root v = leaf_at s root v"
proof (cases "has_leaf s root va")
  case True
  then obtain t1 t0 where re: "reaches (tables s) root va t1 t0" by (auto simp: has_leaf_def)
  then have "next_table s root va 2 = Inr (s, t1)" "next_table s t1 va 1 = Inr (s, t0)"
    by (simp_all add: next_table_def reaches_def Let_def)
  then show thesis using that [OF _ _ ok _ re] grown_refl True by (simp add: page_cost_def)
next
  case False
  have root: "lab root = Some []" using ok by (simp add: space_ok_def tree_def)
  have h: "length ([] :: usize list) < 2" "2 = 2 - length ([] :: usize list)" "0 < free_frames (frames s)"
    using free False by (simp_all add: page_cost_def)
  obtain s1 t1 lab1 where 1: "next_table s root va 2 = Inr (s1, t1)" "space_ok s1 root lab1" "grown 1 s lab s1 lab1"
    "lab1 t1 = Some ([] @ [vpn va 2])" "pte_is_valid (tables s1 root (vpn va 2))" "pte_to_pa (tables s1 root (vpn va 2)) = t1"
    "\<forall>v. leaf_at s1 root v = leaf_at s root v"
    using next_table_ok [OF ok root h] by metis
  have h1: "length ([] @ [vpn va 2]) < 2" "1 = 2 - length ([] @ [vpn va 2])" "0 < free_frames (frames s1)"
    using 1(3) free False by (simp_all add: grown_def page_cost_def)
  obtain s2 t0 lab2 where 2: "next_table s1 t1 va 1 = Inr (s2, t0)" "space_ok s2 root lab2" "grown 1 s1 lab1 s2 lab2"
    "lab2 t0 = Some (([] @ [vpn va 2]) @ [vpn va 1])" "pte_is_valid (tables s2 t1 (vpn va 1))" "pte_to_pa (tables s2 t1 (vpn va 1)) = t0"
    "\<forall>v. leaf_at s2 root v = leaf_at s1 root v" "\<forall>u. u \<in> dom lab1 \<longrightarrow> u \<noteq> t1 \<longrightarrow> tables s2 u = tables s1 u"
    using next_table_ok [OF 1(2,4) h1] by metis
  have root1: "lab1 root = Some []" using 1(2) by (simp add: space_ok_def tree_def)
  then have "root \<noteq> t1" "root \<in> dom lab1" using 1(4) by auto
  then have "tables s2 root = tables s1 root" using 2(8) by blast
  then have re: "reaches (tables s2) root va t1 t0" using 1 2 by (simp add: reaches_def)
  have "grown 2 s lab s2 lab2" using grown_trans [OF 1(3) 2(3)] by (simp add: numeral_2_eq_2)
  then show thesis using that [OF 1(1) 2(1,2) _ re] False 1(7) 2(7) by (simp add: page_cost_def)
qed

lemma map_page_ok:
  assumes ok: "space_ok s root lab" and al: "page_aligned va" "page_aligned pa" and fl: "pte_leaf flags"
    and free: "page_cost s root va \<le> free_frames (frames s)" and none: "leaf_at s root va = None"
  obtains s' lab' where "map_page s root va pa flags = Inr s'" "space_ok s' root lab'"
    "grown (page_cost s root va) s lab s' lab'" "has_leaf s' root va"
    "\<forall>v. leaf_at s' root v = (if same_page v va then Some (0, pte_for pa (leaf_flags flags)) else leaf_at s root v)"
proof -
  obtain s1 t1 s2 t0 lab2 where nx: "next_table s root va 2 = Inr (s1, t1)" "next_table s1 t1 va 1 = Inr (s2, t0)"
    "space_ok s2 root lab2" "grown (page_cost s root va) s lab s2 lab2" "reaches (tables s2) root va t1 t0"
    "\<forall>v. leaf_at s2 root v = leaf_at s root v"
    by (rule leaf_table_ok [OF ok free])
  note re = nx(5)
  have tr: "tree (tables s2) root lab2" using nx(3) by (simp add: space_ok_def)
  note l = reaches_labels [OF tr re]
  have inv: "\<not> pte_is_valid (tables s2 t0 (vpn va 0))"
    using walk_reaches [OF tr re] none nx(6) by (auto simp: leaf_at_def Let_def split: if_splits)
  let ?e = "pte_for pa (leaf_flags flags)"
  have e: "pte_is_valid ?e" "pte_leaf ?e" using fl by (simp_all add: pte_leaf_pte_for pte_leaf_leaf_flags)
  let ?s = "s2\<lparr>tables := (tables s2)(t0 := (tables s2 t0)(vpn va 0 := ?e))\<rparr>"
  have run: "map_page s root va pa flags = Inr ?s"
    using al nx(1,2) inv by (simp add: map_page_def assertr_def page_aligned_def Let_def)
  have sp: "space_ok ?s root lab2"
    using tree_set_leaf [OF tr l(2), of ?e "vpn va 0"] e nx(3) by (simp add: space_ok_def vm_ok_def)
  have "grown 0 s2 lab2 ?s lab2" using l(2) by (auto simp: grown_def)
  from grown_trans [OF nx(4) this] have gr: "grown (page_cost s root va) s lab ?s lab2" by simp
  have "root \<noteq> t0" "t1 \<noteq> t0" using l tr by (auto simp: tree_def)
  then have hl: "has_leaf ?s root va" using re by (auto simp: has_leaf_def reaches_def)
  have lk: "leaf_at ?s root v = (if same_page v va then Some (0, ?e) else leaf_at s root v)" for v
    using walk_set_leaf [OF tr re e, of v] nx(6) by (simp add: leaf_at_def)
  show thesis using that [OF run sp gr hl] lk by blast
qed

text \<open>A page that is already mapped cannot be mapped again.\<close>

lemma map_page_remap:
  assumes ok: "space_ok s root lab" and al: "page_aligned va" "page_aligned pa" and some: "leaf_at s root va \<noteq> None"
  shows "map_page s root va pa flags = Inl (AssertFailed ''remap of va'')"
proof -
  let ?m = "tables s"
  have tr: "tree ?m root lab" and root: "lab root = Some []" using ok by (auto simp: space_ok_def tree_def)
  have v2: "pte_is_valid (?m root (vpn va 2))" using some by (auto simp: leaf_at_def walk_2 Let_def split: if_splits)
  let ?t1 = "pte_to_pa (?m root (vpn va 2))"
  have l1: "\<not> pte_leaf (?m root (vpn va 2))" "lab ?t1 = Some [vpn va 2]" using tree_child [OF tr root _ v2] by simp_all
  have v1: "pte_is_valid (?m ?t1 (vpn va 1))"
    using some v2 l1 by (auto simp: leaf_at_def walk_2 walk_1 Let_def simp del: One_nat_def split: if_splits)
  let ?t0 = "pte_to_pa (?m ?t1 (vpn va 1))"
  have "reaches ?m root va ?t1 ?t0" using v1 v2 by (simp add: reaches_def)
  then have "pte_is_valid (?m ?t0 (vpn va 0))"
    using walk_reaches [OF tr] some by (auto simp: leaf_at_def Let_def split: if_splits)
  then show ?thesis
    using v1 v2 al by (simp add: map_page_def next_table_def assertr_def page_aligned_def Let_def)
qed

section \<open>Mapping ranges\<close>

definition page :: "usize \<Rightarrow> usize" where
  "page v = push_bit 12 (drop_bit 12 v)"

lemma unat_page: "unat (page v) = unat v div 4096 * 4096"
proof -
  have "unat v div 4096 * 4096 < 2 ^ 64" using unsigned_less [of v, where ?'a = nat] by simp
  then show ?thesis
    unfolding page_def
    by (simp only: unsigned_push_bit_eq unsigned_drop_bit_eq) (simp add: drop_bit_eq_div push_bit_eq_mult take_bit_eq_mod)
qed

lemma vpn_nat: "unat (vpn v l) = unat v div 2 ^ (12 + 9 * l) mod 512"
  unfolding vpn_def mask9
  by (simp only: unsigned_take_bit_eq unsigned_drop_bit_eq)
    (simp add: drop_bit_eq_div take_bit_eq_mod unsigned_less [of v, where ?'a = nat, simplified])

lemma same_page_iff:
  assumes "unat v < 2 ^ 39" "unat a < 2 ^ 39"
  shows "same_page v a \<longleftrightarrow> unat v div 4096 = unat a div 4096"
proof -
  have b: "x = x div 262144 mod 512 * 262144 + x div 512 mod 512 * 512 + x mod 512" if "x < 2 ^ 27" for x :: nat
  proof -
    have "x = x div 512 * 512 + x mod 512" by simp
    moreover have "x div 512 = x div 512 div 512 * 512 + x div 512 mod 512" by simp
    moreover have "x div 512 div 512 = x div 262144" by (simp add: div_mult2_eq [symmetric])
    moreover have "x div 262144 mod 512 = x div 262144" using that by simp
    ultimately show ?thesis by linarith
  qed
  have d: "x div 2 ^ (12 + 9 * 2) = x div 4096 div 262144" "x div 2 ^ (12 + 9 * 1) = x div 4096 div 512"
    "x div 2 ^ (12 + 9 * 0) = x div 4096" for x :: nat
    by (simp_all flip: div_mult2_eq)
  have lt: "unat v div 4096 < 2 ^ 27" "unat a div 4096 < 2 ^ 27" using assms by simp_all
  have "same_page v a \<longleftrightarrow> unat (vpn v 2) = unat (vpn a 2) \<and> unat (vpn v 1) = unat (vpn a 1) \<and> unat (vpn v 0) = unat (vpn a 0)"
    by (simp only: same_page_def word_unat_eq_iff)
  also have "... \<longleftrightarrow> unat v div 4096 = unat a div 4096"
    unfolding vpn_nat d using b [OF lt(1)] b [OF lt(2)] by metis
  finally show ?thesis .
qed

text \<open>A region: its half-open bounds and the flags of its pages. Virtual addresses below \<open>2^39\<close> are
  the ones Sv39 tells apart.\<close>

type_synonym region = "usize \<times> usize \<times> u64"

fun in_region :: "usize \<Rightarrow> region \<Rightarrow> bool" where
  "in_region v (a, e, fl) \<longleftrightarrow> a \<le> v \<and> v < e"

fun region_ok :: "region \<Rightarrow> bool" where
  "region_ok (a, e, fl) \<longleftrightarrow> page_aligned a \<and> page_aligned e \<and> a \<le> e \<and> e \<le> 0x8000000000 \<and> pte_leaf fl \<and> flags_ok fl"

fun region_pages :: "region \<Rightarrow> nat" where
  "region_pages (a, e, fl) = (unat e - unat a) div PAGE_SIZE"

fun region_disjoint :: "region \<Rightarrow> region \<Rightarrow> bool" where
  "region_disjoint (a, e, fl) (a', e', fl') \<longleftrightarrow> e \<le> a' \<or> e' \<le> a \<or> a = e \<or> a' = e'"

definition leaf_entry :: "usize \<Rightarrow> u64 \<Rightarrow> nat \<times> u64" where
  "leaf_entry v flags = (0, pte_for (page v) (leaf_flags flags))"

lemma page_of_aligned: "page_aligned a \<Longrightarrow> unat v div 4096 = unat a div 4096 \<Longrightarrow> page v = a"
  unfolding word_unat_eq_iff unat_page by (simp add: page_aligned_def PAGE_SIZE_def mod_0_imp_dvd)

text \<open>A range needs two tables for its first page and at most two more each time it enters another
  2 MiB block; pages of one block share their tables.\<close>

definition range_cost :: "usize \<Rightarrow> nat \<Rightarrow> bool \<Rightarrow> nat" where
  "range_cost a n have_table = (if n = 0 then 0
     else 2 * ((unat a + (n - 1) * 4096) div 2097152 - unat a div 2097152) + (if have_table then 0 else 2))"

lemma grown_mono: "grown n s lab s' lab' \<Longrightarrow> n \<le> n' \<Longrightarrow> grown n' s lab s' lab'"
  unfolding grown_def by simp

lemma has_leaf_block:
  assumes "unat a div 2097152 = unat b div 2097152"
  shows "has_leaf s root a = has_leaf s root b"
proof -
  have d: "x div 2 ^ (12 + 9 * 2) = x div 2097152 div 512" "x div 2 ^ (12 + 9 * 1) = x div 2097152" for x :: nat
    by (simp_all flip: div_mult2_eq)
  have "vpn a 2 = vpn b 2" "vpn a 1 = vpn b 1"
    unfolding word_unat_eq_iff vpn_nat d assms by simp_all
  then show ?thesis unfolding has_leaf_def reaches_def by (simp del: One_nat_def)
qed

lemma range_cost_step:
  assumes "unat b = unat a + 4096" "unat a div 2097152 = unat b div 2097152 \<Longrightarrow> h'"
  shows "(if h then 0 else 2) + range_cost b n h' \<le> range_cost a (Suc n) h"
proof (cases n)
  case (Suc k)
  have "unat a + n * 4096 = unat b + (n - 1) * 4096" using Suc assms(1) by simp
  then have e: "range_cost a (Suc n) h = 2 * ((unat b + (n - 1) * 4096) div 2097152 - unat a div 2097152) + (if h then 0 else 2)"
    by (simp add: range_cost_def)
  have ab: "unat a div 2097152 \<le> unat b div 2097152" "unat b div 2097152 \<le> (unat b + (n - 1) * 4096) div 2097152"
    using assms(1) by (simp_all add: div_le_mono)
  show ?thesis
  proof (cases "unat a div 2097152 = unat b div 2097152")
    case True
    then have h' using assms(2) by simp
    then show ?thesis using True Suc unfolding e by (simp add: range_cost_def)
  next
    case False
    let ?x = "unat a div 2097152" and ?y = "unat b div 2097152" and ?z = "(unat b + (n - 1) * 4096) div 2097152"
    have "?x + 1 \<le> ?y" using False ab by simp
    then have "2 * (?z - ?y) + 2 \<le> 2 * (?z - ?x)" using ab by linarith
    moreover have "range_cost b n h' \<le> 2 * (?z - ?y) + 2" using Suc by (simp add: range_cost_def)
    ultimately show ?thesis unfolding e by simp
  qed
qed (simp add: range_cost_def)

lemma map_range_ok:
  assumes "space_ok s root lab" "page_aligned a" "unat e = unat a + n * 4096" "unat e \<le> 2 ^ 39" "pte_leaf flags"
    "range_cost a n (has_leaf s root a) \<le> free_frames (frames s)" "\<forall>v. a \<le> v \<and> v < e \<longrightarrow> leaf_at s root v = None"
  shows "\<exists>s' lab'. map_range s root a e flags = Inr s' \<and> space_ok s' root lab' \<and>
    grown (range_cost a n (has_leaf s root a)) s lab s' lab' \<and>
    (\<forall>v. unat v < 2 ^ 39 \<longrightarrow> leaf_at s' root v = (if a \<le> v \<and> v < e then Some (leaf_entry v flags) else leaf_at s root v))"
  using assms
proof (induction n arbitrary: s lab a)
  case 0
  then have "\<not> a < e" by (simp add: word_less_nat_alt)
  then have "map_range s root a e flags = Inr s" by (subst map_range.simps) simp
  then show ?case using 0 \<open>\<not> a < e\<close> grown_refl [of s lab] by (intro exI [of _ s] exI [of _ lab]) (auto simp: range_cost_def)
next
  case (Suc n)
  have ae: "a < e" using Suc.prems(3) by (simp add: word_less_nat_alt)
  have a39: "unat a < 2 ^ 39" using Suc.prems(3,4) by simp
  let ?b = "a + 4096"
  have b: "unat ?b = unat a + 4096" using a39 by (simp add: unat_add_fits)
  let ?c = "page_cost s root a"
  have c0: "?c = (if has_leaf s root a then 0 else 2)" by (simp add: page_cost_def)
  have "?c \<le> range_cost a (Suc n) (has_leaf s root a)" unfolding c0 range_cost_def by simp
  then have c1: "?c \<le> free_frames (frames s)" using Suc.prems(6) by linarith
  have na: "leaf_at s root a = None" using Suc.prems(7) ae by simp
  obtain s1 lab1 where 1: "map_page s root a a flags = Inr s1" "space_ok s1 root lab1" "grown ?c s lab s1 lab1" "has_leaf s1 root a"
    "\<forall>v. leaf_at s1 root v = (if same_page v a then Some (0, pte_for a (leaf_flags flags)) else leaf_at s root v)"
    by (rule map_page_ok [OF Suc.prems(1,2,2,5) c1 na])
  let ?d = "range_cost ?b n (has_leaf s1 root ?b)"
  have cost: "?c + ?d \<le> range_cost a (Suc n) (has_leaf s root a)"
    unfolding c0 by (rule range_cost_step [OF b]) (use 1(4) has_leaf_block in blast)
  have nx: "add_chk a (word_of_nat PAGE_SIZE) = Inr ?b" using a39 by (simp add: add_chk_def PAGE_SIZE_def)
  have pg: "same_page v a \<longleftrightarrow> a \<le> v \<and> v < ?b" if "unat v < 2 ^ 39" for v
    using same_page_iff [OF that a39] Suc.prems(2) b
    by (auto simp: word_le_nat_alt word_less_nat_alt page_aligned_def PAGE_SIZE_def)
  have lt39: "unat v < 2 ^ 39" if "v < e" for v
    using that Suc.prems(4) by (simp add: word_less_nat_alt)
  have n1: "\<forall>v. ?b \<le> v \<and> v < e \<longrightarrow> leaf_at s1 root v = None"
    using 1(5) Suc.prems(7) pg lt39 b by (auto simp: word_le_nat_alt word_less_nat_alt)
  have al: "page_aligned ?b" using Suc.prems(2) b by (simp add: page_aligned_def PAGE_SIZE_def)
  have f1: "?d \<le> free_frames (frames s1)" using 1(3) Suc.prems(6) cost unfolding grown_def by linarith
  have e: "unat e = unat ?b + n * 4096" using Suc.prems(3) b by simp
  obtain s' lab' where 2: "map_range s1 root ?b e flags = Inr s'" "space_ok s' root lab'" "grown ?d s1 lab1 s' lab'"
    "\<forall>v. unat v < 2 ^ 39 \<longrightarrow> leaf_at s' root v = (if ?b \<le> v \<and> v < e then Some (leaf_entry v flags) else leaf_at s1 root v)"
    using Suc.IH [OF 1(2) al e Suc.prems(4,5) f1 n1] by blast
  have "map_range s root a e flags = Inr s'"
    by (subst map_range.simps) (use ae 1(1) nx 2(1) in simp)
  moreover have "grown (range_cost a (Suc n) (has_leaf s root a)) s lab s' lab'"
    by (rule grown_mono [OF grown_trans [OF 1(3) 2(3)] cost])
  moreover have "leaf_at s' root v = (if a \<le> v \<and> v < e then Some (leaf_entry v flags) else leaf_at s root v)" if v: "unat v < 2 ^ 39" for v
  proof -
    have be: "a \<le> v \<and> v < e \<longleftrightarrow> a \<le> v \<and> v < ?b \<or> ?b \<le> v \<and> v < e"
      using b Suc.prems(3) by (auto simp: word_le_nat_alt word_less_nat_alt)
    have "leaf_entry v flags = (0, pte_for a (leaf_flags flags))" if "same_page v a"
      using page_of_aligned [OF Suc.prems(2)] same_page_iff [OF v a39] that by (simp add: leaf_entry_def)
    then show ?thesis using 2(4) 1(5) v pg [OF v] be by (auto split: if_splits)
  qed
  ultimately show ?case using 2(2) by blast
qed

section \<open>Building a space out of regions\<close>

fun regions_ok :: "region list \<Rightarrow> bool" where
  "regions_ok [] \<longleftrightarrow> True"
| "regions_ok (r # rs) \<longleftrightarrow> region_ok r \<and> list_all (region_disjoint r) rs \<and> regions_ok rs"

fun region_cost :: "region \<Rightarrow> nat" where
  "region_cost (a, e, fl) = range_cost a (region_pages (a, e, fl)) False"

definition table_frames :: "region list \<Rightarrow> nat" where
  "table_frames rs = sum_list (map region_cost rs)"

fun region_flags :: "region list \<Rightarrow> usize \<Rightarrow> u64 option" where
  "region_flags [] v = None"
| "region_flags (r # rs) v = (if in_region v r then Some (snd (snd r)) else region_flags rs v)"

fun map_regions :: "vm \<Rightarrow> usize \<Rightarrow> region list \<Rightarrow> vm result" where
  "map_regions s root [] = Inr s"
| "map_regions s root ((a, e, fl) # rs) = bindr (map_range s root a e fl) (\<lambda>s. map_regions s root rs)"

lemma map_regions_append: "map_regions s root (xs @ ys) = bindr (map_regions s root xs) (\<lambda>s. map_regions s root ys)"
  by (induction s root xs rule: map_regions.induct) (auto simp: bindr_assoc intro: bindr_cong)

lemma region_ok_pages: "region_ok (a, e, fl) \<Longrightarrow> unat e = unat a + region_pages (a, e, fl) * 4096"
  by (simp add: page_aligned_def PAGE_SIZE_def word_le_nat_alt dvd_diff_nat mod_0_imp_dvd)

lemma region_disjoint_in: "region_disjoint r r' \<Longrightarrow> in_region v r \<Longrightarrow> \<not> in_region v r'"
  by (cases r; cases r') auto

lemma map_regions_ok:
  assumes "space_ok s root lab" "regions_ok rs" "table_frames rs \<le> free_frames (frames s)"
    "\<forall>r\<in>set rs. \<forall>v. in_region v r \<longrightarrow> leaf_at s root v = None"
  shows "\<exists>s' lab'. map_regions s root rs = Inr s' \<and> space_ok s' root lab' \<and> grown (table_frames rs) s lab s' lab' \<and>
    (\<forall>v. unat v < 2 ^ 39 \<longrightarrow> leaf_at s' root v =
      (case region_flags rs v of None \<Rightarrow> leaf_at s root v | Some fl \<Rightarrow> Some (leaf_entry v fl)))"
  using assms
proof (induction rs arbitrary: s lab)
  case Nil
  then show ?case using grown_refl [of s lab] by (auto simp: table_frames_def)
next
  case (Cons r rs)
  obtain a e fl where r: "r = (a, e, fl)" by (cases r)
  have ok: "region_ok (a, e, fl)" using Cons.prems(2) r by simp
  then have e: "unat e \<le> 2 ^ 39" by (simp add: word_le_nat_alt)
  let ?n = "region_cost (a, e, fl)"
  let ?k = "range_cost a (region_pages (a, e, fl)) (has_leaf s root a)"
  have kn: "?k \<le> ?n" by (simp add: range_cost_def)
  have tot: "table_frames (r # rs) = ?n + table_frames rs" using r by (simp add: table_frames_def)
  have k: "?k \<le> free_frames (frames s)" using kn tot Cons.prems(3) by linarith
  have un: "\<forall>v. a \<le> v \<and> v < e \<longrightarrow> leaf_at s root v = None" using Cons.prems(4) r by simp
  have al: "page_aligned a" "pte_leaf fl" using ok by simp_all
  obtain s1 lab1 where 1: "map_range s root a e fl = Inr s1" "space_ok s1 root lab1" "grown ?k s lab s1 lab1"
    "\<forall>v. unat v < 2 ^ 39 \<longrightarrow> leaf_at s1 root v = (if a \<le> v \<and> v < e then Some (leaf_entry v fl) else leaf_at s root v)"
    using map_range_ok [OF Cons.prems(1) al(1) region_ok_pages [OF ok] e al(2) k un] by blast
  have dis: "\<not> in_region v r" if "r' \<in> set rs" "in_region v r'" for r' v
    using Cons.prems(2) that region_disjoint_in [of r r' v] by (simp add: list_all_iff) blast
  have small: "unat v < 2 ^ 39" if "r' \<in> set rs" "in_region v r'" for r' v
  proof -
    have "region_ok r'" using Cons.prems(2) that(1) by (induction rs) auto
    then show ?thesis using that(2) by (cases r') (auto simp: word_le_nat_alt word_less_nat_alt)
  qed
  have "\<forall>r'\<in>set rs. \<forall>v. in_region v r' \<longrightarrow> leaf_at s1 root v = None"
    using 1(4) dis small Cons.prems(4) r by auto
  moreover have "table_frames rs \<le> free_frames (frames s1)" using 1(3) Cons.prems(3) tot kn unfolding grown_def by linarith
  ultimately obtain s' lab' where 2: "map_regions s1 root rs = Inr s'" "space_ok s' root lab'"
      "grown (table_frames rs) s1 lab1 s' lab'"
      "\<forall>v. unat v < 2 ^ 39 \<longrightarrow> leaf_at s' root v =
        (case region_flags rs v of None \<Rightarrow> leaf_at s1 root v | Some fl \<Rightarrow> Some (leaf_entry v fl))"
    using Cons.IH [OF 1(2)] Cons.prems(2) by auto
  have none: "region_flags rs v = None" if "in_region v r" for v
  proof -
    have "\<forall>r'\<in>set rs. \<not> in_region v r'" using dis that by blast
    then show ?thesis by (induction rs) auto
  qed
  have "leaf_at s' root v = (case region_flags (r # rs) v of None \<Rightarrow> leaf_at s root v | Some fl \<Rightarrow> Some (leaf_entry v fl))"
    if "unat v < 2 ^ 39" for v
    using 2(4) 1(4) that none [of v] r by (auto split: option.splits)
  moreover have "grown (table_frames (r # rs)) s lab s' lab'"
    by (rule grown_mono [OF grown_trans [OF 1(3) 2(3)]]) (use tot kn in linarith)
  ultimately show ?case using 1(1) 2(1,2) r by auto
qed

text \<open>What no mapping changes: the devices and the memory the allocator manages.\<close>

definition same_devices :: "vm \<Rightarrow> vm \<Rightarrow> bool" where
  "same_devices s s' \<longleftrightarrow> uart_mmio_base s' = uart_mmio_base s \<and> plic_mmio_base s' = plic_mmio_base s \<and>
     a_base (frames s') = a_base (frames s) \<and> a_count (frames s') = a_count (frames s) \<and> kernel_satp s' = kernel_satp s"

lemma same_devices_trans: "same_devices a b \<Longrightarrow> same_devices b c \<Longrightarrow> same_devices a c"
  by (simp add: same_devices_def)

lemma alloc_scan_keeps: "alloc_scan a is = Inr (a', f) \<Longrightarrow> a_base a' = a_base a \<and> a_count a' = a_count a"
  by (induction a "is" rule: alloc_scan.induct) (auto simp: bindr_eq_Inr_iff split: if_splits)

lemma alloc_zeroed_devices: "alloc_zeroed s = Inr (s', f) \<Longrightarrow> same_devices s s'"
  using alloc_scan_keeps [of "frames s"] unfolding alloc_def
  by (fastforce simp: alloc_zeroed_def alloc_def same_devices_def bindr_eq_Inr_iff split: prod.splits option.splits)

lemma next_table_devices: "next_table s t va l = Inr (s', t') \<Longrightarrow> same_devices s s'"
proof (cases "pte_is_valid (tables s t (vpn va l))")
  case False
  assume "next_table s t va l = Inr (s', t')"
  with False obtain s1 x where "alloc_zeroed s = Inr (s1, Some x)" "same_devices s1 s'"
    by (auto simp: next_table_def Let_def bindr_eq_Inr_iff expectr_def same_devices_def split: option.splits)
  then show ?thesis using alloc_zeroed_devices [of s s1] by (simp add: same_devices_def)
qed (simp add: next_table_def same_devices_def)

lemma map_page_devices: "map_page s root va pa fl = Inr s' \<Longrightarrow> same_devices s s'"
proof -
  assume "map_page s root va pa fl = Inr s'"
  then obtain s1 t1 s2 t0 where "next_table s root va 2 = Inr (s1, t1)" "next_table s1 t1 va 1 = Inr (s2, t0)" "same_devices s2 s'"
    by (auto simp: map_page_def Let_def bindr_eq_Inr_iff same_devices_def)
  then show ?thesis using next_table_devices same_devices_trans by blast
qed

lemma map_range_devices: "map_range s root a e fl = Inr s' \<Longrightarrow> same_devices s s'"
proof (induction s root a e fl rule: map_range.induct)
  case (1 s root a e fl)
  show ?case
  proof (cases "a < e")
    case True
    then obtain s1 b where s1: "map_page s root a a fl = Inr s1" "add_chk a (word_of_nat PAGE_SIZE) = Inr b"
      "map_range s1 root b e fl = Inr s'"
      using "1.prems" by (subst (asm) map_range.simps) (auto simp: bindr_eq_Inr_iff)
    then show ?thesis using "1.IH" [OF True s1] map_page_devices [OF s1(1)] by (simp add: same_devices_def)
  next
    case False
    then show ?thesis using "1.prems" by (subst (asm) map_range.simps) (simp add: same_devices_def)
  qed
qed

lemma bindr_eqI: "(\<And>x. r = Inr x \<Longrightarrow> f x = g x) \<Longrightarrow> bindr r f = bindr r g"
  by (cases r) simp_all

lemma word_le_add_iff: "(a :: usize) \<le> a + b \<longleftrightarrow> unat a + unat b < 2 ^ 64"
  by (simp add: no_olen_add_nat flip: word_le_nat_alt)

lemma map_regions_devices: "map_regions s root rs = Inr s' \<Longrightarrow> same_devices s s'"
proof (induction s root rs rule: map_regions.induct)
  case (2 s root a e fl rs)
  then obtain s1 where s1: "map_range s root a e fl = Inr s1" "map_regions s1 root rs = Inr s'"
    by (auto simp: bindr_eq_Inr_iff)
  then show ?case using "2.IH" [OF s1] map_range_devices [OF s1(1)] by (simp add: same_devices_def)
qed (simp add: same_devices_def)

lemma regions_ok_append: "regions_ok (xs @ ys) \<Longrightarrow> regions_ok xs \<and> regions_ok ys"
  by (induction xs) auto

definition uart_regions :: "usize \<Rightarrow> region list" where
  "uart_regions uart = (if uart \<noteq> 0 then [(uart, uart + 4096, PTE_R OR PTE_W OR PTE_G)] else [])"

definition plic_regions :: "usize \<Rightarrow> region list" where
  "plic_regions plic = (if plic \<noteq> 0 then [(plic, plic + 0x3000, PTE_R OR PTE_W OR PTE_G),
                       (plic + 0x201000, plic + 0x202000, PTE_R OR PTE_W OR PTE_G)] else [])"

definition image_regions :: "layout \<Rightarrow> region list" where
  "image_regions ld =
     [(text_start ld, text_end ld, PTE_R OR PTE_X OR PTE_G),
      (rodata_start ld, rodata_end ld, PTE_R OR PTE_G),
      (data_start ld, data_end ld, PTE_R OR PTE_W OR PTE_G),
      (stack_start ld, stack_top ld, PTE_R OR PTE_W OR PTE_G)]"

definition kernel_regions :: "layout \<Rightarrow> usize \<Rightarrow> usize \<Rightarrow> region list" where
  "kernel_regions ld uart plic = image_regions ld @ uart_regions uart @ plic_regions plic"

lemma map_uart_regions:
  assumes "regions_ok (uart_regions uart)"
  shows "(if uart \<noteq> 0 then bindr (add_chk uart (word_of_nat PAGE_SIZE)) (\<lambda>e. map_range s root uart e (PTE_R OR PTE_W OR PTE_G))
      else Inr s) = map_regions s root (uart_regions uart)"
proof (cases "uart = 0")
  case False
  then have "uart \<le> uart + 4096" using assms by (simp add: uart_regions_def)
  then have "unat uart + 4096 < 2 ^ 64" by (simp add: word_le_add_iff)
  then show ?thesis using False by (auto simp: uart_regions_def add_chk_def PAGE_SIZE_def bindr_def split: sum.splits)
qed (simp add: uart_regions_def)

lemma map_plic_regions:
  assumes "regions_ok (plic_regions plic)"
  shows "(if plic \<noteq> 0 then
          bindr (add_chk plic 0x3000) (\<lambda>e.
          bindr (map_range s root plic e (PTE_R OR PTE_W OR PTE_G)) (\<lambda>s.
          bindr (add_chk plic 0x201000) (\<lambda>b.
          bindr (add_chk plic 0x202000) (\<lambda>e.
          map_range s root b e (PTE_R OR PTE_W OR PTE_G)))))
        else Inr s) = map_regions s root (plic_regions plic)"
proof (cases "plic = 0")
  case False
  then have "plic \<le> plic + 0x3000" "plic + 0x3000 \<le> 0x8000000000" using assms by (simp_all add: plic_regions_def)
  then have "plic \<le> 0x8000000000" by (rule order.trans)
  then have "unat plic \<le> 0x8000000000" by (simp add: word_le_nat_alt)
  then have "add_chk plic 0x3000 = Inr (plic + 0x3000)" "add_chk plic 0x201000 = Inr (plic + 0x201000)"
    "add_chk plic 0x202000 = Inr (plic + 0x202000)"
    by (simp_all add: add_chk_def)
  then show ?thesis using False by (simp add: plic_regions_def) (auto simp: bindr_def split: sum.splits)
qed (simp add: plic_regions_def)

lemma map_kernel_sections_regions:
  assumes ok: "regions_ok (kernel_regions ld (uart_mmio_base s) (plic_mmio_base s))"
  shows "map_kernel_sections ld s root = map_regions s root (kernel_regions ld (uart_mmio_base s) (plic_mmio_base s))"
proof -
  have u: "regions_ok (uart_regions (uart_mmio_base s))" and p: "regions_ok (plic_regions (plic_mmio_base s))"
    using regions_ok_append ok unfolding kernel_regions_def by blast+
  have uart: "(let uart = uart_mmio_base s1 in if uart \<noteq> 0 then bindr (add_chk uart (word_of_nat PAGE_SIZE))
      (\<lambda>e. map_range s1 root uart e (PTE_R OR PTE_W OR PTE_G)) else Inr s1) = map_regions s1 root (uart_regions (uart_mmio_base s))"
    if "same_devices s s1" for s1
    using that unfolding same_devices_def by (simp only: Let_def map_uart_regions [OF u])
  have plic: "(let plic = plic_mmio_base s2 in if plic \<noteq> 0 then
          bindr (add_chk plic 0x3000) (\<lambda>e.
          bindr (map_range s2 root plic e (PTE_R OR PTE_W OR PTE_G)) (\<lambda>s.
          bindr (add_chk plic 0x201000) (\<lambda>b.
          bindr (add_chk plic 0x202000) (\<lambda>e.
          map_range s root b e (PTE_R OR PTE_W OR PTE_G)))))
        else Inr s2) = map_regions s2 root (plic_regions (plic_mmio_base s))"
    if "same_devices s s2" for s2
    using that unfolding same_devices_def by (simp only: Let_def map_plic_regions [OF p])
  have "map_kernel_sections ld s root =
      bindr (map_regions s root (image_regions ld)) (\<lambda>s1.
      bindr (map_regions s1 root (uart_regions (uart_mmio_base s))) (\<lambda>s2.
      map_regions s2 root (plic_regions (plic_mmio_base s))))"
    unfolding map_kernel_sections_def image_regions_def map_regions.simps bindr_assoc bindr_Inr
  proof (intro bindr_eqI, goal_cases)
    case (1 s1 s2 s3 s4)
    then have "same_devices s s1" "same_devices s1 s2" "same_devices s2 s3" "same_devices s3 s4" by (simp_all only: map_range_devices)
    then have d: "same_devices s s4" by (simp add: same_devices_def)
    show ?case unfolding uart [OF d]
    proof (intro bindr_eqI plic)
      fix s5 assume "map_regions s4 root (uart_regions (uart_mmio_base s)) = Inr s5"
      then show "same_devices s s5" using map_regions_devices [of s4] d by (auto simp: same_devices_def)
    qed
  qed
  then show ?thesis by (simp add: kernel_regions_def map_regions_append)
qed

section \<open>What an address space grants\<close>

text \<open>The rights the hardware gives at an address: those of the leaf entry, for user mode only where
  its \<open>U\<close> bit is set.\<close>

definition leaf_has :: "vm \<Rightarrow> usize \<Rightarrow> u64 \<Rightarrow> usize \<Rightarrow> bool" where
  "leaf_has s root bits v = (case leaf_at s root v of None \<Rightarrow> False | Some (l, pte) \<Rightarrow> pte AND bits = bits)"

definition user_reads :: "vm \<Rightarrow> usize \<Rightarrow> usize \<Rightarrow> bool" where
  "user_reads s root v = leaf_has s root (PTE_U OR PTE_R) v"

definition user_writes :: "vm \<Rightarrow> usize \<Rightarrow> usize \<Rightarrow> bool" where
  "user_writes s root v = leaf_has s root (PTE_U OR PTE_W) v"

definition user_executes :: "vm \<Rightarrow> usize \<Rightarrow> usize \<Rightarrow> bool" where
  "user_executes s root v = leaf_has s root (PTE_U OR PTE_X) v"

definition writable_and_executable :: "vm \<Rightarrow> usize \<Rightarrow> usize \<Rightarrow> bool" where
  "writable_and_executable s root v = leaf_has s root (PTE_W OR PTE_X) v"

definition built :: "vm \<Rightarrow> usize \<Rightarrow> region list \<Rightarrow> bool" where
  "built s root rs \<longleftrightarrow> (\<forall>v. unat v < 2 ^ 39 \<longrightarrow> leaf_at s root v = map_option (leaf_entry v) (region_flags rs v))"

lemma and_eq_bits: "w AND b = b \<longleftrightarrow> (\<forall>i. bit b i \<longrightarrow> bit w i)" for w b :: u64
proof
  assume "w AND b = b"
  then have "bit b i = (bit w i \<and> bit b i)" for i using bit_and_iff [of w b i] by simp
  then show "\<forall>i. bit b i \<longrightarrow> bit w i" by blast
next
  assume a: "\<forall>i. bit b i \<longrightarrow> bit w i"
  show "w AND b = b" by (rule bit_word_eqI) (use a in \<open>auto simp: bit_and_iff\<close>)
qed

lemma bit_leaf_flags_low: "i < 6 \<Longrightarrow> bit (leaf_flags fl) i = bit fl i"
  by (simp add: leaf_flags_def bit_simps flag_bits)

lemma leaf_has_built:
  assumes "built s root rs" "unat v < 2 ^ 39" "\<And>i. bit bits i \<Longrightarrow> 0 < i \<and> i < 6"
  shows "leaf_has s root bits v \<longleftrightarrow> (\<exists>fl. region_flags rs v = Some fl \<and> fl AND bits = bits)"
proof -
  have "bit (pte_for (page v) (leaf_flags fl)) i = bit fl i" if "bit bits i" for i fl
    using assms(3) [OF that] bit_leaf_flags_low [of i fl] by (auto simp: bit_pte_for)
  then have "pte_for (page v) (leaf_flags fl) AND bits = bits \<longleftrightarrow> fl AND bits = bits" for fl
    unfolding and_eq_bits by blast
  then show ?thesis using assms(1,2) by (auto simp: leaf_has_def built_def leaf_entry_def split: option.splits)
qed

text \<open>A fresh root and the regions mapped into it.\<close>

lemma build_space_ok:
  assumes ok: "vm_ok s" and rs: "regions_ok rs" and free: "1 + table_frames rs \<le> free_frames (frames s)"
  obtains s1 root s' lab where "alloc_zeroed s = Inr (s1, Some root)" "same_devices s s1"
    "map_regions s1 root rs = Inr s'" "space_ok s' root lab" "built s' root rs" "root \<notin> used (frames s)"
    "phys_ok root" "\<forall>x\<in>used (frames s). tables s' x = tables s x" "kernel_satp s' = kernel_satp s"
    "used (frames s) \<subseteq> used (frames s')" "dom lab \<inter> used (frames s) = {}"
    "free_frames (frames s) \<le> free_frames (frames s') + (1 + table_frames rs)" "same_devices s s'"
proof -
  have f: "0 < free_frames (frames s)" using free by simp
  obtain s1 root where 1: "alloc_zeroed s = Inr (s1, Some root)" "root \<notin> used (frames s)" "vm_ok s1" "phys_ok root"
    "used (frames s1) = insert root (used (frames s))" "tables s1 = (tables s)(root := (\<lambda>_. 0))"
    "free_frames (frames s) = free_frames (frames s1) + 1"
    "uart_mmio_base s1 = uart_mmio_base s" "plic_mmio_base s1 = plic_mmio_base s" "kernel_satp s1 = kernel_satp s"
    by (rule alloc_zeroed_ok [OF ok f])
  have sp: "space_ok s1 root [root \<mapsto> []]"
    using 1 by (auto simp: space_ok_def tree_def pte_is_valid_bit)
  have empty: "leaf_at s1 root v = None" for v using 1(6) by (simp add: leaf_at_def walk_empty)
  have fr1: "table_frames rs \<le> free_frames (frames s1)" using 1(7) free by simp
  have un: "\<forall>r\<in>set rs. \<forall>v. in_region v r \<longrightarrow> leaf_at s1 root v = None" using empty by simp
  obtain s' lab where 2: "map_regions s1 root rs = Inr s'" "space_ok s' root lab"
      "grown (table_frames rs) s1 [root \<mapsto> []] s' lab"
      "\<forall>v. unat v < 2 ^ 39 \<longrightarrow> leaf_at s' root v =
        (case region_flags rs v of None \<Rightarrow> None | Some fl \<Rightarrow> Some (leaf_entry v fl))"
    using map_regions_ok [OF sp rs fr1 un, unfolded empty] by blast
  have b: "built s' root rs" using 2(4) by (auto simp: built_def split: option.splits)
  have fr: "\<forall>x\<in>used (frames s). tables s' x = tables s x"
    using 2(3) 1(2,5,6) by (auto simp: grown_def)
  have d: "dom lab \<inter> used (frames s) = {}" using 2(3) 1(2,5) by (auto simp: grown_def)
  have n: "free_frames (frames s) \<le> free_frames (frames s') + (1 + table_frames rs)" using 2(3) 1(7) by (simp add: grown_def)
  have "used (frames s) \<subseteq> used (frames s')" "kernel_satp s' = kernel_satp s" using 2(3) 1(5,10) by (auto simp: grown_def)
  moreover have sd: "same_devices s s1" by (rule alloc_zeroed_devices [OF 1(1)])
  moreover have "same_devices s s'" using sd map_regions_devices [OF 2(1)] by (simp add: same_devices_def)
  ultimately show thesis using that [OF 1(1) _ 2(1,2) b 1(2,4) fr _ _ d n] by blast
qed

definition user_space_regions :: "layout \<Rightarrow> vm \<Rightarrow> usize \<times> usize \<Rightarrow> usize \<times> usize \<Rightarrow> region list" where
  "user_space_regions ld s stack device =
     kernel_regions ld (uart_mmio_base s) (plic_mmio_base s) @
     [(user_text_start ld, user_text_end ld, PTE_R OR PTE_X OR PTE_U),
      (fst stack, snd stack, PTE_R OR PTE_W OR PTE_U),
      (fst device, snd device, PTE_R OR PTE_U)]"

definition virtio_space_regions ::
  "layout \<Rightarrow> vm \<Rightarrow> usize \<times> usize \<Rightarrow> usize \<times> usize \<Rightarrow> usize \<times> usize \<Rightarrow> region list" where
  "virtio_space_regions ld s stack mmio dma =
     kernel_regions ld (uart_mmio_base s) (plic_mmio_base s) @
     [(user_text_start ld, user_text_end ld, PTE_R OR PTE_X OR PTE_U),
      (fst stack, snd stack, PTE_R OR PTE_W OR PTE_U),
      (fst mmio, snd mmio, PTE_R OR PTE_W OR PTE_U),
      (fst dma, snd dma, PTE_R OR PTE_W OR PTE_U)]"

lemma bindr_Inr_right [simp]: "bindr r Inr = r"
  by (cases r) simp_all

lemma build_user_space_exec:
  assumes "regions_ok (user_space_regions ld s stack device)" "alloc_zeroed s = Inr (s1, Some root)" "same_devices s s1"
  shows "build_user_space ld s stack device =
    bindr (map_regions s1 root (user_space_regions ld s stack device)) (\<lambda>s. Inr (s, make_satp root))"
proof -
  have k: "kernel_regions ld (uart_mmio_base s1) (plic_mmio_base s1) = kernel_regions ld (uart_mmio_base s) (plic_mmio_base s)"
    using assms(3) by (simp add: same_devices_def)
  have "regions_ok (kernel_regions ld (uart_mmio_base s1) (plic_mmio_base s1))"
    using assms(1) regions_ok_append k unfolding user_space_regions_def by metis
  from map_kernel_sections_regions [OF this] show ?thesis
    using assms(2) by (simp add: build_user_space_def expectr_def user_space_regions_def map_regions_append k bindr_assoc)
qed

lemma build_virtio_space_exec:
  assumes "regions_ok (virtio_space_regions ld s stack mmio dma)" "alloc_zeroed s = Inr (s1, Some root)" "same_devices s s1"
  shows "build_virtio_space ld s stack mmio dma =
    bindr (map_regions s1 root (virtio_space_regions ld s stack mmio dma)) (\<lambda>s. Inr (s, make_satp root))"
proof -
  have k: "kernel_regions ld (uart_mmio_base s1) (plic_mmio_base s1) = kernel_regions ld (uart_mmio_base s) (plic_mmio_base s)"
    using assms(3) by (simp add: same_devices_def)
  have "regions_ok (kernel_regions ld (uart_mmio_base s1) (plic_mmio_base s1))"
    using assms(1) regions_ok_append k unfolding virtio_space_regions_def by metis
  from map_kernel_sections_regions [OF this] show ?thesis
    using assms(2) by (simp add: build_virtio_space_def expectr_def virtio_space_regions_def map_regions_append k bindr_assoc)
qed


section \<open>Rights by region\<close>

lemma region_flags_append:
  "region_flags (xs @ ys) v = (case region_flags xs v of None \<Rightarrow> region_flags ys v | Some fl \<Rightarrow> Some fl)"
  by (induction xs) simp_all

lemma region_flags_mem: "region_flags rs v = Some fl \<Longrightarrow> \<exists>r\<in>set rs. in_region v r \<and> snd (snd r) = fl"
  by (induction rs) (auto split: if_splits)

lemma region_flags_None: "region_flags rs v = None \<longleftrightarrow> (\<forall>r\<in>set rs. \<not> in_region v r)"
  by (induction rs) auto

lemma region_flags_unique:
  "regions_ok rs \<Longrightarrow> r \<in> set rs \<Longrightarrow> in_region v r \<Longrightarrow> region_flags rs v = Some (snd (snd r))"
proof (induction rs)
  case (Cons r' rs)
  then show ?case using region_disjoint_in [of r' r v] by (auto simp: list_all_iff)
qed simp

lemma rights_by_region:
  assumes "built s root rs" "regions_ok rs" "unat v < 2 ^ 39" "\<And>i. bit bits i \<Longrightarrow> 0 < i \<and> i < 6"
  shows "leaf_has s root bits v \<longleftrightarrow> (\<exists>r\<in>set rs. in_region v r \<and> snd (snd r) AND bits = bits)"
  using leaf_has_built [OF assms(1,3,4)] region_flags_mem [of rs v] region_flags_unique [OF assms(2), of _ v] by blast

lemma regions_ok_mem: "regions_ok rs \<Longrightarrow> r \<in> set rs \<Longrightarrow> region_ok r"
  by (induction rs) auto

lemma built_identity:
  assumes "built s root rs" "regions_ok rs" "unat v < 2 ^ 39" "leaf_at s root v = Some (l, pte)"
  shows "l = 0 \<and> pte_to_pa pte = page v"
proof -
  obtain fl where fl: "region_flags rs v = Some fl" "(l, pte) = leaf_entry v fl"
    using assms(1,3,4) by (auto simp: built_def)
  then have "flags_ok fl"
    using region_flags_mem [of rs v fl] regions_ok_mem [OF assms(2)] by force
  moreover have "phys_ok (page v)" using assms(3) by (simp add: phys_ok_def page_aligned_def unat_page PAGE_SIZE_def)
  ultimately show ?thesis using fl by (simp add: leaf_entry_def pte_to_pa_pte_for flags_ok_leaf_flags)
qed

lemma flag_masks:
  "bit (PTE_U OR PTE_R) i \<Longrightarrow> 0 < i \<and> i < 6" "bit (PTE_U OR PTE_W) i \<Longrightarrow> 0 < i \<and> i < 6"
  "bit (PTE_U OR PTE_X) i \<Longrightarrow> 0 < i \<and> i < 6" "bit (PTE_W OR PTE_X) i \<Longrightarrow> 0 < i \<and> i < 6"
  by (auto simp: bit_simps flag_bits)

lemma user_rights_by_region:
  assumes "built s root rs" "regions_ok rs" "unat v < 2 ^ 39"
  shows "user_reads s root v \<longleftrightarrow> (\<exists>r\<in>set rs. in_region v r \<and> snd (snd r) AND (PTE_U OR PTE_R) = PTE_U OR PTE_R)"
    "user_writes s root v \<longleftrightarrow> (\<exists>r\<in>set rs. in_region v r \<and> snd (snd r) AND (PTE_U OR PTE_W) = PTE_U OR PTE_W)"
    "user_executes s root v \<longleftrightarrow> (\<exists>r\<in>set rs. in_region v r \<and> snd (snd r) AND (PTE_U OR PTE_X) = PTE_U OR PTE_X)"
    "writable_and_executable s root v \<longleftrightarrow> (\<exists>r\<in>set rs. in_region v r \<and> snd (snd r) AND (PTE_W OR PTE_X) = PTE_W OR PTE_X)"
  unfolding user_executes_def user_writes_def user_reads_def writable_and_executable_def
  by (rule rights_by_region [OF assms]; erule flag_masks)+

lemma kernel_region_flags:
  "r \<in> set (kernel_regions ld uart plic) \<Longrightarrow>
     snd (snd r) \<in> {PTE_R OR PTE_X OR PTE_G, PTE_R OR PTE_G, PTE_R OR PTE_W OR PTE_G}"
  by (auto simp: kernel_regions_def image_regions_def uart_regions_def plic_regions_def split: if_splits)

text \<open>Which of the flag words in use contain which rights.\<close>

lemma flag_word_rights:
  "(PTE_R OR PTE_X OR PTE_G) AND (PTE_U OR b) = PTE_U OR b \<longleftrightarrow> False"
  "(PTE_R OR PTE_G) AND (PTE_U OR b) = PTE_U OR b \<longleftrightarrow> False"
  "(PTE_R OR PTE_W OR PTE_G) AND (PTE_U OR b) = PTE_U OR b \<longleftrightarrow> False"
  unfolding and_eq_bits by (auto simp: bit_simps flag_bits intro!: exI [of _ 4])

lemma kernel_regions_no_user:
  "r \<in> set (kernel_regions ld uart plic) \<Longrightarrow> snd (snd r) AND (PTE_U OR b) \<noteq> PTE_U OR b"
  using kernel_region_flags [of r ld uart plic] flag_word_rights by auto

lemma user_word_rights:
  "(PTE_R OR PTE_X OR PTE_U) AND (PTE_U OR PTE_R) = PTE_U OR PTE_R" "(PTE_R OR PTE_X OR PTE_U) AND (PTE_U OR PTE_W) \<noteq> PTE_U OR PTE_W"
  "(PTE_R OR PTE_X OR PTE_U) AND (PTE_U OR PTE_X) = PTE_U OR PTE_X" "(PTE_R OR PTE_W OR PTE_U) AND (PTE_U OR PTE_R) = PTE_U OR PTE_R"
  "(PTE_R OR PTE_W OR PTE_U) AND (PTE_U OR PTE_W) = PTE_U OR PTE_W" "(PTE_R OR PTE_W OR PTE_U) AND (PTE_U OR PTE_X) \<noteq> PTE_U OR PTE_X"
  "(PTE_R OR PTE_U) AND (PTE_U OR PTE_R) = PTE_U OR PTE_R" "(PTE_R OR PTE_U) AND (PTE_U OR PTE_W) \<noteq> PTE_U OR PTE_W"
  "(PTE_R OR PTE_U) AND (PTE_U OR PTE_X) \<noteq> PTE_U OR PTE_X"
  by (simp_all add: pte_bits)

lemma no_wx_word:
  "(PTE_R OR PTE_X OR PTE_U) AND (PTE_W OR PTE_X) \<noteq> PTE_W OR PTE_X" "(PTE_R OR PTE_W OR PTE_U) AND (PTE_W OR PTE_X) \<noteq> PTE_W OR PTE_X"
  "(PTE_R OR PTE_U) AND (PTE_W OR PTE_X) \<noteq> PTE_W OR PTE_X" "(PTE_R OR PTE_X OR PTE_G) AND (PTE_W OR PTE_X) \<noteq> PTE_W OR PTE_X"
  "(PTE_R OR PTE_G) AND (PTE_W OR PTE_X) \<noteq> PTE_W OR PTE_X" "(PTE_R OR PTE_W OR PTE_G) AND (PTE_W OR PTE_X) \<noteq> PTE_W OR PTE_X"
  by (simp_all add: pte_bits)

lemma kernel_regions_no_wx:
  "r \<in> set (kernel_regions ld uart plic) \<Longrightarrow> snd (snd r) AND (PTE_W OR PTE_X) \<noteq> PTE_W OR PTE_X"
  using kernel_region_flags [of r ld uart plic] no_wx_word by auto

section \<open>Properties\<close>

text \<open>Page-table entries round-trip. The entry built for a page-aligned physical address below
  \<open>2^56\<close> and ten flag bits is valid, gives the address back, keeps exactly those flags, and its table
  index is below 512 at every level.\<close>
theorem pte_encoding_roundtrip:
  assumes "phys_ok pa" "flags_ok flags"
  shows "pte_is_valid (pte_for pa flags) \<and> pte_to_pa (pte_for pa flags) = pa \<and>
    take_bit 10 (pte_for pa flags) = flags OR PTE_V \<and> vpn va level < 512"
  using assms by (simp_all add: pte_to_pa_pte_for pte_flags_pte_for vpn_less)

theorem pte_encoding_roundtrip_witness:
  "pte_to_pa (pte_for 0x80200000 (PTE_R OR PTE_X)) = 0x80200000 \<and>
   take_bit 10 (pte_for 0x80200000 (PTE_R OR PTE_X)) = (PTE_R OR PTE_X) OR PTE_V"
proof -
  have "phys_ok 0x80200000" "flags_ok (PTE_R OR PTE_X)"
    by (simp_all add: phys_ok_def page_aligned_def PAGE_SIZE_def flags_ok_def pte_bits)
  then show ?thesis using pte_encoding_roundtrip by simp
qed

text \<open>C26: Mapping one page changes one translation. In a well-formed tree with the frames for the missing tables (at most two),
  mapping an unmapped page succeeds, keeps the tree well-formed, makes exactly the addresses of that
  page translate to the new leaf, leaves every other translation of the space as it was, and leaves
  untouched every frame in use that is not a table of this space. A page already mapped is refused.\<close>
theorem map_page_sets_one_translation:
  assumes "space_ok s root lab" "page_aligned va" "page_aligned pa" "pte_leaf flags"
  shows "if leaf_at s root va = None then page_cost s root va \<le> free_frames (frames s) \<longrightarrow>
      (\<exists>s' lab'. map_page s root va pa flags = Inr s' \<and> space_ok s' root lab' \<and>
        (\<forall>v. leaf_at s' root v = (if same_page v va then Some (0, pte_for pa (leaf_flags flags)) else leaf_at s root v)) \<and>
        (\<forall>x\<in>used (frames s) - dom lab. tables s' x = tables s x))
    else map_page s root va pa flags = Inl (AssertFailed ''remap of va'')"
proof (cases "leaf_at s root va = None")
  case True
  have "\<exists>s' lab'. map_page s root va pa flags = Inr s' \<and> space_ok s' root lab' \<and>
        (\<forall>v. leaf_at s' root v = (if same_page v va then Some (0, pte_for pa (leaf_flags flags)) else leaf_at s root v)) \<and>
        (\<forall>x\<in>used (frames s) - dom lab. tables s' x = tables s x)" if f: "page_cost s root va \<le> free_frames (frames s)"
  proof -
    obtain s' lab' where "map_page s root va pa flags = Inr s'" "space_ok s' root lab'" "grown (page_cost s root va) s lab s' lab'" "has_leaf s' root va"
      "\<forall>v. leaf_at s' root v = (if same_page v va then Some (0, pte_for pa (leaf_flags flags)) else leaf_at s root v)"
      by (rule map_page_ok [OF assms f True])
    then show ?thesis unfolding grown_def by blast
  qed
  then show ?thesis using True by simp
next
  case False
  show ?thesis using map_page_remap [OF assms(1-3) False] by (simp only: False if_False)
qed

text \<open>An empty tree over a fresh allocator, for concrete instances.\<close>

lemma fresh_vm:
  obtains a where "vm_ok \<lparr>frames = a, tables = (\<lambda>_ _. 0), uart_mmio_base = u, plic_mmio_base = p, kernel_satp = 0\<rparr>"
    "allocator_init allocator_new 0x80300000 0x80400000 = Inr a" "free_frames a = 256" "used a = {}"
    "frame_addr a 0 = 0x80300000" "frame_addr a (a_count a) = 0x80400000"
proof -
  obtain a where a: "allocator_init allocator_new 0x80300000 0x80400000 = Inr a" "alloc_inv a" "used a = {}"
    "a_base a * FRAME_SIZE = 0x80300000" "(a_base a + a_count a) * FRAME_SIZE = 0x80400000" "a_free a = a_count a"
    by (rule allocator_init_ok [where s = "0x80300000" and e = "0x80400000"]) (simp_all add: FRAME_SIZE_def MAX_FRAMES_def)
  moreover have "frame_addr a 0 = 0x80300000" "frame_addr a (a_count a) = 0x80400000" using a(4,5) by (simp_all add: frame_addr_def)
  ultimately show thesis using that [of a] by (simp add: vm_ok_def free_frames_def FRAME_SIZE_def)
qed

theorem map_page_sets_one_translation_witness:
  "\<exists>s s1 root s' lab'. vm_ok s \<and> alloc_zeroed s = Inr (s1, Some root) \<and>
     map_page s1 root 0x80200000 0x80200000 (PTE_R OR PTE_X) = Inr s' \<and> space_ok s' root lab' \<and>
     leaf_at s' root 0x80200000 = Some (0, pte_for 0x80200000 (leaf_flags (PTE_R OR PTE_X))) \<and> leaf_at s' root 0x80201000 = None"
proof -
  obtain a where a: "vm_ok \<lparr>frames = a, tables = (\<lambda>_ _. 0), uart_mmio_base = 0, plic_mmio_base = 0, kernel_satp = 0\<rparr>"
    (is "vm_ok ?s") "free_frames a = 256" "used a = {}" by (rule fresh_vm [of 0 0]) blast
  have f: "0 < free_frames (frames ?s)" using a(2) by simp
  obtain s1 root where 1: "alloc_zeroed ?s = Inr (s1, Some root)" "vm_ok s1"
    "used (frames s1) = insert root (used (frames ?s))" "tables s1 = (tables ?s)(root := (\<lambda>_. 0))"
    "free_frames (frames ?s) = free_frames (frames s1) + 1"
    using alloc_zeroed_ok [OF a(1) f] by metis
  have sp: "space_ok s1 root [root \<mapsto> []]" using 1 by (auto simp: space_ok_def tree_def pte_is_valid_bit)
  have none: "leaf_at s1 root v = None" for v using 1(4) by (simp add: leaf_at_def walk_empty)
  have al: "page_aligned 0x80200000" "pte_leaf (PTE_R OR PTE_X)"
    by (simp_all add: page_aligned_def PAGE_SIZE_def pte_leaf_bit bit_simps flag_bits)
  have other: "\<not> same_page 0x80201000 0x80200000" "same_page 0x80200000 0x80200000"
    by (simp_all add: same_page_def vpn_def drop_bit_eq_div)
  have "page_cost s1 root 0x80200000 \<le> free_frames (frames s1)" using 1(5) a(2) by (simp add: page_cost_def)
  with map_page_sets_one_translation [OF sp al(1) al(1) al(2)] obtain s' lab' where
    "map_page s1 root 0x80200000 0x80200000 (PTE_R OR PTE_X) = Inr s'" "space_ok s' root lab'"
    "\<forall>v. leaf_at s' root v = (if same_page v 0x80200000 then Some (0, pte_for 0x80200000 (leaf_flags (PTE_R OR PTE_X))) else None)"
    unfolding none by (simp only: if_True refl) blast
  then have "leaf_at s' root 0x80200000 = Some (0, pte_for 0x80200000 (leaf_flags (PTE_R OR PTE_X)))" "leaf_at s' root 0x80201000 = None"
    and s': "map_page s1 root 0x80200000 0x80200000 (PTE_R OR PTE_X) = Inr s'" "space_ok s' root lab'"
    using other by simp_all
  then show ?thesis using a(1) 1(1) by blast
qed

text \<open>C6: A component's address space is exactly what it was given. With valid, disjoint regions and
  enough free frames the space is built; user mode can then execute only the shared user text, write
  only its own stack, and read only these two and its device page; no page is writable and executable
  at once; every mapping is the identity; and the tables of all other spaces are left as they were.\<close>
theorem user_space_isolated:
  assumes "vm_ok s" "regions_ok (user_space_regions ld s stack device)"
    "1 + table_frames (user_space_regions ld s stack device) \<le> free_frames (frames s)"
  shows "\<exists>s' root. build_user_space ld s stack device = Inr (s', make_satp root) \<and> root \<notin> used (frames s) \<and>
    (\<forall>x\<in>used (frames s). tables s' x = tables s x) \<and>
    (\<forall>v. unat v < 2 ^ 39 \<longrightarrow>
      (user_executes s' root v \<longleftrightarrow> user_text_start ld \<le> v \<and> v < user_text_end ld) \<and>
      (user_writes s' root v \<longleftrightarrow> fst stack \<le> v \<and> v < snd stack) \<and>
      (user_reads s' root v \<longleftrightarrow> user_text_start ld \<le> v \<and> v < user_text_end ld \<or> fst stack \<le> v \<and> v < snd stack \<or>
         fst device \<le> v \<and> v < snd device) \<and>
      \<not> writable_and_executable s' root v \<and>
      (\<forall>l pte. leaf_at s' root v = Some (l, pte) \<longrightarrow> l = 0 \<and> pte_to_pa pte = page v))"
proof -
  let ?rs = "user_space_regions ld s stack device"
  obtain s1 root s' lab where b: "alloc_zeroed s = Inr (s1, Some root)" "same_devices s s1"
    "map_regions s1 root ?rs = Inr s'" "built s' root ?rs" "root \<notin> used (frames s)"
    "\<forall>x\<in>used (frames s). tables s' x = tables s x"
    using build_space_ok [OF assms] by metis
  have run: "build_user_space ld s stack device = Inr (s', make_satp root)"
    using build_user_space_exec [OF assms(2) b(1,2)] b(3) by simp
  have rt: "(user_executes s' root v \<longleftrightarrow> user_text_start ld \<le> v \<and> v < user_text_end ld) \<and>
      (user_writes s' root v \<longleftrightarrow> fst stack \<le> v \<and> v < snd stack) \<and>
      (user_reads s' root v \<longleftrightarrow> user_text_start ld \<le> v \<and> v < user_text_end ld \<or> fst stack \<le> v \<and> v < snd stack \<or>
         fst device \<le> v \<and> v < snd device) \<and> \<not> writable_and_executable s' root v" if v: "unat v < 2 ^ 39" for v
    unfolding user_rights_by_region [OF b(4) assms(2) v]
    using kernel_regions_no_user kernel_regions_no_wx
    by (auto simp: user_space_regions_def user_word_rights no_wx_word)
  show ?thesis
    using run b(5,6) rt built_identity [OF b(4) assms(2)] by blast
qed

text \<open>A small image: one page per section, the UART at its QEMU address, one stack page.\<close>

definition small_layout :: layout where
  "small_layout = \<lparr>text_start = 0x80200000, text_end = 0x80201000, rodata_start = 0x80201000, rodata_end = 0x80202000,
     data_start = 0x80202000, data_end = 0x80203000, stack_start = 0x80204000, stack_top = 0x80205000,
     kernel_end = 0x80300000, user_text_start = 0x80206000, user_text_end = 0x80207000\<rparr>"

lemma small_regions:
  "u = 0x10000000 \<Longrightarrow> p = 0 \<Longrightarrow> uart_mmio_base s = u \<Longrightarrow> plic_mmio_base s = p \<Longrightarrow>
   regions_ok (user_space_regions small_layout s (0x80208000, 0x80209000) (0, 0)) \<and>
   table_frames (user_space_regions small_layout s (0x80208000, 0x80209000) (0, 0)) = 14"
  by (simp add: user_space_regions_def small_layout_def kernel_regions_def image_regions_def uart_regions_def plic_regions_def
      page_aligned_def PAGE_SIZE_def table_frames_def range_cost_def pte_leaf_bit bit_simps flag_bits flags_ok_def) (simp add: pte_bits)

theorem user_space_isolated_witness:
  "\<exists>s s' root. build_user_space small_layout s (0x80208000, 0x80209000) (0, 0) = Inr (s', make_satp root) \<and>
     user_writes s' root 0x80208010 \<and> \<not> user_writes s' root 0x80202000 \<and> \<not> user_reads s' root 0x80200000"
proof -
  obtain a where a: "vm_ok \<lparr>frames = a, tables = (\<lambda>_ _. 0), uart_mmio_base = 0x10000000, plic_mmio_base = 0, kernel_satp = 0\<rparr>"
    (is "vm_ok ?s") "free_frames a = 256" by (rule fresh_vm [of "0x10000000" 0]) blast
  have rs: "regions_ok (user_space_regions small_layout ?s (0x80208000, 0x80209000) (0, 0))"
    "table_frames (user_space_regions small_layout ?s (0x80208000, 0x80209000) (0, 0)) = 14"
    using small_regions [of "0x10000000" 0 ?s] by simp_all
  have "1 + table_frames (user_space_regions small_layout ?s (0x80208000, 0x80209000) (0, 0)) \<le> free_frames (frames ?s)"
    using rs(2) a(2) by simp
  from user_space_isolated [OF a(1) rs(1) this] obtain s' root where
    s': "build_user_space small_layout ?s (0x80208000, 0x80209000) (0, 0) = Inr (s', make_satp root)"
    and rt: "\<And>v. unat v < 2 ^ 39 \<Longrightarrow> user_writes s' root v \<longleftrightarrow> 0x80208000 \<le> v \<and> v < 0x80209000"
      "\<And>v. unat v < 2 ^ 39 \<Longrightarrow> user_reads s' root v \<longleftrightarrow> user_text_start small_layout \<le> v \<and> v < user_text_end small_layout \<or>
        0x80208000 \<le> v \<and> v < 0x80209000 \<or> 0 \<le> v \<and> v < 0"
    by auto
  show ?thesis
    by (intro exI conjI, rule s') (simp_all add: rt small_layout_def)
qed

text \<open>A virtio component reaches its own device and nothing else. Built from valid, disjoint
  regions with enough free frames, its space lets user mode execute only the shared user text, and
  read and write only its stack, its device's registers and its DMA region besides; kernel pages
  stay closed, no page is writable and executable, and the other spaces' tables are left as they were.\<close>
theorem virtio_space_isolated:
  assumes "vm_ok s" "regions_ok (virtio_space_regions ld s stack mmio dma)"
    "1 + table_frames (virtio_space_regions ld s stack mmio dma) \<le> free_frames (frames s)"
  shows "\<exists>s' root. build_virtio_space ld s stack mmio dma = Inr (s', make_satp root) \<and> root \<notin> used (frames s) \<and>
    (\<forall>x\<in>used (frames s). tables s' x = tables s x) \<and>
    (\<forall>v. unat v < 2 ^ 39 \<longrightarrow>
      (user_executes s' root v \<longleftrightarrow> user_text_start ld \<le> v \<and> v < user_text_end ld) \<and>
      (user_writes s' root v \<longleftrightarrow> fst stack \<le> v \<and> v < snd stack \<or> fst mmio \<le> v \<and> v < snd mmio \<or> fst dma \<le> v \<and> v < snd dma) \<and>
      (user_reads s' root v \<longleftrightarrow> user_executes s' root v \<or> user_writes s' root v) \<and>
      \<not> writable_and_executable s' root v \<and>
      (\<forall>l pte. leaf_at s' root v = Some (l, pte) \<longrightarrow> l = 0 \<and> pte_to_pa pte = page v))"
proof -
  let ?rs = "virtio_space_regions ld s stack mmio dma"
  obtain s1 root s' lab where b: "alloc_zeroed s = Inr (s1, Some root)" "same_devices s s1"
    "map_regions s1 root ?rs = Inr s'" "built s' root ?rs" "root \<notin> used (frames s)"
    "\<forall>x\<in>used (frames s). tables s' x = tables s x"
    using build_space_ok [OF assms] by metis
  have run: "build_virtio_space ld s stack mmio dma = Inr (s', make_satp root)"
    using build_virtio_space_exec [OF assms(2) b(1,2)] b(3) by simp
  have rt: "(user_executes s' root v \<longleftrightarrow> user_text_start ld \<le> v \<and> v < user_text_end ld) \<and>
      (user_writes s' root v \<longleftrightarrow> fst stack \<le> v \<and> v < snd stack \<or> fst mmio \<le> v \<and> v < snd mmio \<or> fst dma \<le> v \<and> v < snd dma) \<and>
      (user_reads s' root v \<longleftrightarrow> user_executes s' root v \<or> user_writes s' root v) \<and>
      \<not> writable_and_executable s' root v" if v: "unat v < 2 ^ 39" for v
    unfolding user_rights_by_region [OF b(4) assms(2) v]
    using kernel_regions_no_user kernel_regions_no_wx
    by (auto simp: virtio_space_regions_def user_word_rights no_wx_word)
  show ?thesis
    using run b(5,6) rt built_identity [OF b(4) assms(2)] by blast
qed

theorem virtio_space_isolated_witness:
  "\<exists>s s' root. build_virtio_space small_layout s (0x80208000, 0x80209000) (0x10001000, 0x10002000) (0x80209000, 0x8020A000)
       = Inr (s', make_satp root) \<and>
     user_writes s' root 0x10001070 \<and> \<not> user_writes s' root 0x10000000 \<and> \<not> user_reads s' root 0x80200000"
proof -
  let ?st = "(0x80208000, 0x80209000)" and ?io = "(0x10001000, 0x10002000)" and ?dma = "(0x80209000, 0x8020A000)"
  obtain a where a: "vm_ok \<lparr>frames = a, tables = (\<lambda>_ _. 0), uart_mmio_base = 0x10000000, plic_mmio_base = 0, kernel_satp = 0\<rparr>"
    (is "vm_ok ?s") "free_frames a = 256" by (rule fresh_vm [of "0x10000000" 0]) blast
  have rs: "regions_ok (virtio_space_regions small_layout ?s ?st ?io ?dma)"
    "table_frames (virtio_space_regions small_layout ?s ?st ?io ?dma) = 18"
    by (simp_all add: virtio_space_regions_def small_layout_def kernel_regions_def image_regions_def uart_regions_def plic_regions_def
      page_aligned_def PAGE_SIZE_def table_frames_def range_cost_def pte_leaf_bit bit_simps flag_bits flags_ok_def)
      (simp_all add: pte_bits)
  have "1 + table_frames (virtio_space_regions small_layout ?s ?st ?io ?dma) \<le> free_frames (frames ?s)"
    using rs(2) a(2) by simp
  from virtio_space_isolated [OF a(1) rs(1) this] obtain s' root where
    s': "build_virtio_space small_layout ?s ?st ?io ?dma = Inr (s', make_satp root)"
    and rt: "\<And>v. unat v < 2 ^ 39 \<Longrightarrow> user_executes s' root v \<longleftrightarrow> user_text_start small_layout \<le> v \<and> v < user_text_end small_layout"
      "\<And>v. unat v < 2 ^ 39 \<Longrightarrow> user_writes s' root v \<longleftrightarrow>
        0x80208000 \<le> v \<and> v < 0x80209000 \<or> 0x10001000 \<le> v \<and> v < 0x10002000 \<or> 0x80209000 \<le> v \<and> v < 0x8020A000"
      "\<And>v. unat v < 2 ^ 39 \<Longrightarrow> user_reads s' root v \<longleftrightarrow> user_executes s' root v \<or> user_writes s' root v"
    by auto
  show ?thesis
    by (intro exI conjI, rule s') (simp_all add: rt small_layout_def)
qed

definition kernel_space_regions :: "layout \<Rightarrow> usize \<Rightarrow> usize \<Rightarrow> usize \<Rightarrow> region list" where
  "kernel_space_regions ld ram_end uart plic =
     kernel_regions ld uart plic @ [(kernel_end ld, ram_end, PTE_R OR PTE_W OR PTE_G)]"

lemma mem_init_exec:
  assumes "frames s = allocator_new" "kernel_end ld < ram_end" "unat ram_end - unat (kernel_end ld) \<le> MAX_FRAMES * FRAME_SIZE"
    "regions_ok (kernel_space_regions ld ram_end uart plic)"
    "1 + table_frames (kernel_space_regions ld ram_end uart plic) \<le> (unat ram_end - unat (kernel_end ld)) div FRAME_SIZE"
  obtains s' root lab where "mem_init ld s ram_end uart plic = Inr s'" "kernel_satp s' = make_satp root" "space_ok s' root lab"
    "uart_mmio_base s' = uart" "plic_mmio_base s' = plic" "frame_addr (frames s') 0 = kernel_end ld"
    "frame_addr (frames s') (a_count (frames s')) = ram_end"
    "built s' root (kernel_space_regions ld ram_end uart plic)" "vm_ok s'"
    "(unat ram_end - unat (kernel_end ld)) div FRAME_SIZE
       \<le> free_frames (frames s') + (1 + table_frames (kernel_space_regions ld ram_end uart plic))"
proof -
  let ?rs = "kernel_space_regions ld ram_end uart plic"
  have last: "region_ok (kernel_end ld, ram_end, PTE_R OR PTE_W OR PTE_G)"
    by (rule regions_ok_mem [OF assms(4)]) (simp add: kernel_space_regions_def)
  then have al: "unat (kernel_end ld) mod FRAME_SIZE = 0" "unat ram_end mod FRAME_SIZE = 0" and hi: "unat ram_end \<le> 2 ^ 39"
    by (simp_all add: page_aligned_def PAGE_SIZE_def FRAME_SIZE_def word_le_nat_alt)
  obtain a where a: "allocator_init allocator_new (kernel_end ld) ram_end = Inr a" "alloc_inv a" "used a = {}"
    "a_base a * FRAME_SIZE = unat (kernel_end ld)" "(a_base a + a_count a) * FRAME_SIZE = unat ram_end" "a_free a = a_count a"
    by (rule allocator_init_ok [OF al assms(2,3)])
  let ?s = "s\<lparr>uart_mmio_base := uart, plic_mmio_base := plic, frames := a\<rparr>"
  have ok: "vm_ok ?s" using a hi by (simp add: vm_ok_def)
  have "a_count a * FRAME_SIZE = unat ram_end - unat (kernel_end ld)" using a(4,5) by (simp add: add_mult_distrib)
  then have "a_count a = (unat ram_end - unat (kernel_end ld)) div FRAME_SIZE" by (simp add: FRAME_SIZE_def)
  then have cnt: "free_frames (frames ?s) = (unat ram_end - unat (kernel_end ld)) div FRAME_SIZE" using a(6) by (simp add: free_frames_def)
  then have free: "1 + table_frames ?rs \<le> free_frames (frames ?s)" using assms(5) by simp
  obtain s1 root s' lab where b: "alloc_zeroed ?s = Inr (s1, Some root)" "same_devices ?s s1"
    "map_regions s1 root ?rs = Inr s'" "built s' root ?rs" "space_ok s' root lab"
    "free_frames (frames ?s) \<le> free_frames (frames s') + (1 + table_frames ?rs)" "same_devices ?s s'"
    using build_space_ok [OF ok assms(4) free] by metis
  have "regions_ok (kernel_regions ld uart plic)"
    using assms(4) regions_ok_append unfolding kernel_space_regions_def by blast
  then have ks: "map_kernel_sections ld s1 root = map_regions s1 root (kernel_regions ld uart plic)"
    using map_kernel_sections_regions [of ld s1 root] b(2) by (simp add: same_devices_def)
  let ?t = "s'\<lparr>kernel_satp := make_satp root\<rparr>"
  have run: "mem_init ld s ram_end uart plic = Inr ?t"
    using a(1) assms(1) b(1,3) unfolding kernel_space_regions_def
    by (simp add: mem_init_def expectr_def ks map_regions_append bindr_assoc Let_def bindr_eq_Inr_iff) blast
  have lk: "leaf_at ?t root = leaf_at s' root" by (simp add: leaf_at_def fun_eq_iff)
  have bt: "built ?t root ?rs" using b(4) by (simp add: built_def lk)
  have ok': "vm_ok ?t" "space_ok ?t root lab" using b(5) by (simp_all add: space_ok_def vm_ok_def)
  have fa: "frame_addr (frames ?t) i = word_of_nat ((a_base a + i) * FRAME_SIZE)" "a_count (frames ?t) = a_count a" for i
    using b(7) by (simp_all add: frame_addr_def same_devices_def)
  have "frame_addr (frames ?t) 0 = kernel_end ld" "frame_addr (frames ?t) (a_count (frames ?t)) = ram_end"
    unfolding fa using a(4,5) by simp_all
  then show thesis using that [OF run _ ok'(2) _ _ _ _ bt ok'(1)] b(6,7) cnt by (simp add: same_devices_def)
qed

lemma kernel_space_exec:
  assumes "frames s = allocator_new" "kernel_end ld < ram_end" "unat ram_end - unat (kernel_end ld) \<le> MAX_FRAMES * FRAME_SIZE"
    "regions_ok (kernel_space_regions ld ram_end uart plic)"
    "1 + table_frames (kernel_space_regions ld ram_end uart plic) \<le> (unat ram_end - unat (kernel_end ld)) div FRAME_SIZE"
  obtains s' root where "mem_init ld s ram_end uart plic = Inr s'" "kernel_satp s' = make_satp root"
    "built s' root (kernel_space_regions ld ram_end uart plic)" "vm_ok s'"
    "(unat ram_end - unat (kernel_end ld)) div FRAME_SIZE
       \<le> free_frames (frames s') + (1 + table_frames (kernel_space_regions ld ram_end uart plic))"
  by (rule mem_init_exec [OF assms]) (rule that)

text \<open>C28: Bringing memory up builds the kernel's own space. Over a new allocator and valid, disjoint
  regions, with at most 4 GiB of free RAM and enough of it for the tables, initialisation returns and
  records the root; exactly the kernel's sections, its device pages and free RAM are mapped, each at
  its own address, so the guard page below the stack stays unmapped; nothing is open to user mode and
  no page is writable and executable.\<close>
theorem kernel_space_built:
  assumes "frames s = allocator_new" "kernel_end ld < ram_end" "unat ram_end - unat (kernel_end ld) \<le> MAX_FRAMES * FRAME_SIZE"
    "regions_ok (kernel_space_regions ld ram_end uart plic)"
    "1 + table_frames (kernel_space_regions ld ram_end uart plic) \<le> (unat ram_end - unat (kernel_end ld)) div FRAME_SIZE"
  shows "\<exists>s' root. mem_init ld s ram_end uart plic = Inr s' \<and> kernel_satp s' = make_satp root \<and>
    (\<forall>v. unat v < 2 ^ 39 \<longrightarrow>
      (leaf_at s' root v \<noteq> None \<longleftrightarrow> (\<exists>r\<in>set (kernel_space_regions ld ram_end uart plic). in_region v r)) \<and>
      (\<forall>l pte. leaf_at s' root v = Some (l, pte) \<longrightarrow> l = 0 \<and> pte_to_pa pte = page v) \<and>
      \<not> user_reads s' root v \<and> \<not> user_writes s' root v \<and> \<not> user_executes s' root v \<and> \<not> writable_and_executable s' root v)"
proof -
  let ?rs = "kernel_space_regions ld ram_end uart plic"
  obtain s' root where run: "mem_init ld s ram_end uart plic = Inr s'" "kernel_satp s' = make_satp root" and bt: "built s' root ?rs"
    by (rule kernel_space_exec [OF assms])
  have m: "leaf_at s' root v \<noteq> None \<longleftrightarrow> (\<exists>r\<in>set ?rs. in_region v r)" if "unat v < 2 ^ 39" for v
    using bt that region_flags_None [of ?rs v] unfolding built_def by (metis map_option_is_None)
  have rt: "\<not> user_reads s' root v \<and> \<not> user_writes s' root v \<and> \<not> user_executes s' root v \<and> \<not> writable_and_executable s' root v"
    if v: "unat v < 2 ^ 39" for v
    unfolding user_rights_by_region [OF bt assms(4) v]
    using kernel_regions_no_user kernel_regions_no_wx
    by (auto simp: kernel_space_regions_def flag_word_rights no_wx_word)
  show ?thesis
    using run m rt built_identity [OF bt assms(4)] by blast
qed

theorem kernel_space_built_witness:
  "\<exists>s' root. mem_init small_layout \<lparr>frames = allocator_new, tables = (\<lambda>_ _. 0), uart_mmio_base = 0, plic_mmio_base = 0, kernel_satp = 0\<rparr>
       0x80400000 0x10000000 0 = Inr s' \<and> kernel_satp s' = make_satp root \<and>
     leaf_at s' root 0x80203000 = None \<and> leaf_at s' root 0x80204000 \<noteq> None"
proof -
  let ?s = "\<lparr>frames = allocator_new, tables = (\<lambda>_ _. 0), uart_mmio_base = 0, plic_mmio_base = 0, kernel_satp = 0\<rparr> :: vm"
  have h: "frames ?s = allocator_new" "kernel_end small_layout < 0x80400000"
    "unat (0x80400000 :: usize) - unat (kernel_end small_layout) \<le> MAX_FRAMES * FRAME_SIZE"
    "regions_ok (kernel_space_regions small_layout 0x80400000 0x10000000 0)"
    "1 + table_frames (kernel_space_regions small_layout 0x80400000 0x10000000 0)
       \<le> (unat (0x80400000 :: usize) - unat (kernel_end small_layout)) div FRAME_SIZE"
    by (simp_all add: kernel_space_regions_def small_layout_def kernel_regions_def image_regions_def uart_regions_def plic_regions_def
      page_aligned_def PAGE_SIZE_def FRAME_SIZE_def MAX_FRAMES_def table_frames_def range_cost_def pte_leaf_bit bit_simps flag_bits flags_ok_def)
      (simp_all add: pte_bits)
  have r: "\<not> (\<exists>r\<in>set (kernel_space_regions small_layout 0x80400000 0x10000000 0). in_region 0x80203000 r)"
    "\<exists>r\<in>set (kernel_space_regions small_layout 0x80400000 0x10000000 0). in_region 0x80204000 r"
    by (simp_all add: kernel_space_regions_def small_layout_def kernel_regions_def image_regions_def uart_regions_def plic_regions_def)
  from kernel_space_built [OF h] obtain s' root where s': "mem_init small_layout ?s 0x80400000 0x10000000 0 = Inr s'"
    "kernel_satp s' = make_satp root"
    "\<And>v. unat v < 2 ^ 39 \<Longrightarrow> leaf_at s' root v \<noteq> None \<longleftrightarrow> (\<exists>r\<in>set (kernel_space_regions small_layout 0x80400000 0x10000000 0). in_region v r)"
    by blast
  have "unat (0x80203000 :: usize) < 2 ^ 39" "unat (0x80204000 :: usize) < 2 ^ 39" by simp_all
  then have "leaf_at s' root 0x80203000 = None" "leaf_at s' root 0x80204000 \<noteq> None" using s'(3) r by blast+
  then show ?thesis using s'(1,2) by blast
qed

end
