(* ===== verification/Spaces.thy ===== *)
theory Spaces
  imports Paging
begin

unbundle bit_operations_syntax

text \<open>
  The address spaces \<^verbatim>\<open>kmain\<close> builds for its components (\<^verbatim>\<open>src/kernel/src/main.rs\<close>), one after the other over one
  allocator: a component with no device or a read-only one gets \<^verbatim>\<open>build_user_space\<close>, a virtio driver gets a DMA
  frame and \<^verbatim>\<open>build_virtio_space\<close>. Shown here: all of them together stay isolated, from each other and from
  the page tables.
\<close>

section \<open>Building the spaces\<close>

definition USER_STACK_SIZE :: usize where "USER_STACK_SIZE = 0x2000"

datatype space_kind = Plain "usize \<times> usize" | Virtio usize

type_synonym component = "string \<times> space_kind"

text \<open>The result: the component's \<^verbatim>\<open>satp\<close> and, for a driver, the address of its DMA frame. \<open>us\<close> gives the user stacks.\<close>

fun build_component :: "layout \<Rightarrow> (string \<Rightarrow> usize) \<Rightarrow> vm \<Rightarrow> component \<Rightarrow> (vm \<times> usize \<times> usize) result" where
  "build_component ld us s (name, Plain device) =
     bindr (add_chk (us name) USER_STACK_SIZE) (\<lambda>top.
     bindr (build_user_space ld s (us name, top) device) (\<lambda>(s, satp). Inr (s, satp, 0)))"
| "build_component ld us s (name, Virtio mmio) =
     bindr (alloc_zeroed s) (\<lambda>(s, f).
     bindr (expectr f (ExpectFailed (''no DMA frame for '' @ name))) (\<lambda>dma_pa.
     bindr (add_chk (us name) USER_STACK_SIZE) (\<lambda>top.
     bindr (add_chk mmio 0x1000) (\<lambda>mmio_end.
     bindr (add_chk dma_pa 0x1000) (\<lambda>dma_end.
     bindr (build_virtio_space ld s (us name, top) (mmio, mmio_end) (dma_pa, dma_end)) (\<lambda>(s, satp). Inr (s, satp, dma_pa)))))))"

fun build_components :: "layout \<Rightarrow> (string \<Rightarrow> usize) \<Rightarrow> vm \<Rightarrow> component list \<Rightarrow> (vm \<times> (usize \<times> usize) list) result" where
  "build_components ld us s [] = Inr (s, [])"
| "build_components ld us s (c # cs) =
     bindr (build_component ld us s c) (\<lambda>(s, r).
     bindr (build_components ld us s cs) (\<lambda>(s, rs). Inr (s, r # rs)))"

text \<open>The components, in the order of \<^verbatim>\<open>kmain\<close>.\<close>

definition driver :: "string \<Rightarrow> usize option \<Rightarrow> component list" where
  "driver name base = (case base of None \<Rightarrow> [] | Some mmio \<Rightarrow> [(name, Virtio mmio)])"

definition kmain_components :: "usize \<times> usize \<Rightarrow> usize option \<Rightarrow> usize option \<Rightarrow> usize option \<Rightarrow> component list" where
  "kmain_components rtc rng blk net =
     (''rtc'', Plain rtc) #
     map (\<lambda>n. (n, Plain (0, 0))) [''needy'', ''broker'', ''lease'', ''tenant'', ''opener'', ''sealer'', ''nocap'', ''rogue'',
       ''healer'', ''transient'', ''flaky'', ''novel''] @
     driver ''entropy'' rng @
     map (\<lambda>n. (n, Plain (0, 0))) [''rnguser'', ''deferrer'', ''dclientA'', ''dclientB''] @
     driver ''blk'' blk @ driver ''net'' net"

section \<open>What a component is given\<close>

text \<open>Its private static regions: the stack and a device. A DMA frame comes out of free RAM.\<close>

definition stack_region :: "(string \<Rightarrow> usize) \<Rightarrow> component \<Rightarrow> region" where
  "stack_region us c = (us (fst c), us (fst c) + USER_STACK_SIZE, PTE_R OR PTE_W OR PTE_U)"

definition device_region :: "component \<Rightarrow> region" where
  "device_region c =
     (case snd c of Plain device \<Rightarrow> (fst device, snd device, PTE_R OR PTE_U) | Virtio mmio \<Rightarrow> (mmio, mmio + 0x1000, PTE_R OR PTE_W OR PTE_U))"

fun is_driver :: "component \<Rightarrow> bool" where
  "is_driver (name, Plain device) \<longleftrightarrow> False"
| "is_driver (name, Virtio mmio) \<longleftrightarrow> True"

definition dma_regions :: "component \<Rightarrow> usize \<Rightarrow> region list" where
  "dma_regions c dma = (if is_driver c then [(dma, dma + 0x1000, PTE_R OR PTE_W OR PTE_U)] else [])"

definition static_regions :: "layout \<Rightarrow> usize \<Rightarrow> usize \<Rightarrow> (string \<Rightarrow> usize) \<Rightarrow> component \<Rightarrow> region list" where
  "static_regions ld uart plic us c =
     kernel_regions ld uart plic @ [(user_text_start ld, user_text_end ld, PTE_R OR PTE_X OR PTE_U), stack_region us c, device_region c]"

definition ram_region :: "vm \<Rightarrow> region" where
  "ram_region s = (frame_addr (frames s) 0, frame_addr (frames s) (a_count (frames s)), PTE_R OR PTE_W OR PTE_G)"

definition component_fits :: "layout \<Rightarrow> vm \<Rightarrow> (string \<Rightarrow> usize) \<Rightarrow> component \<Rightarrow> bool" where
  "component_fits ld s us c \<longleftrightarrow> regions_ok (static_regions ld (uart_mmio_base s) (plic_mmio_base s) us c @ [ram_region s])"

definition component_cost :: "layout \<Rightarrow> usize \<Rightarrow> usize \<Rightarrow> (string \<Rightarrow> usize) \<Rightarrow> component \<Rightarrow> nat" where
  "component_cost ld uart plic us c = 1 + table_frames (static_regions ld uart plic us c) + (if is_driver c then 3 else 0)"

section \<open>A space that later work leaves alone\<close>

definition space_kept :: "vm \<Rightarrow> usize \<Rightarrow> (usize \<rightharpoonup> usize list) \<Rightarrow> region list \<Rightarrow> bool" where
  "space_kept s root lab rs \<longleftrightarrow> tree (tables s) root lab \<and> dom lab \<subseteq> used (frames s) \<and> built s root rs"

lemma walk_cong_tree:
  assumes tr: "tree m root lab" and eq: "\<forall>x\<in>dom lab. m' x = m x"
    and t: "lab t = Some p" "length p + l = 2"
  shows "walk m' t va l = walk m t va l"
  using t
proof (induction l arbitrary: t p)
  case 0
  then have "m' t = m t" using eq by blast
  then show ?case by (simp add: walk_0)
next
  case (Suc l)
  then have m: "m' t = m t" using eq by blast
  show ?case
  proof (cases "pte_is_valid (m t (vpn va (Suc l)))")
    case True
    then have "lab (pte_to_pa (m t (vpn va (Suc l)))) = Some (p @ [vpn va (Suc l)])"
      using tree_child [OF tr Suc.prems(1)] Suc.prems(2) by simp
    then have "walk m' (pte_to_pa (m t (vpn va (Suc l)))) va l = walk m (pte_to_pa (m t (vpn va (Suc l)))) va l"
      using Suc.IH Suc.prems(2) by simp
    then show ?thesis by (simp add: walk_Suc m Let_def)
  qed (simp add: walk_Suc m Let_def)
qed

lemma space_kept_mono:
  assumes k: "space_kept s root lab rs" and u: "used (frames s) \<subseteq> used (frames s')" and eq: "\<forall>x\<in>used (frames s). tables s' x = tables s x"
  shows "space_kept s' root lab rs"
proof -
  have tr: "tree (tables s) root lab" and d: "dom lab \<subseteq> used (frames s)" using k by (simp_all add: space_kept_def)
  have e: "\<forall>x\<in>dom lab. tables s' x = tables s x" using eq d by blast
  then have "tree (tables s') root lab" using tr unfolding tree_def by (metis domI)
  moreover have "leaf_at s' root v = leaf_at s root v" for v
    unfolding leaf_at_def by (rule walk_cong_tree [OF tr e]) (use tr in \<open>simp_all add: tree_def\<close>)
  ultimately show ?thesis using k d u by (auto simp: space_kept_def built_def)
qed

text \<open>The pages that hold the tables of a space, as the hardware reaches them.\<close>

inductive table_page :: "(usize \<Rightarrow> usize \<Rightarrow> u64) \<Rightarrow> usize \<Rightarrow> nat \<Rightarrow> usize \<Rightarrow> bool" for m root where
  root: "table_page m root 2 root"
| step: "table_page m root (Suc l) t \<Longrightarrow> pte_is_valid (m t i) \<Longrightarrow> \<not> pte_leaf (m t i) \<Longrightarrow> table_page m root l (pte_to_pa (m t i))"

lemma table_page_labelled:
  assumes "table_page m root l t" "tree m root lab"
  shows "l \<le> 2 \<and> (\<exists>p. lab t = Some p \<and> length p + l = 2)"
  using assms(1)
proof (induction rule: table_page.induct)
  case (step l t i)
  then obtain p where p: "lab t = Some p" "length p + Suc l = 2" by blast
  then have "lab (pte_to_pa (m t i)) = Some (p @ [i])" using tree_child [OF assms(2) p(1)] step.hyps by simp
  then show ?case using p(2) by auto
qed (use assms(2) in \<open>simp add: tree_def\<close>)

section \<open>Building one component\<close>

definition component_regions :: "layout \<Rightarrow> usize \<Rightarrow> usize \<Rightarrow> (string \<Rightarrow> usize) \<Rightarrow> component \<Rightarrow> usize \<Rightarrow> region list" where
  "component_regions ld uart plic us c dma = static_regions ld uart plic us c @ dma_regions c dma"

lemma regions_ok_shrink:
  assumes "regions_ok (rs @ [(lo, hi, fl)])" "lo \<le> a" "e \<le> hi" "region_ok (a, e, fl')"
  shows "regions_ok (rs @ [(a, e, fl')])"
  using assms(1)
proof (induction rs)
  case (Cons r rs)
  obtain b d f where r: "r = (b, d, f)" by (cases r)
  have "region_disjoint r (a, e, fl')" using Cons.prems assms(2-4) unfolding r by auto
  then show ?case using Cons by simp
qed (use assms(4) in simp)

lemma used_frame_range:
  assumes "alloc_inv a" "x \<in> used a"
  shows "frame_addr a 0 \<le> x" "x + 0x1000 \<le> frame_addr a (a_count a)" "x \<le> x + 0x1000" "unat x + 4096 < 2 ^ 64" "page_aligned x"
    "page_aligned (x + 0x1000)"
proof -
  obtain i where i: "i < a_count a" "x = frame_addr a i" using assms(2) by (auto simp: used_def)
  have x: "unat x = (a_base a + i) * FRAME_SIZE" using unat_frame_addr [OF assms(1), of i] i by simp
  have top: "unat (frame_addr a (a_count a)) = (a_base a + a_count a) * FRAME_SIZE" using unat_frame_addr [OF assms(1)] by simp
  have lo: "unat (frame_addr a 0) = a_base a * FRAME_SIZE" using unat_frame_addr [OF assms(1), of 0] by simp
  have le: "unat x + 4096 \<le> unat (frame_addr a (a_count a))"
    using i(1) mult_le_mono1 [of "a_base a + Suc i" "a_base a + a_count a" 4096] unfolding x top FRAME_SIZE_def by simp
  then show f: "unat x + 4096 < 2 ^ 64" using unsigned_less [of "frame_addr a (a_count a)", where ?'a = nat] by simp
  then have x': "unat (x + 0x1000) = unat x + 4096" by (subst unat_add_fits) simp_all
  show "frame_addr a 0 \<le> x" by (simp add: word_le_nat_alt lo x)
  show "x + 0x1000 \<le> frame_addr a (a_count a)" "x \<le> x + 0x1000" using le by (simp_all add: word_le_nat_alt x')
  show "page_aligned x" "page_aligned (x + 0x1000)"
    unfolding page_aligned_def x' by (simp_all add: x PAGE_SIZE_def FRAME_SIZE_def)
qed

lemma add_chk_le: "a \<le> a + b \<Longrightarrow> add_chk a b = Inr (a + b)" for a b :: usize
  by (simp add: add_chk_def word_le_add_iff)

lemma component_fitsD:
  assumes "component_fits ld s us c"
  shows "regions_ok (static_regions ld (uart_mmio_base s) (plic_mmio_base s) us c)" "region_ok (stack_region us c)" "region_ok (device_region c)"
    "frame_addr (frames s) (a_count (frames s)) \<le> 0x8000000000"
    "add_chk (us (fst c)) USER_STACK_SIZE = Inr (us (fst c) + USER_STACK_SIZE)"
proof -
  let ?rs = "static_regions ld (uart_mmio_base s) (plic_mmio_base s) us c @ [ram_region s]"
  have ok: "regions_ok ?rs" using assms by (simp add: component_fits_def)
  show "regions_ok (static_regions ld (uart_mmio_base s) (plic_mmio_base s) us c)" using regions_ok_append [OF ok] by simp
  show st: "region_ok (stack_region us c)" "region_ok (device_region c)"
    by (rule regions_ok_mem [OF ok], simp add: static_regions_def)+
  have "region_ok (ram_region s)" by (rule regions_ok_mem [OF ok]) simp
  then show "frame_addr (frames s) (a_count (frames s)) \<le> 0x8000000000" by (simp add: ram_region_def)
  show "add_chk (us (fst c)) USER_STACK_SIZE = Inr (us (fst c) + USER_STACK_SIZE)"
    using st(1) by (simp add: stack_region_def add_chk_le)
qed

lemma build_plain_ok:
  assumes ok: "vm_ok s" and fit: "component_fits ld s us (n, Plain dev)"
    and free: "component_cost ld (uart_mmio_base s) (plic_mmio_base s) us (n, Plain dev) \<le> free_frames (frames s)"
  obtains s' root lab where "build_component ld us s (n, Plain dev) = Inr (s', make_satp root, 0)" "vm_ok s'" "same_devices s s'"
    "space_kept s' root lab (static_regions ld (uart_mmio_base s) (plic_mmio_base s) us (n, Plain dev))"
    "used (frames s) \<subseteq> used (frames s')" "\<forall>x\<in>used (frames s). tables s' x = tables s x" "dom lab \<inter> used (frames s) = {}"
    "free_frames (frames s) \<le> free_frames (frames s') + component_cost ld (uart_mmio_base s) (plic_mmio_base s) us (n, Plain dev)"
proof -
  let ?rs = "static_regions ld (uart_mmio_base s) (plic_mmio_base s) us (n, Plain dev)" and ?st = "(us n, us n + USER_STACK_SIZE)"
  have rs: "?rs = user_space_regions ld s ?st dev"
    by (simp add: static_regions_def user_space_regions_def stack_region_def device_region_def)
  have r: "regions_ok ?rs" by (rule component_fitsD(1) [OF fit])
  have top: "add_chk (us n) USER_STACK_SIZE = Inr (us n + USER_STACK_SIZE)" using component_fitsD(5) [OF fit] by simp
  have fr: "1 + table_frames ?rs \<le> free_frames (frames s)" using free by (simp add: component_cost_def)
  obtain s1 root s' lab where b: "alloc_zeroed s = Inr (s1, Some root)" "same_devices s s1" "map_regions s1 root ?rs = Inr s'"
    "space_ok s' root lab" "built s' root ?rs" "\<forall>x\<in>used (frames s). tables s' x = tables s x"
    "used (frames s) \<subseteq> used (frames s')" "dom lab \<inter> used (frames s) = {}"
    "free_frames (frames s) \<le> free_frames (frames s') + (1 + table_frames ?rs)" "same_devices s s'"
    by (rule build_space_ok [OF ok r fr])
  have "build_component ld us s (n, Plain dev) = Inr (s', make_satp root, 0)"
    using top build_user_space_exec [OF r [unfolded rs] b(1,2)] b(3) by (simp add: rs)
  moreover have "vm_ok s'" "space_kept s' root lab ?rs" using b(4,5) by (simp_all add: space_ok_def space_kept_def)
  ultimately show thesis using that b(6-10) by (simp add: component_cost_def)
qed

lemma dma_regions_ok:
  assumes "component_fits ld s us c" "alloc_inv (frames s)" "same_devices s s1" "x \<in> used (frames s1)" "alloc_inv (frames s1)"
  shows "regions_ok (static_regions ld (uart_mmio_base s) (plic_mmio_base s) us c @ [(x, x + 0x1000, PTE_R OR PTE_W OR PTE_U)])"
proof (rule regions_ok_shrink)
  show "regions_ok (static_regions ld (uart_mmio_base s) (plic_mmio_base s) us c @
      [(frame_addr (frames s) 0, frame_addr (frames s) (a_count (frames s)), PTE_R OR PTE_W OR PTE_G)])"
    using assms(1) by (simp add: component_fits_def ram_region_def)
  have fa: "frame_addr (frames s) i = frame_addr (frames s1) i" "a_count (frames s1) = a_count (frames s)" for i
    using assms(3) by (simp_all add: frame_addr_def same_devices_def)
  note x = used_frame_range [OF assms(5,4)]
  show "frame_addr (frames s) 0 \<le> x" "x + 0x1000 \<le> frame_addr (frames s) (a_count (frames s))" using x(1,2) by (simp_all add: fa)
  moreover have "pte_leaf (PTE_R OR PTE_W OR PTE_U)" "flags_ok (PTE_R OR PTE_W OR PTE_U)"
    by (simp_all add: pte_leaf_bit bit_simps flag_bits flags_ok_def) (simp add: pte_bits)
  ultimately show "region_ok (x, x + 0x1000, PTE_R OR PTE_W OR PTE_U)"
    using x(3,5,6) component_fitsD(4) [OF assms(1)] by simp
qed

lemma one_page_cost: "unat x + 4096 < 2 ^ 64 \<Longrightarrow> region_cost (x, x + 0x1000, fl) = 2"
proof -
  assume "unat x + 4096 < 2 ^ 64"
  then have "unat (x + 0x1000) = unat x + 4096" by (subst unat_add_fits) simp_all
  then show ?thesis by (simp add: PAGE_SIZE_def range_cost_def)
qed

lemma build_virtio_ok:
  assumes ok: "vm_ok s" and fit: "component_fits ld s us (n, Virtio mmio)"
    and free: "component_cost ld (uart_mmio_base s) (plic_mmio_base s) us (n, Virtio mmio) \<le> free_frames (frames s)"
  obtains s' root lab dma where "build_component ld us s (n, Virtio mmio) = Inr (s', make_satp root, dma)" "vm_ok s'" "same_devices s s'"
    "space_kept s' root lab (component_regions ld (uart_mmio_base s) (plic_mmio_base s) us (n, Virtio mmio) dma)"
    "regions_ok (component_regions ld (uart_mmio_base s) (plic_mmio_base s) us (n, Virtio mmio) dma)"
    "dma \<notin> used (frames s)" "dma \<in> used (frames s')" "dma \<notin> dom lab"
    "used (frames s) \<subseteq> used (frames s')" "\<forall>x\<in>used (frames s). tables s' x = tables s x" "dom lab \<inter> used (frames s) = {}"
    "free_frames (frames s) \<le> free_frames (frames s') + component_cost ld (uart_mmio_base s) (plic_mmio_base s) us (n, Virtio mmio)"
proof -
  let ?c = "(n, Virtio mmio)"
  have f: "0 < free_frames (frames s)" using free by (simp add: component_cost_def)
  obtain s1 dma where 1: "alloc_zeroed s = Inr (s1, Some dma)" "dma \<notin> used (frames s)" "vm_ok s1"
    "used (frames s1) = insert dma (used (frames s))" "tables s1 = (tables s)(dma := (\<lambda>_. 0))"
    "free_frames (frames s) = free_frames (frames s1) + 1"
    by (rule alloc_zeroed_ok [OF ok f])
  have sd: "same_devices s s1" by (rule alloc_zeroed_devices [OF 1(1)])
  have dm: "dma \<in> used (frames s1)" using 1(4) by simp
  have inv: "alloc_inv (frames s)" "alloc_inv (frames s1)" using ok 1(3) by (simp_all add: vm_ok_def)
  let ?rs = "component_regions ld (uart_mmio_base s) (plic_mmio_base s) us ?c dma"
  have r: "regions_ok ?rs"
    using dma_regions_ok [OF fit inv(1) sd dm inv(2)] by (simp add: component_regions_def dma_regions_def)
  have rs: "?rs = virtio_space_regions ld s1 (us n, us n + USER_STACK_SIZE) (mmio, mmio + 0x1000) (dma, dma + 0x1000)"
    using sd by (simp add: component_regions_def dma_regions_def static_regions_def virtio_space_regions_def stack_region_def
        device_region_def same_devices_def)
  have cost: "table_frames ?rs = table_frames (static_regions ld (uart_mmio_base s) (plic_mmio_base s) us ?c) + 2"
    using one_page_cost [OF used_frame_range(4) [OF inv(2) dm]]
    by (simp add: component_regions_def dma_regions_def table_frames_def)
  have fr: "1 + table_frames ?rs \<le> free_frames (frames s1)" using free cost 1(6) by (simp add: component_cost_def)
  obtain s2 root s' lab where b: "alloc_zeroed s1 = Inr (s2, Some root)" "same_devices s1 s2" "map_regions s2 root ?rs = Inr s'"
    "space_ok s' root lab" "built s' root ?rs" "\<forall>x\<in>used (frames s1). tables s' x = tables s1 x"
    "used (frames s1) \<subseteq> used (frames s')" "dom lab \<inter> used (frames s1) = {}"
    "free_frames (frames s1) \<le> free_frames (frames s') + (1 + table_frames ?rs)" "same_devices s1 s'"
    by (rule build_space_ok [OF 1(3) r fr])
  have ends: "add_chk (us n) USER_STACK_SIZE = Inr (us n + USER_STACK_SIZE)" "add_chk mmio 0x1000 = Inr (mmio + 0x1000)"
    "add_chk dma 0x1000 = Inr (dma + 0x1000)"
    using component_fitsD(3,5) [OF fit] used_frame_range(3) [OF inv(2) dm] by (simp_all add: add_chk_le device_region_def)
  have "build_component ld us s ?c = Inr (s', make_satp root, dma)"
    using ends 1(1) build_virtio_space_exec [OF r [unfolded rs] b(1,2)] b(3) by (simp add: rs expectr_def)
  moreover have "vm_ok s'" "space_kept s' root lab ?rs" using b(4,5) by (simp_all add: space_ok_def space_kept_def)
  moreover have "same_devices s s'" using same_devices_trans [OF sd b(10)] .
  moreover have "used (frames s) \<subseteq> used (frames s')" "dma \<in> used (frames s')" "dma \<notin> dom lab" "dom lab \<inter> used (frames s) = {}"
    using b(7,8) 1(4) by auto
  moreover have "\<forall>x\<in>used (frames s). tables s' x = tables s x" using b(6) 1(2,4,5) by auto
  ultimately show thesis using that r 1(2,6) b(9) cost by (simp add: component_cost_def)
qed

text \<open>Both kinds at once; the DMA address of a component without one is not used.\<close>

lemma build_component_ok:
  assumes ok: "vm_ok s" and fit: "component_fits ld s us c"
    and free: "component_cost ld (uart_mmio_base s) (plic_mmio_base s) us c \<le> free_frames (frames s)"
  obtains s' root lab dma where "build_component ld us s c = Inr (s', make_satp root, dma)" "vm_ok s'" "same_devices s s'"
    "space_kept s' root lab (component_regions ld (uart_mmio_base s) (plic_mmio_base s) us c dma)"
    "regions_ok (component_regions ld (uart_mmio_base s) (plic_mmio_base s) us c dma)"
    "is_driver c \<longrightarrow> dma \<notin> used (frames s) \<and> dma \<in> used (frames s') \<and> dma \<notin> dom lab"
    "used (frames s) \<subseteq> used (frames s')" "\<forall>x\<in>used (frames s). tables s' x = tables s x" "dom lab \<inter> used (frames s) = {}"
    "free_frames (frames s) \<le> free_frames (frames s') + component_cost ld (uart_mmio_base s) (plic_mmio_base s) us c"
proof (cases c)
  case (Pair n kind)
  show thesis
  proof (cases kind)
    case (Plain dev)
    have c: "c = (n, Plain dev)" using Pair Plain by simp
    have r: "regions_ok (static_regions ld (uart_mmio_base s) (plic_mmio_base s) us c)" by (rule component_fitsD(1) [OF fit])
    show thesis
      by (rule build_plain_ok [OF ok fit [unfolded c] free [unfolded c]])
        (rule that, use r c in \<open>simp_all add: component_regions_def dma_regions_def\<close>)
  next
    case (Virtio mmio)
    have c: "c = (n, Virtio mmio)" using Pair Virtio by simp
    show thesis
      by (rule build_virtio_ok [OF ok fit [unfolded c] free [unfolded c]]) (rule that, use c in simp_all)
  qed
qed

lemma component_fits_same: "same_devices s s' \<Longrightarrow> component_fits ld s' us c = component_fits ld s us c"
  by (simp add: component_fits_def ram_region_def frame_addr_def same_devices_def)

section \<open>Building all of them\<close>

text \<open>A ledger of the spaces built so far: component, root, its tables, DMA frame.\<close>

type_synonym ledger = "(component \<times> usize \<times> (usize \<rightharpoonup> usize list) \<times> usize) list"

definition entry_ok :: "layout \<Rightarrow> (string \<Rightarrow> usize) \<Rightarrow> vm \<Rightarrow> component \<times> usize \<times> (usize \<rightharpoonup> usize list) \<times> usize \<Rightarrow> bool" where
  "entry_ok ld us s = (\<lambda>(c, root, lab, dma).
     space_kept s root lab (component_regions ld (uart_mmio_base s) (plic_mmio_base s) us c dma) \<and>
     regions_ok (component_regions ld (uart_mmio_base s) (plic_mmio_base s) us c dma) \<and> (is_driver c \<longrightarrow> dma \<in> used (frames s)))"

definition dma_frames :: "ledger \<Rightarrow> usize list" where
  "dma_frames ls = map (\<lambda>(c, root, lab, dma). dma) (filter (\<lambda>(c, _). is_driver c) ls)"

definition table_set :: "ledger \<Rightarrow> usize set" where
  "table_set ls = (\<Union>(c, root, lab, dma)\<in>set ls. dom lab)"

definition ledger_ok :: "layout \<Rightarrow> (string \<Rightarrow> usize) \<Rightarrow> vm \<Rightarrow> ledger \<Rightarrow> bool" where
  "ledger_ok ld us s ls \<longleftrightarrow> (\<forall>e\<in>set ls. entry_ok ld us s e) \<and> set (dma_frames ls) \<inter> table_set ls = {} \<and> distinct (dma_frames ls)"

lemma entry_ok_mono:
  assumes "entry_ok ld us s e" "same_devices s s'" "used (frames s) \<subseteq> used (frames s')" "\<forall>x\<in>used (frames s). tables s' x = tables s x"
  shows "entry_ok ld us s' e"
  using assms space_kept_mono [OF _ assms(3,4)] by (auto simp: entry_ok_def same_devices_def split: prod.splits)

lemma ledger_used:
  assumes "ledger_ok ld us s ls"
  shows "set (dma_frames ls) \<subseteq> used (frames s)" "table_set ls \<subseteq> used (frames s)"
  using assms by (auto 0 4 simp: ledger_ok_def entry_ok_def dma_frames_def table_set_def space_kept_def split: prod.splits)

lemma ledger_add:
  assumes l: "ledger_ok ld us s ls" and mono: "same_devices s s'" "used (frames s) \<subseteq> used (frames s')" "\<forall>x\<in>used (frames s). tables s' x = tables s x"
    and e: "entry_ok ld us s' (c, root, lab, dma)" and new: "dom lab \<inter> used (frames s) = {}"
      "is_driver c \<Longrightarrow> dma \<notin> used (frames s) \<and> dma \<notin> dom lab"
  shows "ledger_ok ld us s' (ls @ [(c, root, lab, dma)])"
proof -
  have "\<forall>x\<in>set ls. entry_ok ld us s' x" using l entry_ok_mono [OF _ mono] by (simp add: ledger_ok_def)
  moreover have "dma_frames (ls @ [(c, root, lab, dma)]) = dma_frames ls @ (if is_driver c then [dma] else [])"
    by (simp add: dma_frames_def)
  moreover have "table_set (ls @ [(c, root, lab, dma)]) = table_set ls \<union> dom lab" by (auto simp: table_set_def)
  ultimately show ?thesis
    using l e new ledger_used [OF l] by (auto simp: ledger_ok_def)
qed

fun recorded :: "component \<times> usize \<times> (usize \<rightharpoonup> usize list) \<times> usize \<Rightarrow> component \<times> usize \<times> usize" where
  "recorded (c, root, lab, dma) = (c, make_satp root, dma)"

lemma build_components_ok:
  assumes "vm_ok s" "ledger_ok ld us s ls" "\<forall>c\<in>set cs. component_fits ld s us c"
    "sum_list (map (component_cost ld (uart_mmio_base s) (plic_mmio_base s) us) cs) \<le> free_frames (frames s)"
  shows "\<exists>s' rs ls'. build_components ld us s cs = Inr (s', rs) \<and> vm_ok s' \<and> same_devices s s' \<and> ledger_ok ld us s' (ls @ ls') \<and>
    length rs = length cs \<and> map recorded ls' = zip cs rs \<and> used (frames s) \<subseteq> used (frames s') \<and>
    (\<forall>x\<in>used (frames s). tables s' x = tables s x)"
  using assms
proof (induction cs arbitrary: s ls)
  case Nil
  then show ?case by (auto simp: same_devices_def intro: exI [of _ "[]"])
next
  case (Cons c cs)
  let ?cost = "component_cost ld (uart_mmio_base s) (plic_mmio_base s) us"
  have fit: "component_fits ld s us c" and free: "?cost c \<le> free_frames (frames s)" using Cons.prems(3,4) by simp_all
  obtain s1 root lab dma where 1: "build_component ld us s c = Inr (s1, make_satp root, dma)" "vm_ok s1" "same_devices s s1"
    "space_kept s1 root lab (component_regions ld (uart_mmio_base s) (plic_mmio_base s) us c dma)"
    "regions_ok (component_regions ld (uart_mmio_base s) (plic_mmio_base s) us c dma)"
    "is_driver c \<longrightarrow> dma \<notin> used (frames s) \<and> dma \<in> used (frames s1) \<and> dma \<notin> dom lab"
    "used (frames s) \<subseteq> used (frames s1)" "\<forall>x\<in>used (frames s). tables s1 x = tables s x" "dom lab \<inter> used (frames s) = {}"
    "free_frames (frames s) \<le> free_frames (frames s1) + ?cost c"
    by (rule build_component_ok [OF Cons.prems(1) fit free])
  have d: "uart_mmio_base s1 = uart_mmio_base s" "plic_mmio_base s1 = plic_mmio_base s" using 1(3) by (simp_all add: same_devices_def)
  have "entry_ok ld us s1 (c, root, lab, dma)" using 1(4-6) by (simp add: entry_ok_def d)
  then have led: "ledger_ok ld us s1 (ls @ [(c, root, lab, dma)])"
    by (rule ledger_add [OF Cons.prems(2) 1(3,7,8) _ 1(9)]) (use 1(6) in simp)
  have rest: "\<forall>c\<in>set cs. component_fits ld s1 us c" "sum_list (map (component_cost ld (uart_mmio_base s1) (plic_mmio_base s1) us) cs) \<le> free_frames (frames s1)"
    using Cons.prems(3,4) 1(10) component_fits_same [OF 1(3)] by (simp_all add: d)
  obtain s' rs ls' where 2: "build_components ld us s1 cs = Inr (s', rs)" "vm_ok s'" "same_devices s1 s'"
    "ledger_ok ld us s' ((ls @ [(c, root, lab, dma)]) @ ls')" "length rs = length cs" "map recorded ls' = zip cs rs"
    "used (frames s1) \<subseteq> used (frames s')" "\<forall>x\<in>used (frames s1). tables s' x = tables s1 x"
    using Cons.IH [OF 1(2) led rest] by blast
  have "\<forall>x\<in>used (frames s). tables s' x = tables s x" using 1(7,8) 2(8) by auto
  then show ?case
    using 1(1,7) 2 same_devices_trans [OF 1(3) 2(3)] by (intro exI [of _ s'] exI [of _ "(make_satp root, dma) # rs"] exI [of _ "(c, root, lab, dma) # ls'"]) auto
qed

section \<open>What the components can reach\<close>

definition private_regions :: "(string \<Rightarrow> usize) \<Rightarrow> component \<Rightarrow> region list" where
  "private_regions us c = stack_region us c # (if is_driver c then [device_region c] else [])"

lemma regions_ok_concat:
  assumes "regions_ok (concat xss)" "i < j" "j < length xss" "r \<in> set (xss ! i)" "r' \<in> set (xss ! j)"
  shows "region_disjoint r r'"
  using assms
proof (induction xss arbitrary: i j)
  case (Cons xs xss)
  have split: "regions_ok (ys @ zs) \<Longrightarrow> a \<in> set ys \<Longrightarrow> b \<in> set zs \<Longrightarrow> region_disjoint a b" for ys zs a b
    by (induction ys) (auto simp: list_all_iff)
  show ?case
  proof (cases i)
    case 0
    then have "r' \<in> set (concat xss)" using Cons.prems(2,3,5) by (cases j) auto
    then show ?thesis using 0 Cons.prems(1,4) split [of xs "concat xss"] by simp
  next
    case (Suc k)
    then show ?thesis using Cons.IH [of k "j - 1"] Cons.prems regions_ok_append [of xs "concat xss"] by (cases j) auto
  qed
qed simp

lemma frame_of_nat: "x mod 4096 = 0 \<Longrightarrow> x \<le> n \<and> n < x + 4096 \<longleftrightarrow> n div 4096 * 4096 = x" for x n :: nat
proof -
  assume "x mod 4096 = 0"
  then obtain k where k: "x = k * 4096" by (metis mod_0_imp_dvd dvd_def mult.commute)
  have "k * 4096 \<le> n \<and> n < k * 4096 + 4096 \<longleftrightarrow> n div 4096 = k"
  proof
    assume "k * 4096 \<le> n \<and> n < k * 4096 + 4096"
    then show "n div 4096 = k" by (intro div_nat_eqI) simp_all
  next
    assume q: "n div 4096 = k"
    have "n = n div 4096 * 4096 + n mod 4096" "n mod 4096 < 4096" by simp_all
    then show "k * 4096 \<le> n \<and> n < k * 4096 + 4096" unfolding q by linarith
  qed
  then show ?thesis unfolding k by simp
qed

lemma in_frame:
  assumes "alloc_inv a" "x \<in> used a"
  shows "x \<le> v \<and> v < x + 0x1000 \<longleftrightarrow> page v = x"
proof -
  have "unat (x + 0x1000) = unat x + 4096" using used_frame_range(4) [OF assms] by (subst unat_add_fits) simp_all
  moreover have "unat x mod 4096 = 0" using used_frame_range(5) [OF assms] by (simp add: page_aligned_def PAGE_SIZE_def)
  ultimately have "x \<le> v \<and> v < x + 0x1000 \<longleftrightarrow> unat v div 4096 * 4096 = unat x"
    unfolding word_le_nat_alt word_less_nat_alt by (simp only: frame_of_nat)
  then show ?thesis by (simp add: word_unat_eq_iff unat_page)
qed

text \<open>The rights a space grants, in terms of what its component was given.\<close>

definition grants_exactly :: "layout \<Rightarrow> (string \<Rightarrow> usize) \<Rightarrow> vm \<Rightarrow> usize \<Rightarrow> component \<Rightarrow> usize \<Rightarrow> bool" where
  "grants_exactly ld us s root c dma \<longleftrightarrow> (\<forall>v. unat v < 2 ^ 39 \<longrightarrow>
     (user_executes s root v \<longleftrightarrow> user_text_start ld \<le> v \<and> v < user_text_end ld) \<and>
     (user_writes s root v \<longleftrightarrow> (\<exists>r\<in>set (private_regions us c). in_region v r) \<or> is_driver c \<and> page v = dma) \<and>
     (user_reads s root v \<longleftrightarrow> user_executes s root v \<or> user_writes s root v \<or> in_region v (device_region c)) \<and>
     \<not> writable_and_executable s root v \<and> (\<forall>l pte. leaf_at s root v = Some (l, pte) \<longrightarrow> pte_to_pa pte = page v))"

lemma entry_grants:
  assumes e: "entry_ok ld us s (c, root, lab, dma)" and inv: "alloc_inv (frames s)"
  shows "grants_exactly ld us s root c dma"
proof -
  let ?rs = "component_regions ld (uart_mmio_base s) (plic_mmio_base s) us c dma"
  have b: "built s root ?rs" and r: "regions_ok ?rs" using e by (simp_all add: entry_ok_def space_kept_def)
  obtain n kind where c: "c = (n, kind)" by (cases c)
  have fr: "(dma \<le> v \<and> v < dma + 0x1000) = (page v = dma)" if "is_driver c" for v
    using in_frame [OF inv, of dma v] e that by (simp add: entry_ok_def)
  have "(user_executes s root v \<longleftrightarrow> user_text_start ld \<le> v \<and> v < user_text_end ld) \<and>
     (user_writes s root v \<longleftrightarrow> (\<exists>r\<in>set (private_regions us c). in_region v r) \<or> is_driver c \<and> page v = dma) \<and>
     (user_reads s root v \<longleftrightarrow> user_executes s root v \<or> user_writes s root v \<or> in_region v (device_region c)) \<and>
     \<not> writable_and_executable s root v" if v: "unat v < 2 ^ 39" for v
    unfolding user_rights_by_region [OF b r v]
    using kernel_regions_no_user [of _ ld "uart_mmio_base s" "plic_mmio_base s"] kernel_regions_no_wx [of _ ld "uart_mmio_base s" "plic_mmio_base s"]
      fr [of v] unfolding c
    by (cases kind) (auto simp: component_regions_def static_regions_def dma_regions_def private_regions_def stack_region_def device_region_def
        user_word_rights no_wx_word)
  then show ?thesis using built_identity [OF b r] unfolding grants_exactly_def by blast
qed

lemma regions_ok_last: "regions_ok (xs @ [y]) \<Longrightarrow> z \<in> set xs \<Longrightarrow> region_disjoint z y"
  by (induction xs) auto

text \<open>Frames of the allocator are never among a component's static regions.\<close>

lemma frame_not_private:
  assumes fit: "component_fits ld s us c" and r: "r \<in> set (private_regions us c)" "in_region v r"
    and inv: "alloc_inv (frames s)" and x: "page v \<in> used (frames s)"
  shows False
proof -
  have "in_region v (ram_region s)"
    using in_frame [OF inv x, of v] used_frame_range(1,2) [OF inv x] by (auto simp: ram_region_def)
  moreover have "region_disjoint r (ram_region s)"
    by (rule regions_ok_last [OF fit [unfolded component_fits_def]])
      (use r(1) in \<open>auto simp: static_regions_def private_regions_def split: if_splits\<close>)
  ultimately show False using region_disjoint_in r(2) by blast
qed

lemma distinct_filter_nth:
  assumes "distinct (map f (filter P xs))" "i < j" "j < length xs" "P (xs ! i)" "P (xs ! j)"
  shows "f (xs ! i) \<noteq> f (xs ! j)"
proof -
  have "xs = take j xs @ xs ! j # drop (Suc j) xs" using assms(3) by (rule id_take_nth_drop)
  then have "distinct (map f (filter P (take j xs @ xs ! j # drop (Suc j) xs)))" using assms(1) by simp
  moreover have "xs ! i \<in> set (take j xs)" using assms(2,3) by (auto simp: in_set_conv_nth)
  then have "f (xs ! i) \<in> f ` {x \<in> set (take j xs). P x}" using assms(4) by blast
  ultimately show ?thesis using assms(5) by auto
qed

definition writes_of :: "(string \<Rightarrow> usize) \<Rightarrow> component \<times> usize \<times> (usize \<rightharpoonup> usize list) \<times> usize \<Rightarrow> usize \<Rightarrow> bool" where
  "writes_of us = (\<lambda>(c, root, lab, dma) v. (\<exists>r\<in>set (private_regions us c). in_region v r) \<or> is_driver c \<and> page v = dma)"

lemma ledger_entry: "ledger_ok ld us s ls \<Longrightarrow> e \<in> set ls \<Longrightarrow> entry_ok ld us s e"
  by (simp add: ledger_ok_def)

lemma ledger_disjoint:
  assumes l: "ledger_ok ld us s ls" and inv: "alloc_inv (frames s)" and fit: "\<forall>e\<in>set ls. component_fits ld s us (fst e)"
    and dis: "regions_ok (concat (map (private_regions us \<circ> fst) ls))" and ij: "i < j" "j < length ls"
    and w: "writes_of us (ls ! i) v" "writes_of us (ls ! j) v"
  shows False
proof -
  obtain c root lab dma where i: "ls ! i = (c, root, lab, dma)" by (cases "ls ! i")
  obtain c' root' lab' dma' where j: "ls ! j = (c', root', lab', dma')" by (cases "ls ! j")
  have mem: "(c, root, lab, dma) \<in> set ls" "(c', root', lab', dma') \<in> set ls"
    using nth_mem [of i ls] nth_mem [of j ls] ij i j by simp_all
  then have f: "component_fits ld s us c" "component_fits ld s us c'" using fit by fastforce+
  have u: "is_driver c \<Longrightarrow> dma \<in> used (frames s)" "is_driver c' \<Longrightarrow> dma' \<in> used (frames s)"
    using ledger_entry [OF l mem(1)] ledger_entry [OF l mem(2)] by (simp_all add: entry_ok_def)
  have "region_disjoint r r'" if "r \<in> set (private_regions us c)" "r' \<in> set (private_regions us c')" for r r'
    using regions_ok_concat [OF dis ij(1), of r r'] ij i j that by simp
  moreover have "dma \<noteq> dma'" if "is_driver c" "is_driver c'"
    using distinct_filter_nth [of "\<lambda>(c, root, lab, dma). dma" "\<lambda>(c, _). is_driver c" ls, OF _ ij] l i j that
    by (simp add: ledger_ok_def dma_frames_def)
  moreover have "page v \<notin> used (frames s)" if "r \<in> set (private_regions us c) \<or> r \<in> set (private_regions us c')" "in_region v r" for r
    using frame_not_private [OF f(1) _ that(2) inv] frame_not_private [OF f(2) _ that(2) inv] that(1) by blast
  ultimately show False
    using w u region_disjoint_in unfolding i j writes_of_def prod.case by blast
qed

lemma ledger_tables_safe:
  assumes l: "ledger_ok ld us s ls" and inv: "alloc_inv (frames s)" and fit: "\<forall>e\<in>set ls. component_fits ld s us (fst e)"
    and mem: "(c, root, lab, dma) \<in> set ls" "(c', root', lab', dma') \<in> set ls"
    and w: "writes_of us (c, root, lab, dma) v" and t: "table_page (tables s) root' lv t"
  shows "page v \<noteq> t"
proof
  assume e: "page v = t"
  have k: "tree (tables s) root' lab'" "dom lab' \<subseteq> used (frames s)" using ledger_entry [OF l mem(2)] by (simp_all add: entry_ok_def space_kept_def)
  then have t': "t \<in> dom lab'" "t \<in> used (frames s)" using table_page_labelled [OF t k(1)] by auto
  have fc: "component_fits ld s us c" using fit mem(1) by fastforce
  have "page v \<in> used (frames s)" using e t'(2) by simp
  then have "\<not> (\<exists>r\<in>set (private_regions us c). in_region v r)" using frame_not_private [OF fc _ _ inv] by blast
  then have d: "is_driver c" "dma = t" using w e by (simp_all add: writes_of_def)
  have "dma \<in> set (dma_frames ls)" using mem(1) d(1) by (force simp: dma_frames_def)
  moreover have "t \<in> table_set ls" using mem(2) t'(1) unfolding table_set_def by blast
  ultimately show False using l d(2) by (auto simp: ledger_ok_def)
qed

text \<open>C4: The components' spaces are isolated, all of them together. When each component's stack and device lie apart from the kernel, the
  user text and free RAM, and from those of every other component, and there are frames for all the tables, building
  the spaces one after the other returns; in the final memory every space grants user mode exactly its component's rights,
  each page at its own address, nothing writable is executable, no two components can write the same address, and none
  can write a page that holds a page table of any component. Frames that were in use before are untouched.\<close>
theorem components_isolated:
  assumes ok: "vm_ok s" and fit: "\<forall>c\<in>set cs. component_fits ld s us c" and apart: "regions_ok (concat (map (private_regions us) cs))"
    and free: "sum_list (map (component_cost ld (uart_mmio_base s) (plic_mmio_base s) us) cs) \<le> free_frames (frames s)"
  shows "\<exists>s' rs roots. build_components ld us s cs = Inr (s', rs) \<and> length rs = length cs \<and> length roots = length cs \<and>
    map fst rs = map make_satp roots \<and> (\<forall>x\<in>used (frames s). tables s' x = tables s x) \<and>
    (\<forall>i<length cs. grants_exactly ld us s' (roots ! i) (cs ! i) (snd (rs ! i))) \<and>
    (\<forall>i<length cs. \<forall>v. unat v < 2 ^ 39 \<longrightarrow> user_writes s' (roots ! i) v \<longrightarrow>
       (\<forall>j<length cs. (i \<noteq> j \<longrightarrow> \<not> user_writes s' (roots ! j) v) \<and> (\<forall>l t. table_page (tables s') (roots ! j) l t \<longrightarrow> page v \<noteq> t)))"
proof -
  have "ledger_ok ld us s []" by (simp add: ledger_ok_def dma_frames_def table_set_def)
  from build_components_ok [OF ok this fit free] obtain s' rs ls where
    run: "build_components ld us s cs = Inr (s', rs)" and ok': "vm_ok s'" and sd: "same_devices s s'" and l: "ledger_ok ld us s' ls"
    and len: "length rs = length cs" and rec: "map recorded ls = zip cs rs" and old: "\<forall>x\<in>used (frames s). tables s' x = tables s x"
    by auto
  have inv: "alloc_inv (frames s')" using ok' by (simp add: vm_ok_def)
  have ln: "length ls = length cs" using rec len by (metis length_map length_zip min.idem)
  have nth: "recorded (ls ! i) = (cs ! i, rs ! i)" if "i < length cs" for i
    using rec that ln len by (metis nth_map nth_zip)
  define roots where "roots = map (fst \<circ> snd) ls"
  have e: "\<exists>lab. ls ! i = (cs ! i, roots ! i, lab, snd (rs ! i)) \<and> fst (rs ! i) = make_satp (roots ! i)" if i: "i < length cs" for i
    using nth [OF i] i ln unfolding roots_def by (cases "ls ! i") (auto simp: prod_eq_iff)
  have cs: "map fst ls = cs"
    by (rule nth_equalityI) (use e ln in force)+
  have fit': "\<forall>e\<in>set ls. component_fits ld s' us (fst e)" using fit component_fits_same [OF sd] cs by (metis (no_types) image_eqI list.set_map)
  have apart': "regions_ok (concat (map (private_regions us \<circ> fst) ls))" using apart cs by (simp flip: map_map)
  have gr: "grants_exactly ld us s' (roots ! i) (cs ! i) (snd (rs ! i))" if i: "i < length cs" for i
    using e [OF i] entry_grants [OF ledger_entry [OF l] inv] nth_mem [of i ls] i ln by metis
  have w: "user_writes s' (roots ! i) v \<longleftrightarrow> writes_of us (ls ! i) v" if "i < length cs" "unat v < 2 ^ 39" for i v
    using gr [OF that(1)] e [OF that(1)] that(2) by (auto simp: grants_exactly_def writes_of_def)
  have two: False if "user_writes s' (roots ! i) v" "user_writes s' (roots ! j) v" "i < j" "j < length cs" "unat v < 2 ^ 39" for i j v
    using ledger_disjoint [OF l inv fit' apart' that(3), of v] that w [of i v] w [of j v] ln by simp
  have tab: "page v \<noteq> t" if "user_writes s' (roots ! i) v" "i < length cs" "j < length cs" "unat v < 2 ^ 39" "table_page (tables s') (roots ! j) lv t"
    for i j v lv t
    using ledger_tables_safe [OF l inv fit'] e [OF that(2)] e [OF that(3)] nth_mem [of i ls] nth_mem [of j ls] w that ln by metis
  have "map fst rs = map make_satp roots"
    by (rule nth_equalityI) (use e ln len in \<open>auto simp: roots_def\<close>)
  then show ?thesis using run len old gr two tab ln by (intro exI [of _ s'] exI [of _ rs] exI [of _ roots]) (auto simp: roots_def; metis linorder_neqE_nat)
qed

section \<open>A small system\<close>

definition two_stacks :: "string \<Rightarrow> usize" where
  "two_stacks n = (if n = ''blk'' then 0x8020A000 else 0x80208000)"

definition two_components :: "component list" where
  "two_components = [(''healer'', Plain (0, 0)), (''blk'', Virtio 0x10001000)]"

lemma two_fit:
  assumes "uart_mmio_base s = 0x10000000" "plic_mmio_base s = 0" "frame_addr (frames s) 0 = 0x80300000"
    "frame_addr (frames s) (a_count (frames s)) = 0x80400000"
  shows "\<forall>c\<in>set two_components. component_fits small_layout s two_stacks c"
    "regions_ok (concat (map (private_regions two_stacks) two_components))"
    "sum_list (map (component_cost small_layout (uart_mmio_base s) (plic_mmio_base s) two_stacks) two_components) \<le> 40"
  using assms
  by (simp_all add: two_components_def two_stacks_def component_fits_def static_regions_def ram_region_def stack_region_def device_region_def
      private_regions_def component_cost_def small_layout_def kernel_regions_def image_regions_def uart_regions_def plic_regions_def
      USER_STACK_SIZE_def page_aligned_def PAGE_SIZE_def table_frames_def range_cost_def pte_leaf_bit bit_simps flag_bits flags_ok_def)
    (simp_all add: pte_bits)

theorem components_isolated_witness:
  "\<exists>s s' rs r0 r1. build_components small_layout two_stacks s two_components = Inr (s', rs) \<and> map fst rs = [make_satp r0, make_satp r1] \<and>
     user_writes s' r0 0x80208000 \<and> \<not> user_writes s' r1 0x80208000 \<and> user_writes s' r1 0x10001040 \<and> \<not> user_reads s' r0 0x10001040"
proof -
  obtain a where a: "vm_ok \<lparr>frames = a, tables = (\<lambda>_ _. 0), uart_mmio_base = 0x10000000, plic_mmio_base = 0, kernel_satp = 0\<rparr>"
    (is "vm_ok ?s") "free_frames a = 256" "frame_addr a 0 = 0x80300000" "frame_addr a (a_count a) = 0x80400000"
    by (rule fresh_vm [of "0x10000000" 0]) blast
  have f: "\<forall>c\<in>set two_components. component_fits small_layout ?s two_stacks c"
    "regions_ok (concat (map (private_regions two_stacks) two_components))"
    "sum_list (map (component_cost small_layout (uart_mmio_base ?s) (plic_mmio_base ?s) two_stacks) two_components) \<le> free_frames (frames ?s)"
    using two_fit [of ?s] a(2-4) by simp_all
  have n: "length two_components = 2" by (simp add: two_components_def)
  obtain s' rs roots where r: "build_components small_layout two_stacks ?s two_components = Inr (s', rs)"
    "length roots = 2" "map fst rs = map make_satp roots"
    "\<forall>i<2. grants_exactly small_layout two_stacks s' (roots ! i) (two_components ! i) (snd (rs ! i))"
    "\<forall>i<2. \<forall>v. unat v < 2 ^ 39 \<longrightarrow> user_writes s' (roots ! i) v \<longrightarrow>
       (\<forall>j<2. (i \<noteq> j \<longrightarrow> \<not> user_writes s' (roots ! j) v) \<and> (\<forall>l t. table_page (tables s') (roots ! j) l t \<longrightarrow> page v \<noteq> t))"
    using components_isolated [OF a(1) f] unfolding n by (elim exE conjE) (rule that)
  obtain r0 r1 where rt: "roots = [r0, r1]" using r(2) by (auto simp: numeral_2_eq_2 length_Suc_conv)
  have g: "grants_exactly small_layout two_stacks s' r0 (''healer'', Plain (0, 0)) (snd (rs ! 0))"
    "grants_exactly small_layout two_stacks s' r1 (''blk'', Virtio 0x10001000) (snd (rs ! 1))"
    using r(4) [rule_format, of 0] r(4) [rule_format, of 1] by (simp_all add: rt two_components_def)
  have "user_writes s' r0 0x80208000" "user_writes s' r1 0x10001040" "\<not> user_reads s' r0 0x10001040"
    using g unfolding grants_exactly_def
    by (simp_all add: private_regions_def stack_region_def device_region_def two_stacks_def USER_STACK_SIZE_def small_layout_def)
  moreover have "\<not> user_writes s' r1 0x80208000" using r(5) [rule_format, of 0 "0x80208000" 1] calculation(1) rt by simp
  moreover have "map fst rs = [make_satp r0, make_satp r1]" using r(3) rt by simp
  ultimately show ?thesis using r(1) by (intro exI conjI)
qed

end
