(* ===== verification/Self_Test.thy ===== *)
theory Self_Test
  imports Paging Kernel_Safety Demo
begin

unbundle bit_operations_syntax

text \<open>
  The two checks \<^verbatim>\<open>kmain\<close> runs once paging is on (\<^verbatim>\<open>wx_probe\<close> and \<^verbatim>\<open>frame_roundtrip\<close> in \<^verbatim>\<open>src/kernel/src/main.rs\<close>).
  The frame a check writes is one of the allocator's, and its doublewords are the entries of \<open>tables\<close>; whether the
  probe's store is blocked is what the active page tables say of \<^verbatim>\<open>.rodata\<close>.
\<close>

section \<open>The allocator check\<close>

definition PROBE_WORD :: u64 where "PROBE_WORD = 0x600DF00D"

definition frame_roundtrip :: "vm \<Rightarrow> vm result" where
  "frame_roundtrip s =
     bindr (alloc_zeroed s) (\<lambda>(s, f).
     bindr (expectr f (ExpectFailed ''frame alloc failed'')) (\<lambda>first.
     bindr (assertr (tables s first 0 = 0) (AssertFailed ''frame not zeroed on alloc'')) (\<lambda>_.
     let s = s\<lparr>tables := (tables s)(first := (tables s first)(0 := PROBE_WORD))\<rparr>
     in bindr (assertr (tables s first 0 = PROBE_WORD) (AssertFailed ''frame not writable'')) (\<lambda>_.
        bindr (free_frame (frames s) first) (\<lambda>a.
        bindr (alloc_zeroed (s\<lparr>frames := a\<rparr>)) (\<lambda>(s, f).
        bindr (expectr f (ExpectFailed ''frame re-alloc failed'')) (\<lambda>second.
        bindr (assertr (first = second) (AssertFailed ''first-fit should recycle the freed frame'')) (\<lambda>_.
        bindr (assertr (tables s first 0 = 0) (AssertFailed ''recycled frame not re-zeroed'')) (\<lambda>_.
        bindr (free_frame (frames s) second) (\<lambda>a. Inr (s\<lparr>frames := a\<rparr>)))))))))))"

lemma alloc_first:
  assumes "alloc_inv a" "i < a_count a" "\<not> taken a i" "\<forall>j<i. taken a j"
  shows "\<exists>a'. alloc a = Inr (a', Some (frame_addr a i)) \<and> (\<forall>j. taken a' j \<longleftrightarrow> j = i \<or> taken a j) \<and> alloc_inv a' \<and>
    a_base a' = a_base a \<and> a_count a' = a_count a"
proof -
  from alloc_cases [OF assms(1)] assms(2,3) obtain k a' where k: "alloc a = Inr (a', Some (frame_addr a k))" "k < a_count a" "\<not> taken a k"
      "\<forall>j<k. taken a j" "\<forall>j. taken a' j \<longleftrightarrow> j = k \<or> taken a j" "alloc_inv a'" "a_base a' = a_base a" "a_count a' = a_count a" by blast
  have "k = i" using k(3,4) assms(3,4) by (metis linorder_neqE_nat)
  then show ?thesis using k by blast
qed

lemma frame_roundtrip_ok:
  assumes ok: "vm_ok s" and free: "0 < free_frames (frames s)"
  shows "\<exists>s'. frame_roundtrip s = Inr s' \<and> vm_ok s' \<and> same_devices s s' \<and> used (frames s') = used (frames s) \<and>
    free_frames (frames s') = free_frames (frames s) \<and> kernel_satp s' = kernel_satp s \<and> (\<forall>x\<in>used (frames s). tables s' x = tables s x)"
proof -
  let ?a = "frames s"
  have inv: "alloc_inv ?a" using ok by (simp add: vm_ok_def)
  have "\<exists>i<a_count ?a. \<not> taken ?a i" using inv free by (auto simp: alloc_inv_def free_frames_def card_gt_0_iff)
  then obtain i where i: "i < a_count ?a" "\<not> taken ?a i" "\<forall>j<i. taken ?a j"
    using alloc_cases [OF inv] by blast
  obtain a1 where a1: "alloc ?a = Inr (a1, Some (frame_addr ?a i))" "\<forall>j. taken a1 j \<longleftrightarrow> j = i \<or> taken ?a j" "alloc_inv a1"
      "a_base a1 = a_base ?a" "a_count a1 = a_count ?a" using alloc_first [OF inv i] by blast
  have fa: "frame_addr a1 i = frame_addr ?a i" using a1(4) by (simp add: frame_addr_def)
  obtain a2 where a2: "free_frame a1 (frame_addr ?a i) = Inr a2" "alloc_inv a2" "\<forall>j. taken a2 j \<longleftrightarrow> j \<noteq> i \<and> taken a1 j"
      "a_base a2 = a_base ?a" "a_count a2 = a_count ?a"
    using free_frame_ok [OF a1(3), of i] i(1) a1 fa by auto
  obtain a3 where a3: "alloc a2 = Inr (a3, Some (frame_addr a2 i))" "\<forall>j. taken a3 j \<longleftrightarrow> j = i \<or> taken a2 j" "alloc_inv a3"
      "a_base a3 = a_base ?a" "a_count a3 = a_count ?a"
    using alloc_first [OF a2(2), of i] i a1(2) a2(3-5) by (metis less_irrefl)
  have fb: "frame_addr a2 i = frame_addr ?a i" "frame_addr a3 i = frame_addr ?a i" using a2(4) a3(4) by (simp_all add: frame_addr_def)
  obtain a4 where a4: "free_frame a3 (frame_addr ?a i) = Inr a4" "alloc_inv a4" "\<forall>j. taken a4 j \<longleftrightarrow> j \<noteq> i \<and> taken a3 j"
      "a_base a4 = a_base ?a" "a_count a4 = a_count ?a"
    using free_frame_ok [OF a3(3), of i] i(1) a3 fb by auto
  have tk: "taken a4 = taken ?a" using a4(3) a3(2) a2(3) a1(2) i(2) by (intro ext) auto
  then have us: "used a4 = used ?a" using a4(4,5) by (simp add: used_def frame_addr_def)
  have fr: "free_frames a4 = free_frames ?a" using a4(2,5) inv tk by (simp add: alloc_inv_def free_frames_def)
  have new: "frame_addr ?a i \<notin> used ?a" using i(2) used_iff [OF inv i(1)] by simp
  have vm: "(a_base a4 + a_count a4) * FRAME_SIZE \<le> 2 ^ 56" using ok a4(4,5) by (simp add: vm_ok_def)
  show ?thesis
    using a1(1) a2(1) a3(1) a4(1,2,4,5) fb us fr new vm
    by (simp add: frame_roundtrip_def alloc_zeroed_def expectr_def assertr_def Let_def vm_ok_def same_devices_def)
qed

section \<open>The W\<open>^\<close>X check\<close>

definition RODATA_PROBE :: u64 where "RODATA_PROBE = 0x600DC0DE"

definition expect_wx_fault :: "'r kernel \<Rightarrow> 'r kernel" where
  "expect_wx_fault k = k\<lparr>k_expecting_wx := True\<rparr>"

definition wx_fault_pending :: "'r kernel \<Rightarrow> bool" where
  "wx_fault_pending k = k_expecting_wx k"

text \<open>The probe's store goes to \<open>addr\<close> under the page tables at \<open>root\<close>: it faults unless the leaf entry there is writable, and
  \<open>f\<close> is the frame of that fault. A store that goes through overwrites the probe with zero.\<close>

definition kernel_writes :: "vm \<Rightarrow> usize \<Rightarrow> usize \<Rightarrow> bool" where
  "kernel_writes s root v = leaf_has s root PTE_W v"

definition wx_probe :: "'r kenv \<Rightarrow> vm \<Rightarrow> usize \<Rightarrow> usize \<Rightarrow> trap_frame \<Rightarrow> 'r kernel \<Rightarrow> 'r kernel result" where
  "wx_probe e s root addr f k =
     bindr (if kernel_writes s root addr then Inr (expect_wx_fault k) else trap_handler e 0 (expect_wx_fault k) f) (\<lambda>k.
     bindr (assertr (\<not> wx_fault_pending k) (AssertFailed ''W^X broken: rodata write did not fault'')) (\<lambda>_.
     let probe = (if kernel_writes s root addr then 0 else RODATA_PROBE)
     in bindr (assertr (probe = 0x600DC0DE) (AssertFailed ''W^X broken: rodata was modified'')) (\<lambda>_. Inr k)))"

lemma wx_probe_writable:
  "kernel_writes s root addr \<Longrightarrow> wx_probe e s root addr f k = Inl (AssertFailed ''W^X broken: rodata write did not fault'')"
  by (simp add: wx_probe_def expect_wx_fault_def wx_fault_pending_def assertr_def)

lemma wx_probe_blocked:
  assumes "decode (scause f) = StorePageFault" "\<not> from_user f" "e_parcel e (sepc f) = Some parcel" "unat (sepc f) + 4 < 2 ^ 64"
    and "\<not> kernel_writes s root addr"
  shows "\<exists>k'. wx_probe e s root addr f k = Inr k' \<and> \<not> k_expecting_wx k' \<and> sepc (frame k') = sepc f + instruction_len parcel"
proof -
  have "unat (sepc f) + unat (instruction_len parcel) < 2 ^ 64" using assms(4) by (simp add: instruction_len_def)
  then show ?thesis
    using assms(1-3,5) by (simp add: wx_probe_def trap_handler_def Let_def expect_wx_fault_def wx_fault_pending_def skip_instruction_def
        advance_def add_chk_def frame_def put_frame_def assertr_def RODATA_PROBE_def)
qed

lemma no_write_word: "(PTE_R OR PTE_G) AND PTE_W \<noteq> PTE_W"
  by (simp add: PTE_R_def PTE_G_def PTE_W_def)

text \<open>The boot checks pass over the memory the kernel has just set up. Whenever initialisation succeeds on valid regions with
  one frame to spare beyond the page tables, a store to any address of \<^verbatim>\<open>.rodata\<close> is blocked, so the write probe there takes its
  fault, resumes behind the store with the probe disarmed and returns; over tables that let the store through the same
  probe stops the boot with its message. The allocator check then passes, every assertion of it included, and leaves the set
  of used frames as it was.\<close>
theorem boot_checks_pass:
  assumes mem: "frames s = allocator_new" "kernel_end ld < ram_end" "unat ram_end - unat (kernel_end ld) \<le> MAX_FRAMES * FRAME_SIZE"
      "regions_ok (kernel_space_regions ld ram_end uart plic)"
      "2 + table_frames (kernel_space_regions ld ram_end uart plic) \<le> (unat ram_end - unat (kernel_end ld)) div FRAME_SIZE"
    and addr: "rodata_start ld \<le> addr" "addr < rodata_end ld"
    and trap: "decode (scause f) = StorePageFault" "\<not> from_user f" "e_parcel e (sepc f) = Some parcel" "unat (sepc f) + 4 < 2 ^ 64"
  shows "\<exists>s' root. mem_init ld s ram_end uart plic = Inr s' \<and> kernel_satp s' = make_satp root \<and>
    (\<exists>k'. wx_probe e s' root addr f k = Inr k' \<and> \<not> k_expecting_wx k' \<and> sepc (frame k') = sepc f + instruction_len parcel) \<and>
    (\<forall>v. kernel_writes s' root v \<longrightarrow> wx_probe e s' root v f k = Inl (AssertFailed ''W^X broken: rodata write did not fault'')) \<and>
    (\<exists>s''. frame_roundtrip s' = Inr s'' \<and> used (frames s'') = used (frames s'))"
proof -
  let ?rs = "kernel_space_regions ld ram_end uart plic"
  have "1 + table_frames ?rs \<le> (unat ram_end - unat (kernel_end ld)) div FRAME_SIZE" using mem(5) by simp
  then obtain s' root where run: "mem_init ld s ram_end uart plic = Inr s'" "kernel_satp s' = make_satp root"
    and bt: "built s' root ?rs" and ok: "vm_ok s'"
    and n: "(unat ram_end - unat (kernel_end ld)) div FRAME_SIZE \<le> free_frames (frames s') + (1 + table_frames ?rs)"
    by (rule kernel_space_exec [OF mem(1-4)])
  have free: "0 < free_frames (frames s')" using mem(5) n by linarith
  have ro: "(rodata_start ld, rodata_end ld, PTE_R OR PTE_G) \<in> set ?rs"
    by (simp add: kernel_space_regions_def kernel_regions_def image_regions_def)
  have small: "unat addr < 2 ^ 39" using regions_ok_mem [OF mem(4) ro] addr(2) by (simp add: word_le_nat_alt word_less_nat_alt)
  have "region_flags ?rs addr = Some (PTE_R OR PTE_G)" using region_flags_unique [OF mem(4) ro, of addr] addr by simp
  then have nw: "\<not> kernel_writes s' root addr"
    using leaf_has_built [OF bt small, of PTE_W] no_write_word unfolding kernel_writes_def by (simp add: flag_bits)
  show ?thesis
    using run wx_probe_blocked [OF trap nw, of k] wx_probe_writable [of s' root] frame_roundtrip_ok [OF ok free]
    by (intro exI [of _ s'] exI [of _ root]) (simp, blast)
qed


theorem boot_checks_pass_witness:
  "\<exists>s' root k'. mem_init small_layout \<lparr>frames = allocator_new, tables = (\<lambda>_ _. 0), uart_mmio_base = 0, plic_mmio_base = 0, kernel_satp = 0\<rparr>
       0x80400000 0x10000000 0 = Inr s' \<and>
     wx_probe demo_env s' root 0x80201010 (blank_frame\<lparr>sepc := 0x1000, scause := 15, sstatus := 0x100\<rparr>) demo_kernel = Inr k' \<and>
     sepc (frame k') = 0x1002"
proof -
  let ?s = "\<lparr>frames = allocator_new, tables = (\<lambda>_ _. 0), uart_mmio_base = 0, plic_mmio_base = 0, kernel_satp = 0\<rparr> :: vm"
  let ?f = "blank_frame\<lparr>sepc := 0x1000, scause := 15, sstatus := 0x100\<rparr>"
  have m: "frames ?s = allocator_new" "kernel_end small_layout < 0x80400000"
    "unat (0x80400000 :: usize) - unat (kernel_end small_layout) \<le> MAX_FRAMES * FRAME_SIZE"
    "regions_ok (kernel_space_regions small_layout 0x80400000 0x10000000 0)"
    "2 + table_frames (kernel_space_regions small_layout 0x80400000 0x10000000 0)
       \<le> (unat (0x80400000 :: usize) - unat (kernel_end small_layout)) div FRAME_SIZE"
    by (simp_all add: kernel_space_regions_def small_layout_def kernel_regions_def image_regions_def uart_regions_def plic_regions_def
      page_aligned_def PAGE_SIZE_def FRAME_SIZE_def MAX_FRAMES_def table_frames_def range_cost_def pte_leaf_bit bit_simps flag_bits flags_ok_def)
      (simp_all add: pte_bits)
  have r: "rodata_start small_layout \<le> 0x80201010" "0x80201010 < rodata_end small_layout" by (simp_all add: small_layout_def)
  have t: "decode (scause ?f) = StorePageFault" "\<not> from_user ?f" "e_parcel demo_env (sepc ?f) = Some 0x9002" "unat (sepc ?f) + 4 < 2 ^ 64"
    by (simp_all add: decode_def INTERRUPT_BIT_def from_user_def demo_env_def)
  show ?thesis
    using boot_checks_pass [OF m r t, of demo_kernel] by (auto simp: instruction_len_def)
qed

end
