(* ===== verification/Hart.thy ===== *)
theory Hart
  imports Task
begin

unbundle bit_operations_syntax

text \<open>
  The assembly of the kernel, on a hart that executes the few RISC-V instructions it uses: the trap
  entry and exit (\<^verbatim>\<open>__trap_entry\<close> in \<^verbatim>\<open>src/arch/riscv64/src/trap.rs\<close>), the context switch and the
  two trampolines (\<^verbatim>\<open>src/arch/riscv64/src/sched.rs\<close>), and the boot entry
  (\<^verbatim>\<open>src/kernel/src/boot.rs\<close>). The CSR accessors of \<^verbatim>\<open>src/arch/riscv64/src/csr.rs\<close> act on the same hart.

  Memory is read and written in aligned doublewords, at the doubleword's address; a misaligned
  access stops the run with \<open>Faulted\<close>. A run stops where control leaves the code: at a call (with the
  index at which the code goes on when the callee returns), at \<^verbatim>\<open>ret\<close>, at \<^verbatim>\<open>jalr\<close> or at \<^verbatim>\<open>sret\<close>.
  Numeric labels are indices into the code, and fuel bounds the instructions executed: the code has no
  loop but the clearing of \<^verbatim>\<open>.bss\<close>, whose bound is stated with it.
\<close>

section \<open>The hart\<close>

datatype csr = Sepc | Sstatus | Scause | Stval | Sscratch | Stvec | Satp | Sie | Time

record hart =
  hx :: "nat \<Rightarrow> usize"
  hcsr :: "csr \<Rightarrow> usize"
  hmem :: "usize \<Rightarrow> usize"

definition get_x :: "hart \<Rightarrow> nat \<Rightarrow> usize" where
  "get_x h r = (if r = 0 then 0 else hx h r)"

definition set_x :: "hart \<Rightarrow> nat \<Rightarrow> usize \<Rightarrow> hart" where
  "set_x h r v = (if r = 0 then h else h\<lparr>hx := (hx h)(r := v)\<rparr>)"

definition set_csr :: "hart \<Rightarrow> csr \<Rightarrow> usize \<Rightarrow> hart" where
  "set_csr h c v = h\<lparr>hcsr := (hcsr h)(c := v)\<rparr>"

definition set_mem :: "hart \<Rightarrow> usize \<Rightarrow> usize \<Rightarrow> hart" where
  "set_mem h a v = h\<lparr>hmem := (hmem h)(a := v)\<rparr>"

definition aligned8 :: "usize \<Rightarrow> bool" where
  "aligned8 a \<longleftrightarrow> a AND 7 = 0"

datatype insn =
    SD nat usize nat
  | LD nat usize nat
  | ADDI nat nat usize
  | ANDI nat nat usize
  | MV nat nat
  | LA nat usize
  | CSRRW nat csr nat
  | CSRR nat csr
  | CSRW csr nat
  | CSRSI csr usize
  | BNEZ nat nat
  | BGEU nat nat nat
  | J nat
  | CALL string
  | JALR nat
  | RET
  | SRET

datatype stop =
    Called string nat hart
  | Jumped usize nat hart
  | Returned usize hart
  | Srets hart
  | Faulted
  | FellOff
  | NoFuel

text \<open>The instructions that only compute; \<open>None\<close> is a misaligned access.\<close>

fun exec1 :: "insn \<Rightarrow> hart \<Rightarrow> hart option" where
  "exec1 (SD rs off b) h = (let a = get_x h b + off in if aligned8 a then Some (set_mem h a (get_x h rs)) else None)"
| "exec1 (LD rd off b) h = (let a = get_x h b + off in if aligned8 a then Some (set_x h rd (hmem h a)) else None)"
| "exec1 (ADDI rd rs imm) h = Some (set_x h rd (get_x h rs + imm))"
| "exec1 (ANDI rd rs imm) h = Some (set_x h rd (get_x h rs AND imm))"
| "exec1 (MV rd rs) h = Some (set_x h rd (get_x h rs))"
| "exec1 (LA rd a) h = Some (set_x h rd a)"
| "exec1 (CSRRW rd c rs) h = Some (set_x (set_csr h c (get_x h rs)) rd (hcsr h c))"
| "exec1 (CSRR rd c) h = Some (set_x h rd (hcsr h c))"
| "exec1 (CSRW c rs) h = Some (set_csr h c (get_x h rs))"
| "exec1 (CSRSI c imm) h = Some (set_csr h c (hcsr h c OR imm))"
| "exec1 _ h = None"

fun run :: "nat \<Rightarrow> insn list \<Rightarrow> nat \<Rightarrow> hart \<Rightarrow> stop" where
  "run 0 code pc h = NoFuel"
| "run (Suc n) code pc h =
     (if length code \<le> pc then FellOff
      else case code ! pc of
             BNEZ r t \<Rightarrow> run n code (if get_x h r \<noteq> 0 then t else Suc pc) h
           | BGEU r q t \<Rightarrow> run n code (if get_x h q \<le> get_x h r then t else Suc pc) h
           | J t \<Rightarrow> run n code t h
           | CALL f \<Rightarrow> Called f (Suc pc) h
           | JALR r \<Rightarrow> Jumped (get_x h r) (Suc pc) h
           | RET \<Rightarrow> Returned (get_x h 1) h
           | SRET \<Rightarrow> Srets h
           | i \<Rightarrow> (case exec1 i h of None \<Rightarrow> Faulted | Some h' \<Rightarrow> run n code (Suc pc) h'))"

section \<open>The assembly\<close>

text \<open>
  Registers by number: \<open>x1\<close> is \<^verbatim>\<open>ra\<close>, \<open>x2\<close> \<^verbatim>\<open>sp\<close>, \<open>x5\<close> and \<open>x6\<close> \<^verbatim>\<open>t0\<close> and \<^verbatim>\<open>t1\<close>, \<open>x8\<close> and \<open>x9\<close> \<^verbatim>\<open>s0\<close>
  and \<^verbatim>\<open>s1\<close>, \<open>x10\<close> to \<open>x12\<close> \<^verbatim>\<open>a0\<close> to \<^verbatim>\<open>a2\<close>, \<open>x18\<close> to \<open>x27\<close> \<^verbatim>\<open>s2\<close> to \<^verbatim>\<open>s11\<close>. In the trap entry, label 1 is
  index 7, label 2 index 11 and label 3 index 59.
\<close>

definition trap_entry :: "insn list" where
  "trap_entry =
    [CSRRW 2 Sscratch 2, BNEZ 2 7,
     CSRRW 2 Sscratch 2, ADDI 2 2 (-288), SD 5 32 2, ADDI 5 2 288, J 11,
     ADDI 2 2 (-288), SD 5 32 2, CSRR 5 Sscratch, CSRW Sscratch 0,
     SD 5 8 2, SD 1 0 2, SD 3 16 2, SD 4 24 2, SD 6 40 2, SD 7 48 2, SD 8 56 2, SD 9 64 2, SD 10 72 2,
     SD 11 80 2, SD 12 88 2, SD 13 96 2, SD 14 104 2, SD 15 112 2, SD 16 120 2, SD 17 128 2, SD 18 136 2,
     SD 19 144 2, SD 20 152 2, SD 21 160 2, SD 22 168 2, SD 23 176 2, SD 24 184 2, SD 25 192 2, SD 26 200 2,
     SD 27 208 2, SD 28 216 2, SD 29 224 2, SD 30 232 2, SD 31 240 2,
     CSRR 5 Sepc, SD 5 248 2, CSRR 5 Sstatus, SD 5 256 2, CSRR 5 Scause, SD 5 264 2, CSRR 5 Stval, SD 5 272 2,
     MV 10 2, CALL ''trap_handler'',
     LD 5 248 2, CSRW Sepc 5, LD 5 256 2, CSRW Sstatus 5, ANDI 6 5 256, BNEZ 6 59, ADDI 6 2 288, CSRW Sscratch 6,
     LD 1 0 2, LD 3 16 2, LD 4 24 2, LD 5 32 2, LD 6 40 2, LD 7 48 2, LD 8 56 2, LD 9 64 2, LD 10 72 2,
     LD 11 80 2, LD 12 88 2, LD 13 96 2, LD 14 104 2, LD 15 112 2, LD 16 120 2, LD 17 128 2, LD 18 136 2,
     LD 19 144 2, LD 20 152 2, LD 21 160 2, LD 22 168 2, LD 23 176 2, LD 24 184 2, LD 25 192 2, LD 26 200 2,
     LD 27 208 2, LD 28 216 2, LD 29 224 2, LD 30 232 2, LD 31 240 2, LD 2 8 2, SRET]"

definition switch_context :: "insn list" where
  "switch_context =
    [SD 1 0 10, SD 2 8 10, SD 8 16 10, SD 9 24 10, SD 18 32 10, SD 19 40 10, SD 20 48 10, SD 21 56 10,
     SD 22 64 10, SD 23 72 10, SD 24 80 10, SD 25 88 10, SD 26 96 10, SD 27 104 10,
     LD 1 0 11, LD 2 8 11, LD 8 16 11, LD 9 24 11, LD 18 32 11, LD 19 40 11, LD 20 48 11, LD 21 56 11,
     LD 22 64 11, LD 23 72 11, LD 24 80 11, LD 25 88 11, LD 26 96 11, LD 27 104 11, RET]"

definition task_trampoline :: "insn list" where
  "task_trampoline = [CSRSI Sstatus 2, JALR 8, CALL ''task_has_returned'']"

definition user_trampoline_asm :: "insn list" where
  "user_trampoline_asm =
    [CSRW Sscratch 2, CSRW Sepc 8, CSRW Sstatus 18, MV 2 9, MV 10 19, MV 11 20, MV 12 21, SRET]"

text \<open>The boot entry, for the addresses the linker script gives its three symbols.\<close>

definition start_asm :: "usize \<Rightarrow> usize \<Rightarrow> usize \<Rightarrow> insn list" where
  "start_asm stack_top bss_start bss_end =
    [LA 2 stack_top, LA 5 bss_start, LA 6 bss_end,
     BGEU 5 6 7, SD 0 0 5, ADDI 5 5 8, J 3,
     CALL ''kmain'']"

text \<open>What the saved structures hold in memory: a trap frame, a context, and the callee-saved registers.\<close>

definition frame_at :: "(usize \<Rightarrow> usize) \<Rightarrow> usize \<Rightarrow> trap_frame" where
  "frame_at m a = \<lparr>regs = map (\<lambda>i. m (a + 8 * word_of_nat i)) [0..<31], sepc = m (a + 248), sstatus = m (a + 256),
     scause = m (a + 264), stval = m (a + 272)\<rparr>"

definition ctxt_at :: "(usize \<Rightarrow> usize) \<Rightarrow> usize \<Rightarrow> ctxt" where
  "ctxt_at m a = \<lparr>ra = m a, sp = m (a + 8), sregs = map (\<lambda>i. m (a + 16 + 8 * word_of_nat i)) [0..<12]\<rparr>"

definition callee_saved :: "hart \<Rightarrow> ctxt" where
  "callee_saved h = \<lparr>ra = get_x h 1, sp = get_x h 2, sregs = map (get_x h) [8, 9, 18, 19, 20, 21, 22, 23, 24, 25, 26, 27]\<rparr>"

section \<open>CSR accessors\<close>

definition time :: "hart \<Rightarrow> usize" where
  "time h = hcsr h Time"

definition stvec_write :: "usize \<Rightarrow> hart \<Rightarrow> hart" where
  "stvec_write addr h = set_csr h Stvec addr"

definition sie_enable_timer :: "hart \<Rightarrow> hart" where
  "sie_enable_timer h = set_csr h Sie (hcsr h Sie OR push_bit 5 1)"

definition sie_enable_external :: "hart \<Rightarrow> hart" where
  "sie_enable_external h = set_csr h Sie (hcsr h Sie OR push_bit 9 1)"

definition sstatus_enable_interrupts :: "hart \<Rightarrow> hart" where
  "sstatus_enable_interrupts h = set_csr h Sstatus (hcsr h Sstatus OR 2)"

definition satp_write :: "usize \<Rightarrow> hart \<Rightarrow> hart" where
  "satp_write v h = set_csr h Satp v"

definition sstatus_disable_interrupts :: "hart \<Rightarrow> hart \<times> bool" where
  "sstatus_disable_interrupts h =
     (let prev = hcsr h Sstatus in (set_csr h Sstatus (prev AND NOT 2), prev AND 2 \<noteq> 0))"

definition sstatus_read :: "hart \<Rightarrow> usize" where
  "sstatus_read h = hcsr h Sstatus"

definition sscratch_write :: "usize \<Rightarrow> hart \<Rightarrow> hart" where
  "sscratch_write v h = set_csr h Sscratch v"

definition sstatus_set_sum :: "hart \<Rightarrow> hart" where
  "sstatus_set_sum h = set_csr h Sstatus (hcsr h Sstatus OR push_bit 18 1)"

definition sstatus_clear_sum :: "hart \<Rightarrow> hart" where
  "sstatus_clear_sum h = set_csr h Sstatus (hcsr h Sstatus AND NOT (push_bit 18 1))"

text \<open>\<^verbatim>\<open>trap::init\<close>, for the address of the trap entry.\<close>

definition trap_init :: "usize \<Rightarrow> hart \<Rightarrow> hart" where
  "trap_init trap_entry_addr h = sscratch_write 0 (stvec_write trap_entry_addr h)"

section \<open>Straight-line code\<close>

lemma get_set_x [simp]: "get_x (set_x h r v) q = (if q = r \<and> r \<noteq> 0 then v else get_x h q)"
  by (simp add: get_x_def set_x_def)

lemma get_x_0 [simp]: "get_x h 0 = 0"
  by (simp add: get_x_def)

lemma hart_simps [simp]:
  "get_x (set_csr h c v) q = get_x h q" "get_x (set_mem h a v) q = get_x h q"
  "hcsr (set_csr h c v) = (hcsr h)(c := v)" "hcsr (set_x h r v) = hcsr h" "hcsr (set_mem h a v) = hcsr h"
  "hmem (set_mem h a v) = (hmem h)(a := v)" "hmem (set_x h r v) = hmem h" "hmem (set_csr h c v) = hmem h"
  by (simp_all add: get_x_def set_x_def set_csr_def set_mem_def)

fun exec :: "insn list \<Rightarrow> hart \<Rightarrow> hart option" where
  "exec [] h = Some h"
| "exec (i # is) h = (case exec1 i h of None \<Rightarrow> None | Some h' \<Rightarrow> exec is h')"

lemma exec_append: "exec (is @ js) h = (case exec is h of None \<Rightarrow> None | Some h' \<Rightarrow> exec js h')"
  by (induction "is" arbitrary: h) (auto split: option.splits)

lemma run_exec1: "pc < length code \<Longrightarrow> exec1 (code ! pc) h = Some h' \<Longrightarrow> run (Suc n) code pc h = run n code (Suc pc) h'"
  by (cases "code ! pc") auto

lemma run_exec:
  assumes "exec is h = Some h'" "take (length is) (drop pc code) = is"
  shows "run (length is + n) code pc h = run n code (pc + length is) h'"
  using assms
proof (induction "is" arbitrary: h pc)
  case (Cons i js)
  from Cons.prems(2) have pc: "pc < length code" by (cases "pc < length code") auto
  then have at: "drop pc code = code ! pc # drop (Suc pc) code" by (simp add: Cons_nth_drop_Suc)
  from Cons.prems at obtain h1 where h1: "exec1 (code ! pc) h = Some h1" "exec js h1 = Some h'"
    and tl: "take (length js) (drop (Suc pc) code) = js"
    by (auto split: option.splits)
  show ?case using run_exec1 [OF pc h1(1)] Cons.IH [OF h1(2) tl] by simp
qed simp

text \<open>A block of stores and a block of loads at a common base register.\<close>

definition saves :: "nat \<Rightarrow> (nat \<times> usize) list \<Rightarrow> insn list" where
  "saves b ros = map (\<lambda>(r, off). SD r off b) ros"

definition loads :: "nat \<Rightarrow> (nat \<times> usize) list \<Rightarrow> insn list" where
  "loads b ros = map (\<lambda>(r, off). LD r off b) ros"

lemma exec_saves:
  assumes "\<forall>(r, off)\<in>set ros. aligned8 (get_x h b + off)" "distinct (map snd ros)"
  shows "\<exists>h'. exec (saves b ros) h = Some h' \<and> hx h' = hx h \<and> hcsr h' = hcsr h \<and>
    (\<forall>(r, off)\<in>set ros. hmem h' (get_x h b + off) = get_x h r) \<and>
    (\<forall>a. a \<notin> (\<lambda>(r, off). get_x h b + off) ` set ros \<longrightarrow> hmem h' a = hmem h a)"
  using assms
proof (induction ros arbitrary: h)
  case (Cons x ros)
  obtain r off where x: "x = (r, off)" by (cases x)
  let ?a = "get_x h b + off" and ?h = "set_mem h (get_x h b + off) (get_x h r)"
  have g: "get_x ?h q = get_x h q" for q by simp
  obtain h' where h': "exec (saves b ros) ?h = Some h'" "hx h' = hx ?h" "hcsr h' = hcsr ?h"
    "\<forall>(r, off)\<in>set ros. hmem h' (get_x h b + off) = get_x h r"
    "\<forall>a. a \<notin> (\<lambda>(r, off). get_x h b + off) ` set ros \<longrightarrow> hmem h' a = hmem ?h a"
    using Cons.IH [of ?h] Cons.prems by (auto simp: x)
  have "?a \<notin> (\<lambda>(r, off). get_x h b + off) ` set ros" using Cons.prems(2) by (force simp: x)
  then have "hmem h' ?a = get_x h r" using h'(5) by simp
  then show ?case
    using h' Cons.prems(1) by (auto simp: x saves_def Let_def set_mem_def)
qed (simp add: saves_def)

lemma exec_loads:
  assumes "\<forall>(r, off)\<in>set ros. aligned8 (get_x h b + off) \<and> r \<noteq> b \<and> r \<noteq> 0" "distinct (map fst ros)"
  shows "\<exists>h'. exec (loads b ros) h = Some h' \<and> hmem h' = hmem h \<and> hcsr h' = hcsr h \<and>
    (\<forall>(r, off)\<in>set ros. get_x h' r = hmem h (get_x h b + off)) \<and>
    (\<forall>q. q \<notin> fst ` set ros \<longrightarrow> get_x h' q = get_x h q)"
  using assms
proof (induction ros arbitrary: h)
  case (Cons x ros)
  obtain r off where x: "x = (r, off)" by (cases x)
  let ?h = "set_x h r (hmem h (get_x h b + off))"
  have r: "r \<noteq> b" "r \<noteq> 0" "r \<notin> fst ` set ros" using Cons.prems by (auto simp: x)
  obtain h' where h': "exec (loads b ros) ?h = Some h'" "hmem h' = hmem h" "hcsr h' = hcsr h"
    "\<forall>(r, off)\<in>set ros. get_x h' r = hmem h (get_x h b + off)"
    "\<forall>q. q \<notin> fst ` set ros \<longrightarrow> get_x h' q = get_x ?h q"
    using Cons.IH [of ?h] Cons.prems r by (auto simp: x)
  then show ?case
    using r Cons.prems(1) by (auto simp: x loads_def Let_def)
qed (simp add: loads_def)

section \<open>Masking and the user-memory window\<close>

text \<open>The bracket of \<^verbatim>\<open>yield_now\<close>: interrupts are off inside and as before after it, for a body that leaves
  \<open>sstatus\<close> alone; and \<^verbatim>\<open>SUM\<close> is clear again after the copy of \<^verbatim>\<open>print\<close>, with no other bit changed.\<close>

lemma interrupts_bracket:
  assumes "sstatus_disable_interrupts h = (h1, had)" "hcsr h2 Sstatus = hcsr h1 Sstatus"
  shows "\<not> bit (hcsr h1 Sstatus) 1" "hcsr (if had then sstatus_enable_interrupts h2 else h2) Sstatus = hcsr h Sstatus"
proof -
  let ?s = "hcsr h Sstatus"
  have h1: "hcsr h1 Sstatus = ?s AND NOT (push_bit 1 1)" and had: "had = bit ?s 1"
    using assms(1) by (auto simp: sstatus_disable_interrupts_def Let_def bit_iff_and_push_bit_not_eq_0 push_bit_eq_mult)
  show "\<not> bit (hcsr h1 Sstatus) 1" unfolding h1 bit_mask_simps by simp
  show "hcsr (if had then sstatus_enable_interrupts h2 else h2) Sstatus = ?s"
  proof (rule bit_eqI)
    fix n assume "possible_bit TYPE(64 word) n"
    have two: "(2 :: usize) = push_bit 1 1" by (simp add: push_bit_eq_mult)
    show "bit (hcsr (if had then sstatus_enable_interrupts h2 else h2) Sstatus) n \<longleftrightarrow> bit ?s n"
      unfolding sstatus_enable_interrupts_def two
      by (auto simp: assms(2) h1 had bit_simps dest: bit_imp_le_length)
  qed
qed

lemma sum_window: "hcsr (sstatus_clear_sum (sstatus_set_sum h)) Sstatus = hcsr h Sstatus AND NOT (push_bit 18 1)"
  unfolding sstatus_clear_sum_def sstatus_set_sum_def
  by (rule bit_eqI) (auto simp: bit_simps)

end
