(* ===== verification/Shell.thy ===== *)
theory Shell
  imports Heal
begin

text \<open>
  The shell (\<^verbatim>\<open>src/arch/riscv64/src/shell.rs\<close>): the line discipline over a fixed buffer and the
  commands that query the self-healer. What a command prints is a list of \<open>reply\<close> values, one per
  line of output; echo and prompt are events of the byte loop.
\<close>

section \<open>The line discipline\<close>

definition LINE_CAP :: nat where "LINE_CAP = 64"

datatype line_event = NoEvent | Echo u8 | Backspace | Line

record line_buffer =
  lb_buf :: bytes
  lb_len :: nat

definition lb_new :: line_buffer where
  "lb_new = \<lparr>lb_buf = replicate LINE_CAP 0, lb_len = 0\<rparr>"

definition push :: "line_buffer \<Rightarrow> u8 \<Rightarrow> (line_buffer \<times> line_event) result" where
  "push lb byte =
     (if byte = 13 \<or> byte = 10 then Inr (lb, Line)
      else if byte = 0x08 \<or> byte = 0x7f then
        (if 0 < lb_len lb then Inr (lb\<lparr>lb_len := lb_len lb - 1\<rparr>, Backspace) else Inr (lb, NoEvent))
      else if 32 \<le> byte \<and> byte \<le> 126 then
        (if lb_len lb < LINE_CAP then
           bindr (set_at (lb_buf lb) (lb_len lb) byte) (\<lambda>b. Inr (lb\<lparr>lb_buf := b, lb_len := lb_len lb + 1\<rparr>, Echo byte))
         else Inr (lb, NoEvent))
      else Inr (lb, NoEvent))"

definition lb_take :: "line_buffer \<Rightarrow> (line_buffer \<times> rstr) result" where
  "lb_take lb =
     bindr (slice (lb_buf lb) 0 (lb_len lb)) (\<lambda>bs.
     Inr (lb\<lparr>lb_len := 0\<rparr>, case from_utf8 bs of Some s \<Rightarrow> s | None \<Rightarrow> []))"

section \<open>Commands\<close>

datatype reply =
    Help
  | Entry rstr u32 bool rstr
  | KbEmpty
  | LastDiagnosis rstr rstr
  | NoneYet
  | UnknownCommand rstr

function list_kb :: "heal \<Rightarrow> nat \<Rightarrow> reply list" where
  "list_kb h i =
     (case kb_entry h i of
        None \<Rightarrow> if i = 0 then [KbEmpty] else []
      | Some (eid, title, seen, escalated) \<Rightarrow> Entry eid seen escalated title # list_kb h (i + 1))"
  by auto
termination
  by (relation "measure (\<lambda>(h, i). length (kb_table h) - i)")
    (auto simp: kb_entry_def get_def split: option.splits if_splits)

declare list_kb.simps [simp del]

definition shell_dispatch :: "heal \<Rightarrow> rstr \<Rightarrow> reply list" where
  "shell_dispatch h cmd =
     (if cmd = [] then []
      else if cmd = lit ''help'' then [Help]
      else if cmd = lit ''kb'' then list_kb h 0
      else if cmd = lit ''diag'' then
        (case last_diagnosis h of Some (eid, playbook) \<Rightarrow> [LastDiagnosis eid playbook] | None \<Rightarrow> [NoneYet])
      else [UnknownCommand cmd])"

text \<open>One received byte of the shell's loop: echo, erase, or the command's output.\<close>

datatype shell_out = Typed u8 | Erased | Ran rstr "reply list"

definition feed :: "heal \<Rightarrow> line_buffer \<Rightarrow> u8 \<Rightarrow> (line_buffer \<times> shell_out list) result" where
  "feed h lb byte =
     bindr (push lb byte) (\<lambda>(lb, ev).
     case ev of
       Echo b \<Rightarrow> Inr (lb, [Typed b])
     | Backspace \<Rightarrow> Inr (lb, [Erased])
     | Line \<Rightarrow> bindr (lb_take lb) (\<lambda>(lb, cmd). Inr (lb, [Ran cmd (shell_dispatch h cmd)]))
     | NoEvent \<Rightarrow> Inr (lb, []))"

text \<open>The task's whole loop on the bytes the UART delivers. Other tasks run between two bytes, so each
  byte comes with the state of the self-healer at that moment.\<close>

fun feed_all :: "line_buffer \<Rightarrow> (heal \<times> u8) list \<Rightarrow> (line_buffer \<times> shell_out list) result" where
  "feed_all lb [] = Inr (lb, [])"
| "feed_all lb ((h, b) # bs) =
     bindr (feed h lb b) (\<lambda>(lb, evs). bindr (feed_all lb bs) (\<lambda>(lb, more). Inr (lb, evs @ more)))"

text \<open>The demonstration at boot: each command typed into a fresh buffer and run.\<close>

fun push_all :: "line_buffer \<Rightarrow> bytes \<Rightarrow> line_buffer result" where
  "push_all lb [] = Inr lb"
| "push_all lb (b # bs) = bindr (push lb b) (\<lambda>(lb, _). push_all lb bs)"

definition demo_one :: "heal \<Rightarrow> rstr \<Rightarrow> reply list result" where
  "demo_one h cmd =
     bindr (push_all lb_new cmd) (\<lambda>lb.
     bindr (push lb 13) (\<lambda>(lb, _).
     bindr (lb_take lb) (\<lambda>(_, line). Inr (shell_dispatch h line))))"

section \<open>An editor of lines\<close>

text \<open>The specification: a text, at most 64 printable characters long, edited by appending and
  deleting at its end.\<close>

definition printable :: "u8 \<Rightarrow> bool" where
  "printable b \<longleftrightarrow> 32 \<le> b \<and> b \<le> 126"

definition edit :: "bytes \<Rightarrow> u8 \<Rightarrow> bytes" where
  "edit t b = (if b = 0x08 \<or> b = 0x7f then butlast t else if printable b \<and> length t < 64 then t @ [b] else t)"

definition is_enter :: "u8 \<Rightarrow> bool" where
  "is_enter b \<longleftrightarrow> b = 13 \<or> b = 10"

definition lb_text :: "line_buffer \<Rightarrow> bytes" where
  "lb_text lb = take (lb_len lb) (lb_buf lb)"

definition lb_inv :: "line_buffer \<Rightarrow> bool" where
  "lb_inv lb \<longleftrightarrow> length (lb_buf lb) = 64 \<and> lb_len lb \<le> 64 \<and> list_all printable (lb_text lb)"

lemma lb_inv_new: "lb_inv lb_new" "lb_text lb_new = []"
  by (simp_all add: lb_inv_def lb_new_def lb_text_def LINE_CAP_def)

lemma lb_text_length: "lb_inv lb \<Longrightarrow> length (lb_text lb) = lb_len lb"
  by (simp add: lb_inv_def lb_text_def)

lemma printable_ascii: "list_all printable t \<Longrightarrow> ascii t"
proof
  fix b assume "list_all printable t" "b \<in> set t"
  then have "b \<le> 126" by (auto simp: list_all_iff printable_def)
  then show "b < 0x80" by (simp add: word_le_nat_alt word_less_nat_alt)
qed

lemma push_ok:
  assumes "lb_inv lb"
  shows "\<exists>lb' ev. push lb b = Inr (lb', ev) \<and> lb_inv lb' \<and> lb_text lb' = (if is_enter b then lb_text lb else edit (lb_text lb) b) \<and>
    (ev = Line \<longleftrightarrow> is_enter b) \<and> (\<forall>c. ev = Echo c \<longrightarrow> c = b)"
proof -
  note len = lb_text_length [OF assms]
  consider "is_enter b" | "\<not> is_enter b" "b = 0x08 \<or> b = 0x7f"
    | "\<not> is_enter b" "\<not> (b = 0x08 \<or> b = 0x7f)" by blast
  then show ?thesis
  proof cases
    case 1
    then show ?thesis using assms by (auto simp: push_def is_enter_def)
  next
    case 2
    have "lb_text (lb\<lparr>lb_len := lb_len lb - 1\<rparr>) = butlast (lb_text lb)"
      using assms by (simp add: lb_text_def lb_inv_def butlast_take)
    moreover from this have "lb_inv (lb\<lparr>lb_len := lb_len lb - 1\<rparr>)"
      using assms in_set_butlastD by (fastforce simp: lb_inv_def list_all_iff)
    moreover have "lb_len lb = 0 \<Longrightarrow> lb_text lb = []" using len by simp
    ultimately show ?thesis using 2 assms by (auto simp: push_def is_enter_def edit_def)
  next
    case 3
    show ?thesis
    proof (cases "printable b \<and> lb_len lb < 64")
      case True
      let ?lb = "lb\<lparr>lb_buf := (lb_buf lb)[lb_len lb := b], lb_len := lb_len lb + 1\<rparr>"
      have "lb_text ?lb = lb_text lb @ [b]" using assms True by (simp add: lb_text_def lb_inv_def take_Suc_conv_app_nth)
      moreover from this have "lb_inv ?lb" using assms True by (simp add: lb_inv_def)
      ultimately show ?thesis using 3 True assms len
        by (auto simp: push_def is_enter_def edit_def printable_def LINE_CAP_def set_at_def lb_inv_def)
    next
      case False
      then show ?thesis using 3 assms len by (auto simp: push_def is_enter_def edit_def printable_def LINE_CAP_def)
    qed
  qed
qed

text \<open>The lines of an input: what was typed before each Enter, with the state of the self-healer at that
  moment, and what is left in the editor.\<close>

fun session :: "bytes \<Rightarrow> (heal \<times> u8) list \<Rightarrow> (heal \<times> bytes) list \<times> bytes" where
  "session t [] = ([], t)"
| "session t ((h, b) # bs) =
     (if is_enter b then (case session [] bs of (ls, r) \<Rightarrow> ((h, t) # ls, r)) else session (edit t b) bs)"

definition commands :: "shell_out list \<Rightarrow> (rstr \<times> reply list) list" where
  "commands evs = concat (map (\<lambda>e. case e of Ran c r \<Rightarrow> [(c, r)] | _ \<Rightarrow> []) evs)"

lemma commands_append [simp]: "commands (a @ b) = commands a @ commands b"
  by (simp add: commands_def)

lemma feed_ok:
  assumes "lb_inv lb"
  shows "\<exists>lb' evs. feed h lb b = Inr (lb', evs) \<and> lb_inv lb' \<and>
    lb_text lb' = (if is_enter b then [] else edit (lb_text lb) b) \<and>
    commands evs = (if is_enter b then [(lb_text lb, shell_dispatch h (lb_text lb))] else [])"
proof -
  obtain lb1 ev where p: "push lb b = Inr (lb1, ev)" "lb_inv lb1" "lb_text lb1 = (if is_enter b then lb_text lb else edit (lb_text lb) b)"
    "ev = Line \<longleftrightarrow> is_enter b"
    using push_ok [OF assms, of b] by blast
  show ?thesis
  proof (cases "is_enter b")
    case True
    have "from_utf8 (lb_text lb1) = Some (lb_text lb1)"
      using p(2) by (intro from_utf8_ascii printable_ascii) (simp add: lb_inv_def)
    then have "lb_take lb1 = Inr (lb1\<lparr>lb_len := 0\<rparr>, lb_text lb1)"
      using p(2) by (simp add: lb_take_def slice_def lb_inv_def lb_text_def)
    moreover have "lb_inv (lb1\<lparr>lb_len := 0\<rparr>)" "lb_text (lb1\<lparr>lb_len := 0\<rparr>) = []" using p(2) by (simp_all add: lb_inv_def lb_text_def)
    ultimately show ?thesis using p True by (simp add: feed_def commands_def)
  next
    case False
    then show ?thesis using p by (cases ev) (auto simp: feed_def commands_def)
  qed
qed

text \<open>C27: The shell reads lines as an editor would. For every input the byte loop returns without a panic;
  the commands it runs, in order, are the lines of the input, each edited with backspaces and cut at
  64 characters, and each is answered by \<open>shell_dispatch\<close> in the state of the self-healer when its
  Enter arrives; what is typed after the last Enter stays in the buffer.\<close>
theorem shell_runs_typed_lines:
  "\<exists>lb evs. feed_all lb_new bs = Inr (lb, evs) \<and>
     commands evs = map (\<lambda>(h, l). (l, shell_dispatch h l)) (fst (session [] bs)) \<and> lb_text lb = snd (session [] bs)"
proof -
  have "\<exists>lb' evs. feed_all lb bs = Inr (lb', evs) \<and>
      commands evs = map (\<lambda>(h, l). (l, shell_dispatch h l)) (fst (session (lb_text lb) bs)) \<and>
      lb_text lb' = snd (session (lb_text lb) bs)" if "lb_inv lb" for lb
    using that
  proof (induction bs arbitrary: lb)
    case Nil
    then show ?case by (simp add: commands_def)
  next
    case (Cons hb bs)
    obtain h b where hb: "hb = (h, b)" by (cases hb)
    obtain lb1 evs where f: "feed h lb b = Inr (lb1, evs)" "lb_inv lb1" "lb_text lb1 = (if is_enter b then [] else edit (lb_text lb) b)"
      "commands evs = (if is_enter b then [(lb_text lb, shell_dispatch h (lb_text lb))] else [])"
      using feed_ok [OF Cons.prems, of h b] by blast
    then show ?case using Cons.IH [OF f(2)] by (auto simp: hb split: prod.split)
  qed
  from this [OF lb_inv_new(1)] show ?thesis using lb_inv_new(2) by simp
qed

end
