(* ===== verification/Console.thy ===== *)
theory Console
  imports Hart Shell
begin

unbundle bit_operations_syntax

text \<open>
  Text in and out: the ns16550 driver (\<^verbatim>\<open>src/arch/riscv64/src/uart.rs\<close>), the console with its two backends
  (\<^verbatim>\<open>src/arch/riscv64/src/console.rs\<close>), the timer heartbeat (\<^verbatim>\<open>src/arch/riscv64/src/timer.rs\<close>) and the shell's loop
  over the UART (\<^verbatim>\<open>shell_task\<close> in \<^verbatim>\<open>src/arch/riscv64/src/shell.rs\<close>).

  The UART is a parameter: what a read of a byte register answers and how reads and writes change it. The
  busy-wait on its line status register is a partial function: \<open>None\<close> is a wait that never ends. The firmware's
  side of an SBI call is what it is handed: the bytes of the firmware console and the last timer deadline.
\<close>

section \<open>The UART\<close>

record 'd serial =
  sr_read :: "'d \<Rightarrow> usize \<Rightarrow> 'd \<times> u8"
  sr_write :: "'d \<Rightarrow> usize \<Rightarrow> u8 \<Rightarrow> 'd"

definition LSR_THRE :: u8 where "LSR_THRE = 0x20"
definition LSR_DR :: u8 where "LSR_DR = 0x01"
definition IER_RDA :: u8 where "IER_RDA = 0x01"
definition FCR_RX_1BYTE :: u8 where "FCR_RX_1BYTE = 0x07"

text \<open>The address \<^verbatim>\<open>base + (k << reg_shift)\<close>: the shift amount and the sum are checked.\<close>

definition uart_reg :: "usize \<Rightarrow> usize \<Rightarrow> u32 \<Rightarrow> usize result" where
  "uart_reg base k reg_shift =
     (if unat reg_shift < 64 then add_chk base (push_bit (unat reg_shift) k) else Inl ArithOverflow)"

partial_function (option) uart_spin :: "'d serial \<Rightarrow> usize \<Rightarrow> 'd \<Rightarrow> 'd option" where
  "uart_spin V lsr d = (case sr_read V d lsr of (d1, v) \<Rightarrow> if v AND LSR_THRE = 0 then uart_spin V lsr d1 else Some d1)"

definition uart_put :: "'d serial \<Rightarrow> usize \<Rightarrow> u32 \<Rightarrow> u8 \<Rightarrow> 'd \<Rightarrow> 'd option result" where
  "uart_put V base reg_shift byte d =
     bindr (uart_reg base 5 reg_shift) (\<lambda>lsr. Inr (map_option (\<lambda>d1. sr_write V d1 base byte) (uart_spin V lsr d)))"

definition uart_get :: "'d serial \<Rightarrow> usize \<Rightarrow> u32 \<Rightarrow> 'd \<Rightarrow> ('d \<times> u8 option) result" where
  "uart_get V base reg_shift d =
     bindr (uart_reg base 5 reg_shift) (\<lambda>lsr.
     case sr_read V d lsr of (d1, v) \<Rightarrow>
       if v AND LSR_DR = 0 then Inr (d1, None)
       else case sr_read V d1 base of (d2, b) \<Rightarrow> Inr (d2, Some b))"

definition enable_rx_interrupt :: "'d serial \<Rightarrow> usize \<Rightarrow> u32 \<Rightarrow> 'd \<Rightarrow> 'd result" where
  "enable_rx_interrupt V base reg_shift d =
     bindr (uart_reg base 1 reg_shift) (\<lambda>ier.
     bindr (uart_reg base 2 reg_shift) (\<lambda>fcr.
     Inr (sr_write V (sr_write V d fcr FCR_RX_1BYTE) ier IER_RDA)))"

section \<open>The console\<close>

text \<open>\<open>c_base\<close> and \<open>c_shift\<close> are the two atomics: base 0 selects the firmware console. \<open>c_fw\<close> is what the firmware was handed.\<close>

record 'd console =
  c_base :: usize
  c_shift :: usize
  c_fw :: bytes
  c_dev :: 'd

definition console_putchar :: "u8 \<Rightarrow> 'd console \<Rightarrow> 'd console" where
  "console_putchar b c = c\<lparr>c_fw := c_fw c @ [b]\<rparr>"

definition use_uart :: "usize \<Rightarrow> u32 \<Rightarrow> 'd console \<Rightarrow> 'd console" where
  "use_uart base reg_shift c = c\<lparr>c_shift := ucast reg_shift, c_base := base\<rparr>"

fun put_bytes :: "'d serial \<Rightarrow> usize \<Rightarrow> u32 \<Rightarrow> bytes \<Rightarrow> 'd \<Rightarrow> 'd option result" where
  "put_bytes V base reg_shift [] d = Inr (Some d)"
| "put_bytes V base reg_shift (b # bs) d =
     bindr (uart_put V base reg_shift b d) (\<lambda>r. case r of None \<Rightarrow> Inr None | Some d1 \<Rightarrow> put_bytes V base reg_shift bs d1)"

definition write_str :: "'d serial \<Rightarrow> bytes \<Rightarrow> 'd console \<Rightarrow> 'd console option result" where
  "write_str V s c =
     (if c_base c = 0 then Inr (Some (fold console_putchar s c))
      else bindr (put_bytes V (c_base c) (ucast (c_shift c)) s (c_dev c)) (\<lambda>r.
           Inr (map_option (\<lambda>d. c\<lparr>c_dev := d\<rparr>) r)))"

text \<open>A number as \<^verbatim>\<open>{}\<close> prints it.\<close>

fun decimal :: "nat \<Rightarrow> bytes" where
  "decimal n = (if n < 10 then [word_of_nat (48 + n)] else decimal (n div 10) @ [word_of_nat (48 + n mod 10)])"

declare decimal.simps [simp del]

section \<open>The heartbeat\<close>

text \<open>\<open>tm_deadline\<close> is the last deadline handed to the firmware's one-shot timer.\<close>

record timer =
  tm_interval :: u64
  tm_ticks :: u64
  tm_deadline :: "u64 option"

definition timer_init :: "u64 \<Rightarrow> timer \<Rightarrow> timer" where
  "timer_init timebase_hz t = t\<lparr>tm_interval := timebase_hz\<rparr>"

definition set_timer :: "u64 \<Rightarrow> timer \<Rightarrow> timer" where
  "set_timer stime_value t = t\<lparr>tm_deadline := Some stime_value\<rparr>"

definition arm_next :: "hart \<Rightarrow> timer \<Rightarrow> timer result" where
  "arm_next h t = bindr (add_chk (time h) (tm_interval t)) (\<lambda>at. Inr (set_timer at t))"

definition rearm :: "hart \<Rightarrow> timer \<Rightarrow> timer result" where
  "rearm h t = arm_next h t"

definition timer_start :: "hart \<Rightarrow> timer \<Rightarrow> (hart \<times> timer) result" where
  "timer_start h t = bindr (arm_next h t) (\<lambda>t. Inr (sstatus_enable_interrupts (sie_enable_timer h), t))"

definition on_tick :: "'d serial \<Rightarrow> hart \<Rightarrow> timer \<Rightarrow> 'd console \<Rightarrow> (timer \<times> 'd console) option result" where
  "on_tick V h t c =
     bindr (add_chk (tm_ticks t) 1) (\<lambda>n.
     let t = t\<lparr>tm_ticks := tm_ticks t + 1\<rparr>
     in bindr (write_str V (lit ''tick: '' @ decimal (unat n) @ [10]) c) (\<lambda>r.
        case r of None \<Rightarrow> Inr None
        | Some c \<Rightarrow> bindr (arm_next h t) (\<lambda>t. Inr (Some (t, c)))))"

section \<open>The shell on the UART\<close>

definition reply_text :: "reply \<Rightarrow> bytes" where
  "reply_text r =
     (case r of
        Help \<Rightarrow> lit ''commands: help, kb, diag''
      | Entry eid seen escalated title \<Rightarrow>
          eid @ lit '' (seen '' @ decimal (unat seen) @
            (if escalated then lit '', escalated, quarantined)  '' else lit '')  '') @ title
      | KbEmpty \<Rightarrow> lit ''(knowledge base empty)''
      | LastDiagnosis eid playbook \<Rightarrow> lit ''last: '' @ eid @ lit '' -> '' @ playbook
      | NoneYet \<Rightarrow> lit ''none yet''
      | UnknownCommand cmd \<Rightarrow> lit ''unknown command '' @ [39] @ cmd @ [39] @ lit '' (try '' @ [39] @ lit ''help'' @ [39] @ lit '')'') @ [10]"

text \<open>What an event of the byte loop prints; after a command comes the prompt.\<close>

definition event_text :: "shell_out \<Rightarrow> bytes" where
  "event_text ev =
     (case ev of
        Typed b \<Rightarrow> [b]
      | Erased \<Rightarrow> [8, 32, 8]
      | Ran cmd replies \<Rightarrow> [10] @ concat (map reply_text replies) @ lit ''> '')"

text \<open>The inner loop: read and answer until no byte is waiting. The timer may preempt the task anywhere, so
  the \<open>k\<close>-th byte is handled in a state \<open>hs k\<close> of the self-healer.\<close>

partial_function (option) shell_poll ::
  "'d serial \<Rightarrow> usize \<Rightarrow> u32 \<Rightarrow> (nat \<Rightarrow> heal) \<Rightarrow> line_buffer \<Rightarrow> 'd console \<Rightarrow> (line_buffer \<times> 'd console) result option" where
  "shell_poll V base reg_shift hs lb c =
     (case uart_get V base reg_shift (c_dev c) of
        Inl e \<Rightarrow> Some (Inl e)
      | Inr (d, None) \<Rightarrow> Some (Inr (lb, c\<lparr>c_dev := d\<rparr>))
      | Inr (d, Some b) \<Rightarrow>
          (case feed (hs 0) lb b of
             Inl e \<Rightarrow> Some (Inl e)
           | Inr (lb, evs) \<Rightarrow>
               (case write_str V (concat (map event_text evs)) (c\<lparr>c_dev := d\<rparr>) of
                  Inl e \<Rightarrow> Some (Inl e)
                | Inr None \<Rightarrow> None
                | Inr (Some c) \<Rightarrow> shell_poll V base reg_shift (\<lambda>k. hs (Suc k)) lb c)))"

definition self_demo :: "heal \<Rightarrow> bytes result" where
  "self_demo h =
     bindr (demo_one h (lit ''help'')) (\<lambda>r1. bindr (demo_one h (lit ''kb'')) (\<lambda>r2. bindr (demo_one h (lit ''diag'')) (\<lambda>r3.
     Inr (lit ''shell: demo'' @ [10] @
       lit ''> help'' @ [10] @ concat (map reply_text r1) @ lit ''> kb'' @ [10] @ concat (map reply_text r2) @
       lit ''> diag'' @ [10] @ concat (map reply_text r3) @ lit ''shell: demo done'' @ [10]))))"

text \<open>The task: what precedes its loop, and one round of the loop, the demonstration once a diagnosis exists and
  then the bytes that are waiting.\<close>

definition shell_task_init :: "'d serial \<Rightarrow> usize \<Rightarrow> u32 \<Rightarrow> 'd console \<Rightarrow> (line_buffer \<times> 'd console) option result" where
  "shell_task_init V base reg_shift c =
     bindr (enable_rx_interrupt V base reg_shift (c_dev c)) (\<lambda>d.
     bindr (write_str V (lit ''shell: ready (type '' @ [39] @ lit ''help'' @ [39] @ lit '')'' @ [10] @ lit ''> '') (c\<lparr>c_dev := d\<rparr>)) (\<lambda>r.
     Inr (map_option (Pair lb_new) r)))"

definition shell_round ::
  "'d serial \<Rightarrow> usize \<Rightarrow> u32 \<Rightarrow> heal \<Rightarrow> (nat \<Rightarrow> heal) \<Rightarrow> bool \<Rightarrow> line_buffer \<Rightarrow> 'd console \<Rightarrow>
     (bool \<times> line_buffer \<times> 'd console) result option" where
  "shell_round V base reg_shift h hs demoed lb c =
     (let demo = \<not> demoed \<and> last_diagnosis h \<noteq> None
      in case (if demo then bindr (self_demo h) (\<lambda>s. write_str V ([10] @ s @ lit ''> '') c) else Inr (Some c)) of
           Inl e \<Rightarrow> Some (Inl e)
         | Inr None \<Rightarrow> None
         | Inr (Some c) \<Rightarrow>
             map_option (\<lambda>r. bindr r (\<lambda>(lb, c). Inr (demoed \<or> demo, lb, c))) (shell_poll V base reg_shift hs lb c))"

section \<open>A serial line\<close>

text \<open>
  What an ns16550 promises: reading the line status changes neither the bytes received nor those sent, its data-ready bit says whether a byte
  is waiting and its THRE bit whether the transmitter is free, which it is after finitely many reads; reading the receive
  register takes the oldest byte; writing the transmit register sends the byte.
\<close>

definition serial_ok :: "'d serial \<Rightarrow> usize \<Rightarrow> usize \<Rightarrow> ('d \<Rightarrow> bytes) \<Rightarrow> ('d \<Rightarrow> bytes) \<Rightarrow> ('d \<Rightarrow> nat) \<Rightarrow> bool" where
  "serial_ok V base lsr pending sent busy \<longleftrightarrow>
     (\<forall>d. case sr_read V d lsr of (d1, v) \<Rightarrow> pending d1 = pending d \<and> sent d1 = sent d \<and> busy d1 = busy d - 1 \<and>
        (v AND LSR_DR = 0 \<longleftrightarrow> pending d = []) \<and> (v AND LSR_THRE = 0 \<longleftrightarrow> busy d \<noteq> 0)) \<and>
     (\<forall>d. pending d \<noteq> [] \<longrightarrow> (case sr_read V d base of (d1, b) \<Rightarrow> b = hd (pending d) \<and> pending d1 = tl (pending d) \<and> sent d1 = sent d)) \<and>
     (\<forall>d b. pending (sr_write V d base b) = pending d \<and> sent (sr_write V d base b) = sent d @ [b])"

lemma serial_readE:
  assumes "serial_ok V base lsr pending sent busy"
  obtains d1 v where "sr_read V d lsr = (d1, v)" "pending d1 = pending d" "sent d1 = sent d" "busy d1 = busy d - 1"
    "v AND LSR_DR = 0 \<longleftrightarrow> pending d = []" "v AND LSR_THRE = 0 \<longleftrightarrow> busy d \<noteq> 0"
  using assms by (cases "sr_read V d lsr") (auto simp: serial_ok_def dest!: spec [of _ d])

lemma uart_spin_ok:
  assumes ok: "serial_ok V base lsr pending sent busy"
  shows "\<exists>d'. uart_spin V lsr d = Some d' \<and> pending d' = pending d \<and> sent d' = sent d"
proof (induction "busy d" arbitrary: d)
  case 0
  then show ?case using serial_readE [OF ok, of d] by (subst uart_spin.simps) force
next
  case (Suc n)
  obtain d1 v where r: "sr_read V d lsr = (d1, v)" "pending d1 = pending d" "sent d1 = sent d" "busy d1 = busy d - 1"
    "v AND LSR_THRE = 0 \<longleftrightarrow> busy d \<noteq> 0" using serial_readE [OF ok, of d] by blast
  moreover obtain d' where "uart_spin V lsr d1 = Some d'" "pending d' = pending d1" "sent d' = sent d1"
    using Suc(1) [of d1] Suc(2) r(4) by (metis diff_Suc_1)
  ultimately show ?case using Suc(2) by (subst uart_spin.simps) auto
qed

lemma uart_put_ok:
  assumes ok: "serial_ok V base lsr pending sent busy" and lsr: "uart_reg base 5 shift = Inr lsr"
  shows "\<exists>d'. uart_put V base shift b d = Inr (Some d') \<and> pending d' = pending d \<and> sent d' = sent d @ [b]"
  using uart_spin_ok [OF ok, of d] ok lsr by (auto simp: uart_put_def serial_ok_def)

lemma put_bytes_ok:
  assumes "serial_ok V base lsr pending sent busy" "uart_reg base 5 shift = Inr lsr"
  shows "\<exists>d'. put_bytes V base shift bs d = Inr (Some d') \<and> pending d' = pending d \<and> sent d' = sent d @ bs"
proof (induction bs arbitrary: d)
  case (Cons b bs)
  then show ?case using uart_put_ok [OF assms, of b d] by fastforce
qed simp

lemma write_str_fw: "c_base c = 0 \<Longrightarrow> write_str V s c = Inr (Some (c\<lparr>c_fw := c_fw c @ s\<rparr>))"
proof -
  have "fold console_putchar s c = c\<lparr>c_fw := c_fw c @ s\<rparr>" by (induction s arbitrary: c) (simp_all add: console_putchar_def)
  then show "c_base c = 0 \<Longrightarrow> write_str V s c = Inr (Some (c\<lparr>c_fw := c_fw c @ s\<rparr>))" by (simp add: write_str_def)
qed

lemma write_str_uart:
  assumes "serial_ok V base lsr pending sent busy" "uart_reg base 5 shift = Inr lsr"
    "base \<noteq> 0" "c_base c = base" "c_shift c = ucast shift"
  shows "\<exists>d. write_str V s c = Inr (Some (c\<lparr>c_dev := d\<rparr>)) \<and> pending d = pending (c_dev c) \<and> sent d = sent (c_dev c) @ s"
  using put_bytes_ok [OF assms(1,2), of s "c_dev c"] assms(3-5) by (auto simp: write_str_def ucast_up_ucast_id is_up)

lemma uart_get_ok:
  assumes ok: "serial_ok V base lsr pending sent busy" and lsr: "uart_reg base 5 shift = Inr lsr"
  shows "\<exists>d'. uart_get V base shift d = Inr (d', case pending d of [] \<Rightarrow> None | b # _ \<Rightarrow> Some b) \<and>
    pending d' = tl (pending d) \<and> sent d' = sent d"
proof -
  obtain d1 v where r: "sr_read V d lsr = (d1, v)" "pending d1 = pending d" "sent d1 = sent d" "v AND LSR_DR = 0 \<longleftrightarrow> pending d = []"
    using serial_readE [OF ok, of d] by blast
  show ?thesis
  proof (cases "pending d")
    case Nil
    then show ?thesis using r lsr by (simp add: uart_get_def)
  next
    case (Cons b bs)
    then obtain d2 where "sr_read V d1 base = (d2, b)" "pending d2 = bs" "sent d2 = sent d"
      using ok r by (auto simp: serial_ok_def dest!: spec [of _ d1])
    then show ?thesis using r lsr Cons by (simp add: uart_get_def)
  qed
qed

text \<open>C22: The shell answers what is typed. On a UART that behaves as an ns16550 does, with the console switched to
  it, the shell's polling loop terminates for any bytes received: it takes them all, and what it sends is exactly the echo and the
  answers of the line discipline on those bytes, in order, each answer in the state of the self-healer when its
  byte is handled.\<close>
theorem shell_answers_typed_bytes:
  assumes ok: "serial_ok V base lsr pending sent busy" "uart_reg base 5 shift = Inr lsr" "base \<noteq> 0"
    and c: "c_base c = base" "c_shift c = ucast shift" and inv: "lb_inv lb"
  shows "\<exists>lb' c' evs. shell_poll V base shift hs lb c = Some (Inr (lb', c')) \<and>
    feed_all lb (zip (map hs [0..<length (pending (c_dev c))]) (pending (c_dev c))) = Inr (lb', evs) \<and>
    pending (c_dev c') = [] \<and> sent (c_dev c') = sent (c_dev c) @ concat (map event_text evs)"
  using c inv
proof (induction "pending (c_dev c)" arbitrary: c lb hs)
  case Nil
  then show ?case using uart_get_ok [OF ok(1,2), of "c_dev c"] by (subst shell_poll.simps) auto
next
  case (Cons b bs)
  obtain d where g: "uart_get V base shift (c_dev c) = Inr (d, Some b)" "pending d = bs" "sent d = sent (c_dev c)"
    using uart_get_ok [OF ok(1,2), of "c_dev c"] Cons(2) by (metis list.case(2) list.sel(3))
  obtain lb1 evs where f: "feed (hs 0) lb b = Inr (lb1, evs)" "lb_inv lb1" using feed_ok [OF Cons.prems(3)] by blast
  obtain d' where w: "write_str V (concat (map event_text evs)) (c\<lparr>c_dev := d\<rparr>) = Inr (Some (c\<lparr>c_dev := d'\<rparr>))" "pending d' = bs"
    "sent d' = sent (c_dev c) @ concat (map event_text evs)"
    using write_str_uart [OF ok, of "c\<lparr>c_dev := d\<rparr>"] Cons.prems g by force
  have u: "[0..<Suc n] = 0 # map Suc [0..<n]" for n by (simp add: map_Suc_upt upt_conv_Cons)
  from Cons(1) [of "c\<lparr>c_dev := d'\<rparr>" lb1 "\<lambda>k. hs (Suc k)"] obtain lb' c' evs' where
    "shell_poll V base shift (\<lambda>k. hs (Suc k)) lb1 (c\<lparr>c_dev := d'\<rparr>) = Some (Inr (lb', c'))"
    "feed_all lb1 (zip (map (\<lambda>k. hs (Suc k)) [0..<length bs]) bs) = Inr (lb', evs')"
    "pending (c_dev c') = []" "sent (c_dev c') = sent d' @ concat (map event_text evs')"
    using w(2) Cons.prems f(2) by auto
  then show ?case
    using g f w unfolding Cons(2) [symmetric] by (subst shell_poll.simps) (auto simp: u comp_def simp del: upt_Suc)
qed

text \<open>The heartbeat. Each timer interrupt counts one tick, prints its number as one line on the console, and asks the firmware for the next
  interrupt one interval from now; with the console still on the firmware it returns for every clock reading that the
  interval can be added to, and otherwise the addition panics.\<close>
lemma on_tick_firmware:
  assumes "c_base c = 0" "unat (tm_ticks t) + 1 < 2 ^ 64"
  shows "on_tick V h t c =
    (if unat (time h) + unat (tm_interval t) < 2 ^ 64
     then Inr (Some (t\<lparr>tm_ticks := tm_ticks t + 1, tm_deadline := Some (time h + tm_interval t)\<rparr>,
                     c\<lparr>c_fw := c_fw c @ lit ''tick: '' @ decimal (unat (tm_ticks t) + 1) @ [10]\<rparr>))
     else Inl ArithOverflow)"
  using assms by (simp add: on_tick_def add_chk_def write_str_fw arm_next_def set_timer_def unat_add_fits Let_def)

text \<open>A UART that is busy for two reads of its status after each byte sent.\<close>

type_synonym line = "bytes \<times> bytes \<times> nat"

definition line_serial :: "usize \<Rightarrow> usize \<Rightarrow> line serial" where
  "line_serial base lsr =
     \<lparr>sr_read = \<lambda>(p, s, n) a. if a = lsr then ((p, s, n - 1), (if p = [] then 0 else LSR_DR) OR (if n = 0 then LSR_THRE else 0))
        else if a = base then ((tl p, s, n), hd p) else ((p, s, n), 0),
      sr_write = \<lambda>(p, s, n) a b. if a = base then (p, s @ [b], 2) else (p, s, n)\<rparr>"

lemma line_serial_ok: "base \<noteq> lsr \<Longrightarrow> serial_ok (line_serial base lsr) base lsr fst (fst \<circ> snd) (snd \<circ> snd)"
  by (auto simp: serial_ok_def line_serial_def LSR_DR_def LSR_THRE_def)

definition typed_console :: "line console" where
  "typed_console = \<lparr>c_base = 0x10000000, c_shift = 0, c_fw = [], c_dev = ([108, 13], [], 1)\<rparr>"

theorem shell_answers_typed_bytes_witness:
  "\<exists>lb' c'. shell_poll (line_serial 0x10000000 0x10000005) 0x10000000 0 (\<lambda>_. heal_init) lb_new typed_console = Some (Inr (lb', c')) \<and>
     fst (c_dev c') = [] \<and> fst (snd (c_dev c')) = lit ''l'' @ [10] @ reply_text (UnknownCommand (lit ''l'')) @ lit ''> ''"
proof -
  have c: "c_base typed_console = 0x10000000" "c_shift typed_console = ucast (0 :: u32)" "fst (c_dev typed_console) = [108, 13]"
    "(fst \<circ> snd) (c_dev typed_console) = []"
    by (simp_all add: typed_console_def)
  have r: "uart_reg 0x10000000 5 0 = Inr 0x10000005" by (simp add: uart_reg_def add_chk_def)
  have l: "take (Suc 0) ((replicate 64 (0 :: u8))[0 := 108]) = [108]" by (simp add: numeral_eq_Suc)
  have u: "from_utf8 [108 :: u8] = Some [108]" by (rule from_utf8_ascii) simp
  have "feed_all lb_new (zip (map (\<lambda>_. heal_init) [0..<length (fst (c_dev typed_console))]) (fst (c_dev typed_console))) =
      Inr (lb_new\<lparr>lb_buf := (lb_buf lb_new)[0 := 108]\<rparr>, [Typed 108, Ran [108] [UnknownCommand [108]]])"
    unfolding c(3) by (simp add: lb_new_def feed_def push_def set_at_def LINE_CAP_def lb_take_def slice_def l u
      shell_dispatch_def lit_def upt_rec)
  then show ?thesis
    using shell_answers_typed_bytes [OF line_serial_ok r _ c(1,2) lb_inv_new(1), of "\<lambda>_. heal_init"] c(3,4)
    by (auto simp: event_text_def lit_def)
qed

end
