(* ===== verification/Dt.thy ===== *)
theory Dt
  imports Rust_Str
begin

text \<open>
  The device-tree parser (\<^verbatim>\<open>src/arch/riscv64/src/dt.rs\<close>). Offsets are naturals: every one is a sum
  of 32-bit fields and lengths of the blob, far below \<open>2\<^sup>6\<^sup>4\<close>. Reads go through \<open>get\<close> and
  \<open>get_range\<close> as in the source; the one addition of two 32-bit cell counts is checked.
\<close>

section \<open>Reading the blob\<close>

record machine_info =
  ram_base :: usize
  ram_size :: usize
  timebase_hz :: u64
  uart_base :: usize
  uart_reg_shift :: u32
  uart_irq :: u32
  rtc_base :: usize
  virtio_mmio :: "usize list"
  virtio_mmio_count :: nat
  virtio_mmio_irq :: "u32 list"
  plic_base :: usize

definition FDT_MAGIC :: u32 where "FDT_MAGIC = 0xd00dfeed"
definition FDT_BEGIN_NODE :: u32 where "FDT_BEGIN_NODE = 1"
definition FDT_END_NODE :: u32 where "FDT_END_NODE = 2"
definition FDT_PROP :: u32 where "FDT_PROP = 3"
definition FDT_NOP :: u32 where "FDT_NOP = 4"
definition FDT_END :: u32 where "FDT_END = 9"

definition be_u32 :: "bytes \<Rightarrow> nat \<Rightarrow> u32 option" where
  "be_u32 buf off = map_option be_word (get_range buf off (off + 4))"

definition cstr_len :: "bytes \<Rightarrow> nat \<Rightarrow> nat option" where
  "cstr_len buf off = position (\<lambda>b. b = 0) (drop off buf)"

fun read_cells_from :: "bytes \<Rightarrow> nat \<Rightarrow> nat \<Rightarrow> u64 \<Rightarrow> u64 option" where
  "read_cells_from val off 0 n = Some n"
| "read_cells_from val off (Suc k) n =
     (case be_u32 val off of None \<Rightarrow> None
      | Some w \<Rightarrow> read_cells_from val (off + 4) k (push_bit 32 n OR ucast w))"

definition read_cells :: "bytes \<Rightarrow> nat \<Rightarrow> nat \<Rightarrow> u64 option" where
  "read_cells val off cells = read_cells_from val off cells 0"

definition has_window :: "bytes \<Rightarrow> bytes \<Rightarrow> bool" where
  "has_window val w \<longleftrightarrow> find_sub w val \<noteq> None"

section \<open>The parser's state\<close>

record dt_state =
  pos :: nat
  depth :: nat
  is_mem :: "bool list"
  addr_cells :: u32
  size_cells :: u32
  ram :: "(usize \<times> usize) option"
  timebase :: "u64 option"
  node_is_uart :: bool
  node_reg :: "usize option"
  node_shift :: u32
  uart :: "(usize \<times> u32) option"
  st_uart_irq :: u32
  node_is_rtc :: bool
  rtc :: "usize option"
  node_is_virtio :: bool
  st_virtio :: "usize list"
  virtio_count :: nat
  st_virtio_irq :: "u32 list"
  node_virtio_irq :: "u32 option"
  node_is_plic :: bool
  st_plic :: usize

definition dt_start :: "nat \<Rightarrow> dt_state" where
  "dt_start off =
     \<lparr>pos = off, depth = 0, is_mem = replicate 32 False, addr_cells = 2, size_cells = 2, ram = None, timebase = None,
      node_is_uart = False, node_reg = None, node_shift = 0, uart = None, st_uart_irq = 0, node_is_rtc = False, rtc = None,
      node_is_virtio = False, st_virtio = replicate 8 0, virtio_count = 0, st_virtio_irq = replicate 8 0,
      node_virtio_irq = None, node_is_plic = False, st_plic = 0\<rparr>"

definition align4 :: "nat \<Rightarrow> nat" where
  "align4 n = (n + 3) div 4 * 4"

definition begin_node :: "bytes \<Rightarrow> dt_state \<Rightarrow> dt_state option" where
  "begin_node dtb s =
     (case cstr_len dtb (pos s) of None \<Rightarrow> None
      | Some name_len \<Rightarrow>
          (case get_range dtb (pos s) (pos s + name_len) of None \<Rightarrow> None
           | Some name \<Rightarrow>
               let d = depth s + 1
               in Some (s\<lparr>depth := d,
                          is_mem := (if d < length (is_mem s) then (is_mem s)[d := starts_with (lit ''memory'') name] else is_mem s),
                          node_is_uart := False, node_reg := None, node_shift := 0, node_is_rtc := False, node_is_virtio := False,
                          node_virtio_irq := None, node_is_plic := False,
                          pos := align4 (pos s + name_len + 1)\<rparr>)))"

text \<open>Committing the closed node: the first UART and RTC, up to eight virtio slots, the last PLIC.\<close>

definition commit_uart :: "dt_state \<Rightarrow> dt_state" where
  "commit_uart s =
     (if node_is_uart s \<and> uart s = None then
        (case node_reg s of None \<Rightarrow> s
         | Some b \<Rightarrow> s\<lparr>uart := Some (b, node_shift s), st_uart_irq := (case node_virtio_irq s of None \<Rightarrow> 0 | Some i \<Rightarrow> i)\<rparr>)
      else s)"

definition commit_rtc :: "dt_state \<Rightarrow> dt_state" where
  "commit_rtc s =
     (if node_is_rtc s \<and> rtc s = None then (case node_reg s of None \<Rightarrow> s | Some b \<Rightarrow> s\<lparr>rtc := Some b\<rparr>) else s)"

definition commit_virtio :: "dt_state \<Rightarrow> dt_state" where
  "commit_virtio s =
     (if node_is_virtio s then
        (case node_reg s of None \<Rightarrow> s
         | Some b \<Rightarrow>
             if virtio_count s < length (st_virtio s) then
               s\<lparr>st_virtio := (st_virtio s)[virtio_count s := b],
                 st_virtio_irq := (st_virtio_irq s)[virtio_count s := (case node_virtio_irq s of None \<Rightarrow> 0 | Some i \<Rightarrow> i)],
                 virtio_count := virtio_count s + 1\<rparr>
             else s)
      else s)"

definition commit_plic :: "dt_state \<Rightarrow> dt_state" where
  "commit_plic s = (if node_is_plic s then (case node_reg s of None \<Rightarrow> s | Some b \<Rightarrow> s\<lparr>st_plic := b\<rparr>) else s)"

definition end_node :: "dt_state \<Rightarrow> dt_state option" where
  "end_node s =
     (let s1 = commit_plic (commit_virtio (commit_rtc (commit_uart s)))
      in if depth s1 = 0 then None else Some (s1\<lparr>depth := depth s1 - 1\<rparr>))"

text \<open>One property: name, value, its length.\<close>

definition cells_prop :: "bytes \<Rightarrow> bytes \<Rightarrow> nat \<Rightarrow> dt_state \<Rightarrow> dt_state option" where
  "cells_prop pname val len s =
     (if depth s = 1 \<and> 4 \<le> len then
        if pname = lit ''#address-cells'' then map_option (\<lambda>c. s\<lparr>addr_cells := c\<rparr>) (be_u32 val 0)
        else if pname = lit ''#size-cells'' then map_option (\<lambda>c. s\<lparr>size_cells := c\<rparr>) (be_u32 val 0)
        else Some s
      else Some s)"

definition timebase_prop :: "bytes \<Rightarrow> bytes \<Rightarrow> nat \<Rightarrow> dt_state \<Rightarrow> dt_state option" where
  "timebase_prop pname val len s =
     (if pname = lit ''timebase-frequency'' \<and> 4 \<le> len then map_option (\<lambda>c. s\<lparr>timebase := Some (ucast c)\<rparr>) (be_u32 val 0)
      else Some s)"

definition reg_prop :: "bytes \<Rightarrow> bytes \<Rightarrow> nat \<Rightarrow> dt_state \<Rightarrow> dt_state option result" where
  "reg_prop pname val len s =
     (if pname = lit ''reg'' \<and> unat (addr_cells s) * 4 \<le> len then
        (case read_cells val 0 (unat (addr_cells s)) of None \<Rightarrow> Inr None
         | Some base \<Rightarrow>
             if depth s < length (is_mem s) \<and> is_mem s ! depth s then
               bindr (add_chk (addr_cells s) (size_cells s)) (\<lambda>cells.
               if unat cells * 4 \<le> len then
                 (case read_cells val (unat (addr_cells s) * 4) (unat (size_cells s)) of None \<Rightarrow> Inr None
                  | Some sz \<Rightarrow> Inr (Some (s\<lparr>ram := Some (base, sz), node_reg := Some base\<rparr>)))
               else Inr (Some (s\<lparr>node_reg := Some base\<rparr>)))
             else Inr (Some (s\<lparr>node_reg := Some base\<rparr>)))
      else Inr (Some s))"

definition match_prop :: "bytes \<Rightarrow> bytes \<Rightarrow> nat \<Rightarrow> dt_state \<Rightarrow> dt_state option" where
  "match_prop pname val len s =
     (let compat = (\<lambda>w. pname = lit ''compatible'' \<and> has_window val w);
          s = s\<lparr>node_is_uart := node_is_uart s \<or> compat (lit ''ns16550''), node_is_rtc := node_is_rtc s \<or> compat (lit ''goldfish''),
                node_is_virtio := node_is_virtio s \<or> compat (lit ''virtio,mmio'')\<rparr>
      in case (if pname = lit ''interrupts'' \<and> 4 \<le> len then map_option (\<lambda>i. s\<lparr>node_virtio_irq := Some i\<rparr>) (be_u32 val 0) else Some s) of
           None \<Rightarrow> None
         | Some s \<Rightarrow>
             let s = s\<lparr>node_is_plic := node_is_plic s \<or> compat (lit ''riscv,plic0'')\<rparr>
             in if pname = lit ''reg-shift'' \<and> 4 \<le> len then map_option (\<lambda>c. s\<lparr>node_shift := c\<rparr>) (be_u32 val 0) else Some s)"

definition fdt_prop :: "bytes \<Rightarrow> nat \<Rightarrow> dt_state \<Rightarrow> dt_state option result" where
  "fdt_prop dtb off_strings s =
     (case (be_u32 dtb (pos s), be_u32 dtb (pos s + 4)) of
        (Some len32, Some nameoff32) \<Rightarrow>
          (let len = unat len32; val_off = pos s + 8; name_at = off_strings + unat nameoff32
           in case (get_range dtb val_off (val_off + len), cstr_len dtb name_at) of
                (Some val, Some pname_len) \<Rightarrow>
                  (case get_range dtb name_at (name_at + pname_len) of None \<Rightarrow> Inr None
                   | Some pname \<Rightarrow>
                       (case Option.bind (cells_prop pname val len s) (timebase_prop pname val len) of None \<Rightarrow> Inr None
                        | Some s \<Rightarrow>
                            bindr (reg_prop pname val len s) (\<lambda>r.
                            Inr (Option.bind r (\<lambda>s. map_option (\<lambda>s. s\<lparr>pos := align4 (val_off + len)\<rparr>) (match_prop pname val len s))))))
              | _ \<Rightarrow> Inr None)
      | _ \<Rightarrow> Inr None)"

lemma align4_ge: "n \<le> align4 n"
  unfolding align4_def by presburger

lemma begin_node_pos: "begin_node dtb s = Some s' \<Longrightarrow> pos s \<le> pos s'"
proof -
  assume "begin_node dtb s = Some s'"
  then obtain k where "pos s' = align4 (pos s + k + 1)" by (auto simp: begin_node_def Let_def split: option.splits)
  then show ?thesis using align4_ge [of "pos s + k + 1"] by simp
qed

lemma commit_pos [simp]:
  "pos (commit_uart s) = pos s" "pos (commit_rtc s) = pos s" "pos (commit_virtio s) = pos s" "pos (commit_plic s) = pos s"
  by (simp_all add: commit_uart_def commit_rtc_def commit_virtio_def commit_plic_def split: option.split)

lemma end_node_pos: "end_node s = Some s' \<Longrightarrow> pos s' = pos s"
  by (auto simp: end_node_def Let_def split: if_splits)

lemma fdt_prop_pos: "fdt_prop dtb off s = Inr (Some s') \<Longrightarrow> pos s \<le> pos s'"
proof -
  assume a: "fdt_prop dtb off s = Inr (Some s')"
  then obtain len where "pos s' = align4 (pos s + 8 + len)"
    by (auto simp: fdt_prop_def Let_def bindr_eq_Inr_iff bind_eq_Some_conv split: option.splits prod.splits)
  then show ?thesis using align4_ge [of "pos s + 8 + len"] by simp
qed

lemma be_u32_SomeD: "be_u32 b k = Some w \<Longrightarrow> k + 4 \<le> length b"
  by (auto simp: be_u32_def get_range_def split: if_splits)

function dt_loop :: "bytes \<Rightarrow> nat \<Rightarrow> dt_state \<Rightarrow> dt_state option result" where
  "dt_loop dtb off_strings s =
     (case be_u32 dtb (pos s) of
        None \<Rightarrow> Inr None
      | Some tok \<Rightarrow>
          (let s = s\<lparr>pos := pos s + 4\<rparr>
           in if tok = FDT_BEGIN_NODE then
                (case begin_node dtb s of None \<Rightarrow> Inr None | Some s' \<Rightarrow> dt_loop dtb off_strings s')
              else if tok = FDT_END_NODE then
                (case end_node s of None \<Rightarrow> Inr None | Some s' \<Rightarrow> dt_loop dtb off_strings s')
              else if tok = FDT_PROP then
                (case fdt_prop dtb off_strings s of
                   Inl e \<Rightarrow> Inl e
                 | Inr None \<Rightarrow> Inr None
                 | Inr (Some s') \<Rightarrow> dt_loop dtb off_strings s')
              else if tok = FDT_NOP then dt_loop dtb off_strings s
              else if tok = FDT_END then Inr (Some s)
              else Inr None))"
  by auto
termination
  by (relation "measure (\<lambda>(dtb, off, s). length dtb - pos s)")
    (fastforce dest: be_u32_SomeD begin_node_pos end_node_pos fdt_prop_pos)+

declare dt_loop.simps [simp del]

definition dt_parse :: "bytes \<Rightarrow> machine_info option result" where
  "dt_parse dtb =
     (case (be_u32 dtb 0, be_u32 dtb 8, be_u32 dtb 12) of
        (Some m, Some off_struct, Some off_strings) \<Rightarrow>
          if m \<noteq> FDT_MAGIC then Inr None
          else bindr (dt_loop dtb (unat off_strings) (dt_start (unat off_struct))) (\<lambda>r.
               Inr (case r of None \<Rightarrow> None
                    | Some s \<Rightarrow>
                        (case (uart s, ram s, timebase s, rtc s) of
                           (Some (ub, sh), Some (rb, rs), Some hz, Some rt) \<Rightarrow>
                             Some \<lparr>ram_base = rb, ram_size = rs, timebase_hz = hz, uart_base = ub, uart_reg_shift = sh,
                                   uart_irq = st_uart_irq s, rtc_base = rt, virtio_mmio = st_virtio s,
                                   virtio_mmio_count = virtio_count s, virtio_mmio_irq = st_virtio_irq s, plic_base = st_plic s\<rparr>
                         | _ \<Rightarrow> None)))
      | _ \<Rightarrow> Inr None)"

text \<open>\<open>m\<close> is memory as the firmware left it, one byte per address.\<close>

definition raw_bytes :: "(usize \<Rightarrow> u8) \<Rightarrow> usize \<Rightarrow> nat \<Rightarrow> bytes" where
  "raw_bytes m ptr n = map (\<lambda>i. m (ptr + of_nat i)) [0..<n]"

definition dt_from_ptr :: "(usize \<Rightarrow> u8) \<Rightarrow> usize \<Rightarrow> machine_info result" where
  "dt_from_ptr m ptr =
     (let header = raw_bytes m ptr 8
      in bindr (assertr (be_u32 header 0 = Some FDT_MAGIC) (AssertFailed ''dtb: bad magic'')) (\<lambda>_.
         bindr (expectr (be_u32 header 4) (ExpectFailed ''dtb: short header'')) (\<lambda>totalsize.
         let blob = raw_bytes m ptr (unat totalsize)
         in bindr (dt_parse blob) (\<lambda>r.
            expectr r (ExpectFailed ''device tree invalid or missing memory/timebase'')))))"

section \<open>Every blob is handled\<close>

definition dt_inv :: "dt_state \<Rightarrow> bool" where
  "dt_inv s \<longleftrightarrow> length (is_mem s) = 32 \<and> length (st_virtio s) = 8 \<and> length (st_virtio_irq s) = 8 \<and> virtio_count s \<le> 8"

lemma dt_inv_start: "dt_inv (dt_start off)"
  by (simp add: dt_inv_def dt_start_def)

lemma dt_inv_begin: "dt_inv s \<Longrightarrow> begin_node dtb s = Some s' \<Longrightarrow> dt_inv s'"
  by (auto simp: dt_inv_def begin_node_def Let_def split: option.splits)

lemma dt_inv_commit [intro]:
  "dt_inv s \<Longrightarrow> dt_inv (commit_uart s)" "dt_inv s \<Longrightarrow> dt_inv (commit_rtc s)"
  "dt_inv s \<Longrightarrow> dt_inv (commit_virtio s)" "dt_inv s \<Longrightarrow> dt_inv (commit_plic s)"
  by (auto simp: dt_inv_def commit_uart_def commit_rtc_def commit_virtio_def commit_plic_def split: option.split)

lemma dt_inv_end: "dt_inv s \<Longrightarrow> end_node s = Some s' \<Longrightarrow> dt_inv s'"
proof -
  assume a: "dt_inv s" "end_node s = Some s'"
  let ?t = "commit_plic (commit_virtio (commit_rtc (commit_uart s)))"
  have "dt_inv ?t" using a(1) by blast
  moreover have "s' = ?t\<lparr>depth := depth ?t - 1\<rparr>" using a(2) by (auto simp: end_node_def Let_def split: if_splits)
  ultimately show ?thesis by (simp add: dt_inv_def)
qed

lemma dt_inv_props:
  "dt_inv s \<Longrightarrow> cells_prop n v l s = Some s' \<Longrightarrow> dt_inv s'"
  "dt_inv s \<Longrightarrow> timebase_prop n v l s = Some s' \<Longrightarrow> dt_inv s'"
  "dt_inv s \<Longrightarrow> reg_prop n v l s = Inr (Some s') \<Longrightarrow> dt_inv s'"
  "dt_inv s \<Longrightarrow> match_prop n v l s = Some s' \<Longrightarrow> dt_inv s'"
proof -
  assume i: "dt_inv s"
  show "cells_prop n v l s = Some s' \<Longrightarrow> dt_inv s'" using i by (auto simp: cells_prop_def dt_inv_def split: if_splits)
  show "timebase_prop n v l s = Some s' \<Longrightarrow> dt_inv s'" using i by (auto simp: timebase_prop_def dt_inv_def split: if_splits)
  show "reg_prop n v l s = Inr (Some s') \<Longrightarrow> dt_inv s'"
    using i by (auto simp: reg_prop_def dt_inv_def bindr_eq_Inr_iff split: if_splits option.splits)
  show "match_prop n v l s = Some s' \<Longrightarrow> dt_inv s'"
    using i by (auto simp: match_prop_def dt_inv_def Let_def split: if_splits option.splits)
qed

lemma reg_prop_panic: "reg_prop n v l s = Inl e \<Longrightarrow> e = ArithOverflow"
  by (auto simp: reg_prop_def add_chk_def split: if_splits option.splits)

lemma fdt_prop_cases:
  assumes "dt_inv s"
  shows "fdt_prop dtb off s = Inl ArithOverflow \<or> (\<exists>r. fdt_prop dtb off s = Inr r \<and> (\<forall>s'. r = Some s' \<longrightarrow> dt_inv s'))"
proof (cases "fdt_prop dtb off s")
  case (Inl e)
  then have "\<exists>n v l t. reg_prop n v l t = Inl e"
    by (auto simp: fdt_prop_def Let_def bindr_def split: option.splits prod.splits sum.splits)
  then show ?thesis using Inl reg_prop_panic by blast
next
  case (Inr r)
  have "dt_inv s'" if some: "r = Some s'" for s'
  proof -
    obtain n v l s1 s2 s3 s4 k where "cells_prop n v l s = Some s1" "timebase_prop n v l s1 = Some s2" "reg_prop n v l s2 = Inr (Some s3)"
      "match_prop n v l s3 = Some s4" "s' = s4\<lparr>pos := k\<rparr>"
      using Inr some by (auto simp: fdt_prop_def Let_def bindr_eq_Inr_iff bind_eq_Some_conv split: option.splits prod.splits)
    then have "dt_inv s4" "s' = s4\<lparr>pos := k\<rparr>" using dt_inv_props assms by metis+
    then show ?thesis by (simp add: dt_inv_def)
  qed
  then show ?thesis using Inr by blast
qed

lemma dt_loop_cases:
  "dt_inv s \<Longrightarrow> dt_loop dtb off s = Inl ArithOverflow \<or> (\<exists>r. dt_loop dtb off s = Inr r \<and> (\<forall>s'. r = Some s' \<longrightarrow> dt_inv s'))"
proof (induction dtb off s rule: dt_loop.induct)
  case (1 dtb off s)
  define t where "t = s\<lparr>pos := pos s + 4\<rparr>"
  have inv: "dt_inv t" using 1(5) by (simp add: dt_inv_def t_def)
  show ?case
  proof (cases "be_u32 dtb (pos s)")
    case None
    then show ?thesis by (subst (1 2) dt_loop.simps) simp
  next
    case (Some tok)
    note IH = 1(1-4) [OF Some t_def]
    have unf: "dt_loop dtb off s =
        (if tok = FDT_BEGIN_NODE then (case begin_node dtb t of None \<Rightarrow> Inr None | Some s' \<Rightarrow> dt_loop dtb off s')
         else if tok = FDT_END_NODE then (case end_node t of None \<Rightarrow> Inr None | Some s' \<Rightarrow> dt_loop dtb off s')
         else if tok = FDT_PROP then (case fdt_prop dtb off t of Inl e \<Rightarrow> Inl e | Inr None \<Rightarrow> Inr None | Inr (Some s') \<Rightarrow> dt_loop dtb off s')
         else if tok = FDT_NOP then dt_loop dtb off t else if tok = FDT_END then Inr (Some t) else Inr None)"
      using Some by (subst dt_loop.simps) (simp add: t_def Let_def)
    consider "tok = FDT_BEGIN_NODE" | "tok \<noteq> FDT_BEGIN_NODE" "tok = FDT_END_NODE"
      | "tok \<noteq> FDT_BEGIN_NODE" "tok \<noteq> FDT_END_NODE" "tok = FDT_PROP"
      | "tok \<noteq> FDT_BEGIN_NODE" "tok \<noteq> FDT_END_NODE" "tok \<noteq> FDT_PROP" by blast
    then show ?thesis
    proof cases
      case 1
      then show ?thesis using IH(1) unf dt_inv_begin [OF inv] by (cases "begin_node dtb t") auto
    next
      case 2
      then show ?thesis using IH(2) unf dt_inv_end [OF inv] by (cases "end_node t") auto
    next
      case 3
      then show ?thesis using fdt_prop_cases [OF inv, of dtb off] IH(3) unf by (auto split: option.splits)
    next
      case 4
      then show ?thesis using IH(4) unf inv by auto
    qed
  qed
qed

lemma dt_parse_cases:
  "dt_parse dtb = Inl ArithOverflow \<or>
   (\<exists>r. dt_parse dtb = Inr r \<and> (\<forall>mi. r = Some mi \<longrightarrow>
      length (virtio_mmio mi) = 8 \<and> length (virtio_mmio_irq mi) = 8 \<and> virtio_mmio_count mi \<le> 8))"
proof (cases "be_u32 dtb 0 = Some FDT_MAGIC \<and> be_u32 dtb 8 \<noteq> None \<and> be_u32 dtb 12 \<noteq> None")
  case False
  then have "dt_parse dtb = Inr None" by (auto simp: dt_parse_def split: option.splits)
  then show ?thesis by simp
next
  case True
  then obtain a b where "be_u32 dtb 0 = Some FDT_MAGIC" "be_u32 dtb 8 = Some a" "be_u32 dtb 12 = Some b" by auto
  then show ?thesis
    using dt_loop_cases [OF dt_inv_start, of dtb "unat b" "unat a"]
    by (auto simp: dt_parse_def dt_inv_def split: option.splits)
qed

text \<open>C36: For every byte string the device-tree parser ends. It gives a description with eight virtio slots of which
  at most eight are in use, or rejects the blob; the only panic is the overflow of the sum of the
  two cell counts.\<close>
theorem dt_parse_total:
  "dt_parse dtb = Inl ArithOverflow \<or>
   (\<exists>r. dt_parse dtb = Inr r \<and>
      (case r of None \<Rightarrow> True
       | Some mi \<Rightarrow> length (virtio_mmio mi) = 8 \<and> length (virtio_mmio_irq mi) = 8 \<and> virtio_mmio_count mi \<le> 8))"
proof (cases "dt_parse dtb")
  case (Inl e)
  then show ?thesis using dt_parse_cases [of dtb] by simp
next
  case (Inr r)
  then show ?thesis using dt_parse_cases [of dtb] by (cases r) simp_all
qed

text \<open>A tree whose root has one address cell and \<open>2\<^sup>3\<^sup>2 - 1\<close> size cells, with a memory node.\<close>

definition overflow_dtb :: bytes where
  "overflow_dtb =
     [0xd0, 0x0d, 0xfe, 0xed, 0, 0, 0, 0, 0, 0, 0, 16, 0, 0, 0, 84] @
     [0, 0, 0, 1, 0, 0, 0, 0] @
     [0, 0, 0, 3, 0, 0, 0, 4, 0, 0, 0, 0, 0, 0, 0, 1] @
     [0, 0, 0, 3, 0, 0, 0, 4, 0, 0, 0, 15, 0xff, 0xff, 0xff, 0xff] @
     [0, 0, 0, 1] @ lit ''memory'' @ [0, 0] @
     [0, 0, 0, 3, 0, 0, 0, 4, 0, 0, 0, 27, 0x80, 0, 0, 0] @
     lit ''#address-cells'' @ [0] @ lit ''#size-cells'' @ [0] @ lit ''reg'' @ [0]"

lemma overflow_dtb_words:
  "be_u32 overflow_dtb 0 = Some FDT_MAGIC" "be_u32 overflow_dtb 8 = Some 16" "be_u32 overflow_dtb 12 = Some 84"
  "be_u32 overflow_dtb 16 = Some 1" "be_u32 overflow_dtb 24 = Some 3" "be_u32 overflow_dtb 28 = Some 4" "be_u32 overflow_dtb 32 = Some 0"
  "be_u32 overflow_dtb 40 = Some 3" "be_u32 overflow_dtb 44 = Some 4" "be_u32 overflow_dtb 48 = Some 15" "be_u32 overflow_dtb 56 = Some 1"
  "be_u32 overflow_dtb 68 = Some 3" "be_u32 overflow_dtb 72 = Some 4" "be_u32 overflow_dtb 76 = Some 27"
  by (simp_all add: overflow_dtb_def lit_def be_u32_def get_range_def be_word_def FDT_MAGIC_def)

lemma overflow_dtb_names:
  "cstr_len overflow_dtb 20 = Some 0" "cstr_len overflow_dtb 60 = Some 6" "cstr_len overflow_dtb 84 = Some 14"
  "cstr_len overflow_dtb 99 = Some 11" "cstr_len overflow_dtb 111 = Some 3"
  by (simp_all add: overflow_dtb_def lit_def cstr_len_def)

lemma overflow_dtb_ranges:
  "get_range overflow_dtb 20 20 = Some []" "get_range overflow_dtb 60 66 = Some (lit ''memory'')"
  "get_range overflow_dtb 36 40 = Some [0, 0, 0, 1]" "get_range overflow_dtb 52 56 = Some [0xff, 0xff, 0xff, 0xff]"
  "get_range overflow_dtb 80 84 = Some [0x80, 0, 0, 0]" "get_range overflow_dtb 84 98 = Some (lit ''#address-cells'')"
  "get_range overflow_dtb 99 110 = Some (lit ''#size-cells'')" "get_range overflow_dtb 111 114 = Some (lit ''reg'')"
  by (simp_all add: overflow_dtb_def lit_def get_range_def)

lemmas fdt_tokens = FDT_BEGIN_NODE_def FDT_END_NODE_def FDT_PROP_def FDT_NOP_def FDT_END_def

lemma lit_neq:
  "lit ''#address-cells'' \<noteq> lit ''timebase-frequency''" "lit ''#address-cells'' \<noteq> lit ''reg''" "lit ''#address-cells'' \<noteq> lit ''compatible''"
  "lit ''#address-cells'' \<noteq> lit ''interrupts''" "lit ''#address-cells'' \<noteq> lit ''reg-shift''"
  "lit ''#size-cells'' \<noteq> lit ''#address-cells''" "lit ''#size-cells'' \<noteq> lit ''timebase-frequency''" "lit ''#size-cells'' \<noteq> lit ''reg''"
  "lit ''#size-cells'' \<noteq> lit ''compatible''" "lit ''#size-cells'' \<noteq> lit ''interrupts''" "lit ''#size-cells'' \<noteq> lit ''reg-shift''"
  "lit ''reg'' \<noteq> lit ''#address-cells''" "lit ''reg'' \<noteq> lit ''#size-cells''" "lit ''reg'' \<noteq> lit ''timebase-frequency''"
  by (simp_all add: lit_def)

lemma overflow_values:
  "be_u32 [0, 0, 0, 1] 0 = Some 1" "be_u32 [0xff, 0xff, 0xff, 0xff] 0 = Some 0xffffffff" "be_u32 [0x80, 0, 0, 0] 0 = Some 0x80000000"
  by (simp_all add: be_u32_def get_range_def be_word_def)

lemma starts_memory: "starts_with (lit ''memory'') (lit ''memory'')" "\<not> starts_with (lit ''memory'') []"
  by (simp_all add: starts_with_def lit_def)

text \<open>The parser's contract is to reject a malformed blob with \<open>None\<close>; a blob with oversized cell
  counts panics instead.\<close>
theorem dt_cell_counts_overflow: "dt_parse overflow_dtb = Inl ArithOverflow"
proof -
  let ?l = "dt_loop overflow_dtb 84"
  let ?s1 = "(dt_start 24)\<lparr>depth := 1\<rparr>"
  let ?s2 = "?s1\<lparr>addr_cells := 1, pos := 40\<rparr>"
  let ?s3 = "?s2\<lparr>size_cells := 0xffffffff, pos := 56\<rparr>"
  let ?s4 = "?s3\<lparr>depth := 2, is_mem := (replicate 32 False)[2 := True], pos := 68\<rparr>"
  note facts = overflow_dtb_words overflow_dtb_names overflow_dtb_ranges overflow_values lit_neq starts_memory fdt_tokens
  have root: "(replicate 32 False)[Suc 0 := False] = replicate 32 False" by (simp add: list_update_same_conv)
  have 1: "?l (dt_start 16) = ?l ?s1"
    by (subst dt_loop.simps) (simp add: facts root begin_node_def align4_def dt_start_def)
  have 2: "?l ?s1 = ?l ?s2"
    by (subst dt_loop.simps) (simp add: facts fdt_prop_def cells_prop_def timebase_prop_def reg_prop_def match_prop_def align4_def dt_start_def)
  have 3: "?l ?s2 = ?l ?s3"
    by (subst dt_loop.simps) (simp add: facts fdt_prop_def cells_prop_def timebase_prop_def reg_prop_def match_prop_def align4_def dt_start_def)
  have 4: "?l ?s3 = ?l ?s4"
    by (subst dt_loop.simps) (simp add: facts begin_node_def align4_def dt_start_def numeral_2_eq_2)
  have 5: "?l ?s4 = Inl ArithOverflow"
    by (subst dt_loop.simps)
      (simp add: facts fdt_prop_def cells_prop_def timebase_prop_def reg_prop_def read_cells_def add_chk_def dt_start_def)
  show ?thesis using 1 2 3 4 5 by (simp add: dt_parse_def overflow_dtb_words)
qed

end
