(* ===== verification/Dt_Tree.thy ===== *)
theory Dt_Tree
  imports Dt
begin

unbundle bit_operations_syntax

text \<open>
  What the device-tree parser reads. A flattened tree is written out item by item; on such a blob the parser's
  loop is a run over the items (\<open>dt_parse_blob\<close>), and on the tree of a machine it finds exactly the machine.
\<close>

section \<open>Flattened trees\<close>

text \<open>A property names its key by an offset into the strings block.\<close>

datatype item = Begin bytes | End | Property nat bytes | Nop

definition pad4 :: "bytes \<Rightarrow> bytes" where
  "pad4 b = b @ replicate (align4 (length b) - length b) 0"

fun flat :: "item \<Rightarrow> bytes" where
  "flat (Begin name) = be_bytes 4 FDT_BEGIN_NODE @ pad4 (name @ [0])"
| "flat End = be_bytes 4 FDT_END_NODE"
| "flat (Property key val) = be_bytes 4 FDT_PROP @ be_bytes 4 (of_nat (length val) :: u32) @ be_bytes 4 (of_nat key :: u32) @ pad4 val"
| "flat Nop = be_bytes 4 FDT_NOP"

definition flat_all :: "item list \<Rightarrow> bytes" where
  "flat_all is = concat (map flat is) @ be_bytes 4 FDT_END"

text \<open>The blob: header, an empty reservation map, the structure and the strings.\<close>

definition fdt_blob :: "bytes \<Rightarrow> item list \<Rightarrow> bytes" where
  "fdt_blob strs is =
     (let n = 56 + length (flat_all is); word = be_bytes 4 :: u32 \<Rightarrow> bytes
      in word FDT_MAGIC @ word (of_nat (n + length strs)) @ word 56 @ word (of_nat n) @
         word 40 @ word 17 @ word 16 @ word 0 @ word (of_nat (length strs)) @ word (of_nat (n - 56)) @
         replicate 16 0 @ flat_all is @ strs)"

fun item_ok :: "bytes \<Rightarrow> item \<Rightarrow> bool" where
  "item_ok strs (Begin name) \<longleftrightarrow> 0 \<notin> set name"
| "item_ok strs (Property key val) \<longleftrightarrow> 0 \<in> set (drop key strs) \<and> length val < 2 ^ 32 \<and> key < 2 ^ 32"
| "item_ok strs _ \<longleftrightarrow> True"

definition key_at :: "bytes \<Rightarrow> nat \<Rightarrow> bytes" where
  "key_at strs key = takeWhile (\<lambda>b. b \<noteq> 0) (drop key strs)"

text \<open>One item's effect on the parser's state.\<close>

fun step_item :: "bytes \<Rightarrow> item \<Rightarrow> dt_state \<Rightarrow> dt_state option result" where
  "step_item strs (Begin name) s =
     (let d = depth s + 1
      in Inr (Some (s\<lparr>depth := d,
           is_mem := (if d < length (is_mem s) then (is_mem s)[d := starts_with (lit ''memory'') name] else is_mem s),
           node_is_uart := False, node_reg := None, node_shift := 0, node_is_rtc := False, node_is_virtio := False,
           node_virtio_irq := None, node_is_plic := False\<rparr>)))"
| "step_item strs End s = Inr (end_node s)"
| "step_item strs (Property key val) s =
     (let n = key_at strs key; l = length val
      in case Option.bind (cells_prop n val l s) (timebase_prop n val l) of None \<Rightarrow> Inr None
         | Some s \<Rightarrow> bindr (reg_prop n val l s) (\<lambda>r. Inr (Option.bind r (match_prop n val l))))"
| "step_item strs Nop s = Inr (Some s)"

fun run_items :: "bytes \<Rightarrow> item list \<Rightarrow> dt_state \<Rightarrow> dt_state option result" where
  "run_items strs [] s = Inr (Some s)"
| "run_items strs (i # is) s = bindr (step_item strs i s) (\<lambda>r. case r of None \<Rightarrow> Inr None | Some s \<Rightarrow> run_items strs is s)"

text \<open>The parser's position plays no part in what an item does.\<close>

definition moved :: "nat \<Rightarrow> dt_state \<Rightarrow> dt_state" where
  "moved p s = s\<lparr>pos := p\<rparr>"

lemma moved_cells: "cells_prop n v l (moved p s) = map_option (moved p) (cells_prop n v l s)"
  by (cases "be_u32 v 0") (simp_all add: moved_def cells_prop_def)

lemma moved_timebase: "timebase_prop n v l (moved p s) = map_option (moved p) (timebase_prop n v l s)"
  by (cases "be_u32 v 0") (simp_all add: moved_def timebase_prop_def)

lemma moved_match: "match_prop n v l (moved p s) = map_option (moved p) (match_prop n v l s)"
  by (cases "be_u32 v 0"; cases "n = lit ''interrupts''"; cases "n = lit ''reg-shift''") (simp_all add: moved_def match_prop_def Let_def)

lemma moved_reg: "reg_prop n v l (moved p s) = bindr (reg_prop n v l s) (\<lambda>r. Inr (map_option (moved p) r))"
  by (cases "add_chk (addr_cells s) (size_cells s)") (auto simp: moved_def reg_prop_def split: option.split)

lemma moved_commit:
  "commit_uart (moved p s) = moved p (commit_uart s)" "commit_rtc (moved p s) = moved p (commit_rtc s)"
  "commit_virtio (moved p s) = moved p (commit_virtio s)" "commit_plic (moved p s) = moved p (commit_plic s)"
  by (simp_all add: moved_def commit_uart_def commit_rtc_def commit_virtio_def commit_plic_def split: option.split)

lemma moved_end: "end_node (moved p s) = map_option (moved p) (end_node s)"
  by (simp add: end_node_def moved_commit Let_def) (simp add: moved_def)

lemmas moved_simps = moved_cells moved_timebase moved_match moved_reg moved_end

lemma moved_moved [simp]: "moved p (moved q s) = moved p s" "pos (moved p s) = p" "moved (pos s) s = s"
  by (simp_all add: moved_def)

section \<open>Reading what was written\<close>

lemma get_range_append: "get_range (pre @ xs @ post) (length pre) (length pre + length xs) = Some xs"
  by (simp add: get_range_def)

lemma be_u32_append: "be_u32 (pre @ be_bytes 4 w @ post) (length pre) = Some w"
  using get_range_append [of pre "be_bytes 4 w" post] by (simp add: be_u32_def)

lemma cstr_append: "0 \<notin> set name \<Longrightarrow> cstr_len (pre @ name @ 0 # post) (length pre) = Some (length name)"
  by (simp add: cstr_len_def position_Some_iff nth_append) (metis nth_mem)

lemma align4_length: "length (pad4 b) = align4 (length b)"
  using align4_ge [of "length b"] by (simp add: pad4_def)

lemma align4_add: "n mod 4 = 0 \<Longrightarrow> align4 (n + m) = n + align4 m"
  unfolding align4_def by presburger

lemma align4_mod: "align4 n mod 4 = 0"
  by (simp add: align4_def)

lemma flat_mod: "length (flat i) mod 4 = 0"
  by (cases i) (simp_all add: align4_length mod_add_eq [symmetric] align4_mod mod_add_left_eq [symmetric])


section \<open>The loop is a run over the items\<close>

lemma be_bytes_words [simp]: "be_u32 (be_bytes 4 w) 0 = Some w" "be_u32 (be_bytes 4 w @ post) 0 = Some w"
  using be_u32_append [of "[]" w post] be_u32_append [of "[]" w "[]"] by simp_all

lemma takeWhile_cstr:
  assumes "0 \<in> set xs"
  shows "position (\<lambda>b. b = 0) xs = Some (length (takeWhile (\<lambda>b. b \<noteq> 0) xs))" "length (takeWhile (\<lambda>b. b \<noteq> 0) xs) \<le> length xs"
  using assms by (induction xs) auto

lemma key_in_strings:
  assumes "0 \<in> set (drop key strs)"
  shows "cstr_len (pre @ strs) (length pre + key) = Some (length (key_at strs key))"
    "get_range (pre @ strs) (length pre + key) (length pre + key + length (key_at strs key)) = Some (key_at strs key)"
proof -
  have "key \<le> length strs" using assms by (cases "key \<le> length strs") auto
  moreover have "take (length (key_at strs key)) (drop key strs) = key_at strs key"
    unfolding key_at_def by (metis takeWhile_eq_take)
  ultimately show "cstr_len (pre @ strs) (length pre + key) = Some (length (key_at strs key))"
    "get_range (pre @ strs) (length pre + key) (length pre + key + length (key_at strs key)) = Some (key_at strs key)"
    using takeWhile_cstr [OF assms] by (simp_all add: cstr_len_def get_range_def key_at_def)
qed

lemma begin_read:
  assumes "length pre mod 4 = 0" "0 \<notin> set name" "dtb = pre @ flat (Begin name) @ post"
  shows "begin_node dtb (moved (length pre + 4) s) =
    Some (moved (length pre + length (flat (Begin name))) (the (projr (step_item strs (Begin name) s))))"
proof -
  let ?q = "pre @ be_bytes 4 FDT_BEGIN_NODE"
  have d: "dtb = ?q @ name @ 0 # (replicate (align4 (Suc (length name)) - Suc (length name)) 0 @ post)"
    using assms(3) by (simp add: pad4_def)
  have c: "cstr_len dtb (length pre + 4) = Some (length name)" using cstr_append [OF assms(2), of ?q] unfolding d by simp
  have g: "get_range dtb (length pre + 4) (length pre + 4 + length name) = Some name"
    using get_range_append [of ?q name] unfolding d by simp
  have "align4 (length pre + 4 + length name + 1) = length pre + 4 + align4 (Suc (length name))"
    using align4_add [of "length pre + 4" "Suc (length name)"] assms(1) by simp
  then show ?thesis
    by (simp add: begin_node_def c g align4_length Let_def moved_def)
qed

lemma prop_read:
  assumes al: "length pre mod 4 = 0" and ok: "item_ok strs (Property key val)"
    and d: "dtb = pre @ flat (Property key val) @ mid @ strs" and off: "off = length (pre @ flat (Property key val) @ mid)"
  shows "fdt_prop dtb off (moved (length pre + 4) s) =
    bindr (step_item strs (Property key val) s) (\<lambda>r. Inr (map_option (moved (length pre + length (flat (Property key val)))) r))"
proof -
  let ?q = "pre @ be_bytes 4 FDT_PROP" and ?l = "be_bytes 4 (of_nat (length val) :: u32)" and ?k = "be_bytes 4 (of_nat key :: u32)"
  have k: "0 \<in> set (drop key strs)" "length val < 2 ^ 32" "key < 2 ^ 32" using ok by simp_all
  have e: "dtb = (pre @ flat (Property key val) @ mid) @ strs" using d by simp
  have w: "be_u32 dtb (length pre + 4) = Some (of_nat (length val))" "be_u32 dtb (length pre + 4 + 4) = Some (of_nat key)"
    using be_u32_append [of ?q "of_nat (length val)"] be_u32_append [of "?q @ ?l" "of_nat key"] by (simp_all add: d add.commute)
  have n: "unat (of_nat (length val) :: u32) = length val" "unat (of_nat key :: u32) = key"
    using k(2,3) by (simp_all add: unat_of_nat take_bit_nat_eq_self)
  have v: "get_range dtb (length pre + 4 + 8) (length pre + 4 + 8 + length val) = Some val"
    using get_range_append [of "?q @ ?l @ ?k" val] by (simp add: d pad4_def add.commute [of 12])
  have c: "cstr_len dtb (off + key) = Some (length (key_at strs key))"
    "get_range dtb (off + key) (off + key + length (key_at strs key)) = Some (key_at strs key)"
    using key_in_strings [OF k(1), of "pre @ flat (Property key val) @ mid"] unfolding e off by simp_all
  have a: "align4 (length pre + 4 + 8 + length val) = length pre + length (flat (Property key val))"
    using align4_add [of "12 + length pre" "length val"] al by (simp add: align4_length mod_add_right_eq [symmetric, of 12 "length pre"])
  let ?n = "key_at strs key" and ?p = "moved (length pre + 4)" and ?e = "length pre + length (flat (Property key val))"
  have unf: "fdt_prop dtb off (?p s) =
    (case Option.bind (cells_prop ?n val (length val) (?p s)) (timebase_prop ?n val (length val)) of None \<Rightarrow> Inr None
     | Some s \<Rightarrow> bindr (reg_prop ?n val (length val) s) (\<lambda>r.
         Inr (Option.bind r (\<lambda>s. map_option (moved ?e) (match_prop ?n val (length val) s)))))"
    using a c w n v
    by (cases "Option.bind (cells_prop ?n val (length val) (?p s)) (timebase_prop ?n val (length val))")
      (simp_all add: fdt_prop_def Let_def moved_def [abs_def] del: flat.simps)
  show ?thesis
  proof (cases "Option.bind (cells_prop ?n val (length val) s) (timebase_prop ?n val (length val))")
    case None
    then have "Option.bind (cells_prop ?n val (length val) (?p s)) (timebase_prop ?n val (length val)) = None"
      by (cases "cells_prop ?n val (length val) s") (simp_all add: moved_simps)
    then show ?thesis using None unf by simp
  next
    case (Some t)
    then have "Option.bind (cells_prop ?n val (length val) (?p s)) (timebase_prop ?n val (length val)) = Some (?p t)"
      by (cases "cells_prop ?n val (length val) s") (simp_all add: moved_simps)
    then show ?thesis
      using Some unf
      by (cases "reg_prop ?n val (length val) t")
        (auto simp: moved_simps option.map_comp o_def bind_map_option map_option_bind simp del: flat.simps intro!: bind_option_cong)
  qed
qed

lemma dt_loop_unfold:
  assumes "be_u32 dtb (pos s) = Some tok"
  shows "dt_loop dtb off s =
    (let s' = moved (pos s + 4) s
     in if tok = FDT_BEGIN_NODE then (case begin_node dtb s' of None \<Rightarrow> Inr None | Some s' \<Rightarrow> dt_loop dtb off s')
        else if tok = FDT_END_NODE then (case end_node s' of None \<Rightarrow> Inr None | Some s' \<Rightarrow> dt_loop dtb off s')
        else if tok = FDT_PROP then bindr (fdt_prop dtb off s') (\<lambda>r. case r of None \<Rightarrow> Inr None | Some s' \<Rightarrow> dt_loop dtb off s')
        else if tok = FDT_NOP then dt_loop dtb off s' else if tok = FDT_END then Inr (Some s') else Inr None)"
  using assms
  by (subst dt_loop.simps) (simp add: moved_def Let_def bindr_def split: sum.split)

lemma step_read:
  assumes al: "length pre mod 4 = 0" and ok: "item_ok strs i" and d: "dtb = pre @ flat i @ mid @ strs"
    and off: "off = length (pre @ flat i @ mid)" and at: "pos s = length pre"
  shows "dt_loop dtb off s =
    bindr (step_item strs i s) (\<lambda>r. case r of None \<Rightarrow> Inr None | Some s' \<Rightarrow> dt_loop dtb off (moved (length pre + length (flat i)) s'))"
proof (cases i)
  case (Begin name)
  have tok: "be_u32 dtb (pos s) = Some FDT_BEGIN_NODE"
    using be_u32_append [of pre FDT_BEGIN_NODE] by (simp add: d at Begin)
  show ?thesis
    using begin_read [OF al _ d [unfolded Begin], of s strs] ok Begin at
    by (simp add: dt_loop_unfold [OF tok] Let_def)
next
  case End
  have tok: "be_u32 dtb (pos s) = Some FDT_END_NODE"
    using be_u32_append [of pre FDT_END_NODE] by (simp add: d at End)
  show ?thesis
    using End at by (cases "end_node s") (simp_all add: dt_loop_unfold [OF tok] Let_def fdt_tokens moved_end)
next
  case (Property key val)
  have tok: "be_u32 dtb (pos s) = Some FDT_PROP"
    using be_u32_append [of pre FDT_PROP] by (simp add: d at Property)
  show ?thesis
    unfolding Property using prop_read [OF al ok [unfolded Property] d [unfolded Property] off [unfolded Property], of s] at
    by (cases "step_item strs (Property key val) s")
      (simp_all add: dt_loop_unfold [OF tok] Let_def fdt_tokens del: flat.simps step_item.simps split: option.split)
next
  case Nop
  have tok: "be_u32 dtb (pos s) = Some FDT_NOP"
    using be_u32_append [of pre FDT_NOP] by (simp add: d at Nop)
  show ?thesis
    using Nop at by (simp add: dt_loop_unfold [OF tok] Let_def fdt_tokens)
qed

lemma moved_step: "step_item strs i (moved p s) = bindr (step_item strs i s) (\<lambda>r. Inr (map_option (moved p) r))"
proof (cases i)
  case (Property key val)
  let ?n = "key_at strs key" and ?l = "length val"
  show ?thesis
  proof (cases "Option.bind (cells_prop ?n val ?l s) (timebase_prop ?n val ?l)")
    case None
    then have "Option.bind (cells_prop ?n val ?l (moved p s)) (timebase_prop ?n val ?l) = None"
      by (cases "cells_prop ?n val ?l s") (simp_all add: moved_simps)
    then show ?thesis using None Property by simp
  next
    case (Some t)
    then have "Option.bind (cells_prop ?n val ?l (moved p s)) (timebase_prop ?n val ?l) = Some (moved p t)"
      by (cases "cells_prop ?n val ?l s") (simp_all add: moved_simps)
    then show ?thesis
      using Some Property by (cases "reg_prop ?n val ?l t") (auto simp: moved_simps map_option_bind bind_map_option o_def)
  qed
qed (simp_all add: moved_end Let_def, simp add: moved_def)

lemma moved_run: "run_items strs is (moved p s) = bindr (run_items strs is s) (\<lambda>r. Inr (map_option (moved p) r))"
proof (induction "is" arbitrary: s)
  case (Cons i "is")
  show ?case
  proof (cases "step_item strs i s")
    case (Inr r)
    then show ?thesis using Cons.IH by (cases r) (simp_all add: moved_step)
  qed (simp add: moved_step)
qed simp

lemma loop_items:
  assumes "length pre mod 4 = 0" "\<forall>i\<in>set is. item_ok strs i" "dtb = pre @ flat_all is @ strs" "off = length (pre @ flat_all is)"
    and "pos s = length pre"
  shows "dt_loop dtb off s =
    bindr (run_items strs is s) (\<lambda>r. Inr (map_option (moved off) r))"
  using assms
proof (induction "is" arbitrary: pre s)
  case Nil
  have tok: "be_u32 dtb (pos s) = Some FDT_END"
    using be_u32_append [of pre FDT_END] Nil by (simp add: flat_all_def)
  have "dt_loop dtb off s = Inr (Some (moved (pos s + 4) s))" by (simp add: dt_loop_unfold [OF tok] Let_def fdt_tokens)
  then show ?case using Nil(4,5) by (simp add: flat_all_def)
next
  case (Cons i "is")
  have d: "dtb = pre @ flat i @ flat_all is @ strs" "off = length (pre @ flat i @ flat_all is)"
    using Cons.prems(3,4) by (simp_all add: flat_all_def)
  have "length (pre @ flat i) mod 4 = 0" using Cons.prems(1) flat_mod [of i] by (metis length_append mod_add_eq add_0 mod_0)
  then have IH: "dt_loop dtb off t = bindr (run_items strs is t) (\<lambda>r. Inr (map_option (moved off) r))"
    if "pos t = length pre + length (flat i)" for t
    using Cons.IH [of "pre @ flat i" t] Cons.prems(2) d that by simp
  have rest: "dt_loop dtb off (moved (length pre + length (flat i)) t) = bindr (run_items strs is t) (\<lambda>r. Inr (map_option (moved off) r))" for t
    by (simp add: IH moved_run bindr_assoc option.map_comp o_def)
  have ok: "item_ok strs i" using Cons.prems(2) by simp
  show ?case
  proof (cases "step_item strs i s")
    case (Inr r)
    then show ?thesis by (cases r) (simp_all add: step_read [OF Cons.prems(1) ok d Cons.prems(5)] rest)
  qed (simp add: step_read [OF Cons.prems(1) ok d Cons.prems(5)])
qed


text \<open>The whole blob: parsing it is a run over its items.\<close>

definition machine_of :: "dt_state option \<Rightarrow> machine_info option" where
  "machine_of r =
     (case r of None \<Rightarrow> None
      | Some s \<Rightarrow>
          (case (uart s, ram s, timebase s, rtc s) of
             (Some (ub, sh), Some (rb, rs), Some hz, Some rt) \<Rightarrow>
               Some \<lparr>ram_base = rb, ram_size = rs, timebase_hz = hz, uart_base = ub, uart_reg_shift = sh,
                     uart_irq = st_uart_irq s, rtc_base = rt, virtio_mmio = st_virtio s,
                     virtio_mmio_count = virtio_count s, virtio_mmio_irq = st_virtio_irq s, plic_base = st_plic s\<rparr>
           | _ \<Rightarrow> None))"

lemma machine_of_moved: "machine_of (map_option (moved p) r) = machine_of r"
  by (cases r) (simp_all add: machine_of_def moved_def split: option.split)

lemma dt_start_moved: "dt_start p = moved p (dt_start 0)"
  by (simp add: dt_start_def moved_def)

lemma fdt_blob_words:
  assumes "length (fdt_blob strs is) < 2 ^ 32"
  shows "be_u32 (fdt_blob strs is) 0 = Some FDT_MAGIC" "be_u32 (fdt_blob strs is) 4 = Some (of_nat (length (fdt_blob strs is)))"
    "be_u32 (fdt_blob strs is) 8 = Some 56" "be_u32 (fdt_blob strs is) 12 = Some (of_nat (56 + length (flat_all is)))"
proof -
  let ?w = "be_bytes 4 :: u32 \<Rightarrow> bytes" and ?n = "56 + length (flat_all is)"
  have l: "length (fdt_blob strs is) = ?n + length strs" by (simp add: fdt_blob_def Let_def)
  show "be_u32 (fdt_blob strs is) 0 = Some FDT_MAGIC" by (simp add: fdt_blob_def Let_def)
  show "be_u32 (fdt_blob strs is) 4 = Some (of_nat (length (fdt_blob strs is)))"
    using be_u32_append [of "?w FDT_MAGIC"] unfolding l by (simp add: fdt_blob_def Let_def)
  show "be_u32 (fdt_blob strs is) 8 = Some 56"
    using be_u32_append [of "?w FDT_MAGIC @ ?w (of_nat (?n + length strs))"] by (simp add: fdt_blob_def Let_def)
  show "be_u32 (fdt_blob strs is) 12 = Some (of_nat ?n)"
    using be_u32_append [of "?w FDT_MAGIC @ ?w (of_nat (?n + length strs)) @ ?w 56"] by (simp add: fdt_blob_def Let_def)
qed

lemma dt_parse_blob:
  assumes ok: "\<forall>i\<in>set is. item_ok strs i" and len: "length (fdt_blob strs is) < 2 ^ 32"
  shows "dt_parse (fdt_blob strs is) = bindr (run_items strs is (dt_start 0)) (\<lambda>r. Inr (machine_of r))"
proof -
  let ?b = "fdt_blob strs is" and ?n = "56 + length (flat_all is)"
  have l: "length ?b = ?n + length strs" by (simp add: fdt_blob_def Let_def)
  then have n: "unat (of_nat ?n :: u32) = ?n" using len by (simp only: unat_of_nat take_bit_nat_eq_self) simp
  obtain h where h: "?b = h @ flat_all is @ strs" "length h = 56"
    by (rule that [of "take 56 ?b"]) (simp_all add: fdt_blob_def Let_def)
  have "dt_loop ?b ?n (dt_start 56) = bindr (run_items strs is (dt_start 56)) (\<lambda>r. Inr (map_option (moved ?n) r))"
    by (rule loop_items [OF _ ok h(1)]) (simp_all add: h(2) dt_start_def)
  also have "\<dots> = bindr (run_items strs is (dt_start 0)) (\<lambda>r. Inr (map_option (moved ?n) r))"
    by (simp add: dt_start_moved [of 56] moved_run bindr_assoc option.map_comp o_def)
  finally have "dt_loop ?b ?n (dt_start 56) = bindr (run_items strs is (dt_start 0)) (\<lambda>r. Inr (map_option (moved ?n) r))" .
  moreover have "dt_parse ?b = bindr (dt_loop ?b ?n (dt_start 56)) (\<lambda>r. Inr (machine_of r))"
    using fdt_blob_words [OF len] n by (simp add: dt_parse_def machine_of_def del: of_nat_add)
  ultimately show ?thesis by (simp add: bindr_assoc machine_of_moved)
qed


section \<open>The tree of a machine\<close>

definition board_keys :: "string list" where
  "board_keys = [''#address-cells'', ''#size-cells'', ''timebase-frequency'', ''reg'', ''compatible'', ''interrupts'', ''reg-shift'']"

definition board_strings :: bytes where
  "board_strings = concat (map (\<lambda>k. lit k @ [0]) board_keys)"

record platform =
  p_ram :: "usize \<times> usize"
  p_hz :: u32
  p_uart :: "usize \<times> u32 \<times> u32"
  p_rtc :: usize
  p_plic :: usize
  p_virtio :: "(usize \<times> u32) list"

abbreviation cell :: "u32 \<Rightarrow> bytes" where
  "cell \<equiv> be_bytes 4"

definition cells2 :: "usize \<Rightarrow> bytes" where
  "cells2 a = cell (ucast (drop_bit 32 a)) @ cell (ucast a)"

definition node :: "string \<Rightarrow> item list \<Rightarrow> item list" where
  "node name is = Begin (lit name) # is @ [End]"

definition device_node :: "string \<Rightarrow> string \<Rightarrow> usize \<Rightarrow> usize \<Rightarrow> item list \<Rightarrow> item list" where
  "device_node name like base extent is =
     node name (is @ [Property 46 (cells2 base @ cells2 extent), Property 50 (lit like @ [0])])"

fun virtio_node :: "usize \<times> u32 \<Rightarrow> item list" where
  "virtio_node (base, irq) = device_node ''virtio_mmio'' ''virtio,mmio'' base 0x1000 [Property 61 (cell irq)]"

text \<open>\<open>cl\<close> says which device's node closes the bus: the interrupt controller's, or that of a virtio slot.\<close>

datatype closer = Controller | Slot

definition bus_items :: "closer \<Rightarrow> platform \<Rightarrow> item list" where
  "bus_items cl p = (case p_uart p of (ub, shift, irq) \<Rightarrow>
     device_node ''serial'' ''ns16550a'' ub 0x100 [Property 61 (cell irq), Property 72 (cell shift)] @
     device_node ''rtc'' ''google,goldfish-rtc'' (p_rtc p) 0x1000 [] @
     (let plic = device_node ''plic'' ''riscv,plic0'' (p_plic p) 0x600000 []; slots = concat (map virtio_node (p_virtio p))
      in if cl = Controller then slots @ plic else plic @ slots))"

definition platform_items :: "closer \<Rightarrow> platform \<Rightarrow> item list" where
  "platform_items cl p =
     [Begin [], Property 0 (cell 2), Property 15 (cell 2)] @
     node ''cpus'' [Property 27 (cell (p_hz p))] @
     node ''memory@80000000'' [Property 46 (cells2 (fst (p_ram p)) @ cells2 (snd (p_ram p)))] @
     node ''soc'' (bus_items cl p) @ [End]"

definition platform_blob :: "closer \<Rightarrow> platform \<Rightarrow> bytes" where
  "platform_blob cl p = fdt_blob board_strings (platform_items cl p)"

lemma board_key_at:
  "key_at board_strings 0 = lit ''#address-cells''" "key_at board_strings 15 = lit ''#size-cells''"
  "key_at board_strings 27 = lit ''timebase-frequency''" "key_at board_strings 46 = lit ''reg''"
  "key_at board_strings 50 = lit ''compatible''" "key_at board_strings 61 = lit ''interrupts''" "key_at board_strings 72 = lit ''reg-shift''"
  by (simp_all add: key_at_def board_strings_def board_keys_def lit_def)

lemma board_key_ok:
  "0 \<in> set (drop 0 board_strings)" "0 \<in> set (drop 15 board_strings)" "0 \<in> set (drop 27 board_strings)" "0 \<in> set (drop 46 board_strings)"
  "0 \<in> set (drop 50 board_strings)" "0 \<in> set (drop 61 board_strings)" "0 \<in> set (drop 72 board_strings)"
  by (simp_all add: board_strings_def board_keys_def lit_def)

lemma platform_items_ok: "\<forall>i\<in>set (platform_items cl p). item_ok board_strings i"
proof -
  have "\<forall>i\<in>set (virtio_node x). item_ok board_strings i" for x
    by (cases x) (simp add: device_node_def node_def board_key_ok lit_def cells2_def)
  then show ?thesis
    using board_key_ok by (auto simp: platform_items_def bus_items_def node_def device_node_def cells2_def lit_def Let_def split: prod.split if_splits)
qed

lemma cells2_read:
  "read_cells (cells2 a @ post) 0 2 = Some a" "read_cells (cells2 b @ cells2 a) 8 2 = Some a"
proof -
  have e: "push_bit 32 (ucast (ucast (drop_bit 32 a) :: u32)) OR ucast (ucast a :: u32) = a" for a :: u64
    by (rule bit_word_eqI) (auto simp: bit_simps)
  have w: "be_u32 (cells2 a @ post) 0 = Some (ucast (drop_bit 32 a))" "be_u32 (cells2 a @ post) 4 = Some (ucast a)" for a post
    using be_u32_append [of "cell (ucast (drop_bit 32 a))" "ucast a" post] by (simp_all add: cells2_def)
  show "read_cells (cells2 a @ post) 0 2 = Some a" using w by (simp add: read_cells_def numeral_2_eq_2 e)
  have "be_u32 (cells2 b @ cells2 a) 8 = Some (ucast (drop_bit 32 a))" "be_u32 (cells2 b @ cells2 a) 12 = Some (ucast a)"
    using be_u32_append [of "cells2 b" "ucast (drop_bit 32 a)" "cell (ucast a)"]
      be_u32_append [of "cells2 b @ cell (ucast (drop_bit 32 a))" "ucast a" "[]"] by (simp_all add: cells2_def)
  then show "read_cells (cells2 b @ cells2 a) 8 2 = Some a" by (simp add: read_cells_def numeral_2_eq_2 e)
qed


text \<open>What a run over the nodes of the tree collects.\<close>

record found =
  f_ram :: "(usize \<times> usize) option"
  f_hz :: "u64 option"
  f_uart :: "(usize \<times> u32) option"
  f_uart_irq :: u32
  f_rtc :: "usize option"
  f_virtio :: "usize list \<times> u32 list \<times> nat"
  f_plic :: usize

definition found_of :: "dt_state \<Rightarrow> found" where
  "found_of s = \<lparr>f_ram = ram s, f_hz = timebase s, f_uart = uart s, f_uart_irq = st_uart_irq s, f_rtc = rtc s,
     f_virtio = (st_virtio s, st_virtio_irq s, virtio_count s), f_plic = st_plic s\<rparr>"

definition inside :: "nat \<Rightarrow> dt_state \<Rightarrow> bool" where
  "inside d s \<longleftrightarrow> depth s = d \<and> length (is_mem s) = 32 \<and> addr_cells s = 2 \<and> size_cells s = 2"

definition collects :: "nat \<Rightarrow> item list \<Rightarrow> (found \<Rightarrow> found) \<Rightarrow> bool" where
  "collects d is f \<longleftrightarrow> (\<forall>s. inside d s \<longrightarrow>
     (\<exists>s'. run_items board_strings is s = Inr (Some s') \<and> inside d s' \<and> found_of s' = f (found_of s)))"

lemma run_append: "run_items strs (xs @ ys) s = bindr (run_items strs xs s) (\<lambda>r. case r of None \<Rightarrow> Inr None | Some s \<Rightarrow> run_items strs ys s)"
proof (induction xs arbitrary: s)
  case (Cons i xs)
  show ?case
  proof (cases "step_item strs i s")
    case (Inr r)
    then show ?thesis using Cons.IH by (cases r) simp_all
  qed simp
qed simp

lemma collects_append: "collects d xs f \<Longrightarrow> collects d ys g \<Longrightarrow> collects d (xs @ ys) (g \<circ> f)"
  unfolding collects_def run_append by fastforce

lemma collects_Nil: "collects d [] id"
  by (simp add: collects_def)

lemma board_lits:
  "lit ''#size-cells'' \<noteq> lit ''#address-cells''" "lit ''timebase-frequency'' \<noteq> lit ''#address-cells''" "lit ''timebase-frequency'' \<noteq> lit ''#size-cells''"
  "lit ''timebase-frequency'' \<noteq> lit ''reg''" "lit ''timebase-frequency'' \<noteq> lit ''compatible''" "lit ''timebase-frequency'' \<noteq> lit ''interrupts''"
  "lit ''timebase-frequency'' \<noteq> lit ''reg-shift''" "lit ''reg'' \<noteq> lit ''compatible''" "lit ''reg'' \<noteq> lit ''interrupts''" "lit ''reg'' \<noteq> lit ''reg-shift''"
  "lit ''compatible'' \<noteq> lit ''#address-cells''" "lit ''compatible'' \<noteq> lit ''#size-cells''" "lit ''compatible'' \<noteq> lit ''timebase-frequency''"
  "lit ''compatible'' \<noteq> lit ''reg''" "lit ''compatible'' \<noteq> lit ''interrupts''" "lit ''compatible'' \<noteq> lit ''reg-shift''"
  "lit ''interrupts'' \<noteq> lit ''#address-cells''" "lit ''interrupts'' \<noteq> lit ''#size-cells''" "lit ''interrupts'' \<noteq> lit ''timebase-frequency''"
  "lit ''interrupts'' \<noteq> lit ''reg''" "lit ''interrupts'' \<noteq> lit ''compatible''" "lit ''interrupts'' \<noteq> lit ''reg-shift''"
  "lit ''reg-shift'' \<noteq> lit ''#address-cells''" "lit ''reg-shift'' \<noteq> lit ''#size-cells''" "lit ''reg-shift'' \<noteq> lit ''timebase-frequency''"
  "lit ''reg-shift'' \<noteq> lit ''reg''" "lit ''reg-shift'' \<noteq> lit ''compatible''" "lit ''reg-shift'' \<noteq> lit ''interrupts''"
  by (simp_all add: lit_def)

lemma board_windows:
  "has_window (lit ''ns16550a'' @ [0]) (lit ''ns16550'')" "\<not> has_window (lit ''ns16550a'' @ [0]) (lit ''goldfish'')"
  "\<not> has_window (lit ''ns16550a'' @ [0]) (lit ''virtio,mmio'')" "\<not> has_window (lit ''ns16550a'' @ [0]) (lit ''riscv,plic0'')"
  "\<not> has_window (lit ''google,goldfish-rtc'' @ [0]) (lit ''ns16550'')" "has_window (lit ''google,goldfish-rtc'' @ [0]) (lit ''goldfish'')"
  "\<not> has_window (lit ''google,goldfish-rtc'' @ [0]) (lit ''virtio,mmio'')" "\<not> has_window (lit ''google,goldfish-rtc'' @ [0]) (lit ''riscv,plic0'')"
  "\<not> has_window (lit ''riscv,plic0'' @ [0]) (lit ''ns16550'')" "\<not> has_window (lit ''riscv,plic0'' @ [0]) (lit ''goldfish'')"
  "\<not> has_window (lit ''riscv,plic0'' @ [0]) (lit ''virtio,mmio'')" "has_window (lit ''riscv,plic0'' @ [0]) (lit ''riscv,plic0'')"
  "\<not> has_window (lit ''virtio,mmio'' @ [0]) (lit ''ns16550'')" "\<not> has_window (lit ''virtio,mmio'' @ [0]) (lit ''goldfish'')"
  "has_window (lit ''virtio,mmio'' @ [0]) (lit ''virtio,mmio'')" "\<not> has_window (lit ''virtio,mmio'' @ [0]) (lit ''riscv,plic0'')"
  by (simp_all add: has_window_def starts_with_def lit_def)

lemma board_names:
  "starts_with (lit ''memory'') (lit ''memory@80000000'')" "\<not> starts_with (lit ''memory'') (lit ''cpus'')"
  "\<not> starts_with (lit ''memory'') (lit ''serial'')" "\<not> starts_with (lit ''memory'') (lit ''rtc'')"
  "\<not> starts_with (lit ''memory'') (lit ''plic'')" "\<not> starts_with (lit ''memory'') (lit ''virtio_mmio'')"
  "\<not> starts_with (lit ''memory'') (lit ''soc'')"
  by (simp_all add: starts_with_def lit_def)


lemmas prop_defs = cells_prop_def timebase_prop_def reg_prop_def match_prop_def

lemma step_keys:
  "step_item board_strings (Property 27 (cell c)) s = Inr (Some (s\<lparr>timebase := Some (ucast c)\<rparr>))"
  "step_item board_strings (Property 61 (cell c)) s = Inr (Some (s\<lparr>node_virtio_irq := Some c\<rparr>))"
  "step_item board_strings (Property 72 (cell c)) s = Inr (Some (s\<lparr>node_shift := c\<rparr>))"
  "step_item board_strings (Property 50 v) s = Inr (Some (s\<lparr>node_is_uart := node_is_uart s \<or> has_window v (lit ''ns16550''),
     node_is_rtc := node_is_rtc s \<or> has_window v (lit ''goldfish''), node_is_virtio := node_is_virtio s \<or> has_window v (lit ''virtio,mmio''),
     node_is_plic := node_is_plic s \<or> has_window v (lit ''riscv,plic0'')\<rparr>))"
  by (simp_all add: board_key_at prop_defs board_lits board_lits [symmetric] Let_def)

lemma step_reg:
  assumes "addr_cells s = 2" "size_cells s = 2"
  shows "step_item board_strings (Property 46 (cells2 b @ cells2 n)) s =
    Inr (Some (s\<lparr>ram := (if depth s < length (is_mem s) \<and> is_mem s ! depth s then Some (b, n) else ram s), node_reg := Some b\<rparr>))"
proof -
  have "length (cells2 b @ cells2 n) = 16" by (simp add: cells2_def)
  then show ?thesis
    using assms by (simp add: board_key_at prop_defs board_lits board_lits [symmetric] lit_neq Let_def cells2_read add_chk_def)
qed

lemmas run_simps = run_append node_def device_node_def step_keys step_reg board_names board_windows
  end_node_def commit_uart_def commit_rtc_def commit_virtio_def commit_plic_def found_of_def

lemma cpus_collects: "collects 1 (node ''cpus'' [Property 27 (cell hz)]) (\<lambda>f. f\<lparr>f_hz := Some (ucast hz)\<rparr>)"
  unfolding collects_def by (simp add: run_simps inside_def del: step_item.simps(3))

lemma memory_collects:
  "collects 1 (node ''memory@80000000'' [Property 46 (cells2 b @ cells2 n)]) (\<lambda>f. f\<lparr>f_ram := Some (b, n)\<rparr>)"
  unfolding collects_def by (simp add: run_simps inside_def del: step_item.simps(3))

lemma uart_collects:
  "collects 2 (device_node ''serial'' ''ns16550a'' b n [Property 61 (cell irq), Property 72 (cell shift)])
     (\<lambda>f. if f_uart f = None then f\<lparr>f_uart := Some (b, shift), f_uart_irq := irq\<rparr> else f)"
  unfolding collects_def by (auto simp: run_simps inside_def simp del: step_item.simps(3))

lemma rtc_collects:
  "collects 2 (device_node ''rtc'' ''google,goldfish-rtc'' b n []) (\<lambda>f. if f_rtc f = None then f\<lparr>f_rtc := Some b\<rparr> else f)"
  unfolding collects_def by (auto simp: run_simps inside_def simp del: step_item.simps(3))

lemma plic_collects: "collects 2 (device_node ''plic'' ''riscv,plic0'' b n []) (\<lambda>f. f\<lparr>f_plic := b\<rparr>)"
  unfolding collects_def by (simp add: run_simps inside_def del: step_item.simps(3))

fun put_virtio :: "usize \<times> u32 \<Rightarrow> usize list \<times> u32 list \<times> nat \<Rightarrow> usize list \<times> u32 list \<times> nat" where
  "put_virtio (b, i) (bs, is, n) = (if n < length bs then (bs[n := b], is[n := i], n + 1) else (bs, is, n))"

lemma virtio_collects: "collects 2 (virtio_node v) (\<lambda>f. f\<lparr>f_virtio := put_virtio v (f_virtio f)\<rparr>)"
  unfolding collects_def by (cases v) (auto simp: run_simps inside_def simp del: step_item.simps(3))


text \<open>The flags of the last node stay set: an enclosing node that closes next commits that node again.\<close>

definition closing :: "dt_state \<Rightarrow> bool \<times> bool \<times> bool \<times> bool \<times> usize option \<times> u32 option" where
  "closing s = (node_is_uart s, node_is_rtc s, node_is_virtio s, node_is_plic s, node_reg s, node_virtio_irq s)"

definition ends_with :: "nat \<Rightarrow> item list \<Rightarrow> bool \<times> bool \<times> bool \<times> bool \<times> usize option \<times> u32 option \<Rightarrow> bool" where
  "ends_with d is k \<longleftrightarrow> (\<forall>s s'. inside d s \<longrightarrow> run_items board_strings is s = Inr (Some s') \<longrightarrow> closing s' = k)"

lemma ends_with_append: "collects d xs f \<Longrightarrow> ends_with d ys k \<Longrightarrow> ends_with d (xs @ ys) k"
  unfolding collects_def ends_with_def run_append by fastforce

lemma plic_ends: "ends_with 2 (device_node ''plic'' ''riscv,plic0'' b n []) (False, False, False, True, Some b, None)"
  unfolding ends_with_def by (auto simp: run_simps inside_def closing_def simp del: step_item.simps(3))

lemma virtio_ends: "ends_with 2 (virtio_node v) (False, False, True, False, Some (fst v), Some (snd v))"
  unfolding ends_with_def by (cases v) (auto simp: run_simps inside_def closing_def simp del: step_item.simps(3) split: if_splits)

lemma virtios_collect: "collects 2 (concat (map virtio_node vs)) (\<lambda>f. f\<lparr>f_virtio := fold put_virtio vs (f_virtio f)\<rparr>)"
proof (induction vs)
  case (Cons v vs)
  show ?case using collects_append [OF virtio_collects [of v] Cons.IH] by (simp add: o_def)
qed (simp add: collects_def)

definition close_with :: "bool \<times> bool \<times> bool \<times> bool \<times> usize option \<times> u32 option \<Rightarrow> found \<Rightarrow> found" where
  "close_with = (\<lambda>(u, r, v, p, reg, irq) f.
     case reg of None \<Rightarrow> f
     | Some b \<Rightarrow> (let f = (if v then f\<lparr>f_virtio := put_virtio (b, case irq of None \<Rightarrow> 0 | Some i \<Rightarrow> i) (f_virtio f)\<rparr> else f)
                 in if p then f\<lparr>f_plic := b\<rparr> else f))"

lemma end_closes:
  assumes "inside (Suc d) s" "closing s = (False, False, v, p, reg, irq)"
  shows "\<exists>s'. run_items board_strings [End] s = Inr (Some s') \<and> inside d s' \<and> closing s' = closing s \<and>
    found_of s' = close_with (closing s) (found_of s)"
proof -
  have k: "\<not> node_is_uart s" "\<not> node_is_rtc s" "node_is_virtio s = v" "node_is_plic s = p" "node_reg s = reg" "node_virtio_irq s = irq"
    using assms(2) by (simp_all add: closing_def)
  show ?thesis
    using assms(1) k by (cases v; cases p; cases reg) (simp_all add: run_simps inside_def closing_def close_with_def)
qed


section \<open>Reading a machine\<close>

text \<open>The first eight slots, in the order of their nodes.\<close>

lemma fold_put_virtio:
  assumes "length bs = 8" "length is = 8" "n \<le> 8"
  shows "fold put_virtio vs (bs, is, n) =
    (let k = min (length vs) (8 - n)
     in (take n bs @ map fst (take k vs) @ drop (n + k) bs, take n is @ map snd (take k vs) @ drop (n + k) is, n + k))"
  using assms
proof (induction vs arbitrary: bs "is" n)
  case (Cons v vs)
  obtain b i where v: "v = (b, i)" by (cases v)
  show ?case
  proof (cases "n < 8")
    case True
    then have "take (Suc n) (bs[n := b]) = take n bs @ [b]" "take (Suc n) (is[n := i]) = take n is @ [i]"
      using Cons.prems by (simp_all add: take_Suc_conv_app_nth)
    moreover have "min (length vs) (8 - Suc n) + Suc n = n + min (Suc (length vs)) (8 - n)" using True by simp
    ultimately show ?thesis
      using Cons.IH [of "bs[n := b]" "is[n := i]" "Suc n"] Cons.prems True
      by (simp add: v Let_def min_def drop_update_cancel Suc_diff_Suc [symmetric])
  next
    case False
    then show ?thesis using Cons by (simp add: v Let_def)
  qed
qed (simp add: Let_def)

definition slots_of :: "(usize \<times> u32) list \<Rightarrow> usize list \<times> u32 list \<times> nat" where
  "slots_of vs = (let k = min (length vs) 8
     in (map fst (take k vs) @ replicate (8 - k) 0, map snd (take k vs) @ replicate (8 - k) 0, k))"

lemma fold_put_slots: "fold put_virtio vs (replicate 8 0, replicate 8 0, 0) = slots_of vs"
  by (subst fold_put_virtio) (simp_all add: slots_of_def Let_def)

lemma slots_of_first:
  assumes "slots_of vs = (bs, is, n)"
  shows "length bs = 8" "length is = 8" "n = min (length vs) 8" "take n bs = map fst (take 8 vs)" "take n is = map snd (take 8 vs)"
  using assms by (auto simp: slots_of_def Let_def min_def)

definition read_machine :: "closer \<Rightarrow> platform \<Rightarrow> machine_info" where
  "read_machine cl p =
     (let again = (if cl = Controller \<or> p_virtio p = [] then [] else replicate 2 (List.last (p_virtio p)))
      in case slots_of (p_virtio p @ again) of (bases, irqs, n) \<Rightarrow>
         \<lparr>ram_base = fst (p_ram p), ram_size = snd (p_ram p), timebase_hz = ucast (p_hz p),
          uart_base = fst (p_uart p), uart_reg_shift = fst (snd (p_uart p)), uart_irq = snd (snd (p_uart p)), rtc_base = p_rtc p,
          virtio_mmio = bases, virtio_mmio_count = n, virtio_mmio_irq = irqs, plic_base = p_plic p\<rparr>)"

lemma slots_end:
  "collects 2 xs f \<Longrightarrow> vs \<noteq> [] \<Longrightarrow>
    ends_with 2 (xs @ concat (map virtio_node vs)) (False, False, True, False, Some (fst (List.last vs)), Some (snd (List.last vs)))"
proof (induction vs arbitrary: xs f)
  case (Cons v vs)
  note c = collects_append [OF Cons.prems(1) virtio_collects [of v]]
  show ?case
  proof (cases "vs = []")
    case True
    then show ?thesis using ends_with_append [OF Cons.prems(1) virtio_ends [of v]] by simp
  next
    case False
    then show ?thesis using Cons.IH [OF c False] by simp
  qed
qed simp


definition found_start :: found where
  "found_start = \<lparr>f_ram = None, f_hz = None, f_uart = None, f_uart_irq = 0, f_rtc = None, f_virtio = (replicate 8 0, replicate 8 0, 0), f_plic = 0\<rparr>"

text \<open>What the bus adds, and what closing it and the root commits again.\<close>

definition bus_found :: "platform \<Rightarrow> found \<Rightarrow> found" where
  "bus_found p f = f\<lparr>f_uart := Some (fst (p_uart p), fst (snd (p_uart p))), f_uart_irq := snd (snd (p_uart p)), f_rtc := Some (p_rtc p),
     f_virtio := fold put_virtio (p_virtio p) (f_virtio f), f_plic := p_plic p\<rparr>"

definition bus_closing :: "closer \<Rightarrow> platform \<Rightarrow> bool \<times> bool \<times> bool \<times> bool \<times> usize option \<times> u32 option" where
  "bus_closing cl p =
     (if cl = Controller \<or> p_virtio p = [] then (False, False, False, True, Some (p_plic p), None)
      else (False, False, True, False, Some (fst (List.last (p_virtio p))), Some (snd (List.last (p_virtio p)))))"

lemma bus_collects:
  "\<exists>f. collects 2 (bus_items cl p) f \<and> (\<forall>x. f_uart x = None \<longrightarrow> f_rtc x = None \<longrightarrow> f x = bus_found p x)" (is ?A)
  "ends_with 2 (bus_items cl p) (bus_closing cl p)" (is ?B)
proof -
  obtain ub shift irq where u: "p_uart p = (ub, shift, irq)" by (cases "p_uart p")
  note ur = collects_append [OF uart_collects [of ub "0x100" irq shift] rtc_collects [of "p_rtc p" "0x1000"]]
  note pl = plic_collects [of "p_plic p" "0x600000"] and vs = virtios_collect [of "p_virtio p"]
  show ?A
  proof (cases cl)
    case Controller
    then show ?thesis
      using collects_append [OF collects_append [OF ur vs] pl] u
      by (intro exI conjI) (auto simp: bus_items_def Let_def bus_found_def)
  next
    case Slot
    then show ?thesis
      using collects_append [OF collects_append [OF ur pl] vs] u
      by (intro exI conjI) (auto simp: bus_items_def Let_def bus_found_def)
  qed
  show ?B
  proof (cases "cl = Controller \<or> p_virtio p = []")
    case True
    then show ?thesis
      using ends_with_append [OF collects_append [OF ur vs] plic_ends [of "p_plic p" "0x600000"]]
        ends_with_append [OF ur plic_ends [of "p_plic p" "0x600000"]] u
      by (auto simp: bus_items_def Let_def bus_closing_def)
  next
    case False
    then show ?thesis
      using slots_end [OF collects_append [OF ur pl], of "p_virtio p"] u by (auto simp: bus_items_def Let_def bus_closing_def)
  qed
qed

lemma run_begin: "inside d s \<Longrightarrow> d < 31 \<Longrightarrow> \<exists>s'. run_items strs [Begin n] s = Inr (Some s') \<and> inside (Suc d) s' \<and> found_of s' = found_of s"
  by (simp add: inside_def found_of_def)

lemma soc_run:
  assumes "inside 1 s" "f_uart (found_of s) = None" "f_rtc (found_of s) = None"
  shows "\<exists>s'. run_items board_strings (node ''soc'' (bus_items cl p) @ [End]) s = Inr (Some s') \<and>
    found_of s' = close_with (bus_closing cl p) (close_with (bus_closing cl p) (bus_found p (found_of s)))"
proof -
  obtain s1 where 1: "run_items board_strings [Begin (lit ''soc'')] s = Inr (Some s1)" "inside 2 s1" "found_of s1 = found_of s"
    using run_begin [OF assms(1)] by (auto simp: numeral_2_eq_2)
  obtain f where f: "collects 2 (bus_items cl p) f" "f (found_of s) = bus_found p (found_of s)" using bus_collects(1) assms(2,3) by blast
  obtain s2 where 2: "run_items board_strings (bus_items cl p) s1 = Inr (Some s2)" "inside 2 s2" "found_of s2 = bus_found p (found_of s)"
    using f 1 unfolding collects_def by metis
  have c2: "closing s2 = bus_closing cl p" using bus_collects(2) 1(2) 2(1) unfolding ends_with_def by blast
  then obtain v q reg irq where k: "closing s2 = (False, False, v, q, reg, irq)" by (auto simp: bus_closing_def split: if_splits)
  obtain s3 where 3: "run_items board_strings [End] s2 = Inr (Some s3)" "inside 1 s3" "closing s3 = closing s2"
    "found_of s3 = close_with (closing s2) (found_of s2)"
    using end_closes [of 1 s2, OF _ k] 2(2) by (auto simp: numeral_2_eq_2)
  obtain s4 where 4: "run_items board_strings [End] s3 = Inr (Some s4)" "found_of s4 = close_with (closing s3) (found_of s3)"
    using end_closes [of 0 s3] 3(2,3) k by auto
  have "run_items board_strings ([Begin (lit ''soc'')] @ bus_items cl p @ [End] @ [End]) s = Inr (Some s4)"
    using 1(1) 2(1) 3(1) 4(1) by (simp only: run_append bindr_Inr option.case)
  then show ?thesis using 2(3) 3(3,4) 4(2) c2 by (auto simp: node_def)
qed

lemma root_run:
  "\<exists>s. run_items board_strings ([Begin [], Property 0 (cell 2), Property 15 (cell 2)] @ node ''cpus'' [Property 27 (cell hz)] @
      node ''memory@80000000'' [Property 46 (cells2 b @ cells2 n)]) (dt_start 0) = Inr (Some s) \<and>
    inside 1 s \<and> found_of s = found_start\<lparr>f_ram := Some (b, n), f_hz := Some (ucast hz)\<rparr>"
proof -
  have "\<exists>s. run_items board_strings [Begin [], Property 0 (cell 2), Property 15 (cell 2)] (dt_start 0) = Inr (Some s) \<and>
      inside 1 s \<and> found_of s = found_start"
    by (simp add: board_key_at prop_defs board_lits board_lits [symmetric] lit_neq lit_neq [symmetric] dt_start_def inside_def found_of_def found_start_def)
  moreover note collects_append [OF cpus_collects [of hz] memory_collects [of b n]]
  ultimately show ?thesis unfolding run_append collects_def by fastforce
qed


lemma close_twice:
  "f_virtio (close_with (bus_closing cl p) (close_with (bus_closing cl p) (bus_found p f))) =
     fold put_virtio (p_virtio p @ (if cl = Controller \<or> p_virtio p = [] then [] else replicate 2 (List.last (p_virtio p)))) (f_virtio f)"
  "f_plic (close_with (bus_closing cl p) (close_with (bus_closing cl p) (bus_found p f))) = p_plic p"
  by (simp_all add: close_with_def bus_closing_def bus_found_def Let_def numeral_2_eq_2)

lemma close_keeps:
  "f_ram (close_with k f) = f_ram f" "f_hz (close_with k f) = f_hz f" "f_uart (close_with k f) = f_uart f"
  "f_uart_irq (close_with k f) = f_uart_irq f" "f_rtc (close_with k f) = f_rtc f"
  by (simp_all add: close_with_def Let_def split: prod.split option.split)

lemma platform_parsed:
  assumes "length (platform_blob cl p) < 2 ^ 32"
  shows "dt_parse (platform_blob cl p) = Inr (Some (read_machine cl p))"
proof -
  obtain rb rs where r: "p_ram p = (rb, rs)" by (cases "p_ram p")
  obtain s where s: "run_items board_strings ([Begin [], Property 0 (cell 2), Property 15 (cell 2)] @ node ''cpus'' [Property 27 (cell (p_hz p))] @
      node ''memory@80000000'' [Property 46 (cells2 rb @ cells2 rs)]) (dt_start 0) = Inr (Some s)" "inside 1 s"
    "found_of s = found_start\<lparr>f_ram := Some (rb, rs), f_hz := Some (ucast (p_hz p))\<rparr>"
    using root_run by blast
  then obtain s' where s': "run_items board_strings (node ''soc'' (bus_items cl p) @ [End]) s = Inr (Some s')"
    "found_of s' = close_with (bus_closing cl p) (close_with (bus_closing cl p) (bus_found p (found_of s)))"
    using soc_run [of s cl p] by (auto simp: found_start_def)
  have "run_items board_strings (platform_items cl p) (dt_start 0) = Inr (Some s')"
    using s(1) s'(1) run_append [of board_strings "[Begin [], Property 0 (cell 2), Property 15 (cell 2)] @ node ''cpus'' [Property 27 (cell (p_hz p))] @
      node ''memory@80000000'' [Property 46 (cells2 rb @ cells2 rs)]" "node ''soc'' (bus_items cl p) @ [End]" "dt_start 0"]
    by (simp add: platform_items_def r)
  moreover have "machine_of (Some s') = Some (read_machine cl p)"
  proof -
    let ?vs = "p_virtio p @ (if cl = Controller \<or> p_virtio p = [] then [] else replicate 2 (List.last (p_virtio p)))"
    have "f_virtio (found_of s') = slots_of ?vs" "f_plic (found_of s') = p_plic p"
      using fold_put_slots [of ?vs] unfolding s'(2) close_twice by (simp_all add: s(3) found_start_def)
    then have v: "slots_of ?vs = (st_virtio s', st_virtio_irq s', virtio_count s')" "st_plic s' = p_plic p" by (simp_all add: found_of_def)
    have "f_ram (found_of s') = Some (rb, rs)" "f_hz (found_of s') = Some (ucast (p_hz p))" "f_rtc (found_of s') = Some (p_rtc p)"
      "f_uart (found_of s') = Some (fst (p_uart p), fst (snd (p_uart p)))" "f_uart_irq (found_of s') = snd (snd (p_uart p))"
      unfolding s'(2) close_keeps by (simp_all add: bus_found_def s(3))
    then show ?thesis using v by (simp add: machine_of_def read_machine_def found_of_def r Let_def)
  qed
  ultimately show ?thesis
    using dt_parse_blob [OF platform_items_ok assms [unfolded platform_blob_def]] by (simp add: platform_blob_def)
qed

lemma raw_bytes_header:
  assumes "raw_bytes m ptr (length b) = b" "8 \<le> length b"
  shows "be_u32 (raw_bytes m ptr 8) 0 = be_u32 b 0" "be_u32 (raw_bytes m ptr 8) 4 = be_u32 b 4"
proof -
  have "raw_bytes m ptr 8 = take 8 b" using arg_cong [OF assms(1), of "take 8"] assms(2) by (simp add: raw_bytes_def take_map)
  then show "be_u32 (raw_bytes m ptr 8) 0 = be_u32 b 0" "be_u32 (raw_bytes m ptr 8) 4 = be_u32 b 4"
    using assms(2) by (simp_all add: be_u32_def get_range_def take_drop min_def)
qed

lemma platform_read:
  assumes "length (platform_blob cl p) < 2 ^ 32" "raw_bytes m ptr (length (platform_blob cl p)) = platform_blob cl p"
  shows "dt_from_ptr m ptr = Inr (read_machine cl p)"
proof -
  let ?b = "platform_blob cl p"
  have h: "be_u32 ?b 0 = Some FDT_MAGIC" "be_u32 ?b 4 = Some (of_nat (length ?b))"
    using fdt_blob_words [of board_strings "platform_items cl p"] assms(1) by (simp_all add: platform_blob_def)
  have "8 \<le> length ?b" by (simp add: platform_blob_def fdt_blob_def Let_def)
  note hd = raw_bytes_header [OF assms(2) this]
  have "unat (of_nat (length ?b) :: u32) = length ?b" using assms(1) by (simp add: unat_of_nat take_bit_nat_eq_self)
  then show ?thesis
    using h hd assms(2) platform_parsed [OF assms(1)] by (simp add: dt_from_ptr_def assertr_def expectr_def)
qed

text \<open>C14: Reading a machine off its device tree. The blob of a machine with its memory, timebase, UART, clock, interrupt
  controller and virtio slots, laid out as the format prescribes (big-endian header, structure and strings, names and values
  padded) and placed anywhere in memory, is read back as exactly that machine: every address, size, shift and interrupt
  number, and the first eight virtio slots in the order of their nodes. Because the flags of a closed node stay set, a virtio
  slot that is the last node of its bus is committed again by each of the two enclosing nodes that close behind it.\<close>
theorem machine_read_back:
  assumes "length (platform_blob cl p) < 2 ^ 32" "raw_bytes m ptr (length (platform_blob cl p)) = platform_blob cl p"
  shows "\<exists>mi. dt_from_ptr m ptr = Inr mi \<and> (ram_base mi, ram_size mi) = p_ram p \<and> timebase_hz mi = ucast (p_hz p) \<and>
    (uart_base mi, uart_reg_shift mi, uart_irq mi) = p_uart p \<and> rtc_base mi = p_rtc p \<and> plic_base mi = p_plic p \<and>
    length (virtio_mmio mi) = 8 \<and> length (virtio_mmio_irq mi) = 8 \<and>
    (let seen = p_virtio p @ (if cl = Controller \<or> p_virtio p = [] then [] else replicate 2 (List.last (p_virtio p)))
     in virtio_mmio_count mi = min (length seen) 8 \<and>
        take (virtio_mmio_count mi) (virtio_mmio mi) = map fst (take 8 seen) \<and>
        take (virtio_mmio_count mi) (virtio_mmio_irq mi) = map snd (take 8 seen))"
proof -
  let ?seen = "p_virtio p @ (if cl = Controller \<or> p_virtio p = [] then [] else replicate 2 (List.last (p_virtio p)))"
  obtain bs "is" n where v: "slots_of ?seen = (bs, is, n)" by (cases "slots_of ?seen")
  show ?thesis
    using slots_of_first [OF v] v
    by (intro exI [of _ "read_machine cl p"] conjI platform_read [OF assms]) (simp_all add: read_machine_def Let_def)
qed

definition demo_platform :: platform where
  "demo_platform = \<lparr>p_ram = (0x80000000, 0x800000), p_hz = 10000000, p_uart = (0x10000000, 0, 10), p_rtc = 0x101000, p_plic = 0xC000000,
     p_virtio = [(0x10001000, 1)]\<rparr>"

definition blob_at :: "usize \<Rightarrow> bytes \<Rightarrow> usize \<Rightarrow> u8" where
  "blob_at ptr b a = (let i = unat (a - ptr) in if i < length b then b ! i else 0)"

lemma blob_at_raw: "length b < 2 ^ 32 \<Longrightarrow> raw_bytes (blob_at ptr b) ptr (length b) = b"
  by (rule nth_equalityI) (simp_all add: raw_bytes_def blob_at_def Let_def unat_of_nat take_bit_nat_eq_self)

lemma demo_blob_length: "length (platform_blob cl demo_platform) = 610"
  by (cases cl) (simp_all add: platform_blob_def fdt_blob_def platform_items_def bus_items_def flat_all_def node_def device_node_def
      demo_platform_def board_strings_def board_keys_def cells2_def lit_def pad4_def align4_def Let_def)

lemma demo_platform_slots: "p_virtio demo_platform = [(0x10001000, 1)]" "p_uart demo_platform = (0x10000000, 0, 10)"
  "replicate 2 x = [x, x]"
  by (simp_all add: demo_platform_def numeral_2_eq_2)

theorem machine_read_back_witness:
  "\<exists>mi. dt_from_ptr (blob_at 0x82200000 (platform_blob Slot demo_platform)) 0x82200000 = Inr mi \<and>
     uart_base mi = 0x10000000 \<and> virtio_mmio_count mi = 3 \<and> take 3 (virtio_mmio mi) = [0x10001000, 0x10001000, 0x10001000]"
proof -
  let ?b = "platform_blob Slot demo_platform"
  have l: "length ?b < 2 ^ 32" by (simp add: demo_blob_length)
  show ?thesis
    using machine_read_back [OF l blob_at_raw [OF l], of "0x82200000"] demo_platform_slots by (auto simp: Let_def)
qed

end
