(* ===== verification/Devices.thy ===== *)
theory Devices
  imports Prelude
begin

unbundle bit_operations_syntax

text \<open>
  Finding devices and routing their interrupts: the virtio probe
  (\<^verbatim>\<open>src/arch/riscv64/src/virtio.rs\<close>) and the interrupt controller's registers
  (\<^verbatim>\<open>src/arch/riscv64/src/plic.rs\<close>). Memory-mapped registers are a map from addresses to words;
  claiming and completing an interrupt, whose effect is the controller's, go through its read and write operations
  as parameters. Register offsets are
  naturals: a base address plus at most \<open>2\<^sup>3\<^sup>4\<close>.
\<close>

section \<open>The virtio probe\<close>

type_synonym regs = "nat \<Rightarrow> u32"

definition MAGIC_OFF :: nat where "MAGIC_OFF = 0"
definition DEVICE_ID_OFF :: nat where "DEVICE_ID_OFF = 8"
definition MAGIC_VALUE :: u32 where "MAGIC_VALUE = 0x74726976"
definition DEVICE_ID_RNG :: u32 where "DEVICE_ID_RNG = 4"
definition DEVICE_ID_BLK :: u32 where "DEVICE_ID_BLK = 2"
definition DEVICE_ID_NET :: u32 where "DEVICE_ID_NET = 1"

definition is_rng :: "u32 \<Rightarrow> bool" where
  "is_rng device_id \<longleftrightarrow> device_id = DEVICE_ID_RNG"

definition irq_for_base :: "nat list \<Rightarrow> u32 list \<Rightarrow> nat \<Rightarrow> u32 option" where
  "irq_for_base bases irqs base = Option.bind (position (\<lambda>b. b = base) bases) (get irqs)"

fun find_device :: "regs \<Rightarrow> nat list \<Rightarrow> u32 \<Rightarrow> nat option" where
  "find_device m [] device_id = None"
| "find_device m (b # bs) device_id =
     (if b \<noteq> 0 \<and> m (b + MAGIC_OFF) = MAGIC_VALUE \<and> m (b + DEVICE_ID_OFF) = device_id then Some b
      else find_device m bs device_id)"

text \<open>The DMA frame of a driver: where its rings and buffers lie.\<close>

definition VQ_SIZE :: nat where "VQ_SIZE = 8"
definition VQ_DESC_OFF :: nat where "VQ_DESC_OFF = 0"
definition VQ_AVAIL_OFF :: nat where "VQ_AVAIL_OFF = 128"
definition VQ_USED_OFF :: nat where "VQ_USED_OFF = 160"
definition VQ_BUF_OFF :: nat where "VQ_BUF_OFF = 256"
definition BLK_HDR_OFF :: nat where "BLK_HDR_OFF = 256"
definition BLK_DATA_OFF :: nat where "BLK_DATA_OFF = 512"
definition BLK_STATUS_OFF :: nat where "BLK_STATUS_OFF = 1024"
definition BLK_SECTOR_SIZE :: nat where "BLK_SECTOR_SIZE = 512"

section \<open>The interrupt controller\<close>

definition PLIC_CONTEXT :: nat where "PLIC_CONTEXT = 1"

definition priority_offset :: "u32 \<Rightarrow> nat" where
  "priority_offset irq = unat irq * 4"

definition enable_offset :: "nat \<Rightarrow> u32 \<Rightarrow> nat" where
  "enable_offset ctx irq = 0x2000 + ctx * 0x80 + (unat irq div 32) * 4"

definition threshold_offset :: "nat \<Rightarrow> nat" where
  "threshold_offset ctx = 0x200000 + ctx * 0x1000"

definition claim_offset :: "nat \<Rightarrow> nat" where
  "claim_offset ctx = 0x200004 + ctx * 0x1000"

record plic =
  PLIC_BASE :: nat
  plic_regs :: regs

definition plic_w :: "plic \<Rightarrow> nat \<Rightarrow> u32 \<Rightarrow> plic" where
  "plic_w p off v = p\<lparr>plic_regs := (plic_regs p)(PLIC_BASE p + off := v)\<rparr>"

definition plic_r :: "plic \<Rightarrow> nat \<Rightarrow> u32" where
  "plic_r p off = plic_regs p (PLIC_BASE p + off)"

definition plic_init :: "plic \<Rightarrow> nat \<Rightarrow> plic" where
  "plic_init p base = plic_w (p\<lparr>PLIC_BASE := base\<rparr>) (threshold_offset PLIC_CONTEXT) 0"

definition set_priority :: "plic \<Rightarrow> u32 \<Rightarrow> u32 \<Rightarrow> plic" where
  "set_priority p irq priority = plic_w p (priority_offset irq) priority"

definition plic_enable :: "plic \<Rightarrow> u32 \<Rightarrow> plic" where
  "plic_enable p irq =
     (let off = enable_offset PLIC_CONTEXT irq in plic_w p off (plic_r p off OR push_bit (unat irq mod 32) 1))"

definition plic_disable :: "plic \<Rightarrow> u32 \<Rightarrow> plic" where
  "plic_disable p irq =
     (let off = enable_offset PLIC_CONTEXT irq in plic_w p off (plic_r p off AND NOT (push_bit (unat irq mod 32) 1)))"

text \<open>Reading the claim register moves the controller on, writing it tells the controller the interrupt is served.\<close>

definition plic_claim :: "(nat \<Rightarrow> 'c \<Rightarrow> u32 \<times> 'c) \<Rightarrow> nat \<Rightarrow> 'c \<Rightarrow> u32 \<times> 'c" where
  "plic_claim rd base c = rd (base + claim_offset PLIC_CONTEXT) c"

definition plic_complete :: "(nat \<Rightarrow> u32 \<Rightarrow> 'c \<Rightarrow> 'c) \<Rightarrow> nat \<Rightarrow> u32 \<Rightarrow> 'c \<Rightarrow> 'c" where
  "plic_complete wr base irq c = wr (base + claim_offset PLIC_CONTEXT) irq c"

section \<open>Properties\<close>

text \<open>Every register used for the sources below 1024 lies in the pages the kernel maps for the controller.\<close>

lemma plic_registers_mapped:
  assumes "irq < 1024"
  shows "priority_offset irq + 4 \<le> 0x3000" "enable_offset PLIC_CONTEXT irq + 4 \<le> 0x3000"
    "0x201000 \<le> threshold_offset PLIC_CONTEXT" "claim_offset PLIC_CONTEXT + 4 \<le> 0x202000"
proof -
  have "unat irq < 1024" using assms by (simp add: word_less_nat_alt)
  then have "unat irq * 4 + 4 \<le> 0x3000" "0x2080 + (unat irq div 32) * 4 + 4 \<le> 0x3000" by simp_all
  then show "priority_offset irq + 4 \<le> 0x3000" "enable_offset PLIC_CONTEXT irq + 4 \<le> 0x3000"
    by (simp_all add: priority_offset_def enable_offset_def PLIC_CONTEXT_def)
qed (simp_all add: threshold_offset_def claim_offset_def PLIC_CONTEXT_def)

lemma find_device_Some:
  "find_device m bs d = Some b \<Longrightarrow> b \<in> set bs \<and> b \<noteq> 0 \<and> m b = MAGIC_VALUE \<and> m (b + 8) = d"
  by (induction bs) (auto simp: MAGIC_OFF_def DEVICE_ID_OFF_def split: if_splits)

lemma find_device_None:
  "find_device m bs d = None \<longleftrightarrow> (\<forall>b\<in>set bs. \<not> (b \<noteq> 0 \<and> m b = MAGIC_VALUE \<and> m (b + 8) = d))"
  by (induction bs) (auto simp: MAGIC_OFF_def DEVICE_ID_OFF_def)

text \<open>The interrupt of a device found by the probe is the one at its slot.\<close>

lemma found_device_irq:
  assumes "find_device m bases d = Some b" "length irqs = length bases"
  shows "\<exists>i. i < length bases \<and> bases ! i = b \<and> irq_for_base bases irqs b = Some (irqs ! i)"
proof -
  have "b \<in> set bases" using find_device_Some [OF assms(1)] by simp
  then obtain i where i: "position (\<lambda>c. c = b) bases = Some i" 
    by (cases "position (\<lambda>c. c = b) bases") (auto simp: position_None_iff)
  then show ?thesis using position_SomeD [OF i] assms(2) by (auto simp: irq_for_base_def get_def)
qed

text \<open>The parts of a driver's DMA frame do not overlap and fit the frame.\<close>

lemma dma_layout:
  "VQ_DESC_OFF + 16 * VQ_SIZE \<le> VQ_AVAIL_OFF \<and> VQ_AVAIL_OFF + 4 + 2 * VQ_SIZE + 2 \<le> VQ_USED_OFF \<and>
   VQ_USED_OFF + 4 + 8 * VQ_SIZE + 2 \<le> VQ_BUF_OFF \<and> VQ_BUF_OFF \<le> BLK_HDR_OFF \<and> BLK_HDR_OFF + 16 \<le> BLK_DATA_OFF \<and>
   BLK_DATA_OFF + BLK_SECTOR_SIZE \<le> BLK_STATUS_OFF \<and> BLK_STATUS_OFF + 1 \<le> 4096"
  by (simp add: VQ_SIZE_def VQ_DESC_OFF_def VQ_AVAIL_OFF_def VQ_USED_OFF_def VQ_BUF_OFF_def BLK_HDR_OFF_def BLK_DATA_OFF_def
      BLK_STATUS_OFF_def BLK_SECTOR_SIZE_def)

definition source_enabled :: "plic \<Rightarrow> u32 \<Rightarrow> bool" where
  "source_enabled p irq \<longleftrightarrow> bit (plic_r p (enable_offset PLIC_CONTEXT irq)) (unat irq mod 32)"

lemma same_enable_bit:
  "enable_offset c a = enable_offset c b \<Longrightarrow> unat a mod 32 = unat b mod 32 \<Longrightarrow> a = b"
proof -
  assume "enable_offset c a = enable_offset c b" "unat a mod 32 = unat b mod 32"
  then have "unat a div 32 = unat b div 32" "unat a mod 32 = unat b mod 32" by (simp_all add: enable_offset_def)
  then have "unat a = unat b" by (metis div_mult_mod_eq)
  then show ?thesis by (simp add: word_unat_eq_iff)
qed

text \<open>Unmasking a source unmasks exactly that source, masking it masks exactly that source.\<close>

lemma plic_enable_exact: "source_enabled (plic_enable p irq) q \<longleftrightarrow> q = irq \<or> source_enabled p q"
proof (cases "enable_offset PLIC_CONTEXT q = enable_offset PLIC_CONTEXT irq")
  case True
  then show ?thesis using same_enable_bit [of PLIC_CONTEXT q irq]
    by (auto simp: source_enabled_def plic_enable_def plic_w_def plic_r_def Let_def bit_or_iff bit_shift1 simp del: push_bit_of_1)
next
  case False
  then show ?thesis by (auto simp: source_enabled_def plic_enable_def plic_w_def plic_r_def Let_def)
qed

lemma plic_disable_exact: "source_enabled (plic_disable p irq) q \<longleftrightarrow> q \<noteq> irq \<and> source_enabled p q"
proof (cases "enable_offset PLIC_CONTEXT q = enable_offset PLIC_CONTEXT irq")
  case True
  then show ?thesis using same_enable_bit [of PLIC_CONTEXT q irq]
    by (auto simp: source_enabled_def plic_disable_def plic_w_def plic_r_def Let_def bit_and_iff bit_not_iff bit_shift1 simp del: push_bit_of_1)
next
  case False
  then show ?thesis by (auto simp: source_enabled_def plic_disable_def plic_w_def plic_r_def Let_def)
qed

end
