(* ===== verification/Kmain.thy ===== *)
theory Kmain
  imports Spaces Homes Boot Self_Test Console Dt_Tree Devices
begin

text \<open>
  The whole of \<^verbatim>\<open>kmain\<close> (\<^verbatim>\<open>src/kernel/src/main.rs\<close>), from the device tree to the first task, as the composition of the component models:
  the parser, the probe, memory, the boot checks, the components' address spaces, the task table, the interrupt controller,
  the timer and \<^verbatim>\<open>sched::enter\<close>; and what holds of the running system it leaves.
\<close>

section \<open>Where the tasks live\<close>

text \<open>Every component in the table has a name in \<open>N\<close> and the space built under that name; kernel tasks have the kernel's.\<close>

definition placed :: "boot_cfg \<Rightarrow> string set \<Rightarrow> sched \<Rightarrow> bool" where
  "placed b N s \<longleftrightarrow> (\<forall>i t. slot_of s i = Some t \<longrightarrow>
     (if t_relaunch t = None then t_satp t = b_kernel_satp b else t_name t \<in> N \<and> t_satp t = b_satp b (t_name t)))"

lemma placed_spawn:
  assumes "placed b N s" "if t_relaunch t = None then t_satp t = b_kernel_satp b else t_name t \<in> N \<and> t_satp t = b_satp b (t_name t)"
  shows "placed b N (s\<lparr>s_tasks := (s_tasks s)[i := Some t]\<rparr>)"
proof -
  have "slot_of (s\<lparr>s_tasks := (s_tasks s)[i := Some t]\<rparr>) j = (if i = j \<and> j < length (s_tasks s) then Some t else slot_of s j)" for j
    by (cases "i < length (s_tasks s)") (auto simp: slot_of_def nth_list_update)
  then show ?thesis using assms by (auto simp: placed_def split: if_splits)
qed

lemma placed_homes: "same_homes s s' \<Longrightarrow> placed b N s \<Longrightarrow> placed b N s'"
proof -
  assume h: "same_homes s s'" and p: "placed b N s"
  have "if t_relaunch t = None then t_satp t = b_kernel_satp b else t_name t \<in> N \<and> t_satp t = b_satp b (t_name t)"
    if t: "slot_of s' i = Some t" for i t
  proof -
    have "map_option home (slot_of s i) = Some (home t)" using h t unfolding same_homes_def by (metis option.simps(9))
    then obtain u where "slot_of s i = Some u" "home u = home t" by auto
    then show ?thesis using p unfolding placed_def home_def by (metis prod.inject)
  qed
  then show ?thesis by (simp add: placed_def)
qed

lemma add_user_placed:
  "placed b N s \<Longrightarrow> name \<in> N \<Longrightarrow> (\<And>s' i. placed b N s' \<Longrightarrow> P (s', i)) \<Longrightarrow> leads (add_user b s name) P"
  unfolding add_user_def spawn_user_def leads_bindr
  by (rule leads_any) (simp add: placed_spawn)

lemma add_kernel_placed: "placed b N s \<Longrightarrow> (\<And>s' i. placed b N s' \<Longrightarrow> P (s', i)) \<Longrightarrow> leads (add_kernel b s name) P"
  unfolding add_kernel_def spawn_def leads_bindr
  by (rule leads_any) (simp add: placed_spawn)

lemma placed_put: "placed b N s \<Longrightarrow> slot_of s i = Some t \<Longrightarrow> home t' = home t \<Longrightarrow> placed b N (put_task s i t')"
  by (rule placed_homes) simp_all

lemma grant_cap_placed: "placed b N s \<Longrightarrow> (\<And>s'. placed b N s' \<Longrightarrow> P s') \<Longrightarrow> leads (grant_cap s i k c) P"
  by (auto simp: grant_cap_def wlp placed_put intro: leads_any)

lemma set_crash_badge_placed: "placed b N s \<Longrightarrow> (\<And>s'. placed b N s' \<Longrightarrow> P s') \<Longrightarrow> leads (set_crash_badge s i v) P"
  by (simp add: set_crash_badge_def wlp placed_put)

lemma set_launch_args_placed: "placed b N s \<Longrightarrow> (\<And>s'. placed b N s' \<Longrightarrow> P s') \<Longrightarrow> leads (set_launch_args s i x y) P"
  by (simp add: set_launch_args_def wlp placed_put)

lemmas placed_rules = add_user_placed add_kernel_placed grant_cap_placed set_crash_badge_placed set_launch_args_placed

definition component_names :: "boot_cfg \<Rightarrow> string set" where
  "component_names b =
     {''rtc'', ''needy'', ''broker'', ''lease'', ''tenant'', ''opener'', ''sealer'', ''nocap'', ''rogue'', ''healer'', ''transient'', ''flaky'', ''novel'',
      ''rnguser'', ''deferrer'', ''dclientA'', ''dclientB''} \<union>
     (if b_rng b = None then {} else {''entropy''}) \<union> (if b_blk b = None then {} else {''blk''}) \<union> (if b_net b = None then {} else {''net''})"

lemma boot_services_placed: "component_names b \<subseteq> N \<Longrightarrow> placed b N s \<Longrightarrow> leads (boot_services b s) (placed b N)"
  unfolding boot_services_def leads_bindr
  by ((erule placed_rules, (simp add: component_names_def; fail)?, (simp only: prod.case leads_bindr)?)+, simp)

lemma boot_healing_placed: "component_names b \<subseteq> N \<Longrightarrow> placed b N s \<Longrightarrow> leads (boot_healing b s) (placed b N)"
  unfolding boot_healing_def leads_bindr
  by ((erule placed_rules, (simp add: component_names_def; fail)?, (simp only: prod.case leads_bindr)?)+)

lemma boot_rng_placed: "component_names b \<subseteq> N \<Longrightarrow> placed b N s \<Longrightarrow> leads (boot_rng b s) (placed b N)"
  unfolding boot_rng_def
  by (cases "b_rng b", simp, clarsimp, simp only: leads_bindr,
      (erule placed_rules, (simp add: component_names_def; fail)?, (simp only: prod.case leads_bindr)?)+)

lemma boot_clients_placed: "component_names b \<subseteq> N \<Longrightarrow> placed b N s \<Longrightarrow> leads (boot_clients b s) (\<lambda>(s', _). placed b N s')"
  unfolding boot_clients_def leads_bindr
  by ((erule placed_rules, (simp add: component_names_def; fail)?, (simp only: prod.case leads_bindr)?)+)

lemma boot_blk_placed: "component_names b \<subseteq> N \<Longrightarrow> placed b N s \<Longrightarrow> leads (boot_blk b s l) (placed b N)"
  unfolding boot_blk_def
  by (cases "b_blk b", simp, clarsimp, simp only: leads_bindr,
      (erule placed_rules, (simp add: component_names_def; fail)?, (simp only: prod.case leads_bindr)?)+)

lemma boot_net_placed: "component_names b \<subseteq> N \<Longrightarrow> placed b N s \<Longrightarrow> leads (boot_net b s) (placed b N)"
  unfolding boot_net_def
  by (cases "b_net b", simp, clarsimp, simp only: leads_bindr,
      (erule placed_rules, (simp add: component_names_def; fail)?, (simp only: prod.case leads_bindr)?)+)

lemma boot_tasks_placed: "leads (boot_tasks b) (\<lambda>(s, _). placed b (component_names b) s)"
proof -
  have "placed b (component_names b) sched_new" by (simp add: placed_def sched_new_def slot_of_def)
  note p = this and n = subset_refl [of "component_names b"]
  show ?thesis
    unfolding boot_tasks_def leads_bindr
    by (rule leads_mono [OF boot_services_placed [OF n p]], rule leads_mono [OF boot_healing_placed [OF n]], assumption,
        rule leads_mono [OF boot_rng_placed [OF n]], assumption, rule leads_mono [OF boot_clients_placed [OF n]], assumption, clarsimp simp: leads_bindr,
        rule leads_mono [OF boot_blk_placed [OF n]], assumption, rule leads_mono [OF boot_net_placed [OF n]], assumption,
        rule add_kernel_placed, assumption, clarsimp, rule add_kernel_placed, assumption, simp)
qed


section \<open>Boot\<close>

definition TASK_STACK :: usize where "TASK_STACK = 0x4000"
definition PQC_STACK :: usize where "PQC_STACK = 0x80000"

text \<open>The size of a task's kernel stack: the consumer of the agreement needs a large one.\<close>

definition kstack_size :: "string \<Rightarrow> usize" where
  "kstack_size name = (if name = ''pqc'' then PQC_STACK else TASK_STACK)"

definition shell_init :: "usize \<Rightarrow> u32 \<Rightarrow> usize \<times> usize" where
  "shell_init base reg_shift = (base, ucast reg_shift)"

text \<open>The linked image: its sections, the entry points and the bases of the stacks by task name, and the address of the write probe.\<close>

record image =
  im_layout :: layout
  im_trap_entry :: usize
  im_task_trampoline :: usize
  im_user_trampoline :: usize
  im_sstatus :: usize
  im_entry :: "string \<Rightarrow> usize"
  im_ustack :: "string \<Rightarrow> usize"
  im_kstack :: "string \<Rightarrow> usize"
  im_probe :: usize

text \<open>The machine the kernel drives; \<open>bd_shell\<close> is where the shell looks for the UART.\<close>

record 'd board =
  bd_hart :: hart
  bd_console :: "'d console"
  bd_vm :: vm
  bd_plic :: plic
  bd_timer :: timer
  bd_shell :: "usize \<times> usize"

definition probe_devices :: "regs \<Rightarrow> machine_info \<Rightarrow> (usize option \<times> usize option \<times> usize option) result" where
  "probe_devices mmio mi =
     bindr (slice (virtio_mmio mi) 0 (virtio_mmio_count mi)) (\<lambda>bases.
     let find = (\<lambda>id. map_option word_of_nat (find_device mmio (map unat bases) id))
     in Inr (find DEVICE_ID_RNG, find DEVICE_ID_BLK, find DEVICE_ID_NET))"

text \<open>One driver's interrupt: looked up in the tree, given a priority, unmasked.\<close>

definition route_irq :: "string \<Rightarrow> machine_info \<Rightarrow> usize \<Rightarrow> hart \<times> plic \<Rightarrow> (u32 \<times> hart \<times> plic) result" where
  "route_irq name mi base = (\<lambda>(h, p).
     bindr (slice (virtio_mmio mi) 0 (virtio_mmio_count mi)) (\<lambda>bases.
     bindr (slice (virtio_mmio_irq mi) 0 (virtio_mmio_count mi)) (\<lambda>irqs.
     bindr (expectr (irq_for_base (map unat bases) irqs (unat base)) (ExpectFailed (name @ '' has no IRQ in the device tree''))) (\<lambda>irq.
     let p = plic_enable (set_priority (plic_init p (unat (plic_base mi))) irq 1) irq
     in Inr (irq, sie_enable_external h, p)))))"

definition attach :: "string \<Rightarrow> machine_info \<Rightarrow> usize option \<Rightarrow> usize \<Rightarrow> hart \<times> plic \<Rightarrow> (device option \<times> hart \<times> plic) result" where
  "attach name mi found dma_pa hp =
     (case found of None \<Rightarrow> Inr (None, hp)
      | Some base \<Rightarrow> bindr (route_irq name mi base hp) (\<lambda>(irq, hp). Inr (Some (base, dma_pa, irq), hp)))"

text \<open>What a component's name stands for once the spaces are built: its \<^verbatim>\<open>satp\<close> and its DMA frame.\<close>

definition space_of :: "(string \<times> usize \<times> usize) list \<Rightarrow> string \<Rightarrow> usize \<times> usize" where
  "space_of spaces name = (case map_of spaces name of None \<Rightarrow> (0, 0) | Some r \<Rightarrow> r)"

definition kmain_cfg ::
  "image \<Rightarrow> usize \<Rightarrow> (string \<times> usize \<times> usize) list \<Rightarrow> device option \<Rightarrow> device option \<Rightarrow> device option \<Rightarrow> boot_cfg" where
  "kmain_cfg im ksatp spaces rng blk net =
     \<lparr>b_task_trampoline = im_task_trampoline im, b_user_trampoline = im_user_trampoline im, b_kernel_satp = ksatp,
      b_sstatus = im_sstatus im, b_entry = im_entry im, b_ustack = (\<lambda>n. im_ustack im n + USER_STACK_SIZE),
      b_kstack = (\<lambda>n. im_kstack im n + kstack_size n),
      b_satp = (\<lambda>n. fst (space_of spaces n)), b_rng = rng, b_blk = blk, b_net = net\<rparr>"

text \<open>The page tables the hardware walks under a \<^verbatim>\<open>satp\<close>.\<close>

definition satp_root :: "usize \<Rightarrow> usize" where
  "satp_root satp = push_bit 12 (take_bit 44 satp)"

text \<open>Memory: the allocator and the kernel's space, the two checks, the components' spaces. \<open>f\<close> is the frame of the probe's fault.\<close>

definition kmain_memory ::
  "'r kenv \<Rightarrow> image \<Rightarrow> machine_info \<Rightarrow> usize option \<times> usize option \<times> usize option \<Rightarrow> trap_frame \<Rightarrow> vm \<Rightarrow> 'r kernel \<Rightarrow>
   (vm \<times> 'r kernel \<times> (string \<times> usize \<times> usize) list) result" where
  "kmain_memory e im mi = (\<lambda>(rng, blk, net) f s k.
     bindr (add_chk (ram_base mi) (ram_size mi)) (\<lambda>ram_end.
     bindr (mem_init (im_layout im) s ram_end (uart_base mi) (plic_base mi)) (\<lambda>s.
     bindr (wx_probe e s (satp_root (kernel_satp s)) (im_probe im) f k) (\<lambda>k.
     bindr (frame_roundtrip s) (\<lambda>s.
     bindr (add_chk (rtc_base mi) 0x1000) (\<lambda>rtc_end.
     let cs = kmain_components (rtc_base mi, rtc_end) rng blk net
     in bindr (build_components (im_layout im) (im_ustack im) s cs) (\<lambda>(s, rs). Inr (s, k, zip (map fst cs) rs))))))))"

text \<open>Tasks and interrupts. The table and the spaces are independent states, so the spaces built along the way in
  \<^verbatim>\<open>kmain\<close> are here built first. The frames of the boot traps were on the boot stack and are gone.\<close>

definition kmain_tasks ::
  "'r kenv \<Rightarrow> ('r, 'dk, 'ek, 'ct) kem_lib \<Rightarrow> image \<Rightarrow> machine_info \<Rightarrow> usize option \<times> usize option \<times> usize option \<Rightarrow>
   (string \<times> usize \<times> usize) list \<Rightarrow> 'd board \<Rightarrow> 'r kernel \<Rightarrow> ('d board \<times> 'r kernel \<times> nat) result" where
  "kmain_tasks e kem im mi = (\<lambda>(rng, blk, net) spaces b k.
     bindr (attach ''rng'' mi rng (snd (space_of spaces ''entropy'')) (bd_hart b, bd_plic b)) (\<lambda>(rng, hp).
     bindr (attach ''blk'' mi blk (snd (space_of spaces ''blk'')) hp) (\<lambda>(blk, hp).
     bindr (attach ''net'' mi net (snd (space_of spaces ''net'')) hp) (\<lambda>(net, h, p).
     let ch = establish (e_rng e) kem (k_chan k) (replicate 32 0x14)
     in bindr (boot_tasks (kmain_cfg im (kernel_satp (bd_vm b)) spaces rng blk net)) (\<lambda>(ts, idle).
        bindr (timer_start h (timer_init (timebase_hz mi) (bd_timer b))) (\<lambda>(h, t).
        bindr (enter (k\<lparr>k_sched := ts, k_chan := ch, k_frames := (\<lambda>_. blank_frame)\<rparr>)) (\<lambda>k.
        Inr (b\<lparr>bd_hart := h, bd_plic := p, bd_timer := t, bd_shell := shell_init (uart_base mi) (uart_reg_shift mi)\<rparr>, k, idle))))))))"

text \<open>The whole: \<open>raw\<close> is memory as the firmware left it, \<open>mmio\<close> the registers the probe reads, \<open>bp\<close> and \<open>wx\<close> the frames of the
  two deliberate traps.\<close>

definition kmain ::
  "'r kenv \<Rightarrow> ('r, 'dk, 'ek, 'ct) kem_lib \<Rightarrow> image \<Rightarrow> (usize \<Rightarrow> u8) \<Rightarrow> regs \<Rightarrow> trap_frame \<Rightarrow> trap_frame \<Rightarrow> usize \<Rightarrow> 'd board \<Rightarrow>
   ('d board \<times> 'r kernel \<times> nat) result" where
  "kmain e kem im raw mmio bp wx dtb b =
     (let h = trap_init (im_trap_entry im) (bd_hart b)
      in bindr (trap_handler e 0 (boot_kernel channel_init sched_new) bp) (\<lambda>k.
         bindr (dt_from_ptr raw dtb) (\<lambda>mi.
         let c = use_uart (uart_base mi) (uart_reg_shift mi) (bd_console b)
         in bindr (probe_devices mmio mi) (\<lambda>devs.
            bindr (kmain_memory e im mi devs wx (bd_vm b) k) (\<lambda>(s, k, spaces).
            kmain_tasks e kem im mi devs spaces (b\<lparr>bd_hart := satp_write (kernel_satp s) h, bd_console := c, bd_vm := s\<rparr>) k)))))"

section \<open>Each stage returns\<close>

lemma satp_root_make: "phys_ok root \<Longrightarrow> satp_root (make_satp root) = root"
proof (rule bit_word_eqI)
  fix n assume "phys_ok root" "n < LENGTH(64)"
  moreover have "n - 12 + 12 = n" if "12 \<le> n" using that by simp
  ultimately show "bit (satp_root (make_satp root)) n = bit root n"
    using phys_ok_bit [of root n] by (auto simp: satp_root_def make_satp_def SATP_SV39_def bit_simps)
qed

lemma breakpoint_resumes:
  assumes "decode (scause bp) = Breakpoint" "e_parcel e (sepc bp) = Some parcel" "unat (sepc bp) + 4 < 2 ^ 64"
  shows "\<exists>fs. trap_handler e irq k bp = Inr (k\<lparr>k_frames := fs\<rparr>)"
proof -
  have "unat (sepc bp) + unat (instruction_len parcel) < 2 ^ 64" using assms(3) by (simp add: instruction_len_def)
  then show ?thesis
    using assms(1,2) by (auto simp: trap_handler_def Let_def skip_instruction_def advance_def add_chk_def frame_def put_frame_def)
qed

lemma wx_probe_passes:
  assumes "decode (scause f) = StorePageFault" "\<not> from_user f" "e_parcel e (sepc f) = Some parcel" "unat (sepc f) + 4 < 2 ^ 64"
    and "\<not> kernel_writes s root addr"
  shows "\<exists>fs. wx_probe e s root addr f k = Inr (k\<lparr>k_expecting_wx := False, k_frames := fs\<rparr>)"
proof -
  have "unat (sepc f) + unat (instruction_len parcel) < 2 ^ 64" using assms(4) by (simp add: instruction_len_def)
  then show ?thesis
    using assms(1-3,5) by (auto simp: wx_probe_def trap_handler_def Let_def expect_wx_fault_def wx_fault_pending_def skip_instruction_def
        advance_def add_chk_def frame_def put_frame_def assertr_def RODATA_PROBE_def)
qed


text \<open>The machine's memory holds the image, the tables and the components.\<close>

definition ram_end_of :: "machine_info \<Rightarrow> usize" where
  "ram_end_of mi = ram_base mi + ram_size mi"

definition rtc_of :: "machine_info \<Rightarrow> usize \<times> usize" where
  "rtc_of mi = (rtc_base mi, rtc_base mi + 0x1000)"

definition component_apart :: "image \<Rightarrow> machine_info \<Rightarrow> component \<Rightarrow> bool" where
  "component_apart im mi c \<longleftrightarrow>
     regions_ok (static_regions (im_layout im) (uart_base mi) (plic_base mi) (im_ustack im) c @
       [(kernel_end (im_layout im), ram_end_of mi, PTE_R OR PTE_W OR PTE_G)])"

definition kernel_fits :: "image \<Rightarrow> machine_info \<Rightarrow> bool" where
  "kernel_fits im mi \<longleftrightarrow>
     unat (ram_base mi) + unat (ram_size mi) < 2 ^ 64 \<and> kernel_end (im_layout im) < ram_end_of mi \<and>
     unat (ram_end_of mi) - unat (kernel_end (im_layout im)) \<le> MAX_FRAMES * FRAME_SIZE \<and>
     regions_ok (kernel_space_regions (im_layout im) (ram_end_of mi) (uart_base mi) (plic_base mi)) \<and>
     rodata_start (im_layout im) \<le> im_probe im \<and> im_probe im < rodata_end (im_layout im)"

definition frames_needed :: "image \<Rightarrow> machine_info \<Rightarrow> component list \<Rightarrow> nat" where
  "frames_needed im mi cs =
     1 + table_frames (kernel_space_regions (im_layout im) (ram_end_of mi) (uart_base mi) (plic_base mi)) +
     sum_list (map (component_cost (im_layout im) (uart_base mi) (plic_base mi) (im_ustack im)) cs)"

definition memory_fits :: "image \<Rightarrow> machine_info \<Rightarrow> component list \<Rightarrow> bool" where
  "memory_fits im mi cs \<longleftrightarrow> kernel_fits im mi \<and> (\<forall>c\<in>set cs. component_apart im mi c) \<and>
     frames_needed im mi cs \<le> (unat (ram_end_of mi) - unat (kernel_end (im_layout im))) div FRAME_SIZE"

lemma wx_blocked:
  assumes "kernel_fits im mi" "built s root (kernel_space_regions (im_layout im) (ram_end_of mi) (uart_base mi) (plic_base mi))"
  shows "\<not> kernel_writes s root (im_probe im)"
proof -
  let ?rs = "kernel_space_regions (im_layout im) (ram_end_of mi) (uart_base mi) (plic_base mi)"
  have r: "regions_ok ?rs" and p: "rodata_start (im_layout im) \<le> im_probe im" "im_probe im < rodata_end (im_layout im)"
    using assms(1) by (simp_all add: kernel_fits_def)
  have ro: "(rodata_start (im_layout im), rodata_end (im_layout im), PTE_R OR PTE_G) \<in> set ?rs"
    by (simp add: kernel_space_regions_def kernel_regions_def image_regions_def)
  have small: "unat (im_probe im) < 2 ^ 39" using regions_ok_mem [OF r ro] p(2) by (simp add: word_le_nat_alt word_less_nat_alt)
  have "region_flags ?rs (im_probe im) = Some (PTE_R OR PTE_G)" using region_flags_unique [OF r ro, of "im_probe im"] p by simp
  then show ?thesis using leaf_has_built [OF assms(2) small, of PTE_W] no_write_word unfolding kernel_writes_def by (simp add: flag_bits)
qed

lemma used_phys:
  assumes "vm_ok s" "x \<in> used (frames s)"
  shows "phys_ok x"
proof -
  have inv: "alloc_inv (frames s)" using assms(1) by (simp add: vm_ok_def)
  have "unat (frame_addr (frames s) (a_count (frames s))) \<le> 2 ^ 56"
    using unat_frame_addr [OF inv, of "a_count (frames s)"] assms(1) by (simp add: vm_ok_def)
  moreover have "unat (x + 0x1000) = unat x + 4096"
    using used_frame_range(4) [OF inv assms(2)] by (subst unat_add_fits) simp_all
  ultimately show ?thesis
    using used_frame_range(2,5) [OF inv assms(2)] by (simp add: phys_ok_def word_le_nat_alt)
qed

text \<open>What the spaces of the components are, after boot.\<close>

definition spaces_ok :: "image \<Rightarrow> vm \<Rightarrow> component list \<Rightarrow> (string \<times> usize \<times> usize) list \<Rightarrow> bool" where
  "spaces_ok im s cs spaces \<longleftrightarrow> map fst spaces = map fst cs \<and>
     (\<forall>(n, satp, dma)\<in>set spaces. \<exists>c root. c \<in> set cs \<and> fst c = n \<and> satp = make_satp root \<and> grants_exactly (im_layout im) (im_ustack im) s root c dma)"

lemma build_all:
  assumes "vm_ok s" "\<forall>c\<in>set cs. component_fits (im_layout im) s (im_ustack im) c"
    "sum_list (map (component_cost (im_layout im) (uart_mmio_base s) (plic_mmio_base s) (im_ustack im)) cs) \<le> free_frames (frames s)"
  shows "\<exists>s' rs. build_components (im_layout im) (im_ustack im) s cs = Inr (s', rs) \<and> same_devices s s' \<and>
    used (frames s) \<subseteq> used (frames s') \<and> (\<forall>x\<in>used (frames s). tables s' x = tables s x) \<and> spaces_ok im s' cs (zip (map fst cs) rs)"
proof -
  have "ledger_ok (im_layout im) (im_ustack im) s []" by (simp add: ledger_ok_def dma_frames_def table_set_def)
  from build_components_ok [OF assms(1) this assms(2,3)] obtain s' rs ls where
    run: "build_components (im_layout im) (im_ustack im) s cs = Inr (s', rs)" "same_devices s s'" "used (frames s) \<subseteq> used (frames s')"
      "\<forall>x\<in>used (frames s). tables s' x = tables s x"
    and ok: "vm_ok s'" and l: "ledger_ok (im_layout im) (im_ustack im) s' ls" and len: "length rs = length cs" and rec: "map recorded ls = zip cs rs"
    by auto
  have inv: "alloc_inv (frames s')" using ok by (simp add: vm_ok_def)
  have "\<exists>c root. c \<in> set cs \<and> fst c = n \<and> satp = make_satp root \<and> grants_exactly (im_layout im) (im_ustack im) s' root c dma"
    if m: "(n, satp, dma) \<in> set (zip (map fst cs) rs)" for n satp dma
  proof -
    obtain c where c: "(c, satp, dma) \<in> set (zip cs rs)" "fst c = n" using m by (auto simp: zip_map1)
    then have "(c, satp, dma) \<in> recorded ` set ls" using rec by (metis list.set_map)
    then obtain root lab where e: "(c, root, lab, dma) \<in> set ls" "satp = make_satp root" by (auto elim!: recorded.elims)
    have "grants_exactly (im_layout im) (im_ustack im) s' root c dma" by (rule entry_grants [OF ledger_entry [OF l e(1)] inv])
    moreover have "c \<in> set cs" using c(1) by (rule set_zip_leftD)
    ultimately show ?thesis using c(2) e(2) by blast
  qed
  then have "spaces_ok im s' cs (zip (map fst cs) rs)" using len by (auto simp: spaces_ok_def)
  then show ?thesis using run by blast
qed


definition devices_of :: "regs \<Rightarrow> machine_info \<Rightarrow> usize option \<times> usize option \<times> usize option" where
  "devices_of mmio mi =
     (let find = (\<lambda>id. map_option word_of_nat (find_device mmio (map unat (take (virtio_mmio_count mi) (virtio_mmio mi))) id))
      in (find DEVICE_ID_RNG, find DEVICE_ID_BLK, find DEVICE_ID_NET))"

definition components_of :: "regs \<Rightarrow> machine_info \<Rightarrow> component list" where
  "components_of mmio mi = (case devices_of mmio mi of (rng, blk, net) \<Rightarrow> kmain_components (rtc_of mi) rng blk net)"

text \<open>The kernel's space, after boot: its root is the one the kernel tasks run under.\<close>

definition kernel_space_ok :: "image \<Rightarrow> machine_info \<Rightarrow> vm \<Rightarrow> bool" where
  "kernel_space_ok im mi s \<longleftrightarrow> (\<exists>root. kernel_satp s = make_satp root \<and> satp_root (kernel_satp s) = root \<and>
     built s root (kernel_space_regions (im_layout im) (ram_end_of mi) (uart_base mi) (plic_base mi)))"

lemma space_kept_built: "space_kept s root lab rs \<Longrightarrow> built s root rs"
  by (simp add: space_kept_def)

lemma kmain_memory_ok:
  assumes s: "frames s = allocator_new" and fits: "memory_fits im mi (kmain_components (rtc_of mi) rng blk net)"
    and trap: "decode (scause f) = StorePageFault" "\<not> from_user f" "e_parcel e (sepc f) = Some parcel" "unat (sepc f) + 4 < 2 ^ 64"
  shows "\<exists>s' fs spaces. kmain_memory e im mi (rng, blk, net) f s k = Inr (s', k\<lparr>k_expecting_wx := False, k_frames := fs\<rparr>, spaces) \<and>
    kernel_space_ok im mi s' \<and> spaces_ok im s' (kmain_components (rtc_of mi) rng blk net) spaces"
proof -
  let ?cs = "kmain_components (rtc_of mi) rng blk net" and ?ld = "im_layout im"
  let ?cost = "component_cost ?ld (uart_base mi) (plic_base mi) (im_ustack im)"
  have kf: "kernel_fits im mi" and apart: "\<forall>c\<in>set ?cs. component_apart im mi c"
    and need: "frames_needed im mi ?cs \<le> (unat (ram_end_of mi) - unat (kernel_end ?ld)) div FRAME_SIZE"
    using fits by (simp_all add: memory_fits_def)
  have ram: "add_chk (ram_base mi) (ram_size mi) = Inr (ram_end_of mi)"
    using kf by (simp add: kernel_fits_def add_chk_def ram_end_of_def)
  obtain s1 root lab where 1: "mem_init ?ld s (ram_end_of mi) (uart_base mi) (plic_base mi) = Inr s1" "kernel_satp s1 = make_satp root"
    "space_ok s1 root lab" "uart_mmio_base s1 = uart_base mi" "plic_mmio_base s1 = plic_base mi" "frame_addr (frames s1) 0 = kernel_end ?ld"
    "frame_addr (frames s1) (a_count (frames s1)) = ram_end_of mi"
    "built s1 root (kernel_space_regions ?ld (ram_end_of mi) (uart_base mi) (plic_base mi))" "vm_ok s1"
    "(unat (ram_end_of mi) - unat (kernel_end ?ld)) div FRAME_SIZE \<le>
       free_frames (frames s1) + (1 + table_frames (kernel_space_regions ?ld (ram_end_of mi) (uart_base mi) (plic_base mi)))"
    by (rule mem_init_exec [OF s, of ?ld "ram_end_of mi" "uart_base mi" "plic_base mi"])
      (use kf need in \<open>simp_all add: kernel_fits_def frames_needed_def\<close>)
  have cost: "sum_list (map ?cost ?cs) \<le> free_frames (frames s1)" using 1(10) need by (simp add: frames_needed_def)
  have "0 < sum_list (map ?cost ?cs)" by (simp add: kmain_components_def component_cost_def)
  then have free: "0 < free_frames (frames s1)" using cost by simp
  have "root \<in> used (frames s1)" using 1(3) by (auto simp: space_ok_def tree_def)
  then have rt: "satp_root (kernel_satp s1) = root" using used_phys [OF 1(9)] satp_root_make 1(2) by simp
  obtain fs where wx: "wx_probe e s1 root (im_probe im) f k = Inr (k\<lparr>k_expecting_wx := False, k_frames := fs\<rparr>)"
    using wx_probe_passes [OF trap wx_blocked [OF kf 1(8)]] by blast
  obtain s2 where 2: "frame_roundtrip s1 = Inr s2" "vm_ok s2" "same_devices s1 s2" "used (frames s2) = used (frames s1)"
    "free_frames (frames s2) = free_frames (frames s1)" "\<forall>x\<in>used (frames s1). tables s2 x = tables s1 x"
    using frame_roundtrip_ok [OF 1(9) free] by blast
  have d: "uart_mmio_base s2 = uart_base mi" "plic_mmio_base s2 = plic_base mi" using 2(3) 1(4,5) by (simp_all add: same_devices_def)
  have "ram_region s2 = (kernel_end ?ld, ram_end_of mi, PTE_R OR PTE_W OR PTE_G)"
    using 2(3) 1(6,7) by (simp add: ram_region_def frame_addr_def same_devices_def)
  then have fit: "\<forall>c\<in>set ?cs. component_fits ?ld s2 (im_ustack im) c"
    using apart by (simp add: component_fits_def component_apart_def d)
  have "(''rtc'', Plain (rtc_of mi)) \<in> set ?cs" by (simp add: kmain_components_def)
  then have "region_ok (device_region (''rtc'', Plain (rtc_of mi)))" using component_fitsD(3) fit by blast
  then have rtc: "add_chk (rtc_base mi) 0x1000 = Inr (rtc_base mi + 0x1000)"
    by (simp add: device_region_def rtc_of_def add_chk_le)
  obtain s3 rs where 3: "build_components ?ld (im_ustack im) s2 ?cs = Inr (s3, rs)" "same_devices s2 s3" "used (frames s2) \<subseteq> used (frames s3)"
    "\<forall>x\<in>used (frames s2). tables s3 x = tables s2 x" "spaces_ok im s3 ?cs (zip (map fst ?cs) rs)"
    using build_all [OF 2(2) fit] cost 2(5) d by auto
  have run: "kmain_memory e im mi (rng, blk, net) f s k = Inr (s3, k\<lparr>k_expecting_wx := False, k_frames := fs\<rparr>, zip (map fst ?cs) rs)"
    using ram 1(1) rt wx 2(1) rtc 3(1) by (simp add: kmain_memory_def rtc_of_def Let_def)
  have "space_kept s1 root lab (kernel_space_regions ?ld (ram_end_of mi) (uart_base mi) (plic_base mi))"
    using 1(3,8) by (simp add: space_ok_def space_kept_def)
  then have "built s3 root (kernel_space_regions ?ld (ram_end_of mi) (uart_base mi) (plic_base mi))"
    using 2(4,6) 3(3,4) by (intro space_kept_built [OF space_kept_mono]) auto
  then have "kernel_space_ok im mi s3"
    unfolding kernel_space_ok_def using 1(2) rt 2(3) 3(2) by (intro exI [of _ root]) (simp add: same_devices_def)
  then show ?thesis using run 3(5) by blast
qed


text \<open>A device the probe found has an interrupt in the tree.\<close>

definition slots_ok :: "machine_info \<Rightarrow> bool" where
  "slots_ok mi \<longleftrightarrow> virtio_mmio_count mi \<le> length (virtio_mmio mi) \<and> length (virtio_mmio_irq mi) = length (virtio_mmio mi)"

lemma attach_found:
  assumes "slots_ok mi" "found = map_option word_of_nat (find_device mmio (map unat (take (virtio_mmio_count mi) (virtio_mmio mi))) device_id)"
  shows "\<exists>dev h' p'. attach name mi found dma (h, p) = Inr (dev, h', p') \<and> hcsr h' Time = hcsr h Time \<and> (dev = None \<longleftrightarrow> found = None)"
proof (cases found)
  case (Some base)
  let ?bs = "map unat (take (virtio_mmio_count mi) (virtio_mmio mi))" and ?is = "take (virtio_mmio_count mi) (virtio_mmio_irq mi)"
  obtain a where a: "find_device mmio ?bs device_id = Some a" "base = word_of_nat a"
    using assms(2) Some by (cases "find_device mmio ?bs device_id") simp_all
  then have "a \<in> unat ` set (virtio_mmio mi)" using find_device_Some [OF a(1)] by (auto dest: in_set_takeD)
  then have "unat base = a" using a(2) by auto
  moreover have "length ?is = length ?bs" using assms(1) by (simp add: slots_ok_def)
  ultimately obtain i where "irq_for_base ?bs ?is (unat base) = Some (?is ! i)" using found_device_irq [OF a(1)] by blast
  then show ?thesis
    using Some assms(1) by (simp add: attach_def route_irq_def slice_def slots_ok_def expectr_def Let_def sie_enable_external_def set_csr_def)
qed (simp add: attach_def)

lemma dt_slots_ok:
  assumes "dt_from_ptr raw dtb = Inr mi"
  shows "slots_ok mi"
proof -
  obtain b where "dt_parse b = Inr (Some mi)"
    using assms unfolding dt_from_ptr_def Let_def by (auto simp: bindr_eq_Inr_iff expectr_def split: option.splits)
  then show ?thesis using dt_parse_cases [of b] by (auto simp: slots_ok_def)
qed

lemma probe_devices_ok: "slots_ok mi \<Longrightarrow> probe_devices mmio mi = Inr (devices_of mmio mi)"
  by (simp add: probe_devices_def devices_of_def slots_ok_def slice_def Let_def)

lemma component_names_built:
  assumes "(b_rng b = None) = (rng = None)" "(b_blk b = None) = (blk = None)" "(b_net b = None) = (net = None)"
  shows "component_names b \<subseteq> fst ` set (kmain_components region rng blk net)"
  using assms by (auto simp: component_names_def kmain_components_def driver_def split: option.splits)


section \<open>The booted system\<close>

lemma user_slots_homes: "same_homes s s' \<Longrightarrow> user_slots s' = user_slots s"
proof -
  assume h: "same_homes s s'"
  have "(\<exists>t. slot_of s' i = Some t \<and> t_relaunch t \<noteq> None) \<longleftrightarrow> (\<exists>t. slot_of s i = Some t \<and> t_relaunch t \<noteq> None)" for i
    using h [unfolded same_homes_def, rule_format, of i] by (cases "slot_of s i"; cases "slot_of s' i") (auto simp: home_def)
  then show ?thesis by (simp add: user_slots_def)
qed

text \<open>The task that runs, and the space it runs in.\<close>

definition runs_in_place :: "image \<Rightarrow> vm \<Rightarrow> component list \<Rightarrow> 'r kernel \<Rightarrow> bool" where
  "runs_in_place im s cs k \<longleftrightarrow> (\<exists>t. slot_of (k_sched k) (cur k) = Some t \<and> k_satp k = t_satp t \<and>
     (if t_relaunch t = None then t_satp t = kernel_satp s
      else \<exists>kind root dma. (t_name t, kind) \<in> set cs \<and> t_satp t = make_satp root \<and>
        grants_exactly (im_layout im) (im_ustack im) s root (t_name t, kind) dma))"

lemma placed_runs:
  assumes k: "kept k0 k" and p: "placed b N (k_sched k0)" and b: "b_kernel_satp b = kernel_satp s" "b_satp b = (\<lambda>n. fst (space_of spaces n))"
    and N: "N \<subseteq> fst ` set cs" and sp: "spaces_ok im s cs spaces"
  shows "runs_in_place im s cs k"
proof -
  obtain t where t: "slot_of (k_sched k) (cur k) = Some t" "k_satp k = t_satp t" using k by (auto simp: kept_def own_space_def)
  have "placed b N (k_sched k)" using placed_homes p k by (auto simp: kept_def)
  note pt = this [unfolded placed_def, rule_format, OF t(1)]
  show ?thesis
  proof (cases "t_relaunch t = None")
    case True
    then show ?thesis using t pt b(1) by (simp add: runs_in_place_def)
  next
    case False
    then have n: "t_name t \<in> N" "t_satp t = fst (space_of spaces (t_name t))" using pt b(2) by simp_all
    have "map fst spaces = map fst cs" using sp by (simp add: spaces_ok_def)
    then have "fst ` set spaces = fst ` set cs" by (metis list.set_map)
    then obtain r where r: "map_of spaces (t_name t) = Some r" using n(1) N by (cases "map_of spaces (t_name t)") (auto simp: map_of_eq_None_iff)
    obtain satp dma where e: "r = (satp, dma)" by (cases r)
    have "(t_name t, satp, dma) \<in> set spaces" using map_of_SomeD [OF r] e by simp
    then have "\<exists>c root. c \<in> set cs \<and> fst c = t_name t \<and> satp = make_satp root \<and> grants_exactly (im_layout im) (im_ustack im) s root c dma"
      using sp unfolding spaces_ok_def by blast
    then obtain kind root where "(t_name t, kind) \<in> set cs" "satp = make_satp root" "grants_exactly (im_layout im) (im_ustack im) s root (t_name t, kind) dma"
      by auto
    then show ?thesis using False t n(2) r e by (auto simp: runs_in_place_def space_of_def)
  qed
qed

lemma tasks_booted:
  fixes ch :: channel
  assumes "boot_tasks cfg = Inr (ts, d)" "enter (boot_kernel ch ts :: 'r kernel) = Inr k"
  shows "kernel_wf (user_slots (k_sched k)) d k" "kept (boot_kernel ch ts) k" "placed cfg (component_names cfg) ts"
proof -
  from assms(1) boot_tasks_ok [of cfg] obtain R where R: "boot_inv (Suc d) R ts" "d \<notin> R" "0 < d" by (auto simp: booted_def)
  have "kernel_wf R d k" by (rule holds_InrD [OF enter_boot [OF R] assms(2)])
  moreover show kp: "kept (boot_kernel ch ts) k" by (rule leadsD [OF enter_kept assms(2)])
  then have "user_slots (k_sched k) = user_slots ts" by (intro user_slots_homes) (simp add: kept_def boot_kernel_def)
  ultimately show "kernel_wf (user_slots (k_sched k)) d k" using boot_inv_user_slots [OF R(1)] by simp
  show "placed cfg (component_names cfg) ts" using leadsD [OF boot_tasks_placed assms(1)] by simp
qed

lemma boot_runs:
  "\<exists>ts d. \<exists>k :: 'r kernel. boot_tasks cfg = Inr (ts, d) \<and> enter (boot_kernel ch ts) = Inr k"
proof -
  from boot_tasks_ok [of cfg] obtain ts d R where s: "boot_tasks cfg = Inr (ts, d)" and R: "boot_inv (Suc d) R ts" "d \<notin> R" "0 < d"
    by (auto simp: booted_def holds_iff)
  have "holds (enter (boot_kernel ch ts :: 'r kernel)) (kernel_wf R d)" using R by (rule enter_boot)
  then show ?thesis using s by (auto simp: holds_iff)
qed

lemma kmain_tasks_ok:
  fixes e :: "'r kenv" and b :: "'d board"
  assumes sl: "slots_ok mi" and sp: "spaces_ok im (bd_vm b) (components_of mmio mi) spaces"
    and time: "unat (time (bd_hart b)) + unat (timebase_hz mi) < 2 ^ 64"
    and k0: "k0 = (boot_kernel channel_init sched_new)\<lparr>k_frames := fs\<rparr>"
  shows "\<exists>b' k d. kmain_tasks e kem im mi (devices_of mmio mi) spaces b k0 = Inr (b', k, d) \<and> bd_vm b' = bd_vm b \<and>
    kernel_wf (user_slots (k_sched k)) d k \<and> (\<forall>k'. reachable (user_slots (k_sched k)) d k k' \<longrightarrow> runs_in_place im (bd_vm b) (components_of mmio mi) k')"
proof -
  obtain rng blk net where dv: "devices_of mmio mi = (rng, blk, net)" by (cases "devices_of mmio mi")
  let ?find = "\<lambda>id. map_option word_of_nat (find_device mmio (map unat (take (virtio_mmio_count mi) (virtio_mmio mi))) id)"
  have find: "rng = ?find DEVICE_ID_RNG" "blk = ?find DEVICE_ID_BLK" "net = ?find DEVICE_ID_NET" using dv by (simp_all add: devices_of_def Let_def)
  obtain r h1 p1 where 1: "attach ''rng'' mi rng (snd (space_of spaces ''entropy'')) (bd_hart b, bd_plic b) = Inr (r, h1, p1)"
    "hcsr h1 Time = hcsr (bd_hart b) Time" "r = None \<longleftrightarrow> rng = None"
    using attach_found [OF sl find(1)] by blast
  obtain bl h2 p2 where 2: "attach ''blk'' mi blk (snd (space_of spaces ''blk'')) (h1, p1) = Inr (bl, h2, p2)"
    "hcsr h2 Time = hcsr h1 Time" "bl = None \<longleftrightarrow> blk = None"
    using attach_found [OF sl find(2)] by blast
  obtain n h3 p3 where 3: "attach ''net'' mi net (snd (space_of spaces ''net'')) (h2, p2) = Inr (n, h3, p3)"
    "hcsr h3 Time = hcsr h2 Time" "n = None \<longleftrightarrow> net = None"
    using attach_found [OF sl find(3)] by blast
  let ?cfg = "kmain_cfg im (kernel_satp (bd_vm b)) spaces r bl n" and ?ch = "establish (e_rng e) kem channel_init (replicate 32 0x14)"
  obtain ts d and k :: "'r kernel" where t: "boot_tasks ?cfg = Inr (ts, d)" "enter (boot_kernel ?ch ts) = Inr k" using boot_runs by blast
  note bt = tasks_booted [OF t]
  have tm: "\<exists>h t. timer_start h3 (timer_init (timebase_hz mi) (bd_timer b)) = Inr (h, t)"
    using time 1(2) 2(2) 3(2) by (simp add: timer_start_def arm_next_def add_chk_def timer_init_def time_def)
  have ke: "k0\<lparr>k_sched := ts, k_chan := ?ch, k_frames := \<lambda>_. blank_frame\<rparr> = boot_kernel ?ch ts" by (simp add: k0 boot_kernel_def)
  have kc: "k_chan k0 = channel_init" by (simp add: k0 boot_kernel_def)
  have "component_names ?cfg \<subseteq> fst ` set (components_of mmio mi)"
    using component_names_built [of ?cfg rng blk net] 1(3) 2(3) 3(3) by (simp add: kmain_cfg_def components_of_def dv)
  then have runs: "runs_in_place im (bd_vm b) (components_of mmio mi) k'" if "kept (boot_kernel ?ch ts) k'" for k' :: "'r kernel"
    using placed_runs [OF that _ _ _ _ sp, of ?cfg] bt(3) by (simp add: kmain_cfg_def boot_kernel_def)
  have "kept (boot_kernel ?ch ts) k'" if "reachable (user_slots (k_sched k)) d k k'" for k'
    using reachable_kept [OF that] bt(2) kept_trans by (metis kept_def)
  then show ?thesis
    using 1(1) 2(1) 3(1) t tm ke kc bt(1) runs by (auto simp: kmain_tasks_def dv Let_def)
qed


text \<open>C2: The kernel boots, and from then on every task runs where it belongs. With a device tree that parses, memory that holds the
  image, the page tables and the components, and the two deliberate traps taken as the hardware takes them, \<^verbatim>\<open>kmain\<close>
  goes through from the first trap vector to the first task without a panic: the write probe is blocked, the allocator check passes, every
  space is built, every interrupt is routed, the task table is filled, the timer is armed. The kernel's invariant then holds, and in every state reached
  from there by any traps, yields, receives and calls the active page tables are the running task's own: a kernel
  task's are the kernel's, and a component's are those built for the component of that name, which grant user mode exactly its stack, its
  device and DMA frame and the shared user text.\<close>
theorem kmain_boots:
  fixes e :: "'r kenv" and b :: "'d board"
  assumes tree: "dt_from_ptr raw dtb = Inr mi"
    and mem: "frames (bd_vm b) = allocator_new" "memory_fits im mi (components_of mmio mi)"
    and bp: "decode (scause bp) = Breakpoint" "e_parcel e (sepc bp) = Some parcel" "unat (sepc bp) + 4 < 2 ^ 64"
    and wx: "decode (scause f) = StorePageFault" "\<not> from_user f" "e_parcel e (sepc f) = Some parcel'" "unat (sepc f) + 4 < 2 ^ 64"
    and tm: "unat (time (bd_hart b)) + unat (timebase_hz mi) < 2 ^ 64"
  shows "\<exists>b' k d. kmain e kem im raw mmio bp f dtb b = Inr (b', k, d) \<and> kernel_wf (user_slots (k_sched k)) d k \<and>
    kernel_space_ok im mi (bd_vm b') \<and>
    (\<forall>k'. reachable (user_slots (k_sched k)) d k k' \<longrightarrow> runs_in_place im (bd_vm b') (components_of mmio mi) k')"
proof -
  obtain rng blk net where dv: "devices_of mmio mi = (rng, blk, net)" by (cases "devices_of mmio mi")
  have cs: "components_of mmio mi = kmain_components (rtc_of mi) rng blk net" by (simp add: components_of_def dv)
  let ?k = "boot_kernel channel_init sched_new :: 'r kernel"
  obtain fs where 1: "trap_handler e 0 ?k bp = Inr (?k\<lparr>k_frames := fs\<rparr>)" using breakpoint_resumes [OF bp] by blast
  obtain s' fs' spaces where 2: "kmain_memory e im mi (rng, blk, net) f (bd_vm b) (?k\<lparr>k_frames := fs\<rparr>) =
      Inr (s', ?k\<lparr>k_frames := fs\<rparr>\<lparr>k_expecting_wx := False, k_frames := fs'\<rparr>, spaces)"
    "kernel_space_ok im mi s'" "spaces_ok im s' (components_of mmio mi) spaces"
    using kmain_memory_ok [OF mem(1) mem(2) [unfolded cs] wx] unfolding cs by blast
  have k: "?k\<lparr>k_frames := fs\<rparr>\<lparr>k_expecting_wx := False, k_frames := fs'\<rparr> = ?k\<lparr>k_frames := fs'\<rparr>" by (simp add: boot_kernel_def)
  let ?b = "b\<lparr>bd_hart := satp_write (kernel_satp s') (trap_init (im_trap_entry im) (bd_hart b)),
    bd_console := use_uart (uart_base mi) (uart_reg_shift mi) (bd_console b), bd_vm := s'\<rparr>"
  have "unat (time (bd_hart ?b)) + unat (timebase_hz mi) < 2 ^ 64"
    using tm by (simp add: time_def satp_write_def trap_init_def stvec_write_def sscratch_write_def set_csr_def)
  from kmain_tasks_ok [of mi im ?b mmio spaces, OF dt_slots_ok [OF tree] _ this refl [of "?k\<lparr>k_frames := fs'\<rparr>"], of e kem] 2(3)
  obtain b' k d where 3: "kmain_tasks e kem im mi (rng, blk, net) spaces ?b (?k\<lparr>k_frames := fs'\<rparr>) = Inr (b', k, d)" "bd_vm b' = s'"
    "kernel_wf (user_slots (k_sched k)) d k"
    "\<forall>k'. reachable (user_slots (k_sched k)) d k k' \<longrightarrow> runs_in_place im s' (components_of mmio mi) k'"
    by (auto simp: dv)
  have "kmain e kem im raw mmio bp f dtb b = Inr (b', k, d)"
    using 1 tree probe_devices_ok [OF dt_slots_ok [OF tree], of mmio] dv 2(1) k 3(1) by (simp add: kmain_def Let_def)
  then show ?thesis using 2(2) 3(2-4) by (intro exI [of _ b'] exI [of _ k] exI [of _ d]) simp
qed


section \<open>A small machine that boots\<close>

definition demo_names :: "string list" where
  "demo_names = [''rtc'', ''needy'', ''broker'', ''lease'', ''tenant'', ''opener'', ''sealer'', ''nocap'', ''rogue'', ''healer'',
     ''transient'', ''flaky'', ''novel'', ''entropy'', ''rnguser'', ''deferrer'', ''dclientA'', ''dclientB'']"

definition demo_stacks :: "string \<Rightarrow> usize" where
  "demo_stacks n = (case position (\<lambda>m. m = n) demo_names of None \<Rightarrow> 0 | Some i \<Rightarrow> 0x80210000 + 0x2000 * word_of_nat i)"

definition demo_image :: image where
  "demo_image = \<lparr>im_layout = small_layout, im_trap_entry = 0x80200000, im_task_trampoline = 0x80200100, im_user_trampoline = 0x80200200,
     im_sstatus = 0, im_entry = (\<lambda>_. 0x80206000), im_ustack = demo_stacks, im_kstack = (\<lambda>_. 0x80202000), im_probe = 0x80201010\<rparr>"

definition demo_mmio :: regs where
  "demo_mmio a = (if a = 0x10001000 then 0x74726976 else if a = 0x10001008 then 4 else 0)"

definition demo_board :: "line board" where
  "demo_board = \<lparr>bd_hart = \<lparr>hx = (\<lambda>_. 0), hcsr = (\<lambda>_. 0), hmem = (\<lambda>_. 0)\<rparr>, bd_console = typed_console\<lparr>c_base := 0\<rparr>,
     bd_vm = \<lparr>frames = allocator_new, tables = (\<lambda>_ _. 0), uart_mmio_base = 0, plic_mmio_base = 0, kernel_satp = 0\<rparr>,
     bd_plic = \<lparr>PLIC_BASE = 0, plic_regs = (\<lambda>_. 0)\<rparr>, bd_timer = \<lparr>tm_interval = 0, tm_ticks = 0, tm_deadline = None\<rparr>, bd_shell = (0, 0)\<rparr>"

abbreviation demo_machine :: machine_info where
  "demo_machine \<equiv> read_machine Controller demo_platform"

lemma demo_machine_fields:
  "ram_base demo_machine = 0x80000000" "ram_size demo_machine = 0x800000" "timebase_hz demo_machine = 10000000"
  "uart_base demo_machine = 0x10000000" "rtc_base demo_machine = 0x101000" "plic_base demo_machine = 0xC000000"
  "virtio_mmio_count demo_machine = 1" "take (Suc 0) (virtio_mmio demo_machine) = [0x10001000]"
  by (simp_all add: read_machine_def demo_platform_def slots_of_def Let_def)

lemma demo_components:
  "components_of demo_mmio demo_machine = kmain_components (0x101000, 0x102000) (Some 0x10001000) None None"
  by (simp add: components_of_def devices_of_def demo_machine_fields rtc_of_def demo_mmio_def MAGIC_OFF_def DEVICE_ID_OFF_def
      MAGIC_VALUE_def DEVICE_ID_RNG_def DEVICE_ID_BLK_def DEVICE_ID_NET_def Let_def)

lemmas region_eval = component_apart_def static_regions_def stack_region_def device_region_def component_cost_def demo_image_def
  demo_machine_fields ram_end_of_def small_layout_def kernel_regions_def image_regions_def uart_regions_def plic_regions_def
  USER_STACK_SIZE_def page_aligned_def PAGE_SIZE_def table_frames_def range_cost_def pte_leaf_bit bit_simps flag_bits flags_ok_def

lemma demo_plain:
  assumes "demo_stacks n = x" "x \<in> set (map (\<lambda>i. 0x80210000 + 0x2000 * word_of_nat i) [0..<18])"
  shows "component_apart demo_image demo_machine (n, Plain (0, 0))"
    "component_cost small_layout 0x10000000 0xC000000 demo_stacks (n, Plain (0, 0)) \<le> 40"
  using assms by (auto simp: region_eval upt_rec pte_bits)

lemma demo_rtc:
  "component_apart demo_image demo_machine (''rtc'', Plain (0x101000, 0x102000))"
  "component_cost small_layout 0x10000000 0xC000000 demo_stacks (''rtc'', Plain (0x101000, 0x102000)) \<le> 40"
  by (simp_all add: region_eval pte_bits demo_stacks_def demo_names_def)

lemma demo_entropy:
  "component_apart demo_image demo_machine (''entropy'', Virtio 0x10001000)"
  "component_cost small_layout 0x10000000 0xC000000 demo_stacks (''entropy'', Virtio 0x10001000) \<le> 40"
  by (simp_all add: region_eval pte_bits demo_stacks_def demo_names_def)

lemma demo_kernel_fits:
  "kernel_fits demo_image demo_machine"
  "1 + table_frames (kernel_space_regions small_layout (ram_end_of demo_machine) 0x10000000 0xC000000) \<le> 40"
  by (simp_all add: kernel_fits_def kernel_space_regions_def region_eval pte_bits MAX_FRAMES_def FRAME_SIZE_def)


lemma demo_stack_at:
  assumes "n \<in> set demo_names"
  shows "demo_stacks n \<in> set (map (\<lambda>i. 0x80210000 + 0x2000 * word_of_nat i :: usize) [0..<18])"
proof -
  obtain i where i: "position (\<lambda>m. m = n) demo_names = Some i"
    using assms by (cases "position (\<lambda>m. m = n) demo_names") (auto simp: position_None_iff)
  moreover have "length demo_names = 18" by (simp add: demo_names_def)
  ultimately have "demo_stacks n = 0x80210000 + 0x2000 * word_of_nat i" "i < 18" using position_SomeD [OF i] by (simp_all add: demo_stacks_def)
  then show ?thesis by (simp del: upt_rec)
qed

lemma demo_all:
  assumes "c \<in> set (components_of demo_mmio demo_machine)"
  shows "component_apart demo_image demo_machine c \<and> component_cost small_layout 0x10000000 0xC000000 demo_stacks c \<le> 40"
proof -
  have "c \<in> {(''rtc'', Plain (0x101000, 0x102000)), (''entropy'', Virtio 0x10001000)} \<or> (\<exists>n\<in>set demo_names. c = (n, Plain (0, 0)))"
    using assms unfolding demo_components kmain_components_def driver_def demo_names_def by auto
  then show ?thesis using demo_rtc demo_entropy demo_plain [OF refl demo_stack_at] by blast
qed

lemma demo_memory_fits: "memory_fits demo_image demo_machine (components_of demo_mmio demo_machine)"
proof -
  let ?cs = "components_of demo_mmio demo_machine"
  have "sum_list (map (component_cost small_layout 0x10000000 0xC000000 demo_stacks) ?cs) \<le> sum_list (map (\<lambda>_. 40) ?cs)"
    by (rule sum_list_mono) (use demo_all in blast)
  moreover have "sum_list (map (\<lambda>_. 40) ?cs) = (720 :: nat)" by (simp add: demo_components kmain_components_def driver_def)
  ultimately have "frames_needed demo_image demo_machine ?cs \<le> 760"
    using demo_kernel_fits(2) by (simp add: frames_needed_def demo_machine_fields demo_image_def)
  then have "frames_needed demo_image demo_machine ?cs \<le> (unat (ram_end_of demo_machine) - unat (kernel_end (im_layout demo_image))) div FRAME_SIZE"
    by (simp add: ram_end_of_def demo_machine_fields demo_image_def small_layout_def FRAME_SIZE_def)
  then show ?thesis using demo_kernel_fits(1) demo_all by (simp add: memory_fits_def)
qed

theorem kmain_boots_witness:
  "\<exists>b' d. \<exists>k :: unit kernel. kmain demo_env toy_kem demo_image (blob_at 0x82200000 (platform_blob Controller demo_platform)) demo_mmio
       (blank_frame\<lparr>sepc := 0x1000, scause := 3\<rparr>) (blank_frame\<lparr>sepc := 0x1000, scause := 15, sstatus := 0x100\<rparr>) 0x82200000 demo_board = Inr (b', k, d) \<and>
     kernel_wf (user_slots (k_sched k)) d k \<and> runs_in_place demo_image (bd_vm b') (components_of demo_mmio demo_machine) k"
proof -
  let ?bp = "blank_frame\<lparr>sepc := 0x1000, scause := 3\<rparr>" and ?f = "blank_frame\<lparr>sepc := 0x1000, scause := 15, sstatus := 0x100\<rparr>"
  have l: "length (platform_blob Controller demo_platform) < 2 ^ 32" by (simp add: demo_blob_length)
  have tree: "dt_from_ptr (blob_at 0x82200000 (platform_blob Controller demo_platform)) 0x82200000 = Inr demo_machine"
    by (rule platform_read [OF l blob_at_raw [OF l]])
  have m: "frames (bd_vm demo_board) = allocator_new" by (simp add: demo_board_def)
  have bp: "decode (scause ?bp) = Breakpoint" "e_parcel demo_env (sepc ?bp) = Some 0x9002" "unat (sepc ?bp) + 4 < 2 ^ 64"
    by (simp_all add: decode_def INTERRUPT_BIT_def demo_env_def)
  have wx: "decode (scause ?f) = StorePageFault" "\<not> from_user ?f" "e_parcel demo_env (sepc ?f) = Some 0x9002" "unat (sepc ?f) + 4 < 2 ^ 64"
    by (simp_all add: decode_def INTERRUPT_BIT_def from_user_def demo_env_def)
  have tm: "unat (time (bd_hart demo_board)) + unat (timebase_hz demo_machine) < 2 ^ 64" by (simp add: demo_board_def time_def demo_machine_fields)
  show ?thesis
    using kmain_boots [OF tree m demo_memory_fits bp wx tm, of toy_kem] reachable.start by blast
qed

end
