(* ===== verification/Fs.thy ===== *)
theory Fs
  imports Rust_Str
begin

text \<open>
  The on-disk filesystem format (\<^verbatim>\<open>src/libs/common/src/fs.rs\<close>): superblock, one directory block
  of fixed-size entries, contiguous extents. Encoders write into a caller's buffer through
  bounds-checked copies; the abstract view of a directory block is the list of its entries, and
  \<open>lookup\<close> and \<open>append_plan\<close> are refined by search in that list and by adding one entry at its end.
\<close>

section \<open>Format\<close>

definition BLOCK_SIZE :: nat where "BLOCK_SIZE = 512"
definition FS_MAGIC :: u32 where "FS_MAGIC = 0x53464236"
definition FS_VERSION :: u32 where "FS_VERSION = 1"
definition DIR_BLOCK :: u32 where "DIR_BLOCK = 1"
definition DATA_START_BLOCK :: u32 where "DATA_START_BLOCK = 2"
definition NAME_LEN :: nat where "NAME_LEN = 48"
definition DIRENT_SIZE :: nat where "DIRENT_SIZE = 64"
definition DIRENTS_PER_BLOCK :: nat where "DIRENTS_PER_BLOCK = BLOCK_SIZE div DIRENT_SIZE"
definition SPARE_BLOCKS :: u32 where "SPARE_BLOCKS = 8"

lemmas fs_consts = BLOCK_SIZE_def DIR_BLOCK_def DATA_START_BLOCK_def NAME_LEN_def DIRENT_SIZE_def
  DIRENTS_PER_BLOCK_def SPARE_BLOCKS_def

record superblock =
  magic :: u32
  version :: u32
  block_size :: u32
  dir_block :: u32
  dir_entries :: u32
  total_blocks :: u32

definition sb_encode :: "superblock \<Rightarrow> bytes \<Rightarrow> bytes result" where
  "sb_encode sb block =
     bindr (put_at block 0 (le_bytes 4 (magic sb))) (\<lambda>b.
     bindr (put_at b 4 (le_bytes 4 (version sb))) (\<lambda>b.
     bindr (put_at b 8 (le_bytes 4 (block_size sb))) (\<lambda>b.
     bindr (put_at b 12 (le_bytes 4 (dir_block sb))) (\<lambda>b.
     bindr (put_at b 16 (le_bytes 4 (dir_entries sb))) (\<lambda>b.
     put_at b 20 (le_bytes 4 (total_blocks sb)))))))"

definition sb_decode :: "bytes \<Rightarrow> superblock option" where
  "sb_decode block =
     (if length block < 24 then None
      else let rd = (\<lambda>off. le_word (field off 4 block));
               sb = \<lparr>magic = rd 0, version = rd 4, block_size = rd 8, dir_block = rd 12,
                     dir_entries = rd 16, total_blocks = rd 20\<rparr>
           in if magic sb \<noteq> FS_MAGIC \<or> version sb \<noteq> FS_VERSION then None else Some sb)"

record dir_entry =
  de_name :: bytes
  de_start_block :: u32
  de_byte_len :: u32

definition dirent_new :: "rstr \<Rightarrow> u32 \<Rightarrow> u32 \<Rightarrow> dir_entry" where
  "dirent_new name start_block byte_len =
     (let k = min (length name) NAME_LEN
      in \<lparr>de_name = take k name @ replicate (NAME_LEN - k) 0, de_start_block = start_block, de_byte_len = byte_len\<rparr>)"

definition dirent_encode :: "dir_entry \<Rightarrow> bytes \<Rightarrow> bytes result" where
  "dirent_encode e buf =
     bindr (put_at buf 0 (de_name e)) (\<lambda>b.
     bindr (put_at b NAME_LEN (le_bytes 4 (de_start_block e))) (\<lambda>b.
     put_at b (NAME_LEN + 4) (le_bytes 4 (de_byte_len e))))"

definition dirent_decode :: "bytes \<Rightarrow> dir_entry result" where
  "dirent_decode e =
     bindr (slice e 0 NAME_LEN) (\<lambda>name.
     bindr (slice e NAME_LEN (NAME_LEN + 4)) (\<lambda>s.
     bindr (slice e (NAME_LEN + 4) (NAME_LEN + 8)) (\<lambda>l.
     Inr \<lparr>de_name = name, de_start_block = le_word s, de_byte_len = le_word l\<rparr>)))"

definition name_end :: "dir_entry \<Rightarrow> nat" where
  "name_end e = (case position (\<lambda>c. c = 0) (de_name e) of Some i \<Rightarrow> i | None \<Rightarrow> NAME_LEN)"

definition name_str :: "dir_entry \<Rightarrow> rstr" where
  "name_str e = (case from_utf8 (take (name_end e) (de_name e)) of Some s \<Rightarrow> s | None \<Rightarrow> [])"

definition name_is :: "dir_entry \<Rightarrow> rstr \<Rightarrow> bool" where
  "name_is e want \<longleftrightarrow> \<not> length want > NAME_LEN \<and> take (name_end e) (de_name e) = want"

definition block_count :: "u32 \<Rightarrow> u32 result" where
  "block_count byte_len =
     bindr (add_chk byte_len (word_of_nat BLOCK_SIZE)) (\<lambda>x. Inr ((x - 1) div word_of_nat BLOCK_SIZE))"

definition dir_entry_at :: "bytes \<Rightarrow> nat \<Rightarrow> dir_entry option result" where
  "dir_entry_at dir_bytes i =
     (let off = i * DIRENT_SIZE
      in if i \<ge> DIRENTS_PER_BLOCK \<or> off + DIRENT_SIZE > length dir_bytes then Inr None
         else bindr (slice dir_bytes off (off + DIRENT_SIZE)) (\<lambda>e. bindr (dirent_decode e) (\<lambda>d. Inr (Some d))))"

fun lookup_from :: "bytes \<Rightarrow> rstr \<Rightarrow> nat list \<Rightarrow> dir_entry option result" where
  "lookup_from dir_bytes name [] = Inr None"
| "lookup_from dir_bytes name (i # is) =
     (let off = i * DIRENT_SIZE
      in if off + DIRENT_SIZE > length dir_bytes then Inr None
         else bindr (slice dir_bytes off (off + DIRENT_SIZE)) (\<lambda>b.
              bindr (dirent_decode b) (\<lambda>e.
              if name_is e name then Inr (Some e) else lookup_from dir_bytes name is)))"

definition lookup :: "bytes \<Rightarrow> u32 \<Rightarrow> rstr \<Rightarrow> dir_entry option result" where
  "lookup dir_bytes count name = lookup_from dir_bytes name [0..<min (unat count) DIRENTS_PER_BLOCK]"

record append_plan_t =
  ap_start_block :: u32
  ap_superblock :: superblock
  ap_dir_block :: bytes

definition append_plan :: "superblock \<Rightarrow> bytes \<Rightarrow> rstr \<Rightarrow> u32 \<Rightarrow> append_plan_t option result" where
  "append_plan sb dir_bytes name byte_len =
     (let count = unat (dir_entries sb)
      in if count \<ge> DIRENTS_PER_BLOCK then Inr None
         else let start_block = total_blocks sb
              in bindr (block_count byte_len) (\<lambda>nblocks.
                 let copy = min (length dir_bytes) BLOCK_SIZE;
                     dir = take copy dir_bytes @ replicate (BLOCK_SIZE - copy) 0;
                     off = count * DIRENT_SIZE
                 in bindr (slice dir off (off + DIRENT_SIZE)) (\<lambda>e.
                    bindr (dirent_encode (dirent_new name start_block byte_len) e) (\<lambda>e'.
                    bindr (put_at dir off e') (\<lambda>dir'.
                    bindr (add_chk (dir_entries sb) 1) (\<lambda>n.
                    bindr (add_chk (total_blocks sb) nblocks) (\<lambda>t.
                    Inr (Some \<lparr>ap_start_block = start_block,
                               ap_superblock = sb\<lparr>dir_entries := n, total_blocks := t\<rparr>,
                               ap_dir_block = dir'\<rparr>))))))))"

section \<open>Superblock\<close>

lemma le_word_field [simp]: "le_word (le_bytes 4 w) = (w :: u32)"
  by (simp add: le_word_le_bytes)

lemma sb_encode_ok:
  assumes "24 \<le> length block"
  obtains b where "sb_encode sb block = Inr b" "length b = length block" "drop 24 b = drop 24 block"
    "magic sb = FS_MAGIC \<and> version sb = FS_VERSION \<longrightarrow> sb_decode b = Some sb"
proof -
  let ?b = "overlay (overlay (overlay (overlay (overlay (overlay block 0 (le_bytes 4 (magic sb))) 4 (le_bytes 4 (version sb)))
     8 (le_bytes 4 (block_size sb))) 12 (le_bytes 4 (dir_block sb))) 16 (le_bytes 4 (dir_entries sb))) 20 (le_bytes 4 (total_blocks sb))"
  have len: "length ?b = length block" using assms by simp
  have run: "sb_encode sb block = Inr ?b"
    using assms by (simp add: sb_encode_def put_at_fits)
  have rd: "field 0 4 ?b = le_bytes 4 (magic sb)" "field 4 4 ?b = le_bytes 4 (version sb)"
    "field 8 4 ?b = le_bytes 4 (block_size sb)" "field 12 4 ?b = le_bytes 4 (dir_block sb)"
    "field 16 4 ?b = le_bytes 4 (dir_entries sb)" "field 20 4 ?b = le_bytes 4 (total_blocks sb)"
    using assms by simp_all
  have tail: "drop 24 ?b = drop 24 block"
    using assms by (simp add: overlay_def)
  show thesis
    using that [OF run len tail] rd assms len by (simp add: sb_decode_def Let_def)
qed

section \<open>Directory entries\<close>

text \<open>The entry at position \<open>i\<close> of a directory block, and the list of the first \<open>n\<close>.\<close>

definition entry_of :: "bytes \<Rightarrow> dir_entry" where
  "entry_of b = \<lparr>de_name = field 0 48 b, de_start_block = le_word (field 48 4 b), de_byte_len = le_word (field 52 4 b)\<rparr>"

definition entries :: "bytes \<Rightarrow> nat \<Rightarrow> dir_entry list" where
  "entries dir n = map (\<lambda>i. entry_of (field (i * 64) 64 dir)) [0..<n]"

lemma dirent_decode_ok: "length b = 64 \<Longrightarrow> dirent_decode b = Inr (entry_of b)"
  by (simp add: dirent_decode_def entry_of_def fs_consts slice_def field_def)

lemma dirent_encode_ok:
  assumes "length b = 64" "length (de_name e) = 48"
  shows "\<exists>b'. dirent_encode e b = Inr b' \<and> length b' = 64 \<and> entry_of b' = e"
proof -
  let ?b = "overlay (overlay (overlay b 0 (de_name e)) 48 (le_bytes 4 (de_start_block e))) 52 (le_bytes 4 (de_byte_len e))"
  have "dirent_encode e b = Inr ?b"
    using assms by (simp add: dirent_encode_def fs_consts put_at_fits)
  moreover have "entry_of ?b = e" using assms by (simp add: entry_of_def)
  ultimately show ?thesis using assms by simp
qed

lemma length_dirent_new [simp]: "length (de_name (dirent_new name st len)) = 48"
  by (simp add: dirent_new_def fs_consts Let_def)

lemma dirent_new_fields [simp]:
  "de_start_block (dirent_new name st len) = st" "de_byte_len (dirent_new name st len) = len"
  by (simp_all add: dirent_new_def Let_def)

text \<open>A name that survives the format: at most 48 bytes, without a NUL.\<close>

definition name_ok :: "rstr \<Rightarrow> bool" where
  "name_ok name \<longleftrightarrow> length name \<le> NAME_LEN \<and> 0 \<notin> set name"

lemma position_replicate: "0 \<notin> set name \<Longrightarrow> position (\<lambda>c. c = 0) (name @ replicate n (0 :: u8)) = (if n = 0 then None else Some (length name))"
  by (induction name) (cases n, auto)

lemma name_of_new: "name_ok name \<Longrightarrow> take (name_end (dirent_new name st len)) (de_name (dirent_new name st len)) = name"
  by (auto simp: name_ok_def dirent_new_def name_end_def Let_def NAME_LEN_def position_replicate min_def)

lemma name_is_new: "name_ok name \<Longrightarrow> name_is (dirent_new name st len) want \<longleftrightarrow> want = name"
  using name_of_new [of name st len] by (auto simp: name_is_def name_ok_def)

lemma lookup_from_ok:
  assumes "\<forall>i\<in>set is. (i + 1) * 64 \<le> length dir"
  shows "lookup_from dir name is = Inr (find (\<lambda>e. name_is e name) (map (\<lambda>i. entry_of (field (i * 64) 64 dir)) is))"
  using assms
proof (induction "is")
  case (Cons i "is")
  then have "i * 64 + 64 \<le> length dir" by simp
  then show ?case using Cons
    by (simp add: Let_def fs_consts slice_field dirent_decode_ok)
qed simp

text \<open>The lookup loop is a search in the list of entries.\<close>

lemma lookup_find:
  assumes "length dir = BLOCK_SIZE"
  shows "lookup dir count name = Inr (find (\<lambda>e. name_is e name) (entries dir (min (unat count) 8)))"
  unfolding lookup_def entries_def
  using lookup_from_ok [of "[0..<min (unat count) DIRENTS_PER_BLOCK]" dir name] assms
  by (auto simp: fs_consts)

lemma dir_entry_at_ok:
  "length dir = BLOCK_SIZE \<Longrightarrow> dir_entry_at dir i = Inr (if i < 8 then Some (entry_of (field (i * 64) 64 dir)) else None)"
  by (auto simp: dir_entry_at_def Let_def fs_consts slice_field dirent_decode_ok)

section \<open>Appending\<close>

definition blocks_for :: "nat \<Rightarrow> nat" where
  "blocks_for n = (n + 511) div 512"

lemma block_count_ok:
  assumes "unat byte_len + 512 < 2 ^ 32"
  shows "block_count byte_len = Inr (word_of_nat (blocks_for (unat byte_len)))"
proof -
  have s: "unat (byte_len + 512) = unat byte_len + 512" using assms by (simp add: unat_add_fits)
  then have "unat (byte_len + 512 - 1) = unat byte_len + 511"
    by (subst unat_sub) (simp_all add: word_le_nat_alt)
  then have "unat ((byte_len + 512 - 1) div 512) = blocks_for (unat byte_len)"
    by (simp add: unat_div blocks_for_def)
  then have "(byte_len + 512 - 1) div 512 = word_of_nat (blocks_for (unat byte_len))"
    by (metis of_nat_unat ucast_id)
  then show ?thesis using assms by (simp add: block_count_def add_chk_def fs_consts)
qed

lemma block_count_huge: "2 ^ 32 \<le> unat byte_len + 512 \<Longrightarrow> block_count byte_len = Inl ArithOverflow"
  by (simp add: block_count_def add_chk_def fs_consts)

lemma unat_blocks_for: "unat (l :: u32) + 512 < 2 ^ 32 \<Longrightarrow> unat (word_of_nat (blocks_for (unat l)) :: u32) = blocks_for (unat l)"
proof -
  assume "unat l + 512 < 2 ^ 32"
  then have "blocks_for (unat l) < 2 ^ 32" by (simp add: blocks_for_def)
  then show ?thesis by (simp add: unat_of_nat take_bit_nat_eq_self)
qed

definition append_fits :: "superblock \<Rightarrow> u32 \<Rightarrow> bool" where
  "append_fits sb byte_len \<longleftrightarrow> unat byte_len + 512 < 2 ^ 32 \<and> unat (total_blocks sb) + blocks_for (unat byte_len) < 2 ^ 32"

definition grow_sb :: "superblock \<Rightarrow> u32 \<Rightarrow> superblock" where
  "grow_sb sb byte_len = sb\<lparr>dir_entries := dir_entries sb + 1,
     total_blocks := total_blocks sb + word_of_nat (blocks_for (unat byte_len))\<rparr>"

lemma entries_overlay:
  assumes "length dir = 512" "n < 8" "length b = 64"
  shows "entries (overlay dir (n * 64) b) (Suc n) = entries dir n @ [entry_of b]"
proof -
  have "field (i * 64) 64 (overlay dir (n * 64) b) = field (i * 64) 64 dir" if "i < n" for i
    by (rule field_overlay_other) (use that assms in auto)
  then show ?thesis using assms by (simp add: entries_def)
qed

lemma append_plan_ok:
  assumes "length dir = BLOCK_SIZE" "unat (dir_entries sb) < 8" "append_fits sb byte_len"
  shows "\<exists>dir'. append_plan sb dir name byte_len =
      Inr (Some \<lparr>ap_start_block = total_blocks sb, ap_superblock = grow_sb sb byte_len, ap_dir_block = dir'\<rparr>) \<and>
    length dir' = BLOCK_SIZE \<and>
    entries dir' (unat (dir_entries sb) + 1) = entries dir (unat (dir_entries sb)) @ [dirent_new name (total_blocks sb) byte_len]"
proof -
  let ?n = "unat (dir_entries sb)" and ?e = "dirent_new name (total_blocks sb) byte_len"
  have n: "?n * 64 + 64 \<le> length dir" using assms(1,2) by (simp add: fs_consts)
  obtain b where b: "dirent_encode ?e (field (?n * 64) 64 dir) = Inr b" "length b = 64" "entry_of b = ?e"
    using dirent_encode_ok [of "field (?n * 64) 64 dir" ?e] n by auto
  have t: "unat (total_blocks sb) + unat (word_of_nat (blocks_for (unat byte_len)) :: u32) < 2 ^ 32"
    using assms(3) by (simp add: append_fits_def unat_blocks_for)
  have run: "append_plan sb dir name byte_len =
      Inr (Some \<lparr>ap_start_block = total_blocks sb, ap_superblock = grow_sb sb byte_len, ap_dir_block = overlay dir (?n * 64) b\<rparr>)"
    using assms n b t block_count_ok [of byte_len]
    by (simp add: append_plan_def Let_def fs_consts append_fits_def slice_field put_at_fits add_chk_def grow_sb_def)
  then show ?thesis
    using entries_overlay [of dir ?n b] assms n b by (simp add: fs_consts)
qed

lemma append_plan_full: "8 \<le> unat (dir_entries sb) \<Longrightarrow> append_plan sb dir name byte_len = Inr None"
  by (simp add: append_plan_def fs_consts Let_def)

section \<open>The directory as a table of files\<close>

text \<open>What the readers and writers of the volume rely on: lookups search the list of files, and
  adding a file puts one entry at its end.\<close>

locale file_table =
  fixes ok :: "'v \<Rightarrow> bool"
    and files :: "'v \<Rightarrow> dir_entry list"
    and search :: "'v \<Rightarrow> rstr \<Rightarrow> dir_entry option result"
    and add :: "'v \<Rightarrow> rstr \<Rightarrow> u32 \<Rightarrow> 'v option result"
  assumes search_ok: "ok v \<Longrightarrow> search v name = Inr (find (\<lambda>e. name_is e name) (files v))"
    and add_ok: "ok v \<Longrightarrow> add v name len = Inr (Some v') \<Longrightarrow>
      ok v' \<and> (\<exists>st. files v' = files v @ [dirent_new name st len])"
begin

lemma added_is_found:
  assumes "ok v" "add v name len = Inr (Some v')" "name_ok name" "search v name = Inr None"
  shows "\<exists>st. search v' name = Inr (Some (dirent_new name st len))"
proof -
  obtain st where st: "ok v'" "files v' = files v @ [dirent_new name st len]"
    using add_ok assms(1,2) by blast
  then show ?thesis
    using search_ok [OF st(1), of name] search_ok [OF assms(1), of name] assms(3,4)
    by (auto simp: find_append name_is_new)
qed

lemma others_unchanged:
  assumes "ok v" "add v name len = Inr (Some v')" "name_ok name" "other \<noteq> name"
  shows "search v' other = search v other"
proof -
  obtain st where st: "ok v'" "files v' = files v @ [dirent_new name st len]"
    using add_ok assms(1,2) by blast
  then show ?thesis
    using search_ok [OF st(1), of other] search_ok [OF assms(1), of other] assms(3,4)
    by (auto simp: find_append name_is_new split: option.splits)
qed

lemma existing_kept:
  assumes "ok v" "add v name len = Inr (Some v')" "search v other = Inr (Some e)"
  shows "search v' other = Inr (Some e)"
proof -
  obtain st where st: "ok v'" "files v' = files v @ [dirent_new name st len]"
    using add_ok assms(1,2) by blast
  then show ?thesis
    using search_ok [OF st(1), of other] search_ok [OF assms(1), of other] assms(3)
    by (auto simp: find_append split: option.splits)
qed

end

type_synonym volume = "superblock \<times> bytes"

definition volume_ok :: "volume \<Rightarrow> bool" where
  "volume_ok v \<longleftrightarrow> length (snd v) = BLOCK_SIZE \<and> unat (dir_entries (fst v)) \<le> 8"

definition volume_files :: "volume \<Rightarrow> dir_entry list" where
  "volume_files v = entries (snd v) (unat (dir_entries (fst v)))"

definition volume_search :: "volume \<Rightarrow> rstr \<Rightarrow> dir_entry option result" where
  "volume_search v name = lookup (snd v) (dir_entries (fst v)) name"

definition volume_add :: "volume \<Rightarrow> rstr \<Rightarrow> u32 \<Rightarrow> volume option result" where
  "volume_add v name len =
     bindr (append_plan (fst v) (snd v) name len) (\<lambda>p.
     Inr (map_option (\<lambda>pl. (ap_superblock pl, ap_dir_block pl)) p))"

lemma append_plan_overflow:
  assumes "length dir = BLOCK_SIZE" "unat (dir_entries sb) < 8" "\<not> append_fits sb len"
  shows "append_plan sb dir name len = Inl ArithOverflow"
proof (cases "unat len + 512 < 2 ^ 32")
  case True
  let ?n = "unat (dir_entries sb)" and ?e = "dirent_new name (total_blocks sb) len"
  have n: "?n * 64 + 64 \<le> length dir" using assms(1,2) by (simp add: fs_consts)
  obtain b where b: "dirent_encode ?e (field (?n * 64) 64 dir) = Inr b" "length b = 64"
    using dirent_encode_ok [of "field (?n * 64) 64 dir" ?e] n by auto
  have "\<not> unat (total_blocks sb) + unat (word_of_nat (blocks_for (unat len)) :: u32) < 2 ^ 32"
    using assms(3) True by (simp add: append_fits_def unat_blocks_for)
  then show ?thesis
    using assms True n b block_count_ok [of len]
    by (simp add: append_plan_def Let_def fs_consts slice_field put_at_fits add_chk_def)
next
  case False
  then show ?thesis using assms block_count_huge [of len] by (simp add: append_plan_def Let_def fs_consts)
qed

lemma append_plan_Some:
  assumes "length dir = BLOCK_SIZE" "append_plan sb dir name len = Inr (Some pl)"
  shows "unat (dir_entries sb) < 8 \<and> append_fits sb len"
  using append_plan_overflow [OF assms(1), of sb len name] append_plan_full [of sb dir name len] assms(2)
  by (cases "unat (dir_entries sb) < 8"; cases "append_fits sb len") simp_all

lemma unat_dir_entries_Suc: "unat (dir_entries sb) < 8 \<Longrightarrow> unat (dir_entries (grow_sb sb len)) = unat (dir_entries sb) + 1"
  by (simp add: grow_sb_def unat_add_fits)

interpretation fs: file_table volume_ok volume_files volume_search volume_add
proof
  fix v name assume "volume_ok v"
  then show "volume_search v name = Inr (find (\<lambda>e. name_is e name) (volume_files v))"
    by (simp add: volume_search_def volume_files_def volume_ok_def lookup_find min_def)
next
  fix v name len v'
  assume v: "volume_ok v" and add: "volume_add v name len = Inr (Some v')"
  obtain sb dir where sd: "v = (sb, dir)" by (cases v)
  have dir: "length dir = BLOCK_SIZE" using v sd by (simp add: volume_ok_def)
  from add sd obtain pl where pl: "append_plan sb dir name len = Inr (Some pl)" "v' = (ap_superblock pl, ap_dir_block pl)"
    by (auto simp: volume_add_def bindr_eq_Inr_iff)
  from append_plan_Some [OF dir pl(1)] have fit: "unat (dir_entries sb) < 8" "append_fits sb len" by simp_all
  from append_plan_ok [OF dir fit, of name] pl(1)
  have r: "ap_superblock pl = grow_sb sb len" "length (ap_dir_block pl) = BLOCK_SIZE"
    "entries (ap_dir_block pl) (unat (dir_entries sb) + 1) = entries dir (unat (dir_entries sb)) @ [dirent_new name (total_blocks sb) len]"
    by auto
  then show "volume_ok v' \<and> (\<exists>st. volume_files v' = volume_files v @ [dirent_new name st len])"
    using pl(2) sd fit unat_dir_entries_Suc [OF fit(1), of len] by (auto simp: volume_ok_def volume_files_def)
qed

section \<open>Properties\<close>

text \<open>C18: Appending refines adding one file to the list of files. On a volume whose directory block
  is full the plan is refused; when block numbers would leave 32 bits it panics; otherwise the new
  volume's files are the old ones followed by the new entry, placed at the old end of the volume,
  lookups of other names give what they gave before, and the new name is found unless an older file
  already had it.\<close>
theorem append_adds_one_file:
  assumes "volume_ok (sb, dir)" "name_ok name"
  shows "if 8 \<le> unat (dir_entries sb) then append_plan sb dir name len = Inr None
    else if \<not> append_fits sb len then append_plan sb dir name len = Inl ArithOverflow
    else \<exists>pl. append_plan sb dir name len = Inr (Some pl) \<and> volume_ok (ap_superblock pl, ap_dir_block pl) \<and>
      ap_start_block pl = total_blocks sb \<and>
      unat (total_blocks (ap_superblock pl)) = unat (total_blocks sb) + blocks_for (unat len) \<and>
      volume_files (ap_superblock pl, ap_dir_block pl) = volume_files (sb, dir) @ [dirent_new name (total_blocks sb) len] \<and>
      (\<forall>other. other \<noteq> name \<longrightarrow>
         lookup (ap_dir_block pl) (dir_entries (ap_superblock pl)) other = lookup dir (dir_entries sb) other) \<and>
      (lookup dir (dir_entries sb) name = Inr None \<longrightarrow>
         lookup (ap_dir_block pl) (dir_entries (ap_superblock pl)) name = Inr (Some (dirent_new name (total_blocks sb) len)))"
proof -
  have dir: "length dir = BLOCK_SIZE" using assms(1) by (simp add: volume_ok_def)
  consider "8 \<le> unat (dir_entries sb)" | "unat (dir_entries sb) < 8" "\<not> append_fits sb len"
    | "unat (dir_entries sb) < 8" "append_fits sb len" by linarith
  then show ?thesis
  proof cases
    case 1
    then show ?thesis using append_plan_full by simp
  next
    case 2
    then show ?thesis using append_plan_overflow [OF dir] by simp
  next
    case 3
    obtain dir' where d: "append_plan sb dir name len =
        Inr (Some \<lparr>ap_start_block = total_blocks sb, ap_superblock = grow_sb sb len, ap_dir_block = dir'\<rparr>)"
      "length dir' = BLOCK_SIZE"
      "entries dir' (unat (dir_entries sb) + 1) = entries dir (unat (dir_entries sb)) @ [dirent_new name (total_blocks sb) len]"
      using append_plan_ok [OF dir 3] by blast
    let ?pl = "\<lparr>ap_start_block = total_blocks sb, ap_superblock = grow_sb sb len, ap_dir_block = dir'\<rparr>"
    have ok: "volume_ok (grow_sb sb len, dir')"
      using d(2) 3 unat_dir_entries_Suc by (simp add: volume_ok_def)
    have fl: "volume_files (grow_sb sb len, dir') = volume_files (sb, dir) @ [dirent_new name (total_blocks sb) len]"
      using d(3) 3 unat_dir_entries_Suc by (simp add: volume_files_def)
    have add: "volume_add (sb, dir) name len = Inr (Some (grow_sb sb len, dir'))"
      using d(1) by (simp add: volume_add_def)
    have others: "lookup dir' (dir_entries (grow_sb sb len)) other = lookup dir (dir_entries sb) other" if "other \<noteq> name" for other
      using fs.others_unchanged [OF assms(1) add assms(2) that] by (simp add: volume_search_def)
    have new: "lookup dir' (dir_entries (grow_sb sb len)) name = Inr (Some (dirent_new name (total_blocks sb) len))"
      if none: "lookup dir (dir_entries sb) name = Inr None"
      using fs.search_ok [OF ok, of name] fs.search_ok [OF assms(1), of name] fl none name_is_new [OF assms(2)]
      by (simp add: volume_search_def find_append)
    have "unat (total_blocks (grow_sb sb len)) = unat (total_blocks sb) + blocks_for (unat len)"
      using 3(2) by (simp add: grow_sb_def append_fits_def unat_blocks_for unat_add_fits)
    then show ?thesis
      using 3 d(1) ok fl others new by simp
  qed
qed

definition one_file_sb :: superblock where
  "one_file_sb = \<lparr>magic = FS_MAGIC, version = FS_VERSION, block_size = 512, dir_block = 1, dir_entries = 0, total_blocks = 2\<rparr>"

theorem append_adds_one_file_witness:
  "\<exists>pl. append_plan one_file_sb (replicate 512 0) (lit ''KB-0006'') 200 = Inr (Some pl) \<and> ap_start_block pl = 2 \<and>
     lookup (ap_dir_block pl) (dir_entries (ap_superblock pl)) (lit ''KB-0006'') = Inr (Some (dirent_new (lit ''KB-0006'') 2 200))"
proof -
  have v: "volume_ok (one_file_sb, replicate 512 0)" "name_ok (lit ''KB-0006'')"
    by (simp_all add: volume_ok_def one_file_sb_def fs_consts name_ok_def lit_def)
  have "lookup (replicate 512 0) (dir_entries one_file_sb) (lit ''KB-0006'') = Inr None"
    by (simp add: lookup_def one_file_sb_def)
  moreover have "append_fits one_file_sb 200" by (simp add: append_fits_def one_file_sb_def blocks_for_def)
  ultimately show ?thesis using append_adds_one_file [OF v, of 200] by (auto simp: one_file_sb_def)
qed

end
