(* ===== verification/Mkfs.thy ===== *)
theory Mkfs
  imports Fs
begin

text \<open>
  The host image builder (\<^verbatim>\<open>src/tools/mkfs/src/lib.rs\<close>). The theorem: what it writes, the readers
  of the format find again, every file under its name with its bytes.
\<close>

section \<open>The builder\<close>

type_synonym named_file = "rstr \<times> bytes"

text \<open>The first loop: an entry per file, the next free block, and the number of data blocks.\<close>

fun plan_files :: "named_file list \<Rightarrow> u32 \<Rightarrow> u32 \<Rightarrow> ((dir_entry \<times> bytes) list \<times> u32 \<times> u32) result" where
  "plan_files [] next data_blocks = Inr ([], next, data_blocks)"
| "plan_files ((name, bytes) # fs) next data_blocks =
     bindr (block_count (word_of_nat (length bytes))) (\<lambda>nb.
     let entry = dirent_new name next (word_of_nat (length bytes))
     in bindr (add_chk next nb) (\<lambda>next'.
        bindr (add_chk data_blocks nb) (\<lambda>data'.
        bindr (plan_files fs next' data') (\<lambda>(es, n, d). Inr ((entry, bytes) # es, n, d)))))"

fun write_entries :: "bytes \<Rightarrow> nat \<Rightarrow> (dir_entry \<times> bytes) list \<Rightarrow> bytes result" where
  "write_entries img i [] = Inr img"
| "write_entries img i ((ent, bytes) # es) =
     (let off = unat DIR_BLOCK * BLOCK_SIZE + i * DIRENT_SIZE
      in bindr (slice img off (off + DIRENT_SIZE)) (\<lambda>e.
         bindr (dirent_encode ent e) (\<lambda>e'.
         bindr (put_at img off e') (\<lambda>img'.
         write_entries img' (i + 1) es))))"

fun write_data :: "bytes \<Rightarrow> (dir_entry \<times> bytes) list \<Rightarrow> bytes result" where
  "write_data img [] = Inr img"
| "write_data img ((ent, bytes) # es) =
     bindr (put_at img (unat (de_start_block ent) * BLOCK_SIZE) bytes) (\<lambda>img'. write_data img' es)"

definition build_image :: "named_file list \<Rightarrow> bytes result" where
  "build_image files =
     bindr (assertr (length files \<le> DIRENTS_PER_BLOCK) (AssertFailed ''too many files for one directory block'')) (\<lambda>_.
     bindr (plan_files files DATA_START_BLOCK 0) (\<lambda>(entries, next, data_blocks).
     bindr (add_chk DATA_START_BLOCK data_blocks) (\<lambda>total_blocks.
     bindr (add_chk total_blocks SPARE_BLOCKS) (\<lambda>device_blocks.
     let img = replicate (unat device_blocks * BLOCK_SIZE) 0;
         sb = \<lparr>magic = FS_MAGIC, version = FS_VERSION, block_size = word_of_nat BLOCK_SIZE, dir_block = DIR_BLOCK,
               dir_entries = word_of_nat (length files), total_blocks = total_blocks\<rparr>
     in bindr (slice img 0 BLOCK_SIZE) (\<lambda>b.
        bindr (sb_encode sb b) (\<lambda>b'.
        bindr (put_at img 0 b') (\<lambda>img1.
        bindr (write_entries img1 0 entries) (\<lambda>img2.
        write_data img2 entries))))))))"

section \<open>Where files land\<close>

fun data_size :: "('a \<times> bytes) list \<Rightarrow> nat" where
  "data_size [] = 0"
| "data_size ((name, bytes) # fs) = blocks_for (length bytes) + data_size fs"

text \<open>The extents that start at block \<open>n\<close> and follow each other.\<close>

fun extents :: "nat \<Rightarrow> (dir_entry \<times> bytes) list \<Rightarrow> bool" where
  "extents n [] \<longleftrightarrow> True"
| "extents n ((e, bytes) # es) \<longleftrightarrow> unat (de_start_block e) = n \<and> extents (n + blocks_for (length bytes)) es"

lemma blocks_for_fits: "length bytes \<le> blocks_for (length bytes) * 512"
  by (simp add: blocks_for_def)

text \<open>The entry made for a file.\<close>

fun entry_for :: "named_file \<Rightarrow> dir_entry \<times> bytes \<Rightarrow> bool" where
  "entry_for (name, bytes) (e, b) \<longleftrightarrow> (\<exists>st. e = dirent_new name st (word_of_nat (length bytes))) \<and> b = bytes"

lemma plan_files_ok:
  assumes "unat nx + data_size fs < 2 ^ 32" "unat db + data_size fs < 2 ^ 32" "\<forall>(name, bytes)\<in>set fs. length bytes + 512 < 2 ^ 32"
  shows "\<exists>es nx' db'. plan_files fs nx db = Inr (es, nx', db') \<and> unat db' = unat db + data_size fs \<and>
    extents (unat nx) es \<and> map snd es = map snd fs \<and>
    list_all2 entry_for fs es"
  using assms
proof (induction fs arbitrary: nx db)
  case (Cons f fs)
  obtain name bytes where f: "f = (name, bytes)" by (cases f)
  let ?l = "word_of_nat (length bytes) :: u32"
  let ?nb = "word_of_nat (blocks_for (length bytes)) :: u32"
  have l: "unat ?l = length bytes" using Cons.prems(3) f by (simp add: unat_of_nat take_bit_nat_eq_self)
  have bc: "block_count ?l = Inr ?nb" using block_count_ok [of ?l] l Cons.prems(3) f by simp
  have nb: "unat ?nb = blocks_for (length bytes)" using unat_blocks_for [of ?l] l Cons.prems(3) f by simp
  have a1: "unat nx + unat ?nb < 2 ^ 32" "unat db + unat ?nb < 2 ^ 32" using Cons.prems(1,2) f nb by simp_all
  have u: "unat (nx + ?nb) = unat nx + blocks_for (length bytes)" "unat (db + ?nb) = unat db + blocks_for (length bytes)"
    using a1 nb unat_add_fits [of nx ?nb] unat_add_fits [of db ?nb] by simp_all
  obtain es nx' db' where ih: "plan_files fs (nx + ?nb) (db + ?nb) = Inr (es, nx', db')"
    "unat db' = unat (db + ?nb) + data_size fs" "extents (unat (nx + ?nb)) es" "map snd es = map snd fs"
    "list_all2 entry_for fs es"
    using Cons.IH [of "nx + ?nb" "db + ?nb"] Cons.prems u f by auto
  have "plan_files (f # fs) nx db = Inr ((dirent_new name nx ?l, bytes) # es, nx', db')"
    using f bc a1 ih(1) by (simp add: add_chk_def Let_def)
  then show ?case using ih f u by auto
qed simp

text \<open>Writing the directory touches its own slots only; writing the data leaves everything below
  the first extent.\<close>

lemma write_entries_ok:
  assumes "i + length es \<le> 8" "1024 \<le> length img" "\<forall>(e, b)\<in>set es. length (de_name e) = 48"
  shows "\<exists>img'. write_entries img i es = Inr img' \<and> length img' = length img \<and>
    (\<forall>a n. a + n \<le> 512 + i * 64 \<or> 1024 \<le> a \<longrightarrow> field a n img' = field a n img) \<and>
    (\<forall>k<length es. entry_of (field (512 + (i + k) * 64) 64 img') = fst (es ! k))"
  using assms
proof (induction es arbitrary: img i)
  case (Cons x es)
  obtain e b where x: "x = (e, b)" by (cases x)
  let ?off = "512 + i * 64"
  have off: "?off + 64 \<le> 1024" using Cons.prems(1) by simp
  then have fits: "?off + 64 \<le> length img" using Cons.prems(2) by simp
  obtain w where w: "dirent_encode e (field ?off 64 img) = Inr w" "length w = 64" "entry_of w = e"
    using dirent_encode_ok [of "field ?off 64 img" e] fits Cons.prems(3) x by auto
  let ?img = "overlay img ?off w"
  have len: "length ?img = length img" using fits w by simp
  obtain img' where ih: "write_entries ?img (Suc i) es = Inr img'" "length img' = length img"
    "\<forall>a n. a + n \<le> 512 + Suc i * 64 \<or> 1024 \<le> a \<longrightarrow> field a n img' = field a n ?img"
    "\<forall>k<length es. entry_of (field (512 + (Suc i + k) * 64) 64 img') = fst (es ! k)"
    using Cons.IH [of "Suc i" ?img] Cons.prems len by auto
  have run: "write_entries img i (x # es) = Inr img'"
    using x fits w ih(1) slice_field [OF fits] by (simp add: Let_def fs_consts put_at_fits)
  have keep: "field a n img' = field a n img" if "a + n \<le> ?off \<or> 1024 \<le> a" for a n
  proof -
    have "field a n img' = field a n ?img" using ih(3) that by auto
    also have "... = field a n img" by (rule field_overlay_other) (use that fits w off in auto)
    finally show ?thesis .
  qed
  have "field ?off 64 img' = w" using ih(3) fits w by simp
  then have "entry_of (field (512 + (i + k) * 64) 64 img') = fst ((x # es) ! k)" if "k < length (x # es)" for k
    using that ih(4) w(3) x by (cases k) (auto simp: add.assoc)
  then show ?case using run ih(2) keep by blast
qed simp

lemma write_data_ok:
  assumes "extents n es" "(n + data_size es) * 512 \<le> length img"
  shows "\<exists>img'. write_data img es = Inr img' \<and> length img' = length img \<and>
    (\<forall>a k. a + k \<le> n * 512 \<longrightarrow> field a k img' = field a k img) \<and>
    (\<forall>(e, b)\<in>set es. field (unat (de_start_block e) * 512) (length b) img' = b)"
  using assms
proof (induction es arbitrary: n img)
  case (Cons x es)
  obtain e b where x: "x = (e, b)" by (cases x)
  have st: "unat (de_start_block e) = n" using Cons.prems(1) x by simp
  have bf: "length b \<le> blocks_for (length b) * 512" by (rule blocks_for_fits)
  let ?n = "n + blocks_for (length b)"
  have fits: "n * 512 + length b \<le> length img" "n * 512 + length b \<le> ?n * 512" using Cons.prems(2) bf x by simp_all
  let ?img = "overlay img (n * 512) b"
  obtain img' where ih: "write_data ?img es = Inr img'" "length img' = length ?img"
    "\<forall>a k. a + k \<le> ?n * 512 \<longrightarrow> field a k img' = field a k ?img"
    "\<forall>(e, b)\<in>set es. field (unat (de_start_block e) * 512) (length b) img' = b"
    using Cons.IH [of ?n ?img] Cons.prems x fits by (auto simp: add.assoc)
  have run: "write_data img (x # es) = Inr img'" using x st fits ih(1) by (simp add: put_at_fits fs_consts)
  have "field (n * 512) (length b) img' = b" using ih(3) fits by simp
  moreover have "field a k img' = field a k img" if "a + k \<le> n * 512" for a k
    using ih(3) that fits by simp
  ultimately show ?case using run ih(2,4) fits x st by auto
qed simp

section \<open>Properties\<close>

definition image_files_ok :: "named_file list \<Rightarrow> bool" where
  "image_files_ok files \<longleftrightarrow> length files \<le> 8 \<and> distinct (map fst files) \<and> list_all (\<lambda>(name, bytes). name_ok name) files \<and>
     list_all (\<lambda>(name, bytes). length bytes + 512 < 2 ^ 32) files \<and> data_size files + 10 < 2 ^ 32"

text \<open>Reading a file the way the format prescribes: superblock, directory, extent.\<close>

definition read_file :: "bytes \<Rightarrow> rstr \<Rightarrow> bytes option result" where
  "read_file img name =
     (case sb_decode (field 0 512 img) of
        None \<Rightarrow> Inr None
      | Some sb \<Rightarrow>
          bindr (lookup (field (unat (dir_block sb) * 512) 512 img) (dir_entries sb) name) (\<lambda>e.
          Inr (map_option (\<lambda>e. field (unat (de_start_block e) * 512) (unat (de_byte_len e)) img) e)))"

lemma data_size_sum: "data_size fs = sum_list (map (\<lambda>b. blocks_for (length b)) (map snd fs))"
  by (induction fs rule: data_size.induct) auto

lemma entry_for_names: "list_all2 entry_for fs es \<Longrightarrow> \<forall>(e, b)\<in>set es. length (de_name e) = 48"
  by (induction rule: list_all2_induct) auto

lemma build_image_ok:
  assumes "image_files_ok files"
  obtains img es sb where "build_image files = Inr img" "length img = (data_size files + 10) * 512"
    "sb_decode (field 0 512 img) = Some sb" "dir_block sb = 1" "unat (dir_entries sb) = length files"
    "unat (total_blocks sb) = data_size files + 2"
    "entries (field 512 512 img) (length files) = map fst es"
    "\<forall>(e, b)\<in>set es. field (unat (de_start_block e) * 512) (length b) img = b"
    "list_all2 entry_for files es"
proof -
  have fo: "length files \<le> 8" "\<forall>(name, bytes)\<in>set files. length bytes + 512 < 2 ^ 32" "data_size files + 10 < 2 ^ 32"
    using assms by (auto simp: image_files_ok_def list_all_iff)
  obtain es nx db where pl: "plan_files files DATA_START_BLOCK 0 = Inr (es, nx, db)" "unat db = data_size files"
    "extents 2 es" "map snd es = map snd files"
    "list_all2 entry_for files es"
    using plan_files_ok [of DATA_START_BLOCK files 0] fo by (auto simp: fs_consts)
  have le: "length es = length files" using pl(4) by (metis length_map)
  have nm: "\<forall>(e, b)\<in>set es. length (de_name e) = 48" by (rule entry_for_names [OF pl(5)])
  let ?t = "2 + db"
  have t: "unat ?t = data_size files + 2" "unat (?t + 8) = data_size files + 10"
    using pl(2) fo(3) unat_add_fits [of 2 db] unat_add_fits [of ?t 8] by simp_all
  let ?sb = "\<lparr>magic = FS_MAGIC, version = FS_VERSION, block_size = 512, dir_block = 1,
    dir_entries = word_of_nat (length files), total_blocks = ?t\<rparr>"
  let ?z = "replicate ((data_size files + 10) * 512) (0 :: u8)"
  have z: "1024 \<le> length ?z" by simp
  have z1: "24 \<le> length (field 0 512 ?z)" using z by simp
  obtain b where b: "sb_encode ?sb (field 0 512 ?z) = Inr b" "length b = length (field 0 512 ?z)" "drop 24 b = drop 24 (field 0 512 ?z)"
    "magic ?sb = FS_MAGIC \<and> version ?sb = FS_VERSION \<longrightarrow> sb_decode b = Some ?sb"
    by (rule sb_encode_ok [OF z1, where sb = ?sb])
  have lb: "length b = 512" using b(2) z by simp
  let ?i1 = "overlay ?z 0 b"
  have l1: "length ?i1 = length ?z" using lb z by simp
  obtain i2 where i2: "write_entries ?i1 0 es = Inr i2" "length i2 = length ?i1"
    "\<forall>a n. a + n \<le> 512 + 0 * 64 \<or> 1024 \<le> a \<longrightarrow> field a n i2 = field a n ?i1"
    "\<forall>k<length es. entry_of (field (512 + (0 + k) * 64) 64 i2) = fst (es ! k)"
    using write_entries_ok [of 0 es ?i1] nm le fo(1) z l1 by auto
  have ds: "data_size es = data_size files" by (simp add: data_size_sum pl(4))
  have "(2 + data_size es) * 512 \<le> length i2" using i2(2) l1 ds by simp
  then obtain img where img: "write_data i2 es = Inr img" "length img = length i2"
    "\<forall>a k. a + k \<le> 2 * 512 \<longrightarrow> field a k img = field a k i2"
    "\<forall>(e, b)\<in>set es. field (unat (de_start_block e) * 512) (length b) img = b"
    using write_data_ok [OF pl(3)] by blast
  have run: "build_image files = Inr img"
    using fo(1) pl(1,2) t fo(3) z b(1) lb i2(1) img(1) slice_field [of 0 512 ?z]
    by (simp add: build_image_def assertr_def fs_consts add_chk_def Let_def put_at_fits)
  have sbd: "sb_decode (field 0 512 img) = Some ?sb"
    using img(3) i2(3) lb z b(4) by simp
  have len: "length img = (data_size files + 10) * 512" using img(2) i2(2) l1 by simp
  have "entry_of (field (k * 64) 64 (field 512 512 img)) = fst (es ! k)" if "k < length es" for k
  proof -
    have k: "k < 8" using that le fo(1) by simp
    have "field (k * 64) 64 (field 512 512 img) = field (512 + k * 64) 64 img" by (rule field_field) (use k in simp)
    also have "... = field (512 + k * 64) 64 i2" using img(3) k by simp
    finally show ?thesis using i2(4) that by simp
  qed
  then have en: "entries (field 512 512 img) (length files) = map fst es"
    by (auto simp: entries_def le intro!: nth_equalityI)
  have n: "unat (dir_entries ?sb) = length files" using fo(1) by (simp add: unat_of_nat take_bit_nat_eq_self)
  show thesis using that [OF run len sbd _ n _ en img(4) pl(5)] t by simp
qed

lemma image_reads_back:
  assumes "image_files_ok files"
  shows "\<exists>img. build_image files = Inr img \<and> length img = (data_size files + 10) * BLOCK_SIZE \<and>
    (\<forall>name. read_file img name = Inr (map_of files name))"
proof -
  obtain img es sb where im: "build_image files = Inr img" "length img = (data_size files + 10) * 512"
    "sb_decode (field 0 512 img) = Some sb" "dir_block sb = 1" "unat (dir_entries sb) = length files"
    "unat (total_blocks sb) = data_size files + 2"
    "entries (field 512 512 img) (length files) = map fst es"
    "\<forall>(e, b)\<in>set es. field (unat (de_start_block e) * 512) (length b) img = b" "list_all2 entry_for files es"
    by (rule build_image_ok [OF assms])
  have fo: "length files \<le> 8" "\<forall>(name, bytes)\<in>set files. name_ok name" "\<forall>(name, bytes)\<in>set files. length bytes + 512 < 2 ^ 32"
    using assms by (auto simp: image_files_ok_def list_all_iff)
  have rd: "map_option (\<lambda>e. field (unat (de_start_block e) * 512) (unat (de_byte_len e)) img) (find (\<lambda>e. name_is e name) (map fst es))
      = map_of files name" for name
    using im(9,8) fo(2,3)
  proof (induction rule: list_all2_induct)
    case (Cons f fs x xs)
    then show ?case
      by (cases f; cases x) (auto simp: name_is_new unat_of_nat take_bit_nat_eq_self)
  qed simp
  have dl: "length (field 512 512 img) = BLOCK_SIZE" using im(2) by (simp add: fs_consts)
  have "read_file img name = Inr (map_of files name)" for name
    using im(3,4,5,7) fo(1) lookup_find [OF dl] rd [of name] by (simp add: read_file_def min_def)
  then show ?thesis using im(1,2) by (simp add: fs_consts)
qed

text \<open>What mkfs writes, the readers find. For at most eight files with distinct names of at most
  48 bytes without NUL, and sizes that stay within 32-bit block numbers, building the image succeeds,
  the image is exactly its blocks plus eight spare ones, and reading any of the files back by name
  through superblock, directory and extent gives exactly its bytes; a name that was not stored is
  not found.\<close>
theorem image_roundtrip:
  assumes "image_files_ok files"
  shows "\<exists>img. build_image files = Inr img \<and> length img = (data_size files + 10) * BLOCK_SIZE \<and>
    (\<forall>name. read_file img name = Inr (map_of files name))"
  using assms by (rule image_reads_back)

theorem image_roundtrip_witness:
  "\<exists>img. build_image [(lit ''alpha'', lit ''hi''), (lit ''big'', replicate 600 90)] = Inr img \<and>
     read_file img (lit ''big'') = Inr (Some (replicate 600 90)) \<and> read_file img (lit ''gamma'') = Inr None"
proof -
  let ?fs = "[(lit ''alpha'', lit ''hi''), (lit ''big'', replicate 600 90)]"
  have "image_files_ok ?fs"
    by (simp add: image_files_ok_def name_ok_def fs_consts blocks_for_def lit_def)
  from image_roundtrip [OF this] obtain img where "build_image ?fs = Inr img" "\<And>name. read_file img name = Inr (map_of ?fs name)"
    by blast
  then show ?thesis by (simp add: lit_def)
qed

end
