(* ===== verification/Kb.thy ===== *)
theory Kb
  imports Rust_Str
begin

text \<open>
  Knowledge-base entries (\<^verbatim>\<open>src/libs/common/src/kb.rs\<close>): the frontmatter parser, the writer the
  self-healer uses, and the in-place updates of its fixed-width counters. The theorems: what is
  written parses back to the same fields, and after an in-place update the parser reads the new
  counters while every other byte of the block is as it was.
\<close>

section \<open>Parsing\<close>

record kb_record =
  r_id :: rstr
  r_title :: rstr
  r_playbook :: rstr
  r_match_cause :: "rstr option"
  r_seen :: u32
  r_escalated :: bool

definition QUOTE :: u8 where "QUOTE = 34"
definition COLON :: u8 where "COLON = 58"

definition clean :: "rstr \<Rightarrow> rstr" where
  "clean v =
     (let v = trim v;
          v = (case strip_prefix [QUOTE] v of Some r \<Rightarrow> r | None \<Rightarrow> v)
      in trim (case strip_suffix [QUOTE] v of Some r \<Rightarrow> r | None \<Rightarrow> v))"

text \<open>The local variables of the parsing loop.\<close>

record kb_acc =
  a_id :: "rstr option"
  a_title :: "rstr option"
  a_playbook :: "rstr option"
  a_match_cause :: "rstr option"
  a_seen :: u32
  a_escalated :: bool
  a_in_playbook :: bool

definition acc0 :: kb_acc where
  "acc0 = \<lparr>a_id = None, a_title = None, a_playbook = None, a_match_cause = None, a_seen = 0,
           a_escalated = False, a_in_playbook = False\<rparr>"

definition set_key :: "kb_acc \<Rightarrow> rstr \<Rightarrow> rstr \<Rightarrow> kb_acc" where
  "set_key a key value =
     (if key = lit ''id'' then a\<lparr>a_id := Some (clean value)\<rparr>
      else if key = lit ''title'' then a\<lparr>a_title := Some (clean value)\<rparr>
      else if key = lit ''match-cause'' then a\<lparr>a_match_cause := Some (clean value)\<rparr>
      else if key = lit ''seen'' then a\<lparr>a_seen := (case parse_u32 (clean value) of Some n \<Rightarrow> n | None \<Rightarrow> 0)\<rparr>
      else if key = lit ''escalated'' then a\<lparr>a_escalated := (clean value = lit ''1'')\<rparr>
      else if key = lit ''playbook'' then a\<lparr>a_in_playbook := True\<rparr>
      else a)"

definition parse_line :: "kb_acc \<Rightarrow> rstr \<Rightarrow> kb_acc" where
  "parse_line a line =
     (case (if a_in_playbook a \<and> a_playbook a = None then strip_prefix (lit ''- '') (trim_start line) else None) of
        Some item \<Rightarrow> a\<lparr>a_playbook := Some (clean item)\<rparr>
      | None \<Rightarrow>
          (case split_once COLON line of
             Some (key, value) \<Rightarrow> set_key a (trim key) value
           | None \<Rightarrow> a))"

fun parse_lines :: "kb_acc \<Rightarrow> rstr list \<Rightarrow> kb_acc" where
  "parse_lines a [] = a"
| "parse_lines a (line # ls) = (if trim line = lit ''---'' then a else parse_lines (parse_line a line) ls)"

definition kb_parse :: "bytes \<Rightarrow> kb_record option" where
  "kb_parse bytes =
     (case from_utf8 bytes of
        None \<Rightarrow> None
      | Some text \<Rightarrow>
          (case rlines text of
             [] \<Rightarrow> None
           | l # ls \<Rightarrow>
               if trim l \<noteq> lit ''---'' then None
               else let a = parse_lines acc0 ls
                    in case (a_id a, a_title a, a_playbook a) of
                         (Some i, Some t, Some p) \<Rightarrow>
                           Some \<lparr>r_id = i, r_title = t, r_playbook = p, r_match_cause = a_match_cause a,
                                 r_seen = a_seen a, r_escalated = a_escalated a\<rparr>
                       | _ \<Rightarrow> None))"

section \<open>Writing\<close>

text \<open>The closure \<open>put\<close>: copies or refuses, and the first refusal ends the function.\<close>

fun put_strs :: "bytes \<Rightarrow> nat \<Rightarrow> bytes list \<Rightarrow> bytes \<times> nat option" where
  "put_strs out n [] = (out, Some n)"
| "put_strs out n (s # ss) =
     (if n + length s > length out then (out, None) else put_strs (overlay out n s) (n + length s) ss)"

definition nl :: bytes where "nl = [LF]"

definition kb_serialize :: "rstr \<Rightarrow> rstr \<Rightarrow> rstr \<Rightarrow> rstr \<Rightarrow> bytes \<Rightarrow> bytes \<times> nat option" where
  "kb_serialize eid title playbook match_cause out =
     put_strs out 0
       [lit ''---'' @ nl,
        lit ''id: '', eid, nl,
        lit ''title: '' @ [QUOTE], title, [QUOTE] @ nl,
        lit ''match-cause: '', match_cause, nl,
        lit ''seen: 00000'' @ nl,
        lit ''escalated: 0'' @ nl,
        lit ''playbook:'' @ nl,
        lit ''  - '' @ [QUOTE], playbook, [QUOTE] @ nl,
        lit ''---'' @ nl]"

definition SEEN_WIDTH :: nat where "SEEN_WIDTH = 5"

text \<open>\<^verbatim>\<open>for i in (0..width).rev()\<close>.\<close>

fun write_digits :: "bytes \<Rightarrow> nat \<Rightarrow> nat \<Rightarrow> nat \<Rightarrow> bytes" where
  "write_digits block start 0 n = block"
| "write_digits block start (Suc i) n =
     write_digits (block[start + i := 48 + word_of_nat (n mod 10)]) start i (n div 10)"

definition set_uint_field :: "bytes \<Rightarrow> bytes \<Rightarrow> u32 \<Rightarrow> nat \<Rightarrow> bytes \<times> bool" where
  "set_uint_field block key v width =
     (case find_sub key block of
        None \<Rightarrow> (block, False)
      | Some pos \<Rightarrow>
          let start = pos + length key; e = start + width
          in if e > length block \<or> \<not> list_all is_digit (field start width block) then (block, False)
             else let max_value = min (10 ^ width) (2 ^ 32 - 1) - 1
                  in (write_digits block start width (min (unat v) max_value), True))"

definition set_seen_in_block :: "bytes \<Rightarrow> u32 \<Rightarrow> bytes \<times> bool" where
  "set_seen_in_block block count = set_uint_field block (lit ''seen: '') count SEEN_WIDTH"

definition set_escalated_in_block :: "bytes \<Rightarrow> bool \<Rightarrow> bytes \<times> bool" where
  "set_escalated_in_block block escalated = set_uint_field block (lit ''escalated: '') (if escalated then 1 else 0) 1"

section \<open>The document\<close>

definition kb_doc :: "rstr \<Rightarrow> rstr \<Rightarrow> rstr \<Rightarrow> rstr \<Rightarrow> bytes \<Rightarrow> bytes \<Rightarrow> bytes" where
  "kb_doc eid title playbook match_cause seen escalated =
     lit ''---'' @ LF # lit ''id: '' @ eid @ LF # lit ''title: '' @ QUOTE # title @ QUOTE # LF #
     lit ''match-cause: '' @ match_cause @ LF # lit ''seen: '' @ seen @ LF # lit ''escalated: '' @ escalated @ LF #
     lit ''playbook:'' @ LF # lit ''  - '' @ QUOTE # playbook @ QUOTE # LF # lit ''---'' @ LF # []"

lemma put_strs_ok:
  "n + length (concat ss) \<le> length out \<Longrightarrow>
     put_strs out n ss = (overlay out n (concat ss), Some (n + length (concat ss)))"
proof (induction ss arbitrary: out n)
  case Nil
  then show ?case by (simp add: overlay_def)
next
  case (Cons s ss)
  have "overlay (overlay out n s) (n + length s) (concat ss) = overlay out n (s @ concat ss)"
    using Cons.prems by (cases s) (auto simp: overlay_def min_def ac_simps)
  then show ?case using Cons by (simp add: add.assoc)
qed

lemma put_strs_short: "n \<le> length out \<Longrightarrow> length out < n + length (concat ss) \<Longrightarrow> snd (put_strs out n ss) = None"
  by (induction ss arbitrary: out n) (auto simp: add.assoc)

lemma serialize_doc:
  "kb_serialize eid title playbook cause out =
     put_strs out 0 [lit ''---'' @ nl, lit ''id: '', eid, nl, lit ''title: '' @ [QUOTE], title, [QUOTE] @ nl,
        lit ''match-cause: '', cause, nl, lit ''seen: 00000'' @ nl, lit ''escalated: 0'' @ nl,
        lit ''playbook:'' @ nl, lit ''  - '' @ [QUOTE], playbook, [QUOTE] @ nl, lit ''---'' @ nl]"
  by (simp add: kb_serialize_def)

lemma concat_doc:
  "concat [lit ''---'' @ nl, lit ''id: '', eid, nl, lit ''title: '' @ [QUOTE], title, [QUOTE] @ nl,
        lit ''match-cause: '', cause, nl, lit ''seen: 00000'' @ nl, lit ''escalated: 0'' @ nl,
        lit ''playbook:'' @ nl, lit ''  - '' @ [QUOTE], playbook, [QUOTE] @ nl, lit ''---'' @ nl]
   = kb_doc eid title playbook cause (lit ''00000'') (lit ''0'')"
  by (simp add: kb_doc_def nl_def lit_def)

text \<open>Values the writer is given: printable ASCII without quotes, no blanks at the ends.\<close>

definition sane :: "rstr \<Rightarrow> bool" where
  "sane s \<longleftrightarrow> s \<noteq> [] \<and> list_all (\<lambda>b. 32 \<le> b \<and> b < 127 \<and> b \<noteq> QUOTE) s \<and> hd s \<noteq> 32 \<and> last s \<noteq> 32"

lemma sane_bytes: "sane s \<Longrightarrow> b \<in> set s \<Longrightarrow> 32 \<le> b \<and> b < 127 \<and> b \<noteq> QUOTE"
  by (auto simp: sane_def list_all_iff)

lemma sane_ends: "sane s \<Longrightarrow> plain_byte (hd s) \<and> plain_byte (last s)"
  using sane_bytes [of s "hd s"] sane_bytes [of s "last s"]
  by (auto simp: sane_def plain_byte_def intro: order.strict_trans)

lemma sane_no_break: "sane s \<Longrightarrow> LF \<notin> set s \<and> 13 \<notin> set s"
  using sane_bytes [of s LF] sane_bytes [of s 13] by (auto simp: LF_def)

lemma sane_ascii: "sane s \<Longrightarrow> ascii s"
proof
  fix b assume "sane s" "b \<in> set s"
  then have "b < 127" using sane_bytes by blast
  then show "b < 0x80" by (simp add: word_less_nat_alt)
qed

lemma strip_prefix_hd: "v \<noteq> [] \<Longrightarrow> hd v \<noteq> c \<Longrightarrow> strip_prefix [c] v = None"
  by (cases v) (auto simp: strip_prefix_def)

lemma strip_suffix_last: "v \<noteq> [] \<Longrightarrow> last v \<noteq> c \<Longrightarrow> strip_suffix [c] v = None"
  by (cases v rule: rev_cases) (auto simp: strip_suffix_def)

lemma clean_plain:
  assumes "v \<noteq> []" "plain_byte (hd v)" "plain_byte (last v)" "hd v \<noteq> QUOTE" "last v \<noteq> QUOTE"
  shows "clean (32 # v) = v"
  using assms by (simp add: clean_def trim_plain strip_prefix_hd strip_suffix_last)

lemma clean_sane: "sane v \<Longrightarrow> clean (32 # v) = v"
  using sane_ends [of v] sane_bytes [of v "hd v"] sane_bytes [of v "last v"]
  by (intro clean_plain) (auto simp: sane_def)

lemma plain_quote [simp]: "plain_byte QUOTE"
  by (simp add: plain_byte_def QUOTE_def)

lemma trim_quoted: "trim (QUOTE # v @ [QUOTE]) = QUOTE # v @ [QUOTE]"
  by (rule trim_plain) simp_all

lemma clean_quoted:
  assumes "sane v"
  shows "clean (QUOTE # v @ [QUOTE]) = v" "clean (32 # QUOTE # v @ [QUOTE]) = v"
proof -
  have "trim v = v" using assms sane_ends by (intro trim_plain) (auto simp: sane_def)
  moreover have "strip_prefix [QUOTE] (QUOTE # v @ [QUOTE]) = Some (v @ [QUOTE])" by (simp add: strip_prefix_def)
  ultimately show "clean (QUOTE # v @ [QUOTE]) = v" "clean (32 # QUOTE # v @ [QUOTE]) = v"
    by (simp_all add: clean_def trim_quoted)
qed

lemma rlines_concat:
  "\<forall>l\<in>set ls. LF \<notin> set l \<and> 13 \<notin> set l \<Longrightarrow> rlines (concat (map (\<lambda>l. l @ [LF]) ls)) = ls"
  by (induction ls) (simp_all add: rlines_line)

definition kb_lines :: "rstr \<Rightarrow> rstr \<Rightarrow> rstr \<Rightarrow> rstr \<Rightarrow> bytes \<Rightarrow> bytes \<Rightarrow> bytes list" where
  "kb_lines eid title playbook cause seen escalated =
     [lit ''id: '' @ eid, lit ''title: '' @ QUOTE # title @ [QUOTE], lit ''match-cause: '' @ cause, lit ''seen: '' @ seen,
      lit ''escalated: '' @ escalated, lit ''playbook:'', lit ''  - '' @ QUOTE # playbook @ [QUOTE], lit ''---'']"

lemma kb_doc_lines:
  "kb_doc eid title playbook cause seen escalated =
     concat (map (\<lambda>l. l @ [LF]) (lit ''---'' # kb_lines eid title playbook cause seen escalated))"
  by (simp add: kb_doc_def kb_lines_def)

text \<open>A \<open>key: value\<close> line outside the playbook.\<close>

lemma parse_line_key:
  assumes "\<not> a_in_playbook a" "COLON \<notin> set key" "key \<noteq> []" "plain_byte (hd key)" "plain_byte (last key)"
  shows "parse_line a (key @ COLON # v) = set_key a key v"
  using assms by (simp add: parse_line_def split_once_append trim_plain)

lemma not_fence:
  assumes "plain_byte (last l)" "l \<noteq> []" "plain_byte (hd l)" "l \<noteq> lit ''---''"
  shows "trim l \<noteq> lit ''---''"
  using assms by (simp add: trim_plain)

definition digits :: "bytes \<Rightarrow> bool" where
  "digits ds \<longleftrightarrow> ds \<noteq> [] \<and> list_all is_digit ds"

lemma digits_fixed: "0 < w \<Longrightarrow> digits (fixed_digits w n)"
  using fixed_digits_are_digits [of w n] by (cases w) (simp_all add: digits_def)

lemma digits_byte: "digits ds \<Longrightarrow> b \<in> set ds \<Longrightarrow> plain_byte b \<and> b \<noteq> QUOTE \<and> b < 0x80 \<and> b \<noteq> LF \<and> b \<noteq> 13"
proof -
  assume "digits ds" "b \<in> set ds"
  then have "is_digit b" by (simp add: digits_def list_all_iff)
  then show ?thesis
    by (auto simp: is_digit_plain is_digit_def QUOTE_def LF_def word_le_nat_alt word_less_nat_alt)
qed

lemma digits_plain: "digits ds \<Longrightarrow> plain_byte (hd ds) \<and> plain_byte (last ds) \<and> hd ds \<noteq> QUOTE \<and> last ds \<noteq> QUOTE"
  using digits_byte [of ds "hd ds"] digits_byte [of ds "last ds"] by (simp add: digits_def)

lemma digits_ascii: "digits ds \<Longrightarrow> ascii ds \<and> LF \<notin> set ds \<and> 13 \<notin> set ds"
  using digits_byte [of ds] by blast

lemma clean_digits: "digits ds \<Longrightarrow> clean (32 # ds) = ds"
  using digits_plain [of ds] by (intro clean_plain) (auto simp: digits_def)

text \<open>Every document of the writer's shape parses to its fields.\<close>

lemma doc_bytes:
  assumes "sane eid" "sane title" "sane playbook" "sane cause" "digits seen" "digits esc"
  shows "ascii (kb_doc eid title playbook cause seen esc)"
  using sane_ascii [OF assms(1)] sane_ascii [OF assms(2)] sane_ascii [OF assms(3)] sane_ascii [OF assms(4)]
    digits_ascii [OF assms(5)] digits_ascii [OF assms(6)]
  by (simp add: kb_doc_def lit_def QUOTE_def LF_def ball_Un)

lemma doc_rlines:
  assumes "sane eid" "sane title" "sane playbook" "sane cause" "digits seen" "digits esc"
  shows "rlines (kb_doc eid title playbook cause seen esc) = lit ''---'' # kb_lines eid title playbook cause seen esc"
  unfolding kb_doc_lines
  by (rule rlines_concat)
    (use assms sane_no_break digits_ascii in \<open>simp add: kb_lines_def lit_def QUOTE_def LF_def\<close>)

lemma last_value: "v \<noteq> [] \<Longrightarrow> last (k @ v) = last v"
  by simp

lemma plain_lits:
  "plain_byte (hd (lit ''id: '' @ v))" "plain_byte (hd (lit ''title: '' @ v))" "plain_byte (hd (lit ''match-cause: '' @ v))"
  "plain_byte (hd (lit ''seen: '' @ v))" "plain_byte (hd (lit ''escalated: '' @ v))" "plain_byte (hd (lit ''playbook:'' @ v))"
  "plain_byte (last (lit ''playbook:''))" "plain_byte (hd (lit ''---''))" "plain_byte (last (lit ''---''))"
  by (simp_all add: lit_def plain_byte_def)

lemma lit_keys:
  "lit ''id: '' @ v = lit ''id'' @ COLON # 32 # v" "lit ''title: '' @ v = lit ''title'' @ COLON # 32 # v"
  "lit ''match-cause: '' @ v = lit ''match-cause'' @ COLON # 32 # v" "lit ''seen: '' @ v = lit ''seen'' @ COLON # 32 # v"
  "lit ''escalated: '' @ v = lit ''escalated'' @ COLON # 32 # v" "lit ''playbook:'' = lit ''playbook'' @ COLON # []"
  by (simp_all add: lit_def COLON_def)

lemma key_lits:
  "COLON \<notin> set (lit ''id'')" "lit ''id'' \<noteq> []" "plain_byte (hd (lit ''id''))" "plain_byte (last (lit ''id''))"
  "COLON \<notin> set (lit ''title'')" "lit ''title'' \<noteq> []" "plain_byte (hd (lit ''title''))" "plain_byte (last (lit ''title''))"
  "COLON \<notin> set (lit ''match-cause'')" "lit ''match-cause'' \<noteq> []" "plain_byte (hd (lit ''match-cause''))" "plain_byte (last (lit ''match-cause''))"
  "COLON \<notin> set (lit ''seen'')" "lit ''seen'' \<noteq> []" "plain_byte (hd (lit ''seen''))" "plain_byte (last (lit ''seen''))"
  "COLON \<notin> set (lit ''escalated'')" "lit ''escalated'' \<noteq> []" "plain_byte (hd (lit ''escalated''))" "plain_byte (last (lit ''escalated''))"
  "COLON \<notin> set (lit ''playbook'')" "lit ''playbook'' \<noteq> []" "plain_byte (hd (lit ''playbook''))" "plain_byte (last (lit ''playbook''))"
  by (simp_all add: lit_def COLON_def plain_byte_def)

lemma set_key_lits:
  "set_key a (lit ''id'') v = a\<lparr>a_id := Some (clean v)\<rparr>" "set_key a (lit ''title'') v = a\<lparr>a_title := Some (clean v)\<rparr>"
  "set_key a (lit ''match-cause'') v = a\<lparr>a_match_cause := Some (clean v)\<rparr>"
  "set_key a (lit ''seen'') v = a\<lparr>a_seen := (case parse_u32 (clean v) of Some n \<Rightarrow> n | None \<Rightarrow> 0)\<rparr>"
  "set_key a (lit ''escalated'') v = a\<lparr>a_escalated := (clean v = lit ''1'')\<rparr>"
  "set_key a (lit ''playbook'') v = a\<lparr>a_in_playbook := True\<rparr>"
  by (simp_all add: set_key_def lit_def)

lemma key_lines:
  assumes "\<not> a_in_playbook a"
  shows "parse_line a (lit ''id: '' @ v) = a\<lparr>a_id := Some (clean (32 # v))\<rparr>"
    "parse_line a (lit ''title: '' @ v) = a\<lparr>a_title := Some (clean (32 # v))\<rparr>"
    "parse_line a (lit ''match-cause: '' @ v) = a\<lparr>a_match_cause := Some (clean (32 # v))\<rparr>"
    "parse_line a (lit ''seen: '' @ v) = a\<lparr>a_seen := (case parse_u32 (clean (32 # v)) of Some n \<Rightarrow> n | None \<Rightarrow> 0)\<rparr>"
    "parse_line a (lit ''escalated: '' @ v) = a\<lparr>a_escalated := (clean (32 # v) = lit ''1'')\<rparr>"
    "parse_line a (lit ''playbook:'') = a\<lparr>a_in_playbook := True\<rparr>"
  unfolding lit_keys by (simp_all add: parse_line_key [OF assms] key_lits set_key_lits)

lemma playbook_line:
  assumes "a_in_playbook a" "a_playbook a = None" "sane v"
  shows "parse_line a (lit ''  - '' @ QUOTE # v @ [QUOTE]) = a\<lparr>a_playbook := Some v\<rparr>"
proof -
  have "trim_start (lit ''  - '' @ QUOTE # v @ [QUOTE]) = trim_start (lit ''- '' @ QUOTE # v @ [QUOTE])"
    by (simp add: lit_def)
  also have "... = lit ''- '' @ QUOTE # v @ [QUOTE]"
    by (rule trim_start_plain) (simp_all add: lit_def plain_byte_def)
  finally show ?thesis using assms clean_quoted [OF assms(3)] by (simp add: parse_line_def)
qed

lemma fence_lines:
  assumes "sane eid" "sane title" "sane playbook" "sane cause" "digits seen" "digits esc"
  shows "trim (lit ''id: '' @ eid) \<noteq> lit ''---''" "trim (lit ''title: '' @ QUOTE # title @ [QUOTE]) \<noteq> lit ''---''"
    "trim (lit ''match-cause: '' @ cause) \<noteq> lit ''---''" "trim (lit ''seen: '' @ seen) \<noteq> lit ''---''"
    "trim (lit ''escalated: '' @ esc) \<noteq> lit ''---''" "trim (lit ''playbook:'') \<noteq> lit ''---''"
    "trim (lit ''  - '' @ QUOTE # playbook @ [QUOTE]) \<noteq> lit ''---''" "trim (lit ''---'') = lit ''---''"
proof -
  have ne: "eid \<noteq> []" "cause \<noteq> []" "seen \<noteq> []" "esc \<noteq> []" using assms by (auto simp: sane_def digits_def)
  note pl = sane_ends [OF assms(1)] sane_ends [OF assms(4)] digits_plain [OF assms(5)] digits_plain [OF assms(6)]
  have t: "trim (lit ''  - '' @ QUOTE # playbook @ [QUOTE]) = lit ''- '' @ QUOTE # playbook @ [QUOTE]"
    by (simp add: lit_def) (rule trim_plain, simp_all add: plain_byte_def QUOTE_def)
  show "trim (lit ''id: '' @ eid) \<noteq> lit ''---''" "trim (lit ''match-cause: '' @ cause) \<noteq> lit ''---''"
    "trim (lit ''seen: '' @ seen) \<noteq> lit ''---''" "trim (lit ''escalated: '' @ esc) \<noteq> lit ''---''"
    using ne pl by (intro not_fence; simp add: plain_lits last_value; simp add: lit_def)+
  show "trim (lit ''title: '' @ QUOTE # title @ [QUOTE]) \<noteq> lit ''---''"
    by (rule not_fence) (simp_all add: plain_lits, simp add: lit_def)
  show "trim (lit ''playbook:'') \<noteq> lit ''---''" by (rule not_fence) (simp_all add: lit_def plain_byte_def)
  show "trim (lit ''  - '' @ QUOTE # playbook @ [QUOTE]) \<noteq> lit ''---''" unfolding t by (simp add: lit_def QUOTE_def)
  show "trim (lit ''---'') = lit ''---''" by (rule trim_plain) (simp_all add: plain_lits, simp add: lit_def)
qed

lemma parse_doc:
  assumes "sane eid" "sane title" "sane playbook" "sane cause" "digits seen" "digits esc"
  shows "kb_parse (kb_doc eid title playbook cause seen esc) =
    Some \<lparr>r_id = eid, r_title = title, r_playbook = playbook, r_match_cause = Some cause,
          r_seen = (case parse_u32 seen of Some n \<Rightarrow> n | None \<Rightarrow> 0), r_escalated = (esc = lit ''1'')\<rparr>"
proof -
  have "parse_lines acc0 (kb_lines eid title playbook cause seen esc) =
    \<lparr>a_id = Some eid, a_title = Some title, a_playbook = Some playbook, a_match_cause = Some cause,
     a_seen = (case parse_u32 seen of Some n \<Rightarrow> n | None \<Rightarrow> 0), a_escalated = (esc = lit ''1''), a_in_playbook = True\<rparr>"
    unfolding kb_lines_def acc0_def
    by (simp add: fence_lines [OF assms] key_lines playbook_line assms clean_sane clean_quoted clean_digits)
  then show ?thesis
    using doc_bytes [OF assms] doc_rlines [OF assms] fence_lines(8) [OF assms]
    by (simp add: kb_parse_def from_utf8_ascii)
qed

section \<open>In-place updates\<close>

lemma write_digits_ok:
  "start + w \<le> length block \<Longrightarrow> write_digits block start w n = overlay block start (fixed_digits w n)"
proof (induction w arbitrary: block n)
  case 0
  then show ?case by (simp add: overlay_def)
next
  case (Suc w)
  let ?d = "48 + word_of_nat (n mod 10) :: u8"
  have "overlay (block[start + w := ?d]) start (fixed_digits w (n div 10)) = overlay block start (fixed_digits w (n div 10) @ [?d])"
    by (rule nth_equalityI) (use Suc.prems in \<open>auto simp: nth_overlay nth_append nth_list_update\<close>)
  then show ?case using Suc by simp
qed

lemma starts_with_sep:
  assumes "c \<notin> set w"
  shows "starts_with w (p @ c # q) \<longleftrightarrow> starts_with w p"
proof (cases "length w \<le> length p")
  case True
  then show ?thesis by (simp add: starts_with_def)
next
  case False
  then have "take (length w) (p @ c # q) ! length p = c" by (simp add: nth_append)
  moreover have "w ! length p \<in> set w" using False by simp
  ultimately have "take (length w) (p @ c # q) \<noteq> w" using assms by metis
  then show ?thesis using False by (simp add: starts_with_def)
qed

lemma starts_with_sep0: "c \<notin> set w \<Longrightarrow> w \<noteq> [] \<Longrightarrow> \<not> starts_with w (c # q)"
  using starts_with_sep [of c w "[]" q] by (simp add: starts_with_def)

text \<open>An occurrence does not cross a byte the key does not have.\<close>

lemma find_sub_sep:
  assumes "c \<notin> set w" "w \<noteq> []" "find_sub w p = None"
  shows "find_sub w (p @ c # q) = map_option (\<lambda>i. Suc (length p + i)) (find_sub w q)"
  using assms(3)
proof (induction p)
  case Nil
  have "\<not> starts_with w (c # q)" by (rule starts_with_sep0 [OF assms(1,2)])
  then show ?case by (cases "find_sub w q") simp_all
next
  case (Cons b p)
  have "starts_with w (b # p @ c # q) \<longleftrightarrow> starts_with w (b # p)" using starts_with_sep [OF assms(1), of "b # p" q] by simp
  then show ?case using Cons by (cases "find_sub w q") (auto split: if_splits)
qed

lemma find_sub_sep2:
  assumes "c \<notin> set w" "w \<noteq> []" "find_sub w (k @ v) = None"
  shows "find_sub w (k @ v @ c # q) = map_option (\<lambda>i. Suc (length k + length v + i)) (find_sub w q)"
  using find_sub_sep [OF assms, of q] by simp

lemma find_sub_here: "w \<noteq> [] \<Longrightarrow> find_sub w (w @ r) = Some 0"
  by (cases w) (auto simp: starts_with_def)

text \<open>Values that do not themselves contain a counter's key.\<close>

definition keyless :: "rstr \<Rightarrow> bool" where
  "keyless s \<longleftrightarrow> find_sub (lit ''seen: '') s = None \<and> find_sub (lit ''escalated: '') s = None"

definition kb_head :: "rstr \<Rightarrow> rstr \<Rightarrow> rstr \<Rightarrow> bytes" where
  "kb_head eid title cause =
     lit ''---'' @ LF # (lit ''id: '' @ eid) @ LF # lit ''title: '' @ QUOTE # title @ QUOTE # [] @ LF # (lit ''match-cause: '' @ cause) @ LF # []"

lemma kb_doc_seen:
  "kb_doc eid title playbook cause seen esc =
     kb_head eid title cause @ lit ''seen: '' @ seen @ LF # lit ''escalated: '' @ esc @ LF # lit ''playbook:'' @ LF #
     lit ''  - '' @ QUOTE # playbook @ QUOTE # LF # lit ''---'' @ LF # []"
  by (simp add: kb_doc_def kb_head_def)

lemma head_no_seen:
  assumes "keyless eid" "keyless title" "keyless cause"
  shows "find_sub (lit ''seen: '') (kb_head eid title cause @ lit ''seen: '' @ r) = Some (length (kb_head eid title cause))"
proof -
  let ?w = "lit ''seen: ''"
  have s: "LF \<notin> set ?w" "QUOTE \<notin> set ?w" "?w \<noteq> []" by (simp_all add: lit_def LF_def QUOTE_def)
  have k: "find_sub ?w (lit ''---'') = None" "find_sub ?w (lit ''title: '') = None"
    by (simp_all add: lit_def starts_with_def)
  have v: "find_sub ?w (lit ''id: '' @ eid) = None" "find_sub ?w (lit ''match-cause: '' @ cause) = None"
    using assms by (simp_all add: keyless_def) (simp_all add: lit_def starts_with_def)
  show ?thesis
    unfolding kb_head_def
    using s k v assms(2) find_sub_here [OF s(3), of r]
    by (simp add: find_sub_sep find_sub_sep2 starts_with_sep0 keyless_def)
qed

lemma head_no_escalated:
  assumes "keyless eid" "keyless title" "keyless cause" "list_all is_digit ds"
  shows "find_sub (lit ''escalated: '') (kb_head eid title cause @ lit ''seen: '' @ ds @ LF # lit ''escalated: '' @ r) =
    Some (length (kb_head eid title cause) + 6 + length ds + 1)"
proof -
  let ?w = "lit ''escalated: ''"
  have s: "LF \<notin> set ?w" "QUOTE \<notin> set ?w" "?w \<noteq> []" by (simp_all add: lit_def LF_def QUOTE_def)
  have k: "find_sub ?w (lit ''---'') = None" "find_sub ?w (lit ''title: '') = None"
    by (simp_all add: lit_def starts_with_def)
  have "find_sub ?w ds = None" using assms(4)
    by (induction ds) (auto simp: starts_with_def lit_def is_digit_def)
  then have d: "find_sub ?w (lit ''seen: '' @ ds) = None" by (simp add: lit_def starts_with_def)
  have v: "find_sub ?w (lit ''id: '' @ eid) = None" "find_sub ?w (lit ''match-cause: '' @ cause) = None"
    using assms by (simp_all add: keyless_def) (simp_all add: lit_def starts_with_def)
  have l: "length (lit ''seen: '') = 6" by (simp add: lit_def)
  show ?thesis
    unfolding kb_head_def
    using s k v d l assms(2) find_sub_here [OF s(3), of r]
    by (simp add: find_sub_sep find_sub_sep2 starts_with_sep0 keyless_def)
qed

lemma set_uint_field_ok:
  assumes "find_sub key (p @ key @ ds @ r) = Some (length p)" "list_all is_digit ds" "length ds = w" "10 ^ w \<le> (2 ^ 32 - 1 :: nat)"
  shows "set_uint_field (p @ key @ ds @ r) key v w = (p @ key @ fixed_digits w (min (unat v) (10 ^ w - 1)) @ r, True)"
proof -
  let ?f = "fixed_digits w (min (unat v) (10 ^ w - 1))"
  have "field (length p + length key) w (p @ key @ ds @ r) = ds" using assms(3) by (simp add: field_def)
  moreover have "overlay (p @ key @ ds @ r) (length p + length key) ?f = p @ key @ ?f @ r"
    using assms(3) by (simp add: overlay_def)
  moreover have "min (10 ^ w) (2 ^ 32 - 1) = (10 ^ w :: nat)" using assms(4) by simp
  ultimately show ?thesis
    using assms(1-3) by (simp add: set_uint_field_def Let_def write_digits_ok)
qed

section \<open>Properties\<close>

lemma length_put_strs: "length (fst (put_strs out n ss)) = length out"
  by (induction ss arbitrary: out n) auto

lemma serialize_length: "length (fst (kb_serialize eid title playbook cause out)) = length out"
  unfolding serialize_doc by (rule length_put_strs)

lemma serialize_reads_back:
  assumes "sane eid" "sane title" "sane playbook" "sane cause"
  shows "let n = length (kb_doc eid title playbook cause (lit ''00000'') (lit ''0''))
    in if length out < n then snd (kb_serialize eid title playbook cause out) = None
       else \<exists>out'. kb_serialize eid title playbook cause out = (out', Some n) \<and> drop n out' = drop n out \<and>
         kb_parse (take n out') = Some \<lparr>r_id = eid, r_title = title, r_playbook = playbook, r_match_cause = Some cause,
                                         r_seen = 0, r_escalated = False\<rparr>"
proof -
  let ?d = "kb_doc eid title playbook cause (lit ''00000'') (lit ''0'')"
  have dg: "digits (lit ''00000'')" "digits (lit ''0'')" by (simp_all add: digits_def lit_def is_digit_def)
  have p: "kb_parse ?d = Some \<lparr>r_id = eid, r_title = title, r_playbook = playbook, r_match_cause = Some cause,
      r_seen = 0, r_escalated = False\<rparr>"
    using parse_doc [OF assms dg] by (simp add: parse_u32_def parse_digits_def digits_value_def lit_def is_digit_def)
  show ?thesis
  proof (cases "length out < length ?d")
    case True
    then show ?thesis
      using put_strs_short [of 0 out] unfolding serialize_doc by (simp only: concat_doc Let_def) simp
  next
    case False
    have "kb_serialize eid title playbook cause out = (overlay out 0 ?d, Some (length ?d))"
      unfolding serialize_doc using False by (subst put_strs_ok) (simp_all only: concat_doc, simp_all)
    moreover have "take (length ?d) (overlay out 0 ?d) = ?d" "drop (length ?d) (overlay out 0 ?d) = drop (length ?d) out"
      by (simp_all add: overlay_def)
    ultimately show ?thesis using False p by (simp add: Let_def)
  qed
qed

text \<open>What the self-healer writes, a later boot reads back. For printable values without quotes
  or blanks at the ends, writing succeeds exactly when the document fits the buffer; then it touches
  only the bytes it reports, and parsing those gives back every field, with a zero counter and no
  escalation.\<close>
theorem kb_write_read_roundtrip:
  assumes "sane eid" "sane title" "sane playbook" "sane cause"
  shows "let n = length (kb_doc eid title playbook cause (lit ''00000'') (lit ''0''))
    in if length out < n then snd (kb_serialize eid title playbook cause out) = None
       else \<exists>out'. kb_serialize eid title playbook cause out = (out', Some n) \<and> drop n out' = drop n out \<and>
         kb_parse (take n out') = Some \<lparr>r_id = eid, r_title = title, r_playbook = playbook, r_match_cause = Some cause,
                                         r_seen = 0, r_escalated = False\<rparr>"
  by (rule serialize_reads_back [OF assms])

lemma counters_updated:
  assumes "sane eid" "sane title" "sane playbook" "sane cause" "keyless eid" "keyless title" "keyless cause"
    "digits ds" "length ds = 5" "digits es" "length es = 1"
  shows "\<exists>ds' es'. length ds' = 5 \<and> length es' = 1 \<and>
    set_seen_in_block (kb_doc eid title playbook cause ds es @ pad) seen = (kb_doc eid title playbook cause ds' es @ pad, True) \<and>
    set_escalated_in_block (kb_doc eid title playbook cause ds' es @ pad) esc = (kb_doc eid title playbook cause ds' es' @ pad, True) \<and>
    kb_parse (kb_doc eid title playbook cause ds' es') =
      Some \<lparr>r_id = eid, r_title = title, r_playbook = playbook, r_match_cause = Some cause,
            r_seen = word_of_nat (min (unat seen) 99999), r_escalated = esc\<rparr>"
proof -
  let ?ds = "fixed_digits 5 (min (unat seen) 99999)" and ?es = "fixed_digits 1 (if esc then 1 else 0)"
  have dg: "digits ?ds" "digits ?es" by (rule digits_fixed, simp)+
  have "kb_parse (kb_doc eid title playbook cause ?ds ?es) =
      Some \<lparr>r_id = eid, r_title = title, r_playbook = playbook, r_match_cause = Some cause,
            r_seen = word_of_nat (min (unat seen) 99999), r_escalated = esc\<rparr>"
  proof -
    have "parse_u32 ?ds = Some (word_of_nat (min (unat seen) 99999))"
      by (rule parse_u32_fixed) (simp_all add: min_def)
    moreover have "?es = lit ''1'' \<longleftrightarrow> esc" by (simp add: lit_def)
    ultimately show ?thesis using parse_doc [OF assms(1-4) dg] by simp
  qed
  moreover have "set_seen_in_block (kb_doc eid title playbook cause ds es @ pad) seen = (kb_doc eid title playbook cause ?ds es @ pad, True)"
  proof -
    let ?r = "LF # lit ''escalated: '' @ es @ LF # lit ''playbook:'' @ LF # lit ''  - '' @ QUOTE # playbook @ QUOTE # LF # lit ''---'' @ LF # pad"
    have d: "kb_doc eid title playbook cause x es @ pad = kb_head eid title cause @ lit ''seen: '' @ x @ ?r" for x
      by (simp add: kb_doc_seen)
    have "set_uint_field (kb_head eid title cause @ lit ''seen: '' @ ds @ ?r) (lit ''seen: '') seen 5 =
        (kb_head eid title cause @ lit ''seen: '' @ fixed_digits 5 (min (unat seen) (10 ^ 5 - 1)) @ ?r, True)"
      by (rule set_uint_field_ok) (use assms(8,9) head_no_seen [OF assms(5-7)] in \<open>simp_all add: digits_def\<close>)
    then show ?thesis by (simp add: set_seen_in_block_def SEEN_WIDTH_def d)
  qed
  moreover have "set_escalated_in_block (kb_doc eid title playbook cause ?ds es @ pad) esc = (kb_doc eid title playbook cause ?ds ?es @ pad, True)"
  proof -
    let ?p = "kb_head eid title cause @ lit ''seen: '' @ ?ds @ [LF]"
    let ?r = "LF # lit ''playbook:'' @ LF # lit ''  - '' @ QUOTE # playbook @ QUOTE # LF # lit ''---'' @ LF # pad"
    have d: "kb_doc eid title playbook cause ?ds x @ pad = ?p @ lit ''escalated: '' @ x @ ?r" for x
      by (simp add: kb_doc_seen)
    have l: "length ?p = length (kb_head eid title cause) + 6 + length ?ds + 1" by (simp add: lit_def)
    have f: "find_sub (lit ''escalated: '') (?p @ lit ''escalated: '' @ es @ ?r) = Some (length ?p)"
      unfolding l using head_no_escalated [OF assms(5-7), of ?ds "es @ ?r"] fixed_digits_are_digits by simp
    have "set_uint_field (?p @ lit ''escalated: '' @ es @ ?r) (lit ''escalated: '') (if esc then 1 else 0) 1 =
        (?p @ lit ''escalated: '' @ fixed_digits 1 (min (unat (if esc then 1 else 0 :: u32)) (10 ^ 1 - 1)) @ ?r, True)"
      by (rule set_uint_field_ok [OF f]) (use assms(10,11) in \<open>simp_all add: digits_def\<close>)
    then show ?thesis unfolding set_escalated_in_block_def d by (cases esc) simp_all
  qed
  ultimately show ?thesis by (intro exI [of _ ?ds] exI [of _ ?es]) simp
qed

text \<open>Updating the counters in place. On a block that holds an entry of the writer's shape whose
  values do not contain the counters' keys, both updates succeed and change exactly the six digits:
  the block is the same document with the new counters, followed by the same bytes, and the parser
  then reads the count, capped at 99999, and the escalation flag.\<close>
theorem counters_update_in_place:
  assumes "sane eid" "sane title" "sane playbook" "sane cause" "keyless eid" "keyless title" "keyless cause"
    "digits ds" "length ds = 5" "digits es" "length es = 1"
  shows "\<exists>ds' es'. length ds' = 5 \<and> length es' = 1 \<and>
    set_seen_in_block (kb_doc eid title playbook cause ds es @ pad) seen = (kb_doc eid title playbook cause ds' es @ pad, True) \<and>
    set_escalated_in_block (kb_doc eid title playbook cause ds' es @ pad) esc = (kb_doc eid title playbook cause ds' es' @ pad, True) \<and>
    kb_parse (kb_doc eid title playbook cause ds' es') =
      Some \<lparr>r_id = eid, r_title = title, r_playbook = playbook, r_match_cause = Some cause,
            r_seen = word_of_nat (min (unat seen) 99999), r_escalated = esc\<rparr>"
  by (rule counters_updated [OF assms])

definition kb6_title :: rstr where "kb6_title = lit ''Observed fault: illegal-instruction (auto-recorded)''"

lemma kb6_values:
  "sane (lit ''KB-0006'')" "sane kb6_title" "sane (lit ''Restart the component.'')" "sane (lit ''illegal-instruction'')"
  "keyless (lit ''KB-0006'')" "keyless kb6_title" "keyless (lit ''illegal-instruction'')"
  by (simp_all add: sane_def kb6_title_def lit_def QUOTE_def keyless_def starts_with_def)

theorem kb_write_read_roundtrip_witness:
  "\<exists>out'. kb_serialize (lit ''KB-0006'') kb6_title (lit ''Restart the component.'') (lit ''illegal-instruction'') (replicate 512 0)
       = (out', Some 178) \<and>
     map_option r_title (kb_parse (take 178 out')) = Some kb6_title"
proof -
  have l: "length (kb_doc (lit ''KB-0006'') kb6_title (lit ''Restart the component.'') (lit ''illegal-instruction'') (lit ''00000'') (lit ''0'')) = 178"
    by (simp add: kb_doc_def kb6_title_def lit_def)
  show ?thesis
    using kb_write_read_roundtrip [OF kb6_values(1-4), of "replicate 512 0"] by (auto simp: l Let_def)
qed

theorem counters_update_in_place_witness:
  "\<exists>b. set_seen_in_block (kb_doc (lit ''KB-0006'') kb6_title (lit ''Restart the component.'') (lit ''illegal-instruction'')
         (lit ''00000'') (lit ''0'') @ replicate 9 0) 7 = (b, True)"
proof -
  have d: "digits (lit ''00000'')" "length (lit ''00000'') = 5" "digits (lit ''0'')" "length (lit ''0'') = 1"
    by (simp_all add: digits_def lit_def is_digit_def)
  from counters_update_in_place [OF kb6_values d, of "replicate 9 0" 7 True] show ?thesis by blast
qed

end
