(* ===== verification/Packing.thy ===== *)
theory Packing
  imports Mkfs Kb "HOL-Library.List_Lexorder" "HOL-Library.Multiset"
begin

text \<open>
  The image builder's program (\<^verbatim>\<open>src/tools/mkfs/src/main.rs\<close>): from the files of the knowledge-base directory, in whatever order it is listed, to
  the image. Reading the directory and writing the image are the host's; the directory is a list of file names
  with their contents.
\<close>

section \<open>File names\<close>

text \<open>\<^verbatim>\<open>Path::file_stem\<close> and \<^verbatim>\<open>Path::extension\<close> of a file name: the last dot splits it, unless it is the first character.\<close>

definition DOT :: u8 where "DOT = 46"

fun last_dot :: "rstr \<Rightarrow> nat \<Rightarrow> nat option" where
  "last_dot [] i = None"
| "last_dot (b # bs) i = (case last_dot bs (i + 1) of Some j \<Rightarrow> Some j | None \<Rightarrow> if b = DOT then Some i else None)"

definition split_ext :: "rstr \<Rightarrow> rstr \<times> rstr option" where
  "split_ext name =
     (case last_dot name 0 of
        None \<Rightarrow> (name, None)
      | Some i \<Rightarrow> if i = 0 then (name, None) else (take i name, Some (drop (i + 1) name)))"

section \<open>Selecting and packing\<close>

definition matchable :: "bytes \<Rightarrow> bool" where
  "matchable bytes = (case kb_parse bytes of None \<Rightarrow> False | Some r \<Rightarrow> r_match_cause r \<noteq> None)"

fun select_files :: "named_file list \<Rightarrow> named_file list" where
  "select_files [] = []"
| "select_files ((name, bytes) # dir) =
     (if snd (split_ext name) \<noteq> Some (lit ''md'') then select_files dir
      else if \<not> matchable bytes then select_files dir
      else (fst (split_ext name), bytes) # select_files dir)"

definition mkfs_main :: "named_file list \<Rightarrow> bytes result" where
  "mkfs_main dir =
     (let files = sort_key fst (select_files dir)
      in bindr (assertr (files \<noteq> []) (AssertFailed ''no runtime-matchable KB entries'')) (\<lambda>_. build_image files))"

section \<open>What is packed\<close>

lemma last_dot_append: "last_dot bs i = None \<longleftrightarrow> DOT \<notin> set bs"
  by (induction bs arbitrary: i) (auto split: option.splits, metis option.distinct(1))

lemma last_dot_ext: "DOT \<notin> set ext \<Longrightarrow> last_dot (stem @ DOT # ext) i = Some (i + length stem)"
proof (induction stem arbitrary: i)
  case Nil
  then show ?case using last_dot_append [of ext "i + 1"] by (simp del: last_dot.simps(1))
qed simp

lemma split_ext_file: "stem \<noteq> [] \<Longrightarrow> DOT \<notin> set ext \<Longrightarrow> split_ext (stem @ DOT # ext) = (stem, Some ext)"
  by (simp add: split_ext_def last_dot_ext)

lemma select_files_mem:
  "(n, b) \<in> set (select_files dir) \<longleftrightarrow>
     (\<exists>name. (name, b) \<in> set dir \<and> split_ext name = (n, Some (lit ''md'')) \<and> matchable b)"
  by (induction dir rule: select_files.induct) (auto simp: prod_eq_iff)

lemma select_files_filter:
  "select_files dir = map (\<lambda>(name, bytes). (fst (split_ext name), bytes))
     (filter (\<lambda>(name, bytes). snd (split_ext name) = Some (lit ''md'') \<and> matchable bytes) dir)"
  by (induction dir rule: select_files.induct) auto

lemma image_files_ok_perm: "mset xs = mset ys \<Longrightarrow> image_files_ok xs = image_files_ok ys"
proof -
  assume m: "mset xs = mset ys"
  have "data_size zs = sum_mset (image_mset (\<lambda>(n, b). blocks_for (length b)) (mset zs))" for zs :: "named_file list"
    by (induction zs rule: data_size.induct) simp_all
  then have "data_size xs = data_size ys" using m by simp
  moreover have "mset (map fst xs) = mset (map fst ys)" using m by simp
  then have "distinct (map fst xs) = distinct (map fst ys)" by (rule mset_eq_imp_distinct_iff)
  ultimately show ?thesis
    using mset_eq_setD [OF m] mset_eq_length [OF m] by (simp add: image_files_ok_def list_all_iff)
qed

lemma sort_files_perm:
  assumes "mset xs = mset ys" "distinct (map fst xs)"
  shows "sort_key fst xs = sort_key fst ys"
  using assms by (intro sort_key_inj_key_eq) (simp_all add: distinct_map)

text \<open>C23: mkfs packs the entries the self-healer can match, and nothing else. When the selected files fit the format, the program
  writes an image in which a name reads back with exactly the bytes of a file of that stem, with extension
  md and a match token, and no other name is found; the image does not depend on the order in which the
  directory is listed; and with nothing to pack it stops with its assertion.\<close>
theorem mkfs_packs_matchable_entries:
  "(select_files dir = [] \<longrightarrow> mkfs_main dir = Inl (AssertFailed ''no runtime-matchable KB entries'')) \<and>
   (image_files_ok (select_files dir) \<and> select_files dir \<noteq> [] \<longrightarrow>
    (\<exists>img. mkfs_main dir = Inr img \<and>
      (\<forall>name bytes. read_file img name = Inr (Some bytes) \<longleftrightarrow>
         (\<exists>file. (file, bytes) \<in> set dir \<and> split_ext file = (name, Some (lit ''md'')) \<and> matchable bytes)) \<and>
      (\<forall>dir'. mset dir' = mset dir \<longrightarrow> mkfs_main dir' = Inr img)))"
proof (intro conjI impI)
  show "select_files dir = [] \<Longrightarrow> mkfs_main dir = Inl (AssertFailed ''no runtime-matchable KB entries'')"
    by (simp add: mkfs_main_def assertr_def)
next
  assume "image_files_ok (select_files dir) \<and> select_files dir \<noteq> []"
  then have ok: "image_files_ok (select_files dir)" and ne: "sort_key fst (select_files dir) \<noteq> []"
    by (auto simp flip: set_empty2)
  let ?fs = "sort_key fst (select_files dir)"
  have fs: "image_files_ok ?fs" "distinct (map fst ?fs)" "set ?fs = set (select_files dir)"
    using ok image_files_ok_perm [of ?fs "select_files dir"] by (simp_all add: image_files_ok_def)
  obtain img where img: "build_image ?fs = Inr img" "\<forall>name. read_file img name = Inr (map_of ?fs name)"
    using image_reads_back [OF fs(1)] by blast
  have main: "mkfs_main dir = Inr img" using ne img(1) by (simp add: mkfs_main_def assertr_def Let_def)
  moreover have "read_file img name = Inr (Some bytes) \<longleftrightarrow>
      (\<exists>file. (file, bytes) \<in> set dir \<and> split_ext file = (name, Some (lit ''md'')) \<and> matchable bytes)" for name bytes
    using img(2) fs(2,3) map_of_eq_Some_iff [OF fs(2), of name bytes] by (simp add: select_files_mem)
  moreover have "mkfs_main dir' = Inr img" if "mset dir' = mset dir" for dir'
  proof -
    have "mset (select_files dir) = mset (select_files dir')" using that by (simp add: select_files_filter)
    then have "?fs = sort_key fst (select_files dir')" using ok by (intro sort_files_perm) (simp_all add: image_files_ok_def)
    then show ?thesis using main by (simp add: mkfs_main_def)
  qed
  ultimately show "\<exists>img. mkfs_main dir = Inr img \<and>
      (\<forall>name bytes. read_file img name = Inr (Some bytes) \<longleftrightarrow>
         (\<exists>file. (file, bytes) \<in> set dir \<and> split_ext file = (name, Some (lit ''md'')) \<and> matchable bytes)) \<and>
      (\<forall>dir'. mset dir' = mset dir \<longrightarrow> mkfs_main dir' = Inr img)" by blast
qed

definition kb6_doc :: bytes where
  "kb6_doc = kb_doc (lit ''KB-0006'') kb6_title (lit ''Restart the component.'') (lit ''illegal-instruction'') (lit ''00000'') (lit ''0'')"

definition demo_dir :: "named_file list" where
  "demo_dir = [(lit ''README'', lit ''hello''), (lit ''KB-0006.md'', kb6_doc), (lit ''KB-0001.md'', [])]"

lemma demo_dir_selects: "select_files demo_dir = [(lit ''KB-0006'', kb6_doc)]"
proof -
  have "matchable kb6_doc"
    using parse_doc [OF kb6_values(1-4), of "lit ''00000''" "lit ''0''"]
    by (simp add: matchable_def kb6_doc_def digits_def lit_def is_digit_def)
  moreover have "\<not> matchable []" by (simp add: matchable_def kb_parse_def rlines_Nil from_utf8_def)
  ultimately show ?thesis
    by (simp add: demo_dir_def split_ext_def lit_def DOT_def)
qed

theorem mkfs_packs_matchable_entries_witness:
  "\<exists>img. mkfs_main demo_dir = Inr img \<and> read_file img (lit ''KB-0006'') = Inr (Some kb6_doc) \<and> mkfs_main (rev demo_dir) = Inr img"
proof -
  have len: "length kb6_doc = 178" by (simp add: kb6_doc_def kb_doc_def kb6_title_def lit_def)
  have "image_files_ok (select_files demo_dir)"
    unfolding demo_dir_selects by (simp add: image_files_ok_def name_ok_def fs_consts blocks_for_def lit_def len)
  then obtain img where img: "mkfs_main demo_dir = Inr img" "\<forall>name bytes. read_file img name = Inr (Some bytes) \<longleftrightarrow>
      (\<exists>file. (file, bytes) \<in> set demo_dir \<and> split_ext file = (name, Some (lit ''md'')) \<and> matchable bytes)"
    "\<forall>dir'. mset dir' = mset demo_dir \<longrightarrow> mkfs_main dir' = Inr img"
    using mkfs_packs_matchable_entries [of demo_dir] demo_dir_selects by auto
  have "(lit ''KB-0006'', kb6_doc) \<in> set (select_files demo_dir)" by (simp add: demo_dir_selects)
  then have "read_file img (lit ''KB-0006'') = Inr (Some kb6_doc)" using img(2) by (simp add: select_files_mem)
  then show ?thesis using img(1,3) by auto
qed

end
