(* ===== verification/Storage.thy ===== *)
theory Storage
  imports Fs Kb Heal
begin

text \<open>
  The kernel's storage path (\<^verbatim>\<open>src/kernel/src/main.rs\<close>): the one-block read cache over the
  block driver, appending a file with the superblock as the commit point, reading the head of an
  extent, the knowledge-base loader and the knowledge-base writer. The block driver and its device,
  reached by one IPC call per request over a shared data page, are the parameter \<open>blk\<close>; \<open>blk_ok\<close>
  states what the storage path relies on: a read that reports success fills the page with the
  block, a write that reports success stores the page there, an error leaves the disk as it was.
\<close>

section \<open>Blocks\<close>

definition BLK_WRITE_FLAG :: usize where "BLK_WRITE_FLAG = push_bit 31 1"

text \<open>The call to the driver: device state, shared page and badge to device state, page and status.\<close>

type_synonym 'd blk = "'d \<Rightarrow> bytes \<Rightarrow> usize \<Rightarrow> 'd \<times> bytes \<times> usize"

record 'd store =
  s_dev :: 'd
  s_page :: bytes
  s_cached :: int
  s_filebuf :: bytes

definition fs_read_block :: "'d blk \<Rightarrow> 'd store \<Rightarrow> u32 \<Rightarrow> 'd store \<times> bytes option" where
  "fs_read_block blk s n =
     (if s_cached s \<noteq> int (unat n) then
        (case blk (s_dev s) (s_page s) (ucast n) of
           (d, pg, status) \<Rightarrow>
             let s1 = s\<lparr>s_dev := d, s_page := pg\<rparr>
             in if status \<noteq> 0 then (s1\<lparr>s_cached := - 1\<rparr>, None)
                else (s1\<lparr>s_cached := int (unat n)\<rparr>, Some pg))
      else (s, Some (s_page s)))"

definition fs_write_block :: "'d blk \<Rightarrow> 'd store \<Rightarrow> u32 \<Rightarrow> bytes \<Rightarrow> 'd store \<times> bool" where
  "fs_write_block blk s n bytes =
     (let k = min (length bytes) BLOCK_SIZE;
          page = take k bytes @ replicate (BLOCK_SIZE - k) 0
      in case blk (s_dev s) page (ucast n OR BLK_WRITE_FLAG) of
           (d, pg, status) \<Rightarrow> (s\<lparr>s_dev := d, s_page := pg, s_cached := - 1\<rparr>, status = 0))"

definition fs_append_file :: "'d blk \<Rightarrow> 'd store \<Rightarrow> rstr \<Rightarrow> bytes \<Rightarrow> ('d store \<times> u32 option) result" where
  "fs_append_file blk s name contents =
     (if length contents > BLOCK_SIZE then Inr (s, None)
      else case fs_read_block blk s 0 of
        (s, None) \<Rightarrow> Inr (s, None)
      | (s, Some sb_buf) \<Rightarrow>
          (case sb_decode sb_buf of
             None \<Rightarrow> Inr (s, None)
           | Some sb \<Rightarrow>
               (case fs_read_block blk s (dir_block sb) of
                  (s, None) \<Rightarrow> Inr (s, None)
                | (s, Some dir_buf) \<Rightarrow>
                    bindr (append_plan sb dir_buf name (word_of_nat (length contents))) (\<lambda>pl.
                    case pl of
                      None \<Rightarrow> Inr (s, None)
                    | Some plan \<Rightarrow>
                        (case fs_write_block blk s (ap_start_block plan) contents of
                           (s, ok1) \<Rightarrow>
                             if \<not> ok1 then Inr (s, None)
                             else case fs_write_block blk s (dir_block sb) (ap_dir_block plan) of
                               (s, ok2) \<Rightarrow>
                                 if \<not> ok2 then Inr (s, None)
                                 else bindr (sb_encode (ap_superblock plan) (replicate BLOCK_SIZE 0)) (\<lambda>new_sb.
                                      case fs_write_block blk s 0 new_sb of
                                        (s, ok3) \<Rightarrow> Inr (s, if ok3 then Some (ap_start_block plan) else None)))))))"

definition KB_HEAD_BLOCKS :: nat where "KB_HEAD_BLOCKS = 2"
definition FS_FILEBUF_LEN :: nat where "FS_FILEBUF_LEN = 4096"

fun read_head_blocks ::
  "'d blk \<Rightarrow> 'd store \<Rightarrow> u32 \<Rightarrow> nat \<Rightarrow> nat list \<Rightarrow> ('d store \<times> bool) result" where
  "read_head_blocks blk s start len [] = Inr (s, True)"
| "read_head_blocks blk s start len (i # is) =
     bindr (add_chk start (word_of_nat i)) (\<lambda>n.
     case fs_read_block blk s n of
       (s, None) \<Rightarrow> Inr (s, False)
     | (s, Some b) \<Rightarrow>
         (let off = i * BLOCK_SIZE
          in bindr (assertr (off \<le> len) ArithOverflow) (\<lambda>_.
             let t = min BLOCK_SIZE (len - off)
             in bindr (slice b 0 t) (\<lambda>src.
                bindr (put_at (s_filebuf s) off src) (\<lambda>fb.
                read_head_blocks blk (s\<lparr>s_filebuf := fb\<rparr>) start len is)))))"

definition fs_read_extent_head :: "'d blk \<Rightarrow> 'd store \<Rightarrow> u32 \<Rightarrow> u32 \<Rightarrow> ('d store \<times> bytes option) result" where
  "fs_read_extent_head blk s start_block byte_len =
     bindr (block_count byte_len) (\<lambda>bc.
     let nblocks = min (unat bc) KB_HEAD_BLOCKS;
         len = min (min (unat byte_len) (nblocks * BLOCK_SIZE)) FS_FILEBUF_LEN
     in bindr (read_head_blocks blk s start_block len [0..<nblocks]) (\<lambda>(s, ok).
        if \<not> ok then Inr (s, None)
        else bindr (slice (s_filebuf s) 0 len) (\<lambda>bytes. Inr (s, Some bytes))))"

section \<open>The loader\<close>

fun load_entries ::
  "'d blk \<Rightarrow> bytes \<Rightarrow> 'd store \<Rightarrow> heal \<Rightarrow> nat \<Rightarrow> nat \<Rightarrow> nat list \<Rightarrow> ('d store \<times> heal \<times> nat \<times> nat) result" where
  "load_entries blk dir s h scanned loaded [] = Inr (s, h, scanned, loaded)"
| "load_entries blk dir s h scanned loaded (i # is) =
     bindr (dir_entry_at dir i) (\<lambda>ent.
     case ent of
       None \<Rightarrow> Inr (s, h, scanned, loaded)
     | Some e \<Rightarrow>
         bindr (fs_read_extent_head blk s (de_start_block e) (de_byte_len e)) (\<lambda>(s, bytes).
         case bytes of
           None \<Rightarrow> load_entries blk dir s h (scanned + 1) loaded is
         | Some bs \<Rightarrow>
             (case kb_parse bs of
                None \<Rightarrow> load_entries blk dir s h (scanned + 1) loaded is
              | Some rec \<Rightarrow>
                  if r_match_cause rec = None then load_entries blk dir s h (scanned + 1) loaded is
                  else (case install h (r_id rec) (r_title rec) (r_playbook rec) (r_match_cause rec)
                                     (r_seen rec) (r_escalated rec) (de_start_block e) of
                          (h, ok) \<Rightarrow> load_entries blk dir s h (scanned + 1) (if ok then loaded + 1 else loaded) is))))"

definition kb_loader :: "'d blk \<Rightarrow> bool \<Rightarrow> 'd store \<Rightarrow> heal \<Rightarrow> ('d store \<times> heal \<times> nat \<times> nat) result" where
  "kb_loader blk has_blk s h =
     (if \<not> has_blk then Inr (s, h, 0, 0)
      else case fs_read_block blk s 0 of
        (s, None) \<Rightarrow> Inr (s, h, 0, 0)
      | (s, Some b) \<Rightarrow>
          (case sb_decode b of
             None \<Rightarrow> Inr (s, h, 0, 0)
           | Some sb \<Rightarrow>
               (case fs_read_block blk s (dir_block sb) of
                  (s, None) \<Rightarrow> Inr (s, h, 0, 0)
                | (s, Some dir) \<Rightarrow> load_entries blk dir s h 0 0 [0..<unat (dir_entries sb)])))"

section \<open>The writer\<close>

definition DEFAULT_PLAYBOOK :: rstr where
  "DEFAULT_PLAYBOOK = lit ''Restart the component, up to a bounded number of retries.''"

text \<open>\<open>KB-NNNN\<close> from a number.\<close>

definition kb_id :: "u32 \<Rightarrow> rstr" where
  "kb_id num =
     (let digit = (\<lambda>w. 48 + ucast (w mod 10 :: u32) :: u8);
          raw = lit ''KB-'' @ [digit (num div 1000), digit (num div 100), digit (num div 10), digit num]
      in case from_utf8 raw of Some s \<Rightarrow> s | None \<Rightarrow> lit ''KB-0000'')"

text \<open>The title is assembled in a buffer of 96 bytes, each part cut to the room left.\<close>

fun fill_title :: "bytes \<Rightarrow> bytes list \<Rightarrow> bytes" where
  "fill_title acc [] = acc"
| "fill_title acc (p # ps) = fill_title (acc @ take (96 - length acc) p) ps"

definition kb_title :: "rstr \<Rightarrow> rstr" where
  "kb_title token =
     (case from_utf8 (fill_title [] [lit ''Observed fault: '', token, lit '' (auto-recorded)'']) of
        Some s \<Rightarrow> s | None \<Rightarrow> lit ''Observed fault'')"

definition record_novel :: "'d blk \<Rightarrow> 'd store \<Rightarrow> heal \<Rightarrow> ('d store \<times> heal \<times> u32 option) result" where
  "record_novel blk s h =
     (case take_novel h of
        (h, None) \<Rightarrow> Inr (s, h, None)
      | (h, Some token) \<Rightarrow>
          bindr (add_chk (max_kb_number h) 1) (\<lambda>num.
          let eid = kb_id num; title = kb_title token
          in case kb_serialize eid title DEFAULT_PLAYBOOK token (replicate BLOCK_SIZE 0) of
               (doc, None) \<Rightarrow> Inr (s, h, None)
             | (doc, Some len) \<Rightarrow>
                 bindr (slice doc 0 len) (\<lambda>contents.
                 bindr (fs_append_file blk s eid contents) (\<lambda>(s, r).
                 case r of
                   None \<Rightarrow> Inr (s, h, None)
                 | Some start \<Rightarrow>
                     Inr (s, fst (install h eid title DEFAULT_PLAYBOOK (Some token) 0 False start), Some start)))))"

text \<open>One round of the loop over the dirty entries; the source loops until none is left.\<close>

definition persist_one :: "'d blk \<Rightarrow> 'd store \<Rightarrow> u32 \<Rightarrow> u32 \<Rightarrow> bool \<Rightarrow> 'd store" where
  "persist_one blk s start_block seen escalated =
     (case fs_read_block blk s start_block of
        (s, None) \<Rightarrow> s
      | (s, Some b) \<Rightarrow>
          (case set_seen_in_block b seen of
             (b, ok1) \<Rightarrow>
               (case set_escalated_in_block b escalated of
                  (b, ok2) \<Rightarrow> if ok1 \<and> ok2 then fst (fs_write_block blk s start_block b) else s)))"

fun persist_dirty :: "nat \<Rightarrow> 'd blk \<Rightarrow> 'd store \<Rightarrow> heal \<Rightarrow> ('d store \<times> heal) option" where
  "persist_dirty 0 blk s h = None"
| "persist_dirty (Suc fuel) blk s h =
     (case dirty_entry h of
        (h, None) \<Rightarrow> Some (s, h)
      | (h, Some (eid, start_block, seen, escalated)) \<Rightarrow>
          persist_dirty fuel blk (persist_one blk s start_block seen escalated) h)"

section \<open>What the storage path relies on\<close>

definition blk_ok :: "'d blk \<Rightarrow> ('d \<Rightarrow> u32 \<Rightarrow> bytes) \<Rightarrow> bool" where
  "blk_ok blk disk \<longleftrightarrow>
     (\<forall>d n. length (disk d n) = BLOCK_SIZE) \<and>
     (\<forall>d pg n d' pg' st. unat n < 2 ^ 31 \<longrightarrow> length pg = BLOCK_SIZE \<longrightarrow> blk d pg (ucast n) = (d', pg', st) \<longrightarrow>
        disk d' = disk d \<and> length pg' = BLOCK_SIZE \<and> (st = 0 \<longrightarrow> pg' = disk d n)) \<and>
     (\<forall>d pg n d' pg' st. unat n < 2 ^ 31 \<longrightarrow> length pg = BLOCK_SIZE \<longrightarrow> blk d pg (ucast n OR BLK_WRITE_FLAG) = (d', pg', st) \<longrightarrow>
        length pg' = BLOCK_SIZE \<and> disk d' = (if st = 0 then (disk d)(n := pg) else disk d))"

text \<open>The cache invariant: a cached block number goes with that block's contents in the page.\<close>

definition store_ok :: "('d \<Rightarrow> u32 \<Rightarrow> bytes) \<Rightarrow> 'd store \<Rightarrow> bool" where
  "store_ok disk s \<longleftrightarrow> length (s_page s) = BLOCK_SIZE \<and> length (s_filebuf s) = FS_FILEBUF_LEN \<and>
     (\<forall>n. s_cached s = int (unat n) \<longrightarrow> s_page s = disk (s_dev s) n)"

lemma block_number: "- 1 \<noteq> int (unat (m :: u32))" "int (unat n) = int (unat m) \<longleftrightarrow> n = m"
  using of_nat_0_le_iff [of "unat m", where ?'a = int] by linarith (simp only: of_nat_eq_iff word_unat_eq_iff)

lemma fs_read_block_ok:
  assumes "blk_ok blk disk" "store_ok disk s" "unat n < 2 ^ 31" "fs_read_block blk s n = (s', r)"
  shows "store_ok disk s' \<and> disk (s_dev s') = disk (s_dev s) \<and> (\<forall>b. r = Some b \<longrightarrow> b = disk (s_dev s) n)"
proof (cases "s_cached s = int (unat n)")
  case True
  then show ?thesis using assms(2,4) by (auto simp: fs_read_block_def store_ok_def)
next
  case False
  obtain d pg st where c: "blk (s_dev s) (s_page s) (ucast n) = (d, pg, st)" by (metis surj_pair)
  have len: "length (s_page s) = BLOCK_SIZE" using assms(2) by (simp add: store_ok_def)
  have k: "disk d = disk (s_dev s)" "length pg = BLOCK_SIZE" "st = 0 \<Longrightarrow> pg = disk (s_dev s) n"
    using assms(1,3) c len unfolding blk_ok_def by blast+
  note u = block_number
  show ?thesis
    using False c k assms(2,4) u
    by (cases "st = 0") (auto simp: fs_read_block_def store_ok_def Let_def)
qed

definition padded :: "bytes \<Rightarrow> bytes" where
  "padded bytes = take BLOCK_SIZE bytes @ replicate (BLOCK_SIZE - length bytes) 0"

lemma length_padded [simp]: "length (padded bytes) = BLOCK_SIZE"
  by (simp add: padded_def)

lemma padded_id [simp]: "length bytes = BLOCK_SIZE \<Longrightarrow> padded bytes = bytes"
  by (simp add: padded_def)

lemma take_padded: "length bytes \<le> BLOCK_SIZE \<Longrightarrow> take (length bytes) (padded bytes) = bytes"
  by (simp add: padded_def)

lemma fs_write_block_ok:
  assumes "blk_ok blk disk" "store_ok disk s" "unat n < 2 ^ 31" "fs_write_block blk s n bytes = (s', ok)"
  shows "store_ok disk s' \<and> disk (s_dev s') = (if ok then (disk (s_dev s))(n := padded bytes) else disk (s_dev s))"
proof -
  obtain d pg st where c: "blk (s_dev s) (padded bytes) (ucast n OR BLK_WRITE_FLAG) = (d, pg, st)" by (metis surj_pair)
  have "padded bytes = take (min (length bytes) BLOCK_SIZE) bytes @ replicate (BLOCK_SIZE - min (length bytes) BLOCK_SIZE) 0"
    by (auto simp: padded_def min_def)
  then have r: "s' = s\<lparr>s_dev := d, s_page := pg, s_cached := - 1\<rparr>" "ok = (st = 0)"
    using assms(4) c by (simp_all add: fs_write_block_def Let_def)
  have k: "length pg = BLOCK_SIZE \<and> disk d = (if st = 0 then (disk (s_dev s))(n := padded bytes) else disk (s_dev s))"
    using assms(1,3) c length_padded unfolding blk_ok_def by blast
  show ?thesis using r k assms(2) block_number(1) by (auto simp: store_ok_def)
qed

section \<open>Volumes on disk\<close>

text \<open>A volume: a valid superblock in block 0, its directory in block 1, every file's extent
  between block 2 and the end of the volume, and block numbers below the driver's write flag.\<close>

definition volume_at :: "(u32 \<Rightarrow> bytes) \<Rightarrow> superblock \<Rightarrow> bool" where
  "volume_at d sb \<longleftrightarrow> sb_decode (d 0) = Some sb \<and> dir_block sb = 1 \<and> unat (dir_entries sb) \<le> 8 \<and>
     2 \<le> unat (total_blocks sb) \<and> unat (total_blocks sb) < 2 ^ 31 \<and>
     list_all (\<lambda>e. 2 \<le> unat (de_start_block e) \<and>
        unat (de_start_block e) + blocks_for (unat (de_byte_len e)) \<le> unat (total_blocks sb) \<and>
        unat (de_byte_len e) + 512 < 2 ^ 32) (entries (d 1) (unat (dir_entries sb)))"

definition files_on :: "(u32 \<Rightarrow> bytes) \<Rightarrow> dir_entry list" where
  "files_on d = (case sb_decode (d 0) of None \<Rightarrow> []
     | Some sb \<Rightarrow> entries (d (dir_block sb)) (unat (dir_entries sb)))"

lemma sb_decode_magic: "sb_decode b = Some sb \<Longrightarrow> magic sb = FS_MAGIC \<and> version sb = FS_VERSION"
  by (auto simp: sb_decode_def Let_def split: if_splits)

lemma entries_prefix: "n \<le> m \<Longrightarrow> entries d n = take n (entries d m)"
  by (simp add: entries_def take_map)

text \<open>The three writes of an append, in their order, and what is on disk when it stops: untouched,
  after the data, after the directory, or after the superblock.\<close>

definition new_dir :: "(u32 \<Rightarrow> bytes) \<Rightarrow> superblock \<Rightarrow> rstr \<Rightarrow> u32 \<Rightarrow> bytes \<Rightarrow> bool" where
  "new_dir d sb name len dir' \<longleftrightarrow> unat (dir_entries sb) < 8 \<and> length dir' = BLOCK_SIZE \<and>
     entries dir' (unat (dir_entries sb) + 1) =
       entries (d 1) (unat (dir_entries sb)) @ [dirent_new name (total_blocks sb) len]"

definition append_left :: "(u32 \<Rightarrow> bytes) \<Rightarrow> superblock \<Rightarrow> rstr \<Rightarrow> bytes \<Rightarrow> (u32 \<Rightarrow> bytes) \<Rightarrow> u32 option \<Rightarrow> bool" where
  "append_left d sb name contents d' r \<longleftrightarrow>
     (let t = total_blocks sb; len = word_of_nat (length contents)
      in (r = None \<and> (d' = d \<or> d' = d(t := padded contents) \<or>
            (\<exists>dir'. new_dir d sb name len dir' \<and> d' = d(t := padded contents, 1 := dir')))) \<or>
         (r = Some t \<and> (\<exists>dir' b. new_dir d sb name len dir' \<and> sb_decode b = Some (grow_sb sb len) \<and> length b = BLOCK_SIZE \<and>
            d' = d(t := padded contents, 1 := dir', 0 := b))))"

lemma grow_sb_encode:
  assumes "magic sb = FS_MAGIC" "version sb = FS_VERSION"
  shows "\<exists>b. sb_encode (grow_sb sb len) (replicate BLOCK_SIZE 0) = Inr b \<and> length b = BLOCK_SIZE \<and> sb_decode b = Some (grow_sb sb len)"
proof -
  have l: "24 \<le> length (replicate BLOCK_SIZE (0 :: u8))" by (simp add: fs_consts)
  obtain b where "sb_encode (grow_sb sb len) (replicate BLOCK_SIZE 0) = Inr b" "length b = length (replicate BLOCK_SIZE (0 :: u8))"
    "drop 24 b = drop 24 (replicate BLOCK_SIZE 0)"
    "magic (grow_sb sb len) = FS_MAGIC \<and> version (grow_sb sb len) = FS_VERSION \<longrightarrow> sb_decode b = Some (grow_sb sb len)"
    by (rule sb_encode_ok [OF l, where sb = "grow_sb sb len"])
  then show ?thesis using assms by (simp add: grow_sb_def)
qed

lemma append_file_run:
  assumes blk: "blk_ok blk disk" and st: "store_ok disk s" and vol: "volume_at (disk (s_dev s)) sb"
    and len: "length contents \<le> BLOCK_SIZE"
  shows "\<exists>s' r. fs_append_file blk s name contents = Inr (s', r) \<and> store_ok disk s' \<and>
    append_left (disk (s_dev s)) sb name contents (disk (s_dev s')) r"
proof -
  let ?d = "disk (s_dev s)" and ?l = "word_of_nat (length contents) :: u32" and ?t = "total_blocks sb"
  have v: "sb_decode (?d 0) = Some sb" "dir_block sb = 1" "2 \<le> unat ?t" "unat ?t < 2 ^ 31"
    using vol by (auto simp: volume_at_def)
  have nl: "\<not> BLOCK_SIZE < length contents" using len by simp
  obtain s1 r1 where 1: "fs_read_block blk s 0 = (s1, r1)" by (metis surj_pair)
  have k1: "store_ok disk s1" "disk (s_dev s1) = ?d" "\<And>b. r1 = Some b \<Longrightarrow> b = ?d 0"
    using fs_read_block_ok [OF blk st _ 1] by auto
  obtain s2 r2 where 2: "fs_read_block blk s1 1 = (s2, r2)" by (metis surj_pair)
  have k2: "store_ok disk s2" "disk (s_dev s2) = ?d" "\<And>b. r2 = Some b \<Longrightarrow> b = ?d 1"
    using fs_read_block_ok [OF blk k1(1) _ 2] k1(2) by auto
  have ul: "unat ?l = length contents" using len by (simp add: unat_of_nat take_bit_nat_eq_self fs_consts)
  have bf: "blocks_for (unat ?l) \<le> 1" using len ul by (simp add: blocks_for_def fs_consts)
  have fit: "append_fits sb ?l" using len ul bf v(4) by (simp add: append_fits_def fs_consts)
  have dl: "length (?d 1) = BLOCK_SIZE" using blk by (simp add: blk_ok_def)
  have untouched: "append_left ?d sb name contents ?d None" by (simp add: append_left_def Let_def)
  show ?thesis
  proof (cases "r1 = None \<or> r2 = None \<or> 8 \<le> unat (dir_entries sb)")
    case True
    then have "fs_append_file blk s name contents = Inr (s1, None) \<or> fs_append_file blk s name contents = Inr (s2, None)"
      using 1 2 k1(3) k2(3) v nl append_plan_full [of sb "?d 1" name ?l]
      by (cases r1; cases r2) (auto simp: fs_append_file_def)
    then show ?thesis using k1 k2 untouched by auto
  next
    case False
    then have r: "r1 = Some (?d 0)" "r2 = Some (?d 1)" and n: "unat (dir_entries sb) < 8" using k1(3) k2(3) by auto
    obtain dir' where pl: "append_plan sb (?d 1) name ?l =
        Inr (Some \<lparr>ap_start_block = ?t, ap_superblock = grow_sb sb ?l, ap_dir_block = dir'\<rparr>)" "new_dir ?d sb name ?l dir'"
      using append_plan_ok [OF dl n fit, of name] n by (auto simp: new_dir_def)
    have d': "length dir' = BLOCK_SIZE" using pl(2) by (simp add: new_dir_def)
    obtain b where b: "sb_encode (grow_sb sb ?l) (replicate BLOCK_SIZE 0) = Inr b" "length b = BLOCK_SIZE"
      "sb_decode b = Some (grow_sb sb ?l)"
      using grow_sb_encode sb_decode_magic [OF v(1)] by blast
    obtain s3 ok1 where 3: "fs_write_block blk s2 ?t contents = (s3, ok1)" by (metis surj_pair)
    note k3 = fs_write_block_ok [OF blk k2(1) v(4) 3]
    obtain s4 ok2 where 4: "fs_write_block blk s3 1 dir' = (s4, ok2)" by (metis surj_pair)
    have k4: "store_ok disk s4 \<and> disk (s_dev s4) = (if ok2 then (disk (s_dev s3))(1 := dir') else disk (s_dev s3))"
      using fs_write_block_ok [OF blk conjunct1 [OF k3] _ 4] d' by simp
    obtain s5 ok3 where 5: "fs_write_block blk s4 0 b = (s5, ok3)" by (metis surj_pair)
    have k5: "store_ok disk s5 \<and> disk (s_dev s5) = (if ok3 then (disk (s_dev s4))(0 := b) else disk (s_dev s4))"
      using fs_write_block_ok [OF blk conjunct1 [OF k4] _ 5] b(2) by simp
    have run: "fs_append_file blk s name contents =
        (if \<not> ok1 then Inr (s3, None) else if \<not> ok2 then Inr (s4, None) else Inr (s5, if ok3 then Some ?t else None))"
      using 1 2 r v nl pl(1) 3 4 5 b(1) by (simp add: fs_append_file_def)
    show ?thesis
    proof (cases ok1)
      case False
      then show ?thesis using run k3 k2(2) untouched by simp
    next
      case ok1: True
      show ?thesis
      proof (cases ok2)
        case False
        then have "disk (s_dev s4) = ?d(?t := padded contents)" using k4 k3 ok1 k2(2) by simp
        then show ?thesis using run k4 ok1 False by (simp add: append_left_def Let_def)
      next
        case ok2: True
        then have d4: "disk (s_dev s4) = ?d(?t := padded contents, 1 := dir')" using k4 k3 ok1 k2(2) by simp
        show ?thesis
        proof (cases ok3)
          case False
          then have "disk (s_dev s5) = ?d(?t := padded contents, 1 := dir')" using k5 d4 by simp
          then show ?thesis using run k5 ok1 ok2 False pl(2) by (auto simp: append_left_def Let_def)
        next
          case True
          then have "disk (s_dev s5) = ?d(?t := padded contents, 1 := dir', 0 := b)" using k5 d4 by simp
          then have "append_left ?d sb name contents (disk (s_dev s5)) (Some ?t)"
            unfolding append_left_def Let_def using pl(2) b(2,3) by blast
          then show ?thesis using run k5 ok1 ok2 True by simp
        qed
      qed
    qed
  qed
qed

text \<open>The blocks of a file.\<close>

definition file_blocks :: "dir_entry \<Rightarrow> u32 set" where
  "file_blocks e = {b. unat (de_start_block e) \<le> unat b \<and> unat b < unat (de_start_block e) + blocks_for (unat (de_byte_len e))}"

lemma file_blocks_bounds:
  assumes "volume_at d sb" "e \<in> set (entries (d 1) (unat (dir_entries sb)))" "b \<in> file_blocks e"
  shows "b \<noteq> 0" "b \<noteq> 1" "b \<noteq> total_blocks sb"
proof -
  have "2 \<le> unat b \<and> unat b < unat (total_blocks sb)"
    using assms by (auto simp: volume_at_def list_all_iff file_blocks_def)
  then show "b \<noteq> 0" "b \<noteq> 1" "b \<noteq> total_blocks sb" by auto
qed

lemma new_dir_old: "new_dir d sb name len dir' \<Longrightarrow> entries dir' (unat (dir_entries sb)) = entries (d 1) (unat (dir_entries sb))"
proof -
  assume n: "new_dir d sb name len dir'"
  have "entries dir' (unat (dir_entries sb)) = take (unat (dir_entries sb)) (entries dir' (unat (dir_entries sb) + 1))"
    by (rule entries_prefix) simp
  then show ?thesis using n by (simp add: new_dir_def entries_def)
qed

lemma volume_neq: "volume_at d sb \<Longrightarrow> total_blocks sb \<noteq> 0 \<and> total_blocks sb \<noteq> 1"
  by (auto simp: volume_at_def)

lemma not_committed:
  assumes "volume_at d sb" "append_left d sb name contents d' None"
  shows "volume_at d' sb" "files_on d' = files_on d"
proof -
  have t: "total_blocks sb \<noteq> 0" "total_blocks sb \<noteq> 1" using volume_neq [OF assms(1)] by simp_all
  have z: "d' 0 = d 0" and e: "entries (d' 1) (unat (dir_entries sb)) = entries (d 1) (unat (dir_entries sb))"
    using assms(2) t new_dir_old by (auto simp: append_left_def Let_def)
  show "volume_at d' sb" using assms(1) z e by (simp add: volume_at_def)
  show "files_on d' = files_on d" using assms(1) z e by (simp add: volume_at_def files_on_def)
qed

lemma committed:
  assumes "volume_at d sb" "append_left d sb name contents d' (Some b)" "length contents \<le> BLOCK_SIZE"
    "unat (total_blocks sb) + 1 < 2 ^ 31"
  shows "b = total_blocks sb" "volume_at d' (grow_sb sb (word_of_nat (length contents)))"
    "files_on d' = files_on d @ [dirent_new name b (word_of_nat (length contents))]" "d' b = padded contents"
proof -
  let ?l = "word_of_nat (length contents) :: u32"
  have t: "total_blocks sb \<noteq> 0" "total_blocks sb \<noteq> 1" using volume_neq [OF assms(1)] by simp_all
  obtain dir' w where c: "b = total_blocks sb" "new_dir d sb name ?l dir'" "sb_decode w = Some (grow_sb sb ?l)"
    "d' = d(total_blocks sb := padded contents, 1 := dir', 0 := w)"
    using assms(2) by (auto simp: append_left_def Let_def)
  then show "b = total_blocks sb" "d' b = padded contents" using t by auto
  have ul: "unat ?l = length contents" using assms(3) by (simp add: unat_of_nat take_bit_nat_eq_self fs_consts)
  have bf: "blocks_for (unat ?l) \<le> 1" using assms(3) ul by (simp add: blocks_for_def fs_consts)
  have g: "unat (total_blocks (grow_sb sb ?l)) = unat (total_blocks sb) + blocks_for (unat ?l)"
  proof -
    have "unat (word_of_nat (blocks_for (unat ?l)) :: u32) = blocks_for (unat ?l)"
      by (rule unat_blocks_for) (use ul assms(3) in \<open>simp add: fs_consts\<close>)
    then show ?thesis
      using bf assms(4) unat_add_fits [of "total_blocks sb" "word_of_nat (blocks_for (unat ?l))"] by (simp add: grow_sb_def)
  qed
  have n: "unat (dir_entries (grow_sb sb ?l)) = unat (dir_entries sb) + 1"
    using c(2) unat_dir_entries_Suc by (simp add: new_dir_def)
  have db: "dir_block (grow_sb sb ?l) = dir_block sb" by (simp add: grow_sb_def)
  have ents: "entries (d' 1) (unat (dir_entries (grow_sb sb ?l))) =
      entries (d 1) (unat (dir_entries sb)) @ [dirent_new name (total_blocks sb) ?l]"
    using c(2,4) t n by (simp add: new_dir_def)
  have d0: "sb_decode (d' 0) = Some (grow_sb sb ?l)" using c(3,4) by simp
  show "files_on d' = files_on d @ [dirent_new name b ?l]"
    using d0 ents c(1) db assms(1) by (simp add: files_on_def volume_at_def)
  show "volume_at d' (grow_sb sb ?l)"
    unfolding volume_at_def ents using d0 db n g bf c(2) assms ul
    by (auto simp: volume_at_def new_dir_def list_all_iff fs_consts)
qed

section \<open>Properties\<close>

text \<open>C8: Appending a file is atomic. On a disk that holds a well-formed volume, whatever write the
  device fails, the append returns and leaves a well-formed volume on which exactly the old files are
  visible, or, once the superblock is written, the old files and the new one with its contents; it
  reports success exactly in the second case, and no block of an old file changes.\<close>
theorem append_is_atomic:
  assumes "blk_ok blk disk" "store_ok disk s" "volume_at (disk (s_dev s)) sb" "length contents \<le> BLOCK_SIZE"
    "unat (total_blocks sb) + 1 < 2 ^ 31"
  shows "\<exists>s' r. fs_append_file blk s name contents = Inr (s', r) \<and> store_ok disk s' \<and>
    (case r of
       None \<Rightarrow> volume_at (disk (s_dev s')) sb \<and> files_on (disk (s_dev s')) = files_on (disk (s_dev s))
     | Some b \<Rightarrow> volume_at (disk (s_dev s')) (grow_sb sb (word_of_nat (length contents))) \<and>
         files_on (disk (s_dev s')) = files_on (disk (s_dev s)) @ [dirent_new name b (word_of_nat (length contents))] \<and>
         take (length contents) (disk (s_dev s') b) = contents) \<and>
    (\<forall>e\<in>set (files_on (disk (s_dev s))). \<forall>b\<in>file_blocks e. disk (s_dev s') b = disk (s_dev s) b)"
proof -
  let ?d = "disk (s_dev s)"
  obtain s' r where run: "fs_append_file blk s name contents = Inr (s', r)" "store_ok disk s'"
    and left: "append_left ?d sb name contents (disk (s_dev s')) r"
    using append_file_run [OF assms(1-4)] by blast
  have "disk (s_dev s') b = ?d b" if "e \<in> set (files_on ?d)" "b \<in> file_blocks e" for e b
  proof -
    have "e \<in> set (entries (?d 1) (unat (dir_entries sb)))" using that(1) assms(3) by (simp add: files_on_def volume_at_def)
    then show ?thesis using file_blocks_bounds [OF assms(3) _ that(2)] left by (auto simp: append_left_def Let_def)
  qed
  moreover have "case r of
       None \<Rightarrow> volume_at (disk (s_dev s')) sb \<and> files_on (disk (s_dev s')) = files_on ?d
     | Some b \<Rightarrow> volume_at (disk (s_dev s')) (grow_sb sb (word_of_nat (length contents))) \<and>
         files_on (disk (s_dev s')) = files_on ?d @ [dirent_new name b (word_of_nat (length contents))] \<and>
         take (length contents) (disk (s_dev s') b) = contents"
  proof (cases r)
    case None
    then show ?thesis using not_committed [OF assms(3)] left by simp
  next
    case (Some b)
    then show ?thesis using committed [OF assms(3) _ assms(4,5), of name "disk (s_dev s')" b] left take_padded [OF assms(4)] by simp
  qed
  ultimately show ?thesis using run by blast
qed

text \<open>A device in memory whose write number \<open>k\<close> fails, for concrete instances.\<close>

definition mem_blk :: "((u32 \<Rightarrow> bytes) \<times> nat) blk" where
  "mem_blk d pg badge =
     (let n = ucast (badge AND NOT BLK_WRITE_FLAG)
      in if badge AND BLK_WRITE_FLAG = 0 then (d, padded (fst d n), 0)
         else if snd d = 1 then ((fst d, 0), pg, 1)
         else (((fst d)(n := pg), snd d - 1), pg, 0))"

definition mem_disk :: "(u32 \<Rightarrow> bytes) \<times> nat \<Rightarrow> u32 \<Rightarrow> bytes" where
  "mem_disk d n = padded (fst d n)"

lemma badge_bits:
  assumes "unat (n :: u32) < 2 ^ 31"
  shows "(ucast n :: usize) AND BLK_WRITE_FLAG = 0" "((ucast n :: usize) OR BLK_WRITE_FLAG) AND BLK_WRITE_FLAG \<noteq> 0"
    "ucast ((ucast n :: usize) AND NOT BLK_WRITE_FLAG) = n" "ucast (((ucast n :: usize) OR BLK_WRITE_FLAG) AND NOT BLK_WRITE_FLAG) = n"
proof -
  have "\<not> bit (unat n) 31" using assms by (simp add: bit_iff_odd)
  then have hi: "\<not> bit n 31" by (simp add: bit_unsigned_iff)
  have b: "bit (ucast n :: usize) i \<longleftrightarrow> bit n i" for i by (auto simp: bit_simps dest: bit_imp_le_length)
  show "(ucast n :: usize) AND BLK_WRITE_FLAG = 0" "((ucast n :: usize) OR BLK_WRITE_FLAG) AND BLK_WRITE_FLAG \<noteq> 0"
    unfolding BLK_WRITE_FLAG_def and_shift1_eq_0 using hi b by (simp_all add: bit_or_iff bit_shift1 del: push_bit_of_1)
  show "ucast ((ucast n :: usize) AND NOT BLK_WRITE_FLAG) = n" "ucast (((ucast n :: usize) OR BLK_WRITE_FLAG) AND NOT BLK_WRITE_FLAG) = n"
    unfolding BLK_WRITE_FLAG_def
    by (rule bit_word_eqI; use hi in \<open>auto simp: bit_unsigned_iff bit_and_iff bit_or_iff bit_not_iff bit_shift1 simp del: push_bit_of_1\<close>)+
qed

lemma mem_blk_ok: "blk_ok mem_blk mem_disk"
  unfolding blk_ok_def
proof (intro conjI allI impI)
  fix d pg n d' pg' st
  assume n: "unat (n :: u32) < 2 ^ 31" and pg: "length (pg :: bytes) = BLOCK_SIZE"
  note bb = badge_bits [OF n]
  {
    assume "mem_blk d pg (ucast n) = (d', pg', st)"
    then show "mem_disk d' = mem_disk d" "length pg' = BLOCK_SIZE" "st = 0 \<Longrightarrow> pg' = mem_disk d n"
      using bb by (auto simp: mem_blk_def mem_disk_def)
  next
    assume "mem_blk d pg (ucast n OR BLK_WRITE_FLAG) = (d', pg', st)"
    then show "length pg' = BLOCK_SIZE" "mem_disk d' = (if st = 0 then (mem_disk d)(n := pg) else mem_disk d)"
      using bb pg by (auto simp: mem_blk_def mem_disk_def Let_def fun_eq_iff split: if_splits)
  }
qed (simp add: mem_disk_def)

definition empty_volume :: "u32 \<Rightarrow> bytes" where
  "empty_volume = (\<lambda>_. [])(0 := (case sb_encode one_file_sb (replicate 512 0) of Inr b \<Rightarrow> b | Inl _ \<Rightarrow> []))"

definition mem_store :: "nat \<Rightarrow> ((u32 \<Rightarrow> bytes) \<times> nat) store" where
  "mem_store k = \<lparr>s_dev = (empty_volume, k), s_page = replicate 512 0, s_cached = - 1, s_filebuf = replicate 4096 0\<rparr>"

lemma mem_store_ok: "store_ok mem_disk (mem_store k)" "volume_at (mem_disk (s_dev (mem_store k))) one_file_sb"
proof -
  show "store_ok mem_disk (mem_store k)"
    using block_number(1) by (auto simp: store_ok_def mem_store_def fs_consts FS_FILEBUF_LEN_def)
  have l: "24 \<le> length (replicate 512 (0 :: u8))" by simp
  obtain b where b: "sb_encode one_file_sb (replicate 512 0) = Inr b" "length b = length (replicate 512 (0 :: u8))"
    "drop 24 b = drop 24 (replicate 512 0)"
    "magic one_file_sb = FS_MAGIC \<and> version one_file_sb = FS_VERSION \<longrightarrow> sb_decode b = Some one_file_sb"
    by (rule sb_encode_ok [OF l, where sb = one_file_sb])
  then have "mem_disk (empty_volume, k) 0 = b" by (simp add: mem_disk_def empty_volume_def fs_consts)
  then show "volume_at (mem_disk (s_dev (mem_store k))) one_file_sb"
    using b(4) by (simp add: volume_at_def mem_store_def one_file_sb_def entries_def)
qed

theorem append_is_atomic_witness:
  "\<exists>s' r. fs_append_file mem_blk (mem_store 2) (lit ''KB-0006'') (lit ''text'') = Inr (s', r) \<and>
     store_ok mem_disk s' \<and> length (files_on (mem_disk (s_dev s'))) \<le> 1"
proof -
  have l: "length (lit ''text'') \<le> BLOCK_SIZE" "unat (total_blocks one_file_sb) + 1 < 2 ^ 31"
    by (simp_all add: lit_def fs_consts one_file_sb_def)
  have "files_on (mem_disk (s_dev (mem_store 2))) = []"
    using mem_store_ok(2) [of 2] by (simp add: files_on_def volume_at_def one_file_sb_def entries_def)
  with append_is_atomic [OF mem_blk_ok mem_store_ok [of 2] l, of "lit ''KB-0006''"]
  show ?thesis by (fastforce split: option.splits)
qed

end
