(* ===== verification/Learning.thy ===== *)
theory Learning
  imports Storage
begin

text \<open>
  The knowledge loop across boots: the writer records an unexplained crash on disk, the loader of a
  later boot reads it back. Composes the filesystem, the knowledge-base format, the storage path and
  the self-healer's table (\<^verbatim>\<open>kb_loader_task\<close> and \<^verbatim>\<open>kb_writer_task\<close> of
  \<^verbatim>\<open>src/kernel/src/main.rs\<close>).
\<close>

section \<open>Reading extents\<close>

definition reads_succeed :: "'d blk \<Rightarrow> bool" where
  "reads_succeed blk \<longleftrightarrow> (\<forall>d pg n. unat (n :: u32) < 2 ^ 31 \<longrightarrow> snd (snd (blk d pg (ucast n))) = 0)"

lemma read_block_succeeds:
  "reads_succeed blk \<Longrightarrow> unat n < 2 ^ 31 \<Longrightarrow> fs_read_block blk s n = (s', r) \<Longrightarrow> r \<noteq> None"
  by (auto simp: reads_succeed_def fs_read_block_def Let_def split: if_splits prod.splits) (metis snd_conv)

text \<open>An extent that lies inside the volume.\<close>

definition extent_ok :: "u32 \<Rightarrow> u32 \<Rightarrow> bool" where
  "extent_ok start len \<longleftrightarrow> unat start + blocks_for (unat len) < 2 ^ 31 \<and> unat len + 512 < 2 ^ 32"

text \<open>What the loader reads of it: at most two blocks.\<close>

definition extent_head :: "(u32 \<Rightarrow> bytes) \<Rightarrow> u32 \<Rightarrow> u32 \<Rightarrow> bytes" where
  "extent_head d start len = take (min (unat len) 1024) (d start @ d (start + 1))"

lemma filebuf_upd_ok: "store_ok disk s \<Longrightarrow> length fb = FS_FILEBUF_LEN \<Longrightarrow> store_ok disk (s\<lparr>s_filebuf := fb\<rparr>)"
  by (simp add: store_ok_def)

lemma read_head_step:
  assumes "blk_ok blk disk" "store_ok disk s" "unat start + i < 2 ^ 31" "i * 512 \<le> len" "i < 2"
  shows "\<exists>s1 ok. store_ok disk s1 \<and> disk (s_dev s1) = disk (s_dev s) \<and>
    s_filebuf s1 = (if ok then overlay (s_filebuf s) (i * 512) (take (min 512 (len - i * 512)) (disk (s_dev s) (start + word_of_nat i)))
                    else s_filebuf s) \<and>
    (reads_succeed blk \<longrightarrow> ok) \<and>
    (\<forall>is. read_head_blocks blk s start len (i # is) = (if ok then read_head_blocks blk s1 start len is else Inr (s1, False)))"
proof -
  let ?n = "start + word_of_nat i"
  have ui: "unat (word_of_nat i :: u32) = i" using assms(5) by (simp add: unat_of_nat take_bit_nat_eq_self)
  then have un: "unat ?n = unat start + i" using assms(3) unat_add_fits [of start "word_of_nat i"] by simp
  have add: "add_chk start (word_of_nat i) = Inr ?n" using assms(3) ui by (simp add: add_chk_def)
  obtain s1 r where rd: "fs_read_block blk s ?n = (s1, r)" by (metis surj_pair)
  have lt: "unat ?n < 2 ^ 31" using un assms(3) by simp
  note k = fs_read_block_ok [OF assms(1,2) lt rd]
  have fbs: "s_filebuf s1 = s_filebuf s" using rd by (auto simp: fs_read_block_def Let_def split: if_splits prod.splits)
  show ?thesis
  proof (cases r)
    case None
    then have "\<not> reads_succeed blk" using read_block_succeeds [OF _ lt rd] by blast
    then show ?thesis using k fbs add rd None by (intro exI [of _ s1] exI [of _ False]) simp
  next
    case (Some b)
    then have b: "b = disk (s_dev s) ?n" using k by simp
    have bl: "length b = 512" using b assms(1) by (simp add: blk_ok_def fs_consts)
    let ?t = "min 512 (len - i * 512)"
    let ?s = "s1\<lparr>s_filebuf := overlay (s_filebuf s1) (i * 512) (take ?t b)\<rparr>"
    have fl: "length (s_filebuf s1) = 4096" using k by (simp add: store_ok_def FS_FILEBUF_LEN_def)
    have fits: "i * 512 + length (take ?t b) \<le> length (s_filebuf s1)" using bl fl assms(5) by simp
    have sl: "slice b 0 ?t = Inr (take ?t b)" using bl by (simp add: slice_def)
    have st: "store_ok disk ?s" using k fits fl by (intro filebuf_upd_ok) (simp_all add: FS_FILEBUF_LEN_def)
    have asr: "assertr (i * 512 \<le> len) ArithOverflow = Inr ()" using assms(4) by (simp add: assertr_def)
    have put: "put_at (s_filebuf s1) (i * 512) (take ?t b) = Inr (overlay (s_filebuf s1) (i * 512) (take ?t b))"
      by (rule put_at_fits [OF fits])
    have run: "read_head_blocks blk s start len (i # is) = read_head_blocks blk ?s start len is" for "is"
      by (simp only: read_head_blocks.simps add bindr_Inr rd Some prod.case option.case fs_consts Let_def asr sl put)
    have "s_filebuf ?s = overlay (s_filebuf s) (i * 512) (take ?t (disk (s_dev s) ?n))" using b fbs by simp
    moreover have "disk (s_dev ?s) = disk (s_dev s)" using k by simp
    ultimately show ?thesis using st run by metis
  qed
qed

lemma overlay_prefix: "length src \<le> length fb \<Longrightarrow> take (length src) (overlay fb 0 src) = src"
  by (simp add: overlay_def)

lemma overlay_two:
  "length a = m \<Longrightarrow> m + length b \<le> length fb \<Longrightarrow> take (m + length b) (overlay (overlay fb 0 a) m b) = a @ b"
  by (simp add: overlay_def)

lemma fs_read_extent_head_ok:
  assumes "blk_ok blk disk" "store_ok disk s" "extent_ok start len" "reads_succeed blk"
  shows "\<exists>s'. fs_read_extent_head blk s start len = Inr (s', Some (extent_head (disk (s_dev s)) start len)) \<and>
    store_ok disk s' \<and> disk (s_dev s') = disk (s_dev s)"
proof -
  let ?d = "disk (s_dev s)" and ?n = "min (blocks_for (unat len)) 2" and ?l = "min (unat len) 1024"
  have e: "unat start + blocks_for (unat len) < 2 ^ 31" "unat len + 512 < 2 ^ 32" using assms(3) by (simp_all add: extent_ok_def)
  have dl: "length (?d k) = 512" for k using assms(1) by (simp add: blk_ok_def fs_consts)
  have len: "min (min (unat len) (?n * 512)) 4096 = ?l" by (auto simp: blocks_for_def min_def)
  have fl: "length (s_filebuf t) = 4096" if "store_ok disk t" for t using that by (simp add: store_ok_def FS_FILEBUF_LEN_def)
  have head: "fs_read_extent_head blk s start len =
      bindr (read_head_blocks blk s start ?l [0..<?n]) (\<lambda>(s, ok).
        if \<not> ok then Inr (s, None) else bindr (slice (s_filebuf s) 0 ?l) (\<lambda>bytes. Inr (s, Some bytes)))"
    unfolding fs_read_extent_head_def block_count_ok [OF e(2)] bindr_Inr Let_def unat_blocks_for [OF e(2)]
      KB_HEAD_BLOCKS_def FS_FILEBUF_LEN_def fs_consts len ..
  have fin: ?thesis if "read_head_blocks blk s start ?l [0..<?n] = Inr (t, True)" "store_ok disk t" "disk (s_dev t) = ?d"
    "take ?l (s_filebuf t) = take ?l (?d start @ ?d (start + 1))" for t
    using that head fl [OF that(2)] by (simp add: slice_def extent_head_def)
  consider "?n = 0" | "?n = 1" | "?n = 2" by linarith
  then show ?thesis
  proof cases
    case 1
    then have "?l = 0" by (auto simp: blocks_for_def min_def split: if_splits)
    then show ?thesis using fin [of s] assms(2) 1 by simp
  next
    case 2
    then have l: "?l \<le> 512" by (auto simp: blocks_for_def min_def split: if_splits)
    obtain s1 where s1: "store_ok disk s1" "disk (s_dev s1) = ?d" "s_filebuf s1 = overlay (s_filebuf s) 0 (take ?l (?d start))"
      "\<forall>is. read_head_blocks blk s start ?l (0 # is) = read_head_blocks blk s1 start ?l is"
      using read_head_step [OF assms(1,2), of start 0 ?l] assms(4) e(1) l by (auto simp: min_absorb2)
    have "take ?l (s_filebuf s1) = take ?l (?d start)"
      using overlay_prefix [of "take ?l (?d start)" "s_filebuf s"] s1(3) fl [OF assms(2)] dl l by simp
    then have "take ?l (s_filebuf s1) = take ?l (?d start @ ?d (start + 1))" using dl l by simp
    moreover have "read_head_blocks blk s start ?l [0..<?n] = Inr (s1, True)"
      using s1(4) [rule_format, of "[]"] unfolding 2 by (simp del: read_head_blocks.simps(2))
    ultimately show ?thesis using fin [OF _ s1(1,2)] by blast
  next
    case 3
    then have l: "512 < ?l" "?l \<le> 1024" and n: "unat start + 1 < 2 ^ 31"
      using e(1) by (auto simp: blocks_for_def min_def split: if_splits)
    obtain s1 where s1: "store_ok disk s1" "disk (s_dev s1) = ?d" "s_filebuf s1 = overlay (s_filebuf s) 0 (?d start)"
      "\<forall>is. read_head_blocks blk s start ?l (0 # is) = read_head_blocks blk s1 start ?l is"
      using read_head_step [OF assms(1,2), of start 0 ?l] assms(4) e(1) l dl by (auto simp: min_absorb1)
    obtain s2 where s2: "store_ok disk s2" "disk (s_dev s2) = ?d"
      "s_filebuf s2 = overlay (s_filebuf s1) 512 (take (?l - 512) (?d (start + 1)))"
      "\<forall>is. read_head_blocks blk s1 start ?l (1 # is) = read_head_blocks blk s2 start ?l is"
      using read_head_step [OF assms(1) s1(1), of start 1 ?l] assms(4) n l s1(2) by (auto simp: min_absorb2)
    have "take ?l (s_filebuf s2) = ?d start @ take (?l - 512) (?d (start + 1))"
      using overlay_two [of "?d start" 512 "take (?l - 512) (?d (start + 1))" "s_filebuf s"] s1(3) s2(3) fl [OF assms(2)] dl l
      by simp
    then have "take ?l (s_filebuf s2) = take ?l (?d start @ ?d (start + 1))" using dl l by simp
    moreover have "[0..<?n] = [0, 1]" unfolding 3 by (simp add: upt_rec)
    then have "read_head_blocks blk s start ?l [0..<?n] = Inr (s2, True)"
      using s1(4) s2(4) by (simp only: read_head_blocks.simps(1))
    ultimately show ?thesis using fin [OF _ s2(1,2)] by blast
  qed
qed

section \<open>The loader\<close>

text \<open>The issue the loader installs for a directory entry, when its document has a token.\<close>

definition issue_for :: "(u32 \<Rightarrow> bytes) \<Rightarrow> dir_entry \<Rightarrow> known_issue option" where
  "issue_for d e = (case kb_parse (extent_head d (de_start_block e) (de_byte_len e)) of
     None \<Rightarrow> None
   | Some r \<Rightarrow> map_option (\<lambda>tok. issue_new (r_id r) (r_title r) (r_playbook r) tok (r_seen r) (r_escalated r) (de_start_block e))
                 (r_match_cause r))"

lemma install_room:
  assumes "heal_wf h" "kb_count h < MAX_ISSUES" "install h i t p (Some tok) n e b = (h', ok)"
  shows "ok" "heal_wf h'" "kb_count h' = kb_count h + 1" "set (kb_table h') \<supseteq> set (kb_table h) - {None}"
    "Some (issue_new i t p tok n e b) \<in> set (kb_table h')"
proof -
  show "heal_wf h'" using heal_wf_install [OF assms(1), of i t p "Some tok" n e b] assms(3) by simp
  have h': "kb_table h' = (kb_table h)[kb_count h := Some (issue_new i t p tok n e b)]" "kb_count h' = kb_count h + 1" "ok"
    using assms(2,3) by (auto simp: install_def)
  then show "ok" "kb_count h' = kb_count h + 1" by simp_all
  have l: "kb_count h < length (kb_table h)" "kb_table h ! kb_count h = None"
    using assms(1,2) by (simp_all add: heal_wf_def)
  show "Some (issue_new i t p tok n e b) \<in> set (kb_table h')" using h'(1) l(1) by (simp add: set_update_memI)
  show "set (kb_table h') \<supseteq> set (kb_table h) - {None}"
  proof
    fix x assume "x \<in> set (kb_table h) - {None}"
    then obtain j where j: "j < length (kb_table h)" "kb_table h ! j = x" "x \<noteq> None" by (auto simp: in_set_conv_nth)
    then have "j \<noteq> kb_count h" using l by auto
    then have "kb_table h' ! j = x" using j h'(1) by simp
    then show "x \<in> set (kb_table h')" using j(1) h'(1) by (metis length_list_update nth_mem)
  qed
qed

lemma load_entries_ok:
  assumes "blk_ok blk disk" "reads_succeed blk" "length dir = BLOCK_SIZE"
  shows "store_ok disk s \<Longrightarrow> disk (s_dev s) = d \<Longrightarrow> heal_wf h \<Longrightarrow> kb_count h + length is \<le> MAX_ISSUES \<Longrightarrow>
    list_all (\<lambda>i. i < 8 \<and> extent_ok (de_start_block (entry_of (field (i * 64) 64 dir))) (de_byte_len (entry_of (field (i * 64) 64 dir)))) is \<Longrightarrow>
    \<exists>s' h' ld. load_entries blk dir s h sc0 ld0 is = Inr (s', h', sc0 + length is, ld) \<and> heal_wf h' \<and>
      store_ok disk s' \<and> disk (s_dev s') = d \<and> set (kb_table h) - {None} \<subseteq> set (kb_table h') \<and>
      (\<forall>i\<in>set is. issue_for d (entry_of (field (i * 64) 64 dir)) \<noteq> None \<longrightarrow>
         issue_for d (entry_of (field (i * 64) 64 dir)) \<in> set (kb_table h'))"
proof (induction "is" arbitrary: s h sc0 ld0)
  case Nil
  then show ?case by auto
next
  case (Cons i "is")
  let ?e = "entry_of (field (i * 64) 64 dir)"
  let ?ok = "\<lambda>i. i < 8 \<and> extent_ok (de_start_block (entry_of (field (i * 64) 64 dir))) (de_byte_len (entry_of (field (i * 64) 64 dir)))"
  have i: "i < 8" "extent_ok (de_start_block ?e) (de_byte_len ?e)" and rest: "list_all ?ok is" using Cons.prems(5) by simp_all
  obtain s1 where s1: "fs_read_extent_head blk s (de_start_block ?e) (de_byte_len ?e) =
      Inr (s1, Some (extent_head d (de_start_block ?e) (de_byte_len ?e)))" "store_ok disk s1" "disk (s_dev s1) = d"
    using fs_read_extent_head_ok [OF assms(1) Cons.prems(1) i(2) assms(2)] Cons.prems(2) by auto
  have ent: "dir_entry_at dir i = Inr (Some ?e)" using dir_entry_at_ok [OF assms(3)] i(1) by simp
  show ?case
  proof (cases "issue_for d ?e")
    case None
    then have "load_entries blk dir s h sc0 ld0 (i # is) = load_entries blk dir s1 h (sc0 + 1) ld0 is"
      using ent s1(1) by (auto simp: issue_for_def split: option.splits)
    then show ?thesis
      using Cons.IH [OF s1(2,3) Cons.prems(3) _ rest, of "sc0 + 1" ld0] Cons.prems(4) None by (auto simp del: load_entries.simps)
  next
    case (Some k)
    then obtain r tok where r: "kb_parse (extent_head d (de_start_block ?e) (de_byte_len ?e)) = Some r" "r_match_cause r = Some tok"
      "k = issue_new (r_id r) (r_title r) (r_playbook r) tok (r_seen r) (r_escalated r) (de_start_block ?e)"
      by (auto simp: issue_for_def split: option.splits)
    obtain h1 ok where in1: "install h (r_id r) (r_title r) (r_playbook r) (Some tok) (r_seen r) (r_escalated r) (de_start_block ?e) = (h1, ok)"
      by (metis surj_pair)
    note k = install_room [OF Cons.prems(3) _ in1]
    have room: "kb_count h < MAX_ISSUES" "kb_count h + 1 + length is \<le> MAX_ISSUES" using Cons.prems(4) by simp_all
    have "load_entries blk dir s h sc0 ld0 (i # is) = load_entries blk dir s1 h1 (sc0 + 1) (ld0 + 1) is"
      using ent s1(1) r in1 k(1) room by simp
    moreover obtain s' h' ld where IH: "load_entries blk dir s1 h1 (sc0 + 1) (ld0 + 1) is = Inr (s', h', sc0 + 1 + length is, ld)"
      "heal_wf h'" "store_ok disk s'" "disk (s_dev s') = d" "set (kb_table h1) - {None} \<subseteq> set (kb_table h')"
      "\<forall>i\<in>set is. issue_for d (entry_of (field (i * 64) 64 dir)) \<noteq> None \<longrightarrow>
         issue_for d (entry_of (field (i * 64) 64 dir)) \<in> set (kb_table h')"
      using Cons.IH [OF s1(2,3) k(2) _ rest, of "sc0 + 1" "ld0 + 1"] k(3) room by auto
    moreover have "set (kb_table h) - {None} \<subseteq> set (kb_table h')" using k(4) room(1) IH(5) by blast
    moreover have "issue_for d ?e \<in> set (kb_table h')" using k(5) room(1) IH(5) r(3) Some by auto
    ultimately show ?thesis by (simp del: load_entries.simps)
  qed
qed

text \<open>Over a volume whose reads succeed the loader ends without a panic and installs every
  document with a token.\<close>

lemma kb_loader_ok:
  assumes "blk_ok blk disk" "reads_succeed blk" "store_ok disk s" "volume_at (disk (s_dev s)) sb"
  shows "\<exists>s' h' ld. kb_loader blk True s heal_init = Inr (s', h', unat (dir_entries sb), ld) \<and> heal_wf h' \<and>
    (\<forall>e\<in>set (files_on (disk (s_dev s))). issue_for (disk (s_dev s)) e \<noteq> None \<longrightarrow> issue_for (disk (s_dev s)) e \<in> set (kb_table h'))"
proof -
  let ?d = "disk (s_dev s)" and ?n = "unat (dir_entries sb)"
  have v: "sb_decode (?d 0) = Some sb" "dir_block sb = 1" "?n \<le> 8" using assms(4) by (auto simp: volume_at_def)
  have ext: "list_all (\<lambda>i. i < 8 \<and> extent_ok (de_start_block (entry_of (field (i * 64) 64 (?d 1)))) (de_byte_len (entry_of (field (i * 64) 64 (?d 1))))) [0..<?n]"
    using assms(4) by (fastforce simp: volume_at_def list_all_iff entries_def extent_ok_def)
  obtain s1 r1 where 1: "fs_read_block blk s 0 = (s1, r1)" by (metis surj_pair)
  have k1: "store_ok disk s1" "disk (s_dev s1) = ?d" "r1 = Some (?d 0)"
    using fs_read_block_ok [OF assms(1,3) _ 1] read_block_succeeds [OF assms(2) _ 1] by auto
  obtain s2 r2 where 2: "fs_read_block blk s1 1 = (s2, r2)" by (metis surj_pair)
  have k2: "store_ok disk s2" "disk (s_dev s2) = ?d" "r2 = Some (?d 1)"
    using fs_read_block_ok [OF assms(1) k1(1) _ 2] read_block_succeeds [OF assms(2) _ 2] k1(2) by auto
  have dl: "length (?d 1) = BLOCK_SIZE" using assms(1) by (simp add: blk_ok_def)
  have room: "kb_count heal_init + length [0..<?n] \<le> MAX_ISSUES" using v(3) by (simp add: heal_init_def MAX_ISSUES_def)
  have run: "kb_loader blk True s heal_init = load_entries blk (?d 1) s2 heal_init 0 0 [0..<?n]"
    using 1 2 k1(3) k2(3) v by (simp add: kb_loader_def)
  have "\<exists>s' h' ld. load_entries blk (?d 1) s2 heal_init 0 0 [0..<?n] = Inr (s', h', ?n, ld) \<and> heal_wf h' \<and>
      (\<forall>i\<in>set [0..<?n]. issue_for ?d (entry_of (field (i * 64) 64 (?d 1))) \<noteq> None \<longrightarrow>
         issue_for ?d (entry_of (field (i * 64) 64 (?d 1))) \<in> set (kb_table h'))"
    using load_entries_ok [OF assms(1,2) dl k2(1,2) heal_wf_init room ext, of 0 0] by auto
  then show ?thesis using v unfolding run by (auto simp: files_on_def entries_def)
qed

section \<open>The writer\<close>

lemma cause_token_cases:
  "cause_token c = Some tok \<Longrightarrow> tok \<in> {lit ''illegal-instruction'', lit ''page-fault'', lit ''breakpoint''}"
  by (auto simp: cause_token_def split: cause.splits)

lemma cause_token_sane: "cause_token c = Some tok \<Longrightarrow> sane tok \<and> valid_utf8 tok \<and> length tok \<le> TOKEN_CAP"
  by (drule cause_token_cases) (auto simp: sane_def lit_def QUOTE_def TOKEN_CAP_def intro!: valid_utf8_ascii)

lemma kb_title_token:
  assumes "cause_token c = Some tok"
  shows "kb_title tok = lit ''Observed fault: '' @ tok @ lit '' (auto-recorded)''" (is "_ = ?t")
proof -
  have "ascii ?t" using cause_token_sane [OF assms] sane_ascii by (auto simp: lit_def)
  moreover have "fill_title [] [lit ''Observed fault: '', tok, lit '' (auto-recorded)''] = ?t"
    using cause_token_cases [OF assms] by (auto simp: lit_def)
  ultimately show ?thesis by (simp add: kb_title_def from_utf8_ascii)
qed

lemma kb_title_sane: "cause_token c = Some tok \<Longrightarrow> sane (kb_title tok)"
proof -
  assume t: "cause_token c = Some tok"
  then have "sane tok" using cause_token_sane by blast
  then show ?thesis unfolding kb_title_token [OF t] by (auto simp: sane_def lit_def QUOTE_def)
qed

lemma default_playbook_sane: "sane DEFAULT_PLAYBOOK"
  by (simp add: sane_def DEFAULT_PLAYBOOK_def lit_def QUOTE_def)

lemma ascii_digit: "48 + ucast (w mod 10 :: u32) \<in> set (map (\<lambda>k. 48 + word_of_nat k) [0..<10] :: u8 list)"
proof -
  have "unat (w mod 10) < 10" by (simp add: unat_mod)
  then show ?thesis using imageI [of "unat (w mod 10)" "{0..<10}" "\<lambda>k. 48 + word_of_nat k :: u8"] by simp
qed

lemma kb_id_sane: "sane (kb_id n) \<and> length (kb_id n) = 7"
proof -
  let ?d = "\<lambda>w :: u32. 48 + ucast (w mod 10) :: u8"
  have d: "32 \<le> ?d w \<and> ?d w < 127 \<and> ?d w \<noteq> QUOTE \<and> ?d w \<noteq> 32" for w
    using ascii_digit [of w] by (auto simp: QUOTE_def upt_rec)
  let ?raw = "lit ''KB-'' @ [?d (n div 1000), ?d (n div 100), ?d (n div 10), ?d n]"
  have "sane (lit ''KB-'' @ [a, b, c, e])"
    if "list_all (\<lambda>x. 32 \<le> x \<and> x < 127 \<and> x \<noteq> QUOTE \<and> x \<noteq> 32) [a, b, c, e]" for a b c e :: u8
    using that by (auto simp: sane_def lit_def QUOTE_def)
  then have "sane ?raw" using d by (simp only: list.pred_inject simp_thms)
  then show ?thesis using from_utf8_ascii [OF sane_ascii, of ?raw] by (simp add: kb_id_def Let_def lit_def)
qed

text \<open>A committed record: the document on disk under the next number.\<close>

lemma record_novel_committed:
  assumes blk: "blk_ok blk disk" and st: "store_ok disk s" and vol: "volume_at (disk (s_dev s)) sb"
    and room: "unat (total_blocks sb) + 1 < 2 ^ 31"
    and tok: "novel_token h = Some tok" "cause_token c = Some tok"
    and rec: "record_novel blk s h = Inr (s1, h1, Some b)"
  shows "\<exists>sb' e. store_ok disk s1 \<and> volume_at (disk (s_dev s1)) sb' \<and> e \<in> set (files_on (disk (s_dev s1))) \<and>
    issue_for (disk (s_dev s1)) e = Some (issue_new (kb_id (max_kb_number h + 1)) (kb_title tok) DEFAULT_PLAYBOOK tok 0 False b)"
proof -
  let ?id = "kb_id (max_kb_number h + 1)" and ?title = "kb_title tok" and ?out = "replicate BLOCK_SIZE 0 :: bytes"
  let ?h = "h\<lparr>novel_token := None\<rparr>"
  have mx: "max_kb_number ?h = max_kb_number h" by (simp add: max_kb_number_def)
  have sane: "sane ?id" "sane ?title" "sane DEFAULT_PLAYBOOK" "sane tok"
    using kb_id_sane kb_title_sane [OF tok(2)] default_playbook_sane cause_token_sane [OF tok(2)] by simp_all
  define n where "n = length (kb_doc ?id ?title DEFAULT_PLAYBOOK tok (lit ''00000'') (lit ''0''))"
  note rt = serialize_reads_back [OF sane, of ?out, unfolded Let_def, folded n_def]
  have num: "add_chk (max_kb_number h) 1 = Inr (max_kb_number h + 1)"
    using rec tok(1) mx by (auto simp: record_novel_def take_novel_def add_chk_def split: if_splits)
  have n: "n \<le> BLOCK_SIZE"
  proof (rule ccontr)
    assume "\<not> n \<le> BLOCK_SIZE"
    then have "snd (kb_serialize ?id ?title DEFAULT_PLAYBOOK tok ?out) = None" using rt by simp
    then show False using rec tok(1) mx num
      by (auto simp: record_novel_def take_novel_def Let_def split: prod.splits option.splits)
  qed
  obtain doc where doc: "kb_serialize ?id ?title DEFAULT_PLAYBOOK tok ?out = (doc, Some n)" "drop n doc = drop n ?out"
    "kb_parse (take n doc) = Some \<lparr>r_id = ?id, r_title = ?title, r_playbook = DEFAULT_PLAYBOOK, r_match_cause = Some tok,
       r_seen = 0, r_escalated = False\<rparr>"
    using rt n by auto
  have unf: "record_novel blk s h = bindr (slice doc 0 n) (\<lambda>contents. bindr (fs_append_file blk s ?id contents) (\<lambda>(s, r).
      case r of None \<Rightarrow> Inr (s, ?h, None)
      | Some start \<Rightarrow> Inr (s, fst (install ?h ?id ?title DEFAULT_PLAYBOOK (Some tok) 0 False start), Some start)))"
    using tok(1) mx num doc(1) by (simp add: record_novel_def take_novel_def Let_def)
  then have ld: "n \<le> length doc" using rec by (auto simp: slice_def split: if_splits)
  let ?c = "take n doc"
  have cl: "length ?c = n" using ld by simp
  obtain s2 r where app: "fs_append_file blk s ?id ?c = Inr (s2, r)" "store_ok disk s2"
    "append_left (disk (s_dev s)) sb ?id ?c (disk (s_dev s2)) r"
    using append_file_run [OF blk st vol, of ?c ?id] n cl by auto
  then have r: "r = Some b" "s2 = s1" using rec unf ld by (auto simp: slice_def split: option.splits)
  have cn: "length ?c \<le> BLOCK_SIZE" using n cl by simp
  note k = committed [OF vol app(3) [unfolded r] cn room]
  let ?e = "dirent_new ?id b (word_of_nat (length ?c))"
  have n0: "0 < n" by (simp add: n_def kb_doc_def lit_def)
  have "unat (word_of_nat n :: u32) = n" using n by (simp add: unat_of_nat take_bit_nat_eq_self fs_consts)
  then have "extent_head (disk (s_dev s1)) (de_start_block ?e) (de_byte_len ?e) = ?c"
    using k(4) cl n take_padded [OF cn] by (simp add: extent_head_def dirent_new_def fs_consts Let_def)
  then have "issue_for (disk (s_dev s1)) ?e = Some (issue_new ?id ?title DEFAULT_PLAYBOOK tok 0 False b)"
    using doc(3) by (simp add: issue_for_def dirent_new_def Let_def)
  moreover have "?e \<in> set (files_on (disk (s_dev s1)))" using k(3) by simp
  ultimately show ?thesis using k(2) app(2) r(2) by blast
qed

section \<open>Properties\<close>

lemma matched_token_diagnosed:
  "cause_token c = Some tok \<Longrightarrow> Some k \<in> set (kb_table h) \<Longrightarrow> issue_match_cause k = tok \<Longrightarrow> diagnose h c \<noteq> None"
  by (auto simp: diagnose_def match_issue_def position_None_iff matches_token_def intro!: bexI [of _ "Some k"])

text \<open>C10: What the kernel learns survives a reboot. When the writer has recorded an unexplained
  crash (the append committed), a later boot over the same disk, starting from an empty table and
  with a device whose reads succeed, loads the volume without a panic, scans every directory entry,
  installs the record with the fields that were written, and from then on diagnoses that cause.\<close>
theorem learned_across_reboot:
  assumes "blk_ok blk disk" "store_ok disk s" "volume_at (disk (s_dev s)) sb" "unat (total_blocks sb) + 1 < 2 ^ 31"
    "novel_token h = Some tok" "cause_token c = Some tok" "record_novel blk s h = Inr (s1, h1, Some b)"
    "reads_succeed blk" "store_ok disk s2" "disk (s_dev s2) = disk (s_dev s1)"
  shows "\<exists>s3 h3 n ld. kb_loader blk True s2 heal_init = Inr (s3, h3, n, ld) \<and> n = length (files_on (disk (s_dev s1))) \<and> heal_wf h3 \<and>
    Some (issue_new (kb_id (max_kb_number h + 1)) (kb_title tok) DEFAULT_PLAYBOOK tok 0 False b) \<in> set (kb_table h3) \<and>
    diagnose h3 c \<noteq> None"
proof -
  let ?k = "issue_new (kb_id (max_kb_number h + 1)) (kb_title tok) DEFAULT_PLAYBOOK tok 0 False b" and ?d = "disk (s_dev s1)"
  obtain sb' e where e: "volume_at ?d sb'" "e \<in> set (files_on ?d)" "issue_for ?d e = Some ?k"
    using record_novel_committed [OF assms(1-7)] by blast
  obtain s3 h3 ld where ld: "kb_loader blk True s2 heal_init = Inr (s3, h3, unat (dir_entries sb'), ld)" "heal_wf h3"
    "Some ?k \<in> set (kb_table h3)"
    using kb_loader_ok [OF assms(1,8,9), of sb'] e assms(10) by (metis option.distinct(1))
  have "issue_match_cause ?k = tok"
    using cause_token_sane [OF assms(6)] by (simp add: issue_match_cause_def issue_new_def buf_roundtrip)
  then have "diagnose h3 c \<noteq> None" using matched_token_diagnosed [OF assms(6) ld(3)] by blast
  moreover have "unat (dir_entries sb') = length (files_on ?d)" using e(1) by (simp add: files_on_def volume_at_def entries_def)
  ultimately show ?thesis using ld by auto
qed

section \<open>A device that never fails\<close>

definition writes_succeed :: "'d blk \<Rightarrow> bool" where
  "writes_succeed blk \<longleftrightarrow>
     (\<forall>d pg n. unat (n :: u32) < 2 ^ 31 \<longrightarrow> snd (snd (blk d pg (ucast n OR BLK_WRITE_FLAG))) = 0)"

lemma write_block_succeeds:
  assumes "writes_succeed blk" "unat n < 2 ^ 31"
  shows "\<exists>s'. fs_write_block blk s n bytes = (s', True)"
proof -
  obtain s' ok where w: "fs_write_block blk s n bytes = (s', ok)" by (metis surj_pair)
  then have "ok" using assms by (auto simp: fs_write_block_def Let_def writes_succeed_def split: prod.splits) (metis snd_conv)
  then show ?thesis using w by auto
qed

lemma append_succeeds:
  assumes "blk_ok blk disk" "store_ok disk s" "volume_at (disk (s_dev s)) sb" "length contents \<le> BLOCK_SIZE"
    "reads_succeed blk" "writes_succeed blk" "unat (dir_entries sb) < 8"
  shows "\<exists>s'. fs_append_file blk s name contents = Inr (s', Some (total_blocks sb))"
proof -
  let ?d = "disk (s_dev s)" and ?l = "word_of_nat (length contents) :: u32" and ?t = "total_blocks sb"
  have v: "sb_decode (?d 0) = Some sb" "dir_block sb = 1" "2 \<le> unat ?t" "unat ?t < 2 ^ 31"
    using assms(3) by (auto simp: volume_at_def)
  obtain s1 r1 where 1: "fs_read_block blk s 0 = (s1, r1)" by (metis surj_pair)
  have k1: "store_ok disk s1" "disk (s_dev s1) = ?d" "r1 = Some (?d 0)"
    using fs_read_block_ok [OF assms(1,2) _ 1] read_block_succeeds [OF assms(5) _ 1] by auto
  obtain s2 r2 where 2: "fs_read_block blk s1 1 = (s2, r2)" by (metis surj_pair)
  have k2: "r2 = Some (?d 1)"
    using fs_read_block_ok [OF assms(1) k1(1) _ 2] read_block_succeeds [OF assms(5) _ 2] k1(2) by auto
  have ul: "unat ?l = length contents" using assms(4) by (simp add: unat_of_nat take_bit_nat_eq_self fs_consts)
  then have fit: "append_fits sb ?l" using assms(4) v(4) by (simp add: append_fits_def fs_consts blocks_for_def)
  have dl: "length (?d 1) = BLOCK_SIZE" using assms(1) by (simp add: blk_ok_def)
  obtain dir' where pl: "append_plan sb (?d 1) name ?l =
      Inr (Some \<lparr>ap_start_block = ?t, ap_superblock = grow_sb sb ?l, ap_dir_block = dir'\<rparr>)"
    using append_plan_ok [OF dl assms(7) fit, of name] by auto
  obtain b where b: "sb_encode (grow_sb sb ?l) (replicate BLOCK_SIZE 0) = Inr b"
    using grow_sb_encode sb_decode_magic [OF v(1)] by blast
  note w = write_block_succeeds [OF assms(6)]
  obtain s3 where 3: "fs_write_block blk s2 ?t contents = (s3, True)" using w [OF v(4)] by blast
  obtain s4 where 4: "fs_write_block blk s3 1 dir' = (s4, True)" using w [of 1] by auto
  obtain s5 where 5: "fs_write_block blk s4 0 b = (s5, True)" using w [of 0] by auto
  show ?thesis using 1 2 k1(3) k2 v assms(4) pl 3 4 5 b by (simp add: fs_append_file_def)
qed

text \<open>A block device in memory.\<close>

definition ram_blk :: "(u32 \<Rightarrow> bytes) blk" where
  "ram_blk d pg badge = (case mem_blk (d, 0) pg badge of ((d', _), pg', st) \<Rightarrow> (d', pg', st))"

definition ram_disk :: "(u32 \<Rightarrow> bytes) \<Rightarrow> u32 \<Rightarrow> bytes" where
  "ram_disk d = mem_disk (d, 0)"

definition ram_store :: "(u32 \<Rightarrow> bytes) store" where
  "ram_store = \<lparr>s_dev = empty_volume, s_page = replicate 512 0, s_cached = - 1, s_filebuf = replicate 4096 0\<rparr>"

lemma ram_blk_ok: "blk_ok ram_blk ram_disk" "reads_succeed ram_blk" "writes_succeed ram_blk"
proof -
  show "blk_ok ram_blk ram_disk"
    using badge_bits unfolding blk_ok_def
    by (auto simp: ram_blk_def ram_disk_def mem_blk_def mem_disk_def Let_def fun_eq_iff)
  show "reads_succeed ram_blk" "writes_succeed ram_blk"
    using badge_bits by (auto simp: reads_succeed_def writes_succeed_def ram_blk_def mem_blk_def Let_def)
qed

lemma ram_store_ok: "store_ok ram_disk ram_store" "volume_at (ram_disk (s_dev ram_store)) one_file_sb"
  using mem_store_ok [of 0] by (simp_all add: store_ok_def ram_disk_def ram_store_def mem_store_def fs_consts)

text \<open>With such a device and a free slot in the directory the record is committed.\<close>

lemma record_novel_commits:
  assumes "blk_ok blk disk" "store_ok disk s" "volume_at (disk (s_dev s)) sb" "reads_succeed blk" "writes_succeed blk"
    "unat (dir_entries sb) < 8" "novel_token h = Some tok" "cause_token c = Some tok" "unat (max_kb_number h) + 1 < 2 ^ 32"
  shows "\<exists>s1 h1. record_novel blk s h = Inr (s1, h1, Some (total_blocks sb))"
proof -
  let ?id = "kb_id (max_kb_number h + 1)" and ?title = "kb_title tok" and ?out = "replicate BLOCK_SIZE 0 :: bytes"
  have mx: "max_kb_number (h\<lparr>novel_token := None\<rparr>) = max_kb_number h" by (simp add: max_kb_number_def)
  have num: "add_chk (max_kb_number h) 1 = Inr (max_kb_number h + 1)" using assms(9) by (simp add: add_chk_def)
  have sane: "sane ?id" "sane ?title" "sane DEFAULT_PLAYBOOK" "sane tok"
    using kb_id_sane kb_title_sane [OF assms(8)] default_playbook_sane cause_token_sane [OF assms(8)] by simp_all
  define n where "n = length (kb_doc ?id ?title DEFAULT_PLAYBOOK tok (lit ''00000'') (lit ''0''))"
  have n: "n \<le> BLOCK_SIZE"
    using cause_token_sane [OF assms(8)] kb_id_sane
    by (simp add: n_def kb_doc_def kb_title_token [OF assms(8)] DEFAULT_PLAYBOOK_def lit_def TOKEN_CAP_def fs_consts)
  obtain doc where doc: "kb_serialize ?id ?title DEFAULT_PLAYBOOK tok ?out = (doc, Some n)" "length doc = BLOCK_SIZE"
    using serialize_reads_back [OF sane, of ?out, unfolded Let_def, folded n_def] n serialize_length [of ?id ?title DEFAULT_PLAYBOOK tok ?out] by auto
  obtain s1 where "fs_append_file blk s ?id (take n doc) = Inr (s1, Some (total_blocks sb))"
    using append_succeeds [OF assms(1-3) _ assms(4-6), of "take n doc" ?id] doc(2) by auto
  then show ?thesis using assms(7) mx num doc n by (simp add: record_novel_def take_novel_def Let_def slice_def)
qed

definition crashed :: heal where
  "crashed = note_unmatched heal_init IllegalInstruction"

theorem learned_across_reboot_witness:
  "\<exists>s1 h1 s3 h3 n ld. record_novel ram_blk ram_store crashed = Inr (s1, h1, Some 2) \<and>
     kb_loader ram_blk True (ram_store\<lparr>s_dev := s_dev s1\<rparr>) heal_init = Inr (s3, h3, n, ld) \<and>
     diagnose h3 IllegalInstruction \<noteq> None"
proof -
  let ?tok = "lit ''illegal-instruction''"
  have tok: "novel_token crashed = Some ?tok" "cause_token IllegalInstruction = Some ?tok"
    by (simp_all add: crashed_def note_unmatched_def cause_token_def heal_init_def)
  have "max_kb_number crashed = 0"
    by (simp add: max_kb_number_def crashed_def note_unmatched_def cause_token_def heal_init_def MAX_ISSUES_def numeral_eq_Suc)
  then obtain s1 h1 where r: "record_novel ram_blk ram_store crashed = Inr (s1, h1, Some 2)"
    using record_novel_commits [OF ram_blk_ok(1) ram_store_ok ram_blk_ok(2,3) _ tok] by (auto simp: one_file_sb_def)
  have "store_ok ram_disk (ram_store\<lparr>s_dev := s_dev s1\<rparr>)"
    using block_number(1) by (auto simp: store_ok_def ram_store_def fs_consts FS_FILEBUF_LEN_def)
  moreover have "unat (total_blocks one_file_sb) + 1 < 2 ^ 31" by (simp add: one_file_sb_def)
  ultimately show ?thesis
    using learned_across_reboot [OF ram_blk_ok(1) ram_store_ok _ tok r ram_blk_ok(2), of "ram_store\<lparr>s_dev := s_dev s1\<rparr>"] r by auto
qed

section \<open>Counters on disk\<close>

text \<open>The writer's loop over the dirty entries ends: nine rounds are enough, and they persist each
  reported entry in turn.\<close>

lemma persist_dirty_ok:
  "length (concat (map reportable (kb_table h))) < n \<Longrightarrow>
   persist_dirty n blk s h =
     Some (fold (\<lambda>(eid, b, seen, esc) s. persist_one blk s b seen esc) (concat (map reportable (kb_table h))) s,
           h\<lparr>kb_table := map cleaned (kb_table h)\<rparr>)"
proof (induction n arbitrary: h s)
  case (Suc n)
  obtain t' r where d: "drain_dirty (kb_table h) = (t', r)" by fastforce
  show ?case
  proof (cases r)
    case None
    then show ?thesis using d drain_dirty_None [of "kb_table h" t'] by (simp add: dirty_entry_def del: concat_eq_Nil_conv)
  next
    case (Some e)
    obtain eid b seen esc where e: "e = (eid, b, seen, esc)" by (cases e)
    note k = drain_dirty_Some [of "kb_table h" t' e]
    show ?thesis
      using Suc.IH [of "h\<lparr>kb_table := t'\<rparr>" "persist_one blk s b seen esc"] Suc.prems d Some e k by (simp add: dirty_entry_def)
  qed
qed simp

lemma persist_dirty_ends: "heal_wf h \<Longrightarrow> \<exists>s' h'. persist_dirty 9 blk s h = Some (s', h') \<and> snd (dirty_entry h') = None"
proof -
  assume "heal_wf h"
  then have "length (concat (map reportable (kb_table h))) < 9"
    using reportable_le [of "kb_table h"] by (simp add: heal_wf_def MAX_ISSUES_def)
  moreover have "snd (drain_dirty (map cleaned t)) = None" for t
  proof (induction t)
    case (Cons a t)
    then show ?case by (cases a) (auto simp: cleaned_def split: prod.splits)
  qed simp
  ultimately show ?thesis using persist_dirty_ok [of h 9 blk s] by (simp add: dirty_entry_def split: prod.splits) (metis snd_conv)
qed

text \<open>Persisting a counter is safe. When a block holds a record the kernel wrote, updating its
  counters touches no other block and leaves either the old record or the same record with the new
  count (capped at 99999) and escalation flag, readable by the loader; with a device that does not
  fail it is the new one. No partly written record is ever on disk.\<close>
theorem persisted_counters_reload:
  assumes "blk_ok blk disk" "store_ok disk s" "unat b < 2 ^ 31"
    "sane eid" "sane title" "sane playbook" "sane cause" "keyless eid" "keyless title" "keyless cause"
    "digits ds" "length ds = 5" "digits es" "length es = 1"
    "disk (s_dev s) b = kb_doc eid title playbook cause ds es @ pad"
  shows "\<exists>ds' es'. let d = disk (s_dev s); d' = disk (s_dev (persist_one blk s b seen esc)); new = kb_doc eid title playbook cause ds' es'
    in (d' = d \<or> d' = d(b := new @ pad)) \<and> (reads_succeed blk \<and> writes_succeed blk \<longrightarrow> d' = d(b := new @ pad)) \<and>
       length (new @ pad) = length (d b) \<and>
       kb_parse new = Some \<lparr>r_id = eid, r_title = title, r_playbook = playbook, r_match_cause = Some cause,
                            r_seen = word_of_nat (min (unat seen) 99999), r_escalated = esc\<rparr>"
proof -
  let ?d = "disk (s_dev s)" and ?doc = "kb_doc eid title playbook cause"
  obtain ds' es' where u: "length ds' = 5" "length es' = 1"
    "set_seen_in_block (?doc ds es @ pad) seen = (?doc ds' es @ pad, True)"
    "set_escalated_in_block (?doc ds' es @ pad) esc = (?doc ds' es' @ pad, True)"
    "kb_parse (?doc ds' es') = Some \<lparr>r_id = eid, r_title = title, r_playbook = playbook, r_match_cause = Some cause,
        r_seen = word_of_nat (min (unat seen) 99999), r_escalated = esc\<rparr>"
    using counters_updated [OF assms(4-14), of pad seen esc] by auto
  have len: "length (?doc ds' es' @ pad) = length (?d b)" using u(1,2) assms(12,14,15) by (simp add: kb_doc_def)
  have bs: "length (?d b) = BLOCK_SIZE" using assms(1) by (simp add: blk_ok_def)
  obtain s1 r where rd: "fs_read_block blk s b = (s1, r)" by (metis surj_pair)
  note k = fs_read_block_ok [OF assms(1-3) rd]
  obtain s2 ok where wr: "fs_write_block blk s1 b (?doc ds' es' @ pad) = (s2, ok)" by (metis surj_pair)
  have w: "disk (s_dev s2) = (if ok then ?d(b := ?doc ds' es' @ pad) else ?d)"
    using fs_write_block_ok [OF assms(1) conjunct1 [OF k] assms(3) wr] k len bs by simp
  have run: "persist_one blk s b seen esc = (if r = None then s1 else s2)"
    using rd k u(3,4) assms(15) wr by (cases r) (auto simp: persist_one_def)
  have succ: "reads_succeed blk \<and> writes_succeed blk \<Longrightarrow> r \<noteq> None \<and> ok"
    using read_block_succeeds [OF _ assms(3) rd] write_block_succeeds [OF _ assms(3), of blk s1 "?doc ds' es' @ pad"] wr by auto
  have d': "disk (s_dev (persist_one blk s b seen esc)) = (if r \<noteq> None \<and> ok then ?d(b := ?doc ds' es' @ pad) else ?d)"
    using run w k by simp
  show ?thesis
    unfolding Let_def d' using succ len u(5) by (intro exI [of _ ds'] exI [of _ es'] conjI impI) simp_all
qed

text \<open>A record in block 2 of the memory device.\<close>

definition record_disk :: "u32 \<Rightarrow> bytes" where
  "record_disk = empty_volume(2 := kb_doc (lit ''KB-0006'') kb6_title (lit ''Restart the component.'') (lit ''illegal-instruction'')
     (lit ''00000'') (lit ''0''))"

theorem persisted_counters_reload_witness:
  "\<exists>ds' es'. kb_parse (kb_doc (lit ''KB-0006'') kb6_title (lit ''Restart the component.'') (lit ''illegal-instruction'') ds' es') =
       Some \<lparr>r_id = lit ''KB-0006'', r_title = kb6_title, r_playbook = lit ''Restart the component.'',
             r_match_cause = Some (lit ''illegal-instruction''), r_seen = 7, r_escalated = True\<rparr> \<and>
     ram_disk (s_dev (persist_one ram_blk (ram_store\<lparr>s_dev := record_disk\<rparr>) 2 7 True)) 2 =
       kb_doc (lit ''KB-0006'') kb6_title (lit ''Restart the component.'') (lit ''illegal-instruction'') ds' es' @ replicate 334 0"
proof -
  let ?s = "ram_store\<lparr>s_dev := record_disk\<rparr>"
  have st: "store_ok ram_disk ?s"
    using block_number(1) by (auto simp: store_ok_def ram_store_def fs_consts FS_FILEBUF_LEN_def)
  have dg: "digits (lit ''00000'')" "length (lit ''00000'') = 5" "digits (lit ''0'')" "length (lit ''0'') = 1"
    by (simp_all add: digits_def lit_def is_digit_def)
  have blk: "ram_disk (s_dev ?s) 2 = kb_doc (lit ''KB-0006'') kb6_title (lit ''Restart the component.'') (lit ''illegal-instruction'')
     (lit ''00000'') (lit ''0'') @ replicate 334 0"
    by (simp add: ram_disk_def mem_disk_def record_disk_def padded_def fs_consts kb_doc_def kb6_title_def lit_def)
  have b: "unat (2 :: u32) < 2 ^ 31" by simp
  let ?doc = "kb_doc (lit ''KB-0006'') kb6_title (lit ''Restart the component.'') (lit ''illegal-instruction'')"
  let ?d' = "ram_disk (s_dev (persist_one ram_blk ?s 2 7 True))"
  obtain ds' es' where "?d' = (ram_disk (s_dev ?s))(2 := ?doc ds' es' @ replicate 334 0)"
    "kb_parse (?doc ds' es') = Some \<lparr>r_id = lit ''KB-0006'', r_title = kb6_title, r_playbook = lit ''Restart the component.'',
        r_match_cause = Some (lit ''illegal-instruction''), r_seen = word_of_nat (min (unat (7 :: u32)) 99999), r_escalated = True\<rparr>"
    using persisted_counters_reload [OF ram_blk_ok(1) st b kb6_values dg, of "replicate 334 0" 7 True] blk ram_blk_ok(2,3)
    unfolding Let_def by blast
  then show ?thesis by (intro exI [of _ ds'] exI [of _ es']) simp
qed

end
