(* ===== verification/Net.thy ===== *)
theory Net
  imports Rust_Str
begin

text \<open>
  The network frame formats (\<^verbatim>\<open>src/libs/common/src/net.rs\<close>): ARP, the one's-complement checksum,
  IPv4 headers, UDP datagrams and ICMP echo. Frames are byte lists; every slice and index of the
  source is a checked operation of the model, so that "does not panic" is a theorem.
\<close>

section \<open>Checksum\<close>

text \<open>\<open>sum_words\<close> is the loop over 16-bit words with the odd trailing byte; its \<open>u32\<close> additions
  are checked, as in the source's profile.\<close>

fun sum_words :: "u32 \<Rightarrow> bytes \<Rightarrow> u32 result" where
  "sum_words s (a # b # rest) = bindr (add_chk s (ucast (be_word [a, b] :: u16))) (\<lambda>s. sum_words s rest)"
| "sum_words s [a] = add_chk s (push_bit 8 (ucast a))"
| "sum_words s [] = Inr s"

lemma low_high: "unat (s AND 0xffff) = unat s mod 65536" "unat (drop_bit 16 s) = unat s div 65536" for s :: u32
proof -
  have "s AND 0xffff = take_bit 16 s" by (simp add: take_bit_eq_mask mask_eq_exp_minus_1)
  then show "unat (s AND 0xffff) = unat s mod 65536" by (simp add: take_bit_eq_mod unat_mod)
  show "unat (drop_bit 16 s) = unat s div 65536" by (simp add: drop_bit_eq_div unat_div)
qed

lemma fold_step: "unat ((s AND 0xffff) + drop_bit 16 s) = unat s mod 65536 + unat s div 65536" for s :: u32
proof -
  have "unat s < 2 ^ 32" using unsigned_less [of s] by simp
  then have "unat (s AND 0xffff) + unat (drop_bit 16 s) < 2 ^ 32" by (simp add: low_high)
  then show ?thesis using unat_add_fits [of "s AND 0xffff" "drop_bit 16 s"] by (simp add: low_high)
qed

function fold_carry :: "u32 \<Rightarrow> u32" where
  "fold_carry s = (if drop_bit 16 s \<noteq> 0 then fold_carry ((s AND 0xffff) + drop_bit 16 s) else s)"
  by auto
termination
proof (relation "measure unat")
  fix s :: u32 assume "drop_bit 16 s \<noteq> 0"
  then have "0 < unat s div 65536" using low_high(2) [of s] by (metis neq0_conv unat_eq_zero)
  then have "unat s mod 65536 + unat s div 65536 < unat s" using div_mult_mod_eq [of "unat s" 65536] by linarith
  then show "((s AND 0xffff) + drop_bit 16 s, s) \<in> measure unat" using fold_step [of s] by simp
qed simp

declare fold_carry.simps [simp del]

definition checksum :: "bytes \<Rightarrow> u16 result" where
  "checksum bytes = bindr (sum_words 0 bytes) (\<lambda>sum. Inr (NOT (ucast (fold_carry sum))))"

section \<open>ARP\<close>

definition ETH_HDR_LEN :: nat where "ETH_HDR_LEN = 14"
definition ETHERTYPE_ARP :: u16 where "ETHERTYPE_ARP = 0x0806"
definition ARP_FRAME_LEN :: nat where "ARP_FRAME_LEN = 42"
definition ARP_REQUEST :: u16 where "ARP_REQUEST = 1"
definition ARP_REPLY :: u16 where "ARP_REPLY = 2"

definition arp_build_request :: "bytes \<Rightarrow> bytes \<Rightarrow> bytes \<Rightarrow> bytes \<Rightarrow> (bytes \<times> nat) result" where
  "arp_build_request src_mac src_ip target_ip frame =
     bindr (assertr (ARP_FRAME_LEN \<le> length frame) IndexOutOfBounds) (\<lambda>_.
     bindr (put_all frame
       [(0, replicate 6 0xff), (6, src_mac), (12, be_bytes 2 ETHERTYPE_ARP),
        (14, be_bytes 2 (1 :: u16)), (16, be_bytes 2 (0x0800 :: u16)), (18, [6]), (19, [4]),
        (20, be_bytes 2 ARP_REQUEST), (22, src_mac), (28, src_ip), (32, replicate 6 0), (38, target_ip)]) (\<lambda>f.
     Inr (f, ARP_FRAME_LEN)))"

definition be16 :: "bytes \<Rightarrow> u16 result" where
  "be16 b = bindr (idx b 0) (\<lambda>x. bindr (idx b 1) (\<lambda>y. Inr (be_word [x, y])))"

text \<open>The pattern \<open>be16(&b[i..i + 2])\<close>.\<close>

definition be16_at :: "bytes \<Rightarrow> nat \<Rightarrow> u16 result" where
  "be16_at b i = bindr (slice b i (i + 2)) be16"

definition arp_parse_reply :: "bytes \<Rightarrow> bytes \<Rightarrow> bytes option result" where
  "arp_parse_reply frame want_ip =
     (if length frame < ARP_FRAME_LEN then Inr None
      else bindr (be16_at frame 12) (\<lambda>ty.
        if ty \<noteq> ETHERTYPE_ARP then Inr None
        else bindr (be16_at frame 20) (\<lambda>opc.
          if opc \<noteq> ARP_REPLY then Inr None
          else bindr (slice frame 28 32) (\<lambda>ip.
            if ip \<noteq> want_ip then Inr None
            else bindr (slice frame 22 28) (\<lambda>mac. Inr (Some mac))))))"

section \<open>IPv4 and UDP\<close>

definition IPV4_HDR_LEN :: nat where "IPV4_HDR_LEN = 20"
definition PROTO_UDP :: u8 where "PROTO_UDP = 17"
definition ETHERTYPE_IPV4 :: u16 where "ETHERTYPE_IPV4 = 0x0800"

definition build_header :: "bytes \<Rightarrow> bytes \<Rightarrow> u8 \<Rightarrow> nat \<Rightarrow> u16 \<Rightarrow> bytes \<Rightarrow> (bytes \<times> nat) result" where
  "build_header src_ip dst_ip proto payload_len ident out =
     bindr (assertr (IPV4_HDR_LEN \<le> length out) IndexOutOfBounds) (\<lambda>_.
     let total = word_of_nat (IPV4_HDR_LEN + payload_len) :: u16
     in bindr (put_all out
          [(0, [0x45]), (1, [0]), (2, be_bytes 2 total), (4, be_bytes 2 ident), (6, be_bytes 2 (0 :: u16)), (8, [64]),
           (9, [proto]), (10, be_bytes 2 (0 :: u16)), (12, src_ip), (16, dst_ip)]) (\<lambda>out.
        bindr (slice out 0 IPV4_HDR_LEN) (\<lambda>h.
        bindr (checksum h) (\<lambda>csum.
        bindr (put_at out 10 (be_bytes 2 csum)) (\<lambda>out. Inr (out, IPV4_HDR_LEN))))))"

text \<open>Calling \<open>build_header\<close> on the sub-slice of a frame after its Ethernet header.\<close>

definition header_at :: "bytes \<Rightarrow> bytes \<Rightarrow> u8 \<Rightarrow> nat \<Rightarrow> u16 \<Rightarrow> bytes \<Rightarrow> bytes result" where
  "header_at src_ip dst_ip proto payload_len ident frame =
     bindr (slice frame ETH_HDR_LEN (ETH_HDR_LEN + IPV4_HDR_LEN)) (\<lambda>h.
     bindr (build_header src_ip dst_ip proto payload_len ident h) (\<lambda>(h, _). put_at frame ETH_HDR_LEN h))"

definition UDP_HDR_LEN :: nat where "UDP_HDR_LEN = 8"

definition udp_build ::
  "bytes \<Rightarrow> bytes \<Rightarrow> bytes \<Rightarrow> bytes \<Rightarrow> u16 \<Rightarrow> u16 \<Rightarrow> u16 \<Rightarrow> bytes \<Rightarrow> bytes \<Rightarrow> (bytes \<times> nat) result" where
  "udp_build src_mac dst_mac src_ip dst_ip src_port dst_port ident payload frame =
     bindr (put_all frame [(0, dst_mac), (6, src_mac), (12, be_bytes 2 ETHERTYPE_IPV4)]) (\<lambda>frame.
     let udp_len = UDP_HDR_LEN + length payload;
         u = ETH_HDR_LEN + IPV4_HDR_LEN
     in bindr (header_at src_ip dst_ip PROTO_UDP udp_len ident frame) (\<lambda>frame.
        bindr (put_all frame
          [(u, be_bytes 2 src_port), (u + 2, be_bytes 2 dst_port), (u + 4, be_bytes 2 (word_of_nat udp_len :: u16)),
           (u + 6, be_bytes 2 (0 :: u16)), (u + 8, payload)]) (\<lambda>frame.
        Inr (frame, u + 8 + length payload))))"

definition udp_parse :: "bytes \<Rightarrow> u16 \<Rightarrow> bytes option result" where
  "udp_parse frame want_dst_port =
     (let eth = ETH_HDR_LEN
      in if length frame < eth + IPV4_HDR_LEN + UDP_HDR_LEN then Inr None
         else bindr (be16_at frame 12) (\<lambda>ty.
           if ty \<noteq> ETHERTYPE_IPV4 then Inr None
           else bindr (idx frame eth) (\<lambda>vihl.
             let ihl = unat (vihl AND 0x0f) * 4
             in if ihl < IPV4_HDR_LEN \<or> length frame < eth + ihl + UDP_HDR_LEN then Inr None
                else bindr (idx frame (eth + 9)) (\<lambda>proto.
                  if proto \<noteq> PROTO_UDP then Inr None
                  else let u = eth + ihl
                       in bindr (be16_at frame (u + 2)) (\<lambda>port.
                          if port \<noteq> want_dst_port then Inr None
                          else bindr (be16_at frame (u + 4)) (\<lambda>len16.
                            let ulen = unat len16
                            in if ulen < UDP_HDR_LEN \<or> u + ulen > length frame then Inr None
                               else bindr (slice frame (u + UDP_HDR_LEN) (u + ulen)) (\<lambda>p. Inr (Some p))))))))"

section \<open>ICMP echo\<close>

definition PROTO_ICMP :: u8 where "PROTO_ICMP = 1"
definition ICMP_ECHO_REQUEST :: u8 where "ICMP_ECHO_REQUEST = 8"
definition ICMP_ECHO_REPLY :: u8 where "ICMP_ECHO_REPLY = 0"
definition ICMP_HDR_LEN :: nat where "ICMP_HDR_LEN = 8"

definition build_echo_request ::
  "bytes \<Rightarrow> bytes \<Rightarrow> bytes \<Rightarrow> bytes \<Rightarrow> u16 \<Rightarrow> u16 \<Rightarrow> bytes \<Rightarrow> bytes \<Rightarrow> (bytes \<times> nat) result" where
  "build_echo_request src_mac dst_mac src_ip dst_ip ident seq payload frame =
     bindr (put_all frame [(0, dst_mac), (6, src_mac), (12, be_bytes 2 ETHERTYPE_IPV4)]) (\<lambda>frame.
     let icmp_len = ICMP_HDR_LEN + length payload;
         c = ETH_HDR_LEN + IPV4_HDR_LEN
     in bindr (header_at src_ip dst_ip PROTO_ICMP icmp_len ident frame) (\<lambda>frame.
        bindr (put_all frame
          [(c, [ICMP_ECHO_REQUEST]), (c + 1, [0]), (c + 2, be_bytes 2 (0 :: u16)), (c + 4, be_bytes 2 ident),
           (c + 6, be_bytes 2 seq), (c + 8, payload)]) (\<lambda>frame.
        bindr (slice frame c (c + icmp_len)) (\<lambda>msg.
        bindr (checksum msg) (\<lambda>csum.
        bindr (put_at frame (c + 2) (be_bytes 2 csum)) (\<lambda>frame.
        Inr (frame, c + icmp_len)))))))"

definition parse_echo_reply :: "bytes \<Rightarrow> u16 \<Rightarrow> u16 \<Rightarrow> bool result" where
  "parse_echo_reply frame ident seq =
     (let eth = ETH_HDR_LEN
      in if length frame < eth + IPV4_HDR_LEN + ICMP_HDR_LEN then Inr False
         else bindr (be16_at frame 12) (\<lambda>ty.
           if ty \<noteq> ETHERTYPE_IPV4 then Inr False
           else bindr (idx frame eth) (\<lambda>vihl.
             let ihl = unat (vihl AND 0x0f) * 4
             in if ihl < IPV4_HDR_LEN \<or> length frame < eth + ihl + ICMP_HDR_LEN then Inr False
                else bindr (idx frame (eth + 9)) (\<lambda>proto.
                  if proto \<noteq> PROTO_ICMP then Inr False
                  else let c = eth + ihl
                       in bindr (idx frame c) (\<lambda>ty.
                          if ty \<noteq> ICMP_ECHO_REPLY then Inr False
                          else bindr (be16_at frame (c + 4)) (\<lambda>i.
                            if i \<noteq> ident then Inr False
                            else bindr (be16_at frame (c + 6)) (\<lambda>n. Inr (n = seq))))))))"

definition is_echo_request :: "bytes \<Rightarrow> bytes \<Rightarrow> bool result" where
  "is_echo_request frame our_ip =
     (let eth = ETH_HDR_LEN
      in if length frame < eth + IPV4_HDR_LEN + ICMP_HDR_LEN then Inr False
         else bindr (be16_at frame 12) (\<lambda>ty.
           if ty \<noteq> ETHERTYPE_IPV4 then Inr False
           else bindr (idx frame eth) (\<lambda>vihl.
             let ihl = unat (vihl AND 0x0f) * 4
             in if ihl < IPV4_HDR_LEN \<or> length frame < eth + ihl + ICMP_HDR_LEN then Inr False
                else bindr (idx frame (eth + 9)) (\<lambda>proto.
                  if proto \<noteq> PROTO_ICMP then Inr False
                  else bindr (slice frame (eth + 16) (eth + 20)) (\<lambda>dst.
                    if dst \<noteq> our_ip then Inr False
                    else bindr (idx frame (eth + ihl)) (\<lambda>ty. Inr (ty = ICMP_ECHO_REQUEST)))))))"

definition build_echo_reply :: "bytes \<Rightarrow> bytes \<Rightarrow> (bytes \<times> nat option) result" where
  "build_echo_reply request out =
     (let eth = ETH_HDR_LEN
      in if length request < eth + IPV4_HDR_LEN + ICMP_HDR_LEN then Inr (out, None)
         else bindr (be16_at request 12) (\<lambda>ty.
           if ty \<noteq> ETHERTYPE_IPV4 then Inr (out, None)
           else bindr (idx request (eth + 9)) (\<lambda>proto.
             if proto \<noteq> PROTO_ICMP then Inr (out, None)
             else bindr (idx request eth) (\<lambda>vihl.
               let ihl = unat (vihl AND 0x0f) * 4
               in if ihl < IPV4_HDR_LEN \<or> length request < eth + ihl + ICMP_HDR_LEN then Inr (out, None)
                  else
                    bindr (slice request 6 12) (\<lambda>peer_mac.
                    bindr (slice request 0 6) (\<lambda>our_mac.
                    bindr (put_all out [(0, peer_mac), (6, our_mac), (12, be_bytes 2 ETHERTYPE_IPV4)]) (\<lambda>out.
                    bindr (slice request (eth + 16) (eth + 20)) (\<lambda>src_ip.
                    bindr (slice request (eth + 12) (eth + 16)) (\<lambda>dst_ip.
                    let icmp_len = length request - eth - ihl;
                        c = eth + IPV4_HDR_LEN;
                        rc = eth + ihl
                    in bindr (header_at src_ip dst_ip PROTO_ICMP icmp_len 0 out) (\<lambda>out.
                       bindr (slice request rc (rc + icmp_len)) (\<lambda>msg.
                       bindr (put_all out [(c, msg), (c, [ICMP_ECHO_REPLY]), (c + 1, [0]), (c + 2, be_bytes 2 (0 :: u16))]) (\<lambda>out.
                       bindr (slice out c (c + icmp_len)) (\<lambda>msg.
                       bindr (checksum msg) (\<lambda>csum.
                       bindr (put_at out (c + 2) (be_bytes 2 csum)) (\<lambda>out.
                       Inr (out, Some (c + icmp_len)))))))))))))))))"

lemmas net_consts = ETH_HDR_LEN_def ETHERTYPE_ARP_def ARP_FRAME_LEN_def ARP_REQUEST_def ARP_REPLY_def IPV4_HDR_LEN_def
  PROTO_UDP_def ETHERTYPE_IPV4_def UDP_HDR_LEN_def PROTO_ICMP_def ICMP_ECHO_REQUEST_def ICMP_ECHO_REPLY_def ICMP_HDR_LEN_def

section \<open>The checksum against its reference\<close>

text \<open>The reference: the one's-complement sum of the big-endian 16-bit words, over the naturals.\<close>

fun word_sum :: "bytes \<Rightarrow> nat" where
  "word_sum (a # b # rest) = unat a * 256 + unat b + word_sum rest"
| "word_sum [a] = unat a * 256"
| "word_sum [] = 0"

definition ones_sum :: "nat \<Rightarrow> nat" where
  "ones_sum n = (if n = 0 then 0 else (n - 1) mod 65535 + 1)"

lemma ones_sum_small: "n < 65536 \<Longrightarrow> ones_sum n = n"
  by (simp add: ones_sum_def)

lemma ones_sum_le: "ones_sum n \<le> 65535"
  using mod_less_divisor [of 65535 "n - 1"] by (simp add: ones_sum_def Suc_le_eq)

lemma ones_sum_mod: "ones_sum n mod 65535 = n mod 65535"
  by (simp add: ones_sum_def mod_simps)

lemma ones_sum_zero: "ones_sum n = 0 \<longleftrightarrow> n = 0"
  by (simp add: ones_sum_def)

lemma ones_sum_cong: "0 < a \<Longrightarrow> 0 < b \<Longrightarrow> a mod 65535 = b mod 65535 \<Longrightarrow> ones_sum a = ones_sum b"
  using ones_sum_mod [of a] ones_sum_mod [of b] ones_sum_le [of a] ones_sum_le [of b] ones_sum_zero [of a] ones_sum_zero [of b]
  by (cases "ones_sum a = 65535"; cases "ones_sum b = 65535") auto

lemma ones_sum_full: "ones_sum n = 65535 \<longleftrightarrow> 0 < n \<and> n mod 65535 = 0"
  using ones_sum_mod [of n] ones_sum_le [of n] ones_sum_zero [of n] by (cases "ones_sum n = 65535") auto

lemma unat_fold_carry: "unat (fold_carry s) = ones_sum (unat s)"
proof (induction s rule: fold_carry.induct)
  case (1 s)
  show ?case
  proof (cases "drop_bit 16 s = 0")
    case True
    then have "unat s < 65536" using low_high(2) [of s] by (simp add: div_eq_0_iff)
    then show ?thesis using True by (simp add: fold_carry.simps ones_sum_small)
  next
    case False
    let ?t = "(s AND 0xffff) + drop_bit 16 s"
    have pos: "0 < unat s div 65536" using False low_high(2) [of s] by (metis neq0_conv unat_eq_zero)
    have "unat s = unat s mod 65536 + unat s div 65536 + 65535 * (unat s div 65536)"
      using div_mult_mod_eq [of "unat s" 65536] by linarith
    then have "unat ?t mod 65535 = unat s mod 65535" unfolding fold_step by (metis mod_mult_self2)
    moreover have "0 < unat ?t" "0 < unat s" using pos by (auto simp: fold_step intro: gr0I)
    ultimately have "ones_sum (unat ?t) = ones_sum (unat s)" by (intro ones_sum_cong)
    then show ?thesis using 1 False by (simp add: fold_carry.simps [of s])
  qed
qed

lemma unat_be16: "unat (be_word [a, b] :: u16) = unat a * 256 + unat b"
proof -
  let ?w = "be_word [a, b] :: u16"
  have "le_bytes 2 ?w = [b, a]" using le_bytes_le_word [of "[b, a]", where ?'a = 16] by (simp add: be_word_def numeral_2_eq_2)
  then have "b = ucast ?w" "a = ucast (drop_bit 8 ?w)" by (simp_all add: numeral_2_eq_2)
  then have "unat b = unat (ucast ?w :: u8)" "unat a = unat (ucast (drop_bit 8 ?w) :: u8)" by simp_all
  then have "unat b = unat ?w mod 256" "unat a = unat ?w div 256 mod 256"
    by (simp_all add: unsigned_ucast_eq take_bit_eq_mod drop_bit_eq_div unat_div)
  moreover have "unat ?w div 256 < 256" using unsigned_less [of ?w, where ?'a = nat] by (simp add: less_mult_imp_div_less)
  ultimately show ?thesis using div_mult_mod_eq [of "unat ?w" 256] by simp
qed

lemma unat_ucast_up: "LENGTH('a) \<le> LENGTH('b) \<Longrightarrow> unat (ucast x :: 'b::len word) = unat x" for x :: "'a::len word"
proof -
  assume "LENGTH('a) \<le> LENGTH('b)"
  then have "(2 :: nat) ^ LENGTH('a) \<le> 2 ^ LENGTH('b)" by (intro power_increasing) simp_all
  then have "unat x < 2 ^ LENGTH('b)" using unsigned_less [of x, where ?'a = nat] by linarith
  then show ?thesis by (simp add: unsigned_ucast_eq take_bit_nat_eq_self)
qed

lemma unat_high_byte: "unat (push_bit 8 (ucast a) :: u32) = unat a * 256" for a :: u8
proof -
  have "unat a < 256" using unsigned_less [of a, where ?'a = nat] by simp
  then show ?thesis by (simp add: push_bit_eq_mult unat_word_ariths unat_ucast_up)
qed

lemma word_sum_le: "word_sum bs \<le> 65535 * ((length bs + 1) div 2)"
proof (induction bs rule: word_sum.induct)
  case (1 a b rest)
  have "unat a \<le> 255" "unat b \<le> 255"
    using unsigned_less [of a, where ?'a = nat] unsigned_less [of b, where ?'a = nat] by simp_all
  then show ?case using 1 by simp
next
  case (2 a)
  then show ?case using unsigned_less [of a, where ?'a = nat] by simp
qed simp

lemma sum_words_ok:
  "unat s + word_sum bs < 2 ^ 32 \<Longrightarrow> \<exists>t. sum_words s bs = Inr t \<and> unat t = unat s + word_sum bs"
proof (induction s bs rule: sum_words.induct)
  case (1 s a b rest)
  let ?w = "ucast (be_word [a, b] :: u16) :: u32"
  have w: "unat ?w = unat a * 256 + unat b" by (simp add: unat_ucast_up unat_be16)
  then have fits: "unat s + unat ?w < 2 ^ 32" using 1(2) by simp
  then have "unat (s + ?w) = unat s + unat ?w" using unat_add_fits [of s ?w] by simp
  then have "unat (s + ?w) + word_sum rest < 2 ^ 32" "unat (s + ?w) + word_sum rest = unat s + word_sum (a # b # rest)"
    using 1(2) w by simp_all
  then show ?case using 1(1) [of "s + ?w"] fits by (simp add: add_chk_def add.assoc)
next
  case (2 s a)
  then show ?case using unat_add_fits [of s "push_bit 8 (ucast a)"] by (simp add: add_chk_def unat_high_byte del: push_bit_eq_mult)
qed simp

lemma unat_not16: "unat (NOT w) = 65535 - unat w" for w :: u16
proof -
  have "NOT w = - 1 - w" by (simp add: not_eq_complement)
  then show ?thesis by (simp add: unat_sub unsigned_minus_1_eq_mask mask_eq_exp_minus_1)
qed

lemma checksum_ok:
  assumes "length bs \<le> 131072"
  shows "\<exists>c. checksum bs = Inr c \<and> unat c = 65535 - ones_sum (word_sum bs)"
proof -
  have "word_sum bs \<le> 65535 * 65536"
  proof -
    have "(length bs + 1) div 2 \<le> 65536" using assms by simp
    then show ?thesis using word_sum_le [of bs] by (meson le_trans mult_le_mono2)
  qed
  then obtain t where t: "sum_words 0 bs = Inr t" "unat t = word_sum bs" using sum_words_ok [of 0 bs] by auto
  have "unat (ucast (fold_carry t) :: u16) = ones_sum (word_sum bs)"
    using ones_sum_le [of "word_sum bs"] t(2) by (simp add: unsigned_ucast_eq unat_fold_carry take_bit_nat_eq_self)
  then show ?thesis using t(1) by (simp add: checksum_def unat_not16)
qed

lemma checksum_zero_iff:
  assumes "length bs \<le> 131072"
  shows "checksum bs = Inr 0 \<longleftrightarrow> 0 < word_sum bs \<and> word_sum bs mod 65535 = 0"
proof -
  obtain c where c: "checksum bs = Inr c" "unat c = 65535 - ones_sum (word_sum bs)" using checksum_ok [OF assms] by blast
  have "c = 0 \<longleftrightarrow> ones_sum (word_sum bs) = 65535"
    using c(2) ones_sum_le [of "word_sum bs"] by (metis diff_diff_cancel diff_self_eq_0 diff_zero unat_eq_zero)
  then show ?thesis using c(1) ones_sum_full by simp
qed

lemma word_sum_append: "even (length xs) \<Longrightarrow> word_sum (xs @ ys) = word_sum xs + word_sum ys"
  by (induction xs rule: word_sum.induct) auto

lemma word_sum_be: "word_sum (be_bytes 2 c @ ys) = unat c + word_sum ys" for c :: u16
proof -
  obtain a b where ab: "be_bytes 2 c = [a, b]" by (simp add: be_bytes_def numeral_2_eq_2)
  moreover have "be_word (be_bytes 2 c) = c" by simp
  ultimately have "unat c = unat a * 256 + unat b" using unat_be16 [of a b] by simp
  then show ?thesis using ab by simp
qed

text \<open>Filling the checksum of a message into its zeroed field makes the message verify.\<close>

lemma checksum_filled:
  assumes "even (length pre)" "length pre + 2 + length post \<le> 131072" "checksum (pre @ be_bytes 2 (0 :: u16) @ post) = Inr c"
  shows "checksum (pre @ be_bytes 2 c @ post) = Inr 0"
proof -
  let ?S = "word_sum (pre @ be_bytes 2 (0 :: u16) @ post)" and ?T = "word_sum (pre @ be_bytes 2 c @ post)"
  have c: "unat c = 65535 - ones_sum ?S" using checksum_ok [of "pre @ be_bytes 2 (0 :: u16) @ post"] assms(2,3) by auto
  have T: "?T = ?S + unat c" using assms(1) by (simp add: word_sum_append word_sum_be)
  have le: "ones_sum ?S \<le> ?S" by (cases "?S = 0") (simp_all add: ones_sum_def Suc_le_eq le_less_trans [OF mod_less_eq_dividend])
  have "65535 dvd ?S - ones_sum ?S" using mod_eq_dvd_iff_nat [OF le, of 65535] ones_sum_mod [of ?S] by simp
  moreover have "?T = (?S - ones_sum ?S) + 65535" using T c le ones_sum_le [of ?S] by linarith
  ultimately have "?T mod 65535 = 0" by simp
  moreover have "0 < ?T" using T c ones_sum_le [of ?S] ones_sum_zero [of ?S] by (cases "?S = 0") auto
  ultimately show ?thesis using assms(2) by (subst checksum_zero_iff) simp_all
qed

lemma word_sum_update:
  "i < length bs \<Longrightarrow> word_sum (bs[i := b]) + unat (bs ! i) * (if even i then 256 else 1) =
     word_sum bs + unat b * (if even i then 256 else 1)"
proof (induction bs arbitrary: i rule: word_sum.induct)
  case (1 x y rest)
  consider "i = 0" | "i = 1" | j where "i = Suc (Suc j)" by (metis One_nat_def nat.exhaust)
  then show ?case using 1 by cases auto
qed auto

section \<open>Received frames\<close>

lemma be16_at_ok: "i + 2 \<le> length b \<Longrightarrow> be16_at b i = Inr (be_word (field i 2 b))"
proof -
  assume l: "i + 2 \<le> length b"
  then have "field i 2 b = [b ! i, b ! (i + 1)]"
    by (intro nth_equalityI) (auto simp: nth_field less_2_cases_iff)
  then show ?thesis unfolding be16_at_def slice_field [OF l] by (simp add: be16_def idx_def)
qed

lemma holds_be16_at [wp]: "holds (be16_at b i) P \<longleftrightarrow> i + 2 \<le> length b \<and> P (be_word (field i 2 b))"
  by (cases "i + 2 \<le> length b") (auto simp: be16_at_ok, simp add: be16_at_def slice_def)

lemma arp_parse_reply_returns: "returns (arp_parse_reply f ip)"
  by (rule returnsI [where P = "\<lambda>_. True"]) (simp add: arp_parse_reply_def wp net_consts)

lemma udp_parse_returns: "returns (udp_parse f port)"
  by (rule returnsI [where P = "\<lambda>_. True"]) (auto simp: udp_parse_def wp net_consts Let_def)

lemma parse_echo_reply_returns: "returns (parse_echo_reply f i n)"
  by (rule returnsI [where P = "\<lambda>_. True"]) (auto simp: parse_echo_reply_def wp net_consts Let_def)

lemma is_echo_request_returns: "returns (is_echo_request f ip)"
  by (rule returnsI [where P = "\<lambda>_. True"]) (auto simp: is_echo_request_def wp net_consts Let_def)

section \<open>Frames the builders write\<close>

lemma overlay_inside:
  "length a = length a' \<Longrightarrow> off + length (pre @ a @ post) \<le> length xs \<Longrightarrow> k = off + length pre \<Longrightarrow>
     overlay (overlay xs off (pre @ a @ post)) k a' = overlay xs off (pre @ a' @ post)"
  by (simp add: overlay_def)

lemma slice_overlay: "off + length src \<le> length xs \<Longrightarrow> n = off + length src \<Longrightarrow> slice (overlay xs off src) off n = Inr src"
  by (simp add: slice_def overlay_def)

definition ip_header :: "bytes \<Rightarrow> bytes \<Rightarrow> u8 \<Rightarrow> nat \<Rightarrow> u16 \<Rightarrow> u16 \<Rightarrow> bytes" where
  "ip_header src_ip dst_ip proto n ident csum =
     ([0x45, 0] @ be_bytes 2 (word_of_nat (20 + n) :: u16) @ be_bytes 2 ident @ be_bytes 2 (0 :: u16) @ [64, proto]) @
     be_bytes 2 csum @ src_ip @ dst_ip"

lemma length_ip_header [simp]: "length src_ip = 4 \<Longrightarrow> length dst_ip = 4 \<Longrightarrow> length (ip_header src_ip dst_ip proto n ident csum) = 20"
  by (simp add: ip_header_def)

lemma build_header_ok:
  assumes "length src_ip = 4" "length dst_ip = 4" "20 \<le> length out"
  shows "\<exists>c. build_header src_ip dst_ip proto n ident out = Inr (overlay out 0 (ip_header src_ip dst_ip proto n ident c), 20) \<and>
    checksum (ip_header src_ip dst_ip proto n ident c) = Inr 0"
proof -
  let ?pre = "[0x45, 0] @ be_bytes 2 (word_of_nat (20 + n) :: u16) @ be_bytes 2 ident @ be_bytes 2 (0 :: u16) @ [64, proto]"
  let ?z = "ip_header src_ip dst_ip proto n ident 0"
  have lz: "length ?z = 20" using assms by simp
  obtain c where c: "checksum ?z = Inr c" using checksum_ok [of ?z] lz by auto
  let ?ws = "[(0, [0x45]), (1, [0]), (2, be_bytes 2 (word_of_nat (20 + n) :: u16)), (4, be_bytes 2 ident), (6, be_bytes 2 (0 :: u16)), (8, [64]),
           (9, [proto]), (10, be_bytes 2 (0 :: u16)), (12, src_ip), (16, dst_ip)]"
  have cat: "concat (map snd ?ws) = ?z" by (simp add: ip_header_def)
  have put: "put_all out ?ws = Inr (overlay out 0 ?z)"
    using put_all_tiled [of 0 ?ws out] assms lz unfolding cat by (simp del: put_all.simps)
  have fill: "put_at (overlay out 0 ?z) 10 (be_bytes 2 c) = Inr (overlay out 0 (ip_header src_ip dst_ip proto n ident c))"
  proof -
    have "overlay (overlay out 0 ?z) 10 (be_bytes 2 c) = overlay out 0 (ip_header src_ip dst_ip proto n ident c)"
      unfolding ip_header_def by (rule overlay_inside) (use assms in simp_all)
    then show ?thesis using assms lz by (simp add: put_at_fits)
  qed
  have sl: "slice (overlay out 0 ?z) 0 20 = Inr ?z" by (rule slice_overlay) (use assms lz in simp_all)
  have "checksum (ip_header src_ip dst_ip proto n ident c) = Inr 0"
    unfolding ip_header_def by (rule checksum_filled) (use c assms in \<open>simp_all add: ip_header_def\<close>)
  moreover have "build_header src_ip dst_ip proto n ident out = Inr (overlay out 0 (ip_header src_ip dst_ip proto n ident c), 20)"
    using assms(3) put sl c fill by (simp add: build_header_def IPV4_HDR_LEN_def assertr_def del: put_all.simps)
  ultimately show ?thesis by blast
qed

lemma header_at_ok:
  assumes "length src_ip = 4" "length dst_ip = 4" "34 \<le> length frame"
  shows "\<exists>c. header_at src_ip dst_ip proto n ident frame = Inr (overlay frame 14 (ip_header src_ip dst_ip proto n ident c)) \<and>
    checksum (ip_header src_ip dst_ip proto n ident c) = Inr 0"
proof -
  let ?h = "field 14 20 frame"
  have h: "slice frame 14 34 = Inr ?h" "length ?h = 20" using assms(3) slice_field [of 14 20 frame] by simp_all
  obtain c where c: "build_header src_ip dst_ip proto n ident ?h = Inr (overlay ?h 0 (ip_header src_ip dst_ip proto n ident c), 20)"
    "checksum (ip_header src_ip dst_ip proto n ident c) = Inr 0"
    using build_header_ok [OF assms(1,2), of ?h proto n ident] h(2) by auto
  have "overlay ?h 0 (ip_header src_ip dst_ip proto n ident c) = ip_header src_ip dst_ip proto n ident c"
    using h(2) assms(1,2) by (simp add: overlay_def)
  then show ?thesis using c h assms by (auto simp: header_at_def net_consts put_at_fits)
qed

text \<open>The frames as byte strings.\<close>

definition eth_header :: "bytes \<Rightarrow> bytes \<Rightarrow> bytes" where
  "eth_header dst_mac src_mac = dst_mac @ src_mac @ be_bytes 2 ETHERTYPE_IPV4"

definition udp_frame :: "bytes \<Rightarrow> bytes \<Rightarrow> bytes \<Rightarrow> u16 \<Rightarrow> u16 \<Rightarrow> bytes \<Rightarrow> bytes" where
  "udp_frame dst_mac src_mac header src_port dst_port payload =
     eth_header dst_mac src_mac @ header @ be_bytes 2 src_port @ be_bytes 2 dst_port @
     be_bytes 2 (word_of_nat (8 + length payload) :: u16) @ be_bytes 2 (0 :: u16) @ payload"

lemma eth_put:
  assumes "length dst_mac = 6" "length src_mac = 6" "14 \<le> length frame"
  shows "put_all frame [(0, dst_mac), (6, src_mac), (12, be_bytes 2 ETHERTYPE_IPV4)] = Inr (overlay frame 0 (eth_header dst_mac src_mac))"
  using put_all_tiled [of 0 "[(0, dst_mac), (6, src_mac), (12, be_bytes 2 ETHERTYPE_IPV4)]" frame] assms
  by (simp add: eth_header_def del: put_all.simps)

lemma length_eth_header [simp]: "length dst_mac = 6 \<Longrightarrow> length src_mac = 6 \<Longrightarrow> length (eth_header dst_mac src_mac) = 14"
  by (simp add: eth_header_def)

lemma overlay_next: "length a = k \<Longrightarrow> k + length b \<le> length xs \<Longrightarrow> overlay (overlay xs 0 a) k b = overlay xs 0 (a @ b)"
  using overlay_overlay [of 0 a b xs] by simp

lemma put_all_next:
  "length a = k \<Longrightarrow> tiled k ws \<Longrightarrow> k + length (concat (map snd ws)) \<le> length xs \<Longrightarrow>
     put_all (overlay xs 0 a) ws = Inr (overlay xs 0 (a @ concat (map snd ws)))"
  using put_all_tiled [of k ws "overlay xs 0 a"] overlay_next [of a k "concat (map snd ws)" xs] by (simp add: overlay_def)

lemma udp_build_ok:
  assumes "length src_mac = 6" "length dst_mac = 6" "length src_ip = 4" "length dst_ip = 4" "42 + length payload \<le> length frame"
  shows "\<exists>h. udp_build src_mac dst_mac src_ip dst_ip src_port dst_port ident payload frame =
      Inr (overlay frame 0 (udp_frame dst_mac src_mac h src_port dst_port payload), 42 + length payload) \<and>
    (\<exists>c. h = ip_header src_ip dst_ip PROTO_UDP (8 + length payload) ident c) \<and> checksum h = Inr 0"
proof -
  let ?n = "8 + length payload" and ?e = "eth_header dst_mac src_mac"
  let ?f1 = "overlay frame 0 ?e"
  have l1: "length ?f1 = length frame" using assms by simp
  obtain c where c: "header_at src_ip dst_ip PROTO_UDP ?n ident ?f1 = Inr (overlay ?f1 14 (ip_header src_ip dst_ip PROTO_UDP ?n ident c))"
    "checksum (ip_header src_ip dst_ip PROTO_UDP ?n ident c) = Inr 0"
    using header_at_ok [OF assms(3,4), of ?f1 PROTO_UDP ?n ident] l1 assms(5) by auto
  let ?h = "ip_header src_ip dst_ip PROTO_UDP ?n ident c"
  let ?f2 = "overlay frame 0 (?e @ ?h)"
  have f2: "overlay ?f1 14 ?h = ?f2" by (rule overlay_next) (use assms in simp_all)
  let ?ws = "[(34 :: nat, be_bytes 2 src_port), (36, be_bytes 2 dst_port), (38, be_bytes 2 (word_of_nat ?n :: u16)), (40, be_bytes 2 (0 :: u16)), (42, payload)]"
  have "put_all ?f2 ?ws = Inr (overlay frame 0 ((?e @ ?h) @ concat (map snd ?ws)))"
    by (rule put_all_next) (use assms in auto)
  then have "put_all ?f2 ?ws = Inr (overlay frame 0 (udp_frame dst_mac src_mac ?h src_port dst_port payload))"
    by (simp add: udp_frame_def del: put_all.simps)
  then have "udp_build src_mac dst_mac src_ip dst_ip src_port dst_port ident payload frame =
      Inr (overlay frame 0 (udp_frame dst_mac src_mac ?h src_port dst_port payload), 42 + length payload)"
    using eth_put [OF assms(2,1)] assms(5) c(1) f2 by (simp add: udp_build_def net_consts Let_def del: put_all.simps)
  then show ?thesis using c(2) by blast
qed

lemma take_overlay_0: "n = length src \<Longrightarrow> n \<le> length xs \<Longrightarrow> take n (overlay xs 0 src) = src"
  by (simp add: overlay_def)

text \<open>Reading back a field of a frame given as a concatenation.\<close>

lemma field_skip: "length a \<le> k \<Longrightarrow> field k n (a @ b) = field (k - length a) n b"
  by (simp add: field_def)

lemma field_here: "length a = n \<Longrightarrow> field 0 n (a @ b) = a"
  by (simp add: field_def)

lemma nth_skip: "length a \<le> k \<Longrightarrow> (a @ b) ! k = b ! (k - length a)"
  by (simp add: nth_append)

lemma udp_parse_frame:
  assumes "length dst_mac = 6" "length src_mac = 6" "length src_ip = 4" "length dst_ip = 4" "8 + length payload < 65536"
    "h = ip_header src_ip dst_ip PROTO_UDP (8 + length payload) ident c"
  shows "udp_parse (udp_frame dst_mac src_mac h src_port dst_port payload) port =
    Inr (if port = dst_port then Some payload else None)"
proof -
  define f where "f = udp_frame dst_mac src_mac h src_port dst_port payload"
  have lh: "length h = 20" using assms by simp
  have lf: "length f = 42 + length payload" using assms lh by (simp add: f_def udp_frame_def)
  have "field 12 2 f = be_bytes 2 ETHERTYPE_IPV4"
    using assms by (simp add: f_def udp_frame_def eth_header_def field_skip field_here)
  moreover have "field 36 2 f = be_bytes 2 dst_port" "field 38 2 f = be_bytes 2 (word_of_nat (8 + length payload) :: u16)"
    "drop 42 f = payload"
    using assms(1-4) lh by (simp_all add: f_def udp_frame_def field_skip field_here)
  moreover have "f ! 14 = 0x45" "f ! 23 = PROTO_UDP"
    using assms by (simp_all add: f_def udp_frame_def nth_skip ip_header_def nth_append)
  moreover have "unat (word_of_nat (8 + length payload) :: u16) = 8 + length payload"
    using assms(5) by (simp add: unat_of_nat take_bit_nat_eq_self del: of_nat_add)
  ultimately show ?thesis
    using lf unfolding f_def [symmetric] by (simp add: udp_parse_def net_consts Let_def be16_at_ok idx_def slice_def)
qed

section \<open>Echo frames\<close>

definition echo_msg :: "u8 \<Rightarrow> u16 \<Rightarrow> bytes \<Rightarrow> bytes" where
  "echo_msg ty csum rest = [ty, 0] @ be_bytes 2 csum @ rest"

lemma length_echo_msg [simp]: "length (echo_msg ty csum rest) = 4 + length rest"
  by (simp add: echo_msg_def)

lemma echo_msg_filled:
  "length rest + 4 \<le> 131072 \<Longrightarrow> checksum (echo_msg ty 0 rest) = Inr c \<Longrightarrow> checksum (echo_msg ty c rest) = Inr 0"
  unfolding echo_msg_def by (rule checksum_filled) simp_all

text \<open>Writing the checksum of the message that ends a frame.\<close>

lemma fill_echo:
  assumes "length a = 34" "length rest + 4 \<le> 131072" "38 + length rest \<le> length xs"
  shows "\<exists>c. slice (overlay xs 0 (a @ echo_msg ty 0 rest)) 34 (38 + length rest) = Inr (echo_msg ty 0 rest) \<and>
    checksum (echo_msg ty 0 rest) = Inr c \<and>
    put_at (overlay xs 0 (a @ echo_msg ty 0 rest)) 36 (be_bytes 2 c) = Inr (overlay xs 0 (a @ echo_msg ty c rest)) \<and>
    checksum (echo_msg ty c rest) = Inr 0"
proof -
  obtain c where c: "checksum (echo_msg ty 0 rest) = Inr c" using checksum_ok [of "echo_msg ty 0 rest"] assms(2) by auto
  have "slice (overlay xs 0 (a @ echo_msg ty 0 rest)) 34 (38 + length rest) = Inr (echo_msg ty 0 rest)"
    using assms by (simp add: slice_def overlay_def)
  moreover have "overlay (overlay xs 0 ((a @ [ty, 0]) @ be_bytes 2 (0 :: u16) @ rest)) 36 (be_bytes 2 c) =
      overlay xs 0 ((a @ [ty, 0]) @ be_bytes 2 c @ rest)"
    by (rule overlay_inside) (use assms in auto)
  then have "put_at (overlay xs 0 (a @ echo_msg ty 0 rest)) 36 (be_bytes 2 c) = Inr (overlay xs 0 (a @ echo_msg ty c rest))"
    using assms by (simp add: put_at_fits echo_msg_def)
  ultimately show ?thesis using c echo_msg_filled [OF assms(2) c] by blast
qed

lemma build_echo_request_ok:
  assumes "length src_mac = 6" "length dst_mac = 6" "length src_ip = 4" "length dst_ip = 4" "42 + length payload \<le> length frame"
    "length payload \<le> 65536"
  shows "\<exists>h c. build_echo_request src_mac dst_mac src_ip dst_ip ident seq payload frame =
      Inr (overlay frame 0 (eth_header dst_mac src_mac @ h @ echo_msg ICMP_ECHO_REQUEST c (be_bytes 2 ident @ be_bytes 2 seq @ payload)), 42 + length payload) \<and>
    (\<exists>k. h = ip_header src_ip dst_ip PROTO_ICMP (8 + length payload) ident k) \<and> checksum h = Inr 0 \<and>
    checksum (echo_msg ICMP_ECHO_REQUEST c (be_bytes 2 ident @ be_bytes 2 seq @ payload)) = Inr 0"
proof -
  let ?n = "8 + length payload" and ?e = "eth_header dst_mac src_mac" and ?r = "be_bytes 2 ident @ be_bytes 2 seq @ payload"
  let ?f1 = "overlay frame 0 ?e"
  have l1: "length ?f1 = length frame" using assms by simp
  obtain k where k: "header_at src_ip dst_ip PROTO_ICMP ?n ident ?f1 = Inr (overlay ?f1 14 (ip_header src_ip dst_ip PROTO_ICMP ?n ident k))"
    "checksum (ip_header src_ip dst_ip PROTO_ICMP ?n ident k) = Inr 0"
    using header_at_ok [OF assms(3,4), of ?f1 PROTO_ICMP ?n ident] l1 assms(5) by auto
  let ?h = "ip_header src_ip dst_ip PROTO_ICMP ?n ident k"
  let ?f2 = "overlay frame 0 (?e @ ?h)"
  have f2: "overlay ?f1 14 ?h = ?f2" by (rule overlay_next) (use assms in simp_all)
  let ?ws = "[(34 :: nat, [ICMP_ECHO_REQUEST]), (35, [0]), (36, be_bytes 2 (0 :: u16)), (38, be_bytes 2 ident), (40, be_bytes 2 seq), (42, payload)]"
  have "put_all ?f2 ?ws = Inr (overlay frame 0 ((?e @ ?h) @ concat (map snd ?ws)))"
    by (rule put_all_next) (use assms in auto)
  then have put: "put_all ?f2 ?ws = Inr (overlay frame 0 ((?e @ ?h) @ echo_msg ICMP_ECHO_REQUEST 0 ?r))"
    by (simp add: echo_msg_def del: put_all.simps)
  obtain c where c: "slice (overlay frame 0 ((?e @ ?h) @ echo_msg ICMP_ECHO_REQUEST 0 ?r)) 34 (38 + length ?r) = Inr (echo_msg ICMP_ECHO_REQUEST 0 ?r)"
    "checksum (echo_msg ICMP_ECHO_REQUEST 0 ?r) = Inr c"
    "put_at (overlay frame 0 ((?e @ ?h) @ echo_msg ICMP_ECHO_REQUEST 0 ?r)) 36 (be_bytes 2 c) =
       Inr (overlay frame 0 ((?e @ ?h) @ echo_msg ICMP_ECHO_REQUEST c ?r))"
    "checksum (echo_msg ICMP_ECHO_REQUEST c ?r) = Inr 0"
    using fill_echo [of "?e @ ?h" ?r frame ICMP_ECHO_REQUEST] assms by auto
  have n: "38 + length ?r = 42 + length payload" by simp
  have "build_echo_request src_mac dst_mac src_ip dst_ip ident seq payload frame =
      Inr (overlay frame 0 ((?e @ ?h) @ echo_msg ICMP_ECHO_REQUEST c ?r), 42 + length payload)"
    using eth_put [OF assms(2,1)] assms(5) k(1) f2 put c(1-3)
    by (simp add: build_echo_request_def net_consts(1,6,8,10,13) Let_def n del: put_all.simps append_assoc length_append)
  then show ?thesis using k(2) c(4) by auto
qed

text \<open>The frames \<open>build_echo_reply\<close> answers: IPv4 with protocol ICMP and room for both headers.\<close>

definition ip_len :: "bytes \<Rightarrow> nat" where
  "ip_len f = unat (f ! 14 AND 0x0f) * 4"

definition icmp_frame :: "bytes \<Rightarrow> bool" where
  "icmp_frame f \<longleftrightarrow> 42 \<le> length f \<and> be_word (field 12 2 f) = ETHERTYPE_IPV4 \<and> f ! 23 = PROTO_ICMP \<and>
     20 \<le> ip_len f \<and> 14 + ip_len f + 8 \<le> length f"

lemma overlay_head:
  "length a \<le> length b \<Longrightarrow> off + length b \<le> length xs \<Longrightarrow> overlay (overlay xs off b) off a = overlay xs off (a @ drop (length a) b)"
  by (simp add: overlay_def)

lemma build_echo_reply_refused: "\<not> icmp_frame f \<Longrightarrow> build_echo_reply f out = Inr (out, None)"
  by (auto simp: build_echo_reply_def icmp_frame_def ip_len_def net_consts Let_def be16_at_ok idx_def)

lemma build_echo_reply_ok:
  assumes f: "icmp_frame f" and len: "length f \<le> 131072" "length f \<le> length out"
  shows "\<exists>h c. build_echo_reply f out =
      Inr (overlay out 0 (eth_header (field 6 6 f) (field 0 6 f) @ h @ echo_msg ICMP_ECHO_REPLY c (drop (18 + ip_len f) f)),
           Some (20 + length f - ip_len f)) \<and>
    (\<exists>k. h = ip_header (field 30 4 f) (field 26 4 f) PROTO_ICMP (length f - 14 - ip_len f) 0 k) \<and> checksum h = Inr 0 \<and>
    checksum (echo_msg ICMP_ECHO_REPLY c (drop (18 + ip_len f) f)) = Inr 0"
proof -
  define i where "i = ip_len f"
  define n where "n = length f - 14 - i"
  define rest where "rest = drop (18 + i) f"
  have g: "42 \<le> length f" "20 \<le> i" "22 + i \<le> length f" using f by (simp_all add: icmp_frame_def i_def)
  have n: "n = length f - (14 + i)" "8 \<le> n" "34 + n \<le> length f" "length rest = n - 4" "14 + i + n = length f"
    using g by (simp_all add: n_def rest_def)
  let ?p = "field 6 6 f" and ?o = "field 0 6 f" and ?s = "field 30 4 f" and ?d = "field 26 4 f"
  have l: "length ?p = 6" "length ?o = 6" "length ?s = 4" "length ?d = 4" using g by simp_all
  let ?e = "eth_header ?p ?o"
  let ?f1 = "overlay out 0 ?e"
  have l1: "length ?f1 = length out" using l g len by simp
  obtain k where k: "header_at ?s ?d PROTO_ICMP n 0 ?f1 = Inr (overlay ?f1 14 (ip_header ?s ?d PROTO_ICMP n 0 k))"
    "checksum (ip_header ?s ?d PROTO_ICMP n 0 k) = Inr 0"
    using header_at_ok [OF l(3,4), of ?f1 PROTO_ICMP n 0] l1 g len by auto
  let ?h = "ip_header ?s ?d PROTO_ICMP n 0 k"
  have f2: "overlay ?f1 14 ?h = overlay out 0 (?e @ ?h)" by (rule overlay_next) (use l g len in simp_all)
  let ?m = "drop (14 + i) f"
  have m: "slice f (14 + i) (14 + i + n) = Inr ?m" "length ?m = n" using n by (simp_all add: slice_def)
  have ml: "drop 4 ?m = rest" by (simp add: rest_def)
  have put: "put_all (overlay out 0 (?e @ ?h)) [(34, ?m), (34, [ICMP_ECHO_REPLY]), (35, [0]), (36, be_bytes 2 (0 :: u16))] =
      Inr (overlay out 0 ((?e @ ?h) @ echo_msg ICMP_ECHO_REPLY 0 rest))"
  proof -
    let ?f3 = "overlay (overlay out 0 (?e @ ?h)) 34 ?m"
    have l3: "length ?f3 = length out" using l m(2) n len by simp
    have "put_at (overlay out 0 (?e @ ?h)) 34 ?m = Inr ?f3" using l m(2) n len by (intro put_at_fits) simp
    moreover have "put_all ?f3 [(34, [ICMP_ECHO_REPLY]), (35, [0]), (36, be_bytes 2 (0 :: u16))] =
        Inr (overlay ?f3 34 ([ICMP_ECHO_REPLY, 0] @ be_bytes 2 (0 :: u16)))"
      using put_all_tiled [of 34 "[(34, [ICMP_ECHO_REPLY]), (35, [0]), (36, be_bytes 2 (0 :: u16))]" ?f3] l3 g len
      by (simp del: put_all.simps)
    moreover have "overlay ?f3 34 ([ICMP_ECHO_REPLY, 0] @ be_bytes 2 (0 :: u16)) =
        overlay (overlay out 0 (?e @ ?h)) 34 (([ICMP_ECHO_REPLY, 0] @ be_bytes 2 (0 :: u16)) @ drop 4 ?m)"
      using overlay_head [of "[ICMP_ECHO_REPLY, 0] @ be_bytes 2 (0 :: u16)" ?m 34 "overlay out 0 (?e @ ?h)"] l m(2) n len by simp
    moreover have "overlay (overlay out 0 (?e @ ?h)) 34 (echo_msg ICMP_ECHO_REPLY 0 rest) =
        overlay out 0 ((?e @ ?h) @ echo_msg ICMP_ECHO_REPLY 0 rest)"
      by (rule overlay_next) (use l n len in auto)
    ultimately show ?thesis using ml by (simp add: echo_msg_def del: put_all.simps(2)) (simp only: put_all.simps bindr_Inr)
  qed
  obtain c where c: "slice (overlay out 0 ((?e @ ?h) @ echo_msg ICMP_ECHO_REPLY 0 rest)) 34 (34 + n) = Inr (echo_msg ICMP_ECHO_REPLY 0 rest)"
    "checksum (echo_msg ICMP_ECHO_REPLY 0 rest) = Inr c"
    "put_at (overlay out 0 ((?e @ ?h) @ echo_msg ICMP_ECHO_REPLY 0 rest)) 36 (be_bytes 2 c) =
       Inr (overlay out 0 ((?e @ ?h) @ echo_msg ICMP_ECHO_REPLY c rest))"
    "checksum (echo_msg ICMP_ECHO_REPLY c rest) = Inr 0"
    using fill_echo [of "?e @ ?h" rest out ICMP_ECHO_REPLY] l n len by auto
  have rd: "slice f 6 12 = Inr ?p" "slice f 0 6 = Inr ?o" "slice f 30 34 = Inr ?s" "slice f 26 30 = Inr ?d" "be16_at f 12 = Inr ETHERTYPE_IPV4"
    "idx f 23 = Inr PROTO_ICMP" "idx f 14 = Inr (f ! 14)"
    using f g slice_field [of 6 6 f] slice_field [of 0 6 f] slice_field [of 30 4 f] slice_field [of 26 4 f]
    by (simp_all add: be16_at_ok idx_def icmp_frame_def)
  have ihl: "unat (f ! 14 AND 15) * 4 = i" "\<not> unat (f ! 14 AND 15) < 5" using g(2) by (simp_all add: i_def ip_len_def)
  have n5: "slice f (14 + i) (length f) = Inr ?m" using m(1) n(5) by simp
  have norm: "20 + length f - i = 34 + n" "length f - (14 + i) = n" using n g by simp_all
  have "build_echo_reply f out = Inr (overlay out 0 ((?e @ ?h) @ echo_msg ICMP_ECHO_REPLY c rest), Some (34 + n))"
    using rd g m(1) n5 norm eth_put [OF l(1,2), of out] len k(1) f2 put c(1-3)
    by (simp add: build_echo_reply_def Let_def net_consts(1,6,13) ihl del: put_all.simps append_assoc length_append)
  then show ?thesis using k(2) c(4) norm(1) unfolding i_def [symmetric] n_def [symmetric] rest_def [symmetric] by auto
qed

text \<open>Reading an echo frame back.\<close>

lemma echo_frame_fields:
  assumes "length dst_mac = 6" "length src_mac = 6" "length src_ip = 4" "length dst_ip = 4" "4 \<le> length rest"
    "h = ip_header src_ip dst_ip PROTO_ICMP n ident k" "f = eth_header dst_mac src_mac @ h @ echo_msg ty c rest"
  shows "length f = 38 + length rest" "field 12 2 f = be_bytes 2 ETHERTYPE_IPV4" "f ! 14 = 0x45" "f ! 23 = PROTO_ICMP"
    "field 0 6 f = dst_mac" "field 6 6 f = src_mac" "field 26 4 f = src_ip" "field 30 4 f = dst_ip" "f ! 34 = ty" "drop 38 f = rest"
    "field 38 2 f = take 2 rest" "field 40 2 f = take 2 (drop 2 rest)" "field 14 20 f = h" "drop 34 f = echo_msg ty c rest"
  using assms by (simp_all add: field_skip field_here nth_skip eth_header_def ip_header_def nth_append echo_msg_def field_def)

lemma ip_len_frame: "f ! 14 = 0x45 \<Longrightarrow> ip_len f = 20"
  by (simp add: ip_len_def)

lemma is_echo_request_ok:
  assumes "icmp_frame f"
  shows "is_echo_request f ip = Inr (field 30 4 f = ip \<and> f ! (14 + ip_len f) = ICMP_ECHO_REQUEST)"
proof -
  have g: "42 \<le> length f" "20 \<le> ip_len f" "22 + ip_len f \<le> length f" "be_word (field 12 2 f) = ETHERTYPE_IPV4" "f ! 23 = PROTO_ICMP"
    using assms by (simp_all add: icmp_frame_def)
  have ihl: "unat (f ! 14 AND 15) * 4 = ip_len f" "\<not> unat (f ! 14 AND 15) < 5" using g(2) by (simp_all add: ip_len_def)
  show ?thesis using g ihl slice_field [of 30 4 f]
    by (simp add: is_echo_request_def Let_def net_consts(1,6,13) be16_at_ok idx_def)
qed

lemma parse_echo_reply_ok:
  assumes "icmp_frame f"
  shows "parse_echo_reply f i q = Inr (f ! (14 + ip_len f) = ICMP_ECHO_REPLY \<and> be_word (field (18 + ip_len f) 2 f) = i \<and>
    be_word (field (20 + ip_len f) 2 f) = q)"
proof -
  have g: "42 \<le> length f" "20 \<le> ip_len f" "22 + ip_len f \<le> length f" "be_word (field 12 2 f) = ETHERTYPE_IPV4" "f ! 23 = PROTO_ICMP"
    using assms by (simp_all add: icmp_frame_def)
  have ihl: "unat (f ! 14 AND 15) * 4 = ip_len f" "\<not> unat (f ! 14 AND 15) < 5" using g(2) by (simp_all add: ip_len_def)
  show ?thesis using g ihl by (simp add: parse_echo_reply_def Let_def net_consts(1,6,13) be16_at_ok idx_def)
qed

section \<open>Properties\<close>

text \<open>C20: The checksum is the RFC 1071 one's-complement sum. For every message of up to 128 KiB the
  32-bit accumulator does not overflow and the result is the complement of the end-around-carry sum
  of the big-endian 16-bit words; a message that verifies (its checksum is 0) no longer does when
  any one byte of it is changed.\<close>
theorem checksum_is_ones_complement_sum:
  assumes "length bs \<le> 131072"
  shows "(\<exists>c. checksum bs = Inr c \<and> unat c = 65535 - ones_sum (word_sum bs)) \<and>
    (checksum bs = Inr 0 \<longrightarrow> i < length bs \<longrightarrow> b \<noteq> bs ! i \<longrightarrow> checksum (bs[i := b]) \<noteq> Inr 0)"
proof (intro conjI impI)
  show "\<exists>c. checksum bs = Inr c \<and> unat c = 65535 - ones_sum (word_sum bs)" by (rule checksum_ok [OF assms])
  assume v: "checksum bs = Inr 0" and i: "i < length bs" and b: "b \<noteq> bs ! i"
  let ?w = "if even i then 256 else 1 :: nat" and ?S = "word_sum bs" and ?T = "word_sum (bs[i := b])"
  have u: "?T + unat (bs ! i) * ?w = ?S + unat b * ?w" by (rule word_sum_update [OF i])
  have lim: "unat b < 256" "unat (bs ! i) < 256" "unat b \<noteq> unat (bs ! i)"
    using unsigned_less [of b, where ?'a = nat] unsigned_less [of "bs ! i", where ?'a = nat] b by (simp_all add: word_unat_eq_iff)
  have S: "?S mod 65535 = 0" using v checksum_zero_iff [OF assms] by simp
  show "checksum (bs[i := b]) \<noteq> Inr 0"
  proof
    assume "checksum (bs[i := b]) = Inr 0"
    then have T: "?T mod 65535 = 0" using checksum_zero_iff [of "bs[i := b]"] assms by simp
    have "(unat (bs ! i) * ?w) mod 65535 = (?T + unat (bs ! i) * ?w) mod 65535" using T by (simp add: mod_add_left_eq [symmetric])
    also have "\<dots> = (unat b * ?w) mod 65535" unfolding u using S by (simp add: mod_add_left_eq [symmetric])
    finally show False using lim by (auto split: if_splits)
  qed
qed

theorem checksum_is_ones_complement_sum_witness:
  "\<exists>c. checksum [0x45, 0, 0, 0x73] = Inr c \<and> unat c = 65535 - ones_sum (word_sum [0x45, 0, 0, 0x73])"
  using checksum_is_ones_complement_sum [of "[0x45, 0, 0, 0x73]"] by simp

text \<open>UDP datagrams round-trip. Into any buffer with room, \<open>udp::build\<close> writes a frame, of the
  length it returns, whose IPv4 header verifies, and \<open>udp::parse\<close> of that frame gives the payload for
  the destination port and nothing for every other port; the rest of the buffer is untouched.\<close>
theorem udp_roundtrip:
  assumes "length src_mac = 6" "length dst_mac = 6" "length src_ip = 4" "length dst_ip = 4"
    "42 + length payload \<le> length frame" "8 + length payload < 65536"
  shows "\<exists>out. udp_build src_mac dst_mac src_ip dst_ip src_port dst_port ident payload frame = Inr (out, 42 + length payload) \<and>
    udp_parse (take (42 + length payload) out) port = Inr (if port = dst_port then Some payload else None) \<and>
    checksum (field 14 20 out) = Inr 0 \<and> length out = length frame \<and>
    drop (42 + length payload) out = drop (42 + length payload) frame"
proof -
  obtain h c where b: "udp_build src_mac dst_mac src_ip dst_ip src_port dst_port ident payload frame =
      Inr (overlay frame 0 (udp_frame dst_mac src_mac h src_port dst_port payload), 42 + length payload)"
    and h: "h = ip_header src_ip dst_ip PROTO_UDP (8 + length payload) ident c" "checksum h = Inr 0"
    using udp_build_ok [OF assms(1-5), of src_port dst_port ident] by blast
  let ?f = "udp_frame dst_mac src_mac h src_port dst_port payload"
  have lf: "length ?f = 42 + length payload" using h(1) assms by (simp add: udp_frame_def)
  have tk: "take (42 + length payload) (overlay frame 0 ?f) = ?f"
    by (rule take_overlay_0) (use lf assms(5) in simp_all)
  have "field 14 20 (overlay frame 0 ?f) = h"
    using assms h(1) by (simp add: overlay_def udp_frame_def field_skip field_here)
  then show ?thesis
    using b tk udp_parse_frame [OF assms(2,1,3,4,6) h(1), of src_port dst_port port] h(2) lf assms(5) by (simp add: overlay_def)
qed

theorem udp_roundtrip_witness:
  "\<exists>out. udp_build [0, 1, 2, 3, 4, 5] [6, 7, 8, 9, 10, 11] [10, 0, 2, 15] [10, 0, 2, 3] 68 53 7 [1, 2, 3] (replicate 64 0) = Inr (out, 45) \<and>
     udp_parse (take 45 out) 53 = Inr (Some [1, 2, 3])"
  using udp_roundtrip [of "[0, 1, 2, 3, 4, 5]" "[6, 7, 8, 9, 10, 11]" "[10, 0, 2, 15]" "[10, 0, 2, 3]" "[1, 2, 3]" "replicate 64 0" 68 53 7 53]
  by auto

lemma ping_answered:
  assumes "length a_mac = 6" "length b_mac = 6" "length a_ip = 4" "length b_ip = 4"
    "42 + length payload \<le> length frame" "42 + length payload \<le> length out" "length payload \<le> 65536"
  shows "\<exists>fr fr'. build_echo_request a_mac b_mac a_ip b_ip ident seq payload frame = Inr (fr, 42 + length payload) \<and>
    is_echo_request (take (42 + length payload) fr) ip = Inr (ip = b_ip) \<and>
    build_echo_reply (take (42 + length payload) fr) out = Inr (fr', Some (42 + length payload)) \<and>
    (let reply = take (42 + length payload) fr'
     in field 0 6 reply = a_mac \<and> field 6 6 reply = b_mac \<and> field 26 4 reply = b_ip \<and> field 30 4 reply = a_ip \<and>
        drop 42 reply = payload \<and> checksum (field 14 20 reply) = Inr 0 \<and> checksum (drop 34 reply) = Inr 0 \<and>
        parse_echo_reply reply i q = Inr (i = ident \<and> q = seq) \<and> is_echo_request reply ip = Inr False)"
proof -
  let ?r = "be_bytes 2 ident @ be_bytes 2 seq @ payload" and ?n = "42 + length payload"
  have r4: "4 \<le> length ?r" by simp
  obtain h c k where req: "build_echo_request a_mac b_mac a_ip b_ip ident seq payload frame =
      Inr (overlay frame 0 (eth_header b_mac a_mac @ h @ echo_msg ICMP_ECHO_REQUEST c ?r), ?n)"
    and h: "h = ip_header a_ip b_ip PROTO_ICMP (8 + length payload) ident k"
    using build_echo_request_ok [OF assms(1-5,7), of ident seq] by blast
  define f where "f = eth_header b_mac a_mac @ h @ echo_msg ICMP_ECHO_REQUEST c ?r"
  note ff = echo_frame_fields [OF assms(2,1,3,4) r4 h f_def]
  have lf: "length f = ?n" using ff(1) by simp
  have tf: "take ?n (overlay frame 0 f) = f" by (rule take_overlay_0) (use lf assms(5) in simp_all)
  have il: "ip_len f = 20" by (rule ip_len_frame [OF ff(3)])
  have icmp: "icmp_frame f" using ff lf il by (simp add: icmp_frame_def)
  obtain h' c' k' where rep: "build_echo_reply f out =
      Inr (overlay out 0 (eth_header (field 6 6 f) (field 0 6 f) @ h' @ echo_msg ICMP_ECHO_REPLY c' (drop (18 + ip_len f) f)),
           Some (20 + length f - ip_len f))"
    and h': "h' = ip_header (field 30 4 f) (field 26 4 f) PROTO_ICMP (length f - 14 - ip_len f) 0 k'" "checksum h' = Inr 0"
    "checksum (echo_msg ICMP_ECHO_REPLY c' (drop (18 + ip_len f) f)) = Inr 0"
    using build_echo_reply_ok [OF icmp, of out] lf assms(6,7) by auto
  define g where "g = eth_header a_mac b_mac @ h' @ echo_msg ICMP_ECHO_REPLY c' ?r"
  have h'': "h' = ip_header b_ip a_ip PROTO_ICMP (length f - 14 - ip_len f) 0 k'" using h'(1) ff by simp
  note gg = echo_frame_fields [OF assms(1,2,4,3) r4 h'' g_def]
  have lg: "length g = ?n" using gg(1) by simp
  have rep': "build_echo_reply f out = Inr (overlay out 0 g, Some ?n)" using rep ff il lf by (simp add: g_def)
  have tg: "take ?n (overlay out 0 g) = g" by (rule take_overlay_0) (use lg assms(6) in simp_all)
  have ilg: "ip_len g = 20" by (rule ip_len_frame [OF gg(3)])
  have icmpg: "icmp_frame g" using gg lg ilg by (simp add: icmp_frame_def)
  have "is_echo_request f ip = Inr (ip = b_ip)" using is_echo_request_ok [OF icmp] ff il by auto
  moreover have "is_echo_request g ip = Inr False" using is_echo_request_ok [OF icmpg] gg ilg
    by (simp add: ICMP_ECHO_REQUEST_def ICMP_ECHO_REPLY_def)
  moreover have "parse_echo_reply g i q = Inr (i = ident \<and> q = seq)" using parse_echo_reply_ok [OF icmpg] gg ilg by auto
  moreover have "drop 42 g = payload" using gg(10) drop_drop [of 4 38 g] by simp
  moreover have "checksum (drop 34 g) = Inr 0" using h'(3) gg(14) ff(10) il by simp
  ultimately show ?thesis using req rep' tf tg gg(5-8,13) h'(2) unfolding f_def [symmetric] by (simp add: Let_def)
qed

text \<open>A ping is answered. The request one host builds is recognised by exactly the host it is
  addressed to; the reply built from it, of the same length, goes back to the sender's addresses,
  verifies in both checksums, carries the payload, is accepted by the sender for exactly its
  identifier and sequence number, and is not itself a request, so that it is not answered again.\<close>
theorem ping_roundtrip:
  assumes "length a_mac = 6" "length b_mac = 6" "length a_ip = 4" "length b_ip = 4"
    "42 + length payload \<le> length frame" "42 + length payload \<le> length out" "length payload \<le> 65536"
  shows "\<exists>fr fr'. build_echo_request a_mac b_mac a_ip b_ip ident seq payload frame = Inr (fr, 42 + length payload) \<and>
    is_echo_request (take (42 + length payload) fr) ip = Inr (ip = b_ip) \<and>
    build_echo_reply (take (42 + length payload) fr) out = Inr (fr', Some (42 + length payload)) \<and>
    (let reply = take (42 + length payload) fr'
     in field 0 6 reply = a_mac \<and> field 6 6 reply = b_mac \<and> field 26 4 reply = b_ip \<and> field 30 4 reply = a_ip \<and>
        drop 42 reply = payload \<and> checksum (field 14 20 reply) = Inr 0 \<and> checksum (drop 34 reply) = Inr 0 \<and>
        parse_echo_reply reply i q = Inr (i = ident \<and> q = seq) \<and> is_echo_request reply ip = Inr False)"
  by (rule ping_answered [OF assms])

theorem ping_roundtrip_witness:
  "\<exists>fr fr'. build_echo_request [0, 1, 2, 3, 4, 5] [6, 7, 8, 9, 10, 11] [10, 0, 2, 15] [10, 0, 2, 2] 7 1 [107, 79] (replicate 64 0) = Inr (fr, 44) \<and>
     build_echo_reply (take 44 fr) (replicate 64 0) = Inr (fr', Some 44) \<and> parse_echo_reply (take 44 fr') 7 1 = Inr True"
  using ping_roundtrip [of "[0, 1, 2, 3, 4, 5]" "[6, 7, 8, 9, 10, 11]" "[10, 0, 2, 15]" "[10, 0, 2, 2]" "[107, 79]" "replicate 64 0" "replicate 64 0"
    7 1 "[10, 0, 2, 2]" 7 1]
  by (auto simp: Let_def)

end
