(* ===== verification/Net_App.thy ===== *)
theory Net_App
  imports Net
begin

text \<open>
  DHCP and DNS over the frames of \<open>Net\<close> (modules \<^verbatim>\<open>dhcp\<close> and \<^verbatim>\<open>dns\<close> of
  \<^verbatim>\<open>src/libs/common/src/net.rs\<close>), and the kernel's network client
  (\<^verbatim>\<open>net_client\<close> and \<^verbatim>\<open>dhcp_round\<close> of \<^verbatim>\<open>src/kernel/src/main.rs\<close>), whose driver and
  network are a parameter: any received bytes are possible.
\<close>

section \<open>DHCP\<close>

definition CLIENT_PORT :: u16 where "CLIENT_PORT = 68"
definition SERVER_PORT :: u16 where "SERVER_PORT = 67"
definition MAGIC :: bytes where "MAGIC = [0x63, 0x82, 0x53, 0x63]"
definition OP_REQUEST :: u8 where "OP_REQUEST = 1"
definition OP_REPLY :: u8 where "OP_REPLY = 2"
definition MSG_DISCOVER :: u8 where "MSG_DISCOVER = 1"
definition MSG_OFFER :: u8 where "MSG_OFFER = 2"
definition MSG_REQUEST :: u8 where "MSG_REQUEST = 3"
definition MSG_ACK :: u8 where "MSG_ACK = 5"
definition BOOTP_FIXED :: nat where "BOOTP_FIXED = 236"
definition DISCOVER_LEN :: nat where "DISCOVER_LEN = BOOTP_FIXED + 4 + 3 + 1"
definition REQUEST_LEN :: nat where "REQUEST_LEN = BOOTP_FIXED + 4 + 3 + 6 + 6 + 1"

record dhcp_offer =
  yiaddr :: bytes
  server_id :: bytes

definition build_discover :: "u32 \<Rightarrow> bytes \<Rightarrow> bytes \<Rightarrow> (bytes \<times> nat) result" where
  "build_discover xid client_mac out =
     bindr (assertr (DISCOVER_LEN \<le> length out) IndexOutOfBounds) (\<lambda>_.
     bindr (put_all out
       [(0, replicate DISCOVER_LEN 0), (0, [OP_REQUEST]), (1, [1]), (2, [6]), (4, be_bytes 4 xid),
        (10, be_bytes 2 (0x8000 :: u16)), (28, client_mac), (236, MAGIC),
        (240, [53]), (241, [1]), (242, [MSG_DISCOVER]), (243, [255])]) (\<lambda>p.
     Inr (p, DISCOVER_LEN)))"

definition dhcp_build_request :: "u32 \<Rightarrow> bytes \<Rightarrow> bytes \<Rightarrow> bytes \<Rightarrow> bytes \<Rightarrow> (bytes \<times> nat) result" where
  "dhcp_build_request xid client_mac requested_ip sid out =
     bindr (assertr (REQUEST_LEN \<le> length out) IndexOutOfBounds) (\<lambda>_.
     bindr (put_all out
       [(0, replicate REQUEST_LEN 0), (0, [OP_REQUEST]), (1, [1]), (2, [6]), (4, be_bytes 4 xid),
        (10, be_bytes 2 (0x8000 :: u16)), (28, client_mac), (236, MAGIC),
        (240, [53]), (241, [1]), (242, [MSG_REQUEST]),
        (243, [50]), (244, [4]), (245, requested_ip),
        (249, [54]), (250, [4]), (251, sid), (255, [255])]) (\<lambda>p.
     Inr (p, REQUEST_LEN)))"

text \<open>The walk over the options, at index \<open>i\<close>.\<close>

function dhcp_option :: "bytes \<Rightarrow> u8 \<Rightarrow> nat \<Rightarrow> bytes option result" where
  "dhcp_option opts code i =
     (if i < length opts then
        bindr (idx opts i) (\<lambda>c.
        if c = 0 then dhcp_option opts code (i + 1)
        else if c = 255 then Inr None
        else if length opts \<le> i + 1 then Inr None
        else bindr (idx opts (i + 1)) (\<lambda>len.
             if i + 2 + unat len > length opts then Inr None
             else if c = code then bindr (slice opts (i + 2) (i + 2 + unat len)) (\<lambda>v. Inr (Some v))
             else dhcp_option opts code (i + 2 + unat len)))
      else Inr None)"
  by auto
termination
  by (relation "measure (\<lambda>(opts, code, i). length opts - i)") auto

declare dhcp_option.simps [simp del]

definition is_reply :: "bytes \<Rightarrow> u32 \<Rightarrow> u8 \<Rightarrow> bool result" where
  "is_reply payload xid msg_type =
     (if length payload < 240 then Inr False
      else bindr (idx payload 0) (\<lambda>opc.
        if opc \<noteq> OP_REPLY then Inr False
        else bindr (slice payload 4 8) (\<lambda>x.
          if x \<noteq> be_bytes 4 xid then Inr False
          else bindr (slice payload 236 240) (\<lambda>cookie.
            if cookie \<noteq> MAGIC then Inr False
            else bindr (dhcp_option (drop 240 payload) 53 0) (\<lambda>v.
              Inr (case v of Some (t # _) \<Rightarrow> t = msg_type | _ \<Rightarrow> False))))))"

definition parse_ack :: "bytes \<Rightarrow> u32 \<Rightarrow> bytes option result" where
  "parse_ack payload xid =
     bindr (is_reply payload xid MSG_ACK) (\<lambda>ok.
     if \<not> ok then Inr None else bindr (slice payload 16 20) (\<lambda>ip. Inr (Some ip)))"

definition parse_offer :: "bytes \<Rightarrow> u32 \<Rightarrow> dhcp_offer option result" where
  "parse_offer payload xid =
     bindr (is_reply payload xid MSG_OFFER) (\<lambda>ok.
     if \<not> ok then Inr None
     else bindr (slice payload 16 20) (\<lambda>ip.
          bindr (dhcp_option (drop 240 payload) 54 0) (\<lambda>v.
          case v of
            Some s \<Rightarrow> if 4 \<le> length s then bindr (slice s 0 4) (\<lambda>sid. Inr (Some \<lparr>yiaddr = ip, server_id = sid\<rparr>))
                      else Inr (Some \<lparr>yiaddr = ip, server_id = replicate 4 0\<rparr>)
          | None \<Rightarrow> Inr (Some \<lparr>yiaddr = ip, server_id = replicate 4 0\<rparr>))))"

section \<open>DNS\<close>

fun put_labels :: "bytes \<Rightarrow> nat \<Rightarrow> bytes list \<Rightarrow> (bytes \<times> nat) result" where
  "put_labels out i [] = Inr (out, i)"
| "put_labels out i (label # ls) =
     bindr (put_all out [(i, [word_of_nat (length label)]), (i + 1, label)]) (\<lambda>out.
     put_labels out (i + 1 + length label) ls)"

definition build_query :: "rstr \<Rightarrow> u16 \<Rightarrow> bytes \<Rightarrow> (bytes \<times> nat) result" where
  "build_query name txid out =
     bindr (put_all out [(0, be_bytes 2 txid), (2, be_bytes 2 (0x0100 :: u16)), (4, be_bytes 2 (1 :: u16)), (6, replicate 6 0)]) (\<lambda>out.
     bindr (put_labels out 12 (split_on 46 name)) (\<lambda>(out, i).
     bindr (put_all out [(i, [0]), (i + 1, be_bytes 2 (1 :: u16)), (i + 3, be_bytes 2 (1 :: u16))]) (\<lambda>out.
     Inr (out, i + 5))))"

function skip_name :: "bytes \<Rightarrow> nat \<Rightarrow> nat option" where
  "skip_name payload i =
     (case get payload i of
        None \<Rightarrow> None
      | Some b \<Rightarrow>
          if b AND 0xc0 = 0xc0 then Some (i + 2)
          else if b = 0 then Some (i + 1)
          else skip_name payload (i + 1 + unat b))"
  by auto
termination
  by (relation "measure (\<lambda>(payload, i). length payload - i)") (auto simp: get_Some_iff)

declare skip_name.simps [simp del]

fun skip_questions :: "bytes \<Rightarrow> nat \<Rightarrow> nat \<Rightarrow> nat option" where
  "skip_questions payload i 0 = Some i"
| "skip_questions payload i (Suc n) =
     (case skip_name payload i of None \<Rightarrow> None | Some j \<Rightarrow> skip_questions payload (j + 4) n)"

fun find_answer :: "bytes \<Rightarrow> nat \<Rightarrow> nat \<Rightarrow> bytes option result" where
  "find_answer payload i 0 = Inr None"
| "find_answer payload i (Suc n) =
     (case skip_name payload i of
        None \<Rightarrow> Inr None
      | Some i \<Rightarrow>
          if i + 10 > length payload then Inr None
          else bindr (be16_at payload i) (\<lambda>atype.
               bindr (be16_at payload (i + 8)) (\<lambda>rdlength.
               let j = i + 10
               in if atype = 1 \<and> unat rdlength = 4 \<and> j + 4 \<le> length payload then
                    bindr (idx payload j) (\<lambda>a. bindr (idx payload (j + 1)) (\<lambda>b.
                    bindr (idx payload (j + 2)) (\<lambda>c. bindr (idx payload (j + 3)) (\<lambda>d. Inr (Some [a, b, c, d])))))
                  else find_answer payload (j + unat rdlength) n)))"

definition parse_response :: "bytes \<Rightarrow> u16 \<Rightarrow> bytes option result" where
  "parse_response payload txid =
     (if length payload < 12 then Inr None
      else bindr (be16_at payload 0) (\<lambda>tid.
        if tid \<noteq> txid then Inr None
        else bindr (be16_at payload 2) (\<lambda>flags.
          if flags AND 0x8000 = 0 then Inr None
          else bindr (be16_at payload 4) (\<lambda>qdcount.
               bindr (be16_at payload 6) (\<lambda>ancount.
               if ancount = 0 then Inr None
               else case skip_questions payload 12 (unat qdcount) of
                 None \<Rightarrow> Inr None
               | Some i \<Rightarrow> find_answer payload i (unat ancount))))))"

section \<open>Nothing received can panic the parsers\<close>

lemma dhcp_option_returns: "returns (dhcp_option opts code i)"
proof (induction opts code i rule: dhcp_option.induct)
  case (1 opts code i)
  then show ?case
    unfolding returns_def by (subst dhcp_option.simps) (auto simp: wp)
qed

lemma holds_True: "returns r \<Longrightarrow> (\<And>x. P x) \<Longrightarrow> holds r P"
  by (auto simp: returns_iff)

lemma is_reply_returns: "returns (is_reply p xid t)"
proof (cases "length p < 240")
  case True
  then show ?thesis by (simp add: is_reply_def returns_def)
next
  case False
  then have l: "0 < length p" "8 \<le> length p" "240 \<le> length p" by linarith+
  obtain v where "dhcp_option (drop 240 p) 53 0 = Inr v" using dhcp_option_returns [of "drop 240 p" 53 0] by (auto simp: returns_iff)
  then show ?thesis using False l by (simp add: is_reply_def returns_def idx_def slice_def)
qed

lemma is_reply_length: "is_reply p xid t = Inr True \<Longrightarrow> 240 \<le> length p"
  by (auto simp: is_reply_def split: if_splits)

lemma parse_ack_ok: "holds (parse_ack p xid) (\<lambda>v. \<forall>ip. v = Some ip \<longrightarrow> ip = field 16 4 p \<and> length ip = 4 \<and> is_reply p xid MSG_ACK = Inr True)"
proof -
  obtain b where b: "is_reply p xid MSG_ACK = Inr b" using is_reply_returns [of p xid MSG_ACK] by (auto simp: returns_iff)
  show ?thesis using b is_reply_length [of p xid MSG_ACK] by (cases b) (auto simp: parse_ack_def wp field_def)
qed

lemma parse_offer_ok: "holds (parse_offer p xid) (\<lambda>v. \<forall>x. v = Some x \<longrightarrow> length (yiaddr x) = 4 \<and> length (server_id x) = 4)"
proof -
  obtain b where b: "is_reply p xid MSG_OFFER = Inr b" using is_reply_returns [of p xid MSG_OFFER] by (auto simp: returns_iff)
  obtain v where v: "dhcp_option (drop 240 p) 54 0 = Inr v" using dhcp_option_returns [of "drop 240 p" 54 0] by (auto simp: returns_iff)
  show ?thesis using b v is_reply_length [of p xid MSG_OFFER] by (cases b; cases v) (auto simp: parse_offer_def wp)
qed

lemma find_answer_ok: "holds (find_answer p i n) (\<lambda>v. \<forall>ip. v = Some ip \<longrightarrow> length ip = 4)"
proof (induction n arbitrary: i)
  case (Suc n)
  then show ?case by (auto simp: wp Let_def split: option.split)
qed simp

lemma parse_response_ok: "holds (parse_response p txid) (\<lambda>v. \<forall>ip. v = Some ip \<longrightarrow> length ip = 4)"
  unfolding parse_response_def by (auto simp: wp find_answer_ok split: option.split)

section \<open>The network client\<close>

text \<open>
  An exchange with the driver: network state, transmit area, receive area and badge to network
  state, receive area and received length. The transmit area is the part of the DMA frame from
  \<open>0xC00 + 12\<close>, the receive area the part from \<open>0x400 + 12\<close> up to \<open>0xC00\<close>.
\<close>

type_synonym 'w net = "'w \<Rightarrow> bytes \<Rightarrow> bytes \<Rightarrow> usize \<Rightarrow> 'w \<times> bytes \<times> usize"

record 'w net_state =
  n_world :: 'w
  n_tx :: bytes
  n_rx :: bytes
  NET_IP :: bytes

text \<open>Building a frame in the first \<open>n\<close> bytes of the transmit area.\<close>

definition build_tx :: "'w net_state \<Rightarrow> nat \<Rightarrow> (bytes \<Rightarrow> (bytes \<times> nat) result) \<Rightarrow> ('w net_state \<times> nat) result" where
  "build_tx s n build =
     bindr (slice (n_tx s) 0 n) (\<lambda>txf.
     bindr (build txf) (\<lambda>(txf, len).
     bindr (put_at (n_tx s) 0 txf) (\<lambda>tx. Inr (s\<lparr>n_tx := tx\<rparr>, len))))"

definition exchange :: "'w net \<Rightarrow> 'w net_state \<Rightarrow> nat \<Rightarrow> 'w net_state \<times> usize" where
  "exchange net s frame_len =
     (case net (n_world s) (n_tx s) (n_rx s) (word_of_nat (12 + frame_len)) of
        (w, rx, n) \<Rightarrow> (s\<lparr>n_world := w, n_rx := rx\<rparr>, n))"

text \<open>The received frame: \<open>rx_len.saturating_sub(12).min(2036)\<close> bytes of the receive area.\<close>

definition received :: "'w net_state \<Rightarrow> usize \<Rightarrow> bytes result" where
  "received s rx_len = slice (n_rx s) 0 (min (unat rx_len - 12) 2036)"

definition dhcp_round :: "'w net \<Rightarrow> 'w net_state \<Rightarrow> bytes \<Rightarrow> bytes \<Rightarrow> ('w net_state \<times> bytes option) result" where
  "dhcp_round net s src_mac payload =
     bindr (build_tx s 512 (udp_build src_mac (replicate 6 0xff) [0, 0, 0, 0] [255, 255, 255, 255] CLIENT_PORT SERVER_PORT 0 payload))
       (\<lambda>(s, frame_len).
     case exchange net s frame_len of
       (s, rx_len) \<Rightarrow>
         if rx_len = 0 then Inr (s, None)
         else bindr (received s rx_len) (\<lambda>rxf. bindr (udp_parse rxf CLIENT_PORT) (\<lambda>p. Inr (s, p))))"

definition SRC_MAC :: bytes where "SRC_MAC = [0x52, 0x54, 0x00, 0x12, 0x34, 0x56]"
definition XID :: u32 where "XID = 0x12345678"
definition GATEWAY :: bytes where "GATEWAY = [10, 0, 2, 2]"
definition RESOLVER :: bytes where "RESOLVER = [10, 0, 2, 3]"

text \<open>DISCOVER, OFFER, REQUEST, ACK, and adopting the leased address.\<close>

definition net_lease :: "'w net \<Rightarrow> 'w net_state \<Rightarrow> 'w net_state result" where
  "net_lease net s =
     bindr (build_discover XID SRC_MAC (replicate DISCOVER_LEN 0)) (\<lambda>(disc, _).
     bindr (dhcp_round net s SRC_MAC disc) (\<lambda>(s, p).
     bindr (case p of None \<Rightarrow> Inr None | Some p \<Rightarrow> parse_offer p XID) (\<lambda>offer.
     case offer of
       None \<Rightarrow> Inr s
     | Some ofr \<Rightarrow>
         bindr (dhcp_build_request XID SRC_MAC (yiaddr ofr) (server_id ofr) (replicate REQUEST_LEN 0)) (\<lambda>(req, _).
         bindr (dhcp_round net s SRC_MAC req) (\<lambda>(s, p).
         bindr (case p of None \<Rightarrow> Inr None | Some p \<Rightarrow> parse_ack p XID) (\<lambda>ack.
         case ack of None \<Rightarrow> Inr s | Some ip \<Rightarrow> Inr (s\<lparr>NET_IP := ip\<rparr>)))))))"

definition net_arp :: "'w net \<Rightarrow> 'w net_state \<Rightarrow> ('w net_state \<times> bytes option) result" where
  "net_arp net s =
     bindr (build_tx s ARP_FRAME_LEN (arp_build_request SRC_MAC (NET_IP s) GATEWAY)) (\<lambda>(s, arp_len).
     case exchange net s arp_len of
       (s, rx_len) \<Rightarrow>
         if rx_len = 0 then Inr (s, None)
         else bindr (slice (n_rx s) 0 ARP_FRAME_LEN) (\<lambda>rxf.
              bindr (arp_parse_reply rxf GATEWAY) (\<lambda>mac. Inr (s, mac))))"

text \<open>One ping through the gateway.\<close>

definition net_ping :: "'w net \<Rightarrow> 'w net_state \<Rightarrow> bytes \<Rightarrow> bytes \<Rightarrow> u16 \<Rightarrow> bytes \<Rightarrow> ('w net_state \<times> bool) result" where
  "net_ping net s mac dst ident payload =
     bindr (build_tx s 128 (build_echo_request SRC_MAC mac (NET_IP s) dst ident 0 payload)) (\<lambda>(s, frame_len).
     case exchange net s frame_len of
       (s, rx_len) \<Rightarrow>
         if rx_len = 0 then Inr (s, False)
         else bindr (received s rx_len) (\<lambda>rxf. bindr (parse_echo_reply rxf ident 0) (\<lambda>ok. Inr (s, ok))))"

text \<open>The responder, run on a request made up for it.\<close>

definition net_inbound :: "'w net_state \<Rightarrow> bytes \<Rightarrow> bool result" where
  "net_inbound s mac =
     bindr (build_echo_request mac SRC_MAC GATEWAY (NET_IP s) 0x4321 0 (lit ''loopback'') (replicate 64 0)) (\<lambda>(req, req_len).
     bindr (slice req 0 req_len) (\<lambda>r.
     bindr (is_echo_request r (NET_IP s)) (\<lambda>ours.
     if \<not> ours then Inr False
     else bindr (slice req 0 req_len) (\<lambda>r. bindr (build_echo_reply r (replicate 64 0)) (\<lambda>(_, n). Inr (n \<noteq> None))))))"

definition net_dns :: "'w net \<Rightarrow> 'w net_state \<Rightarrow> bytes \<Rightarrow> ('w net_state \<times> bytes option \<times> bool) result" where
  "net_dns net s mac =
     bindr (build_query (lit ''example.com'') 0xABCD (replicate 64 0)) (\<lambda>(q, qlen).
     bindr (slice q 0 qlen) (\<lambda>q.
     bindr (build_tx s 512 (udp_build SRC_MAC mac (NET_IP s) RESOLVER 0xC000 53 0 q)) (\<lambda>(s, frame_len).
     case exchange net s frame_len of
       (s, rx_len) \<Rightarrow>
         if rx_len = 0 then Inr (s, None, False)
         else bindr (received s rx_len) (\<lambda>rxf.
              bindr (udp_parse rxf 0xC000) (\<lambda>p.
              bindr (case p of None \<Rightarrow> Inr None | Some p \<Rightarrow> parse_response p 0xABCD) (\<lambda>a.
              case a of
                None \<Rightarrow> Inr (s, None, False)
              | Some ip \<Rightarrow> bindr (net_ping net s mac ip 0x5555 (lit ''dns-ping'')) (\<lambda>(s, ok). Inr (s, Some ip, ok))))))))"

record net_report =
  gw_mac :: "bytes option"
  replied :: bool
  inbound :: bool
  resolved :: "bytes option"
  ping_replied :: bool

definition net_client :: "'w net \<Rightarrow> 'w net_state \<Rightarrow> ('w net_state \<times> net_report) result" where
  "net_client net s =
     bindr (net_lease net s) (\<lambda>s.
     bindr (net_arp net s) (\<lambda>(s, gw).
     bindr (case gw of None \<Rightarrow> Inr (s, False) | Some mac \<Rightarrow> net_ping net s mac GATEWAY 0x1234 (lit ''kernelOS'')) (\<lambda>(s, ok).
     bindr (case gw of None \<Rightarrow> Inr False | Some mac \<Rightarrow> net_inbound s mac) (\<lambda>inb.
     bindr (case gw of None \<Rightarrow> Inr (s, None, False) | Some mac \<Rightarrow> net_dns net s mac) (\<lambda>(s, dns, dns_ok).
     case net (n_world s) (n_tx s) (n_rx s) 0 of
       (w, rx, _) \<Rightarrow>
         Inr (s\<lparr>n_world := w, n_rx := rx\<rparr>,
              \<lparr>gw_mac = gw, replied = ok, inbound = inb, resolved = dns, ping_replied = dns_ok\<rparr>))))))"

section \<open>Queries on the wire\<close>

definition wire_name :: "bytes list \<Rightarrow> bytes" where
  "wire_name ls = concat (map (\<lambda>l. word_of_nat (length l) # l) ls)"

lemma put_labels_ok:
  "i + length (wire_name ls) \<le> length out \<Longrightarrow> put_labels out i ls = Inr (overlay out i (wire_name ls), i + length (wire_name ls))"
proof (induction out i ls rule: put_labels.induct)
  case (1 out i)
  then show ?case by (simp add: wire_name_def)
next
  case (2 out i label ls)
  let ?w = "word_of_nat (length label) # label"
  have w: "wire_name (label # ls) = ?w @ wire_name ls" by (simp add: wire_name_def)
  have fits: "i + length ?w + length (wire_name ls) \<le> length out" using 2(2) w by simp
  have put: "put_all out [(i, [word_of_nat (length label)]), (i + 1, label)] = Inr (overlay out i ?w)"
    using put_all_tiled [of i "[(i, [word_of_nat (length label)]), (i + 1, label)]" out] fits by (simp del: put_all.simps)
  then have "put_labels out i (label # ls) = put_labels (overlay out i ?w) (i + length ?w) ls" by (simp del: put_all.simps)
  also have "\<dots> = Inr (overlay (overlay out i ?w) (i + length ?w) (wire_name ls), i + length ?w + length (wire_name ls))"
    using 2(1) [OF, of "overlay out i ?w"] fits by simp
  also have "overlay (overlay out i ?w) (i + length ?w) (wire_name ls) = overlay out i (wire_name (label # ls))"
    unfolding w by (rule overlay_overlay) (use fits in simp)
  finally show ?case using w by simp
qed

definition query :: "u16 \<Rightarrow> u16 \<Rightarrow> u16 \<Rightarrow> bytes \<Rightarrow> rstr \<Rightarrow> bytes" where
  "query txid flags answers rest name =
     be_bytes 2 txid @ be_bytes 2 flags @ be_bytes 2 (1 :: u16) @ be_bytes 2 answers @ rest @
     wire_name (split_on 46 name) @ [0] @ be_bytes 2 (1 :: u16) @ be_bytes 2 (1 :: u16)"

lemma build_query_ok:
  assumes "17 + length (wire_name (split_on 46 name)) \<le> length out"
  shows "build_query name txid out =
    Inr (overlay out 0 (query txid 0x0100 0 (replicate 4 0) name), 17 + length (wire_name (split_on 46 name)))"
proof -
  let ?w = "wire_name (split_on 46 name)"
  let ?hd = "be_bytes 2 txid @ be_bytes 2 (0x0100 :: u16) @ be_bytes 2 (1 :: u16) @ replicate 6 0"
  let ?n = "12 + length ?w"
  have hd: "length ?hd = 12" by simp
  have 1: "put_all out [(0, be_bytes 2 txid), (2, be_bytes 2 (0x0100 :: u16)), (4, be_bytes 2 (1 :: u16)), (6, replicate 6 0)] = Inr (overlay out 0 ?hd)"
    using put_all_tiled [of 0 "[(0, be_bytes 2 txid), (2, be_bytes 2 (0x0100 :: u16)), (4, be_bytes 2 (1 :: u16)), (6, replicate 6 0)]" out] assms
    by (simp del: put_all.simps)
  have 2: "put_labels (overlay out 0 ?hd) 12 (split_on 46 name) = Inr (overlay (overlay out 0 ?hd) 12 ?w, ?n)"
    using put_labels_ok [of 12 "split_on 46 name" "overlay out 0 ?hd"] assms by simp
  have 3: "overlay (overlay out 0 ?hd) 12 ?w = overlay out 0 (?hd @ ?w)" by (rule overlay_next) (use assms in simp_all)
  let ?ws = "[(?n, [0]), (?n + 1, be_bytes 2 (1 :: u16)), (?n + 3, be_bytes 2 (1 :: u16))]"
  have 4: "put_all (overlay out 0 (?hd @ ?w)) ?ws = Inr (overlay out 0 ((?hd @ ?w) @ concat (map snd ?ws)))"
    by (rule put_all_next) (use assms in auto)
  have z: "be_bytes 2 (0 :: u16) = [0, 0]" by (simp add: be_bytes_def numeral_2_eq_2)
  have r6: "replicate 6 (0 :: u8) = be_bytes 2 (0 :: u16) @ replicate 4 0" unfolding z by (simp add: numeral_eq_Suc)
  have 5: "(?hd @ ?w) @ concat (map snd ?ws) = query txid 0x0100 0 (replicate 4 0) name"
    using r6 by (simp add: query_def)
  have "put_all (overlay out 0 (?hd @ ?w)) ?ws = Inr (overlay out 0 (query txid 0x0100 0 (replicate 4 0) name))"
    using 4 unfolding 5 .
  then show ?thesis using 1 2 3 by (simp add: build_query_def del: put_all.simps)
qed

lemma skip_name_labels:
  assumes "list_all (\<lambda>l. 0 < length l \<and> length l < 64) ls" "i = length pre"
  shows "skip_name (pre @ wire_name ls @ [0] @ post) i = Some (i + length (wire_name ls) + 1)"
  using assms
proof (induction ls arbitrary: pre i)
  case Nil
  then show ?case by (subst skip_name.simps) (simp add: get_def wire_name_def nth_append)
next
  case (Cons l ls)
  let ?p = "pre @ wire_name (l # ls) @ [0] @ post" and ?b = "word_of_nat (length l) :: u8"
  have w: "wire_name (l # ls) = (?b # l) @ wire_name ls" by (simp add: wire_name_def)
  have l: "0 < length l" "length l < 64" using Cons.prems(1) by simp_all
  have ub: "unat ?b = length l" using l(2) by (simp add: unat_of_nat take_bit_nat_eq_self)
  have b: "get ?p i = Some ?b" using Cons.prems(2) by (simp add: get_def w nth_append)
  have "?b AND 0xc0 \<noteq> 0xc0"
  proof
    assume "?b AND 0xc0 = 0xc0"
    then have "0xc0 \<le> ?b" by (metis word_and_le2)
    then show False using l(2) ub by (simp add: word_le_nat_alt)
  qed
  moreover have "?b \<noteq> 0" using ub l(1) by (metis less_numeral_extra(3) unat_0)
  ultimately have "skip_name ?p i = skip_name ?p (i + 1 + length l)"
    using b ub by (subst skip_name.simps) simp
  also have "\<dots> = skip_name ((pre @ ?b # l) @ wire_name ls @ [0] @ post) (i + 1 + length l)" by (simp add: w)
  also have "\<dots> = Some (i + 1 + length l + length (wire_name ls) + 1)"
    using Cons.IH [of "i + 1 + length l" "pre @ ?b # l"] Cons.prems by simp
  finally show ?case by (simp add: w)
qed

section \<open>The client over an arbitrary network\<close>

text \<open>All that is known of the driver: the receive area keeps its size.\<close>

definition net_ok :: "'w net \<Rightarrow> bool" where
  "net_ok net \<longleftrightarrow> (\<forall>w tx rx n. length rx = 2036 \<longrightarrow> length (fst (snd (net w tx rx n))) = 2036)"

definition net_inv :: "'w net_state \<Rightarrow> bool" where
  "net_inv s \<longleftrightarrow> length (n_tx s) = 1012 \<and> length (n_rx s) = 2036 \<and> length (NET_IP s) = 4"

lemma exchange_ok: "net_ok net \<Longrightarrow> net_inv s \<Longrightarrow> exchange net s n = (s', r) \<Longrightarrow> net_inv s' \<and> NET_IP s' = NET_IP s"
proof -
  assume a: "net_ok net" "net_inv s" "exchange net s n = (s', r)"
  obtain w rx m where "net (n_world s) (n_tx s) (n_rx s) (word_of_nat (12 + n)) = (w, rx, m)" by (metis surj_pair)
  moreover from this have "length rx = 2036"
    using a(1,2) unfolding net_ok_def net_inv_def by (metis fst_conv snd_conv)
  ultimately show ?thesis using a(2,3) by (auto simp: net_inv_def exchange_def)
qed

lemma build_tx_ok:
  assumes "net_inv s" "n \<le> 1012" "\<And>txf. length txf = n \<Longrightarrow> holds (build txf) (\<lambda>(out, k). length out = n)"
  shows "holds (build_tx s n build) (\<lambda>(s', k). net_inv s' \<and> NET_IP s' = NET_IP s)"
proof -
  have l: "length (take n (n_tx s)) = n" using assms(1,2) by (simp add: net_inv_def)
  then obtain out k where "build (take n (n_tx s)) = Inr (out, k)" "length out = n" using assms(3) by (fastforce simp: holds_iff)
  then show ?thesis using assms(1,2) l by (simp add: build_tx_def slice_def put_at_fits net_inv_def)
qed

lemma received_ok: "net_inv s \<Longrightarrow> returns (received s n)"
  by (simp add: received_def net_inv_def slice_def returns_iff)

lemma udp_build_length:
  assumes "length src_mac = 6" "length dst_mac = 6" "length src_ip = 4" "length dst_ip = 4" "42 + length payload \<le> length frame"
  shows "holds (udp_build src_mac dst_mac src_ip dst_ip src_port dst_port ident payload frame) (\<lambda>(out, k). length out = length frame)"
proof -
  obtain h c where "udp_build src_mac dst_mac src_ip dst_ip src_port dst_port ident payload frame =
      Inr (overlay frame 0 (udp_frame dst_mac src_mac h src_port dst_port payload), 42 + length payload)"
    and h: "h = ip_header src_ip dst_ip PROTO_UDP (8 + length payload) ident c"
    using udp_build_ok [OF assms, of src_port dst_port ident] by blast
  moreover have "length (udp_frame dst_mac src_mac h src_port dst_port payload) = 42 + length payload"
    using h assms by (simp add: udp_frame_def)
  ultimately show ?thesis using assms(5) by simp
qed

lemma build_echo_request_length:
  assumes "length src_mac = 6" "length dst_mac = 6" "length src_ip = 4" "length dst_ip = 4" "42 + length payload \<le> length frame"
    "length payload \<le> 65536"
  shows "holds (build_echo_request src_mac dst_mac src_ip dst_ip ident seq payload frame) (\<lambda>(out, k). length out = length frame \<and> k = 42 + length payload)"
proof -
  obtain h c k where "build_echo_request src_mac dst_mac src_ip dst_ip ident seq payload frame =
      Inr (overlay frame 0 (eth_header dst_mac src_mac @ h @ echo_msg ICMP_ECHO_REQUEST c (be_bytes 2 ident @ be_bytes 2 seq @ payload)), 42 + length payload)"
    and h: "h = ip_header src_ip dst_ip PROTO_ICMP (8 + length payload) ident k"
    using build_echo_request_ok [OF assms, of ident seq] by blast
  then show ?thesis using h assms by simp
qed

lemma arp_build_length:
  assumes "length mac = 6" "length ip = 4" "length target = 4" "42 \<le> length frame"
  shows "holds (arp_build_request mac ip target frame) (\<lambda>(out, k). length out = length frame)"
proof -
  let ?ws = "[(0, replicate 6 0xff), (6, mac), (12, be_bytes 2 ETHERTYPE_ARP),
        (14, be_bytes 2 (1 :: u16)), (16, be_bytes 2 (0x0800 :: u16)), (18, [6]), (19, [4]),
        (20, be_bytes 2 ARP_REQUEST), (22, mac), (28, ip), (32, replicate 6 0), (38, target)]"
  have "\<exists>ys. put_all frame ?ws = Inr ys \<and> length ys = length frame" by (rule put_all_fits) (use assms in simp)
  then show ?thesis using assms(4) by (auto simp: arp_build_request_def ARP_FRAME_LEN_def assertr_def simp del: put_all.simps)
qed

lemma build_discover_length:
  assumes "length mac = 6"
  shows "holds (build_discover xid mac (replicate DISCOVER_LEN 0)) (\<lambda>(p, k). length p = 244)"
proof -
  let ?ws = "[(0, replicate DISCOVER_LEN 0), (0, [OP_REQUEST]), (1, [1]), (2, [6]), (4, be_bytes 4 xid),
        (10, be_bytes 2 (0x8000 :: u16)), (28, mac), (236, MAGIC), (240, [53]), (241, [1]), (242, [MSG_DISCOVER]), (243, [255])]"
  have "\<exists>ys. put_all (replicate DISCOVER_LEN 0) ?ws = Inr ys \<and> length ys = length (replicate DISCOVER_LEN (0 :: u8))"
    by (rule put_all_fits) (use assms in \<open>simp add: DISCOVER_LEN_def BOOTP_FIXED_def MAGIC_def\<close>)
  then show ?thesis by (auto simp: build_discover_def assertr_def DISCOVER_LEN_def BOOTP_FIXED_def simp del: put_all.simps)
qed

lemma dhcp_request_length:
  assumes "length mac = 6" "length ip = 4" "length sid = 4"
  shows "holds (dhcp_build_request xid mac ip sid (replicate REQUEST_LEN 0)) (\<lambda>(p, k). length p = 256)"
proof -
  let ?ws = "[(0, replicate REQUEST_LEN 0), (0, [OP_REQUEST]), (1, [1]), (2, [6]), (4, be_bytes 4 xid),
        (10, be_bytes 2 (0x8000 :: u16)), (28, mac), (236, MAGIC),
        (240, [53]), (241, [1]), (242, [MSG_REQUEST]), (243, [50]), (244, [4]), (245, ip), (249, [54]), (250, [4]), (251, sid), (255, [255])]"
  have "\<exists>ys. put_all (replicate REQUEST_LEN 0) ?ws = Inr ys \<and> length ys = length (replicate REQUEST_LEN (0 :: u8))"
    by (rule put_all_fits) (use assms in \<open>simp add: REQUEST_LEN_def BOOTP_FIXED_def MAGIC_def\<close>)
  then show ?thesis by (auto simp: dhcp_build_request_def assertr_def REQUEST_LEN_def BOOTP_FIXED_def simp del: put_all.simps)
qed

lemma dhcp_round_ok:
  assumes "net_ok net" "net_inv s" "length mac = 6" "length payload \<le> 470"
  shows "holds (dhcp_round net s mac payload) (\<lambda>(s', p). net_inv s' \<and> NET_IP s' = NET_IP s)"
proof -
  let ?b = "build_tx s 512 (udp_build mac (replicate 6 0xff) [0, 0, 0, 0] [255, 255, 255, 255] CLIENT_PORT SERVER_PORT 0 payload)"
  have "holds ?b (\<lambda>(s', k). net_inv s' \<and> NET_IP s' = NET_IP s)"
    by (rule build_tx_ok [OF assms(2)]) (use assms in \<open>auto intro!: udp_build_length [THEN holds_mono]\<close>)
  then obtain s1 k where b: "?b = Inr (s1, k)" "net_inv s1" "NET_IP s1 = NET_IP s" by (auto simp: holds_iff)
  obtain s2 n where e: "exchange net s1 k = (s2, n)" by (metis surj_pair)
  have k2: "net_inv s2" "NET_IP s2 = NET_IP s" using exchange_ok [OF assms(1) b(2) e] b(3) by simp_all
  obtain f where f: "received s2 n = Inr f" using received_ok [OF k2(1)] by (auto simp: returns_iff)
  obtain p where "udp_parse f CLIENT_PORT = Inr p" using udp_parse_returns [of f CLIENT_PORT] by (auto simp: returns_iff)
  then show ?thesis using b(1) e f k2 by (simp add: dhcp_round_def)
qed

text \<open>An acknowledgement, byte by byte: a reply that carries the client's transaction id and the DHCP cookie, whose message
  type option says ACK, and which names the address.\<close>

definition acknowledges :: "bytes \<Rightarrow> bytes \<Rightarrow> bool" where
  "acknowledges p ip \<longleftrightarrow> 240 \<le> length p \<and> p ! 0 = OP_REPLY \<and> field 4 4 p = be_bytes 4 XID \<and> field 236 4 p = MAGIC \<and>
     (\<exists>rest. dhcp_option (drop 240 p) 53 0 = Inr (Some (MSG_ACK # rest))) \<and> ip = field 16 4 p"

text \<open>The exchange as the network sees it: the payload that answered the DISCOVER is an offer, and the payload that answered the
  REQUEST for the offered address is an acknowledgement of \<open>ip\<close>.\<close>

definition granted :: "'w net \<Rightarrow> 'w net_state \<Rightarrow> bytes \<Rightarrow> bool" where
  "granted net s ip \<longleftrightarrow> (\<exists>disc n s1 p1 ofr req m s2 p2.
     build_discover XID SRC_MAC (replicate DISCOVER_LEN 0) = Inr (disc, n) \<and> dhcp_round net s SRC_MAC disc = Inr (s1, Some p1) \<and>
     parse_offer p1 XID = Inr (Some ofr) \<and>
     dhcp_build_request XID SRC_MAC (yiaddr ofr) (server_id ofr) (replicate REQUEST_LEN 0) = Inr (req, m) \<and>
     dhcp_round net s1 SRC_MAC req = Inr (s2, Some p2) \<and> acknowledges p2 ip)"

text \<open>The address the client uses afterwards: the granted one, and its old one when none was granted.\<close>

definition leased :: "'w net \<Rightarrow> 'w net_state \<Rightarrow> bytes \<Rightarrow> bool" where
  "leased net s ip \<longleftrightarrow> granted net s ip \<or> (\<forall>a. \<not> granted net s a) \<and> ip = NET_IP s"

lemma leased_unique: "leased net s a \<Longrightarrow> leased net s b \<Longrightarrow> a = b"
  by (auto simp: leased_def granted_def acknowledges_def)

lemma is_reply_ack: "is_reply p XID MSG_ACK = Inr True \<longleftrightarrow> acknowledges p (field 16 4 p)"
proof (cases "240 \<le> length p")
  case True
  then have "0 < length p" "slice p 4 8 = Inr (field 4 4 p)" "slice p 236 240 = Inr (field 236 4 p)"
    by (auto simp: slice_def field_def)
  moreover obtain v where v: "dhcp_option (drop 240 p) 53 0 = Inr v"
    using dhcp_option_returns [of "drop 240 p" 53 0] by (auto simp: returns_iff)
  moreover have "(case v of Some (t # _) \<Rightarrow> t = MSG_ACK | _ \<Rightarrow> False) \<longleftrightarrow> (\<exists>rest. v = Some (MSG_ACK # rest))"
    by (auto split: option.splits list.splits)
  ultimately show ?thesis using True by (simp add: is_reply_def acknowledges_def idx_def)
next
  case False
  then show ?thesis by (simp add: is_reply_def acknowledges_def)
qed

lemma parse_ack_cases:
  "acknowledges p (field 16 4 p) \<Longrightarrow> parse_ack p XID = Inr (Some (field 16 4 p))"
  "\<not> acknowledges p (field 16 4 p) \<Longrightarrow> parse_ack p XID = Inr None"
proof -
  obtain b where b: "is_reply p XID MSG_ACK = Inr b" using is_reply_returns [of p XID MSG_ACK] by (auto simp: returns_iff)
  show "acknowledges p (field 16 4 p) \<Longrightarrow> parse_ack p XID = Inr (Some (field 16 4 p))"
    using is_reply_ack [of p] is_reply_length [of p XID MSG_ACK] by (simp add: parse_ack_def slice_def field_def)
  show "\<not> acknowledges p (field 16 4 p) \<Longrightarrow> parse_ack p XID = Inr None"
    using is_reply_ack [of p] b by (simp add: parse_ack_def)
qed

lemma src_mac_length: "length SRC_MAC = 6" "length GATEWAY = 4" "length RESOLVER = 4"
  by (simp_all add: SRC_MAC_def GATEWAY_def RESOLVER_def)

lemma net_lease_ok:
  assumes "net_ok net" "net_inv s"
  shows "holds (net_lease net s) (\<lambda>s'. net_inv s' \<and> leased net s (NET_IP s'))"
proof -
  note m = src_mac_length(1)
  obtain disc k where d: "build_discover XID SRC_MAC (replicate DISCOVER_LEN 0) = Inr (disc, k)" "length disc = 244"
    using build_discover_length [OF m, of XID] by (auto simp: holds_iff)
  obtain s1 p where r: "dhcp_round net s SRC_MAC disc = Inr (s1, p)" "net_inv s1" "NET_IP s1 = NET_IP s"
    using dhcp_round_ok [OF assms m, of disc] d(2) by (auto simp: holds_iff)
  obtain v where v: "(case p of None \<Rightarrow> Inr None | Some p \<Rightarrow> parse_offer p XID) = Inr v"
    and vl: "\<And>x. v = Some x \<Longrightarrow> length (yiaddr x) = 4 \<and> length (server_id x) = 4"
    using parse_offer_ok [of _ XID] by (cases p) (auto simp: holds_iff)
  show ?thesis
  proof (cases v)
    case None
    then have "\<not> granted net s a" for a using d(1) r(1) v by (auto simp: granted_def)
    then show ?thesis using d(1) r v None by (simp add: net_lease_def leased_def)
  next
    case (Some x)
    then obtain p1 where p1: "p = Some p1" "parse_offer p1 XID = Inr (Some x)" using v by (cases p) auto
    obtain req k' where q: "dhcp_build_request XID SRC_MAC (yiaddr x) (server_id x) (replicate REQUEST_LEN 0) = Inr (req, k')" "length req = 256"
      using dhcp_request_length [OF m, of "yiaddr x" "server_id x" XID] vl [OF Some] by (auto simp: holds_iff)
    obtain s2 p' where r': "dhcp_round net s1 SRC_MAC req = Inr (s2, p')" "net_inv s2" "NET_IP s2 = NET_IP s"
      using dhcp_round_ok [OF assms(1) r(2) m, of req] q(2) r(3) by (auto simp: holds_iff)
    have g: "granted net s a \<longleftrightarrow> (\<exists>p2. p' = Some p2 \<and> acknowledges p2 a)" for a
      using d(1) r(1) p1 q(1) r'(1) by (auto simp: granted_def)
    consider p2 where "p' = Some p2" "acknowledges p2 (field 16 4 p2)" | "\<forall>p2. p' = Some p2 \<longrightarrow> \<not> acknowledges p2 (field 16 4 p2)" by blast
    then show ?thesis
    proof cases
      case 1
      then have "net_lease net s = Inr (s2\<lparr>NET_IP := field 16 4 p2\<rparr>)"
        using d(1) r(1) p1 q(1) r'(1) parse_ack_cases(1) by (simp add: net_lease_def)
      moreover have "length (field 16 4 p2) = 4" using 1(2) unfolding acknowledges_def by (auto simp: field_def)
      ultimately show ?thesis using 1 g r'(2) by (auto simp: leased_def net_inv_def)
    next
      case 2
      then have "net_lease net s = Inr s2"
        using d(1) r(1) p1 q(1) r'(1) parse_ack_cases(2) by (cases p') (simp_all add: net_lease_def)
      moreover have "\<not> granted net s a" for a using 2 g by (auto simp: acknowledges_def)
      ultimately show ?thesis using r'(2,3) by (simp add: leased_def)
    qed
  qed
qed

lemma net_arp_ok:
  assumes "net_ok net" "net_inv s"
  shows "holds (net_arp net s) (\<lambda>(s', gw). net_inv s' \<and> NET_IP s' = NET_IP s \<and> (\<forall>mac. gw = Some mac \<longrightarrow> length mac = 6))"
proof -
  let ?b = "build_tx s ARP_FRAME_LEN (arp_build_request SRC_MAC (NET_IP s) GATEWAY)"
  have ip: "length (NET_IP s) = 4" using assms(2) by (simp add: net_inv_def)
  have "holds ?b (\<lambda>(s', k). net_inv s' \<and> NET_IP s' = NET_IP s)"
    by (rule build_tx_ok [OF assms(2)])
      (use ip src_mac_length in \<open>auto simp: ARP_FRAME_LEN_def intro!: arp_build_length [THEN holds_mono]\<close>)
  then obtain s1 k where b: "?b = Inr (s1, k)" "net_inv s1" "NET_IP s1 = NET_IP s" by (auto simp: holds_iff)
  obtain s2 n where e: "exchange net s1 k = (s2, n)" by (metis surj_pair)
  have k2: "net_inv s2" "NET_IP s2 = NET_IP s" using exchange_ok [OF assms(1) b(2) e] b(3) by simp_all
  have sl: "slice (n_rx s2) 0 ARP_FRAME_LEN = Inr (take 42 (n_rx s2))" using k2(1) by (simp add: net_inv_def slice_def ARP_FRAME_LEN_def)
  obtain gw where gw: "arp_parse_reply (take 42 (n_rx s2)) GATEWAY = Inr gw"
    using arp_parse_reply_returns [of "take 42 (n_rx s2)" GATEWAY] by (auto simp: returns_iff)
  have "\<forall>mac. gw = Some mac \<longrightarrow> length mac = 6"
    using gw k2(1) by (auto simp: arp_parse_reply_def net_inv_def slice_def be16_at_ok ARP_FRAME_LEN_def split: if_splits)
  then show ?thesis using b(1) e sl gw k2 by (simp add: net_arp_def)
qed

lemma net_ping_ok:
  assumes "net_ok net" "net_inv s" "length mac = 6" "length dst = 4" "length payload \<le> 86"
  shows "holds (net_ping net s mac dst ident payload) (\<lambda>(s', ok). net_inv s' \<and> NET_IP s' = NET_IP s)"
proof -
  let ?b = "build_tx s 128 (build_echo_request SRC_MAC mac (NET_IP s) dst ident 0 payload)"
  have ip: "length (NET_IP s) = 4" using assms(2) by (simp add: net_inv_def)
  have "holds ?b (\<lambda>(s', k). net_inv s' \<and> NET_IP s' = NET_IP s)"
    by (rule build_tx_ok [OF assms(2)])
      (use ip src_mac_length assms in \<open>auto intro!: build_echo_request_length [THEN holds_mono]\<close>)
  then obtain s1 k where b: "?b = Inr (s1, k)" "net_inv s1" "NET_IP s1 = NET_IP s" by (auto simp: holds_iff)
  obtain s2 n where e: "exchange net s1 k = (s2, n)" by (metis surj_pair)
  have k2: "net_inv s2" "NET_IP s2 = NET_IP s" using exchange_ok [OF assms(1) b(2) e] b(3) by simp_all
  obtain f where f: "received s2 n = Inr f" using received_ok [OF k2(1)] by (auto simp: returns_iff)
  obtain ok where "parse_echo_reply f ident 0 = Inr ok" using parse_echo_reply_returns [of f ident 0] by (auto simp: returns_iff)
  then show ?thesis using b(1) e f k2 by (simp add: net_ping_def)
qed

lemma build_echo_reply_returns: "length f \<le> 131072 \<Longrightarrow> length f \<le> length out \<Longrightarrow> returns (build_echo_reply f out)"
  using build_echo_reply_ok [of f out] build_echo_reply_refused [of f out] by (cases "icmp_frame f") (auto simp: returns_iff)

lemma net_inbound_ok:
  assumes "net_inv s" "length mac = 6"
  shows "net_inbound s mac = Inr True"
proof -
  have ip: "length (NET_IP s) = 4" using assms(1) by (simp add: net_inv_def)
  have l: "length (lit ''loopback'') = 8" by (simp add: lit_def)
  obtain fr fr' where "build_echo_request mac SRC_MAC GATEWAY (NET_IP s) 0x4321 0 (lit ''loopback'') (replicate 64 0) = Inr (fr, 50)"
    "is_echo_request (take 50 fr) (NET_IP s) = Inr True" "build_echo_reply (take 50 fr) (replicate 64 0) = Inr (fr', Some 50)"
    using ping_answered [OF assms(2) src_mac_length(1,2) ip, where payload = "lit ''loopback''" and frame = "replicate 64 0" and out = "replicate 64 0"
      and ident = "0x4321" and seq = 0 and ip = "NET_IP s" and i = 0 and q = 0] l
    by auto
  moreover have "length fr = 64"
    using build_echo_request_length [OF assms(2) src_mac_length(1,2) ip, where payload = "lit ''loopback''" and frame = "replicate 64 0"
      and ident = "0x4321" and seq = 0] calculation(1) l by simp
  ultimately show ?thesis by (simp add: net_inbound_def slice_def)
qed

lemma example_query: "length (wire_name (split_on 46 (lit ''example.com''))) = 12"
  by (simp add: lit_def wire_name_def)

lemma net_dns_ok:
  assumes "net_ok net" "net_inv s" "length mac = 6"
  shows "holds (net_dns net s mac) (\<lambda>(s', ip, ok). net_inv s' \<and> NET_IP s' = NET_IP s)"
proof -
  have ip: "length (NET_IP s) = 4" using assms(2) by (simp add: net_inv_def)
  obtain q where q: "build_query (lit ''example.com'') 0xABCD (replicate 64 0) = Inr (q, 29)" "length q = 64"
    using build_query_ok [of "lit ''example.com''" "replicate 64 0" "0xABCD"] example_query by (simp add: query_def)
  let ?b = "build_tx s 512 (udp_build SRC_MAC mac (NET_IP s) RESOLVER 0xC000 53 0 (take 29 q))"
  have "holds ?b (\<lambda>(s', k). net_inv s' \<and> NET_IP s' = NET_IP s)"
    by (rule build_tx_ok [OF assms(2)]) (use ip src_mac_length assms in \<open>auto intro!: udp_build_length [THEN holds_mono]\<close>)
  then obtain s1 k where b: "?b = Inr (s1, k)" "net_inv s1" "NET_IP s1 = NET_IP s" by (auto simp: holds_iff)
  obtain s2 n where e: "exchange net s1 k = (s2, n)" by (metis surj_pair)
  have k2: "net_inv s2" "NET_IP s2 = NET_IP s" using exchange_ok [OF assms(1) b(2) e] b(3) by simp_all
  obtain f where f: "received s2 n = Inr f" using received_ok [OF k2(1)] by (auto simp: returns_iff)
  obtain p where p: "udp_parse f 0xC000 = Inr p" using udp_parse_returns [of f "0xC000"] by (auto simp: returns_iff)
  obtain a where a: "(case p of None \<Rightarrow> Inr None | Some p \<Rightarrow> parse_response p 0xABCD) = Inr a" "\<And>ip. a = Some ip \<Longrightarrow> length ip = 4"
    using parse_response_ok [of "the p" "0xABCD"] by (cases p) (auto simp: holds_iff)
  have ping: "holds (net_ping net s2 mac x 0x5555 (lit ''dns-ping'')) (\<lambda>(s', ok). net_inv s' \<and> NET_IP s' = NET_IP s)" if "a = Some x" for x
    using net_ping_ok [OF assms(1) k2(1) assms(3) a(2) [OF that], where payload = "lit ''dns-ping''" and ident = "0x5555"] k2(2) by (simp add: lit_def)
  show ?thesis
    using q b(1) e f p a(1) k2 ping by (cases a) (auto simp: net_dns_def slice_def holds_iff)
qed

section \<open>Properties\<close>

text \<open>C9: A hostile network cannot panic the kernel. Whatever bytes and lengths the driver delivers in
  each exchange, the whole client (lease, ARP, pings, responder, DNS) returns: every parser stays in
  bounds and every frame fits its buffer. The address it uses afterwards is exactly the one in the
  acknowledgement received in answer to its REQUEST for the offered address, an acknowledgement that carries its transaction
  id, and the one it had when the network sent none; the responder answers whenever the gateway was resolved.\<close>
theorem net_client_never_panics:
  assumes "net_ok net" "net_inv s"
  shows "\<exists>s' r. net_client net s = Inr (s', r) \<and> net_inv s' \<and> leased net s (NET_IP s') \<and> inbound r = (gw_mac r \<noteq> None)"
proof -
  obtain s1 where 1: "net_lease net s = Inr s1" "net_inv s1" "leased net s (NET_IP s1)"
    using net_lease_ok [OF assms] by (auto simp: holds_iff)
  obtain s2 gw where 2: "net_arp net s1 = Inr (s2, gw)" "net_inv s2" "NET_IP s2 = NET_IP s1" "\<And>mac. gw = Some mac \<Longrightarrow> length mac = 6"
    using net_arp_ok [OF assms(1) 1(2)] by (auto simp: holds_iff)
  obtain s3 ok where 3: "(case gw of None \<Rightarrow> Inr (s2, False) | Some mac \<Rightarrow> net_ping net s2 mac GATEWAY 0x1234 (lit ''kernelOS'')) = Inr (s3, ok)"
    "net_inv s3" "NET_IP s3 = NET_IP s1"
    using net_ping_ok [OF assms(1) 2(2), where mac = "the gw" and dst = GATEWAY and payload = "lit ''kernelOS''" and ident = "0x1234"] 2 src_mac_length(2)
    by (cases gw) (auto simp: holds_iff lit_def)
  have 4: "(case gw of None \<Rightarrow> Inr False | Some mac \<Rightarrow> net_inbound s3 mac) = Inr (gw \<noteq> None)"
    using net_inbound_ok [OF 3(2)] 2(4) by (cases gw) auto
  obtain s4 dns dok where 5: "(case gw of None \<Rightarrow> Inr (s3, None, False) | Some mac \<Rightarrow> net_dns net s3 mac) = Inr (s4, dns, dok)"
    "net_inv s4" "NET_IP s4 = NET_IP s1"
    using net_dns_ok [OF assms(1) 3(2), of "the gw"] 2(4) 3 by (cases gw) (auto simp: holds_iff)
  obtain w rx n where 6: "net (n_world s4) (n_tx s4) (n_rx s4) 0 = (w, rx, n)" by (metis surj_pair)
  have "length rx = 2036" using assms(1) 5(2) 6 unfolding net_ok_def net_inv_def by (metis fst_conv snd_conv)
  then show ?thesis using 1 2(1) 3(1) 4 5 6 by (simp add: net_client_def net_inv_def)
qed

definition net_start :: "unit net_state" where
  "net_start = \<lparr>n_world = (), n_tx = replicate 1012 0, n_rx = replicate 2036 0, NET_IP = replicate 4 0\<rparr>"

theorem net_client_never_panics_witness:
  "\<exists>net s s' r. net_client (net :: unit net) s = Inr (s', r) \<and> inbound r = (gw_mac r \<noteq> None)"
proof -
  have "net_ok (\<lambda>w tx rx n. (w, replicate (length rx) 7, n) :: unit \<times> bytes \<times> usize)" by (simp add: net_ok_def)
  moreover have "net_inv net_start" by (simp add: net_inv_def net_start_def)
  ultimately show ?thesis using net_client_never_panics by blast
qed

text \<open>C35: A DNS answer to the kernel's own query is found. For every host name whose labels are of
  lawful length, \<open>build_query\<close> writes the query in wire form; a response that repeats the question,
  sets the response bit and appends one address record by a compression pointer is parsed to that
  address under the query's id, and refused under any other.\<close>
theorem dns_answer_found:
  assumes "list_all (\<lambda>l. 0 < length l \<and> length l < 64) (split_on 46 name)" "17 + length (wire_name (split_on 46 name)) \<le> length out"
    "flags AND 0x8000 \<noteq> 0" "length counts = 4" "length ttl = 4" "length ip = 4"
  shows "build_query name txid out =
      Inr (overlay out 0 (query txid 0x0100 0 (replicate 4 0) name), 17 + length (wire_name (split_on 46 name))) \<and>
    parse_response (query txid flags 1 counts name @ [0xc0, 0x0c] @ be_bytes 2 (1 :: u16) @ be_bytes 2 (1 :: u16) @ ttl @
      be_bytes 2 (4 :: u16) @ ip) tid = Inr (if tid = txid then Some ip else None)"
proof (intro conjI)
  show "build_query name txid out =
      Inr (overlay out 0 (query txid 0x0100 0 (replicate 4 0) name), 17 + length (wire_name (split_on 46 name)))"
    by (rule build_query_ok [OF assms(2)])
  let ?w = "wire_name (split_on 46 name)" and ?one = "be_bytes 2 (1 :: u16)"
  let ?hd = "be_bytes 2 txid @ be_bytes 2 flags @ ?one @ ?one @ counts"
  let ?an = "[0xc0, 0x0c] @ ?one @ ?one @ ttl @ be_bytes 2 (4 :: u16) @ ip"
  define p where "p = query txid flags 1 counts name @ ?an"
  define i where "i = 17 + length ?w"
  have hd: "length ?hd = 12" using assms(4) by simp
  have p: "p = ?hd @ ?w @ [0] @ (?one @ ?one) @ ?an" by (simp add: p_def query_def)
  obtain pre where p': "p = pre @ ?an" and li: "length pre = i"
  proof
    show "p = (?hd @ ?w @ [0] @ ?one @ ?one) @ ?an" by (simp add: p)
    show "length (?hd @ ?w @ [0] @ ?one @ ?one) = i" using hd by (simp add: i_def)
  qed
  have lp: "length p = i + 16" using li assms(5,6) unfolding p' by simp
  have q1: "skip_questions p 12 1 = Some i"
    using skip_name_labels [OF assms(1), of 12 ?hd "(?one @ ?one) @ ?an"] hd unfolding p i_def by simp
  have "p ! i = 0xc0" unfolding p' using li by (simp add: nth_append)
  then have q2: "skip_name p i = Some (i + 2)" using lp by (subst skip_name.simps) (simp add: get_def)
  have fld: "field (i + k) n p = field k n ?an" for k n unfolding p' using li by (simp add: field_def)
  have a: "be16_at p (i + 2) = Inr 1" "be16_at p (i + 10) = Inr 4"
  proof -
    have "field (i + 2) 2 p = ?one" "field (i + 10) 2 p = be_bytes 2 (4 :: u16)"
      unfolding fld using assms(5) by (simp_all add: field_def)
    then show "be16_at p (i + 2) = Inr 1" "be16_at p (i + 10) = Inr 4"
      using lp be16_at_ok [of "i + 2" p] be16_at_ok [of "i + 10" p] by (simp_all del: add_2_eq_Suc')
  qed
  have ipb: "p ! (i + 12 + k) = ip ! k" if "k < 4" for k unfolding p' using li assms(5) that by (simp add: nth_append)
  obtain x y z u where xs: "ip = [x, y, z, u]" using assms(6) by (auto simp: numeral_eq_Suc length_Suc_conv)
  obtain r :: u16 where r: "be16_at p (i + 10) = Inr r" "unat r = 4" using a(2) by simp
  have ans: "find_answer p i 1 = Inr (Some ip)"
    using q2 a(1) r lp ipb [of 0] ipb [of 1] ipb [of 2] ipb [of 3] xs
    by (simp add: idx_def Let_def numeral_eq_Suc)
  have h: "be16_at p 0 = Inr txid" "be16_at p 2 = Inr flags" "be16_at p 4 = Inr 1" "be16_at p 6 = Inr 1"
    using lp by (simp_all add: be16_at_ok i_def p field_skip field_here)
  have one: "unat (1 :: u16) = 1" by simp
  show "parse_response (query txid flags 1 counts name @ ?an) tid = Inr (if tid = txid then Some ip else None)"
    unfolding p_def [symmetric] using h q1 ans assms(3) lp by (auto simp: parse_response_def i_def)
qed

theorem dns_answer_found_witness:
  "parse_response (query 7 0x8180 1 (replicate 4 0) (lit ''example.com'') @ [0xc0, 0x0c] @ be_bytes 2 (1 :: u16) @ be_bytes 2 (1 :: u16) @
     [0, 0, 1, 44] @ be_bytes 2 (4 :: u16) @ [93, 184, 216, 34]) 7 = Inr (Some [93, 184, 216, 34])"
proof -
  have l: "list_all (\<lambda>l. 0 < length l \<and> length l < 64) (split_on 46 (lit ''example.com''))" by (simp add: lit_def)
  have w: "17 + length (wire_name (split_on 46 (lit ''example.com''))) \<le> length (replicate 64 (0 :: u8))" using example_query by simp
  have f: "(0x8180 :: u16) AND 0x8000 \<noteq> 0" by simp
  show ?thesis
    using dns_answer_found [OF l w f, of "replicate 4 0" "[0, 0, 1, 44]" "[93, 184, 216, 34]" 7 7] by simp
qed

end
