(* ===== verification/Virtio.thy ===== *)
theory Virtio
  imports Devices
begin

unbundle bit_operations_syntax

text \<open>
  The virtio transport under the user-space drivers of \<^verbatim>\<open>src/kernel/src/main.rs\<close>: register and page
  accesses, the status handshake and the set-up of a queue. A driver sees a device and one page of
  memory it shares with it. The page is a list of 4096 bytes; an address in it is the page's physical
  address \<open>pa\<close> plus an offset, which does not overflow because the page lies in memory.

  The device is not code of the repository. It is the parameter \<open>virtio_dev\<close>: register accesses and what
  it does to the page until its interrupt arrives. The laws used are those of the virtio documents: the
  register file (\<open>vregs_write\<close>), and how a device finds a descriptor chain that is published in the
  available ring (\<open>published\<close>, \<open>chained\<close>).
\<close>

section \<open>The device's registers\<close>

record 'd virtio_dev =
  dv_write :: "'d \<Rightarrow> nat \<Rightarrow> u32 \<Rightarrow> 'd"
  dv_read :: "'d \<Rightarrow> nat \<Rightarrow> u32"
  dv_wait :: "'d \<Rightarrow> bytes \<Rightarrow> 'd \<times> bytes"

definition DEVICE_FEATURES :: nat where "DEVICE_FEATURES = 0x010"
definition DEVICE_FEATURES_SEL :: nat where "DEVICE_FEATURES_SEL = 0x014"
definition DRIVER_FEATURES :: nat where "DRIVER_FEATURES = 0x020"
definition DRIVER_FEATURES_SEL :: nat where "DRIVER_FEATURES_SEL = 0x024"
definition QUEUE_SEL :: nat where "QUEUE_SEL = 0x030"
definition QUEUE_NUM :: nat where "QUEUE_NUM = 0x038"
definition QUEUE_READY :: nat where "QUEUE_READY = 0x044"
definition QUEUE_NOTIFY :: nat where "QUEUE_NOTIFY = 0x050"
definition INTERRUPT_STATUS :: nat where "INTERRUPT_STATUS = 0x060"
definition INTERRUPT_ACK :: nat where "INTERRUPT_ACK = 0x064"
definition STATUS :: nat where "STATUS = 0x070"
definition QUEUE_DESC_LOW :: nat where "QUEUE_DESC_LOW = 0x080"
definition QUEUE_DESC_HIGH :: nat where "QUEUE_DESC_HIGH = 0x084"
definition QUEUE_DRIVER_LOW :: nat where "QUEUE_DRIVER_LOW = 0x090"
definition QUEUE_DRIVER_HIGH :: nat where "QUEUE_DRIVER_HIGH = 0x094"
definition QUEUE_DEVICE_LOW :: nat where "QUEUE_DEVICE_LOW = 0x0a0"
definition QUEUE_DEVICE_HIGH :: nat where "QUEUE_DEVICE_HIGH = 0x0a4"
definition STATUS_ACK :: u32 where "STATUS_ACK = 1"
definition STATUS_DRIVER :: u32 where "STATUS_DRIVER = 2"
definition STATUS_DRIVER_OK :: u32 where "STATUS_DRIVER_OK = 4"
definition STATUS_FEATURES_OK :: u32 where "STATUS_FEATURES_OK = 8"
definition F_VERSION_1_HI :: u32 where "F_VERSION_1_HI = 1"
definition VIRTQ_DESC_F_WRITE :: u16 where "VIRTQ_DESC_F_WRITE = 2"
definition VIRTQ_DESC_F_NEXT :: u16 where "VIRTQ_DESC_F_NEXT = 1"
definition BLK_T_IN :: u32 where "BLK_T_IN = 0"
definition BLK_T_OUT :: u32 where "BLK_T_OUT = 1"

lemmas virtio_consts = DEVICE_FEATURES_def DEVICE_FEATURES_SEL_def DRIVER_FEATURES_def DRIVER_FEATURES_SEL_def
  QUEUE_SEL_def QUEUE_NUM_def QUEUE_READY_def QUEUE_NOTIFY_def INTERRUPT_STATUS_def INTERRUPT_ACK_def STATUS_def
  QUEUE_DESC_LOW_def QUEUE_DESC_HIGH_def QUEUE_DRIVER_LOW_def QUEUE_DRIVER_HIGH_def QUEUE_DEVICE_LOW_def
  QUEUE_DEVICE_HIGH_def STATUS_ACK_def STATUS_DRIVER_def STATUS_DRIVER_OK_def STATUS_FEATURES_OK_def
  F_VERSION_1_HI_def VIRTQ_DESC_F_WRITE_def VIRTQ_DESC_F_NEXT_def BLK_T_IN_def BLK_T_OUT_def
  VQ_SIZE_def VQ_DESC_OFF_def VQ_AVAIL_OFF_def VQ_USED_OFF_def VQ_BUF_OFF_def
  BLK_HDR_OFF_def BLK_DATA_OFF_def BLK_STATUS_OFF_def BLK_SECTOR_SIZE_def

section \<open>The drivers\<close>

text \<open>What a driver task can reach: its device and the shared page.\<close>

record 'd drv =
  d_dev :: 'd
  d_page :: bytes

text \<open>A store to the page. The drivers' offsets lie inside it; nothing is said of stores outside.\<close>

definition store_page :: "bytes \<Rightarrow> nat \<Rightarrow> bytes \<Rightarrow> bytes" where
  "store_page f off src = (if off + length src \<le> length f then overlay f off src else f)"

lemma length_store_page [simp]: "length (store_page f off src) = length f"
  by (simp add: store_page_def)

lemma field_store_page [simp]:
  "n = length src \<Longrightarrow> off + length src \<le> length f \<Longrightarrow> field off n (store_page f off src) = src"
  "off + length src \<le> length f \<Longrightarrow> a + n \<le> off \<or> off + length src \<le> a \<Longrightarrow> field a n (store_page f off src) = field a n f"
  by (simp_all add: store_page_def)

definition mmio_w :: "'d virtio_dev \<Rightarrow> nat \<Rightarrow> u32 \<Rightarrow> 'd drv \<Rightarrow> 'd drv" where
  "mmio_w V off v s = s\<lparr>d_dev := dv_write V (d_dev s) off v\<rparr>"

definition mmio_r :: "'d virtio_dev \<Rightarrow> nat \<Rightarrow> 'd drv \<Rightarrow> u32" where
  "mmio_r V off s = dv_read V (d_dev s) off"

definition dma_w64 :: "nat \<Rightarrow> u64 \<Rightarrow> 'd drv \<Rightarrow> 'd drv" where
  "dma_w64 off v s = s\<lparr>d_page := store_page (d_page s) off (le_bytes 8 v)\<rparr>"

definition dma_w32 :: "nat \<Rightarrow> u32 \<Rightarrow> 'd drv \<Rightarrow> 'd drv" where
  "dma_w32 off v s = s\<lparr>d_page := store_page (d_page s) off (le_bytes 4 v)\<rparr>"

definition dma_w16 :: "nat \<Rightarrow> u16 \<Rightarrow> 'd drv \<Rightarrow> 'd drv" where
  "dma_w16 off v s = s\<lparr>d_page := store_page (d_page s) off (le_bytes 2 v)\<rparr>"

definition dma_w8 :: "nat \<Rightarrow> u8 \<Rightarrow> 'd drv \<Rightarrow> 'd drv" where
  "dma_w8 off v s = s\<lparr>d_page := store_page (d_page s) off [v]\<rparr>"

definition dma_r64 :: "nat \<Rightarrow> 'd drv \<Rightarrow> u64" where
  "dma_r64 off s = le_word (field off 8 (d_page s))"

definition dma_r32 :: "nat \<Rightarrow> 'd drv \<Rightarrow> u32" where
  "dma_r32 off s = le_word (field off 4 (d_page s))"

definition dma_r16 :: "nat \<Rightarrow> 'd drv \<Rightarrow> u16" where
  "dma_r16 off s = le_word (field off 2 (d_page s))"

definition dma_r8 :: "nat \<Rightarrow> 'd drv \<Rightarrow> u8" where
  "dma_r8 off s = le_word (field off 1 (d_page s))"

text \<open>\<^verbatim>\<open>wait_irq\<close> as the driver sees it: the device runs until it raises its interrupt.\<close>

definition sys_wait_irq :: "'d virtio_dev \<Rightarrow> 'd drv \<Rightarrow> 'd drv" where
  "sys_wait_irq V s = (case dv_wait V (d_dev s) (d_page s) of (d, f) \<Rightarrow> \<lparr>d_dev = d, d_page = f\<rparr>)"

text \<open>One queue's registers, and the status handshake around them.\<close>

definition virtio_queue_setup :: "'d virtio_dev \<Rightarrow> u32 \<Rightarrow> usize \<Rightarrow> usize \<Rightarrow> usize \<Rightarrow> 'd drv \<Rightarrow> 'd drv" where
  "virtio_queue_setup V q desc avail used s =
     (let s = mmio_w V QUEUE_SEL q s;
          s = mmio_w V QUEUE_NUM (word_of_nat VQ_SIZE) s;
          s = mmio_w V QUEUE_DESC_LOW (ucast desc) s;
          s = mmio_w V QUEUE_DESC_HIGH (ucast (drop_bit 32 desc)) s;
          s = mmio_w V QUEUE_DRIVER_LOW (ucast avail) s;
          s = mmio_w V QUEUE_DRIVER_HIGH (ucast (drop_bit 32 avail)) s;
          s = mmio_w V QUEUE_DEVICE_LOW (ucast used) s;
          s = mmio_w V QUEUE_DEVICE_HIGH (ucast (drop_bit 32 used)) s
      in mmio_w V QUEUE_READY 1 s)"

definition handshake :: "'d virtio_dev \<Rightarrow> 'd drv \<Rightarrow> 'd drv" where
  "handshake V s =
     (let s = mmio_w V STATUS 0 s;
          s = mmio_w V STATUS STATUS_ACK s;
          s = mmio_w V STATUS (STATUS_ACK OR STATUS_DRIVER) s;
          s = mmio_w V DEVICE_FEATURES_SEL 1 s;
          fhi = mmio_r V DEVICE_FEATURES s;
          s = mmio_w V DRIVER_FEATURES_SEL 1 s;
          s = mmio_w V DRIVER_FEATURES (fhi AND F_VERSION_1_HI) s;
          s = mmio_w V DRIVER_FEATURES_SEL 0 s;
          s = mmio_w V DRIVER_FEATURES 0 s
      in mmio_w V STATUS (STATUS_ACK OR STATUS_DRIVER OR STATUS_FEATURES_OK) s)"

definition driver_ok :: "'d virtio_dev \<Rightarrow> 'd drv \<Rightarrow> 'd drv" where
  "driver_ok V s = mmio_w V STATUS (STATUS_ACK OR STATUS_DRIVER OR STATUS_FEATURES_OK OR STATUS_DRIVER_OK) s"

abbreviation at :: "usize \<Rightarrow> nat \<Rightarrow> usize" where
  "at pa off \<equiv> pa + word_of_nat off"

definition virtio_queue_init :: "'d virtio_dev \<Rightarrow> usize \<Rightarrow> 'd drv \<Rightarrow> 'd drv" where
  "virtio_queue_init V pa s =
     driver_ok V (virtio_queue_setup V 0 (at pa VQ_DESC_OFF) (at pa VQ_AVAIL_OFF) (at pa VQ_USED_OFF) (handshake V s))"

section \<open>What the drivers rely on\<close>

text \<open>The register file of a virtio device: queue addresses are written in halves, to the selected queue;
  writing zero to the status register resets the device; a write of the notify register marks a queue.
  \<open>vr_next\<close> is the index of the available ring up to which the device has served a queue.\<close>

record vqueue =
  vq_num :: u32
  vq_desc :: u64
  vq_avail :: u64
  vq_used :: u64
  vq_ready :: u32

record vregs =
  vr_status :: u32
  vr_fsel :: u32
  vr_features :: "u32 \<Rightarrow> u32"
  vr_qsel :: u32
  vr_queue :: "u32 \<Rightarrow> vqueue"
  vr_next :: "u32 \<Rightarrow> u16"
  vr_notified :: "u32 \<Rightarrow> bool"

definition vq_reset :: vqueue where
  "vq_reset = \<lparr>vq_num = 0, vq_desc = 0, vq_avail = 0, vq_used = 0, vq_ready = 0\<rparr>"

definition vregs_reset :: vregs where
  "vregs_reset = \<lparr>vr_status = 0, vr_fsel = 0, vr_features = \<lambda>_. 0, vr_qsel = 0, vr_queue = \<lambda>_. vq_reset, vr_next = \<lambda>_. 0,
     vr_notified = \<lambda>_. False\<rparr>"

definition set_low :: "u64 \<Rightarrow> u32 \<Rightarrow> u64" where
  "set_low w v = (w AND NOT 0xffffffff) OR ucast v"

definition set_high :: "u64 \<Rightarrow> u32 \<Rightarrow> u64" where
  "set_high w v = (w AND 0xffffffff) OR push_bit 32 (ucast v)"

definition on_queue :: "vregs \<Rightarrow> (vqueue \<Rightarrow> vqueue) \<Rightarrow> vregs" where
  "on_queue r g = r\<lparr>vr_queue := (vr_queue r)(vr_qsel r := g (vr_queue r (vr_qsel r)))\<rparr>"

definition vregs_write :: "vregs \<Rightarrow> nat \<Rightarrow> u32 \<Rightarrow> vregs" where
  "vregs_write r off v =
     (if off = STATUS then (if v = 0 then vregs_reset else r\<lparr>vr_status := v\<rparr>)
      else if off = DRIVER_FEATURES_SEL then r\<lparr>vr_fsel := v\<rparr>
      else if off = DRIVER_FEATURES then r\<lparr>vr_features := (vr_features r)(vr_fsel r := v)\<rparr>
      else if off = QUEUE_SEL then r\<lparr>vr_qsel := v\<rparr>
      else if off = QUEUE_NUM then on_queue r (\<lambda>q. q\<lparr>vq_num := v\<rparr>)
      else if off = QUEUE_DESC_LOW then on_queue r (\<lambda>q. q\<lparr>vq_desc := set_low (vq_desc q) v\<rparr>)
      else if off = QUEUE_DESC_HIGH then on_queue r (\<lambda>q. q\<lparr>vq_desc := set_high (vq_desc q) v\<rparr>)
      else if off = QUEUE_DRIVER_LOW then on_queue r (\<lambda>q. q\<lparr>vq_avail := set_low (vq_avail q) v\<rparr>)
      else if off = QUEUE_DRIVER_HIGH then on_queue r (\<lambda>q. q\<lparr>vq_avail := set_high (vq_avail q) v\<rparr>)
      else if off = QUEUE_DEVICE_LOW then on_queue r (\<lambda>q. q\<lparr>vq_used := set_low (vq_used q) v\<rparr>)
      else if off = QUEUE_DEVICE_HIGH then on_queue r (\<lambda>q. q\<lparr>vq_used := set_high (vq_used q) v\<rparr>)
      else if off = QUEUE_READY then on_queue r (\<lambda>q. q\<lparr>vq_ready := v\<rparr>)
      else if off = QUEUE_NOTIFY then r\<lparr>vr_notified := (vr_notified r)(v := True)\<rparr>
      else r)"

definition has_regs :: "'d virtio_dev \<Rightarrow> ('d \<Rightarrow> vregs) \<Rightarrow> bool" where
  "has_regs V view \<longleftrightarrow> (\<forall>d off v. view (dv_write V d off v) = vregs_write (view d) off v)"

text \<open>A descriptor in the shared page, and the offset of an address in it.\<close>

record vdesc =
  dc_addr :: u64
  dc_len :: u32
  dc_flags :: u16
  dc_next :: u16

definition desc_at :: "bytes \<Rightarrow> nat \<Rightarrow> vdesc" where
  "desc_at f off = \<lparr>dc_addr = le_word (field off 8 f), dc_len = le_word (field (off + 8) 4 f),
     dc_flags = le_word (field (off + 12) 2 f), dc_next = le_word (field (off + 14) 2 f)\<rparr>"

definition offset_of :: "usize \<Rightarrow> u64 \<Rightarrow> nat" where
  "offset_of pa a = unat (a - pa)"

text \<open>The chain a device finds when it is notified: it is live, the ring's index is one past what it has
  served, and the entry at the old index names the first descriptor.\<close>

definition published :: "usize \<Rightarrow> vregs \<Rightarrow> u32 \<Rightarrow> bytes \<Rightarrow> nat option" where
  "published pa r q f =
     (let qu = vr_queue r q; avail = offset_of pa (vq_avail qu); n = vr_next r q
      in if vr_status r = 15 \<and> vq_ready qu = 1 \<and> le_word (field (avail + 2) 2 f) = n + 1
         then Some (unat (le_word (field (avail + 4 + unat n mod unat (vq_num qu) * 2) 2 f) :: u16))
         else None)"

text \<open>The registers after a device has served the chain it was notified of.\<close>

definition served :: "vregs \<Rightarrow> u32 \<Rightarrow> vregs" where
  "served r q = r\<lparr>vr_next := (vr_next r)(q := vr_next r q + 1), vr_notified := (vr_notified r)(q := False)\<rparr>"

lemma served_simps [simp]:
  "vr_status (served r q) = vr_status r" "vr_queue (served r q) = vr_queue r" "vr_next (served r q) q = vr_next r q + 1"
  by (simp_all add: served_def)

definition chained :: "usize \<Rightarrow> vregs \<Rightarrow> u32 \<Rightarrow> bytes \<Rightarrow> nat \<Rightarrow> vdesc" where
  "chained pa r q f i = desc_at f (offset_of pa (vq_desc (vr_queue r q)) + 16 * i)"

lemma notified_simps [simp]:
  "chained pa (r\<lparr>vr_notified := n\<rparr>) q f i = chained pa r q f i" "published pa (r\<lparr>vr_notified := n\<rparr>) q f = published pa r q f"
  by (simp_all add: chained_def published_def)

section \<open>The handshake\<close>

lemma set_halves: "set_high (set_low w (ucast x)) (ucast (drop_bit 32 x)) = x" for x :: u64
proof (rule bit_word_eqI)
  fix i assume "i < LENGTH(64)"
  have m: "(0xffffffff :: u64) = mask 32" by (simp add: mask_eq_exp_minus_1)
  show "bit (set_high (set_low w (ucast x)) (ucast (drop_bit 32 x))) i = bit x i"
    using \<open>i < _\<close> by (auto simp: set_high_def set_low_def m bit_simps)
qed

lemma offset_of_simps [simp]: "offset_of pa (pa + w) = unat w" "offset_of pa pa = 0"
  by (simp_all add: offset_of_def)

lemmas bring_up_defs = handshake_def virtio_queue_setup_def driver_ok_def Let_def mmio_w_def

lemma handshake_view:
  assumes "has_regs V view"
  shows "\<exists>feat. view (d_dev (handshake V s)) = vregs_reset\<lparr>vr_status := 11, vr_features := (\<lambda>_. 0)(1 := feat AND F_VERSION_1_HI)\<rparr>"
  using assms
  by (simp add: has_regs_def bring_up_defs vregs_write_def vregs_reset_def virtio_consts fun_eq_iff) blast

lemma queue_setup_view:
  assumes "has_regs V view"
  shows "view (d_dev (virtio_queue_setup V q desc avail used s)) =
     (view (d_dev s))\<lparr>vr_qsel := q, vr_queue := (vr_queue (view (d_dev s)))
        (q := \<lparr>vq_num = 8, vq_desc = desc, vq_avail = avail, vq_used = used, vq_ready = 1\<rparr>)\<rparr>"
  using assms
  by (simp add: has_regs_def bring_up_defs vregs_write_def on_queue_def set_halves virtio_consts fun_eq_iff)

lemma driver_ok_view: "has_regs V view \<Longrightarrow> view (d_dev (driver_ok V s)) = (view (d_dev s))\<lparr>vr_status := 15\<rparr>"
  by (simp add: has_regs_def bring_up_defs vregs_write_def virtio_consts)

lemma bring_up_page [simp]:
  "d_page (handshake V s) = d_page s" "d_page (virtio_queue_setup V q desc avail used s) = d_page s" "d_page (driver_ok V s) = d_page s"
  by (simp_all add: bring_up_defs)

lemma nth_le_word: "i < length f \<Longrightarrow> le_word (field i 1 f) = f ! i"
  by (simp add: field_def take_Suc_conv_app_nth Cons_nth_drop_Suc [symmetric])

lemma field_eqI:
  assumes "length f' = length f" "a + n \<le> length f" "\<And>i. a \<le> i \<Longrightarrow> i < a + n \<Longrightarrow> f' ! i = f ! i"
  shows "field a n f' = field a n f"
  by (rule nth_equalityI) (use assms in \<open>simp_all add: nth_field\<close>)

end
