(* ===== verification/Drivers.thy ===== *)
theory Drivers
  imports Virtio Storage
begin

unbundle bit_operations_syntax

text \<open>
  The block driver (\<^verbatim>\<open>blk_req\<close> and \<^verbatim>\<open>blk_component\<close> of \<^verbatim>\<open>src/kernel/src/main.rs\<close>): a server that turns
  each call of the storage path into a chain of three descriptors. \<open>virtio_blk\<close> is what the virtio document
  says of a block device; under it the server refines an abstract disk. A panic of a driver is fatal to
  that task only.
\<close>

section \<open>The block driver\<close>

definition blk_req :: "'d virtio_dev \<Rightarrow> usize \<Rightarrow> bool \<Rightarrow> u16 \<Rightarrow> u64 \<Rightarrow> 'd drv \<Rightarrow> ('d drv \<times> u8) result" where
  "blk_req V pa is_write avail_idx sector s =
     (let desc = VQ_DESC_OFF; avail = VQ_AVAIL_OFF; hdr = BLK_HDR_OFF; data = BLK_DATA_OFF; status = BLK_STATUS_OFF;
          s = dma_w32 hdr (if is_write then BLK_T_OUT else BLK_T_IN) s;
          s = dma_w32 (hdr + 4) 0 s;
          s = dma_w64 (hdr + 8) sector s;
          s = dma_w8 status 0xff s;
          s = dma_w64 desc (at pa hdr) s;
          s = dma_w32 (desc + 8) 16 s;
          s = dma_w16 (desc + 12) VIRTQ_DESC_F_NEXT s;
          s = dma_w16 (desc + 14) 1 s;
          s = dma_w64 (desc + 16) (at pa data) s;
          s = dma_w32 (desc + 24) (word_of_nat BLK_SECTOR_SIZE) s;
          s = dma_w16 (desc + 28) (VIRTQ_DESC_F_NEXT OR (if is_write then 0 else VIRTQ_DESC_F_WRITE)) s;
          s = dma_w16 (desc + 30) 2 s;
          s = dma_w64 (desc + 32) (at pa status) s;
          s = dma_w32 (desc + 40) 1 s;
          s = dma_w16 (desc + 44) VIRTQ_DESC_F_WRITE s;
          s = dma_w16 (desc + 46) 0 s;
          s = dma_w16 (avail + 4 + (unat avail_idx mod VQ_SIZE) * 2) 0 s
      in bindr (add_chk avail_idx 1) (\<lambda>next.
         let s = dma_w16 (avail + 2) next s;
             s = mmio_w V QUEUE_NOTIFY 0 s;
             s = sys_wait_irq V s;
             is = mmio_r V INTERRUPT_STATUS s;
             s = mmio_w V INTERRUPT_ACK is s
         in Inr (s, dma_r8 status s)))"

text \<open>One round of the server loop: the badge of the call gives the block and the direction, the reply is
  the device's status.\<close>

definition blk_serve :: "'d virtio_dev \<Rightarrow> usize \<Rightarrow> u16 \<Rightarrow> usize \<Rightarrow> 'd drv \<Rightarrow> ('d drv \<times> u16 \<times> usize) result" where
  "blk_serve V pa avail_idx badge s =
     (let is_write = badge AND BLK_WRITE_FLAG \<noteq> 0; block = badge AND NOT BLK_WRITE_FLAG
      in bindr (blk_req V pa is_write avail_idx block s) (\<lambda>(s, status).
         Inr (s, avail_idx + 1, ucast status)))"

text \<open>A run of the server: its client, the storage path, has the page to itself between two calls and fills the
  data area before a write. Each reply comes with the data area the client then sees.\<close>

datatype blk_op = ReadBlock u32 | WriteBlock u32 bytes

definition badge_of :: "blk_op \<Rightarrow> usize" where
  "badge_of op = (case op of ReadBlock b \<Rightarrow> ucast b | WriteBlock b _ \<Rightarrow> ucast b OR BLK_WRITE_FLAG)"

definition fill_data :: "blk_op \<Rightarrow> 'd drv \<Rightarrow> 'd drv" where
  "fill_data op s = (case op of ReadBlock _ \<Rightarrow> s | WriteBlock _ pg \<Rightarrow> s\<lparr>d_page := store_page (d_page s) BLK_DATA_OFF pg\<rparr>)"

fun blk_component :: "'d virtio_dev \<Rightarrow> usize \<Rightarrow> u16 \<Rightarrow> blk_op list \<Rightarrow> 'd drv \<Rightarrow> ('d drv \<times> (usize \<times> bytes) list) result" where
  "blk_component V pa avail_idx [] s = Inr (s, [])"
| "blk_component V pa avail_idx (op # ops) s =
     bindr (blk_serve V pa avail_idx (badge_of op) (fill_data op s)) (\<lambda>(s, avail_idx, status).
     let data = field BLK_DATA_OFF BLK_SECTOR_SIZE (d_page s)
     in bindr (blk_component V pa avail_idx ops s) (\<lambda>(s, rs). Inr (s, (status, data) # rs)))"

section \<open>The device\<close>

text \<open>A block request: a readable header of 16 bytes with type and sector, 512 bytes of data that the device may
  write exactly when the request is a read, and a writable status byte, all inside the page.\<close>

definition blk_request :: "usize \<Rightarrow> vregs \<Rightarrow> bytes \<Rightarrow> (bool \<times> u64 \<times> nat \<times> nat) option" where
  "blk_request pa r f =
     (case published pa r 0 f of
        None \<Rightarrow> None
      | Some head \<Rightarrow>
          (let d0 = chained pa r 0 f head; d1 = chained pa r 0 f (unat (dc_next d0)); d2 = chained pa r 0 f (unat (dc_next d1));
               hdr = offset_of pa (dc_addr d0); data = offset_of pa (dc_addr d1); st = offset_of pa (dc_addr d2); ty = le_word (field hdr 4 f) :: u32
           in if dc_len d0 = 16 \<and> dc_flags d0 = VIRTQ_DESC_F_NEXT \<and> dc_len d1 = 512 \<and>
                 dc_flags d1 = VIRTQ_DESC_F_NEXT OR (if ty = BLK_T_OUT then 0 else VIRTQ_DESC_F_WRITE) \<and>
                 dc_len d2 = 1 \<and> dc_flags d2 = VIRTQ_DESC_F_WRITE \<and> (ty = BLK_T_IN \<or> ty = BLK_T_OUT) \<and>
                 data + 512 \<le> length f \<and> st < length f \<and> \<not> (data \<le> st \<and> st < data + 512)
              then Some (ty = BLK_T_OUT, le_word (field (hdr + 8) 8 f), data, st)
              else None))"

text \<open>A virtio block device: it serves a published request of which it has been notified, touches nothing of the page but the used ring, the
  status byte and, for a read, the data; status zero is success, and a request that fails does not
  change the disk.\<close>

definition serves_blk :: "'d virtio_dev \<Rightarrow> ('d \<Rightarrow> vregs) \<Rightarrow> usize \<Rightarrow> ('d \<Rightarrow> u64 \<Rightarrow> bytes) \<Rightarrow> bool" where
  "serves_blk V view pa disk \<longleftrightarrow>
     (\<forall>d f w sec data st d' f'.
        length f = 4096 \<longrightarrow> vr_notified (view d) 0 \<longrightarrow> blk_request pa (view d) f = Some (w, sec, data, st) \<longrightarrow> dv_wait V d f = (d', f') \<longrightarrow>
        length f' = 4096 \<and> view d' = served (view d) 0 \<and>
        (let used = offset_of pa (vq_used (vr_queue (view d) 0)); ring = 6 + 8 * unat (vq_num (vr_queue (view d) 0))
         in \<forall>i < 4096. \<not> (used \<le> i \<and> i < used + ring) \<and> i \<noteq> st \<and> (w \<or> \<not> (data \<le> i \<and> i < data + 512)) \<longrightarrow> f' ! i = f ! i) \<and>
        disk d' = (if w \<and> f' ! st = 0 then (disk d)(sec := field data 512 f) else disk d) \<and>
        (\<not> w \<and> f' ! st = 0 \<longrightarrow> field data 512 f' = disk d sec))"

definition virtio_blk :: "'d virtio_dev \<Rightarrow> ('d \<Rightarrow> vregs) \<Rightarrow> usize \<Rightarrow> ('d \<Rightarrow> u64 \<Rightarrow> bytes) \<Rightarrow> bool" where
  "virtio_blk V view pa disk \<longleftrightarrow>
     has_regs V view \<and> (\<forall>d off v. disk (dv_write V d off v) = disk d) \<and> serves_blk V view pa disk"

section \<open>One request\<close>

definition live_queue :: "usize \<Rightarrow> vqueue" where
  "live_queue pa = \<lparr>vq_num = 8, vq_desc = at pa 0, vq_avail = at pa 128, vq_used = at pa 160, vq_ready = 1\<rparr>"

lemma queue_init_view:
  assumes "has_regs V view"
  shows "\<exists>feat. view (d_dev (virtio_queue_init V pa s)) =
     vregs_reset\<lparr>vr_status := 15, vr_features := (\<lambda>_. 0)(1 := feat AND F_VERSION_1_HI), vr_queue := (\<lambda>_. vq_reset)(0 := live_queue pa)\<rparr>"
  using handshake_view [OF assms, of s]
  by (auto simp: virtio_queue_init_def driver_ok_view [OF assms] queue_setup_view [OF assms] live_queue_def vregs_reset_def virtio_consts)

text \<open>The page as \<open>blk_req\<close> leaves it for the device.\<close>

definition blk_page :: "usize \<Rightarrow> bool \<Rightarrow> u16 \<Rightarrow> u64 \<Rightarrow> bytes \<Rightarrow> bytes" where
  "blk_page pa is_write avail_idx sector f =
     (let f = store_page f 256 (le_bytes 4 (if is_write then BLK_T_OUT else BLK_T_IN));
          f = store_page f 260 (le_bytes 4 (0 :: u32));
          f = store_page f 264 (le_bytes 8 sector);
          f = store_page f 1024 [0xff];
          f = store_page f 0 (le_bytes 8 (at pa 256));
          f = store_page f 8 (le_bytes 4 (16 :: u32));
          f = store_page f 12 (le_bytes 2 VIRTQ_DESC_F_NEXT);
          f = store_page f 14 (le_bytes 2 (1 :: u16));
          f = store_page f 16 (le_bytes 8 (at pa 512));
          f = store_page f 24 (le_bytes 4 (512 :: u32));
          f = store_page f 28 (le_bytes 2 (VIRTQ_DESC_F_NEXT OR (if is_write then 0 else VIRTQ_DESC_F_WRITE)));
          f = store_page f 30 (le_bytes 2 (2 :: u16));
          f = store_page f 32 (le_bytes 8 (at pa 1024));
          f = store_page f 40 (le_bytes 4 (1 :: u32));
          f = store_page f 44 (le_bytes 2 VIRTQ_DESC_F_WRITE);
          f = store_page f 46 (le_bytes 2 (0 :: u16));
          f = store_page f (132 + (unat avail_idx mod 8) * 2) (le_bytes 2 (0 :: u16))
      in store_page f 130 (le_bytes 2 (avail_idx + 1)))"

lemma blk_page_fields:
  fixes avail_idx :: u16
  assumes l: "length f = 4096"
  shows "length (blk_page pa is_write avail_idx sector f) = 4096"
    "field 512 512 (blk_page pa is_write avail_idx sector f) = field 512 512 f"
    "field 130 2 (blk_page pa is_write avail_idx sector f) = le_bytes 2 (avail_idx + 1)"
    "field (132 + (unat avail_idx mod 8) * 2) 2 (blk_page pa is_write avail_idx sector f) = le_bytes 2 (0 :: u16)"
    "desc_at (blk_page pa is_write avail_idx sector f) 0 = \<lparr>dc_addr = at pa 256, dc_len = 16, dc_flags = VIRTQ_DESC_F_NEXT, dc_next = 1\<rparr>"
    "desc_at (blk_page pa is_write avail_idx sector f) 16 =
       \<lparr>dc_addr = at pa 512, dc_len = 512, dc_flags = VIRTQ_DESC_F_NEXT OR (if is_write then 0 else VIRTQ_DESC_F_WRITE), dc_next = 2\<rparr>"
    "desc_at (blk_page pa is_write avail_idx sector f) 32 = \<lparr>dc_addr = at pa 1024, dc_len = 1, dc_flags = VIRTQ_DESC_F_WRITE, dc_next = 0\<rparr>"
    "field 256 4 (blk_page pa is_write avail_idx sector f) = le_bytes 4 (if is_write then BLK_T_OUT else BLK_T_IN)"
    "field 264 8 (blk_page pa is_write avail_idx sector f) = le_bytes 8 sector"
proof -
  define k where "k = unat avail_idx mod 8"
  have k: "k < 8" by (simp add: k_def)
  note s = blk_page_def Let_def desc_at_def k_def [symmetric] l
  show "length (blk_page pa is_write avail_idx sector f) = 4096" using k by (simp add: s)
  show "field 512 512 (blk_page pa is_write avail_idx sector f) = field 512 512 f" using k by (simp add: s)
  show "field 130 2 (blk_page pa is_write avail_idx sector f) = le_bytes 2 (avail_idx + 1)" using k by (simp add: s)
  show "field (132 + (unat avail_idx mod 8) * 2) 2 (blk_page pa is_write avail_idx sector f) = le_bytes 2 (0 :: u16)" using k by (simp add: s)
  show "desc_at (blk_page pa is_write avail_idx sector f) 0 = \<lparr>dc_addr = at pa 256, dc_len = 16, dc_flags = VIRTQ_DESC_F_NEXT, dc_next = 1\<rparr>"
    using k by (simp add: s)
  show "desc_at (blk_page pa is_write avail_idx sector f) 16 =
       \<lparr>dc_addr = at pa 512, dc_len = 512, dc_flags = VIRTQ_DESC_F_NEXT OR (if is_write then 0 else VIRTQ_DESC_F_WRITE), dc_next = 2\<rparr>"
    using k by (simp add: s)
  show "desc_at (blk_page pa is_write avail_idx sector f) 32 = \<lparr>dc_addr = at pa 1024, dc_len = 1, dc_flags = VIRTQ_DESC_F_WRITE, dc_next = 0\<rparr>"
    using k by (simp add: s)
  show "field 256 4 (blk_page pa is_write avail_idx sector f) = le_bytes 4 (if is_write then BLK_T_OUT else BLK_T_IN)" using k by (simp add: s)
  show "field 264 8 (blk_page pa is_write avail_idx sector f) = le_bytes 8 sector" using k by (simp add: s)
qed

text \<open>A driver between two requests: its device is live, has served \<open>n\<close> requests and uses the page at \<open>pa\<close>.\<close>

definition drv_ok :: "('d \<Rightarrow> vregs) \<Rightarrow> usize \<Rightarrow> u16 \<Rightarrow> 'd drv \<Rightarrow> bool" where
  "drv_ok view pa n s \<longleftrightarrow> length (d_page s) = 4096 \<and> vr_status (view (d_dev s)) = 15 \<and>
     vr_queue (view (d_dev s)) 0 = live_queue pa \<and> vr_next (view (d_dev s)) 0 = n"

lemma blk_request_found:
  assumes "length f = 4096" "vr_status r = 15" "vr_queue r 0 = live_queue pa" "vr_next r 0 = n"
  shows "blk_request pa r (blk_page pa is_write n sector f) = Some (is_write, sector, 512, 1024)"
proof -
  note b = blk_page_fields [OF assms(1), where avail_idx = n and pa = pa and is_write = is_write and sector = sector]
  have p: "published pa r 0 (blk_page pa is_write n sector f) = Some 0"
    using b(3,4) by (simp add: published_def Let_def assms(2-4) live_queue_def)
  show ?thesis using b(1,5-9)
    by (simp add: blk_request_def Let_def p chained_def assms(3) live_queue_def BLK_T_IN_def BLK_T_OUT_def)
qed

lemma unat_last: "unat (- 1 :: u16) = 65535"
  by (simp add: unsigned_minus_1_eq_mask mask_eq_exp_minus_1)

lemma blk_req_ok:
  assumes V: "virtio_blk V view pa disk" and ok: "drv_ok view pa n s" and n: "n \<noteq> - 1"
  obtains s' st where "blk_req V pa wr n sector s = Inr (s', st)" "drv_ok view pa (n + 1) s'"
    "disk (d_dev s') = (if wr \<and> st = 0 then (disk (d_dev s))(sector := field 512 512 (d_page s)) else disk (d_dev s))"
    "st = 0 \<Longrightarrow> field 512 512 (d_page s') = (if wr then field 512 512 (d_page s) else disk (d_dev s) sector)"
proof -
  let ?f = "blk_page pa wr n sector (d_page s)"
  have w: "view (dv_write V d QUEUE_NOTIFY v) = (view d)\<lparr>vr_notified := (vr_notified (view d))(v := True)\<rparr>"
    "view (dv_write V d INTERRUPT_ACK v) = view d" "disk (dv_write V d off v) = disk d" for d off v
    using V by (simp_all add: virtio_blk_def has_regs_def vregs_write_def virtio_consts)
  let ?d = "dv_write V (d_dev s) QUEUE_NOTIFY 0"
  obtain d' f' where dw: "dv_wait V ?d ?f = (d', f')" by force
  let ?s = "\<lparr>d_dev = dv_write V d' INTERRUPT_ACK (dv_read V d' INTERRUPT_STATUS), d_page = f'\<rparr>"
  have u: "unat n + 1 < 2 ^ 16"
    using n unsigned_less [of n, where ?'a = nat] by (simp add: word_unat_eq_iff unat_last)
  have req: "blk_req V pa wr n sector s = Inr (?s, le_word (field 1024 1 f'))"
    using dw u
    by (simp add: blk_req_def Let_def dma_w64_def dma_w32_def dma_w16_def dma_w8_def add_chk_def mmio_w_def sys_wait_irq_def mmio_r_def
        dma_r8_def virtio_consts blk_page_def)
  have l: "length (d_page s) = 4096" using ok by (simp add: drv_ok_def)
  have fnd: "blk_request pa (view ?d) ?f = Some (wr, sector, 512, 1024)"
    using ok by (intro blk_request_found) (simp_all add: drv_ok_def w)
  note b = blk_page_fields [OF l, where avail_idx = n and pa = pa and is_write = wr and sector = sector]
  have sb: "serves_blk V view pa disk" using V by (simp add: virtio_blk_def)
  have nt: "vr_notified (view ?d) 0" by (simp add: w)
  have sv: "length f' = 4096" "view d' = served (view ?d) 0"
    "\<forall>i < 4096. \<not> (160 \<le> i \<and> i < 230) \<and> i \<noteq> 1024 \<and> (wr \<or> \<not> (512 \<le> i \<and> i < 1024)) \<longrightarrow> f' ! i = ?f ! i"
    "disk d' = (if wr \<and> f' ! 1024 = 0 then (disk ?d)(sector := field 512 512 ?f) else disk ?d)"
    "\<not> wr \<and> f' ! 1024 = 0 \<longrightarrow> field 512 512 f' = disk ?d sector"
    using sb [unfolded serves_blk_def Let_def, rule_format, OF b(1) nt fnd dw] ok
    by (simp_all add: drv_ok_def live_queue_def w)
  have st: "le_word (field 1024 1 f') = f' ! 1024" using nth_le_word [of 1024 f'] sv(1) by simp
  have keep: "field 512 512 f' = field 512 512 ?f" if wr
    using that sv(1,3) b(1) by (intro field_eqI) auto
  show ?thesis
  proof (rule that)
    show "blk_req V pa wr n sector s = Inr (?s, f' ! 1024)" using req st by simp
    show "drv_ok view pa (n + 1) ?s" using ok sv(1,2) by (simp add: drv_ok_def w)
    show "disk (d_dev ?s) = (if wr \<and> f' ! 1024 = 0 then (disk (d_dev s))(sector := field 512 512 (d_page s)) else disk (d_dev s))"
      using sv(4) b(2) by (auto simp: w)
    show "field 512 512 (d_page ?s) = (if wr then field 512 512 (d_page s) else disk (d_dev s) sector)" if "f' ! 1024 = 0"
      using that keep sv(5) b(2) by (cases wr) (simp_all add: w)
  qed
qed

lemma blk_req_index_overflow: "blk_req V pa wr (- 1) sector s = Inl ArithOverflow"
  by (simp add: blk_req_def Let_def add_chk_def unat_last)

lemma read_badge:
  assumes "unat (b :: u32) < 2 ^ 31"
  shows "(ucast b :: usize) AND NOT BLK_WRITE_FLAG = ucast b" "((ucast b :: usize) OR BLK_WRITE_FLAG) AND NOT BLK_WRITE_FLAG = ucast b"
proof -
  have "\<not> bit b i" if "31 \<le> i" for i
  proof -
    have "take_bit 31 b = b" using assms by (simp add: word_unat_eq_iff unsigned_take_bit_eq take_bit_nat_eq_self)
    then show ?thesis using that by (metis bit_take_bit_iff not_le)
  qed
  then show "(ucast b :: usize) AND NOT BLK_WRITE_FLAG = ucast b" "((ucast b :: usize) OR BLK_WRITE_FLAG) AND NOT BLK_WRITE_FLAG = ucast b"
    by (auto intro!: bit_word_eqI simp: BLK_WRITE_FLAG_def bit_mask_simps bit_ucast_iff simp del: push_bit_of_1)
qed

lemma status_zero: "(ucast (st :: u8) :: usize) = 0 \<longleftrightarrow> st = 0"
proof
  assume "(ucast st :: usize) = 0"
  then have "\<not> bit (ucast st :: usize) i" for i by simp
  then show "st = 0" by (intro bit_word_eqI) (simp add: bit_simps)
qed simp

section \<open>A run of requests\<close>

definition valid_op :: "blk_op \<Rightarrow> bool" where
  "valid_op op = (case op of ReadBlock b \<Rightarrow> unat b < 2 ^ 31 | WriteBlock b pg \<Rightarrow> unat b < 2 ^ 31 \<and> length pg = 512)"

text \<open>What an abstract disk answers: a successful read gives the block, a successful write stores it, a failed
  request changes nothing.\<close>

fun answers :: "(u64 \<Rightarrow> bytes) \<Rightarrow> blk_op list \<Rightarrow> (usize \<times> bytes) list \<Rightarrow> (u64 \<Rightarrow> bytes) \<Rightarrow> bool" where
  "answers D [] [] D' \<longleftrightarrow> D' = D"
| "answers D (ReadBlock b # ops) ((st, pg) # rs) D' \<longleftrightarrow> (st = 0 \<longrightarrow> pg = D (ucast b)) \<and> answers D ops rs D'"
| "answers D (WriteBlock b p # ops) ((st, pg) # rs) D' \<longleftrightarrow> answers (if st = 0 then D(ucast b := p) else D) ops rs D'"
| "answers D _ _ D' \<longleftrightarrow> False"

lemma blk_serve_ok:
  assumes V: "virtio_blk V view pa disk" and ok: "drv_ok view pa n s" and n: "n \<noteq> - 1" and v: "valid_op op"
  obtains s' st where "blk_serve V pa n (badge_of op) (fill_data op s) = Inr (s', n + 1, st)" "drv_ok view pa (n + 1) s'"
    "\<And>ops rs D'. answers (disk (d_dev s')) ops rs D' \<Longrightarrow> answers (disk (d_dev s)) (op # ops) ((st, field 512 512 (d_page s')) # rs) D'"
proof -
  have ok': "drv_ok view pa n (fill_data op s)" "d_dev (fill_data op s) = d_dev s"
    using ok by (auto simp: drv_ok_def fill_data_def split: blk_op.splits)
  have l: "length (d_page s) = 4096" using ok by (simp add: drv_ok_def)
  show ?thesis
  proof (cases op)
    case (ReadBlock b)
    then have b: "unat b < 2 ^ 31" using v by (simp add: valid_op_def)
    obtain s' st where r: "blk_req V pa False n (ucast b) (fill_data op s) = Inr (s', st)" "drv_ok view pa (n + 1) s'"
      "disk (d_dev s') = disk (d_dev s)" "st = 0 \<Longrightarrow> field 512 512 (d_page s') = disk (d_dev s) (ucast b)"
      using blk_req_ok [OF V ok'(1) n, of False "ucast b"] ok'(2) by (metis (no_types, lifting))
    have "blk_serve V pa n (badge_of op) (fill_data op s) = Inr (s', n + 1, ucast st)"
      using r(1) badge_bits(1) [OF b] read_badge(1) [OF b] by (simp add: ReadBlock blk_serve_def badge_of_def)
    then show ?thesis using that r(2-4) by (simp add: ReadBlock status_zero)
  next
    case (WriteBlock b pg)
    then have b: "unat b < 2 ^ 31" and p: "length pg = 512" using v by (simp_all add: valid_op_def)
    have f: "field 512 512 (d_page (fill_data op s)) = pg" using l p by (simp add: WriteBlock fill_data_def virtio_consts)
    obtain s' st where r: "blk_req V pa True n (ucast b) (fill_data op s) = Inr (s', st)" "drv_ok view pa (n + 1) s'"
      "disk (d_dev s') = (if st = 0 then (disk (d_dev s))(ucast b := pg) else disk (d_dev s))"
      using blk_req_ok [OF V ok'(1) n, of True "ucast b"] ok'(2) f by (metis (no_types, lifting))
    have "blk_serve V pa n (badge_of op) (fill_data op s) = Inr (s', n + 1, ucast st)"
      using r(1) badge_bits(2) [OF b] read_badge(2) [OF b] by (simp add: WriteBlock blk_serve_def badge_of_def)
    then show ?thesis using that r(2,3) by (simp add: WriteBlock status_zero)
  qed
qed

lemma blk_serve_index_overflow: "blk_serve V pa (- 1) badge s = Inl ArithOverflow"
  by (simp add: blk_serve_def Let_def blk_req_index_overflow)

lemma Suc_index: "n \<noteq> - 1 \<Longrightarrow> unat (n + 1) = Suc (unat n)" for n :: u16
  using unsigned_less [of n, where ?'a = nat]
  by (simp add: word_unat_eq_iff unat_last unat_add_fits)

lemma blk_component_ok:
  assumes V: "virtio_blk V view pa disk"
  shows "drv_ok view pa n s \<Longrightarrow> list_all valid_op ops \<Longrightarrow> unat n + length ops \<le> 65535 \<Longrightarrow>
    \<exists>s' rs. blk_component V pa n ops s = Inr (s', rs) \<and> answers (disk (d_dev s)) ops rs (disk (d_dev s'))"
proof (induction ops arbitrary: n s)
  case (Cons op ops)
  have n: "n \<noteq> - 1" using Cons.prems(3) unat_last by auto
  have v: "valid_op op" using Cons.prems(2) by simp
  obtain s1 st where s1: "blk_serve V pa n (badge_of op) (fill_data op s) = Inr (s1, n + 1, st)" "drv_ok view pa (n + 1) s1"
    "\<And>ops rs D'. answers (disk (d_dev s1)) ops rs D' \<Longrightarrow> answers (disk (d_dev s)) (op # ops) ((st, field 512 512 (d_page s1)) # rs) D'"
    by (rule blk_serve_ok [OF V Cons.prems(1) n v]) blast
  obtain s' rs where r: "blk_component V pa (n + 1) ops s1 = Inr (s', rs)" "answers (disk (d_dev s1)) ops rs (disk (d_dev s'))"
    using Cons.IH [OF s1(2)] Cons.prems(2,3) Suc_index [OF n] by auto
  then show ?case using s1(1,3) by (simp add: virtio_consts)
qed simp

lemma blk_component_overflow:
  assumes V: "virtio_blk V view pa disk"
  shows "drv_ok view pa n s \<Longrightarrow> list_all valid_op ops \<Longrightarrow> 65535 < unat n + length ops \<Longrightarrow>
    blk_component V pa n ops s = Inl ArithOverflow"
proof (induction ops arbitrary: n s)
  case Nil
  then show ?case using unsigned_less [of n, where ?'a = nat] by simp
next
  case (Cons op ops)
  show ?case
  proof (cases "n = - 1")
    case True
    then show ?thesis by (simp add: blk_serve_index_overflow)
  next
    case False
    have v: "valid_op op" using Cons.prems(2) by simp
    obtain s1 st where s1: "blk_serve V pa n (badge_of op) (fill_data op s) = Inr (s1, n + 1, st)" "drv_ok view pa (n + 1) s1"
      by (rule blk_serve_ok [OF V Cons.prems(1) False v]) blast
    then show ?thesis using Cons.IH [OF s1(2)] Cons.prems(2,3) Suc_index [OF False] by simp
  qed
qed

lemma queue_init_ok:
  assumes V: "virtio_blk V view pa disk" and l: "length (d_page s) = 4096"
  shows "drv_ok view pa 0 (virtio_queue_init V pa s)" "disk (d_dev (virtio_queue_init V pa s)) = disk (d_dev s)"
proof -
  have w: "disk (dv_write V d off v) = disk d" for d off v using V by (simp add: virtio_blk_def)
  have r: "has_regs V view" using V by (simp add: virtio_blk_def)
  from queue_init_view [OF r, of pa s] show "drv_ok view pa 0 (virtio_queue_init V pa s)"
    using l by (auto simp: drv_ok_def vregs_reset_def virtio_queue_init_def)
  show "disk (d_dev (virtio_queue_init V pa s)) = disk (d_dev s)"
    by (simp add: virtio_queue_init_def bring_up_defs w)
qed

text \<open>C11: The block driver refines a disk. Brought up on a virtio block device, its server answers any sequence of at
  most 65535 requests for blocks below \<open>2\<^sup>3\<^sup>1\<close> as the disk does: a successful read shows the block, a
  successful write stores the page, a failed request changes nothing. The request after that many
  overflows the ring index and the driver panics.\<close>
theorem block_driver_refines_disk:
  assumes "virtio_blk V view pa disk" "length (d_page s) = 4096" "list_all valid_op ops"
  shows "if length ops \<le> 65535
    then \<exists>s' rs. blk_component V pa 0 ops (virtio_queue_init V pa s) = Inr (s', rs) \<and> answers (disk (d_dev s)) ops rs (disk (d_dev s'))
    else blk_component V pa 0 ops (virtio_queue_init V pa s) = Inl ArithOverflow"
  using blk_component_ok [OF assms(1) queue_init_ok(1) [OF assms(1,2)] assms(3)]
    blk_component_overflow [OF assms(1) queue_init_ok(1) [OF assms(1,2)] assms(3)] queue_init_ok(2) [OF assms(1,2)]
  by simp

text \<open>A block device in memory, which serves what its register file and the page tell it to.\<close>

record ram_vdev =
  rv_regs :: vregs
  rv_disk :: "u64 \<Rightarrow> bytes"

definition ram_serve :: "usize \<Rightarrow> ram_vdev \<Rightarrow> bytes \<Rightarrow> ram_vdev \<times> bytes" where
  "ram_serve pa d f =
     (case if vr_notified (rv_regs d) 0 then blk_request pa (rv_regs d) f else None of
        None \<Rightarrow> (d, f)
      | Some (w, sec, data, st) \<Rightarrow>
          (d\<lparr>rv_regs := served (rv_regs d) 0,
             rv_disk := (if w then (rv_disk d)(sec := field data 512 f) else rv_disk d)\<rparr>,
           (if w then f else overlay f data (take 512 (rv_disk d sec @ replicate 512 0)))[st := 0]))"

definition ram_virtio :: "usize \<Rightarrow> ram_vdev virtio_dev" where
  "ram_virtio pa = \<lparr>dv_write = \<lambda>d off v. d\<lparr>rv_regs := vregs_write (rv_regs d) off v\<rparr>, dv_read = \<lambda>d off. 0, dv_wait = ram_serve pa\<rparr>"

definition rv_block :: "ram_vdev \<Rightarrow> u64 \<Rightarrow> bytes" where
  "rv_block d n = take 512 (rv_disk d n @ replicate 512 0)"

lemma blk_request_bounds:
  assumes "blk_request pa r f = Some (w, sec, data, st)"
  shows "data + 512 \<le> length f" "st < length f" "\<not> (data \<le> st \<and> st < data + 512)"
  using assms by (auto simp: blk_request_def Let_def split: option.splits if_splits)

lemma ram_virtio_ok: "virtio_blk (ram_virtio pa) rv_regs pa rv_block"
proof -
  have "serves_blk (ram_virtio pa) rv_regs pa rv_block"
    unfolding serves_blk_def Let_def
  proof (intro allI impI)
    fix d f w sec data st d' f'
    assume l: "length f = 4096" and nt: "vr_notified (rv_regs d) 0" and r: "blk_request pa (rv_regs d) f = Some (w, sec, data, st)"
      and dw: "dv_wait (ram_virtio pa) d f = (d', f')"
    note b = blk_request_bounds [OF r]
    let ?g = "if w then f else overlay f data (rv_block d sec)"
    have lb: "length (rv_block d sec) = 512" by (simp add: rv_block_def)
    have d': "rv_regs d' = served (rv_regs d) 0"
      "rv_disk d' = (if w then (rv_disk d)(sec := field data 512 f) else rv_disk d)" and f': "f' = ?g[st := 0]"
      using dw r nt by (auto simp: ram_virtio_def ram_serve_def rv_block_def)
    have g: "length ?g = 4096" using b(1) l lb by simp
    have st0: "f' ! st = 0" using f' g b(2) l by simp
    have other: "f' ! i = f ! i" if "i < 4096" "i \<noteq> st" "w \<or> \<not> (data \<le> i \<and> i < data + 512)" for i
      using that f' b(1) l lb by (auto simp: nth_overlay)
    have dat: "field data 512 f' = rv_block d sec" if "\<not> w"
    proof -
      have "field data 512 f' = field data 512 ?g" using f' g b l by (intro field_eqI) auto
      then show ?thesis using that b(1) lb by simp
    qed
    have dk: "rv_block d' = (if w \<and> f' ! st = 0 then (rv_block d)(sec := field data 512 f) else rv_block d)"
      using d'(2) st0 b(1) l by (auto simp: rv_block_def fun_eq_iff)
    show "length f' = 4096 \<and> rv_regs d' = served (rv_regs d) 0 \<and>
      (\<forall>i<4096. \<not> (offset_of pa (vq_used (vr_queue (rv_regs d) 0)) \<le> i \<and> i < offset_of pa (vq_used (vr_queue (rv_regs d) 0)) +
         (6 + 8 * unat (vq_num (vr_queue (rv_regs d) 0)))) \<and> i \<noteq> st \<and> (w \<or> \<not> (data \<le> i \<and> i < data + 512)) \<longrightarrow> f' ! i = f ! i) \<and>
      rv_block d' = (if w \<and> f' ! st = 0 then (rv_block d)(sec := field data 512 f) else rv_block d) \<and>
      (\<not> w \<and> f' ! st = 0 \<longrightarrow> field data 512 f' = rv_block d sec)"
      using f' g d'(1) other dat dk by auto
  qed
  then show ?thesis by (simp add: virtio_blk_def has_regs_def ram_virtio_def rv_block_def fun_eq_iff)
qed

theorem block_driver_refines_disk_witness:
  "\<exists>s' rs. blk_component (ram_virtio 0x80100000) 0x80100000 0 [WriteBlock 3 (replicate 512 7), ReadBlock 3]
     (virtio_queue_init (ram_virtio 0x80100000) 0x80100000 \<lparr>d_dev = \<lparr>rv_regs = vregs_reset, rv_disk = \<lambda>_. []\<rparr>, d_page = replicate 4096 0\<rparr>) = Inr (s', rs) \<and>
     answers (\<lambda>_. replicate 512 0) [WriteBlock 3 (replicate 512 7), ReadBlock 3] rs (rv_block (d_dev s'))"
  using block_driver_refines_disk [OF ram_virtio_ok [of "0x80100000"],
      where s = "\<lparr>d_dev = \<lparr>rv_regs = vregs_reset, rv_disk = \<lambda>_. []\<rparr>, d_page = replicate 4096 0\<rparr>"
        and ops = "[WriteBlock 3 (replicate 512 7), ReadBlock 3]"]
  by (simp add: valid_op_def rv_block_def [abs_def])

end
