(* ===== verification/Entropy_Driver.thy ===== *)
theory Entropy_Driver
  imports Virtio Crypto Task
begin

unbundle bit_operations_syntax

text \<open>
  Where the kernel's randomness comes from (\<^verbatim>\<open>entropy_component\<close>, \<^verbatim>\<open>seed_from_message\<close> and
  \<^verbatim>\<open>pqc_consumer\<close> of \<^verbatim>\<open>src/kernel/src/main.rs\<close>): a user-space driver draws twice from a virtio entropy
  device and sends each draw as one message; a kernel task folds the draws into the entropy pool and
  keys the post-quantum agreement from it.
\<close>

section \<open>The driver\<close>

definition rng_draw :: "'d virtio_dev \<Rightarrow> u16 \<Rightarrow> 'd drv \<Rightarrow> ('d drv \<times> u16 \<times> message) result" where
  "rng_draw V i s =
     (let avail = VQ_AVAIL_OFF; buf = VQ_BUF_OFF;
          s = dma_w16 (avail + 4) 0 s
      in bindr (add_chk i 1) (\<lambda>i.
         let s = dma_w16 (avail + 2) i s;
             s = mmio_w V QUEUE_NOTIFY 0 s;
             s = sys_wait_irq V s;
             status = mmio_r V INTERRUPT_STATUS s;
             s = mmio_w V INTERRUPT_ACK status s;
             w0 = dma_r64 buf s; w1 = dma_r64 (buf + 8) s; w2 = dma_r64 (buf + 16) s; w3 = dma_r64 (buf + 24) s
         in Inr (s, i, \<lparr>badge = w0, data = (w1, w2, w3)\<rparr>)))"

definition entropy_component :: "'d virtio_dev \<Rightarrow> usize \<Rightarrow> 'd drv \<Rightarrow> ('d drv \<times> message list) result" where
  "entropy_component V pa s =
     (let desc = VQ_DESC_OFF;
          s = handshake V s;
          s = virtio_queue_setup V 0 (at pa desc) (at pa VQ_AVAIL_OFF) (at pa VQ_USED_OFF) s;
          s = driver_ok V s;
          s = dma_w64 desc (at pa VQ_BUF_OFF) s;
          s = dma_w32 (desc + 8) 32 s;
          s = dma_w16 (desc + 12) VIRTQ_DESC_F_WRITE s;
          s = dma_w16 (desc + 14) 0 s
      in bindr (rng_draw V 0 s) (\<lambda>(s, i, m1).
         bindr (rng_draw V i s) (\<lambda>(s, i, m2).
         Inr (s, [m1, m2]))))"

section \<open>The consumer\<close>

definition seed_from_message :: "message \<Rightarrow> bytes" where
  "seed_from_message m =
     (case data m of (d0, d1, d2) \<Rightarrow> le_bytes 8 (badge m) @ le_bytes 8 d0 @ le_bytes 8 d1 @ le_bytes 8 d2)"

text \<open>The consumer's work between its two receives and after them: the pool, whether two draws differed, and the
  agreed secret.\<close>

definition pqc_consumer ::
  "'r rng_lib \<Rightarrow> ('r, 'dk, 'ek, 'ct) kem_lib \<Rightarrow> 'r option \<Rightarrow> message \<Rightarrow> message \<Rightarrow> 'r option \<times> bool \<times> bytes option" where
  "pqc_consumer rng kem pool d1 d2 =
     (let pool = pool_reseed rng pool (seed_from_message d1);
          (pool, a) = next_seed rng pool;
          (pool, b) = next_seed rng pool;
          pool = pool_reseed rng pool (seed_from_message d2);
          (pool, seed) = next_seed rng pool
      in (pool, a \<noteq> b, ml_kem768_agree rng kem seed))"

section \<open>What the driver relies on\<close>

text \<open>A virtio entropy device, when notified: it places one or more fresh bytes at the start of the writable buffer of a published chain, here the
  last of those it has given out, but may leave part of the buffer as it was; it touches nothing else of the page but
  the used ring.\<close>

definition virtio_rng :: "'d virtio_dev \<Rightarrow> ('d \<Rightarrow> vregs) \<Rightarrow> usize \<Rightarrow> ('d \<Rightarrow> bytes list) \<Rightarrow> bool" where
  "virtio_rng V view pa given \<longleftrightarrow>
     has_regs V view \<and> (\<forall>d off v. given (dv_write V d off v) = given d) \<and>
     (\<forall>d f head d' f'.
        length f = 4096 \<longrightarrow> vr_notified (view d) 0 \<longrightarrow> published pa (view d) 0 f = Some head \<longrightarrow> dv_wait V d f = (d', f') \<longrightarrow>
        (let c = chained pa (view d) 0 f head; buf = offset_of pa (dc_addr c); n = unat (dc_len c);
             used = offset_of pa (vq_used (vr_queue (view d) 0)); ring = 6 + 8 * unat (vq_num (vr_queue (view d) 0))
         in dc_flags c = VIRTQ_DESC_F_WRITE \<longrightarrow> 0 < n \<longrightarrow> buf + n \<le> 4096 \<longrightarrow>
            length f' = 4096 \<and> view d' = served (view d) 0 \<and>
            (\<exists>m. 0 < m \<and> m \<le> n \<and> given d' = given d @ [field buf m f'] \<and>
              (\<forall>i < 4096. \<not> (used \<le> i \<and> i < used + ring) \<and> \<not> (buf \<le> i \<and> i < buf + m) \<longrightarrow> f' ! i = f ! i))))"

section \<open>The draws arrive\<close>

text \<open>The driver between two draws: descriptor 0 describes the buffer, and every entry of the ring names it.\<close>

definition rng_ok :: "('d \<Rightarrow> vregs) \<Rightarrow> usize \<Rightarrow> u16 \<Rightarrow> 'd drv \<Rightarrow> bool" where
  "rng_ok view pa n s \<longleftrightarrow> length (d_page s) = 4096 \<and> vr_status (view (d_dev s)) = 15 \<and> vr_next (view (d_dev s)) 0 = n \<and>
     vr_queue (view (d_dev s)) 0 = \<lparr>vq_num = 8, vq_desc = pa, vq_avail = pa + 128, vq_used = pa + 160, vq_ready = 1\<rparr> \<and>
     desc_at (d_page s) 0 = \<lparr>dc_addr = pa + 256, dc_len = 32, dc_flags = VIRTQ_DESC_F_WRITE, dc_next = 0\<rparr> \<and>
     field 132 16 (d_page s) = replicate 16 0"

lemma field_append: "field off (a + b) f = field off a f @ field (off + a) b f"
  by (simp add: field_def take_add drop_drop add.commute)

lemma field_split8: "field off 32 f = field off 8 f @ field (off + 8) 8 f @ field (off + 16) 8 f @ field (off + 24) 8 f"
  using field_append [of off 8 24 f] field_append [of "off + 8" 8 16 f] field_append [of "off + 16" 8 8 f] by (simp add: ac_simps)

lemma le_bytes_of_field: "off + 8 \<le> length f \<Longrightarrow> le_bytes 8 (le_word (field off 8 f) :: u64) = field off 8 f"
  using le_bytes_le_word [of "field off 8 f", where ?'a = 64] by simp

lemma zero_ring:
  assumes "field 132 16 f = replicate 16 (0 :: u8)" "k < 8"
  shows "field (132 + k * 2) 2 f = [0, 0]"
proof -
  have "field (132 + k * 2) 2 f = field (k * 2) 2 (field 132 16 f)" using assms(2) by (simp add: field_field)
  also have "\<dots> = replicate 2 0" using assms by (simp add: field_def)
  also have "\<dots> = [0, 0]" by (simp add: numeral_eq_Suc)
  finally show ?thesis .
qed

lemma rng_draw_ok:
  assumes V: "virtio_rng V view pa given" and ok: "rng_ok view pa n s" and n: "unat n + 1 < 2 ^ 16"
  obtains s' m dr where "rng_draw V n s = Inr (s', n + 1, m)" "rng_ok view pa (n + 1) s'"
    "given (d_dev s') = given (d_dev s) @ [dr]" "0 < length dr" "length dr \<le> 32"
    "seed_from_message m = dr @ drop (length dr) (field 256 32 (d_page s))" "field 256 32 (d_page s') = seed_from_message m"
proof -
  have w: "view (dv_write V d QUEUE_NOTIFY v) = (view d)\<lparr>vr_notified := (vr_notified (view d))(v := True)\<rparr>"
    "view (dv_write V d INTERRUPT_ACK v) = view d"
    "given (dv_write V d off v) = given d" for d off v
    using V by (simp_all add: virtio_rng_def has_regs_def vregs_write_def virtio_consts)
  let ?f = "store_page (store_page (d_page s) 132 (le_bytes 2 (0 :: u16))) 130 (le_bytes 2 (n + 1))"
  let ?d = "dv_write V (d_dev s) QUEUE_NOTIFY 0"
  have l: "length (d_page s) = 4096" using ok by (simp add: rng_ok_def)
  have ring: "field 132 16 ?f = replicate 16 0"
  proof (rule nth_equalityI)
    fix i assume "i < length (field 132 16 ?f)"
    then have i: "i < 16" using l by simp
    have "field 132 16 (d_page s) ! i = 0" using ok i by (simp add: rng_ok_def)
    then have "d_page s ! (132 + i) = 0" using l i by (simp add: nth_field)
    moreover have "le_bytes 2 (0 :: u16) = [0, 0]" by (simp add: numeral_eq_Suc)
    ultimately show "field 132 16 ?f ! i = replicate 16 0 ! i"
      using l i by (auto simp: nth_field store_page_def nth_overlay nth_Cons')
  qed (simp add: l)
  have dsc: "desc_at ?f 0 = \<lparr>dc_addr = pa + 256, dc_len = 32, dc_flags = VIRTQ_DESC_F_WRITE, dc_next = 0\<rparr>"
    using ok l by (simp add: rng_ok_def desc_at_def)
  have pub: "published pa (view ?d) 0 ?f = Some 0"
    using ok l zero_ring [OF ring, of "unat n mod 8"] by (simp add: published_def rng_ok_def w Let_def)
  have ch: "chained pa (view (d_dev s)) 0 ?f 0 = \<lparr>dc_addr = pa + 256, dc_len = 32, dc_flags = VIRTQ_DESC_F_WRITE, dc_next = 0\<rparr>"
    using ok dsc by (simp add: chained_def rng_ok_def w)
  obtain d' f' where dw: "dv_wait V ?d ?f = (d', f')" by force
  have l2: "length ?f = 4096" using l by simp
  have nt: "vr_notified (view ?d) 0" by (simp add: w)
  note q = V [unfolded virtio_rng_def Let_def, THEN conjunct2, THEN conjunct2, rule_format, OF l2 nt pub dw]
  have sv: "length f' = 4096" "view d' = served (view ?d) 0"
    using q ok by (simp_all add: ch w rng_ok_def)
  obtain m where m: "0 < m" "m \<le> 32" "given d' = given ?d @ [field 256 m f']"
    and kp: "\<And>i. i < 4096 \<Longrightarrow> \<not> (160 \<le> i \<and> i < 230) \<Longrightarrow> \<not> (256 \<le> i \<and> i < 256 + m) \<Longrightarrow> f' ! i = ?f ! i"
    using q ok by (auto simp: ch w rng_ok_def)
  have stale: "field 256 32 f' = field 256 m f' @ drop m (field 256 32 (d_page s))"
  proof (rule nth_equalityI)
    fix i assume "i < length (field 256 32 f')"
    then have i: "i < 32" using sv(1) by simp
    have "f' ! (256 + i) = ?f ! (256 + i)" if "m \<le> i" using kp [of "256 + i"] i that by simp
    moreover have "?f ! (256 + i) = d_page s ! (256 + i)" using l i by (simp add: store_page_def nth_overlay)
    ultimately show "field 256 32 f' ! i = (field 256 m f' @ drop m (field 256 32 (d_page s))) ! i"
      using i l sv(1) m(2) by (auto simp: nth_append nth_field)
  qed (use l sv(1) m(2) in simp)
  have keep: "field a k f' = field a k ?f" if "a + k \<le> 160" for a k
    using that l sv(1) kp by (intro field_eqI) simp_all
  let ?s = "\<lparr>d_dev = dv_write V d' INTERRUPT_ACK (dv_read V d' INTERRUPT_STATUS), d_page = f'\<rparr>"
  let ?m = "\<lparr>badge = le_word (field 256 8 f'), data = (le_word (field 264 8 f'), le_word (field 272 8 f'), le_word (field 280 8 f'))\<rparr>"
  show ?thesis
  proof (rule that)
    show "rng_draw V n s = Inr (?s, n + 1, ?m)"
      using dw n by (simp add: rng_draw_def Let_def dma_w16_def add_chk_def mmio_w_def sys_wait_irq_def mmio_r_def dma_r64_def virtio_consts)
    show "rng_ok view pa (n + 1) ?s"
      using ok sv(1,2) dsc ring keep by (simp add: rng_ok_def w desc_at_def)
    show "given (d_dev ?s) = given (d_dev s) @ [field 256 m f']" using m(3) by (simp add: w)
    show "0 < length (field 256 m f')" "length (field 256 m f') \<le> 32" using m(1,2) sv(1) by simp_all
    have e: "seed_from_message ?m = field 256 32 f'"
      using sv(1) field_split8 [of 256 f'] by (simp add: seed_from_message_def le_bytes_of_field)
    then show "field 256 32 (d_page ?s) = seed_from_message ?m" by simp
    show "seed_from_message ?m = field 256 m f' @ drop (length (field 256 m f')) (field 256 32 (d_page s))"
      using e stale m(2) sv(1) by simp
  qed
qed

text \<open>What the pool is fed when the draws are \<open>d1\<close> and \<open>d2\<close>: the driver sends the whole buffer, so a short draw is
  followed by what the buffer held before, zeros at first and then the first seed.\<close>

definition first_seed :: "bytes \<Rightarrow> bytes" where
  "first_seed d1 = d1 @ replicate (32 - length d1) 0"

definition second_seed :: "bytes \<Rightarrow> bytes \<Rightarrow> bytes" where
  "second_seed d1 d2 = d2 @ drop (length d2) (first_seed d1)"

lemma entropy_component_ok:
  assumes V: "virtio_rng V view pa given" and page: "d_page s = replicate 4096 0"
  obtains s' m1 m2 d1 d2 where "entropy_component V pa s = Inr (s', [m1, m2])" "given (d_dev s') = given (d_dev s) @ [d1, d2]"
    "0 < length d1" "length d1 \<le> 32" "0 < length d2" "length d2 \<le> 32"
    "seed_from_message m1 = first_seed d1" "seed_from_message m2 = second_seed d1 d2"
proof -
  have r: "has_regs V view" and w: "given (dv_write V d off v) = given d" for d off v
    using V by (simp_all add: virtio_rng_def)
  let ?s0 = "driver_ok V (virtio_queue_setup V 0 (at pa VQ_DESC_OFF) (at pa VQ_AVAIL_OFF) (at pa VQ_USED_OFF) (handshake V s))"
  let ?s1 = "dma_w16 (VQ_DESC_OFF + 14) 0 (dma_w16 (VQ_DESC_OFF + 12) VIRTQ_DESC_F_WRITE
     (dma_w32 (VQ_DESC_OFF + 8) 32 (dma_w64 VQ_DESC_OFF (at pa VQ_BUF_OFF) ?s0)))"
  have "field 132 16 (replicate 4096 (0 :: u8)) = replicate 16 0" by (simp add: field_def)
  then have ok: "rng_ok view pa 0 ?s1"
    using handshake_view [OF r, of s] page
    by (auto simp: rng_ok_def driver_ok_view [OF r] queue_setup_view [OF r] vregs_reset_def dma_w64_def dma_w32_def dma_w16_def
        desc_at_def virtio_consts)
  have g: "given (d_dev ?s1) = given (d_dev s)"
    by (simp add: dma_w64_def dma_w32_def dma_w16_def bring_up_defs w)
  have z: "field 256 32 (d_page ?s1) = replicate 32 0"
    using page by (simp add: dma_w64_def dma_w32_def dma_w16_def bring_up_defs virtio_consts) (simp add: field_def)
  obtain s2 m1 d1 where 1: "rng_draw V 0 ?s1 = Inr (s2, 1, m1)" "rng_ok view pa 1 s2" "given (d_dev s2) = given (d_dev s) @ [d1]"
      "0 < length d1" "length d1 \<le> 32" "seed_from_message m1 = first_seed d1" "field 256 32 (d_page s2) = seed_from_message m1"
    by (rule rng_draw_ok [OF V ok]) (simp_all add: g z first_seed_def)
  have u: "unat (1 :: u16) + 1 < 2 ^ 16" by simp
  obtain s3 m2 d2 where 2: "rng_draw V 1 s2 = Inr (s3, 1 + 1, m2)" "given (d_dev s3) = given (d_dev s2) @ [d2]"
      "0 < length d2" "length d2 \<le> 32" "seed_from_message m2 = second_seed d1 d2"
    by (rule rng_draw_ok [OF V 1(2) u]) (simp add: 1(6,7) second_seed_def)
  show ?thesis using that [of s3 m1 m2 d1 d2] 1 2 by (simp add: entropy_component_def Let_def)
qed

text \<open>C37: The entropy path. On a zeroed page and an entropy device, the driver ends after two draws. The consumer keys the pool with
  the first seed, mixes the second into the running pool by exclusive or with its own output, and
  the key agreement seeded from it succeeds. The seeds begin with the bytes the device gave; but a device may give fewer than
  the 32 asked for, the driver does not look at how many, and the rest of a seed is then zeros in the first and bytes of the
  first seed in the second.\<close>
theorem entropy_seeds_pool:
  assumes "virtio_rng V view pa given" "d_page s = replicate 4096 0" "kem_correct kem"
  shows "\<exists>s' m1 m2 d1 d2 k. entropy_component V pa s = Inr (s', [m1, m2]) \<and> given (d_dev s') = given (d_dev s) @ [d1, d2] \<and>
    0 < length d1 \<and> length d1 \<le> 32 \<and> 0 < length d2 \<and> length d2 \<le> 32 \<and> length k = 32 \<and>
    (case lib_fill_bytes rng (lib_from_seed rng (first_seed d1)) 32 of (g1, a) \<Rightarrow>
     case lib_fill_bytes rng g1 32 of (g2, b) \<Rightarrow>
     case lib_fill_bytes rng (lib_from_seed rng (xor_bytes (snd (lib_fill_bytes rng g2 32)) (second_seed d1 d2))) 32 of (g3, seed) \<Rightarrow>
       ml_kem768_agree rng kem seed = Some k \<and> pqc_consumer rng kem None m1 m2 = (Some g3, a \<noteq> b, Some k))"
proof -
  obtain s' m1 m2 d1 d2 where c: "entropy_component V pa s = Inr (s', [m1, m2])" "given (d_dev s') = given (d_dev s) @ [d1, d2]"
      "0 < length d1" "length d1 \<le> 32" "0 < length d2" "length d2 \<le> 32"
    and e: "seed_from_message m1 = first_seed d1" "seed_from_message m2 = second_seed d1 d2"
    by (rule entropy_component_ok [OF assms(1,2)])
  obtain g1 a where f1: "lib_fill_bytes rng (lib_from_seed rng (first_seed d1)) 32 = (g1, a)" by force
  obtain g2 b where f2: "lib_fill_bytes rng g1 32 = (g2, b)" by force
  obtain g3 seed where f3: "lib_fill_bytes rng (lib_from_seed rng (xor_bytes (snd (lib_fill_bytes rng g2 32)) (second_seed d1 d2))) 32 = (g3, seed)" by force
  obtain k where k: "ml_kem768_agree rng kem seed = Some k" "length k = 32"
    using establish_uses_agreed_secret [OF assms(3), of rng seed channel_init] by blast
  have "pqc_consumer rng kem None m1 m2 = (Some g3, a \<noteq> b, Some k)"
    using f1 f2 f3 k(1) e by (simp add: pqc_consumer_def pool_reseed_def next_seed_def pool_fill_def Let_def)
  then show ?thesis using c f1 f2 f3 k
    by (intro exI [of _ s'] exI [of _ m1] exI [of _ m2] exI [of _ d1] exI [of _ d2] exI [of _ k]) simp
qed

text \<open>A grudging entropy device: its \<open>n\<close>-th draw is one byte of value \<open>n\<close>.\<close>

record count_vdev =
  cv_regs :: vregs
  cv_given :: "bytes list"

definition count_serve :: "usize \<Rightarrow> count_vdev \<Rightarrow> bytes \<Rightarrow> count_vdev \<times> bytes" where
  "count_serve pa d f =
     (case if vr_notified (cv_regs d) 0 then published pa (cv_regs d) 0 f else None of
        None \<Rightarrow> (d, f)
      | Some head \<Rightarrow>
          (let c = chained pa (cv_regs d) 0 f head; bs = [word_of_nat (length (cv_given d))]
           in (\<lparr>cv_regs = served (cv_regs d) 0, cv_given = cv_given d @ [bs]\<rparr>,
               store_page f (offset_of pa (dc_addr c)) bs)))"

definition count_virtio :: "usize \<Rightarrow> count_vdev virtio_dev" where
  "count_virtio pa = \<lparr>dv_write = \<lambda>d off v. d\<lparr>cv_regs := vregs_write (cv_regs d) off v\<rparr>, dv_read = \<lambda>d off. 0, dv_wait = count_serve pa\<rparr>"

lemma count_virtio_ok: "virtio_rng (count_virtio pa) cv_regs pa cv_given"
proof -
  have fld: "field b 1 (store_page f b [x]) = [x]" if "b < length f" for b f and x :: u8
    using that by (simp add: store_page_def field_def overlay_def)
  show ?thesis
    by (auto simp: virtio_rng_def has_regs_def count_virtio_def count_serve_def Let_def store_page_def [symmetric] fld
        intro!: exI [of _ 1]) (auto simp: store_page_def nth_overlay)
qed

theorem entropy_seeds_pool_witness:
  "\<exists>s' m1 m2 d1 d2 k. entropy_component (count_virtio 0x80100000) 0x80100000
       \<lparr>d_dev = \<lparr>cv_regs = vregs_reset, cv_given = []\<rparr>, d_page = replicate 4096 0\<rparr> = Inr (s', [m1, m2]) \<and>
     cv_given (d_dev s') = [d1, d2] \<and> 0 < length d1 \<and> length k = 32 \<and>
     pqc_consumer toy_rng toy_kem None m1 m2 = (Some (), False, Some k)"
  using entropy_seeds_pool [OF count_virtio_ok [of "0x80100000"] _ toy_kem_correct,
      where s = "\<lparr>d_dev = \<lparr>cv_regs = vregs_reset, cv_given = []\<rparr>, d_page = replicate 4096 0\<rparr>" and rng = toy_rng]
  by (simp add: toy_rng_def) blast

end
