(* ===== verification/Net_Driver.thy ===== *)
theory Net_Driver
  imports Virtio
begin

unbundle bit_operations_syntax

text \<open>
  The network driver (\<^verbatim>\<open>net_component\<close> of \<^verbatim>\<open>src/kernel/src/main.rs\<close>): two queues, one for receiving and one for
  sending, and one exchange per call: post a receive buffer, publish the caller's frame, wait for the
  receive queue to advance. \<open>virtio_net\<close> is what the virtio document says of a network device: it sends the bytes
  of a published chain, and fills a published buffer with a frame that arrives. When and whether
  either happens is left open.
\<close>

section \<open>The driver\<close>

definition NET_DONE :: usize where "NET_DONE = 0"

definition net_bring_up :: "'d virtio_dev \<Rightarrow> usize \<Rightarrow> 'd drv \<Rightarrow> 'd drv" where
  "net_bring_up V pa s =
     driver_ok V (virtio_queue_setup V 1 (at pa 0x200) (at pa 0x280) (at pa 0x300)
                 (virtio_queue_setup V 0 (at pa 0x000) (at pa 0x080) (at pa 0x100) (handshake V s)))"

text \<open>The wait, bounded by a number of interrupts: 0 when none of them brought a frame.\<close>

fun net_wait :: "'d virtio_dev \<Rightarrow> u16 \<Rightarrow> nat \<Rightarrow> nat \<Rightarrow> 'd drv \<Rightarrow> ('d drv \<times> usize) result" where
  "net_wait V seq slot 0 s = Inr (s, 0)"
| "net_wait V seq slot (Suc attempts) s =
     (let s = sys_wait_irq V s;
          is = mmio_r V INTERRUPT_STATUS s;
          s = (if is \<noteq> 0 then mmio_w V INTERRUPT_ACK is s else s)
      in bindr (add_chk seq 1) (\<lambda>next.
         if dma_r16 (0x100 + 2) s = next then Inr (s, ucast (dma_r32 (0x100 + 8 + slot * 8) s))
         else net_wait V seq slot attempts s))"

definition net_publish :: "usize \<Rightarrow> u16 \<Rightarrow> nat \<Rightarrow> usize \<Rightarrow> 'd drv \<Rightarrow> 'd drv result" where
  "net_publish pa seq slot badge s =
     (let s = dma_w64 0x000 (at pa 0x400) s;
          s = dma_w32 (0x000 + 8) 2048 s;
          s = dma_w16 (0x000 + 12) VIRTQ_DESC_F_WRITE s;
          s = dma_w16 (0x000 + 14) 0 s;
          s = dma_w16 (0x080 + 4 + slot * 2) 0 s
      in bindr (add_chk seq 1) (\<lambda>next.
         let s = dma_w16 (0x080 + 2) next s;
             s = dma_w64 0x200 (at pa 0xC00) s;
             s = dma_w32 (0x200 + 8) (ucast badge) s;
             s = dma_w16 (0x200 + 12) 0 s;
             s = dma_w16 (0x200 + 14) 0 s;
             s = dma_w16 (0x280 + 4 + slot * 2) 0 s
         in bindr (add_chk seq 1) (\<lambda>next. Inr (dma_w16 (0x280 + 2) next s))))"

definition net_exchange :: "'d virtio_dev \<Rightarrow> usize \<Rightarrow> u16 \<Rightarrow> usize \<Rightarrow> 'd drv \<Rightarrow> ('d drv \<times> u16 \<times> usize) result" where
  "net_exchange V pa seq badge s =
     (let slot = unat (seq mod word_of_nat VQ_SIZE)
      in bindr (net_publish pa seq slot badge s) (\<lambda>s.
         bindr (net_wait V seq slot 16 (mmio_w V QUEUE_NOTIFY 1 s)) (\<lambda>(s, rx_len).
         Inr (s, seq + 1, rx_len))))"

text \<open>One round of the server loop: \<open>None\<close> when the driver replies zero and exits.\<close>

definition net_serve :: "'d virtio_dev \<Rightarrow> usize \<Rightarrow> u16 \<Rightarrow> usize \<Rightarrow> 'd drv \<Rightarrow> ('d drv \<times> u16 \<times> usize) option result" where
  "net_serve V pa seq badge s =
     (if badge = NET_DONE then Inr None else bindr (net_exchange V pa seq badge s) (\<lambda>r. Inr (Some r)))"

section \<open>The device\<close>

definition chain_field :: "usize \<Rightarrow> vdesc \<Rightarrow> bytes \<Rightarrow> bytes" where
  "chain_field pa c f = field (offset_of pa (dc_addr c)) (unat (dc_len c)) f"

definition net_tx :: "usize \<Rightarrow> vregs \<Rightarrow> vregs \<Rightarrow> bytes \<Rightarrow> bytes list \<Rightarrow> bytes list \<Rightarrow> bool" where
  "net_tx pa r r' f sent sent' \<longleftrightarrow>
     (vr_next r' 1 = vr_next r 1 \<and> sent' = sent) \<or>
     (\<exists>head. published pa r 1 f = Some head \<and> vr_next r' 1 = vr_next r 1 + 1 \<and> sent' = sent @ [chain_field pa (chained pa r 1 f head) f])"

definition net_rx :: "usize \<Rightarrow> vregs \<Rightarrow> vregs \<Rightarrow> bytes \<Rightarrow> bytes \<Rightarrow> bytes list \<Rightarrow> bytes list \<Rightarrow> bool" where
  "net_rx pa r r' f f' got got' \<longleftrightarrow>
     (let q = vr_queue r 0; used = offset_of pa (vq_used q)
      in (vr_next r' 0 = vr_next r 0 \<and> got' = got \<and> field (used + 2) 2 f' = field (used + 2) 2 f) \<or>
         (\<exists>head n. published pa r 0 f = Some head \<and> vr_next r' 0 = vr_next r 0 + 1 \<and>
            (let c = chained pa r 0 f head
             in dc_flags c = VIRTQ_DESC_F_WRITE \<and> 0 < n \<and> n \<le> unat (dc_len c) \<and>
                got' = got @ [field (offset_of pa (dc_addr c)) n f']) \<and>
            field (used + 2) 2 f' = le_bytes 2 (vr_next r' 0) \<and>
            field (used + 8 + unat (vr_next r 0) mod unat (vq_num q) * 8) 4 f' = le_bytes 4 (word_of_nat n :: u32)))"

text \<open>The bytes of the page a network device may write: its two used rings and the posted receive buffer.\<close>

definition net_writes :: "usize \<Rightarrow> vregs \<Rightarrow> bytes \<Rightarrow> nat \<Rightarrow> bool" where
  "net_writes pa r f i \<longleftrightarrow>
     (\<exists>q \<in> {0, 1}. let used = offset_of pa (vq_used (vr_queue r q)) in used \<le> i \<and> i < used + (6 + 8 * unat (vq_num (vr_queue r q)))) \<or>
     (\<exists>head. published pa r 0 f = Some head \<and>
        (let c = chained pa r 0 f head; buf = offset_of pa (dc_addr c) in buf \<le> i \<and> i < buf + unat (dc_len c)))"

definition virtio_net :: "'d virtio_dev \<Rightarrow> ('d \<Rightarrow> vregs) \<Rightarrow> usize \<Rightarrow> ('d \<Rightarrow> bytes list) \<Rightarrow> ('d \<Rightarrow> bytes list) \<Rightarrow> bool" where
  "virtio_net V view pa sent got \<longleftrightarrow>
     has_regs V view \<and> (\<forall>d off v. sent (dv_write V d off v) = sent d \<and> got (dv_write V d off v) = got d) \<and>
     (\<forall>d f d' f'. length f = 4096 \<longrightarrow> dv_wait V d f = (d', f') \<longrightarrow>
        length f' = 4096 \<and> (view d')\<lparr>vr_next := vr_next (view d)\<rparr> = view d \<and>
        net_tx pa (view d) (view d') f (sent d) (sent d') \<and> net_rx pa (view d) (view d') f f' (got d) (got d') \<and>
        (\<forall>i < 4096. \<not> net_writes pa (view d) f i \<longrightarrow> f' ! i = f ! i))"

section \<open>An exchange\<close>

definition net_queues :: "usize \<Rightarrow> vregs \<Rightarrow> bool" where
  "net_queues pa r \<longleftrightarrow> vr_status r = 15 \<and>
     vr_queue r 0 = \<lparr>vq_num = 8, vq_desc = pa, vq_avail = pa + 0x80, vq_used = pa + 0x100, vq_ready = 1\<rparr> \<and>
     vr_queue r 1 = \<lparr>vq_num = 8, vq_desc = pa + 0x200, vq_avail = pa + 0x280, vq_used = pa + 0x300, vq_ready = 1\<rparr>"

lemma net_queues_notified [simp]: "net_queues pa (r\<lparr>vr_notified := n\<rparr>) = net_queues pa r"
  by (simp add: net_queues_def)

lemma net_bring_up_view:
  assumes "has_regs V view"
  shows "net_queues pa (view (d_dev (net_bring_up V pa s)))" "vr_next (view (d_dev (net_bring_up V pa s))) q = 0"
  using handshake_view [OF assms, of s]
  by (auto simp: net_bring_up_def net_queues_def driver_ok_view [OF assms] queue_setup_view [OF assms] vregs_reset_def)

text \<open>What the driver has published, from the page alone: the receive buffer and the frame, at index \<open>seq\<close>.\<close>

definition net_posted :: "usize \<Rightarrow> u16 \<Rightarrow> u32 \<Rightarrow> bytes \<Rightarrow> bool" where
  "net_posted pa seq len f \<longleftrightarrow> length f = 4096 \<and>
     field 0x82 2 f = le_bytes 2 (seq + 1) \<and> field (0x84 + unat seq mod 8 * 2) 2 f = le_bytes 2 (0 :: u16) \<and>
     field 0x282 2 f = le_bytes 2 (seq + 1) \<and> field (0x284 + unat seq mod 8 * 2) 2 f = le_bytes 2 (0 :: u16) \<and>
     desc_at f 0 = \<lparr>dc_addr = pa + 0x400, dc_len = 2048, dc_flags = VIRTQ_DESC_F_WRITE, dc_next = 0\<rparr> \<and>
     desc_at f 0x200 = \<lparr>dc_addr = pa + 0xC00, dc_len = len, dc_flags = 0, dc_next = 0\<rparr>"

lemma net_publish_ok:
  assumes l: "length (d_page s) = 4096" and seq: "unat seq + 1 < 2 ^ 16"
  obtains f where "net_publish pa seq (unat seq mod 8) badge s = Inr (s\<lparr>d_page := f\<rparr>)" "net_posted pa seq (ucast badge) f"
    "\<And>i. 0x300 \<le> i \<Longrightarrow> field i n f = field i n (d_page s)" "field 0x102 2 f = field 0x102 2 (d_page s)"
proof -
  define k where "k = unat seq mod 8"
  have k: "k < 8" by (simp add: k_def)
  obtain s' where s': "net_publish pa seq k badge s = Inr s'"
    using seq by (simp add: net_publish_def Let_def add_chk_def)
  note d = net_publish_def Let_def add_chk_def dma_w64_def dma_w32_def dma_w16_def
  have dev: "s' = s\<lparr>d_page := d_page s'\<rparr>" using s' seq by (auto simp: d)
  have f: "d_page s' = (let f = store_page (d_page s) 0 (le_bytes 8 (pa + 0x400));
      f = store_page f 8 (le_bytes 4 (2048 :: u32)); f = store_page f 12 (le_bytes 2 VIRTQ_DESC_F_WRITE);
      f = store_page f 14 (le_bytes 2 (0 :: u16)); f = store_page f (0x84 + k * 2) (le_bytes 2 (0 :: u16));
      f = store_page f 0x82 (le_bytes 2 (seq + 1));
      f = store_page f 0x200 (le_bytes 8 (pa + 0xC00)); f = store_page f 0x208 (le_bytes 4 (ucast badge :: u32));
      f = store_page f 0x20C (le_bytes 2 (0 :: u16)); f = store_page f 0x20E (le_bytes 2 (0 :: u16));
      f = store_page f (0x284 + k * 2) (le_bytes 2 (0 :: u16))
      in store_page f 0x282 (le_bytes 2 (seq + 1)))"
    using s' seq by (auto simp: d)
  have "net_posted pa seq (ucast badge) (d_page s')"
    using k l unfolding net_posted_def k_def [symmetric] by (simp add: f Let_def desc_at_def)
  moreover have "field i n (d_page s') = field i n (d_page s)" if "0x300 \<le> i" for i
    using k l that by (simp add: f Let_def)
  moreover have "field 0x102 2 (d_page s') = field 0x102 2 (d_page s)" using k l by (simp add: f Let_def)
  ultimately show ?thesis using that [of "d_page s'"] s' dev k_def by metis
qed

text \<open>The driver between two exchanges: both queues have been served up to \<open>seq\<close>.\<close>

definition net_ok :: "('d \<Rightarrow> vregs) \<Rightarrow> usize \<Rightarrow> u16 \<Rightarrow> 'd drv \<Rightarrow> bool" where
  "net_ok view pa seq s \<longleftrightarrow> length (d_page s) = 4096 \<and> net_queues pa (view (d_dev s)) \<and>
     vr_next (view (d_dev s)) 0 = seq \<and> vr_next (view (d_dev s)) 1 = seq \<and> field 0x102 2 (d_page s) = le_bytes 2 seq"

text \<open>The transmit side during an exchange: the frame is sent at most once.\<close>

definition net_sent :: "vregs \<Rightarrow> u16 \<Rightarrow> bytes \<Rightarrow> bytes list \<Rightarrow> bytes list \<Rightarrow> bool" where
  "net_sent r seq frame before now \<longleftrightarrow>
     (vr_next r 1 = seq \<and> now = before) \<or> (vr_next r 1 = seq + 1 \<and> now = before @ [frame])"

definition net_waiting ::
  "('d \<Rightarrow> vregs) \<Rightarrow> usize \<Rightarrow> ('d \<Rightarrow> bytes list) \<Rightarrow> u16 \<Rightarrow> u32 \<Rightarrow> bytes \<Rightarrow> bytes list \<Rightarrow> 'd \<Rightarrow> bytes \<Rightarrow> bool" where
  "net_waiting view pa sent seq len frame before d f \<longleftrightarrow>
     net_queues pa (view d) \<and> net_posted pa seq len f \<and> field 0xC00 (unat len) f = frame \<and> vr_next (view d) 0 = seq \<and>
     field 0x102 2 f = le_bytes 2 seq \<and> net_sent (view d) seq frame before (sent d)"

lemma net_published:
  assumes "net_queues pa r" "net_posted pa seq len f"
  shows "vr_next r 0 = seq \<Longrightarrow> published pa r 0 f = Some 0" "vr_next r 1 = seq \<Longrightarrow> published pa r 1 f = Some 0"
    "vr_next r 1 = seq + 1 \<Longrightarrow> published pa r 1 f = None"
    "chained pa r 0 f 0 = \<lparr>dc_addr = pa + 0x400, dc_len = 2048, dc_flags = VIRTQ_DESC_F_WRITE, dc_next = 0\<rparr>"
    "chained pa r 1 f 0 = \<lparr>dc_addr = pa + 0xC00, dc_len = len, dc_flags = 0, dc_next = 0\<rparr>"
  using assms by (simp_all add: published_def chained_def net_queues_def net_posted_def Let_def)

lemma net_writes_where:
  assumes "net_queues pa r" "net_posted pa seq len f" "vr_next r 0 = seq" "net_writes pa r f i"
  shows "(0x100 \<le> i \<and> i < 0x146) \<or> (0x300 \<le> i \<and> i < 0x346) \<or> (0x400 \<le> i \<and> i < 0xC00)"
  using assms(4) net_published [OF assms(1,2)] assms(1,3) by (auto simp: net_writes_def net_queues_def Let_def)

lemma net_step:
  assumes V: "virtio_net V view pa sent got" and w: "net_waiting view pa sent seq len frame before d f"
    and len: "unat len \<le> 1024" and dw: "dv_wait V d f = (d', f')"
  shows "net_queues pa (view d')" "length f' = 4096" "net_sent (view d') seq frame before (sent d')"
    "(net_waiting view pa sent seq len frame before d' f' \<and> got d' = got d) \<or>
     (\<exists>n. 0 < n \<and> n \<le> 2048 \<and> vr_next (view d') 0 = seq + 1 \<and> got d' = got d @ [field 0x400 n f'] \<and>
        field 0x102 2 f' = le_bytes 2 (seq + 1) \<and> field (0x108 + unat seq mod 8 * 8) 4 f' = le_bytes 4 (word_of_nat n :: u32))"
proof -
  have q: "net_queues pa (view d)" "net_posted pa seq len f" "vr_next (view d) 0 = seq" "field 0xC00 (unat len) f = frame"
    "net_sent (view d) seq frame before (sent d)" "field 0x102 2 f = le_bytes 2 seq"
    using w by (simp_all add: net_waiting_def)
  have l: "length f = 4096" using q(2) by (simp add: net_posted_def)
  note p = net_published [OF q(1,2)]
  have v: "length f' = 4096" "(view d')\<lparr>vr_next := vr_next (view d)\<rparr> = view d" "net_tx pa (view d) (view d') f (sent d) (sent d')"
    "net_rx pa (view d) (view d') f f' (got d) (got d')" "\<And>i. i < 4096 \<Longrightarrow> \<not> net_writes pa (view d) f i \<Longrightarrow> f' ! i = f ! i"
    using V [unfolded virtio_net_def, THEN conjunct2, THEN conjunct2, rule_format, OF l dw] by simp_all
  have qq: "vr_status (view d') = vr_status (view d)" "vr_queue (view d') = vr_queue (view d)"
    using v(2) by (metis vregs.select_convs(1) vregs.surjective vregs.update_convs(6), metis vregs.select_convs(5) vregs.surjective vregs.update_convs(6))
  show q': "net_queues pa (view d')" using q(1) by (simp add: net_queues_def qq)
  show "length f' = 4096" by (rule v(1))
  show ns: "net_sent (view d') seq frame before (sent d')"
    using v(3) q(4,5) p(2,3,5) by (auto simp: net_tx_def net_sent_def chain_field_def)
  have same: "field a n f' = field a n f" if "a + n \<le> 0x100 \<or> (0x200 \<le> a \<and> a + n \<le> 0x300) \<or> (0xC00 \<le> a \<and> a + n \<le> 4096)" for a n
  proof (rule field_eqI)
    fix i assume i: "a \<le> i" "i < a + n"
    have "\<not> net_writes pa (view d) f i" using net_writes_where [OF q(1-3), of i] i that by linarith
    moreover have "i < 4096" using i that by linarith
    ultimately show "f' ! i = f ! i" using v(5) by blast
  qed (use v(1) l that in auto)
  have k: "unat seq mod 8 < 8" by simp
  have slots: "field (0x84 + unat seq mod 8 * 2) 2 f' = field (0x84 + unat seq mod 8 * 2) 2 f"
    "field (0x284 + unat seq mod 8 * 2) 2 f' = field (0x284 + unat seq mod 8 * 2) 2 f"
    by (rule same, use k in linarith)+
  have ps: "net_posted pa seq len f'" "field 0xC00 (unat len) f' = frame"
    using q(2,4) v(1) len slots by (simp_all add: net_posted_def desc_at_def same)
  show "(net_waiting view pa sent seq len frame before d' f' \<and> got d' = got d) \<or>
     (\<exists>n. 0 < n \<and> n \<le> 2048 \<and> vr_next (view d') 0 = seq + 1 \<and> got d' = got d @ [field 0x400 n f'] \<and>
        field 0x102 2 f' = le_bytes 2 (seq + 1) \<and> field (0x108 + unat seq mod 8 * 8) 4 f' = le_bytes 4 (word_of_nat n :: u32))"
    using v(4) p(1,4) q(1,3,6) q' ps ns
    by (auto simp: net_rx_def net_waiting_def net_queues_def Let_def)
qed

lemma net_wait_ok:
  assumes V: "virtio_net V view pa sent got" and len: "unat len \<le> 1024" and seq: "unat seq + 1 < 2 ^ 16"
  shows "net_waiting view pa sent seq len frame before (d_dev s) (d_page s) \<Longrightarrow>
    \<exists>s' rx_len. net_wait V seq (unat seq mod 8) attempts s = Inr (s', rx_len) \<and> length (d_page s') = 4096 \<and>
      net_queues pa (view (d_dev s')) \<and> net_sent (view (d_dev s')) seq frame before (sent (d_dev s')) \<and>
      (if rx_len = 0 then got (d_dev s') = got (d_dev s)
       else unat rx_len \<le> 2048 \<and> got (d_dev s') = got (d_dev s) @ [field 0x400 (unat rx_len) (d_page s')] \<and>
         vr_next (view (d_dev s')) 0 = seq + 1 \<and> field 0x102 2 (d_page s') = le_bytes 2 (seq + 1))"
proof (induction attempts arbitrary: s)
  case 0
  then show ?case by (auto simp: net_waiting_def net_posted_def)
next
  case (Suc attempts)
  obtain d' f' where dw: "dv_wait V (d_dev s) (d_page s) = (d', f')" by force
  note st = net_step [OF V Suc.prems len dw]
  have w: "view (dv_write V d INTERRUPT_ACK v) = view d" "sent (dv_write V d off v) = sent d" "got (dv_write V d off v) = got d" for d off v
    using V by (simp_all add: virtio_net_def has_regs_def vregs_write_def virtio_consts)
  define a where "a = (if dv_read V d' INTERRUPT_STATUS \<noteq> 0 then dv_write V d' INTERRUPT_ACK (dv_read V d' INTERRUPT_STATUS) else d')"
  let ?s = "\<lparr>d_dev = a, d_page = f'\<rparr>"
  have vw: "view a = view d'" "sent a = sent d'" "got a = got d'" by (simp_all add: w a_def)
  have run: "net_wait V seq (unat seq mod 8) (Suc attempts) s =
     (if le_word (field 0x102 2 f') = seq + 1 then Inr (?s, ucast (le_word (field (0x108 + unat seq mod 8 * 8) 4 f') :: u32))
      else net_wait V seq (unat seq mod 8) attempts ?s)"
    using dw seq by (simp add: sys_wait_irq_def mmio_r_def mmio_w_def add_chk_def dma_r16_def dma_r32_def a_def)
  from st(4) show ?case
  proof
    assume h: "net_waiting view pa sent seq len frame before d' f' \<and> got d' = got (d_dev s)"
    then have wt: "net_waiting view pa sent seq len frame before (d_dev ?s) (d_page ?s)" by (simp add: net_waiting_def vw)
    have g: "got (d_dev ?s) = got (d_dev s)" using h by (simp add: vw)
    have "le_word (field 0x102 2 f') \<noteq> seq + 1" using h by (simp add: net_waiting_def)
    with run have eq: "net_wait V seq (unat seq mod 8) (Suc attempts) s = net_wait V seq (unat seq mod 8) attempts ?s" by simp
    show ?thesis using Suc.IH [OF wt] unfolding eq g .
  next
    assume "\<exists>n. 0 < n \<and> n \<le> 2048 \<and> vr_next (view d') 0 = seq + 1 \<and> got d' = got (d_dev s) @ [field 0x400 n f'] \<and>
        field 0x102 2 f' = le_bytes 2 (seq + 1) \<and> field (0x108 + unat seq mod 8 * 8) 4 f' = le_bytes 4 (word_of_nat n :: u32)"
    then obtain n where n: "0 < n" "n \<le> 2048" "vr_next (view d') 0 = seq + 1" "got d' = got (d_dev s) @ [field 0x400 n f']"
      "field 0x102 2 f' = le_bytes 2 (seq + 1)" "field (0x108 + unat seq mod 8 * 8) 4 f' = le_bytes 4 (word_of_nat n :: u32)"
      by blast
    have u: "unat (ucast (word_of_nat n :: u32) :: usize) = n"
      using n(2) by (simp add: unsigned_ucast_eq unat_of_nat take_bit_nat_eq_self)
    then have nz: "(ucast (word_of_nat n :: u32) :: usize) \<noteq> 0" using n(1) by (metis less_irrefl unat_0)
    show ?thesis using run n(2-6) st(1-3) u nz by (simp add: vw)
  qed
qed

text \<open>C19: One exchange of the network driver. With both queues served up to the current index and a frame in the
  transmit area, an exchange waits for at most sixteen interrupts and does not panic; the frame goes
  out exactly as it is and at most once; a reply other than zero is the length of the one frame
  that arrived meanwhile, which lies in the receive area; a zero means that none arrived. When both
  queues have advanced the driver is ready for the next exchange.\<close>
theorem net_exchange_delivers:
  assumes V: "virtio_net V view pa sent got" and ok: "net_ok view pa seq s" and seq: "seq \<noteq> - 1"
    and frame: "field 0xC00 (length frame) (d_page s) = frame" "length frame \<le> 1024"
  shows "\<exists>s' rx_len. net_exchange V pa seq (word_of_nat (length frame)) s = Inr (s', seq + 1, rx_len) \<and>
    sent (d_dev s') \<in> {sent (d_dev s), sent (d_dev s) @ [frame]} \<and>
    (if rx_len = 0 then got (d_dev s') = got (d_dev s)
     else unat rx_len \<le> 2048 \<and> got (d_dev s') = got (d_dev s) @ [field 0x400 (unat rx_len) (d_page s')]) \<and>
    (rx_len \<noteq> 0 \<and> sent (d_dev s') = sent (d_dev s) @ [frame] \<longrightarrow> net_ok view pa (seq + 1) s')"
proof -
  have u: "unat seq + 1 < 2 ^ 16"
    using seq unsigned_less [of seq, where ?'a = nat]
    by (simp add: word_unat_eq_iff unsigned_minus_1_eq_mask mask_eq_exp_minus_1)
  have w: "view (dv_write V d QUEUE_NOTIFY v) = (view d)\<lparr>vr_notified := (vr_notified (view d))(v := True)\<rparr>" "sent (dv_write V d off v) = sent d" "got (dv_write V d off v) = got d" for d off v
    using V by (simp_all add: virtio_net_def has_regs_def vregs_write_def virtio_consts)
  have l: "length (d_page s) = 4096" using ok by (simp add: net_ok_def)
  let ?b = "word_of_nat (length frame) :: usize"
  have len: "unat (ucast ?b :: u32) = length frame"
    using frame(2) by (simp add: unsigned_ucast_eq unat_of_nat take_bit_nat_eq_self)
  obtain f where f: "net_publish pa seq (unat seq mod 8) ?b s = Inr (s\<lparr>d_page := f\<rparr>)" "net_posted pa seq (ucast ?b) f"
    "\<And>i. 0x300 \<le> i \<Longrightarrow> field i (length frame) f = field i (length frame) (d_page s)" "field 0x102 2 f = field 0x102 2 (d_page s)"
    using net_publish_ok [OF l u, of pa ?b "length frame"] by blast
  let ?s = "mmio_w V QUEUE_NOTIFY 1 (s\<lparr>d_page := f\<rparr>)"
  have wt: "net_waiting view pa sent seq (ucast ?b) frame (sent (d_dev s)) (d_dev ?s) (d_page ?s)"
    using ok f(2-4) frame(1) len by (simp add: net_waiting_def net_ok_def net_sent_def mmio_w_def w)
  have slot: "unat (seq mod word_of_nat VQ_SIZE) = unat seq mod 8" by (simp add: VQ_SIZE_def unat_mod)
  obtain s' rx_len where r: "net_wait V seq (unat seq mod 8) 16 ?s = Inr (s', rx_len)" "length (d_page s') = 4096"
      "net_queues pa (view (d_dev s'))" "net_sent (view (d_dev s')) seq frame (sent (d_dev s)) (sent (d_dev s'))"
      "if rx_len = 0 then got (d_dev s') = got (d_dev s)
       else unat rx_len \<le> 2048 \<and> got (d_dev s') = got (d_dev s) @ [field 0x400 (unat rx_len) (d_page s')] \<and>
         vr_next (view (d_dev s')) 0 = seq + 1 \<and> field 0x102 2 (d_page s') = le_bytes 2 (seq + 1)"
    using net_wait_ok [OF V _ u wt, of 16] len frame(2) by (auto simp: mmio_w_def w)
  have "net_exchange V pa seq ?b s = Inr (s', seq + 1, rx_len)"
    using f(1) r(1) by (simp add: net_exchange_def slot)
  moreover have "net_ok view pa (seq + 1) s'" if "rx_len \<noteq> 0" "sent (d_dev s') = sent (d_dev s) @ [frame]"
    using that r(2-5) by (auto simp: net_ok_def net_sent_def)
  ultimately show ?thesis using r(4,5) by (auto simp: net_sent_def)
qed

text \<open>A device on a network that returns every frame: it sends what is published and receives the same bytes.\<close>

record echo_vdev =
  ev_regs :: vregs
  ev_sent :: "bytes list"
  ev_got :: "bytes list"

definition echo_serve :: "usize \<Rightarrow> echo_vdev \<Rightarrow> bytes \<Rightarrow> echo_vdev \<times> bytes" where
  "echo_serve pa d f =
     (let r = ev_regs d; seq = vr_next r 0; len = le_word (field 0x208 4 f) :: u32; frame = field 0xC00 (unat len) f
      in if net_queues pa r \<and> net_posted pa seq len f \<and> vr_next r 1 = seq \<and> 0 < unat len \<and> unat len \<le> 1024
         then (\<lparr>ev_regs = r\<lparr>vr_next := (vr_next r)(0 := seq + 1, 1 := seq + 1)\<rparr>, ev_sent = ev_sent d @ [frame], ev_got = ev_got d @ [frame]\<rparr>,
               store_page (store_page (store_page f 0x400 frame) 0x102 (le_bytes 2 (seq + 1))) (0x108 + unat seq mod 8 * 8) (le_bytes 4 len))
         else (d, f))"

definition echo_virtio :: "usize \<Rightarrow> echo_vdev virtio_dev" where
  "echo_virtio pa = \<lparr>dv_write = \<lambda>d off v. d\<lparr>ev_regs := vregs_write (ev_regs d) off v\<rparr>, dv_read = \<lambda>d off. 1, dv_wait = echo_serve pa\<rparr>"

lemma nth_store_page:
  "off + length src \<le> length f \<Longrightarrow> i < length f \<Longrightarrow> \<not> (off \<le> i \<and> i < off + length src) \<Longrightarrow> store_page f off src ! i = f ! i"
  by (auto simp: store_page_def nth_overlay)

lemma echo_virtio_ok: "virtio_net (echo_virtio pa) ev_regs pa ev_sent ev_got"
proof -
  have "length f' = 4096 \<and> (ev_regs d')\<lparr>vr_next := vr_next (ev_regs d)\<rparr> = ev_regs d \<and>
        net_tx pa (ev_regs d) (ev_regs d') f (ev_sent d) (ev_sent d') \<and> net_rx pa (ev_regs d) (ev_regs d') f f' (ev_got d) (ev_got d') \<and>
        (\<forall>i < 4096. \<not> net_writes pa (ev_regs d) f i \<longrightarrow> f' ! i = f ! i)"
    if l: "length f = 4096" and s: "echo_serve pa d f = (d', f')" for d f d' f'
  proof -
    define r seq len frame where "r = ev_regs d" and "seq = vr_next r 0" and "len = (le_word (field 0x208 4 f) :: u32)"
      and "frame = field 0xC00 (unat len) f"
    have e: "(if net_queues pa r \<and> net_posted pa seq len f \<and> vr_next r 1 = seq \<and> 0 < unat len \<and> unat len \<le> 1024
         then (\<lparr>ev_regs = r\<lparr>vr_next := (vr_next r)(0 := seq + 1, 1 := seq + 1)\<rparr>, ev_sent = ev_sent d @ [frame], ev_got = ev_got d @ [frame]\<rparr>,
               store_page (store_page (store_page f 0x400 frame) 0x102 (le_bytes 2 (seq + 1))) (0x108 + unat seq mod 8 * 8) (le_bytes 4 len))
         else (d, f)) = (d', f')"
      using s by (simp only: echo_serve_def Let_def r_def seq_def len_def frame_def)
    show ?thesis
    proof (cases "net_queues pa r \<and> net_posted pa seq len f \<and> vr_next r 1 = seq \<and> 0 < unat len \<and> unat len \<le> 1024")
      case False
      then have "d' = d" "f' = f" using e by (simp_all only: if_False prod.inject)
      then show ?thesis using l by (simp add: net_tx_def net_rx_def Let_def)
    next
      case True
      have d': "d' = \<lparr>ev_regs = r\<lparr>vr_next := (vr_next r)(0 := seq + 1, 1 := seq + 1)\<rparr>, ev_sent = ev_sent d @ [frame], ev_got = ev_got d @ [frame]\<rparr>"
        and f': "f' = store_page (store_page (store_page f 0x400 frame) 0x102 (le_bytes 2 (seq + 1))) (0x108 + unat seq mod 8 * 8) (le_bytes 4 len)"
        using True e by (simp_all only: if_True prod.inject simp_thms)
      have lf: "length frame = unat len" using True l by (simp add: frame_def)
      obtain m where m: "unat seq mod 8 = m" "m < 8" by simp
      note p = net_published [of pa r seq len f]
      have rx: "field 0x400 (unat len) f' = frame" "field 0x102 2 f' = le_bytes 2 (seq + 1)"
        "field (0x108 + unat seq mod 8 * 8) 4 f' = le_bytes 4 len"
        using m(2) l lf True by (simp_all add: f' m(1))
      have n: "vr_next r 0 = seq" by (simp add: seq_def)
      have q: "vr_queue r 0 = \<lparr>vq_num = 8, vq_desc = pa, vq_avail = pa + 0x80, vq_used = pa + 0x100, vq_ready = 1\<rparr>"
        using True by (simp add: net_queues_def)
      have post: "published pa r 0 f = Some 0" "chained pa r 0 f 0 = \<lparr>dc_addr = pa + 0x400, dc_len = 2048, dc_flags = VIRTQ_DESC_F_WRITE, dc_next = 0\<rparr>"
        using True p(1,4) n by simp_all
      have "net_tx pa r (ev_regs d') f (ev_sent d) (ev_sent d')"
        using True p(2,5) by (auto simp: net_tx_def d' chain_field_def frame_def)
      moreover have "net_rx pa r (ev_regs d') f f' (ev_got d) (ev_got d')"
        unfolding net_rx_def Let_def
        by (intro disjI2 exI [of _ 0] exI [of _ "unat len"]) (use True rx n q post in \<open>simp add: d'\<close>)
      moreover have "f' ! i = f ! i" if i: "i < 4096" "\<not> net_writes pa r f i" for i
      proof -
        have "\<not> (0x100 \<le> i \<and> i < 0x146)" using i(2) by (simp add: net_writes_def Let_def q)
        moreover have "\<not> (0x400 \<le> i \<and> i < 0xC00)" using i(2) by (simp add: net_writes_def Let_def post)
        moreover have "unat len \<le> 1024" using True by simp
        ultimately have "\<not> (0x108 + m * 8 \<le> i \<and> i < 0x108 + m * 8 + 4)" "\<not> (0x102 \<le> i \<and> i < 0x102 + 2)"
          "\<not> (0x400 \<le> i \<and> i < 0x400 + unat len)"
          using m(2) by linarith+
        then show ?thesis using i(1) l lf m(2) \<open>unat len \<le> 1024\<close> by (simp add: f' m(1) nth_store_page)
      qed
      ultimately show ?thesis using l by (simp add: f' d' r_def)
    qed
  qed
  then show ?thesis by (auto simp: virtio_net_def has_regs_def echo_virtio_def)
qed

lemma net_bring_up_ok:
  assumes "has_regs V view" "d_page s = replicate 4096 0"
  shows "net_ok view pa 0 (net_bring_up V pa s)"
proof -
  have "field 0x102 2 (replicate 4096 (0 :: u8)) = le_bytes 2 (0 :: u16)" by (simp add: field_def numeral_eq_Suc)
  then show ?thesis
    using net_bring_up_view [OF assms(1), of pa s] assms(2) by (simp add: net_ok_def net_bring_up_def)
qed

definition echo_start :: "echo_vdev drv" where
  "echo_start = (let s = net_bring_up (echo_virtio 0x80100000) 0x80100000
       \<lparr>d_dev = \<lparr>ev_regs = vregs_reset, ev_sent = [], ev_got = []\<rparr>, d_page = replicate 4096 0\<rparr>
     in s\<lparr>d_page := store_page (d_page s) 0xC00 [1, 2, 3]\<rparr>)"

theorem net_exchange_delivers_witness:
  "\<exists>s' rx_len. net_exchange (echo_virtio 0x80100000) 0x80100000 0 3 echo_start = Inr (s', 1, rx_len) \<and>
     ev_sent (d_dev s') \<in> {[], [[1, 2, 3]]}"
proof -
  let ?s = "\<lparr>d_dev = \<lparr>ev_regs = vregs_reset, ev_sent = [], ev_got = []\<rparr>, d_page = replicate 4096 0\<rparr> :: echo_vdev drv"
  let ?V = "echo_virtio 0x80100000"
  have r: "has_regs ?V ev_regs" using echo_virtio_ok by (auto simp: virtio_net_def)
  have ok: "net_ok ev_regs 0x80100000 0 echo_start"
    using net_bring_up_ok [OF r, of ?s "0x80100000"] by (simp add: net_ok_def echo_start_def Let_def)
  have l: "length (d_page (net_bring_up ?V 0x80100000 ?s)) = 4096" by (simp add: net_bring_up_def)
  have f: "field 0xC00 (length [1, 2, 3]) (d_page echo_start) = [1, 2, 3]" using l by (simp add: echo_start_def Let_def)
  have n: "(0 :: u16) \<noteq> - 1" "length [1 :: u8, 2, 3] \<le> 1024" by simp_all
  have e: "ev_sent (d_dev echo_start) = []" by (simp add: echo_start_def Let_def net_bring_up_def bring_up_defs echo_virtio_def)
  show ?thesis using net_exchange_delivers [OF echo_virtio_ok ok n(1) f n(2)] e by (auto simp: numeral_3_eq_3)
qed

end
