(* ===== verification/Entry.thy ===== *)
theory Entry
  imports Hart Kernel
begin

unbundle bit_operations_syntax

text \<open>
  What the assembly of the theory \<open>Hart\<close> does: the trap entry hands the handler a frame with every
  register of the interrupted code, and the exit restores whatever frame is there; a context switch
  saves one context and installs another; a forged context reaches U-mode through the trampoline; and
  the boot entry clears \<^verbatim>\<open>.bss\<close>.
\<close>

section \<open>Aligned addresses\<close>

lemma aligned8_iff: "aligned8 a \<longleftrightarrow> unat a mod 8 = 0"
proof -
  have "aligned8 a \<longleftrightarrow> unat (take_bit 3 a) = 0"
    by (simp add: aligned8_def take_bit_eq_mask mask_eq_exp_minus_1 unat_eq_zero)
  also have "\<dots> \<longleftrightarrow> unat a mod 8 = 0" by (simp only: unsigned_take_bit_eq) (simp add: take_bit_eq_mod)
  finally show ?thesis .
qed

lemma aligned8_add: "aligned8 a \<Longrightarrow> aligned8 b \<Longrightarrow> aligned8 (a + b)"
proof -
  assume "aligned8 a" "aligned8 b"
  then have "8 dvd unat a + unat b" by (simp add: aligned8_iff mod_eq_0_iff_dvd)
  then have "8 dvd (unat a + unat b) mod 2 ^ 64" by (subst dvd_mod_iff) simp_all
  then show ?thesis by (simp add: aligned8_iff unat_word_ariths mod_eq_0_iff_dvd)
qed

lemma aligned8_mult [simp]: "aligned8 (8 * n)"
proof -
  have "8 dvd (8 * unat n) mod 2 ^ 64" by (subst dvd_mod_iff) simp_all
  then show ?thesis by (simp add: aligned8_iff unat_word_ariths mod_eq_0_iff_dvd)
qed

lemma aligned8_diff: "aligned8 a \<Longrightarrow> aligned8 b \<Longrightarrow> aligned8 (a - b)"
proof -
  assume ab: "aligned8 a" "aligned8 b"
  have "- b = 8 * (- word_of_nat (unat b div 8))"
  proof -
    have "8 * (unat b div 8) = unat b" using ab by (simp add: aligned8_iff mult_div_mod_eq [symmetric] mod_eq_0_iff_dvd)
    then have "of_nat (8 * (unat b div 8)) = b" by simp
    then have "8 * word_of_nat (unat b div 8) = b" by simp
    then show ?thesis by (simp add: mult_minus_right)
  qed
  then show ?thesis using aligned8_add [OF ab(1) aligned8_mult, of "- word_of_nat (unat b div 8)"] by simp
qed

lemma aligned8_numeral [simp]: "aligned8 0" "aligned8 (numeral n) \<longleftrightarrow> numeral n AND (7 :: usize) = 0"
  by (simp_all add: aligned8_def)

lemmas aligned8_arith [simp] = aligned8_add aligned8_diff

section \<open>The trap entry\<close>

text \<open>The trap stack: the one \<open>sscratch\<close> names for a trap from U-mode, the current one otherwise.\<close>

definition trap_top :: "hart \<Rightarrow> usize" where
  "trap_top h = (if hcsr h Sscratch \<noteq> 0 then hcsr h Sscratch else get_x h 2)"

definition save_regs :: "(nat \<times> usize) list" where
  "save_regs = map (\<lambda>r. (r, 8 * word_of_nat (r - 1))) (1 # 3 # 4 # [6..<32])"

definition load_regs :: "(nat \<times> usize) list" where
  "load_regs = map (\<lambda>r. (r, 8 * word_of_nat (r - 1))) (1 # [3..<32])"

lemma in_save_regs: "(r, off) \<in> set save_regs \<longleftrightarrow> (r = 1 \<or> r = 3 \<or> r = 4 \<or> 6 \<le> r \<and> r < 32) \<and> off = 8 * word_of_nat (r - 1)"
  by (auto simp: save_regs_def simp del: upt_rec_numeral)

lemma in_load_regs: "(r, off) \<in> set load_regs \<longleftrightarrow> (r = 1 \<or> 3 \<le> r \<and> r < 32) \<and> off = 8 * word_of_nat (r - 1)"
  by (auto simp: load_regs_def simp del: upt_rec_numeral)

lemma load_regs_sp: "2 \<notin> fst ` set load_regs"
  by (auto simp: in_load_regs)

lemma distinct_regs: "distinct (map snd save_regs)" "distinct (map fst load_regs)"
  by (simp_all add: save_regs_def load_regs_def)

lemma trap_entry_at:
  "length trap_entry = 91" "trap_entry ! 1 = BNEZ 2 7" "trap_entry ! 6 = J 11" "trap_entry ! 50 = CALL ''trap_handler''"
  "trap_entry ! 56 = BNEZ 6 59" "trap_entry ! 90 = SRET"
  by (simp_all add: trap_entry_def)

lemma trap_entry_blocks:
  "take 1 (drop 0 trap_entry) = [CSRRW 2 Sscratch 2]"
  "take 4 (drop 2 trap_entry) = [CSRRW 2 Sscratch 2, ADDI 2 2 (-288), SD 5 32 2, ADDI 5 2 288]"
  "take 4 (drop 7 trap_entry) = [ADDI 2 2 (-288), SD 5 32 2, CSRR 5 Sscratch, CSRW Sscratch 0]"
  "take 1 (drop 11 trap_entry) = [SD 5 8 2]"
  "take 29 (drop 12 trap_entry) = saves 2 save_regs"
  "take 9 (drop 41 trap_entry) =
     [CSRR 5 Sepc, SD 5 248 2, CSRR 5 Sstatus, SD 5 256 2, CSRR 5 Scause, SD 5 264 2, CSRR 5 Stval, SD 5 272 2, MV 10 2]"
  "take 5 (drop 51 trap_entry) = [LD 5 248 2, CSRW Sepc 5, LD 5 256 2, CSRW Sstatus 5, ANDI 6 5 256]"
  "take 2 (drop 57 trap_entry) = [ADDI 6 2 288, CSRW Sscratch 6]"
  "take 30 (drop 59 trap_entry) = loads 2 load_regs"
  "take 1 (drop 89 trap_entry) = [LD 2 8 2]"
  by (simp_all add: trap_entry_def saves_def save_regs_def loads_def load_regs_def)

lemma run_branch:
  "pc < length code \<Longrightarrow> code ! pc = BNEZ r t \<Longrightarrow> pc' = (if get_x h r \<noteq> 0 then t else pc + 1) \<Longrightarrow> m = Suc n \<Longrightarrow>
     run m code pc h = run n code pc' h"
  "pc < length code \<Longrightarrow> code ! pc = J t \<Longrightarrow> m = Suc n \<Longrightarrow> run m code pc h = run n code t h"
  by simp_all

lemma run_ends:
  "pc < length code \<Longrightarrow> code ! pc = CALL f \<Longrightarrow> m = Suc n \<Longrightarrow> pc' = Suc pc \<Longrightarrow> run m code pc h = Called f pc' h"
  "pc < length code \<Longrightarrow> code ! pc = SRET \<Longrightarrow> m = Suc n \<Longrightarrow> run m code pc h = Srets h"
  "pc < length code \<Longrightarrow> code ! pc = RET \<Longrightarrow> m = Suc n \<Longrightarrow> run m code pc h = Returned (get_x h 1) h"
  by simp_all

lemma run_block:
  assumes "take k (drop pc code) = is" "length is = k" "exec is h = Some h'" "m = k + n" "pc' = pc + k"
  shows "run m code pc h = run n code pc' h'"
  using run_exec [of "is" h h' pc code n] assms by simp

lemma entry_prologue:
  assumes "aligned8 (trap_top h)"
  shows "\<exists>h' k. run (n + 7) trap_entry 0 h = run (n + k) trap_entry 11 h' \<and> get_x h' 2 = trap_top h - 288 \<and>
    get_x h' 5 = get_x h 2 \<and> (\<forall>r. r \<noteq> 2 \<longrightarrow> r \<noteq> 5 \<longrightarrow> get_x h' r = get_x h r) \<and>
    hcsr h' = (hcsr h)(Sscratch := 0) \<and> hmem h' = (hmem h)(trap_top h - 288 + 32 := get_x h 5)"
proof -
  let ?h1 = "set_x (set_csr h Sscratch (get_x h 2)) 2 (hcsr h Sscratch)"
  have e0: "run (n + 7) trap_entry 0 h = run (n + 6) trap_entry 1 ?h1"
    by (rule run_block [OF trap_entry_blocks(1)]) simp_all
  have e1: "run (n + 6) trap_entry 1 ?h1 = run (n + 5) trap_entry (if hcsr h Sscratch \<noteq> 0 then 7 else 2) ?h1"
    by (rule run_branch(1) [OF _ trap_entry_at(2)]) (simp_all add: trap_entry_at)
  show ?thesis
  proof (cases "hcsr h Sscratch = 0")
    case False
    let ?h = "set_csr (set_x (set_mem (set_x ?h1 2 (hcsr h Sscratch - 288)) (hcsr h Sscratch - 288 + 32) (get_x h 5)) 5 (get_x h 2)) Sscratch 0"
    have "run (n + 5) trap_entry 7 ?h1 = run (n + 1) trap_entry 11 ?h"
      using False assms by (intro run_block [OF trap_entry_blocks(3)]) (simp_all add: trap_top_def Let_def)
    then show ?thesis using False e0 e1 by (intro exI [of _ ?h] exI [of _ 1]) (auto simp: trap_top_def)
  next
    case True
    let ?h = "set_x (set_mem (set_x (set_x (set_csr ?h1 Sscratch 0) 2 (get_x h 2)) 2 (get_x h 2 - 288)) (get_x h 2 - 288 + 32) (get_x h 5)) 5 (get_x h 2)"
    have "run (n + 5) trap_entry 2 ?h1 = run (Suc n) trap_entry 6 ?h"
      using True assms by (intro run_block [OF trap_entry_blocks(2)]) (simp_all add: trap_top_def Let_def)
    also have "\<dots> = run n trap_entry 11 ?h" by (rule run_branch(2)) (simp_all add: trap_entry_at)
    finally show ?thesis using True e0 e1 by (intro exI [of _ ?h] exI [of _ 0]) (auto simp: trap_top_def)
  qed
qed


text \<open>What the handler is called with, from U-mode and from S-mode alike.\<close>

definition saved_frame :: "hart \<Rightarrow> trap_frame" where
  "saved_frame h = \<lparr>regs = map (get_x h) [1..<32], sepc = hcsr h Sepc, sstatus = hcsr h Sstatus, scause = hcsr h Scause,
     stval = hcsr h Stval\<rparr>"

definition frame_addrs :: "usize \<Rightarrow> usize set" where
  "frame_addrs a = (\<lambda>i. a + 8 * word_of_nat i) ` {..<35}"

lemma word_8_less_inj: "i < 2 ^ 60 \<Longrightarrow> j < 2 ^ 60 \<Longrightarrow> (8 * word_of_nat i = (8 * word_of_nat j :: usize)) = (i = j)"
proof
  assume "i < 2 ^ 60" "j < 2 ^ 60" "8 * word_of_nat i = (8 * word_of_nat j :: usize)"
  moreover have "unat (8 * word_of_nat k :: usize) = 8 * k" if "k < 2 ^ 60" for k
    using that by (simp add: unat_word_ariths unsigned_of_nat take_bit_nat_eq_self)
  ultimately show "i = j" by (metis mult_left_cancel zero_neq_numeral)
qed simp

lemma slot_eq:
  assumes "i < 2 ^ 60"
  shows "(8 * word_of_nat i = (8 :: usize)) = (i = 1)" "(8 * word_of_nat i = (32 :: usize)) = (i = 4)"
    "(8 * word_of_nat i = (248 :: usize)) = (i = 31)" "(8 * word_of_nat i = (256 :: usize)) = (i = 32)"
    "(8 * word_of_nat i = (264 :: usize)) = (i = 33)" "(8 * word_of_nat i = (272 :: usize)) = (i = 34)"
  using word_8_less_inj [OF assms, of 1] word_8_less_inj [OF assms, of 4] word_8_less_inj [OF assms, of 31]
    word_8_less_inj [OF assms, of 32] word_8_less_inj [OF assms, of 33] word_8_less_inj [OF assms, of 34]
  by simp_all

lemma upt_Suc_map: "[1..<32] = map Suc [0..<31]"
  by (simp only: map_Suc_upt One_nat_def) simp

lemma frame_addrsD: "b \<notin> frame_addrs a \<Longrightarrow> i < 35 \<Longrightarrow> b \<noteq> a + 8 * word_of_nat i"
  by (auto simp: frame_addrs_def)

text \<open>The block that stores 29 of the registers, all but \<open>x2\<close> and \<open>x5\<close>.\<close>

lemma save_block:
  assumes a: "get_x h 2 = a" "aligned8 a"
  shows "\<exists>h'. exec (saves 2 save_regs) h = Some h' \<and> (\<forall>r. get_x h' r = get_x h r) \<and> hcsr h' = hcsr h \<and>
    (\<forall>i<31. hmem h' (a + 8 * word_of_nat i) = (if i = 1 \<or> i = 4 then hmem h (a + 8 * word_of_nat i) else get_x h (Suc i))) \<and>
    (\<forall>b. b \<notin> frame_addrs a \<longrightarrow> hmem h' b = hmem h b)"
proof -
  obtain h' where h': "exec (saves 2 save_regs) h = Some h'" "hx h' = hx h" "hcsr h' = hcsr h"
    "\<forall>(r, off)\<in>set save_regs. hmem h' (a + off) = get_x h r"
    "\<forall>b. b \<notin> (\<lambda>(r, off). a + off) ` set save_regs \<longrightarrow> hmem h' b = hmem h b"
    using exec_saves [OF _ distinct_regs(1), of h 2] a by (fastforce simp: in_save_regs)
  have sv: "hmem h' (a + 8 * word_of_nat i) = get_x h (Suc i)" if "i < 31" "i \<noteq> 1" "i \<noteq> 4" for i
  proof -
    have "(Suc i, 8 * word_of_nat i) \<in> set save_regs" using that by (auto simp: in_save_regs)
    then show ?thesis using h'(4) by blast
  qed
  have kept: "hmem h' b = hmem h b" if nb: "\<And>r. r < 32 \<Longrightarrow> r \<noteq> 2 \<Longrightarrow> r \<noteq> 5 \<Longrightarrow> r \<noteq> 0 \<Longrightarrow> b \<noteq> a + 8 * word_of_nat (r - 1)" for b
  proof (intro h'(5) [rule_format] notI, elim imageE, clarify)
    fix r off assume m: "(r, off) \<in> set save_regs" and b: "b = a + off"
    have "off = 8 * word_of_nat (r - 1)" "r < 32" "r \<noteq> 2" "r \<noteq> 5" "r \<noteq> 0" using m unfolding in_save_regs by auto
    then show False using nb b by blast
  qed
  have "hmem h' (a + 8 * word_of_nat i) = hmem h (a + 8 * word_of_nat i)" if i: "i = 1 \<or> i = 4" for i
  proof (rule kept)
    fix r :: nat assume r: "r < 32" "r \<noteq> 2" "r \<noteq> 5" "r \<noteq> 0"
    have "i \<noteq> r - 1" "i < 2 ^ 60" "r - 1 < 2 ^ 60" using i r by auto
    then show "a + 8 * word_of_nat i \<noteq> a + 8 * word_of_nat (r - 1)" unfolding add_left_cancel using word_8_less_inj by blast
  qed
  moreover have "hmem h' b = hmem h b" if "b \<notin> frame_addrs a" for b
    using that by (intro kept frame_addrsD) simp_all
  moreover have "get_x h' r = get_x h r" for r using h'(2) by (simp add: get_x_def)
  ultimately show ?thesis using h'(1,3) sv by (intro exI [of _ h']) simp
qed

lemma trap_entry_saves:
  assumes "aligned8 (trap_top h)"
  shows "\<exists>h'. run 64 trap_entry 0 h = Called ''trap_handler'' 51 h' \<and> get_x h' 10 = trap_top h - 288 \<and>
    get_x h' 2 = trap_top h - 288 \<and> hcsr h' = (hcsr h)(Sscratch := 0) \<and>
    frame_at (hmem h') (trap_top h - 288) = saved_frame h \<and>
    (\<forall>b. b \<notin> frame_addrs (trap_top h - 288) \<longrightarrow> hmem h' b = hmem h b)"
proof -
  define a where "a = trap_top h - 288"
  have al: "aligned8 a" using assms by (simp add: a_def)
  obtain h1 k where p: "run (57 + 7) trap_entry 0 h = run (57 + k) trap_entry 11 h1" "get_x h1 2 = a" "get_x h1 5 = get_x h 2"
    "\<And>r. r \<noteq> 2 \<Longrightarrow> r \<noteq> 5 \<Longrightarrow> get_x h1 r = get_x h r" "hcsr h1 = (hcsr h)(Sscratch := 0)" "hmem h1 = (hmem h)(a + 32 := get_x h 5)"
    using entry_prologue [OF assms, of 57] unfolding a_def [symmetric] by blast
  let ?h2 = "set_mem h1 (a + 8) (get_x h 2)"
  have b1: "run (57 + k) trap_entry 11 h1 = run (56 + k) trap_entry 12 ?h2"
    using al by (intro run_block [OF trap_entry_blocks(4)]) (simp_all add: Let_def p)
  obtain h3 where h3: "exec (saves 2 save_regs) ?h2 = Some h3" "\<And>r. get_x h3 r = get_x h1 r" "hcsr h3 = hcsr h1"
    "\<And>i. i < 31 \<Longrightarrow> hmem h3 (a + 8 * word_of_nat i) =
       (if i = 1 \<or> i = 4 then hmem ?h2 (a + 8 * word_of_nat i) else get_x h1 (Suc i))"
    "\<And>b. b \<notin> frame_addrs a \<Longrightarrow> hmem h3 b = hmem ?h2 b"
    using save_block [of ?h2 a] al p(2) by auto
  have b2: "run (56 + k) trap_entry 12 ?h2 = run (27 + k) trap_entry 41 h3"
    by (rule run_block [OF trap_entry_blocks(5) _ h3(1)]) (simp_all add: save_regs_def saves_def)
  let ?m = "(hmem h3)(a + 248 := hcsr h Sepc, a + 256 := hcsr h Sstatus, a + 264 := hcsr h Scause, a + 272 := hcsr h Stval)"
  let ?csrs = "[CSRR 5 Sepc, SD 5 248 2, CSRR 5 Sstatus, SD 5 256 2, CSRR 5 Scause, SD 5 264 2, CSRR 5 Stval, SD 5 272 2, MV 10 2]"
  have "\<exists>h4. exec ?csrs h3 = Some h4 \<and> get_x h4 10 = a \<and> get_x h4 2 = a \<and> hcsr h4 = hcsr h3 \<and> hmem h4 = ?m"
    using al by (simp add: Let_def h3(2,3) p(2,5))
  then obtain h4 where h4: "exec ?csrs h3 = Some h4" "get_x h4 10 = a" "get_x h4 2 = a" "hcsr h4 = hcsr h3" "hmem h4 = ?m" by blast
  have b3: "run (27 + k) trap_entry 41 h3 = run (18 + k) trap_entry 50 h4"
    by (rule run_block [OF trap_entry_blocks(6) _ h4(1)]) simp_all
  have b4: "run (18 + k) trap_entry 50 h4 = Called ''trap_handler'' 51 h4"
    by (rule run_ends(1) [where n = "17 + k"]) (simp_all add: trap_entry_at)
  have mem: "hmem h4 (a + 8 * word_of_nat i) = get_x h (Suc i)" if "i < 31" for i
    using that h3(4) [OF that] p(4) [of "Suc i"] by (auto simp: h4(5) slot_eq p(6) simp del: One_nat_def)
  have "map (\<lambda>i. hmem h4 (a + 8 * word_of_nat i)) [0..<31] = map (get_x h) [1..<32]"
    unfolding upt_Suc_map map_map comp_def by (rule map_cong) (simp_all only: mem set_upt atLeastLessThan_iff)
  then have fr: "frame_at (hmem h4) a = saved_frame h"
    by (simp add: frame_at_def saved_frame_def h4(5))
  have other: "hmem h4 b = hmem h b" if b: "b \<notin> frame_addrs a" for b
    using h3(5) [OF b] frame_addrsD [OF b, of 31] frame_addrsD [OF b, of 32] frame_addrsD [OF b, of 33]
      frame_addrsD [OF b, of 34] frame_addrsD [OF b, of 1] frame_addrsD [OF b, of 4] by (simp add: h4(5) p(6))
  have "run 64 trap_entry 0 h = Called ''trap_handler'' 51 h4" using p(1) b1 b2 b3 b4 by simp
  then show ?thesis using h4 h3(3) p(5) fr other by (intro exI [of _ h4]) (simp add: a_def [symmetric])
qed

text \<open>The exit restores the frame at the stack pointer, whichever task's it is.\<close>

lemma trap_exit_restores:
  assumes "aligned8 (get_x h 2)"
  defines "f \<equiv> frame_at (hmem h) (get_x h 2)"
  shows "\<exists>h'. run 64 trap_entry 51 h = Srets h' \<and> map (get_x h') [1..<32] = regs f \<and> hcsr h' Sepc = sepc f \<and>
    hcsr h' Sstatus = sstatus f \<and> hcsr h' Sscratch = (if from_user f then get_x h 2 + 288 else hcsr h Sscratch) \<and> hmem h' = hmem h"
proof -
  define a where "a = get_x h 2"
  have al: "aligned8 a" using assms by (simp add: a_def)
  let ?c1 = "[LD 5 248 2, CSRW Sepc 5, LD 5 256 2, CSRW Sstatus 5, ANDI 6 5 256]"
  have "\<exists>h1. exec ?c1 h = Some h1 \<and> get_x h1 2 = a \<and> get_x h1 6 = sstatus f AND 256 \<and> hmem h1 = hmem h \<and>
      hcsr h1 = (hcsr h)(Sepc := sepc f, Sstatus := sstatus f)"
    using al by (simp add: Let_def a_def [symmetric] f_def frame_at_def)
  then obtain h1 where h1: "exec ?c1 h = Some h1" "get_x h1 2 = a" "get_x h1 6 = sstatus f AND 256" "hmem h1 = hmem h"
      "hcsr h1 = (hcsr h)(Sepc := sepc f, Sstatus := sstatus f)" by blast
  have b1: "run 64 trap_entry 51 h = run 59 trap_entry 56 h1"
    by (rule run_block [OF trap_entry_blocks(7) _ h1(1)]) simp_all
  have "\<exists>h2 k. run 59 trap_entry 56 h1 = run (56 + k) trap_entry 59 h2 \<and> get_x h2 2 = a \<and> hmem h2 = hmem h \<and>
      hcsr h2 = (hcsr h1)(Sscratch := if from_user f then a + 288 else hcsr h Sscratch)"
  proof (cases "from_user f")
    case True
    let ?h2 = "set_csr (set_x h1 6 (a + 288)) Sscratch (a + 288)"
    have "run 59 trap_entry 56 h1 = run 58 trap_entry 57 h1"
      using True by (intro run_branch(1) [OF _ trap_entry_at(5)]) (simp_all add: trap_entry_at h1(3) from_user_def)
    also have "\<dots> = run (56 + 0) trap_entry 59 ?h2"
      by (rule run_block [OF trap_entry_blocks(8)]) (simp_all add: h1(2))
    finally show ?thesis using True h1 by (intro exI [of _ ?h2] exI [of _ 0]) simp
  next
    case False
    have "run 59 trap_entry 56 h1 = run (56 + 2) trap_entry 59 h1"
      using False by (intro run_branch(1) [OF _ trap_entry_at(5)]) (simp_all add: trap_entry_at h1(3) from_user_def)
    then show ?thesis using False h1 by (intro exI [of _ h1] exI [of _ 2]) (auto simp: fun_eq_iff)
  qed
  then obtain h2 k where h2: "run 59 trap_entry 56 h1 = run (56 + k) trap_entry 59 h2" "get_x h2 2 = a" "hmem h2 = hmem h"
      "hcsr h2 = (hcsr h1)(Sscratch := if from_user f then a + 288 else hcsr h Sscratch)" by blast
  obtain h3 where h3: "exec (loads 2 load_regs) h2 = Some h3" "hmem h3 = hmem h2" "hcsr h3 = hcsr h2"
    "\<forall>(r, off)\<in>set load_regs. get_x h3 r = hmem h2 (get_x h2 2 + off)"
    "\<forall>q. q \<notin> fst ` set load_regs \<longrightarrow> get_x h3 q = get_x h2 q"
    using exec_loads [OF _ distinct_regs(2), of h2 2] al by (fastforce simp: in_load_regs h2(2))
  have b3: "run (56 + k) trap_entry 59 h2 = run (26 + k) trap_entry 89 h3"
    by (rule run_block [OF trap_entry_blocks(9) _ h3(1)]) (simp_all add: load_regs_def loads_def)
  let ?h4 = "set_x h3 2 (hmem h (a + 8))"
  have x2: "get_x h3 2 = a" using h3(5) [rule_format, OF load_regs_sp] h2(2) by simp
  have b4: "run (26 + k) trap_entry 89 h3 = run (25 + k) trap_entry 90 ?h4"
    using al by (intro run_block [OF trap_entry_blocks(10)]) (simp_all add: Let_def x2 h3(2) h2(3))
  have b5: "run (25 + k) trap_entry 90 ?h4 = Srets ?h4"
    by (rule run_ends(2) [where n = "24 + k"]) (simp_all add: trap_entry_at)
  have reg: "get_x ?h4 (Suc i) = hmem h (a + 8 * word_of_nat i)" if "i < 31" for i
  proof (cases "i = 1")
    case False
    then have "(Suc i, 8 * word_of_nat i) \<in> set load_regs" using that by (auto simp: in_load_regs)
    then show ?thesis using h3(4) h2(2,3) False by (auto simp: numeral_2_eq_2)
  qed (simp add: numeral_2_eq_2)
  have "map (get_x ?h4) [1..<32] = map (\<lambda>i. hmem h (a + 8 * word_of_nat i)) [0..<31]"
    unfolding upt_Suc_map map_map comp_def by (rule map_cong) (simp_all only: reg set_upt atLeastLessThan_iff)
  then have "map (get_x ?h4) [1..<32] = regs f" by (simp add: f_def frame_at_def a_def)
  moreover have "run 64 trap_entry 51 h = Srets ?h4" using b1 h2(1) b3 b4 b5 by simp
  ultimately show ?thesis using h2 h3 h1 by (intro exI [of _ ?h4]) (simp add: a_def)
qed

text \<open>C7: A trap and its return lose nothing. From U-mode (\<open>sscratch\<close> holds the trap-stack top) and from S-mode
  (\<open>sscratch\<close> is 0) the entry reaches the handler on the trap stack with \<open>sscratch\<close> cleared and with a frame that
  holds all 31 registers and the four trap CSRs of the interrupted code, and writes nothing outside that
  frame; and when the handler returns with the stack pointer it was given and some frame there for the same privilege, the exit
  loads the registers, \<open>sepc\<close> and \<open>sstatus\<close> of that frame, and \<open>sscratch\<close> is what it was before the trap.\<close>
theorem trap_entry_exit_roundtrip:
  assumes "aligned8 (trap_top h)"
  shows "\<exists>h1. run 64 trap_entry 0 h = Called ''trap_handler'' 51 h1 \<and> get_x h1 10 = trap_top h - 288 \<and> get_x h1 2 = get_x h1 10 \<and>
    hcsr h1 Sscratch = 0 \<and> frame_at (hmem h1) (get_x h1 10) = saved_frame h \<and>
    (\<forall>b. b \<notin> frame_addrs (get_x h1 10) \<longrightarrow> hmem h1 b = hmem h b) \<and>
    (\<forall>h2 f. get_x h2 2 = get_x h1 2 \<longrightarrow> hcsr h2 Sscratch = 0 \<longrightarrow> f = frame_at (hmem h2) (get_x h2 2) \<longrightarrow>
       (from_user f \<longleftrightarrow> hcsr h Sscratch \<noteq> 0) \<longrightarrow>
       (\<exists>h3. run 64 trap_entry 51 h2 = Srets h3 \<and> map (get_x h3) [1..<32] = regs f \<and> hcsr h3 Sepc = sepc f \<and>
          hcsr h3 Sstatus = sstatus f \<and> hcsr h3 Sscratch = hcsr h Sscratch))"
proof -
  obtain h1 where h1: "run 64 trap_entry 0 h = Called ''trap_handler'' 51 h1" "get_x h1 10 = trap_top h - 288"
    "get_x h1 2 = trap_top h - 288" "hcsr h1 = (hcsr h)(Sscratch := 0)" "frame_at (hmem h1) (trap_top h - 288) = saved_frame h"
    "\<forall>b. b \<notin> frame_addrs (trap_top h - 288) \<longrightarrow> hmem h1 b = hmem h b"
    using trap_entry_saves [OF assms] by blast
  have "\<exists>h3. run 64 trap_entry 51 h2 = Srets h3 \<and> map (get_x h3) [1..<32] = regs f \<and> hcsr h3 Sepc = sepc f \<and>
      hcsr h3 Sstatus = sstatus f \<and> hcsr h3 Sscratch = hcsr h Sscratch"
    if "get_x h2 2 = get_x h1 2" "hcsr h2 Sscratch = 0" "f = frame_at (hmem h2) (get_x h2 2)" "from_user f \<longleftrightarrow> hcsr h Sscratch \<noteq> 0"
    for h2 f
    using trap_exit_restores [of h2] that assms h1(3) by (auto simp: trap_top_def)
  then show ?thesis using h1 by auto
qed

section \<open>The context switch\<close>

definition ctx_regs :: "(nat \<times> usize) list" where
  "ctx_regs = [(1, 0), (2, 8), (8, 16), (9, 24), (18, 32), (19, 40), (20, 48), (21, 56), (22, 64), (23, 72), (24, 80),
     (25, 88), (26, 96), (27, 104)]"

definition ctxt_addrs :: "usize \<Rightarrow> usize set" where
  "ctxt_addrs a = (\<lambda>(r, off). a + off) ` set ctx_regs"

lemma switch_blocks:
  "length switch_context = 29" "switch_context ! 28 = RET"
  "take 14 (drop 0 switch_context) = saves 10 ctx_regs" "take 14 (drop 14 switch_context) = loads 11 ctx_regs"
  by (simp_all add: switch_context_def ctx_regs_def saves_def loads_def)

lemma ctx_regs_facts:
  "length ctx_regs = 14" "distinct (map fst ctx_regs)" "distinct (map snd ctx_regs)"
  "aligned8 a \<Longrightarrow> \<forall>(r, off)\<in>set ctx_regs. aligned8 (a + off)" "\<forall>(r, off)\<in>set ctx_regs. r \<noteq> 11 \<and> r \<noteq> 0"
  by (simp_all add: ctx_regs_def)

lemma ctxt_at_regs:
  "ctxt_at m a = \<lparr>ra = m a, sp = m (a + 8),
     sregs = [m (a + 16), m (a + 24), m (a + 32), m (a + 40), m (a + 48), m (a + 56), m (a + 64), m (a + 72), m (a + 80), m (a + 88),
       m (a + 96), m (a + 104)]\<rparr>"
  by (simp add: ctxt_at_def add.assoc upt_conv_Cons)

lemma ctxt_at_eq:
  assumes "\<forall>(r, off)\<in>set ctx_regs. m (a + off) = get_x h r"
  shows "ctxt_at m a = callee_saved h"
  using assms by (simp add: ctx_regs_def ctxt_at_regs callee_saved_def)

lemma ctxt_at_cong: "(\<forall>b\<in>ctxt_addrs a. m b = m' b) \<Longrightarrow> ctxt_at m a = ctxt_at m' a"
  by (simp add: ctxt_at_regs ctxt_addrs_def ctx_regs_def)

lemma switch_context_ok:
  assumes al: "aligned8 (get_x h 10)" "aligned8 (get_x h 11)" and dj: "ctxt_addrs (get_x h 10) \<inter> ctxt_addrs (get_x h 11) = {}"
  shows "\<exists>h'. run 32 switch_context 0 h = Returned (ra (ctxt_at (hmem h) (get_x h 11))) h' \<and>
    callee_saved h' = ctxt_at (hmem h) (get_x h 11) \<and> ctxt_at (hmem h') (get_x h 10) = callee_saved h \<and>
    (\<forall>b. b \<notin> ctxt_addrs (get_x h 10) \<longrightarrow> hmem h' b = hmem h b) \<and> hcsr h' = hcsr h"
proof -
  let ?a = "get_x h 10" and ?b = "get_x h 11"
  obtain h1 where h1: "exec (saves 10 ctx_regs) h = Some h1" "hx h1 = hx h" "hcsr h1 = hcsr h"
    "\<forall>(r, off)\<in>set ctx_regs. hmem h1 (?a + off) = get_x h r" "\<forall>b. b \<notin> ctxt_addrs ?a \<longrightarrow> hmem h1 b = hmem h b"
    using exec_saves [OF ctx_regs_facts(4) ctx_regs_facts(3), OF al(1)] unfolding ctxt_addrs_def by blast
  have x1: "get_x h1 r = get_x h r" for r using h1(2) by (simp add: get_x_def)
  have pre: "\<forall>(r, off)\<in>set ctx_regs. aligned8 (get_x h1 11 + off) \<and> r \<noteq> 11 \<and> r \<noteq> 0"
    using ctx_regs_facts(4) [OF al(2)] ctx_regs_facts(5) unfolding x1 by blast
  obtain h2 where h2: "exec (loads 11 ctx_regs) h1 = Some h2" "hmem h2 = hmem h1" "hcsr h2 = hcsr h1"
    "\<forall>(r, off)\<in>set ctx_regs. get_x h2 r = hmem h1 (?b + off)"
    using exec_loads [OF pre ctx_regs_facts(2)] unfolding x1 by blast
  have b: "run 32 switch_context 0 h = run 18 switch_context 14 h1" "run 18 switch_context 14 h1 = run 4 switch_context 28 h2"
    by (rule run_block [OF switch_blocks(3) _ h1(1)] run_block [OF switch_blocks(4) _ h2(1)];
        simp add: saves_def loads_def ctx_regs_facts)+
  have "run 4 switch_context 28 h2 = Returned (get_x h2 1) h2"
    by (rule run_ends(3) [where n = 3]) (simp_all add: switch_blocks)
  moreover have c: "callee_saved h2 = ctxt_at (hmem h) ?b"
  proof -
    have "ctxt_at (hmem h1) ?b = ctxt_at (hmem h) ?b" using h1(5) dj by (intro ctxt_at_cong) blast
    moreover have "ctxt_at (hmem h1) ?b = callee_saved h2" using h2(4) by (intro ctxt_at_eq) auto
    ultimately show ?thesis by simp
  qed
  moreover have "get_x h2 1 = ra (ctxt_at (hmem h) ?b)" unfolding c [symmetric] by (simp add: callee_saved_def)
  ultimately show ?thesis
    using b h1 h2 ctxt_at_eq [OF h1(4)] by (intro exI [of _ h2]) simp
qed

text \<open>C13: Switching away and back is invisible to a task. A context switch stores \<^verbatim>\<open>ra\<close>, \<^verbatim>\<open>sp\<close> and the twelve callee-saved
  registers in the old context, installs those of the new one and returns to its \<^verbatim>\<open>ra\<close>, and writes nothing
  else; whenever a later switch names that old context as its new one, with its memory as it was left, the
  task goes on at its return address with all callee-saved registers as before.\<close>
theorem context_switch_roundtrip:
  assumes "aligned8 (get_x h 10)" "aligned8 (get_x h 11)" "ctxt_addrs (get_x h 10) \<inter> ctxt_addrs (get_x h 11) = {}"
  shows "\<exists>h1. run 32 switch_context 0 h = Returned (ra (ctxt_at (hmem h) (get_x h 11))) h1 \<and>
    callee_saved h1 = ctxt_at (hmem h) (get_x h 11) \<and> (\<forall>b. b \<notin> ctxt_addrs (get_x h 10) \<longrightarrow> hmem h1 b = hmem h b) \<and>
    (\<forall>h2. get_x h2 11 = get_x h 10 \<longrightarrow> aligned8 (get_x h2 10) \<longrightarrow> ctxt_addrs (get_x h2 10) \<inter> ctxt_addrs (get_x h2 11) = {} \<longrightarrow>
       (\<forall>b\<in>ctxt_addrs (get_x h 10). hmem h2 b = hmem h1 b) \<longrightarrow>
       (\<exists>h3. run 32 switch_context 0 h2 = Returned (get_x h 1) h3 \<and> callee_saved h3 = callee_saved h))"
proof -
  obtain h1 where h1: "run 32 switch_context 0 h = Returned (ra (ctxt_at (hmem h) (get_x h 11))) h1"
    "callee_saved h1 = ctxt_at (hmem h) (get_x h 11)" "ctxt_at (hmem h1) (get_x h 10) = callee_saved h"
    "\<forall>b. b \<notin> ctxt_addrs (get_x h 10) \<longrightarrow> hmem h1 b = hmem h b"
    using switch_context_ok [OF assms] by blast
  have "\<exists>h3. run 32 switch_context 0 h2 = Returned (get_x h 1) h3 \<and> callee_saved h3 = callee_saved h"
    if "get_x h2 11 = get_x h 10" "aligned8 (get_x h2 10)" "ctxt_addrs (get_x h2 10) \<inter> ctxt_addrs (get_x h2 11) = {}"
      "\<forall>b\<in>ctxt_addrs (get_x h 10). hmem h2 b = hmem h1 b" for h2
  proof -
    have "ctxt_at (hmem h2) (get_x h2 11) = callee_saved h" using ctxt_at_cong [OF that(4)] h1(3) that(1) by simp
    then show ?thesis using switch_context_ok [of h2] that assms(1) by (auto simp: callee_saved_def)
  qed
  then show ?thesis using h1 by blast
qed

section \<open>First entries\<close>

lemma user_trampoline_run:
  "\<exists>h'. run 16 user_trampoline_asm 0 h = Srets h' \<and> hcsr h' = (hcsr h)(Sscratch := get_x h 2, Sepc := get_x h 8, Sstatus := get_x h 18) \<and>
     get_x h' 2 = get_x h 9 \<and> get_x h' 10 = get_x h 19 \<and> get_x h' 11 = get_x h 20 \<and> get_x h' 12 = get_x h 21"
proof -
  let ?is = "[CSRW Sscratch 2, CSRW Sepc 8, CSRW Sstatus 18, MV 2 9, MV 10 19, MV 11 20, MV 12 21]"
  obtain h' where h': "exec ?is h = Some h'" "hcsr h' = (hcsr h)(Sscratch := get_x h 2, Sepc := get_x h 8, Sstatus := get_x h 18)"
    "get_x h' 2 = get_x h 9" "get_x h' 10 = get_x h 19" "get_x h' 11 = get_x h 20" "get_x h' 12 = get_x h 21" by simp
  have "run 16 user_trampoline_asm 0 h = run 9 user_trampoline_asm 7 h'"
    by (rule run_block [OF _ _ h'(1)]) (simp_all add: user_trampoline_asm_def)
  moreover have "run 9 user_trampoline_asm 7 h' = Srets h'"
    by (rule run_ends(2) [where n = 8]) (simp_all add: user_trampoline_asm_def)
  ultimately show ?thesis using h' by auto
qed

lemma align16_8: "aligned8 (w AND NOT 15)"
proof -
  have "(w AND NOT 15) AND 7 = (w AND NOT 15) AND (15 AND 7)" by simp
  also have "\<dots> = ((w AND NOT 15) AND 15) AND 7" by (simp only: and.assoc)
  finally show ?thesis by (simp only: align16) (simp add: aligned8_def)
qed

text \<open>C21: A forged context reaches U-mode. Switching to a context that \<^verbatim>\<open>forge_user_context\<close> made returns into the
  trampoline, whose \<^verbatim>\<open>sret\<close> enters U-mode (\<open>SPP\<close> is 0, with interrupts on after the return) at the entry point, on the
  16-byte aligned user stack and with the generation in \<^verbatim>\<open>a0\<close>, as the launch record of the kernel model says; and \<open>sscratch\<close>
  holds the task's aligned trap-stack top, which is what the trap entry relies on at its first trap.\<close>
theorem forged_context_enters_user_mode:
  assumes "aligned8 (get_x h 10)" "aligned8 (get_x h 11)" "ctxt_addrs (get_x h 10) \<inter> ctxt_addrs (get_x h 11) = {}"
    and c: "ctxt_at (hmem h) (get_x h 11) = forge_user_context tramp en usp kstack (user_sstatus ss) g"
  shows "\<exists>h1 h2. run 32 switch_context 0 h = Returned tramp h1 \<and> run 16 user_trampoline_asm 0 h1 = Srets h2 \<and>
    user_trampoline (ctxt_at (hmem h) (get_x h 11)) =
      \<lparr>l_sscratch = hcsr h2 Sscratch, l_sepc = hcsr h2 Sepc, l_sstatus = hcsr h2 Sstatus, l_sp = get_x h2 2,
       l_args = (get_x h2 10, get_x h2 11, get_x h2 12)\<rparr> \<and>
    hcsr h2 Sepc = en \<and> hcsr h2 Sstatus AND push_bit 8 1 = 0 \<and> bit (hcsr h2 Sstatus) 5 \<and>
    get_x h2 2 = usp AND NOT 15 \<and> get_x h2 10 = g \<and> hcsr h2 Sscratch = kstack AND NOT 15 \<and>
    (kstack AND NOT 15 \<noteq> 0 \<longrightarrow> trap_top h2 = kstack AND NOT 15 \<and> aligned8 (trap_top h2))"
proof -
  let ?c = "ctxt_at (hmem h) (get_x h 11)"
  obtain h1 where h1: "run 32 switch_context 0 h = Returned (ra ?c) h1" "callee_saved h1 = ?c"
    using switch_context_ok [OF assms(1-3)] by blast
  note f = forge_user_context_fields [of tramp en usp kstack "user_sstatus ss" g, folded c]
  have x: "get_x h1 2 = kstack AND NOT 15" "map (get_x h1) [8, 9, 18, 19, 20, 21, 22, 23, 24, 25, 26, 27] =
      [en, usp AND NOT 15, user_sstatus ss, g] @ replicate 8 0"
    using h1(2) f(2,3) by (simp_all add: callee_saved_def flip: h1(2))
  then have x': "get_x h1 8 = en" "get_x h1 9 = usp AND NOT 15" "get_x h1 18 = user_sstatus ss" "get_x h1 19 = g"
    "get_x h1 20 = 0" "get_x h1 21 = 0" by (simp_all add: eval_nat_numeral)
  obtain h2 where h2: "run 16 user_trampoline_asm 0 h1 = Srets h2"
    "hcsr h2 = (hcsr h1)(Sscratch := get_x h1 2, Sepc := get_x h1 8, Sstatus := get_x h1 18)"
    "get_x h2 2 = get_x h1 9" "get_x h2 10 = get_x h1 19" "get_x h2 11 = get_x h1 20" "get_x h2 12 = get_x h1 21"
    using user_trampoline_run by blast
  show ?thesis
    using h1(1) h2 x(1) x' f user_sstatus_enters_user [of ss] align16_8 [of kstack]
    by (intro exI [of _ h1] exI [of _ h2]) (simp add: user_trampoline_def trap_top_def)
qed

section \<open>The boot entry\<close>

lemma start_at:
  "length (start_asm st bs be) = 8" "start_asm st bs be ! 3 = BGEU 5 6 7" "start_asm st bs be ! 6 = J 3" "start_asm st bs be ! 7 = CALL ''kmain''"
  "take 3 (drop 0 (start_asm st bs be)) = [LA 2 st, LA 5 bs, LA 6 be]" "take 2 (drop 4 (start_asm st bs be)) = [SD 0 0 5, ADDI 5 5 8]"
  by (simp_all add: start_asm_def)

lemma run_bgeu:
  "pc < length code \<Longrightarrow> code ! pc = BGEU r q t \<Longrightarrow> pc' = (if get_x h q \<le> get_x h r then t else pc + 1) \<Longrightarrow> m = Suc n \<Longrightarrow>
     run m code pc h = run n code pc' h"
  by simp

lemma bss_loop:
  assumes "aligned8 (get_x h 5)" "get_x h 6 = be" "unat be = unat (get_x h 5) + 8 * n"
  shows "\<exists>h'. run (4 * n + 2) (start_asm st bs be) 3 h = Called ''kmain'' 8 h' \<and> (\<forall>r. r \<noteq> 5 \<longrightarrow> get_x h' r = get_x h r) \<and>
    hcsr h' = hcsr h \<and> (\<forall>a. hmem h' a = (if aligned8 a \<and> get_x h 5 \<le> a \<and> a < be then 0 else hmem h a))"
  using assms
proof (induction n arbitrary: h)
  case 0
  then have "get_x h 5 = be" by (simp add: word_unat_eq_iff)
  moreover have "run (4 * 0 + 2) (start_asm st bs be) 3 h = run 1 (start_asm st bs be) 7 h"
    using 0 \<open>get_x h 5 = be\<close> by (intro run_bgeu [OF _ start_at(2)]) (simp_all add: start_at)
  moreover have "run 1 (start_asm st bs be) 7 h = Called ''kmain'' 8 h"
    by (rule run_ends(1) [where n = 0]) (simp_all add: start_at)
  ultimately show ?case by (intro exI [of _ h]) auto
next
  case (Suc n)
  let ?p = "get_x h 5" and ?c = "start_asm st bs be"
  let ?h1 = "set_x (set_mem h ?p 0) 5 (?p + 8)"
  have lt: "?p < be" using Suc.prems by (simp add: word_less_nat_alt)
  have up: "unat (?p + 8) = unat ?p + 8" using Suc.prems unsigned_less [of be, where 'a = nat] by (intro unat_add_fits [THEN trans]) simp_all
  have "run (4 * Suc n + 2) ?c 3 h = run (4 * n + 5) ?c 4 h"
    using lt Suc.prems by (intro run_bgeu [OF _ start_at(2)]) (simp_all add: start_at)
  also have "\<dots> = run (4 * n + 3) ?c 6 ?h1"
    using Suc.prems by (intro run_block [OF start_at(6)]) (simp_all add: Let_def)
  also have "\<dots> = run (4 * n + 2) ?c 3 ?h1"
    by (rule run_branch(2) [OF _ start_at(3)]) (simp_all add: start_at(1))
  finally have r: "run (4 * Suc n + 2) ?c 3 h = run (4 * n + 2) ?c 3 ?h1" .
  obtain h' where h': "run (4 * n + 2) ?c 3 ?h1 = Called ''kmain'' 8 h'" "\<forall>r. r \<noteq> 5 \<longrightarrow> get_x h' r = get_x ?h1 r" "hcsr h' = hcsr ?h1"
    "\<forall>a. hmem h' a = (if aligned8 a \<and> ?p + 8 \<le> a \<and> a < be then 0 else hmem ?h1 a)"
    using Suc.IH [of ?h1] Suc.prems up by auto
  have "hmem h' a = (if aligned8 a \<and> ?p \<le> a \<and> a < be then 0 else hmem h a)" for a
  proof -
    have "?p + 8 \<le> a \<longleftrightarrow> ?p \<le> a \<and> a \<noteq> ?p" if "aligned8 a"
      using that Suc.prems(1) up unfolding aligned8_iff word_le_nat_alt by (auto simp: word_unat_eq_iff) presburger+
    then show ?thesis using h'(4) Suc.prems(1) lt by auto
  qed
  then show ?case using r h'(1-3) by (intro exI [of _ h']) auto
qed

text \<open>C38: The boot entry terminates and prepares the machine for Rust: after at most \<open>5 + n / 2\<close> instructions for a \<^verbatim>\<open>.bss\<close> of \<open>n\<close> bytes
  it calls \<^verbatim>\<open>kmain\<close> with the stack pointer at the stack top, every doubleword of \<^verbatim>\<open>.bss\<close> zero, no other memory
  written, and the hart id and the device-tree pointer still in \<^verbatim>\<open>a0\<close> and \<^verbatim>\<open>a1\<close>.\<close>
theorem boot_entry_clears_bss:
  assumes "aligned8 bss_start" "aligned8 bss_end" "bss_start \<le> bss_end"
  shows "\<exists>h'. run (4 * (unat (bss_end - bss_start) div 8) + 5) (start_asm stack_top bss_start bss_end) 0 h = Called ''kmain'' 8 h' \<and>
    get_x h' 2 = stack_top \<and> get_x h' 10 = get_x h 10 \<and> get_x h' 11 = get_x h 11 \<and>
    (\<forall>a. hmem h' a = (if aligned8 a \<and> bss_start \<le> a \<and> a < bss_end then 0 else hmem h a))"
proof -
  let ?n = "unat (bss_end - bss_start) div 8" and ?c = "start_asm stack_top bss_start bss_end"
  let ?h = "set_x (set_x (set_x h 2 stack_top) 5 bss_start) 6 bss_end"
  have "unat (bss_end - bss_start) = unat bss_end - unat bss_start" using assms(3) by (simp add: unat_sub)
  then have n: "unat bss_end = unat bss_start + 8 * ?n"
    using assms unfolding aligned8_iff word_le_nat_alt by presburger
  have "run (4 * ?n + 5) ?c 0 h = run (4 * ?n + 2) ?c 3 ?h"
    by (rule run_block [OF start_at(5)]) simp_all
  moreover obtain h' where "run (4 * ?n + 2) ?c 3 ?h = Called ''kmain'' 8 h'" "\<forall>r. r \<noteq> 5 \<longrightarrow> get_x h' r = get_x ?h r"
    "\<forall>a. hmem h' a = (if aligned8 a \<and> bss_start \<le> a \<and> a < bss_end then 0 else hmem ?h a)"
    using bss_loop [of ?h bss_end ?n stack_top bss_start] assms n by auto
  ultimately show ?thesis by (intro exI [of _ h']) simp
qed


section \<open>Concrete harts\<close>

text \<open>A hart that trapped from U-mode, with its trap stack at \<open>0x80010000\<close>.\<close>

definition user_hart :: hart where
  "user_hart = \<lparr>hx = \<lambda>r. word_of_nat (7 * r), hcsr = (\<lambda>_. 0)(Sscratch := 0x80010000, Sepc := 0x4000, Scause := 8), hmem = \<lambda>_. 0\<rparr>"

theorem trap_entry_exit_roundtrip_witness:
  "trap_top user_hart = 0x80010000 \<and>
   (\<exists>h1 h3. run 64 trap_entry 0 user_hart = Called ''trap_handler'' 51 h1 \<and> get_x h1 10 = 0x8000FEE0 \<and>
      sepc (frame_at (hmem h1) 0x8000FEE0) = 0x4000 \<and> run 64 trap_entry 51 h1 = Srets h3 \<and>
      map (get_x h3) [1..<32] = map (get_x user_hart) [1..<32] \<and> hcsr h3 Sscratch = 0x80010000)"
proof -
  have top: "trap_top user_hart = 0x80010000" "hcsr user_hart Sscratch = 0x80010000" by (simp_all add: trap_top_def user_hart_def)
  have fu: "from_user (saved_frame user_hart)" by (simp add: from_user_def saved_frame_def user_hart_def)
  have "aligned8 (trap_top user_hart)" by (simp add: top)
  from trap_entry_exit_roundtrip [OF this] obtain h1 where h1: "run 64 trap_entry 0 user_hart = Called ''trap_handler'' 51 h1"
    "get_x h1 10 = 0x8000FEE0" "get_x h1 2 = get_x h1 10" "hcsr h1 Sscratch = 0" "frame_at (hmem h1) (get_x h1 10) = saved_frame user_hart"
    and ex: "\<forall>h2 f. get_x h2 2 = get_x h1 2 \<longrightarrow> hcsr h2 Sscratch = 0 \<longrightarrow> f = frame_at (hmem h2) (get_x h2 2) \<longrightarrow>
       (from_user f \<longleftrightarrow> hcsr user_hart Sscratch \<noteq> 0) \<longrightarrow>
       (\<exists>h3. run 64 trap_entry 51 h2 = Srets h3 \<and> map (get_x h3) [1..<32] = regs f \<and> hcsr h3 Sepc = sepc f \<and>
          hcsr h3 Sstatus = sstatus f \<and> hcsr h3 Sscratch = hcsr user_hart Sscratch)"
    unfolding top by auto
  from ex [rule_format, of h1 "saved_frame user_hart"] h1 fu top(2)
  obtain h3 where "run 64 trap_entry 51 h1 = Srets h3" "map (get_x h3) [1..<32] = regs (saved_frame user_hart)" "hcsr h3 Sscratch = 0x80010000"
    by auto
  then show ?thesis using h1 top by (auto simp: saved_frame_def user_hart_def)
qed

text \<open>A hart about to switch from a context at \<open>0x1000\<close> to a forged one at \<open>0x2000\<close>.\<close>

definition switch_hart :: hart where
  "switch_hart = \<lparr>hx = (\<lambda>r. word_of_nat (7 * r))(10 := 0x1000, 11 := 0x2000), hcsr = \<lambda>_. 0,
     hmem = (\<lambda>_. 0)(0x2000 := 0x80200100, 0x2008 := 0x80010000, 0x2010 := 0x80400000, 0x2018 := 0x80500000,
       0x2020 := user_sstatus 0, 0x2028 := 1)\<rparr>"

lemma switch_hart_ok:
  "get_x switch_hart 10 = 0x1000" "get_x switch_hart 11 = 0x2000"
  "ctxt_addrs (get_x switch_hart 10) \<inter> ctxt_addrs (get_x switch_hart 11) = {}"
  "ctxt_at (hmem switch_hart) (get_x switch_hart 11) = forge_user_context 0x80200100 0x80400000 0x80500000 0x80010000 (user_sstatus 0) 1"
proof -
  show x: "get_x switch_hart 10 = 0x1000" "get_x switch_hart 11 = 0x2000" by (simp_all add: switch_hart_def get_x_def)
  show "ctxt_addrs (get_x switch_hart 10) \<inter> ctxt_addrs (get_x switch_hart 11) = {}"
    unfolding x ctxt_addrs_def ctx_regs_def by simp
  have "replicate 8 (0 :: usize) = [0, 0, 0, 0, 0, 0, 0, 0]" by (simp add: numeral_eq_Suc)
  then show "ctxt_at (hmem switch_hart) (get_x switch_hart 11) =
      forge_user_context 0x80200100 0x80400000 0x80500000 0x80010000 (user_sstatus 0) 1"
    unfolding x by (intro ctxt.equality) (simp_all add: ctxt_at_regs forge_user_context_fields, simp_all add: switch_hart_def)
qed

theorem context_switch_roundtrip_witness:
  "\<exists>h1 h3. run 32 switch_context 0 switch_hart = Returned 0x80200100 h1 \<and> get_x h1 2 = 0x80010000 \<and>
     run 32 switch_context 0 (set_x (set_x h1 10 0x2000) 11 0x1000) = Returned 7 h3 \<and> callee_saved h3 = callee_saved switch_hart"
proof -
  note sh = switch_hart_ok
  obtain h1 where h1: "run 32 switch_context 0 switch_hart = Returned (ra (ctxt_at (hmem switch_hart) (get_x switch_hart 11))) h1"
    "callee_saved h1 = ctxt_at (hmem switch_hart) (get_x switch_hart 11)"
    and ex: "\<And>h2. get_x h2 11 = get_x switch_hart 10 \<Longrightarrow> aligned8 (get_x h2 10) \<Longrightarrow>
       ctxt_addrs (get_x h2 10) \<inter> ctxt_addrs (get_x h2 11) = {} \<Longrightarrow> \<forall>b\<in>ctxt_addrs (get_x switch_hart 10). hmem h2 b = hmem h1 b \<Longrightarrow>
       \<exists>h3. run 32 switch_context 0 h2 = Returned (get_x switch_hart 1) h3 \<and> callee_saved h3 = callee_saved switch_hart"
    using context_switch_roundtrip [OF _ _ sh(3)] by (auto simp: sh(1,2))
  have "ctxt_addrs 0x2000 \<inter> ctxt_addrs 0x1000 = {}" using sh(1-3) by (simp add: Int_commute)
  then have "\<exists>h3. run 32 switch_context 0 (set_x (set_x h1 10 0x2000) 11 0x1000) = Returned (get_x switch_hart 1) h3 \<and>
      callee_saved h3 = callee_saved switch_hart"
    by (intro ex) (simp_all add: sh(1))
  moreover have "get_x switch_hart 1 = 7" by (simp add: switch_hart_def get_x_def)
  moreover have "get_x h1 2 = sp (callee_saved h1)" by (simp add: callee_saved_def)
  ultimately show ?thesis using h1 by (auto simp: sh(4) forge_user_context_fields)
qed

theorem forged_context_enters_user_mode_witness:
  "\<exists>h1 h2. run 32 switch_context 0 switch_hart = Returned 0x80200100 h1 \<and> run 16 user_trampoline_asm 0 h1 = Srets h2 \<and>
     hcsr h2 Sepc = 0x80400000 \<and> get_x h2 2 = 0x80500000 \<and> get_x h2 10 = 1 \<and> trap_top h2 = 0x80010000 \<and> aligned8 (trap_top h2)"
proof -
  have al: "aligned8 (get_x switch_hart 10)" "aligned8 (get_x switch_hart 11)" by (simp_all add: switch_hart_ok(1,2))
  have n: "(0x80500000 :: usize) AND NOT 15 = 0x80500000" "(0x80010000 :: usize) AND NOT 15 = 0x80010000" by simp_all
  show ?thesis
    using forged_context_enters_user_mode [OF al switch_hart_ok(3,4)] unfolding n by auto
qed

theorem boot_entry_clears_bss_witness:
  "\<exists>h'. run 13 (start_asm 0x9000 0x1000 0x1010) 0 (user_hart\<lparr>hmem := \<lambda>_. 5\<rparr>) = Called ''kmain'' 8 h' \<and>
     map (hmem h') [0xff8, 0x1000, 0x1008, 0x1010] = [5, 0, 0, 5] \<and> get_x h' 2 = 0x9000"
  using boot_entry_clears_bss [where bss_start = "0x1000" and bss_end = "0x1010" and stack_top = "0x9000" and h = "user_hart\<lparr>hmem := \<lambda>_. 5\<rparr>"] by auto


end
