(* ===== verification/Programs.thy ===== *)
theory Programs
  imports Boot
begin

unbundle bit_operations_syntax

text \<open>
  The components that run on the kernel (\<^verbatim>\<open>src/kernel/src/main.rs\<close>): the system-call stubs and the user-mode
  tasks, as programs that issue system calls, and a machine that runs any programs on the kernel of
  the theory \<open>Kernel\<close>, with timer and device interrupts between any two steps. A program is what its task does next: set
  argument registers and trap, read the clock, fault, or start its loop again. Registers not written by a
  stub keep their values, results are read from the registers of the trap frame when the task runs again. The
  continuation of \<^verbatim>\<open>exit\<close> is never run.

  A call of a kernel task runs with interrupts on, so it takes four steps: it enters the run queue's cell
  (\<open>KernelInCall\<close>: the flag is set), leaves it with the outcome of the rendezvous (\<open>KernelPark\<close>), enters
  it again to park (\<open>KernelParking\<close>), and parks. An interrupt may come between any two of them; one inside a closure meets
  the flag. The last step, from the end of the second closure to the switch, is one step here: what an
  interrupt in that window does is shown of \<open>park_window\<close> in the theory \<open>Kernel_Props\<close>.
\<close>

section \<open>Programs\<close>

datatype uprog =
    Ecall "(nat \<times> usize) list" "usize list \<Rightarrow> uprog"
  | Resuming "usize list \<Rightarrow> uprog"
  | ReadClock "u32 \<Rightarrow> u32 \<Rightarrow> uprog"
  | Fault usize
  | Again
  | KernelCall usize usize uprog
  | KernelInCall usize usize uprog
  | KernelPark call_outcome uprog
  | KernelParking call_outcome uprog
  | KernelIdle

text \<open>The exception codes of the deliberate faults.\<close>

abbreviation LoadFault :: uprog where "LoadFault \<equiv> Fault 13"
abbreviation IllegalInsn :: uprog where "IllegalInsn \<equiv> Fault 2"

text \<open>The stubs: register \<open>a0\<close> has index 9, \<open>a7\<close> index 16.\<close>

definition sys_exit :: "usize \<Rightarrow> uprog" where
  "sys_exit code = Ecall [(16, 2), (9, code)] (\<lambda>_. Again)"

definition sys_send :: "usize \<Rightarrow> usize \<Rightarrow> (usize \<Rightarrow> uprog) \<Rightarrow> uprog" where
  "sys_send cap b k = Ecall [(16, 4), (9, cap), (10, b), (11, 0), (12, 0), (13, 0)] (\<lambda>r. k (r ! 9))"

definition sys_grant :: "usize \<Rightarrow> usize \<Rightarrow> usize \<Rightarrow> (usize \<Rightarrow> uprog) \<Rightarrow> uprog" where
  "sys_grant ep src_slot b k = Ecall [(16, 11), (9, ep), (10, src_slot), (11, b)] (\<lambda>r. k (r ! 9))"

definition sys_revoke :: "usize \<Rightarrow> (usize \<Rightarrow> uprog) \<Rightarrow> uprog" where
  "sys_revoke ep k = Ecall [(16, 12), (9, ep)] (\<lambda>r. k (r ! 9))"

definition sys_call :: "usize \<Rightarrow> usize \<Rightarrow> (usize \<Rightarrow> uprog) \<Rightarrow> uprog" where
  "sys_call cap b k = Ecall [(16, 7), (9, cap), (10, b), (11, 0), (12, 0), (13, 0)] (\<lambda>r. k (r ! 9))"

definition sys_reply :: "usize \<Rightarrow> usize \<Rightarrow> (usize \<Rightarrow> uprog) \<Rightarrow> uprog" where
  "sys_reply reply_slot b k = Ecall [(16, 8), (9, reply_slot), (10, b), (11, 0), (12, 0)] (\<lambda>r. k (r ! 9))"

definition sys_getrandom :: "usize \<Rightarrow> (usize \<Rightarrow> usize list \<Rightarrow> uprog) \<Rightarrow> uprog" where
  "sys_getrandom cap k = Ecall [(16, 9), (9, cap)] (\<lambda>r. k (r ! 9) [r ! 10, r ! 11, r ! 12, r ! 13])"

definition sys_recv :: "usize \<Rightarrow> usize \<Rightarrow> (usize \<Rightarrow> uprog) \<Rightarrow> uprog" where
  "sys_recv cap reply_slot k = Ecall [(16, 5), (9, cap), (10, reply_slot)] (\<lambda>r. k (r ! 9))"

definition sys_restart :: "usize \<Rightarrow> (usize \<Rightarrow> uprog) \<Rightarrow> uprog" where
  "sys_restart cap k = Ecall [(16, 6), (9, cap)] (\<lambda>r. k (r ! 9))"

definition sys_send4 :: "usize \<Rightarrow> usize \<Rightarrow> usize \<Rightarrow> usize \<Rightarrow> usize \<Rightarrow> (usize \<Rightarrow> uprog) \<Rightarrow> uprog" where
  "sys_send4 cap w0 w1 w2 w3 k = Ecall [(16, 4), (9, cap), (10, w0), (11, w1), (12, w2), (13, w3)] (\<lambda>r. k (r ! 9))"

definition sys_recv4 :: "usize \<Rightarrow> usize \<Rightarrow> (usize \<Rightarrow> usize \<Rightarrow> usize \<Rightarrow> usize \<Rightarrow> uprog) \<Rightarrow> uprog" where
  "sys_recv4 cap reply_slot k = Ecall [(16, 5), (9, cap), (10, reply_slot)] (\<lambda>r. k (r ! 9) (r ! 10) (r ! 11) (r ! 12))"

definition sys_seal :: "usize \<Rightarrow> (usize \<Rightarrow> usize \<Rightarrow> usize \<Rightarrow> usize \<Rightarrow> usize \<Rightarrow> uprog) \<Rightarrow> uprog" where
  "sys_seal plain k = Ecall [(16, 13), (9, plain)] (\<lambda>r. k (r ! 9) (r ! 10) (r ! 11) (r ! 12) (r ! 13))"

definition sys_open :: "usize \<Rightarrow> usize \<Rightarrow> usize \<Rightarrow> usize \<Rightarrow> (usize \<Rightarrow> usize \<Rightarrow> uprog) \<Rightarrow> uprog" where
  "sys_open ct tag_lo tag_hi nonce k =
     Ecall [(16, 14), (9, ct), (10, tag_lo), (11, tag_hi), (12, nonce)] (\<lambda>r. k (r ! 9) (r ! 10))"

definition the_default :: "'a \<Rightarrow> 'a option \<Rightarrow> 'a" where
  "the_default x o' = (case o' of None \<Rightarrow> x | Some y \<Rightarrow> y)"

section \<open>The components\<close>

definition RTC_REPLY_SLOT :: usize where "RTC_REPLY_SLOT = 1"
definition NEEDY_RTC_SLOT :: usize where "NEEDY_RTC_SLOT = 1"
definition NEEDY_EMPTY_SLOT :: usize where "NEEDY_EMPTY_SLOT = 3"
definition LEASE_REPLY_SLOT :: usize where "LEASE_REPLY_SLOT = 1"
definition TENANT_REVOKED_CODE :: usize where "TENANT_REVOKED_CODE = 13"
definition CHAN_REPLY_SLOT :: usize where "CHAN_REPLY_SLOT = 2"
definition CHAN_PLAINTEXT :: usize where "CHAN_PLAINTEXT = 0x12345678"
definition CHAN_OK_CODE :: usize where "CHAN_OK_CODE = 14"
definition NOCAP_CODE :: usize where "NOCAP_CODE = 15"
definition GATE_REPLY_SLOT :: usize where "GATE_REPLY_SLOT = 1"

abbreviation slot :: "nat \<Rightarrow> usize" where "slot \<equiv> word_of_nat"

definition rtc_server :: uprog where
  "rtc_server = sys_recv (slot EP_CAP) RTC_REPLY_SLOT (\<lambda>_. ReadClock (\<lambda>low high.
     let t = push_bit 32 (ucast high) OR ucast low
     in sys_reply RTC_REPLY_SLOT t (\<lambda>_. Again)))"

definition needy_task :: uprog where
  "needy_task = sys_recv (slot GRANT_CHAN_CAP) NEEDY_RTC_SLOT (\<lambda>_. sys_call NEEDY_RTC_SLOT 1 (\<lambda>t. sys_exit t))"

definition broker_task :: uprog where
  "broker_task = sys_grant (slot GRANT_CHAN_CAP) NEEDY_EMPTY_SLOT 0 (\<lambda>_.
     sys_grant (slot GRANT_CHAN_CAP) (slot BROKER_RTC_SLOT) 1 (\<lambda>_. sys_exit 0))"

definition lease_server :: uprog where
  "lease_server = sys_recv (slot LEASE_CAP) LEASE_REPLY_SLOT (\<lambda>_. sys_reply LEASE_REPLY_SLOT 1 (\<lambda>_.
     sys_revoke (slot LEASE_CAP) (\<lambda>_. sys_exit 0)))"

definition tenant_task :: uprog where
  "tenant_task = sys_call (slot LEASE_CAP) 1 (\<lambda>r1. sys_call (slot LEASE_CAP) 2 (\<lambda>r2.
     if r1 \<noteq> usize_max \<and> r2 = usize_max then sys_exit TENANT_REVOKED_CODE else sys_exit 99))"

definition sealer_task :: uprog where
  "sealer_task = sys_seal CHAN_PLAINTEXT (\<lambda>s ct tl th nonce. sys_send4 (slot CHAN_CAP) nonce ct tl th (\<lambda>_. sys_exit 0))"

definition opener_task :: uprog where
  "opener_task = sys_recv4 (slot CHAN_CAP) CHAN_REPLY_SLOT (\<lambda>nonce ct tl th.
     sys_open ct tl th nonce (\<lambda>s plain.
     let verified = s = 0 \<and> plain = CHAN_PLAINTEXT
     in sys_open (ct XOR 1) tl th nonce (\<lambda>s2 _.
        let tamper_rejected = s2 = usize_max
        in if verified \<and> tamper_rejected then sys_exit CHAN_OK_CODE else sys_exit 99)))"

definition nocap_task :: uprog where
  "nocap_task = sys_seal CHAN_PLAINTEXT (\<lambda>s _ _ _ _. if s = usize_max then sys_exit NOCAP_CODE else sys_exit 98)"

definition rogue_task :: uprog where
  "rogue_task = sys_send (slot EP_CAP) 0xdead (\<lambda>r. sys_exit (if r = usize_max then 7 else 0))"

definition healer_task :: uprog where
  "healer_task = sys_recv (slot CRASH_CAP) 0 (\<lambda>cap_idx. sys_restart cap_idx (\<lambda>_. Again))"

definition gated :: "uprog \<Rightarrow> uprog" where
  "gated p = sys_recv (slot GATE_CAP) GATE_REPLY_SLOT (\<lambda>_. sys_reply GATE_REPLY_SLOT 0 (\<lambda>_. p))"

definition transient_task :: "usize \<Rightarrow> uprog" where
  "transient_task generation = (if generation = 0 then gated LoadFault else sys_exit 0)"

definition flaky_task :: "usize \<Rightarrow> uprog" where
  "flaky_task generation = (if generation = 0 then gated LoadFault else LoadFault)"

definition novel_task :: "usize \<Rightarrow> uprog" where
  "novel_task generation = (if generation = 0 then gated IllegalInsn else IllegalInsn)"

definition rnguser_task :: uprog where
  "rnguser_task = sys_getrandom 99 (\<lambda>bad _. sys_getrandom (slot RNG_CAP) (\<lambda>ok1 _. sys_getrandom (slot RNG_CAP) (\<lambda>ok2 _.
     let good = bad = usize_max \<and> ok1 = 0 \<and> ok2 = 0 in sys_exit (if good then 0 else 7))))"

definition deferrer_task :: uprog where
  "deferrer_task = sys_recv (slot DEFER_CAP) 1 (\<lambda>a. sys_recv (slot DEFER_CAP) 2 (\<lambda>b.
     sys_reply 2 (b OR 0x100) (\<lambda>_. sys_reply 1 (a OR 0x100) (\<lambda>_. sys_exit 0))))"

definition dclient_a_task :: uprog where
  "dclient_a_task = sys_call (slot DEFER_CAP) 0xa1 (\<lambda>r. sys_exit r)"

definition dclient_b_task :: uprog where
  "dclient_b_task = sys_call (slot DEFER_CAP) 0xb1 (\<lambda>r. sys_exit r)"

text \<open>The kernel tasks of a system without devices: the loader releases the three patients, the others only yield.\<close>

definition kb_loader_release :: uprog where
  "kb_loader_release = KernelCall (slot GATE_LOADER_CAP) 0 (KernelCall (slot GATE_LOADER_CAP) 0
     (KernelCall (slot GATE_LOADER_CAP) 0 KernelIdle))"

text \<open>Which program runs in which slot of the table, by the name of its task. The drivers have theories of their own, and the
  kernel's other tasks yield here.\<close>

definition component_code :: "sched \<Rightarrow> nat \<Rightarrow> usize \<Rightarrow> uprog" where
  "component_code s i generation =
     (case slot_of s i of
        None \<Rightarrow> KernelIdle
      | Some t \<Rightarrow>
          if t_relaunch t = None then (if t_name t = ''kb'' then kb_loader_release else KernelIdle)
          else the_default (sys_exit 0) (map_of
            [(''rtc'', rtc_server), (''needy'', needy_task), (''broker'', broker_task), (''lease'', lease_server),
             (''tenant'', tenant_task), (''opener'', opener_task), (''sealer'', sealer_task), (''nocap'', nocap_task),
             (''rogue'', rogue_task), (''healer'', healer_task), (''transient'', transient_task generation),
             (''flaky'', flaky_task generation), (''novel'', novel_task generation), (''rnguser'', rnguser_task),
             (''deferrer'', deferrer_task), (''dclientA'', dclient_a_task), (''dclientB'', dclient_b_task)] (t_name t)))"

section \<open>The machine\<close>

text \<open>What happens next: a timer tick, a device interrupt, or one step of the running task, whose instruction is at the given address
  and for which the clock reads as given.\<close>

datatype event = Tick | Irq u32 | Step usize "u32 \<times> u32"

record 'r machine =
  m_kernel :: "'r kernel"
  m_prog :: "nat \<Rightarrow> uprog"
  m_code :: "nat \<Rightarrow> usize \<Rightarrow> uprog"

text \<open>A task that is about to be launched starts its code, with the generation in \<open>a0\<close>.\<close>

definition launch_gen :: "'r kernel \<Rightarrow> nat \<Rightarrow> usize" where
  "launch_gen k i = (case s_tasks (k_sched k) ! i of None \<Rightarrow> 0 | Some t \<Rightarrow> fst (l_args (user_trampoline (t_context t))))"

definition set_regs :: "(nat \<times> usize) list \<Rightarrow> usize list \<Rightarrow> usize list" where
  "set_regs args r = foldl (\<lambda>r (i, v). r[i := v]) r args"

definition settle :: "'r machine \<Rightarrow> 'r kernel \<Rightarrow> 'r machine" where
  "settle m k = m\<lparr>m_kernel := k,
     m_prog := (\<lambda>j. if j \<noteq> cur k \<and> k_cont k j = Fresh then m_code m j (launch_gen k j) else m_prog m j)\<rparr>"

definition trap :: "'r kenv \<Rightarrow> u32 \<Rightarrow> 'r machine \<Rightarrow> trap_frame \<Rightarrow> 'r machine result" where
  "trap e irq m f = bindr (trap_handler e irq (m_kernel m) f) (\<lambda>k. Inr (settle m k))"

definition user_trap :: "'r kenv \<Rightarrow> 'r machine \<Rightarrow> usize \<Rightarrow> usize \<Rightarrow> (nat \<times> usize) list \<Rightarrow> uprog \<Rightarrow> 'r machine result" where
  "user_trap e m pc sc args rest =
     (let k = m_kernel m; i = cur k; f = k_frames k i
      in trap e 0 (m\<lparr>m_prog := (m_prog m)(i := rest)\<rparr>) (f\<lparr>regs := set_regs args (regs f), scause := sc, sepc := pc, sstatus := 0\<rparr>))"

text \<open>The flag of the run queue's cell, as the running kernel task sets and clears it.\<close>

definition hold :: "'r kernel \<Rightarrow> 'r kernel" where
  "hold k = k\<lparr>k_sched_in_use := True\<rparr>"

definition release :: "'r kernel \<Rightarrow> 'r kernel" where
  "release k = k\<lparr>k_sched_in_use := False\<rparr>"

definition enter_cell :: "'r machine \<Rightarrow> uprog \<Rightarrow> 'r machine result" where
  "enter_cell m p =
     (let k = m_kernel m
      in bindr (assertr (\<not> k_sched_in_use k) reentrant) (\<lambda>_.
         Inr (m\<lparr>m_kernel := hold k, m_prog := (m_prog m)(cur k := p)\<rparr>)))"

text \<open>\<open>env i\<close> is the machine as slot \<open>i\<close> sees it: the user memory mapped in its address space is its own.\<close>

definition machine_step :: "(nat \<Rightarrow> 'r kenv) \<Rightarrow> event \<Rightarrow> 'r machine \<Rightarrow> 'r machine result" where
  "machine_step env ev m =
     (let k = m_kernel m; i = cur k; f = k_frames k i; e = env i
      in case ev of
           Tick \<Rightarrow> trap e 0 m (f\<lparr>scause := INTERRUPT_BIT OR 5\<rparr>)
         | Irq n \<Rightarrow> trap e n m (f\<lparr>scause := INTERRUPT_BIT OR 9\<rparr>)
         | Step pc clock \<Rightarrow>
             (case m_prog m i of
                Ecall args cont \<Rightarrow> user_trap e m pc 8 args (Resuming cont)
              | Resuming cont \<Rightarrow> Inr (m\<lparr>m_prog := (m_prog m)(i := cont (regs f))\<rparr>)
              | ReadClock cont \<Rightarrow> Inr (m\<lparr>m_prog := (m_prog m)(i := cont (fst clock) (snd clock))\<rparr>)
              | Fault sc \<Rightarrow> user_trap e m pc sc [] (Fault sc)
              | Again \<Rightarrow> Inr (m\<lparr>m_prog := (m_prog m)(i := m_code m i 0)\<rparr>)
              | KernelCall cap b rest \<Rightarrow> enter_cell m (KernelInCall cap b rest)
              | KernelInCall cap b rest \<Rightarrow>
                  bindr (call_attempt (release k) cap b) (\<lambda>(k', step).
                  Inr (m\<lparr>m_kernel := k', m_prog := (m_prog m)(i := KernelPark step rest)\<rparr>))
              | KernelPark step rest \<Rightarrow> enter_cell m (KernelParking step rest)
              | KernelParking step rest \<Rightarrow>
                  bindr (call_finish (release k) step) (\<lambda>k'. Inr (settle (m\<lparr>m_prog := (m_prog m)(i := rest)\<rparr>) k'))
              | KernelIdle \<Rightarrow> bindr (kernel_yield k) (\<lambda>k'. Inr (settle m k'))))"

fun machine_run :: "(nat \<Rightarrow> 'r kenv) \<Rightarrow> event list \<Rightarrow> 'r machine \<Rightarrow> 'r machine result" where
  "machine_run env [] m = Inr m"
| "machine_run env (ev # evs) m = bindr (machine_step env ev m) (machine_run env evs)"

definition launch_machine :: "'r kernel \<Rightarrow> (nat \<Rightarrow> usize \<Rightarrow> uprog) \<Rightarrow> 'r machine" where
  "launch_machine k code = \<lparr>m_kernel = k, m_prog = (\<lambda>i. code i 0), m_code = code\<rparr>"

end
