(* ===== verification/Program_Safety.thy ===== *)
theory Program_Safety
  imports Programs Homes
begin

unbundle bit_operations_syntax

text \<open>
  Programs against the kernel. A component that prints only what it has mapped cannot stop the machine of the theory
  \<open>Programs\<close>, whatever else it does and whenever it is interrupted; a kernel task that calls can be stopped inside the
  run queue by an interrupt, and then the kernel panics. A component that lacks a capability sees its system call refused and goes
  on. The invariant is that of the theory \<open>Kernel_Safety\<close> together with the well-formedness of what each slot runs.
\<close>

section \<open>Well-formed programs\<close>

text \<open>A component issues system calls, of which a \<^verbatim>\<open>print\<close> reads only memory mapped for it, reads the clock and faults in the ways the
  kernel contains; a kernel task yields and, where \<open>calls\<close> says so, calls.\<close>

definition prints_mapped :: "'r kenv \<Rightarrow> (nat \<times> usize) list \<Rightarrow> bool" where
  "prints_mapped e args \<longleftrightarrow> (\<forall>r. length r = 31 \<longrightarrow>
     (let rs = set_regs args r in decode_syscall (rs ! 16) = SysPrint \<longrightarrow> \<not> print_faults e (rs ! 9) (rs ! 10)))"

primrec user_prog :: "'r kenv \<Rightarrow> uprog \<Rightarrow> bool" where
  "user_prog e (Ecall args cont) = (prints_mapped e args \<and> (\<forall>r. user_prog e (cont r)))"
| "user_prog e (Resuming cont) = (\<forall>r. user_prog e (cont r))"
| "user_prog e (ReadClock cont) = (\<forall>l h. user_prog e (cont l h))"
| "user_prog e (Fault sc) = (sc = 2 \<or> sc = 12 \<or> sc = 13 \<or> sc = 15)"
| "user_prog e Again = True"
| "user_prog e (KernelCall cap b rest) = False"
| "user_prog e (KernelInCall cap b rest) = False"
| "user_prog e (KernelPark step rest) = False"
| "user_prog e (KernelParking step rest) = False"
| "user_prog e KernelIdle = False"

fun kernel_prog :: "bool \<Rightarrow> uprog \<Rightarrow> bool" where
  "kernel_prog calls (KernelCall cap b rest) = (calls \<and> kernel_prog calls rest)"
| "kernel_prog calls KernelIdle = True"
| "kernel_prog calls _ = False"

text \<open>A kernel task on its way through a call.\<close>

fun kernel_run :: "bool \<Rightarrow> uprog \<Rightarrow> bool" where
  "kernel_run calls (KernelInCall cap b rest) = (calls \<and> kernel_prog calls rest)"
| "kernel_run calls (KernelPark step rest) = (calls \<and> kernel_prog calls rest)"
| "kernel_run calls (KernelParking step rest) = (calls \<and> kernel_prog calls rest)"
| "kernel_run calls p = kernel_prog calls p"

text \<open>A kernel task inside a closure on the run queue.\<close>

fun inside :: "uprog \<Rightarrow> bool" where
  "inside (KernelInCall cap b rest) = True"
| "inside (KernelParking step rest) = True"
| "inside p = False"

definition code_ok :: "(nat \<Rightarrow> 'r kenv) \<Rightarrow> bool \<Rightarrow> nat set \<Rightarrow> nat \<Rightarrow> (nat \<Rightarrow> uprog) \<Rightarrow> bool" where
  "code_ok env calls R d p \<longleftrightarrow> (\<forall>i. if i \<in> R then user_prog (env i) (p i) else kernel_prog calls (p i)) \<and> p d = KernelIdle"

definition progs_ok :: "(nat \<Rightarrow> 'r kenv) \<Rightarrow> bool \<Rightarrow> nat set \<Rightarrow> nat \<Rightarrow> (nat \<Rightarrow> uprog) \<Rightarrow> bool" where
  "progs_ok env calls R d p \<longleftrightarrow> (\<forall>i. if i \<in> R then user_prog (env i) (p i) else kernel_run calls (p i)) \<and> p d = KernelIdle"



lemma not_inside: "user_prog e p \<Longrightarrow> \<not> inside p" "kernel_prog calls p \<Longrightarrow> \<not> inside p"
  by (cases p; simp)+



text \<open>The invariant of the machine: the kernel's, up to the flag of the run queue, which is set exactly while the running
  task is inside; nobody is inside the pool.\<close>

definition machine_ok :: "(nat \<Rightarrow> 'r kenv) \<Rightarrow> bool \<Rightarrow> nat set \<Rightarrow> nat \<Rightarrow> 'r machine \<Rightarrow> bool" where
  "machine_ok env calls R d m \<longleftrightarrow>
     kernel_wf R d (release (m_kernel m)) \<and> \<not> k_pool_in_use (m_kernel m) \<and> progs_ok env calls R d (m_prog m) \<and>
     (\<forall>g. code_ok env calls R d (\<lambda>i. m_code m i g)) \<and>
     (\<forall>i. inside (m_prog m i) \<longleftrightarrow> i = cur (m_kernel m) \<and> k_sched_in_use (m_kernel m))"

lemma release_simps [simp]:
  "k_sched (release k) = k_sched k" "k_chan (release k) = k_chan k" "k_pool_in_use (release k) = k_pool_in_use k"
  "\<not> k_sched_in_use (release k)" "k_cont (release k) = k_cont k" "k_frames (release k) = k_frames k" "release (hold k) = release k"
  "k_exits (release k) = k_exits k"
  by (simp_all add: release_def hold_def)

lemma hold_simps [simp]:
  "k_sched (hold k) = k_sched k" "k_chan (hold k) = k_chan k" "k_pool_in_use (hold k) = k_pool_in_use k" "k_sched_in_use (hold k)"
  by (simp_all add: hold_def)

lemma release_free: "\<not> k_sched_in_use k \<Longrightarrow> release k = k"
  by (cases k) (simp add: release_def)

lemma machine_ok_free: "machine_ok env calls R d m \<Longrightarrow> \<not> inside (m_prog m (cur (m_kernel m))) \<Longrightarrow>
    kernel_wf R d (m_kernel m) \<and> (\<forall>i. \<not> inside (m_prog m i))"
  using release_free [of "m_kernel m"] unfolding machine_ok_def by metis


section \<open>The nonce counter\<close>

text \<open>What only \<^verbatim>\<open>seal\<close> changes, and by one at most: the nonce counter. No handler touches the flag of the pool.\<close>

abbreviation svc :: "'r kernel \<Rightarrow> channel \<times> bool" where
  "svc k \<equiv> (k_chan k, k_pool_in_use k)"

definition counts :: "'r kernel \<Rightarrow> 'r kernel \<Rightarrow> bool" where
  "counts k k' \<longleftrightarrow> unat (nonce_ctr (k_chan k')) \<le> unat (nonce_ctr (k_chan k)) + 1 \<and> k_pool_in_use k' = k_pool_in_use k"

lemma svc_counts: "svc k' = svc k \<Longrightarrow> counts k k'"
  by (simp add: counts_def)

lemma chan_message [simp]: "k_chan (write_message k msg) = k_chan k" "k_pool_in_use (write_message k msg) = k_pool_in_use k"
  by (simp_all add: write_message_def split: prod.split)
















section \<open>Steps keep the machine well formed\<close>




lemma length_set_regs [simp]: "length (set_regs args r) = length r"
proof -
  have "length (foldl (\<lambda>r (i, v). r[i := v]) r args) = length r" by (induction args arbitrary: r) auto
  then show ?thesis by (simp add: set_regs_def)
qed














section \<open>The demonstration components\<close>

lemmas stubs = sys_exit_def sys_send_def sys_grant_def sys_revoke_def sys_call_def sys_reply_def sys_getrandom_def sys_recv_def
  sys_restart_def sys_send4_def sys_recv4_def sys_seal_def sys_open_def

lemma stub_prints: "decode_syscall n \<noteq> SysPrint \<Longrightarrow> prints_mapped e ((16, n) # args)" if "list_all (\<lambda>(i, _). i \<noteq> 16) args"
proof -
  have "set_regs args r ! 16 = r ! 16" for r
    using that unfolding set_regs_def by (induction args arbitrary: r) (auto split: prod.splits)
  then show "decode_syscall n \<noteq> SysPrint \<Longrightarrow> prints_mapped e ((16, n) # args)"
    by (simp add: prints_mapped_def set_regs_def)
qed

lemma components_user_prog:
  "user_prog e rtc_server" "user_prog e needy_task" "user_prog e broker_task" "user_prog e lease_server" "user_prog e tenant_task"
  "user_prog e opener_task" "user_prog e sealer_task" "user_prog e nocap_task" "user_prog e rogue_task" "user_prog e healer_task"
  "user_prog e (transient_task g)" "user_prog e (flaky_task g)" "user_prog e (novel_task g)" "user_prog e rnguser_task" "user_prog e
  deferrer_task" "user_prog e dclient_a_task" "user_prog e dclient_b_task" "user_prog e (sys_exit c)"
  by (simp_all add: rtc_server_def needy_task_def broker_task_def lease_server_def tenant_task_def opener_task_def sealer_task_def
      nocap_task_def rogue_task_def healer_task_def transient_task_def flaky_task_def novel_task_def gated_def rnguser_task_def
      deferrer_task_def dclient_a_task_def dclient_b_task_def stubs Let_def stub_prints decode_syscall_def)





definition own_stack_env :: "nat \<Rightarrow> unit kenv" where
  "own_stack_env i = \<lparr>e_user_trampoline = 0x80000100, e_sstatus = 0, e_user_lo = 0x1000, e_user_hi = 0x20000,
     e_mem = (\<lambda>a. if unat a div 0x1000 = i + 1 then Some 65 else None), e_parcel = (\<lambda>a. None), e_rng = toy_rng, e_aead = toy_aead\<rparr>"



section \<open>A refused component sees the refusal\<close>

text \<open>What \<^verbatim>\<open>exit\<close> does: the task is reported with its code, its slot is \<open>Exited\<close>, and another one runs.\<close>

definition ended :: "'r kernel \<Rightarrow> nat \<Rightarrow> usize \<Rightarrow> 'r kernel \<Rightarrow> bool" where
  "ended k i code k' \<longleftrightarrow> k_exits k' = k_exits k @ [(i, ExitedWith code)] \<and>
     (\<exists>t. slot_of (k_sched k') i = Some t \<and> t_state t = Exited) \<and> cur k' \<noteq> i"

lemma retire_exits:
  "leads (retire s pref) (\<lambda>(s', _). s_current s' \<noteq> s_current s \<and> (\<exists>t. slot_of s' (s_current s) = Some t \<and> t_state t = Exited))"
  by (auto simp: retire_def run_next_def wlp)

lemma exit_current_ends:
  assumes wf: "kernel_wf R d k" and cd: "cur k \<noteq> d"
  shows "\<exists>k'. exit_current k (ExitedWith code) = Inr k' \<and> kernel_wf R d k' \<and> ended k (cur k) code k'"
proof -
  obtain k' where k': "exit_current k (ExitedWith code) = Inr k'" "kernel_wf R d k'"
    using exit_current_ok [OF wf cd] by (auto simp: holds_iff)
  have "leads (exit_step (k_sched k) (k_heal k) (ExitedWith code)) (\<lambda>(s', _, _). s_current s' \<noteq> cur k \<and>
      (\<exists>t. slot_of s' (cur k) = Some t \<and> t_state t = Exited))"
    unfolding exit_step_def by (auto simp: wlp split: prod.splits intro!: leads_mono [OF retire_exits])
  then have "leads (exit_current k (ExitedWith code)) (ended k (cur k) code)"
    unfolding exit_current_def leads_bindr
    by (intro leads_sched_withI) (rule leads_mono, assumption, auto simp: ended_def intro!: leads_mono [OF resume_others])
  then show ?thesis using k' by (auto simp: leads_def)
qed

text \<open>The two steps of a component that a system call refuses: the call, and reading its result.\<close>

lemma refused_ecall:
  assumes i: "i = cur (m_kernel m)" and wf: "kernel_wf R d (m_kernel m)" and iR: "i \<in> R"
    and pc: "unat pc + 4 < 2 ^ 64"
    and ref: "\<And>k. frame k = (k_frames (m_kernel m) i)\<lparr>regs := set_regs args (regs (k_frames (m_kernel m) i)), scause := 8, sepc := pc, sstatus := 0\<rparr> \<Longrightarrow>
      k_sched k = k_sched (m_kernel m) \<Longrightarrow> \<not> k_sched_in_use k \<Longrightarrow> dispatch e k = Inr (set_reg k 9 usize_max, Resume)"
  shows "\<exists>m'. user_trap e m pc 8 args rest = Inr m' \<and> m_prog m' i = rest \<and> kernel_wf R d (m_kernel m') \<and>
    k_sched (m_kernel m') = k_sched (m_kernel m) \<and> k_exits (m_kernel m') = k_exits (m_kernel m) \<and>
    regs (k_frames (m_kernel m') i) ! 9 = usize_max"
proof -
  let ?f = "(k_frames (m_kernel m) i)\<lparr>regs := set_regs args (regs (k_frames (m_kernel m) i)), scause := 8, sepc := pc, sstatus := 0\<rparr>"
  let ?k = "put_frame (m_kernel m) ?f"
  have len: "length (regs (k_frames (m_kernel m) i)) = 31" using wf by (simp add: kernel_wf_def frames_ok_def)
  have d: "dispatch e ?k = Inr (set_reg ?k 9 usize_max, Resume)" using kernel_wf_cell(1) [OF wf] by (intro ref) simp_all
  have dec: "decode 8 = UserEcall" by (simp add: decode_def INTERRUPT_BIT_def Let_def)
  then have th: "trap_handler e 0 (m_kernel m) ?f = advance (set_reg ?k 9 usize_max) 4"
    by (simp add: trap_handler_def Let_def user_ecall_def d)
  obtain k1 where k1: "advance (set_reg ?k 9 usize_max) 4 = Inr k1" "k_sched k1 = k_sched (m_kernel m)"
      "k_exits k1 = k_exits (m_kernel m)" "regs (k_frames k1 i) ! 9 = usize_max"
    using pc len i by (auto simp: advance_def add_chk_def set_reg_def put_frame_def frame_def)
  have "admissible R (m_kernel m) ?f" using len iR i pc dec by (simp add: admissible_def fits_def)
  then have "kernel_wf R d k1" using trap_handler_Inr_safe [OF wf, of ?f e 0 k1] th k1(1) by (simp add: safe_to_def)
  then show ?thesis
    using i th k1 by (auto simp: user_trap_def trap_def settle_def Let_def)
qed

lemma exit_step_ends:
  assumes wf: "kernel_wf R d (m_kernel m)" and i: "cur (m_kernel m) \<in> R" and p: "m_prog m (cur (m_kernel m)) = sys_exit c"
  shows "\<exists>m'. machine_step env (Step pc clock) m = Inr m' \<and> ended (m_kernel m) (cur (m_kernel m)) c (m_kernel m')"
proof -
  let ?g = "(k_frames (m_kernel m) (cur (m_kernel m)))\<lparr>regs := set_regs [(16, 2), (9, c)] (regs (k_frames (m_kernel m) (cur (m_kernel m)))),
      scause := 8, sepc := pc, sstatus := 0\<rparr>"
  let ?k = "put_frame (m_kernel m) ?g"
  have len: "length (regs (k_frames (m_kernel m) (cur (m_kernel m)))) = 31" using wf by (simp add: kernel_wf_def frames_ok_def)
  have "kernel_wf R d ?k" "cur ?k \<noteq> d" using wf len i by (auto simp: kernel_wf_def intro!: frames_ok_put)
  from exit_current_ends [OF this, of c] obtain k' where k': "exit_current ?k (ExitedWith c) = Inr k'" "ended ?k (cur (m_kernel m)) c k'" by auto
  have "dispatch e ?k = Inr (?k, Exit c)" for e
    using len by (simp add: dispatch_def reg_def set_regs_def decode_syscall_def)
  then have "trap_handler e 0 (m_kernel m) ?g = Inr k'" for e
    using k'(1) by (simp add: trap_handler_def Let_def user_ecall_def decode_def INTERRUPT_BIT_def)
  then show ?thesis
    using p k'(2) by (simp add: machine_step_def Let_def sys_exit_def user_trap_def trap_def settle_def ended_def)
qed

lemma refusal_reported:
  assumes wf: "kernel_wf R d (m_kernel m)" and i: "i = cur (m_kernel m)" "i \<in> R"
    and p: "m_prog m i = Ecall args cont" and c: "\<And>r. r ! 9 = usize_max \<Longrightarrow> cont r = sys_exit code"
    and pc: "unat p1 + 4 < 2 ^ 64"
    and ref: "\<And>k. frame k = (k_frames (m_kernel m) i)\<lparr>regs := set_regs args (regs (k_frames (m_kernel m) i)), scause := 8, sepc := p1, sstatus := 0\<rparr> \<Longrightarrow>
      k_sched k = k_sched (m_kernel m) \<Longrightarrow> \<not> k_sched_in_use k \<Longrightarrow> dispatch (env i) k = Inr (set_reg k 9 usize_max, Resume)"
  shows "\<exists>m'. machine_run env [Step p1 c1, Step p2 c2, Step p3 c3] m = Inr m' \<and> ended (m_kernel m) i code (m_kernel m')"
proof -
  obtain m1 where u: "user_trap (env i) m p1 8 args (Resuming cont) = Inr m1" "m_prog m1 i = Resuming cont"
      "kernel_wf R d (m_kernel m1)" "k_sched (m_kernel m1) = k_sched (m_kernel m)" "k_exits (m_kernel m1) = k_exits (m_kernel m)"
      "regs (k_frames (m_kernel m1) i) ! 9 = usize_max"
    using refused_ecall [OF i(1) wf i(2) pc ref] by blast
  have s1: "machine_step env (Step p1 c1) m = Inr m1" using u(1) p i(1) by (simp add: machine_step_def Let_def)
  let ?m2 = "m1\<lparr>m_prog := (m_prog m1)(i := sys_exit code)\<rparr>"
  have s2: "machine_step env (Step p2 c2) m1 = Inr ?m2"
    using u i(1) c by (simp add: machine_step_def Let_def)
  obtain m3 where "machine_step env (Step p3 c3) ?m2 = Inr m3" "ended (m_kernel m1) i code (m_kernel m3)"
    using exit_step_ends [of R d ?m2 code env p3 c3] u(3,4) i by auto
  then show ?thesis using s1 s2 u(5) by (simp add: ended_def)
qed

text \<open>C39: A component without authority sees its system call refused, and goes on. From any well-formed state in which the running
  component is the rogue and holds no endpoint at its slot, or is the one without a session capability,
  three steps later the kernel has reported its exit with the code that reports the refusal, its slot is \<open>Exited\<close> and another
  task runs; nothing it did stopped the machine.\<close>
theorem refused_component_reports_it:
  assumes m: "machine_ok env calls R d m" "cur (m_kernel m) \<in> R"
    and t: "slot_of (k_sched (m_kernel m)) (cur (m_kernel m)) = Some t"
    and p: "m_prog m (cur (m_kernel m)) = rogue_task \<and> cap_lookup (t_caps t) EP_CAP = None \<and> code = 7 \<or>
      m_prog m (cur (m_kernel m)) = nocap_task \<and> \<not> has_session (t_caps t) SESSION_CAP \<and> code = NOCAP_CODE"
    and pc: "unat p1 + 4 < 2 ^ 64"
  shows "\<exists>m'. machine_run env [Step p1 c1, Step p2 c2, Step p3 c3] m = Inr m' \<and>
    ended (m_kernel m) (cur (m_kernel m)) code (m_kernel m')"
proof -
  have "user_prog (env (cur (m_kernel m))) (m_prog m (cur (m_kernel m)))" using m unfolding machine_ok_def progs_ok_def by metis
  then have wf: "kernel_wf R d (m_kernel m)" using machine_ok_free [OF m(1)] not_inside(1) by blast
  have len: "length (regs (k_frames (m_kernel m) (cur (m_kernel m)))) = 31" using wf by (simp add: kernel_wf_def frames_ok_def)
  from p show ?thesis
  proof (elim disjE conjE)
    assume r: "m_prog m (cur (m_kernel m)) = rogue_task" "cap_lookup (t_caps t) EP_CAP = None" "code = 7"
    show ?thesis
    proof (rule refusal_reported [OF wf refl m(2) r(1) [unfolded rogue_task_def sys_send_def] _ pc])
      fix k :: "'a kernel"
      assume f: "frame k = (k_frames (m_kernel m) (cur (m_kernel m)))\<lparr>regs := set_regs [(16, 4), (9, slot EP_CAP), (10, 0xdead), (11, 0), (12, 0), (13, 0)]
          (regs (k_frames (m_kernel m) (cur (m_kernel m)))), scause := 8, sepc := p1, sstatus := 0\<rparr>" and ks: "k_sched k = k_sched (m_kernel m)"
        and fr: "\<not> k_sched_in_use k"
      show "dispatch (env (cur (m_kernel m))) k = Inr (set_reg k 9 usize_max, Resume)"
        using f t r(2) len fr ks [symmetric] by (simp add: dispatch_def decode_syscall_def reg_def set_regs_def ipc_send_def send_step_def task_at_Some
            finish_send_def EP_CAP_def Let_def)
    qed (use r in \<open>simp_all add: sys_exit_def\<close>)
  next
    assume r: "m_prog m (cur (m_kernel m)) = nocap_task" "\<not> has_session (t_caps t) SESSION_CAP" "code = NOCAP_CODE"
    show ?thesis
    proof (rule refusal_reported [OF wf refl m(2) r(1) [unfolded nocap_task_def sys_seal_def] _ pc])
      fix k :: "'a kernel"
      assume f: "frame k = (k_frames (m_kernel m) (cur (m_kernel m)))\<lparr>regs := set_regs [(16, 13), (9, CHAN_PLAINTEXT)]
          (regs (k_frames (m_kernel m) (cur (m_kernel m)))), scause := 8, sepc := p1, sstatus := 0\<rparr>" and ks: "k_sched k = k_sched (m_kernel m)"
        and fr: "\<not> k_sched_in_use k"
      show "dispatch (env (cur (m_kernel m))) k = Inr (set_reg k 9 usize_max, Resume)"
        using f t r(2) len fr ks [symmetric] by (simp add: dispatch_def decode_syscall_def reg_def set_regs_def seal_def task_at_Some)
    qed (use r in \<open>simp_all add: sys_exit_def\<close>)
  qed
qed

text \<open>The rogue as the running task of a two-task table.\<close>

definition rogue_sched :: "task \<Rightarrow> task \<Rightarrow> sched" where
  "rogue_sched r i = \<lparr>s_tasks = [Some r, Some i] @ replicate 25 None, s_current = 0\<rparr>"

definition bare_task :: "task_state \<Rightarrow> relaunch_info option \<Rightarrow> task" where
  "bare_task st rl = \<lparr>t_context = zeroed, t_state = st, t_stack_top = 0x80010000, t_name = ''bare'', t_satp = 7,
     t_caps = [None, None, None, None], t_message = EMPTY_MSG, t_relaunch = rl, t_restarts = 0, t_crash_badge = 0, t_caller = None,
     t_pending_grant = None\<rparr>"

definition rogue_machine :: "unit machine" where
  "rogue_machine = launch_machine
     ((boot_kernel channel_init (rogue_sched (bare_task Running (Some \<lparr>entry_pc = 0x80200000, user_sp = 0x80300000\<rparr>)) (bare_task Ready None)))\<lparr>k_cont := (\<lambda>_. InTrap)\<rparr>)
     (\<lambda>i g. if i = 0 then rogue_task else KernelIdle)"

lemma rogue_machine_ok: "machine_ok own_stack_env False {0} 1 rogue_machine"
  "cur (m_kernel rogue_machine) = 0" "k_sched (m_kernel rogue_machine) =
     rogue_sched (bare_task Running (Some \<lparr>entry_pc = 0x80200000, user_sp = 0x80300000\<rparr>)) (bare_task Ready None)"
  "slot_of (k_sched (m_kernel rogue_machine)) 0 = Some (bare_task Running (Some \<lparr>entry_pc = 0x80200000, user_sp = 0x80300000\<rparr>))"
proof -
  let ?u = "bare_task Running (Some \<lparr>entry_pc = 0x80200000, user_sp = 0x80300000\<rparr>)" and ?i = "bare_task Ready None"
  have sl: "slot_of (rogue_sched ?u ?i) j = (if j = 0 then Some ?u else if j = 1 then Some ?i else None)" for j
    by (auto simp: slot_of_def rogue_sched_def nth_append nth_Cons split: nat.splits)
  have wf: "sched_wf {0} (rogue_sched ?u ?i)" "run_ok 1 (rogue_sched ?u ?i)"
    unfolding sched_wf_def run_ok_def sl
    by (auto simp: MAX_TASKS_def rogue_sched_def bare_task_def task_wf_def task_caps_def caps_of_def CAP_SLOTS_def state_ok_def split: if_splits)
  show ks: "k_sched (m_kernel rogue_machine) = rogue_sched ?u ?i" by (simp add: rogue_machine_def launch_machine_def boot_kernel_def)
  show c: "cur (m_kernel rogue_machine) = 0" unfolding ks by (simp add: rogue_sched_def)
  show "slot_of (k_sched (m_kernel rogue_machine)) 0 = Some ?u" unfolding ks sl by simp
  have "kernel_wf {0} 1 (m_kernel rogue_machine)"
    using wf c ks by (simp add: kernel_wf_def frames_ok_def rogue_machine_def launch_machine_def boot_kernel_def blank_frame_def heal_wf_init)
  then show "machine_ok own_stack_env False {0} 1 rogue_machine"
    using components_user_prog(9) not_inside(1) [OF components_user_prog(9)] release_free [of "m_kernel rogue_machine"]
    by (simp add: machine_ok_def code_ok_def progs_ok_def rogue_machine_def launch_machine_def boot_kernel_def)
qed

theorem refused_component_reports_it_witness:
  "\<exists>m'. machine_run own_stack_env [Step 0x80200000 (0, 0), Step 0x80200004 (0, 0), Step 0x80200008 (0, 0)] rogue_machine = Inr m' \<and>
     k_exits (m_kernel m') = [(0, ExitedWith 7)] \<and> cur (m_kernel m') \<noteq> 0"
proof -
  note r = rogue_machine_ok
  have p: "m_prog rogue_machine 0 = rogue_task" "k_exits (m_kernel rogue_machine) = []"
    by (simp_all add: rogue_machine_def launch_machine_def boot_kernel_def)
  have "cap_lookup (t_caps (bare_task st rl)) EP_CAP = None" for st rl
    by (simp add: bare_task_def cap_lookup_def cap_at_def get_def EP_CAP_def)
  then show ?thesis
    using refused_component_reports_it [OF r(1), where code = 7 and ?p1.0 = "0x80200000" and ?p2.0 = "0x80200004" and ?p3.0 = "0x80200008" and
        ?c1.0 = "(0, 0)" and ?c2.0 = "(0, 0)" and ?c3.0 = "(0, 0)"] r(2,4) p
    by (auto simp: ended_def)
qed

end
